(* ===== verification/Prelude.thy ===== *)
theory Prelude
  imports Main "HOL-Library.Word" "HOL-Library.AList" "HOL-Library.Multiset"
begin

text \<open>
  Shared vocabulary of the development: results of Go functions (a value, an error, a panic),
  Go maps and their iteration order, Go byte strings and the big-endian encoding of
  \<^verbatim>\<open>math/big\<close>, counting and the counting lemmas that every quorum argument of the consensus
  components rests on, and the named collections of simplification rules.
\<close>

section \<open>Collections\<close>

named_theorems go_simps \<open>rewriting of Go results and their sequencing\<close>
named_theorems gomap_simps \<open>lookups in updated Go maps\<close>
named_theorems quorum_simps \<open>counting of votes\<close>

section \<open>Results of Go functions\<close>

text \<open>
  A Go function returns a value, returns an error, or panics. The three outcomes are kept
  apart, because a caller that handles the error never sees the panic.
\<close>

datatype ('e, 'a) go = Ok 'a | Err 'e | Panic

fun go_bind :: "('e, 'a) go \<Rightarrow> ('a \<Rightarrow> ('e, 'b) go) \<Rightarrow> ('e, 'b) go" where
  "go_bind (Ok a) k = k a"
| "go_bind (Err e) k = Err e"
| "go_bind Panic k = Panic"

fun go_map :: "('a \<Rightarrow> 'b) \<Rightarrow> ('e, 'a) go \<Rightarrow> ('e, 'b) go" where
  "go_map f (Ok a) = Ok (f a)"
| "go_map f (Err e) = Err e"
| "go_map f Panic = Panic"

fun go_mapErr :: "('e \<Rightarrow> 'e2) \<Rightarrow> ('e, 'a) go \<Rightarrow> ('e2, 'a) go" where
  "go_mapErr f (Ok a) = Ok a"
| "go_mapErr f (Err e) = Err (f e)"
| "go_mapErr f Panic = Panic"

fun is_ok :: "('e, 'a) go \<Rightarrow> bool" where
  "is_ok (Ok _) = True"
| "is_ok _ = False"

text \<open>A loop over a slice whose body may fail: the first error or panic ends it.\<close>

fun go_mapM :: "('a \<Rightarrow> ('e, 'b) go) \<Rightarrow> 'a list \<Rightarrow> ('e, 'b list) go" where
  "go_mapM f [] = Ok []"
| "go_mapM f (x # xs) = go_bind (f x) (\<lambda>y. go_map ((#) y) (go_mapM f xs))"

fun go_foldM :: "('s \<Rightarrow> 'a \<Rightarrow> ('e, 's) go) \<Rightarrow> 's \<Rightarrow> 'a list \<Rightarrow> ('e, 's) go" where
  "go_foldM f s [] = Ok s"
| "go_foldM f s (x # xs) = go_bind (f s x) (\<lambda>s'. go_foldM f s' xs)"

section \<open>Go maps\<close>

text \<open>
  A Go map is an association list with distinct keys. Its order is one possible order in
  which a \<^verbatim>\<open>range\<close> loop visits it: Go leaves that order open, so a definition that ranges
  over a map it was given takes the list as it is, and a definition that ranges over a map it
  has built itself takes the iteration order as a function argument \<open>it\<close>, of which a theorem
  only assumes that it permutes (\<open>iteration_order it\<close>).
\<close>

type_synonym ('k, 'v) gomap = "('k \<times> 'v) list"

abbreviation gomap_wf :: "('k, 'v) gomap \<Rightarrow> bool" where
  "gomap_wf m \<equiv> distinct (map fst m)"

abbreviation gomap_dom :: "('k, 'v) gomap \<Rightarrow> 'k set" where
  "gomap_dom m \<equiv> fst ` set m"

definition put :: "'k \<Rightarrow> 'v \<Rightarrow> ('k, 'v) gomap \<Rightarrow> ('k, 'v) gomap" where
  "put k v m = AList.update k v m"

definition del :: "'k \<Rightarrow> ('k, 'v) gomap \<Rightarrow> ('k, 'v) gomap" where
  "del k m = AList.delete k m"

text \<open>\<^verbatim>\<open>m[k]++\<close>: a missing entry counts as zero.\<close>

definition count_of :: "('k, nat) gomap \<Rightarrow> 'k \<Rightarrow> nat" where
  "count_of m k = (case map_of m k of None \<Rightarrow> 0 | Some n \<Rightarrow> n)"

definition incr :: "'k \<Rightarrow> ('k, nat) gomap \<Rightarrow> ('k, nat) gomap" where
  "incr k m = put k (Suc (count_of m k)) m"

definition incr_all :: "'k list \<Rightarrow> ('k, nat) gomap \<Rightarrow> ('k, nat) gomap" where
  "incr_all ks m = fold incr ks m"

definition iteration_order :: "('a list \<Rightarrow> 'a list) \<Rightarrow> bool" where
  "iteration_order it \<longleftrightarrow> (\<forall>xs. mset (it xs) = mset xs)"

section \<open>Bytes\<close>

type_synonym byte = "8 word"
type_synonym bytes = "byte list"

text \<open>\<^verbatim>\<open>big.Int.Bytes\<close> (big-endian, no leading zero byte) and \<^verbatim>\<open>big.Int.SetBytes\<close>.\<close>

fun be_bytes :: "nat \<Rightarrow> bytes" where
  "be_bytes n = (if n = 0 then [] else be_bytes (n div 256) @ [of_nat (n mod 256)])"

declare be_bytes.simps [simp del]

definition be_nat :: "bytes \<Rightarrow> nat" where
  "be_nat bs = foldl (\<lambda>acc b. 256 * acc + unat b) 0 bs"

text \<open>Fixed-width big-endian encoding of \<^verbatim>\<open>encoding/binary\<close>.\<close>

fun be_fixed :: "nat \<Rightarrow> nat \<Rightarrow> bytes" where
  "be_fixed 0 n = []"
| "be_fixed (Suc w) n = be_fixed w (n div 256) @ [of_nat (n mod 256)]"

section \<open>Lemmas on results\<close>

lemma go_bind_eq_Ok [go_simps]:
  "go_bind x k = Ok b \<longleftrightarrow> (\<exists>a. x = Ok a \<and> k a = Ok b)"
  by (cases x) auto

lemma go_map_eq_Ok [go_simps]:
  "go_map f x = Ok b \<longleftrightarrow> (\<exists>a. x = Ok a \<and> b = f a)"
  by (cases x) auto

lemma go_bind_eq_Panic [go_simps]:
  "go_bind x k = Panic \<longleftrightarrow> x = Panic \<or> (\<exists>a. x = Ok a \<and> k a = Panic)"
  by (cases x) auto

lemma go_map_eq_Panic [go_simps]: "go_map f x = Panic \<longleftrightarrow> x = Panic"
  by (cases x) auto

lemma go_mapErr_eq_Ok [go_simps]: "go_mapErr f x = Ok b \<longleftrightarrow> x = Ok b"
  by (cases x) auto

lemma go_mapErr_eq_Panic [go_simps]: "go_mapErr f x = Panic \<longleftrightarrow> x = Panic"
  by (cases x) auto

lemma is_ok_iff: "is_ok x \<longleftrightarrow> (\<exists>a. x = Ok a)"
  by (cases x) auto

lemma go_mapM_Ok_map:
  "(\<And>x. x \<in> set xs \<Longrightarrow> f x = Ok (g x)) \<Longrightarrow> go_mapM f xs = Ok (map g xs)"
  by (induction xs) auto

lemma go_foldM_no_Panic:
  assumes "\<And>s x. P s \<Longrightarrow> x \<in> set xs \<Longrightarrow> f s x \<noteq> Panic"
    and "\<And>s x s'. P s \<Longrightarrow> x \<in> set xs \<Longrightarrow> f s x = Ok s' \<Longrightarrow> P s'"
    and "P s"
  shows "go_foldM f s xs \<noteq> Panic"
  using assms
proof (induction xs arbitrary: s)
  case Nil
  then show ?case by simp
next
  case (Cons x xs)
  show ?case
  proof (cases "f s x")
    case (Ok s')
    with Cons.prems have "P s'" by (meson list.set_intros(1))
    with Cons.prems(1,2) have "go_foldM f s' xs \<noteq> Panic"
      by (meson Cons.IH list.set_intros(2))
    with Ok show ?thesis by simp
  qed (use Cons.prems in auto)
qed

lemma go_foldM_invariant:
  assumes "go_foldM f s xs = Ok t" and "P s"
    and "\<And>s x s'. P s \<Longrightarrow> x \<in> set xs \<Longrightarrow> f s x = Ok s' \<Longrightarrow> P s'"
  shows "P t"
  using assms
proof (induction xs arbitrary: s)
  case Nil
  then show ?case by simp
next
  case (Cons x xs)
  from Cons.prems(1) obtain s' where s': "f s x = Ok s'" and rest: "go_foldM f s' xs = Ok t"
    by (auto simp: go_simps)
  from s' Cons.prems(2,3) have "P s'" by (meson list.set_intros(1))
  with rest Cons.prems(3) show ?case
    by (meson Cons.IH list.set_intros(2))
qed

lemma go_foldM_map: "go_foldM f s (map h xs) = go_foldM (\<lambda>s x. f s (h x)) s xs"
  by (induction xs arbitrary: s) (auto intro: arg_cong [where f = "go_bind _"])

lemma go_foldM_append: "go_foldM f s (xs @ ys) = go_bind (go_foldM f s xs) (\<lambda>s'. go_foldM f s' ys)"
proof (induction xs arbitrary: s)
  case (Cons x xs)
  then show ?case by (cases "f s x") simp_all
qed simp

lemma go_foldM_cong:
  "(\<And>s x. x \<in> set xs \<Longrightarrow> f s x = g s x) \<Longrightarrow> go_foldM f s xs = go_foldM g s xs"
proof (induction xs arbitrary: s)
  case (Cons x xs)
  then have "(\<lambda>s'. go_foldM f s' xs) = (\<lambda>s'. go_foldM g s' xs)" by simp
  with Cons.prems show ?case by simp
qed simp

lemma go_foldM_Ok_steps:
  assumes "go_foldM f s xs = Ok t" and "x \<in> set xs"
  shows "\<exists>s s'. f s x = Ok s'"
  using assms by (induction xs arbitrary: s) (auto simp: go_simps)

lemma go_foldM_total:
  assumes "\<And>s x. x \<in> set xs \<Longrightarrow> \<exists>s'. f s x = Ok s'"
  shows "\<exists>t. go_foldM f s xs = Ok t"
  using assms
proof (induction xs arbitrary: s)
  case (Cons x xs)
  from Cons.prems [of x s] obtain s' where "f s x = Ok s'" by auto
  moreover from Cons have "\<exists>t. go_foldM f s' xs = Ok t" by simp
  ultimately show ?case by simp
qed simp

lemma enumerate_map_upt: "enumerate 0 (map g [0..<n]) = map (\<lambda>i. (i, g i)) [0..<n]"
  by (rule nth_equalityI) (simp_all add: nth_enumerate_eq)

section \<open>Lemmas on Go maps\<close>

lemma map_of_put [simp, gomap_simps]: "map_of (put k v m) = (map_of m)(k \<mapsto> v)"
  by (simp add: put_def update_conv')

lemma map_of_del [simp, gomap_simps]: "map_of (del k m) = (map_of m)(k := None)"
  by (simp add: del_def delete_conv')

lemma gomap_wf_put [simp]: "gomap_wf m \<Longrightarrow> gomap_wf (put k v m)"
  by (simp add: put_def distinct_update)

lemma gomap_wf_del [simp]: "gomap_wf m \<Longrightarrow> gomap_wf (del k m)"
  by (simp add: del_def distinct_delete)

lemma gomap_dom_put [simp]: "gomap_dom (put k v m) = insert k (gomap_dom m)"
  by (simp add: put_def dom_update)

lemma gomap_dom_del [simp]: "gomap_dom (del k m) = gomap_dom m - {k}"
  by (auto simp: del_def AList.delete_eq)

lemma put_mem [simp]: "(k, v) \<in> set (put k v m)"
  by (metis map_of_SomeD map_of_put fun_upd_same)

lemma put_mem_snd [simp]: "v \<in> snd ` set (put k v m)"
  by (metis put_mem image_eqI snd_conv)

lemma put_new: "map_of m k = None \<Longrightarrow> put k v m = m @ [(k, v)]"
  unfolding put_def by (induction m) (auto split: if_splits)

lemma del_absent: "map_of m k = None \<Longrightarrow> del k m = m"
  unfolding del_def by (induction m) (auto split: if_splits)

lemma set_put: "gomap_wf m \<Longrightarrow> set (put k v m) = insert (k, v) {e \<in> set m. fst e \<noteq> k}"
  unfolding put_def by (induction m) (force split: if_splits)+

lemma snd_set_put: "gomap_wf m \<Longrightarrow> snd ` set (put k v m) \<subseteq> insert v (snd ` set m)"
  by (auto simp: set_put)

lemma put_same: "map_of m k = Some v \<Longrightarrow> put k v m = m"
  unfolding put_def by (induction m) (auto split: if_splits)

lemma set_del: "set (del k m) = {e \<in> set m. fst e \<noteq> k}"
  by (auto simp: del_def AList.delete_eq)

lemma gomap_domI [intro]: "map_of m k = Some v \<Longrightarrow> k \<in> gomap_dom m"
  by (metis domI dom_map_of_conv_image_fst)

lemma gomap_dom_iff: "k \<in> gomap_dom m \<longleftrightarrow> map_of m k \<noteq> None"
  by (simp add: map_of_eq_None_iff)

lemma map_of_permute:
  assumes "gomap_wf m" and "mset m' = mset m"
  shows "map_of m' = map_of m"
proof (rule map_of_inject_set [THEN iffD2])
  show "distinct (map fst m')"
    using assms by (metis distinct_map mset_eq_imp_distinct_iff mset_map set_mset_mset
        mset_eq_setD)
qed (use assms in \<open>auto dest: mset_eq_setD\<close>)

lemma gomap_wf_permute: "mset m' = mset m \<Longrightarrow> gomap_wf m' = gomap_wf m"
  by (metis mset_eq_imp_distinct_iff mset_map)

lemma iteration_orderD: "iteration_order it \<Longrightarrow> mset (it xs) = mset xs"
  by (simp add: iteration_order_def)

lemma iteration_order_set [simp]: "iteration_order it \<Longrightarrow> set (it xs) = set xs"
  by (metis iteration_orderD mset_eq_setD)

lemma iteration_order_length [simp]: "iteration_order it \<Longrightarrow> length (it xs) = length xs"
  by (metis iteration_orderD mset_eq_length)

lemma iteration_order_id [simp, intro]: "iteration_order (\<lambda>xs. xs)"
  and iteration_order_rev [simp, intro]: "iteration_order rev"
  by (simp_all add: iteration_order_def)

section \<open>Counting\<close>

lemma count_of_incr [simp, quorum_simps]:
  "count_of (incr k m) j = (if j = k then Suc (count_of m k) else count_of m j)"
  by (simp add: incr_def count_of_def)

lemma incr_all_Nil [simp]: "incr_all [] m = m"
  and incr_all_Cons [simp]: "incr_all (k # ks) m = incr_all ks (incr k m)"
  by (simp_all add: incr_all_def)

lemma gomap_wf_incr [simp]: "gomap_wf m \<Longrightarrow> gomap_wf (incr k m)"
  by (simp add: incr_def)

lemma gomap_dom_incr [simp]: "gomap_dom (incr k m) = insert k (gomap_dom m)"
  by (simp add: incr_def)

lemma gomap_wf_incr_all [simp]: "gomap_wf m \<Longrightarrow> gomap_wf (incr_all ks m)"
  by (induction ks arbitrary: m) auto

lemma gomap_dom_incr_all [simp]: "gomap_dom (incr_all ks m) = set ks \<union> gomap_dom m"
  by (induction ks arbitrary: m) auto

lemma count_of_incr_all [simp, quorum_simps]:
  "count_of (incr_all ks m) k = count_list ks k + count_of m k"
  by (induction ks arbitrary: m) auto

lemma count_of_Nil [simp]: "count_of [] k = 0"
  by (simp add: count_of_def)

lemma count_of_mem: "gomap_wf m \<Longrightarrow> (k, n) \<in> set m \<Longrightarrow> count_of m k = n"
  by (simp add: count_of_def)

text \<open>
  The counting principle behind every threshold: of the voters of a list without repetition, if
  more than \<open>f\<close> vote for something and at most \<open>f\<close> are faulty, one of the votes is honest.
\<close>

lemma honest_voter:
  assumes "distinct vs" and "length vs > f" and "finite bad" and "card bad \<le> f"
  shows "\<exists>v \<in> set vs. v \<notin> bad"
proof (rule ccontr)
  assume "\<not> ?thesis"
  then have "set vs \<subseteq> bad" by blast
  then have "card (set vs) \<le> f"
    using assms(3,4) card_mono le_trans by blast
  with assms(1,2) show False by (simp add: distinct_card)
qed

lemma honest_supporter:
  assumes "gomap_wf m" and "f < length (filter P (map snd m))"
    and "finite bad" and "card bad \<le> f"
  shows "\<exists>k v. (k, v) \<in> set m \<and> k \<notin> bad \<and> P v"
proof -
  have "distinct (map fst (filter (P \<circ> snd) m))"
    using assms(1) by (simp add: distinct_map_filter)
  moreover have "f < length (map fst (filter (P \<circ> snd) m))"
    using assms(2) by (simp add: filter_map)
  ultimately show ?thesis
    using honest_voter assms(3,4) by fastforce
qed

lemma card_voters:
  assumes "gomap_wf m"
  shows "card {k. \<exists>v. (k, v) \<in> set m \<and> P v} = length (filter P (map snd m))"
proof -
  have "{k. \<exists>v. (k, v) \<in> set m \<and> P v} = set (map fst (filter (P \<circ> snd) m))"
    by force
  moreover have "distinct (map fst (filter (P \<circ> snd) m))"
    using assms by (simp add: distinct_map_filter)
  ultimately show ?thesis
    by (metis distinct_card length_map filter_map)
qed

text \<open>A loop that writes one entry per element, under distinct keys.\<close>

lemma go_foldM_put:
  assumes "go_foldM f m xs = Ok m'" and "distinct xs" and "inj_on key (set xs)"
    and "\<And>m x m'. x \<in> set xs \<Longrightarrow> f m x = Ok m' \<Longrightarrow> m' = put (key x) (val x) m"
  shows "(\<forall>x\<in>set xs. map_of m' (key x) = Some (val x)) \<and>
         (\<forall>k. k \<notin> key ` set xs \<longrightarrow> map_of m' k = map_of m k)"
  using assms
proof (induction xs arbitrary: m)
  case (Cons x xs)
  from Cons.prems(1) obtain m1 where m1: "f m x = Ok m1" "go_foldM f m1 xs = Ok m'"
    by (auto simp: go_simps)
  with Cons.prems(4) have put: "m1 = put (key x) (val x) m" by simp
  have "(\<forall>x\<in>set xs. map_of m' (key x) = Some (val x)) \<and>
        (\<forall>k. k \<notin> key ` set xs \<longrightarrow> map_of m' k = map_of m1 k)"
    using Cons.prems by (intro Cons.IH [OF m1(2)]) auto
  moreover have "key x \<notin> key ` set xs"
    using Cons.prems(2,3) by auto
  ultimately show ?case by (simp add: put)
qed simp

lemma length_filter_disjoint:
  assumes "\<And>x. x \<in> set xs \<Longrightarrow> \<not> (P x \<and> Q x)"
  shows "length (filter P xs) + length (filter Q xs) \<le> length xs"
  using assms by (induction xs) auto

section \<open>Lemmas on bytes\<close>

lemma be_nat_snoc [simp]: "be_nat (bs @ [b]) = 256 * be_nat bs + unat b"
  by (simp add: be_nat_def)

lemma be_nat_Nil [simp]: "be_nat [] = 0"
  by (simp add: be_nat_def)

lemma unat_byte [simp]: "unat (word_of_nat (n mod 256) :: byte) = n mod 256"
  by (simp add: unat_of_nat)

lemma be_nat_be_bytes [simp]: "be_nat (be_bytes n) = n"
proof (induction n rule: be_bytes.induct)
  case (1 n)
  then show ?case by (cases "n = 0") (simp_all add: be_bytes.simps [of n] be_bytes.simps [of 0])
qed

lemma length_be_fixed [simp]: "length (be_fixed w n) = w"
  by (induction w arbitrary: n) auto

lemma be_nat_be_fixed [simp]: "be_nat (be_fixed w n) = n mod 256 ^ w"
proof (induction w arbitrary: n)
  case 0
  then show ?case by simp
next
  case (Suc w)
  have "256 * (n div 256 mod 256 ^ w) + n mod 256 = n mod (256 * 256 ^ w)"
    by (simp add: mod_mult2_eq)
  with Suc show ?case by simp
qed

end
