(* ===== verification/Values.thy ===== *)
theory Values
  imports Prelude "HOL-Library.Sublist"
begin

text \<open>
  The dynamic values that observations, configurations and reports are made of
  (\<^verbatim>\<open>pkg/values\<close>): the value type, its wire form (\<^verbatim>\<open>pkg/values/pb\<close>), wrapping of Go values,
  unwrapping into them, bounds-checked unwrapping of integers, deletion at a path.

  Conventions. \<open>VNil\<close> is the nil interface. A \<^verbatim>\<open>float64\<close> is its 64-bit pattern. A
  \<^verbatim>\<open>time.Time\<close> is its distance in nanoseconds from the Unix epoch. \<^verbatim>\<open>decimal.Decimal\<close>
  (shopspring), \<^verbatim>\<open>timestamppb\<close> and \<^verbatim>\<open>mapstructure\<close> are other people's packages: the type
  of decimals is the type variable \<open>'d\<close>, and the functions used of the three packages are the
  fields of the record \<open>vlib\<close>, whose documented behaviour is the predicate \<open>vlib_laws\<close>. The
  pointers inside a value object are not nil, as the constructors of the package and the
  decoding of wire messages make them.
\<close>

section \<open>Values and their wire form\<close>

type_synonym time = int
type_synonym int64 = "64 word"
type_synonym float64 = "64 word"

datatype 'd Value =
    VNil
  | VString string
  | VBool bool
  | VBytes bytes
  | VMap "(string \<times> 'd Value) list"
  | VList "'d Value list"
  | VDecimal 'd
  | VInt64 int64
  | VBigInt int
  | VTime time
  | VFloat64 float64

record pbBigInt =
  AbsVal :: bytes
  Sign :: int64

record pbDecimal =
  Coefficient :: "pbBigInt option"
  Exponent :: "32 word"

record timestamp =
  Seconds :: int
  Nanos :: int

text \<open>
  The oneof of the message \<^verbatim>\<open>Value\<close>; \<open>PNone\<close> is a message with no member set, which is
  how a nil value travels.
\<close>

datatype pbValue =
    PNone
  | PString string
  | PBool bool
  | PBytes bytes
  | PMap "(string \<times> pbValue) list"
  | PList "pbValue list"
  | PDecimal pbDecimal
  | PInt64 int64
  | PBigInt pbBigInt
  | PTime timestamp
  | PFloat64 float64

text \<open>
  The Go values that \<open>Wrap\<close> is given and \<open>Unwrap\<close> returns. \<open>AInt k n\<close> is the value \<open>n\<close>
  of the integer type \<open>k\<close>, \<open>AValue\<close> a value that is wrapped already, \<open>AOther\<close> a value
  of a kind that cannot be wrapped (a channel, a function, a complex number).
\<close>

datatype int_kind =
    KInt64 | KInt32 | KInt16 | KInt8 | KInt
  | KUint64 | KUint32 | KUint16 | KUint8 | KUint

datatype 'd any =
    ANil
  | AString string
  | ABool bool
  | ABytes bytes
  | AMap "(string \<times> 'd any) list"
  | ASlice "'d any list"
  | ADecimal 'd
  | AInt int_kind int
  | ABigInt int
  | ATime time
  | AFloat64 float64
  | AValue "'d Value"
  | AOther

datatype verr =
    CouldNotWrap | TooLargeFor int_kind | TooSmallFor int_kind
  | LargerThanUint64 | CannotUnwrap | DecodeErr

text \<open>What the package uses of \<^verbatim>\<open>decimal\<close>, \<^verbatim>\<open>timestamppb\<close> and \<^verbatim>\<open>mapstructure\<close>.\<close>

record 'd vlib =
  dCoefficient :: "'d \<Rightarrow> int"
  dExponent :: "'d \<Rightarrow> 32 word"
  dNewFromBigInt :: "int option \<Rightarrow> 32 word \<Rightarrow> 'd"
  tsNew :: "time \<Rightarrow> timestamp"
  tsAsTime :: "timestamp \<Rightarrow> time"
  msDecode :: "(string \<times> 'd any) list \<Rightarrow> (verr, (string \<times> 'd any) list) go"

definition vlib_laws :: "'d vlib \<Rightarrow> bool" where
  "vlib_laws L \<longleftrightarrow>
     (\<forall>d. dNewFromBigInt L (Some (dCoefficient L d)) (dExponent L d) = d) \<and>
     (\<forall>t. tsAsTime L (tsNew L t) = t) \<and>
     (\<forall>m. msDecode L m = Ok m)"

section \<open>Conversion to and from the wire form\<close>

definition big_sign :: "int \<Rightarrow> int64" where
  "big_sign n = (if n = 0 then 0 else if n < 0 then -1 else 1)"

definition NewBigIntValue :: "int \<Rightarrow> pbBigInt" where
  "NewBigIntValue n = \<lparr>AbsVal = be_bytes (nat \<bar>n\<bar>), Sign = big_sign n\<rparr>"

definition NewDecimalValue :: "'d vlib \<Rightarrow> 'd \<Rightarrow> pbDecimal" where
  "NewDecimalValue L d =
     \<lparr>Coefficient = Some (NewBigIntValue (dCoefficient L d)), Exponent = dExponent L d\<rparr>"

primrec Proto :: "'d vlib \<Rightarrow> 'd Value \<Rightarrow> pbValue" where
  "Proto L VNil = PNone"
| "Proto L (VString s) = PString s"
| "Proto L (VBool b) = PBool b"
| "Proto L (VBytes b) = PBytes b"
| "Proto L (VMap m) = PMap (map (map_prod (\<lambda>k. k) (Proto L)) m)"
| "Proto L (VList l) = PList (map (Proto L) l)"
| "Proto L (VDecimal d) = PDecimal (NewDecimalValue L d)"
| "Proto L (VInt64 i) = PInt64 i"
| "Proto L (VBigInt b) = PBigInt (NewBigIntValue b)"
| "Proto L (VTime t) = PTime (tsNew L t)"
| "Proto L (VFloat64 f) = PFloat64 f"

definition protoToBigInt :: "pbBigInt \<Rightarrow> int" where
  "protoToBigInt biv =
     (let av = int (be_nat (AbsVal biv)) in if Sign biv <s 0 then - av else av)"

definition fromDecimalValueProto :: "'d vlib \<Rightarrow> pbDecimal \<Rightarrow> 'd" where
  "fromDecimalValueProto L dec =
     dNewFromBigInt L (map_option protoToBigInt (Coefficient dec)) (Exponent dec)"

primrec FromProto :: "'d vlib \<Rightarrow> pbValue \<Rightarrow> 'd Value" where
  "FromProto L PNone = VNil"
| "FromProto L (PString s) = VString s"
| "FromProto L (PBool b) = VBool b"
| "FromProto L (PDecimal d) = VDecimal (fromDecimalValueProto L d)"
| "FromProto L (PInt64 i) = VInt64 i"
| "FromProto L (PBytes b) = VBytes b"
| "FromProto L (PList l) = VList (map (FromProto L) l)"
| "FromProto L (PMap m) = VMap (map (map_prod (\<lambda>k. k) (FromProto L)) m)"
| "FromProto L (PBigInt b) = VBigInt (protoToBigInt b)"
| "FromProto L (PTime t) = VTime (tsAsTime L t)"
| "FromProto L (PFloat64 f) = VFloat64 f"

definition FromMapValueProto ::
    "'d vlib \<Rightarrow> (string \<times> pbValue) list option \<Rightarrow> (string \<times> 'd Value) list option" where
  "FromMapValueProto L mv =
     (case mv of None \<Rightarrow> None | Some fs \<Rightarrow> Some (map (map_prod (\<lambda>k. k) (FromProto L)) fs))"

definition FromListValueProto ::
    "'d vlib \<Rightarrow> pbValue list option \<Rightarrow> 'd Value list option" where
  "FromListValueProto L lv =
     (case lv of None \<Rightarrow> None | Some fs \<Rightarrow> Some (map (FromProto L) fs))"

text \<open>\<^verbatim>\<open>ProtoMap\<close>: the fields of the wire form of a map.\<close>

definition ProtoMap :: "'d vlib \<Rightarrow> (string \<times> 'd Value) list \<Rightarrow> (string \<times> pbValue) list" where
  "ProtoMap L m = (case Proto L (VMap m) of PMap fs \<Rightarrow> fs | _ \<Rightarrow> [])"

section \<open>Copies\<close>

text \<open>A deep copy rebuilds the value node by node.\<close>

primrec Copy :: "'d Value \<Rightarrow> 'd Value" where
  "Copy VNil = VNil"
| "Copy (VString s) = VString s"
| "Copy (VBool b) = VBool b"
| "Copy (VBytes b) = VBytes b"
| "Copy (VMap m) = VMap (map (map_prod (\<lambda>k. k) Copy) m)"
| "Copy (VList l) = VList (map Copy l)"
| "Copy (VDecimal d) = VDecimal d"
| "Copy (VInt64 i) = VInt64 i"
| "Copy (VBigInt b) = VBigInt b"
| "Copy (VTime t) = VTime t"
| "Copy (VFloat64 f) = VFloat64 f"

section \<open>Wrapping and unwrapping\<close>

text \<open>
  The integer cases of \<open>Wrap\<close>: every type is converted to \<^verbatim>\<open>int64\<close>, but an unsigned 64-bit
  value above the largest \<^verbatim>\<open>int64\<close> becomes a big integer.
\<close>

definition MaxInt64 :: int where "MaxInt64 = 2 ^ 63 - 1"

definition wrap_int :: "int_kind \<Rightarrow> int \<Rightarrow> 'd Value" where
  "wrap_int k n =
     (if k = KUint64 \<and> n > MaxInt64 then VBigInt n else VInt64 (word_of_int n))"

primrec Wrap :: "'d any \<Rightarrow> (verr, 'd Value) go" where
  "Wrap ANil = Ok VNil"
| "Wrap (AString s) = Ok (VString s)"
| "Wrap (ABool b) = Ok (VBool b)"
| "Wrap (ABytes b) = Ok (VBytes b)"
| "Wrap (AMap m) =
     go_map VMap (go_mapM (\<lambda>(k, r). go_map (Pair k) r) (map (map_prod (\<lambda>k. k) Wrap) m))"
| "Wrap (ASlice l) = go_map VList (go_mapM (\<lambda>r. r) (map Wrap l))"
| "Wrap (ADecimal d) = Ok (VDecimal d)"
| "Wrap (AInt k n) = Ok (wrap_int k n)"
| "Wrap (ABigInt b) = Ok (VBigInt b)"
| "Wrap (ATime t) = Ok (VTime t)"
| "Wrap (AFloat64 f) = Ok (VFloat64 f)"
| "Wrap (AValue v) = Ok v"
| "Wrap AOther = Err CouldNotWrap"

text \<open>\<^verbatim>\<open>NewMap\<close>: wraps the entries of a Go map.\<close>

definition NewMap :: "(string \<times> 'd any) list \<Rightarrow> (verr, (string \<times> 'd Value) list) go" where
  "NewMap m = go_mapM (\<lambda>(k, a). go_map (Pair k) (Wrap a)) m"

text \<open>
  Unwrapping a map goes through \<^verbatim>\<open>mapstructure\<close>, whose hook (\<^verbatim>\<open>mapValueToMap\<close>) unwraps
  every entry first.
\<close>

primrec Unwrap :: "'d vlib \<Rightarrow> 'd Value \<Rightarrow> (verr, 'd any) go" where
  "Unwrap L VNil = Ok ANil"
| "Unwrap L (VString s) = Ok (AString s)"
| "Unwrap L (VBool b) = Ok (ABool b)"
| "Unwrap L (VBytes b) = Ok (ABytes b)"
| "Unwrap L (VMap m) =
     go_bind (go_mapM (\<lambda>(k, r). go_map (Pair k) r) (map (map_prod (\<lambda>k. k) (Unwrap L)) m))
       (\<lambda>d. go_map AMap (msDecode L d))"
| "Unwrap L (VList l) = go_map ASlice (go_mapM (\<lambda>r. r) (map (Unwrap L) l))"
| "Unwrap L (VDecimal d) = Ok (ADecimal d)"
| "Unwrap L (VInt64 i) = Ok (AInt KInt64 (sint i))"
| "Unwrap L (VBigInt b) = Ok (ABigInt b)"
| "Unwrap L (VTime t) = Ok (ATime t)"
| "Unwrap L (VFloat64 f) = Ok (AFloat64 f)"

section \<open>Unwrapping integers\<close>

fun kind_min :: "int_kind \<Rightarrow> int" where
  "kind_min KInt64 = - (2 ^ 63)"
| "kind_min KInt32 = - (2 ^ 31)"
| "kind_min KInt16 = - (2 ^ 15)"
| "kind_min KInt8 = - (2 ^ 7)"
| "kind_min KInt = - (2 ^ 63)"
| "kind_min _ = 0"

fun kind_max :: "int_kind \<Rightarrow> int" where
  "kind_max KInt64 = 2 ^ 63 - 1"
| "kind_max KInt32 = 2 ^ 31 - 1"
| "kind_max KInt16 = 2 ^ 15 - 1"
| "kind_max KInt8 = 2 ^ 7 - 1"
| "kind_max KInt = 2 ^ 63 - 1"
| "kind_max KUint64 = 2 ^ 64 - 1"
| "kind_max KUint32 = 2 ^ 32 - 1"
| "kind_max KUint16 = 2 ^ 16 - 1"
| "kind_max KUint8 = 2 ^ 8 - 1"
| "kind_max KUint = 2 ^ 64 - 1"

text \<open>The errors carry the wording of the source: ``too large'' when the value is below.\<close>

definition verifyBounds :: "int \<Rightarrow> int \<Rightarrow> int64 \<Rightarrow> int_kind \<Rightarrow> (verr, unit) go" where
  "verifyBounds lo hi v tpe =
     (if sint v < lo then Err (TooLargeFor tpe)
      else if sint v > hi then Err (TooSmallFor tpe)
      else Ok ())"

text \<open>
  \<^verbatim>\<open>Int64.UnwrapTo\<close> into a pointer to an integer of kind \<open>k\<close>, on a 64-bit platform. The
  unsigned 64-bit kinds only check the sign.
\<close>

fun Int64_UnwrapTo :: "int_kind \<Rightarrow> int64 \<Rightarrow> (verr, int) go" where
  "Int64_UnwrapTo KInt64 v = Ok (sint v)"
| "Int64_UnwrapTo KUint64 v = (if sint v < 0 then Err (TooSmallFor KUint64) else Ok (uint v))"
| "Int64_UnwrapTo KUint v = (if sint v < 0 then Err (TooSmallFor KUint64) else Ok (uint v))"
| "Int64_UnwrapTo k v = go_map (\<lambda>_. sint v) (verifyBounds (kind_min k) (kind_max k) v k)"

text \<open>
  \<^verbatim>\<open>BigInt.UnwrapTo\<close> into a pointer to an integer of kind \<open>k\<close>. \<^verbatim>\<open>big.Int.Uint64\<close> returns
  the low 64 bits of the absolute value. A pointer to any other integer kind is neither
  convertible to \<^verbatim>\<open>*big.Int\<close> nor to \<^verbatim>\<open>*uint64\<close>, and a pointer is no integer, so that the
  last case of the source's default branch is not reached.
\<close>

definition big_Uint64 :: "int \<Rightarrow> int" where
  "big_Uint64 n = \<bar>n\<bar> mod 2 ^ 64"

fun BigInt_UnwrapTo :: "int_kind \<Rightarrow> int \<Rightarrow> (verr, int) go" where
  "BigInt_UnwrapTo KUint64 n =
     (if n > 2 ^ 64 - 1 then Err LargerThanUint64 else Ok (big_Uint64 n))"
| "BigInt_UnwrapTo k n = Err CannotUnwrap"

section \<open>Paths\<close>

text \<open>\<^verbatim>\<open>strings.Split\<close> with a separator of one character.\<close>

fun split_on :: "char \<Rightarrow> string \<Rightarrow> string list" where
  "split_on c [] = [[]]"
| "split_on c (x # xs) =
     (if x = c then [] # split_on c xs
      else (case split_on c xs of [] \<Rightarrow> [[x]] | y # ys \<Rightarrow> (x # y) # ys))"

fun delete_segments ::
    "string list \<Rightarrow> (string \<times> 'd Value) list \<Rightarrow> (string \<times> 'd Value) list \<times> bool" where
  "delete_segments [] m = (m, False)"
| "delete_segments [s] m =
     (case map_of m s of None \<Rightarrow> (m, False) | Some _ \<Rightarrow> (del s m, True))"
| "delete_segments (s # t # ts) m =
     (case map_of m s of
        Some (VMap inner) \<Rightarrow>
          (case delete_segments (t # ts) inner of (inner', b) \<Rightarrow> (put s (VMap inner') m, b))
      | _ \<Rightarrow> (m, False))"

definition DeleteAtPath ::
    "string \<Rightarrow> (string \<times> 'd Value) list \<Rightarrow> (string \<times> 'd Value) list \<times> bool" where
  "DeleteAtPath path m = delete_segments (split_on (CHR ''.'') path) m"

text \<open>The value at a path, the reading counterpart the deletion is specified against.\<close>

fun value_at :: "string list \<Rightarrow> (string \<times> 'd Value) list \<Rightarrow> 'd Value option" where
  "value_at [] m = None"
| "value_at [s] m = map_of m s"
| "value_at (s # t # ts) m =
     (case map_of m s of Some (VMap inner) \<Rightarrow> value_at (t # ts) inner | _ \<Rightarrow> None)"

section \<open>Round trips\<close>

lemma protoToBigInt_NewBigIntValue [simp]: "protoToBigInt (NewBigIntValue n) = n"
  by (auto simp: protoToBigInt_def NewBigIntValue_def big_sign_def Let_def word_sless_alt)

lemma fromDecimal_NewDecimal [simp]:
  "vlib_laws L \<Longrightarrow> fromDecimalValueProto L (NewDecimalValue L d) = d"
  by (simp add: fromDecimalValueProto_def NewDecimalValue_def vlib_laws_def)

lemma map_map_prod_id:
  assumes "\<And>k v. (k, v) \<in> set m \<Longrightarrow> f v = v"
  shows "map (map_prod (\<lambda>k. k) f) m = m"
  by (rule map_idI) (use assms in auto)

lemma FromProto_Proto:
  assumes "vlib_laws L"
  shows "FromProto L (Proto L v) = v"
proof (induction v)
  case (VMap m)
  have "map (map_prod (\<lambda>k. k) (\<lambda>v. FromProto L (Proto L v))) m = m"
    by (rule map_map_prod_id) (use VMap in fastforce)
  then show ?case by (simp add: comp_def prod.map_comp)
next
  case (VList l)
  then show ?case by (simp add: map_idI)
qed (use assms in \<open>simp_all add: vlib_laws_def\<close>)

lemma Copy_id [simp]: "Copy v = v"
proof (induction v)
  case (VMap m)
  have "map (map_prod (\<lambda>k. k) Copy) m = m"
    by (rule map_map_prod_id) (use VMap in fastforce)
  then show ?case by simp
qed (simp_all add: map_idI)

lemma wrap_int_KInt64 [simp]: "wrap_int KInt64 (sint i) = VInt64 i"
  by (simp add: wrap_int_def)

lemma go_mapM_Pair_Ok:
  assumes "\<And>k v. (k, v) \<in> set m \<Longrightarrow> \<exists>a. f v = Ok a \<and> P v a"
  shows "\<exists>as. go_mapM (\<lambda>(k, r). go_map (Pair k) r) (map (map_prod (\<lambda>k. k) f) m) = Ok as \<and>
           list_all2 (\<lambda>(k, v) (j, a). k = j \<and> P v a) m as"
  using assms
proof (induction m)
  case Nil
  then show ?case by simp
next
  case (Cons e m)
  obtain k v where e: "e = (k, v)" by (cases e)
  from Cons.prems [of k v] e obtain a where a: "f v = Ok a" "P v a" by auto
  from Cons.IH Cons.prems obtain as where
    "go_mapM (\<lambda>(k, r). go_map (Pair k) r) (map (map_prod (\<lambda>k. k) f) m) = Ok as"
    "list_all2 (\<lambda>(k, v) (j, a). k = j \<and> P v a) m as"
    by (metis list.set_intros(2))
  with a e show ?case by (intro exI [of _ "(k, a) # as"]) simp
qed

text \<open>Rewrapping what unwrapping returns gives the value back.\<close>

lemma Wrap_mapM:
  assumes "list_all2 (\<lambda>(k, v) (j, a). k = j \<and> Wrap a = Ok v) m as"
  shows "go_mapM (\<lambda>(k, r). go_map (Pair k) r) (map (map_prod (\<lambda>k. k) Wrap) as) = Ok m"
  using assms by (induction rule: list_all2_induct) auto

lemma Unwrap_Wrap:
  assumes "vlib_laws L"
  shows "\<exists>a. Unwrap L v = Ok a \<and> Wrap a = Ok v"
proof (induction v)
  case (VMap m)
  have "\<exists>as. go_mapM (\<lambda>(k, r). go_map (Pair k) r) (map (map_prod (\<lambda>k. k) (Unwrap L)) m) = Ok as \<and>
          list_all2 (\<lambda>(k, v) (j, a). k = j \<and> Wrap a = Ok v) m as"
    by (rule go_mapM_Pair_Ok) (use VMap in fastforce)
  then show ?case
    using assms by (auto simp: vlib_laws_def dest: Wrap_mapM)
next
  case (VList l)
  then have "\<exists>as. go_mapM (\<lambda>r. r) (map (Unwrap L) l) = Ok as \<and>
      go_mapM (\<lambda>r. r) (map Wrap as) = Ok l"
    by (induction l) fastforce+
  then show ?case by fastforce
qed simp_all

section \<open>Bounds\<close>

lemma sint_int64_range: "- (2 ^ 63) \<le> sint (v :: int64)" "sint (v :: int64) < 2 ^ 63"
  using sint_range_size [of v] by (simp_all add: word_size)

lemma uint_sint_nonneg: "0 \<le> sint (v :: int64) \<Longrightarrow> uint v = sint v"
  using sint_int64_range [of v] by (simp add: uint_sint take_bit_int_eq_self)

lemma sint_of_large:
  assumes "2 ^ 63 \<le> n" and "n < 2 ^ 64"
  shows "sint (word_of_int n :: int64) = n - 2 ^ 64"
proof -
  have "(n + 2 ^ 63) mod 2 ^ 64 = n - 2 ^ 63"
    using assms by (simp add: mod_pos_geq)
  then show ?thesis
    by (simp add: sint_sbintrunc' signed_take_bit_eq_take_bit_shift take_bit_eq_mod)
qed

lemma Int64_UnwrapTo_iff:
  "Int64_UnwrapTo k v = Ok n \<longleftrightarrow>
     n = sint v \<and> kind_min k \<le> sint v \<and> sint v \<le> kind_max k"
  using sint_int64_range [of v] uint_sint_nonneg [of v]
  by (cases k) (auto simp: verifyBounds_def)

section \<open>Deletion at a path\<close>

lemma delete_segments_False:
  "delete_segments p m = (m', False) \<Longrightarrow> m' = m"
proof (induction p m arbitrary: m' rule: delete_segments.induct)
  case (3 s t ts m)
  then show ?case
    by (fastforce simp: put_same split: option.splits Value.splits prod.splits)
qed (auto split: option.splits)

lemma value_at_delete_same:
  "delete_segments p m = (m', True) \<Longrightarrow> value_at p m' = None"
proof (induction p m arbitrary: m' rule: delete_segments.induct)
  case (3 s t ts m)
  then show ?case
    by (auto split: option.splits Value.splits prod.splits)
qed (auto split: option.splits)

lemma value_at_delete_other:
  "delete_segments p m = (m', b) \<Longrightarrow> \<not> prefix p q \<Longrightarrow> \<not> prefix q p \<Longrightarrow>
     value_at q m' = value_at q m"
proof (induction p m arbitrary: m' b q rule: delete_segments.induct)
  case (2 s m)
  then show ?case
    by (cases q rule: list.exhaust; cases "tl q") (auto split: option.splits if_splits)
next
  case (3 s t ts m)
  show ?case
  proof (cases "\<exists>inner u us. map_of m s = Some (VMap inner) \<and> q = s # u # us")
    case True
    then obtain inner u us where m: "map_of m s = Some (VMap inner)" and q: "q = s # u # us"
      by blast
    obtain inner' b' where d: "delete_segments (t # ts) inner = (inner', b')"
      by fastforce
    have "value_at (u # us) inner' = value_at (u # us) inner"
      using "3.prems"(2,3) q by (intro "3.IH" [OF m refl d]) auto
    with "3.prems"(1) m d q show ?thesis by auto
  next
    case False
    with "3.prems" show ?thesis
      by (cases q; cases "tl q") (auto split: option.splits Value.splits prod.splits)
  qed
qed simp

lemma delete_segments_found_iff: "snd (delete_segments p m) \<longleftrightarrow> value_at p m \<noteq> None"
proof (induction p m rule: delete_segments.induct)
  case (3 s t ts m)
  then show ?case
    by (auto split: option.splits Value.splits prod.splits)
qed (auto split: option.splits)

section \<open>Maps of wrapped values\<close>

lemma NewMap_AValue: "NewMap (map (\<lambda>(k, v). (k, AValue v)) m) = Ok m"
  unfolding NewMap_def by (induction m) auto

lemma NewMap_values:
  assumes "\<forall>(k, a)\<in>set m. \<exists>v. a = AValue v"
  shows "\<exists>w. NewMap m = Ok w \<and> m = map (\<lambda>(k, v). (k, AValue v)) w"
proof -
  from assms have "\<exists>w. m = map (\<lambda>(k, v). (k, AValue v)) w"
  proof (induction m)
    case (Cons e m)
    then obtain k v w where "e = (k, AValue v)" "m = map (\<lambda>(k, v). (k, AValue v)) w"
      by auto
    then show ?case by (intro exI [of _ "(k, v) # w"]) simp
  qed simp
  then show ?thesis using NewMap_AValue by blast
qed

lemma map_of_AValue: "map_of (map (\<lambda>(k, v). (k, AValue v)) m) k = map_option AValue (map_of m k)"
  by (induction m) auto

lemma map_of_ProtoMap: "map_of (ProtoMap L m) k = map_option (Proto L) (map_of m k)"
  by (simp add: ProtoMap_def map_prod_def map_of_map)

lemma FromMap_ProtoMap:
  assumes "vlib_laws L"
  shows "FromMapValueProto L (Some (ProtoMap L m)) = Some m"
proof -
  have "FromProto L (Proto L (VMap m)) = VMap m" by (rule FromProto_Proto [OF assms])
  then show ?thesis
    by (simp add: FromProto_Proto [OF assms] FromMapValueProto_def ProtoMap_def comp_def)
qed

lemma Wrap_AMap: "Wrap (AMap m) = go_map VMap (NewMap m)"
proof -
  have "go_mapM (\<lambda>(k, r). go_map (Pair k) r) (map (map_prod (\<lambda>k. k) Wrap) m) = NewMap m"
    unfolding NewMap_def by (induction m) (auto simp: split_beta)
  then show ?thesis by simp
qed

section \<open>Properties\<close>

text \<open>
  Wire round trip: decoding the wire form of a value gives the value back, for every value
  (nested maps and lists, decimals, big integers of either sign, the nil value).
\<close>

lemma proto_roundtrip:
  assumes "vlib_laws L"
  shows "FromProto L (Proto L v) = v \<and>
    FromListValueProto L (Some (map (Proto L) vs)) = Some vs \<and>
    FromMapValueProto L (Some (ProtoMap L m)) = Some m"
proof -
  have "FromProto L (Proto L (VMap m)) = VMap m"
    by (rule FromProto_Proto [OF assms])
  then show ?thesis
    by (simp add: FromProto_Proto [OF assms] FromListValueProto_def FromMapValueProto_def
        ProtoMap_def comp_def)
qed

text \<open>
  Decimals as pairs of coefficient and exponent: an instance of the three packages that the
  witnesses evaluate.
\<close>

definition pair_vlib :: "(int \<times> 32 word) vlib" where
  "pair_vlib = \<lparr>dCoefficient = fst, dExponent = snd,
     dNewFromBigInt = (\<lambda>c e. ((case c of None \<Rightarrow> 0 | Some n \<Rightarrow> n), e)),
     tsNew = (\<lambda>t. \<lparr>Seconds = t div 10 ^ 9, Nanos = t mod 10 ^ 9\<rparr>),
     tsAsTime = (\<lambda>ts. Seconds ts * 10 ^ 9 + Nanos ts),
     msDecode = Ok\<rparr>"

lemma pair_vlib_laws [simp]: "vlib_laws pair_vlib"
  by (simp add: vlib_laws_def pair_vlib_def)

lemma proto_roundtrip_witness:
  "FromProto pair_vlib (Proto pair_vlib (VMap [(''a'', VBigInt (-300)), (''b'', VList [VNil, VBool True])])) =
     VMap [(''a'', VBigInt (-300)), (''b'', VList [VNil, VBool True])]"
  using proto_roundtrip [OF pair_vlib_laws] by blast

text \<open>
  Rewrapping: unwrapping a value into Go data never fails and wrapping the result gives the
  same value, so that an aggregator that extracts a field of an observation and wraps it again
  works on the value the node sent.
\<close>

lemma unwrap_wrap_roundtrip:
  assumes "vlib_laws L"
  shows "go_bind (Unwrap L v) Wrap = Ok v"
  using Unwrap_Wrap [OF assms, of v] by auto

lemma unwrap_wrap_roundtrip_witness:
  "go_bind (Unwrap pair_vlib (VMap [(''x'', VList [VInt64 (-5), VString ''s''])])) Wrap =
     Ok (VMap [(''x'', VList [VInt64 (-5), VString ''s''])])"
  by (rule unwrap_wrap_roundtrip [OF pair_vlib_laws])

text \<open>
  Integer bounds: unwrapping an \<^verbatim>\<open>Int64\<close> into an integer kind succeeds exactly when the value
  lies within the bounds of the kind, and then stores the value unchanged: no conversion of an
  \<^verbatim>\<open>Int64\<close> wraps around.
\<close>

lemma int64_unwrap_exact:
  "Int64_UnwrapTo k v = Ok n \<longleftrightarrow> n = sint v \<and> n \<in> {kind_min k .. kind_max k}"
  by (auto simp: Int64_UnwrapTo_iff)

text \<open>
  The integer conversions that do not keep the value. Wrapping a \<^verbatim>\<open>uint\<close> above the largest
  \<^verbatim>\<open>int64\<close> gives a negative \<^verbatim>\<open>Int64\<close> (the same number as a \<^verbatim>\<open>uint64\<close> becomes a big integer and
  keeps its value), and a negative \<^verbatim>\<open>BigInt\<close> unwraps into a \<^verbatim>\<open>uint64\<close> without an error, as its
  absolute value.
\<close>

lemma integer_conversions_lossy:
  assumes "MaxInt64 < n" and "n < 2 ^ 64"
  shows "Wrap (AInt KUint64 n) = Ok (VBigInt n) \<and>
    (\<exists>w. Wrap (AInt KUint n) = Ok (VInt64 w) \<and> sint w = n - 2 ^ 64) \<and>
    BigInt_UnwrapTo KUint64 (- n) = Ok n"
  using assms sint_of_large [of n] by (simp add: wrap_int_def big_Uint64_def MaxInt64_def)

lemma integer_conversions_lossy_witness:
  "Wrap (AInt KUint (2 ^ 63)) = Ok (VInt64 (2 ^ 63)) \<and> sint (2 ^ 63 :: int64) = - (2 ^ 63) \<and>
   BigInt_UnwrapTo KUint64 (- (2 ^ 63)) = Ok (2 ^ 63)"
  using integer_conversions_lossy [of "2 ^ 63"] by (simp add: MaxInt64_def wrap_int_def)

text \<open>
  Deletion at a path: the result says whether the path was there; a deleted path is gone, a
  path that is not found leaves the map as it was, and every other path (neither above nor below
  the deleted one) keeps its value.
\<close>

lemma delete_at_path_correct:
  assumes "DeleteAtPath path m = (m', found)"
  shows "(found \<longleftrightarrow> value_at (split_on (CHR ''.'') path) m \<noteq> None) \<and>
    (found \<longrightarrow> value_at (split_on (CHR ''.'') path) m' = None) \<and>
    (\<not> found \<longrightarrow> m' = m) \<and>
    (\<forall>q. \<not> prefix (split_on (CHR ''.'') path) q \<longrightarrow>
         \<not> prefix q (split_on (CHR ''.'') path) \<longrightarrow> value_at q m' = value_at q m)"
  using assms delete_segments_found_iff [of "split_on (CHR ''.'') path" m]
  by (auto simp: DeleteAtPath_def dest: delete_segments_False value_at_delete_same
      value_at_delete_other)

lemma delete_at_path_correct_witness:
  "value_at [''a'', ''b''] (fst (DeleteAtPath ''a.b'' [(''a'', VMap [(''b'', VBool True), (''c'', VNil)])])) = None \<and>
   value_at [''a'', ''c''] (fst (DeleteAtPath ''a.b'' [(''a'', VMap [(''b'', VBool True), (''c'', VNil)])])) = Some VNil"
proof -
  have eq: "DeleteAtPath ''a.b'' [(''a'', VMap [(''b'', VBool True), (''c'', VNil)])] =
      ([(''a'', VMap [(''c'', VNil)])], True)"
    by (simp add: DeleteAtPath_def del_def put_def AList.delete_eq)
  show ?thesis
    using delete_at_path_correct [OF eq] by (simp add: eq)
qed

end
