(* ===== verification/ConsensusTypes.thy ===== *)
theory ConsensusTypes
  imports Values
begin

text \<open>
  What the aggregators and the reporting plugin share
  (\<^verbatim>\<open>pkg/capabilities/consensus/ocr3/types\<close>): the aggregation outcome, the report metadata and
  how it is appended to an outcome, the errors of the aggregators, and the counting of
  observations by the hash of their wire form, which the identical and the reduce aggregator have
  in common.

  \<^verbatim>\<open>proto.Marshal\<close> and \<^verbatim>\<open>sha256\<close> are arguments of the definitions that use them: \<open>marshal\<close>
  returns \<open>None\<close> for an error, and a theorem that needs equal hashes to mean equal values
  says so (\<open>inj_on\<close> on the values that occur).
\<close>

section \<open>Outcomes and metadata\<close>

type_synonym pbMap = "(string \<times> pbValue) list"
type_synonym uint64 = "64 word"
type_synonym uint32 = "32 word"
type_synonym OracleID = nat
type_synonym 'd observations = "(OracleID, 'd Value list) gomap"

record AggregationOutcome =
  EncodableOutcome :: "pbMap option"
  OutcomeMetadata :: bytes
  ShouldReport :: bool
  LastSeenAt :: uint64
  OutcomeTimestamp :: "timestamp option"
  EncoderName :: string
  EncoderConfig :: "pbMap option"

text \<open>The outcome an aggregator returns: the other fields have their zero value.\<close>

definition aggregated :: "pbMap \<Rightarrow> bytes \<Rightarrow> bool \<Rightarrow> AggregationOutcome" where
  "aggregated enc meta report =
     \<lparr>EncodableOutcome = Some enc, OutcomeMetadata = meta, ShouldReport = report,
      LastSeenAt = 0, OutcomeTimestamp = None, EncoderName = [], EncoderConfig = None\<rparr>"

record Metadata =
  mdVersion :: uint32
  mdExecutionID :: string
  mdTimestamp :: uint32
  mdDONID :: uint32
  mdDONConfigVersion :: uint32
  mdWorkflowID :: string
  mdWorkflowName :: string
  mdWorkflowOwner :: string
  mdReportID :: string

definition MetadataFieldName :: string where
  "MetadataFieldName = ''INTERNAL_METADATA''"

definition padWorkflowName :: "Metadata \<Rightarrow> Metadata" where
  "padWorkflowName m =
     (if length (mdWorkflowName m) < 20
      then m\<lparr>mdWorkflowName :=
               mdWorkflowName m @ replicate (20 - length (mdWorkflowName m)) (CHR ''0'')\<rparr>
      else m)"

text \<open>The exported fields of the struct, as \<^verbatim>\<open>CreateMapFromStruct\<close> collects them.\<close>

definition metadata_struct :: "Metadata \<Rightarrow> (string \<times> 'd any) list" where
  "metadata_struct m =
     [(''Version'', AInt KUint32 (uint (mdVersion m))),
      (''ExecutionID'', AString (mdExecutionID m)),
      (''Timestamp'', AInt KUint32 (uint (mdTimestamp m))),
      (''DONID'', AInt KUint32 (uint (mdDONID m))),
      (''DONConfigVersion'', AInt KUint32 (uint (mdDONConfigVersion m))),
      (''WorkflowID'', AString (mdWorkflowID m)),
      (''WorkflowName'', AString (mdWorkflowName m)),
      (''WorkflowOwner'', AString (mdWorkflowOwner m)),
      (''ReportID'', AString (mdReportID m))]"

text \<open>
  \<^verbatim>\<open>AppendMetadata\<close> writes into the field map of the encodable outcome. It is called on decoded
  outcomes, where a message without entries has a nil map: writing to that, or to an outcome
  without an encodable part, panics.
\<close>

definition AppendMetadata ::
    "'d vlib \<Rightarrow> AggregationOutcome \<Rightarrow> Metadata \<Rightarrow> (verr, AggregationOutcome) go" where
  "AppendMetadata L out meta =
     go_bind (NewMap (metadata_struct (padWorkflowName meta)))
       (\<lambda>w. case EncodableOutcome out of
              None \<Rightarrow> Panic
            | Some [] \<Rightarrow> Panic
            | Some fs \<Rightarrow>
                Ok (out\<lparr>EncodableOutcome := Some (put MetadataFieldName (Proto L (VMap w)) fs)\<rparr>))"

section \<open>Errors\<close>

datatype agg_error =
    MarshalError
  | NoConsensus nat
  | NotEnoughObservations
  | NotEnoughForField string
  | ReduceError string
  | ShouldReportError
  | StateError
  | FormatError
  | WrapError
  | MinSignaturesZero
  | UnmarshalError
  | EmptyObservation
  | InsufficientConsensus

type_synonym 'd aggregator =
  "AggregationOutcome option \<Rightarrow> 'd observations \<Rightarrow> nat \<Rightarrow> (agg_error, AggregationOutcome) go"

text \<open>
  What the reporting plugin relies on when it fills in the rest: the fields that are not the
  aggregator's still have their zero value, so that a stale round, timestamp or encoder of the
  previous outcome cannot leak into the next.
\<close>

locale aggregator =
  fixes Aggregate :: "'d aggregator"
  assumes fresh: "Aggregate prev obs F = Ok out \<Longrightarrow> \<exists>enc meta report. out = aggregated enc meta report"
begin

lemma fresh_fields:
  assumes "Aggregate prev obs F = Ok out"
  shows "EncoderName out = []" and "EncoderConfig out = None" and "OutcomeTimestamp out = None"
    and "LastSeenAt out = 0" and "EncodableOutcome out \<noteq> None"
  using fresh [OF assms] by (auto simp: aggregated_def)

end

section \<open>Counting observations by hash\<close>

text \<open>One entry per hash: the first observation with that hash and how often it was seen.\<close>

type_synonym ('h, 'v) counters = "('h, 'v \<times> nat) gomap"

definition count_obs :: "'h \<Rightarrow> 'v \<Rightarrow> ('h, 'v) counters \<Rightarrow> ('h, 'v) counters" where
  "count_obs h v m =
     (case map_of m h of
        None \<Rightarrow> put h (v, 1) m
      | Some (v', n) \<Rightarrow> put h (v', Suc n) m)"

definition tally :: "('v \<Rightarrow> 'h) \<Rightarrow> 'v list \<Rightarrow> ('h, 'v) counters" where
  "tally kf vs = fold (\<lambda>v m. count_obs (kf v) v m) vs []"

text \<open>The hash an observation is counted under, and that it can be marshalled at all.\<close>

definition hash_of ::
    "'d vlib \<Rightarrow> (pbValue \<Rightarrow> bytes option) \<Rightarrow> (bytes \<Rightarrow> 'h) \<Rightarrow> 'd Value \<Rightarrow> 'h" where
  "hash_of L marshal sha v = sha (the (marshal (Proto L v)))"

definition marshals :: "'d vlib \<Rightarrow> (pbValue \<Rightarrow> bytes option) \<Rightarrow> 'd Value \<Rightarrow> bool" where
  "marshals L marshal v \<longleftrightarrow> marshal (Proto L v) \<noteq> None"

text \<open>The loops that pick the entry with the highest count.\<close>

definition highest :: "'v \<Rightarrow> ('h \<times> 'v \<times> nat) list \<Rightarrow> nat \<times> 'v" where
  "highest none es =
     foldl (\<lambda>(hc, ho) (h, v, n). if n > hc then (n, v) else (hc, ho)) (0, none) es"

section \<open>Decimal digits\<close>

text \<open>\<^verbatim>\<open>fmt.Sprintf("%d", n)\<close> for a natural number.\<close>

fun show_nat :: "nat \<Rightarrow> string" where
  "show_nat n =
     (if n < 10 then [char_of (48 + n)] else show_nat (n div 10) @ [char_of (48 + n mod 10)])"

declare show_nat.simps [simp del]

text \<open>Reading a numeral of \<^verbatim>\<open>strconv\<close> in base ten.\<close>

fun parse_digits :: "nat \<Rightarrow> string \<Rightarrow> nat option" where
  "parse_digits acc [] = Some acc"
| "parse_digits acc (c # cs) =
     (let n = (of_char c :: nat)
      in if 48 \<le> n \<and> n \<le> 57 then parse_digits (10 * acc + (n - 48)) cs else None)"

text \<open>The numerals of different numbers differ: the value of a numeral is the number.\<close>

definition digits_value :: "string \<Rightarrow> nat" where
  "digits_value s = foldl (\<lambda>acc c. 10 * acc + (of_char c - 48)) 0 s"

lemma digits_value_show_nat: "digits_value (show_nat n) = n"
proof (induction n rule: show_nat.induct)
  case (1 n)
  have snoc: "digits_value (s @ [c]) = 10 * digits_value s + (of_char c - 48)" for s c
    by (simp add: digits_value_def)
  show ?case
  proof (cases "n < 10")
    case True
    then show ?thesis by (simp add: show_nat.simps [of n] digits_value_def)
  next
    case False
    with 1 show ?thesis by (simp add: show_nat.simps [of n] snoc)
  qed
qed

lemma inj_show_nat: "inj show_nat"
  by (rule inj_on_inverseI [of _ digits_value]) (simp add: digits_value_show_nat)

text \<open>Integers in base ten as \<^verbatim>\<open>math/big\<close> and \<^verbatim>\<open>strconv\<close> print and read them.\<close>

definition big_string :: "int \<Rightarrow> string" where
  "big_string b = (if b < 0 then CHR ''-'' # show_nat (nat (- b)) else show_nat (nat b))"

definition unsigned_SetString :: "string \<Rightarrow> int option" where
  "unsigned_SetString s = (if s = [] then None else map_option int (parse_digits 0 s))"

definition SetString :: "string \<Rightarrow> int option" where
  "SetString s =
     (case s of
        [] \<Rightarrow> None
      | c # cs \<Rightarrow>
          if c = CHR ''-'' then map_option uminus (unsigned_SetString cs)
          else if c = CHR ''+'' then unsigned_SetString cs
          else unsigned_SetString s)"

lemma parse_digits_append: "parse_digits acc (s @ t) = Option.bind (parse_digits acc s) (\<lambda>n. parse_digits n t)"
  by (induction s arbitrary: acc) (auto simp: Let_def)

lemma parse_show_nat: "parse_digits 0 (show_nat n) = Some n"
proof (induction n rule: show_nat.induct)
  case (1 n)
  show ?case
  proof (cases "n < 10")
    case False
    with 1 have "parse_digits 0 (show_nat (n div 10)) = Some (n div 10)" by simp
    with False show ?thesis by (simp add: show_nat.simps [of n] parse_digits_append)
  qed (simp add: show_nat.simps [of n])
qed

lemma show_nat_head: "\<exists>d cs. d < 10 \<and> show_nat n = char_of (48 + d :: nat) # cs"
proof (induction n rule: show_nat.induct)
  case (1 n)
  show ?case
  proof (cases "n < 10")
    case False
    with 1 show ?thesis by (fastforce simp: show_nat.simps [of n])
  qed (auto simp: show_nat.simps [of n])
qed

lemma SetString_big_string: "SetString (big_string b) = Some b"
proof -
  have digit: "char_of (48 + d :: nat) \<noteq> CHR ''-''" "char_of (48 + d :: nat) \<noteq> CHR ''+''" if "d < 10" for d
    using that by (auto dest!: arg_cong [where f = "of_char :: char \<Rightarrow> nat"])
  have pos: "SetString (show_nat n) = Some (int n)" for n
    using show_nat_head [of n] parse_show_nat [of n] digit by (auto simp: SetString_def unsigned_SetString_def)
  moreover have "unsigned_SetString (show_nat n) = Some (int n)" for n
    using show_nat_head [of n] parse_show_nat [of n] by (auto simp: unsigned_SetString_def)
  ultimately show ?thesis by (simp add: big_string_def SetString_def [of "CHR ''-'' # _"])
qed

lemma show_nat_digits: "c \<in> set (show_nat n) \<Longrightarrow> 48 \<le> (of_char c :: nat) \<and> (of_char c :: nat) \<le> 57"
proof (induction n rule: show_nat.induct)
  case (1 n)
  then show ?case by (cases "n < 10") (auto simp: show_nat.simps [of n])
qed

section \<open>Lemmas on counting\<close>

lemma tally_snoc: "tally kf (vs @ [v]) = count_obs (kf v) v (tally kf vs)"
  by (simp add: tally_def)

lemma tally_Nil [simp]: "tally kf [] = []"
  by (simp add: tally_def)

lemma find_snoc_case:
  "find P (xs @ [x]) = (case find P xs of Some y \<Rightarrow> Some y | None \<Rightarrow> if P x then Some x else None)"
  by (induction xs) auto

lemma count_list_snoc [simp]: "count_list (xs @ [x]) y = count_list xs y + (if x = y then 1 else 0)"
  by simp

lemma gomap_wf_tally: "gomap_wf (tally kf vs)"
  by (induction vs rule: rev_induct)
    (simp_all add: tally_snoc count_obs_def split: option.splits prod.splits)

text \<open>What the counting computes: per hash the first observation and the number of observations.\<close>

lemma map_of_tally:
  "map_of (tally kf vs) h =
     (case find (\<lambda>v. kf v = h) vs of
        None \<Rightarrow> None | Some v \<Rightarrow> Some (v, count_list (map kf vs) h))"
proof (induction vs arbitrary: h rule: rev_induct)
  case Nil
  then show ?case by simp
next
  case (snoc v vs)
  have none: "count_list (map kf vs) (kf v) = 0" if "find (\<lambda>w. kf w = kf v) vs = None"
    using that by (auto simp: find_None_iff count_list_0_iff)
  show ?case
    using snoc.IH [of "kf v"] snoc.IH [of h] none
    by (auto simp: tally_snoc count_obs_def find_snoc_case split: option.splits prod.splits)
qed

declare gomap_wf_tally [simp]

lemma tally_mem:
  assumes "(h, v, n) \<in> set (tally kf vs)"
  shows "v \<in> set vs" "kf v = h" "n = count_list (map kf vs) h" "0 < n"
proof -
  from assms have m: "map_of (tally kf vs) h = Some (v, n)" by simp
  then obtain w where w: "find (\<lambda>v. kf v = h) vs = Some w"
    by (auto simp: map_of_tally split: option.splits)
  then have "w \<in> set vs" "kf w = h"
    by (auto simp: find_Some_iff)
  with m w show "v \<in> set vs" "kf v = h" "n = count_list (map kf vs) h"
    by (auto simp: map_of_tally)
  then show "0 < n" by (metis count_list_0_iff gr0I image_eqI set_map)
qed

lemma tally_complete:
  assumes "v \<in> set vs"
  shows "\<exists>w. (kf v, w, count_list (map kf vs) (kf v)) \<in> set (tally kf vs) \<and> kf w = kf v"
proof -
  from assms have "find (\<lambda>w. kf w = kf v) vs \<noteq> None"
    by (auto simp: find_None_iff)
  then obtain w where "find (\<lambda>w. kf w = kf v) vs = Some w" by blast
  then have "map_of (tally kf vs) (kf v) = Some (w, count_list (map kf vs) (kf v))"
    by (simp add: map_of_tally)
  then show ?thesis
    using tally_mem(2) map_of_SomeD by fastforce
qed

lemma highest_Nil [simp]: "highest none [] = (0, none)"
  by (simp add: highest_def)

lemma highest_snoc:
  "highest none (es @ [(h, v, n)]) =
     (if n > fst (highest none es) then (n, v) else highest none es)"
  by (simp add: highest_def split: prod.splits)

lemma highest_ge: "(h, v, n) \<in> set es \<Longrightarrow> n \<le> fst (highest none es)"
  by (induction es rule: rev_induct) (auto simp: highest_snoc)

lemma highest_mem:
  "highest none es = (0, none) \<or> (\<exists>h. (h, snd (highest none es), fst (highest none es)) \<in> set es)"
proof (induction es rule: rev_induct)
  case (snoc e es)
  then show ?case by (cases e) (auto simp: highest_snoc)
qed simp

lemma count_list_le_filter:
  "count_list (map kf vs) h = length (filter (\<lambda>v. kf v = h) vs)"
  by (induction vs) auto

text \<open>
  A value that more than half of the voters support is the unique highest one, whatever order
  the counters are visited in.
\<close>

lemma highest_tally_majority:
  assumes "mset es = mset (tally kf vs)" and "length vs < 2 * t"
    and "highest none es = (n, w)" and "t \<le> n" and "v \<in> set vs" and "t \<le> count_list (map kf vs) (kf v)"
  shows "kf w = kf v \<and> w \<in> set vs \<and> n = count_list (map kf vs) (kf v)"
proof -
  from assms(1) have es: "set es = set (tally kf vs)"
    by (metis mset_eq_setD)
  have "0 < t" using assms(2) by simp
  with highest_mem [of none es] assms(3,4) obtain h where "(h, w, n) \<in> set (tally kf vs)"
    by (auto simp: es)
  note w = tally_mem [OF this]
  have "kf w = kf v"
  proof (rule ccontr)
    assume "kf w \<noteq> kf v"
    then have "count_list (map kf vs) (kf w) + count_list (map kf vs) (kf v) \<le> length vs"
      unfolding count_list_le_filter by (intro length_filter_disjoint) auto
    with assms(2,4,6) w show False by simp
  qed
  with w show ?thesis by simp
qed

section \<open>Sorting\<close>

text \<open>
  \<^verbatim>\<open>sort.Slice\<close> and \<^verbatim>\<open>slices.SortFunc\<close> are not stable, so they are arguments of the definitions that sort. For
  a strict weak order the result is a permutation in which no element precedes a smaller one.
\<close>

definition strict_weak :: "('a \<Rightarrow> 'a \<Rightarrow> bool) \<Rightarrow> bool" where
  "strict_weak lt \<longleftrightarrow>
     (\<forall>x. \<not> lt x x) \<and> (\<forall>x y z. lt x y \<and> lt y z \<longrightarrow> lt x z) \<and>
     (\<forall>x y z. lt x z \<longrightarrow> lt x y \<or> lt y z)"

definition sort_law :: "(('a \<Rightarrow> 'a \<Rightarrow> bool) \<Rightarrow> 'a list \<Rightarrow> 'a list) \<Rightarrow> bool" where
  "sort_law srt \<longleftrightarrow>
     (\<forall>lt xs. strict_weak lt \<longrightarrow>
        mset (srt lt xs) = mset xs \<and> sorted_wrt (\<lambda>x y. \<not> lt y x) (srt lt xs))"

text \<open>In a list sorted downwards, the elements before a position are above it, the others below.\<close>

lemma sorted_count_above:
  fixes g :: "'a \<Rightarrow> 'b :: linorder"
  assumes "sorted_wrt (\<lambda>x y. g x \<ge> g y) ys" and "m < length ys"
  shows "m + 1 \<le> length (filter (\<lambda>x. g x \<ge> g (ys ! m)) ys)"
    and "length ys - m \<le> length (filter (\<lambda>x. g x \<le> g (ys ! m)) ys)"
proof -
  have "\<forall>x\<in>set (take (Suc m) ys). g x \<ge> g (ys ! m)"
    using assms by (auto simp: in_set_conv_nth sorted_wrt_iff_nth_less less_Suc_eq)
  then have "filter (\<lambda>x. g x \<ge> g (ys ! m)) (take (Suc m) ys) = take (Suc m) ys"
    by (simp add: filter_id_conv)
  then have "length (take (Suc m) ys) \<le> length (filter (\<lambda>x. g x \<ge> g (ys ! m)) ys)"
    by (metis append_take_drop_id filter_append length_append le_add1)
  then show "m + 1 \<le> length (filter (\<lambda>x. g x \<ge> g (ys ! m)) ys)"
    using assms(2) by simp
  have "\<forall>x\<in>set (drop m ys). g x \<le> g (ys ! m)"
  proof
    fix x assume "x \<in> set (drop m ys)"
    then obtain j where "j < length ys - m" "x = ys ! (m + j)" by (auto simp: in_set_conv_nth)
    then show "g x \<le> g (ys ! m)"
      using assms by (cases j) (auto simp: sorted_wrt_iff_nth_less)
  qed
  then have "filter (\<lambda>x. g x \<le> g (ys ! m)) (drop m ys) = drop m ys"
    by (simp add: filter_id_conv)
  then have "length (drop m ys) \<le> length (filter (\<lambda>x. g x \<le> g (ys ! m)) ys)"
    by (metis append_take_drop_id filter_append length_append le_add2)
  then show "length ys - m \<le> length (filter (\<lambda>x. g x \<le> g (ys ! m)) ys)" by simp
qed

text \<open>Insertion sort has that property.\<close>

fun insert_by :: "('a \<Rightarrow> 'a \<Rightarrow> bool) \<Rightarrow> 'a \<Rightarrow> 'a list \<Rightarrow> 'a list" where
  "insert_by lt x [] = [x]"
| "insert_by lt x (y # ys) = (if lt y x then y # insert_by lt x ys else x # y # ys)"

definition insertion_sort :: "('a \<Rightarrow> 'a \<Rightarrow> bool) \<Rightarrow> 'a list \<Rightarrow> 'a list" where
  "insertion_sort lt xs = foldr (insert_by lt) xs []"

lemma mset_insert_by [simp]: "mset (insert_by lt x ys) = add_mset x (mset ys)"
  by (induction ys) auto

lemma set_insert_by [simp]: "set (insert_by lt x ys) = insert x (set ys)"
  by (induction ys) auto

lemma sorted_insert_by:
  assumes "strict_weak lt" and "sorted_wrt (\<lambda>x y. \<not> lt y x) ys"
  shows "sorted_wrt (\<lambda>x y. \<not> lt y x) (insert_by lt x ys)"
  using assms(2)
proof (induction ys)
  case (Cons y ys)
  from assms(1) have asym: "lt a b \<Longrightarrow> \<not> lt b a" and neg: "\<not> lt a b \<Longrightarrow> \<not> lt b c \<Longrightarrow> \<not> lt a c" for a b c
    unfolding strict_weak_def by blast+
  show ?case using Cons asym [of y x] neg by auto
qed simp

lemma insertion_sort_law: "sort_law insertion_sort"
proof -
  have "mset (insertion_sort lt xs) = mset xs \<and> sorted_wrt (\<lambda>x y. \<not> lt y x) (insertion_sort lt xs)"
    if "strict_weak lt" for lt :: "'a \<Rightarrow> 'a \<Rightarrow> bool" and xs
    by (induction xs) (auto simp: insertion_sort_def sorted_insert_by [OF that])
  then show ?thesis unfolding sort_law_def by blast
qed

end
