(* ===== verification/Base64.thy ===== *)
theory Base64
  imports Prelude
begin

text \<open>
  The standard encoding of \<^verbatim>\<open>encoding/base64\<close>, which the report info of the consensus capability and the
  requests to WASM guests are carried in, and that decoding undoes encoding.
\<close>

section \<open>Encoder and decoder\<close>

definition b64_char :: "nat \<Rightarrow> char" where
  "b64_char n =
     (if n < 26 then char_of (65 + n) else if n < 52 then char_of (71 + n)
      else if n < 62 then char_of (n - 4) else if n = 62 then CHR ''+'' else CHR ''/'')"

definition b64_digit :: "char \<Rightarrow> nat option" where
  "b64_digit c =
     (let k = of_char c :: nat in
      if 65 \<le> k \<and> k \<le> 90 then Some (k - 65)
      else if 97 \<le> k \<and> k \<le> 122 then Some (k - 71)
      else if 48 \<le> k \<and> k \<le> 57 then Some (k + 4)
      else if c = CHR ''+'' then Some 62
      else if c = CHR ''/'' then Some 63
      else None)"

fun base64_encode :: "bytes \<Rightarrow> string" where
  "base64_encode [] = []"
| "base64_encode [a] =
     [b64_char (unat a div 4), b64_char (unat a mod 4 * 16), CHR ''='', CHR ''='']"
| "base64_encode [a, b] =
     [b64_char (unat a div 4), b64_char (unat a mod 4 * 16 + unat b div 16),
      b64_char (unat b mod 16 * 4), CHR ''='']"
| "base64_encode (a # b # c # bs) =
     b64_char (unat a div 4) # b64_char (unat a mod 4 * 16 + unat b div 16) #
     b64_char (unat b mod 16 * 4 + unat c div 64) # b64_char (unat c mod 64) # base64_encode bs"

text \<open>
  The decoder reads four characters at a time; padding ends the text, and stray bits before it are
  ignored. Line breaks are skipped wherever they are.
\<close>

fun b64_quads :: "string \<Rightarrow> bytes option" where
  "b64_quads [] = Some []"
| "b64_quads (p # q # r # t # cs) =
     (case (b64_digit p, b64_digit q) of
        (Some w, Some x) \<Rightarrow>
          (if r = CHR ''='' then
             (if t = CHR ''='' \<and> cs = [] then Some [of_nat (w * 4 + x div 16)] else None)
           else
             (case b64_digit r of
                None \<Rightarrow> None
              | Some y \<Rightarrow>
                  (if t = CHR ''='' then
                     (if cs = []
                      then Some [of_nat (w * 4 + x div 16), of_nat (x mod 16 * 16 + y div 4)] else None)
                   else
                     (case (b64_digit t, b64_quads cs) of
                        (Some z, Some bs) \<Rightarrow>
                          Some (of_nat (w * 4 + x div 16) # of_nat (x mod 16 * 16 + y div 4) #
                                of_nat (y mod 4 * 64 + z) # bs)
                      | _ \<Rightarrow> None))))
      | _ \<Rightarrow> None)"
| "b64_quads _ = None"

definition base64_decode :: "string \<Rightarrow> bytes option" where
  "base64_decode s = b64_quads (filter (\<lambda>c. c \<noteq> CHR 0x0A \<and> c \<noteq> CHR 0x0D) s)"

section \<open>Base64 round trip\<close>

lemma b64_digit_char [simp]: "n < 64 \<Longrightarrow> b64_digit (b64_char n) = Some n"
  by (auto simp: b64_digit_def b64_char_def Let_def)

lemma b64_char_plain:
  "n < 64 \<Longrightarrow> b64_char n \<noteq> CHR ''=''" "n < 64 \<Longrightarrow> b64_char n \<noteq> CHR 0x0A" "n < 64 \<Longrightarrow> b64_char n \<noteq> CHR 0x0D"
  using b64_digit_char [of n] by (auto simp: b64_digit_def)

lemma byte_bounds: "unat (b :: byte) < 256"
  using unsigned_less [of b] by simp

lemma sextets:
  fixes a b c :: byte
  shows "unat a div 4 < 64" "unat a mod 4 * 16 < 64" "unat a mod 4 * 16 + unat b div 16 < 64"
    "unat b mod 16 * 4 < 64" "unat b mod 16 * 4 + unat c div 64 < 64" "unat c mod 64 < 64"
  using byte_bounds [of a] byte_bounds [of b] byte_bounds [of c] by linarith+

lemma byte_div:
  fixes b :: byte
  shows "unat b div 16 div 16 = 0" "unat b div 16 mod 16 = unat b div 16"
    "unat b div 64 div 4 = 0" "unat b div 64 mod 4 = unat b div 64"
proof -
  have "unat b div 16 < 16" "unat b div 64 < 4"
    using byte_bounds [of b] by linarith+
  then show "unat b div 16 div 16 = 0" "unat b div 16 mod 16 = unat b div 16"
    "unat b div 64 div 4 = 0" "unat b div 64 mod 4 = unat b div 64"
    by (simp_all only: div_less mod_less)
qed

lemma b64_quads_encode: "b64_quads (base64_encode bs) = Some bs"
  by (induction bs rule: base64_encode.induct)
    (simp_all add: sextets b64_char_plain byte_div div_mult_mod_eq del: of_nat_add of_nat_mult)

lemma base64_no_breaks: "c \<in> set (base64_encode bs) \<Longrightarrow> c \<noteq> CHR 0x0A \<and> c \<noteq> CHR 0x0D"
  by (induction bs rule: base64_encode.induct) (auto simp: sextets b64_char_plain dest: sym)

lemma base64_roundtrip: "base64_decode (base64_encode bs) = Some bs"
proof -
  have "filter (\<lambda>c. c \<noteq> CHR 0x0A \<and> c \<noteq> CHR 0x0D) (base64_encode bs) = base64_encode bs"
    using base64_no_breaks by (intro filter_True) blast
  then show ?thesis by (simp only: base64_decode_def b64_quads_encode)
qed

end
