(* ===== verification/Nodes.thy ===== *)
theory Nodes
  imports ConsensusTypes Base64
begin

text \<open>
  Lists of nodes in pages (\<^verbatim>\<open>pkg/chains/nodes.go\<close>): a page token is a query string in base64 without padding. The list
  itself comes from an argument, as in the code. Integers have 64 bits and wrap.
\<close>

section \<open>Text as bytes, base64 without padding, queries\<close>

definition text_bytes :: "string \<Rightarrow> bytes" where
  "text_bytes s = map (\<lambda>c. of_nat (of_char c)) s"

definition bytes_text :: "bytes \<Rightarrow> string" where
  "bytes_text bs = map (\<lambda>b. char_of (unat b)) bs"

definition raw_encode :: "bytes \<Rightarrow> string" where
  "raw_encode bs = filter (\<lambda>c. c \<noteq> CHR ''='') (base64_encode bs)"

definition raw_decode :: "string \<Rightarrow> bytes option" where
  "raw_decode s =
     (let t = filter (\<lambda>c. c \<noteq> CHR 0x0A \<and> c \<noteq> CHR 0x0D) s
      in if CHR ''='' \<in> set t \<or> length t mod 4 = 1 then None
         else b64_quads (t @ replicate ((4 - length t mod 4) mod 4) (CHR ''='')))"

definition escape_digit :: "char \<Rightarrow> nat option" where
  "escape_digit c =
     (let n = (of_char c :: nat)
      in if 48 \<le> n \<and> n \<le> 57 then Some (n - 48) else if 97 \<le> n \<and> n \<le> 102 then Some (n - 87)
         else if 65 \<le> n \<and> n \<le> 70 then Some (n - 55) else None)"

fun QueryUnescape :: "string \<Rightarrow> string option" where
  "QueryUnescape [] = Some []"
| "QueryUnescape (c # cs) =
     (if c = CHR ''%'' then
        (case cs of
           h # l # rest \<Rightarrow>
             (case (escape_digit h, escape_digit l, QueryUnescape rest) of
                (Some a, Some b, Some r) \<Rightarrow> Some (char_of (16 * a + b) # r)
              | _ \<Rightarrow> None)
         | _ \<Rightarrow> None)
      else map_option ((#) (if c = CHR ''+'' then CHR '' '' else c)) (QueryUnescape cs))"

text \<open>
  \<^verbatim>\<open>url.ParseQuery\<close>: the pairs in order, and whether one of them was wrong, which is the error in the end.
\<close>

definition cut_at :: "char \<Rightarrow> string \<Rightarrow> string \<times> string" where
  "cut_at c s = (takeWhile (\<lambda>x. x \<noteq> c) s, tl (dropWhile (\<lambda>x. x \<noteq> c) s))"

definition query_pair :: "string \<Rightarrow> (string \<times> string) option" where
  "query_pair s =
     (if CHR '';'' \<in> set s then None
      else case cut_at (CHR ''='') s of (k, v) \<Rightarrow>
        (case (QueryUnescape k, QueryUnescape v) of (Some k', Some v') \<Rightarrow> Some (k', v') | _ \<Rightarrow> None))"

definition ParseQuery :: "string \<Rightarrow> (string \<times> string) list option" where
  "ParseQuery s =
     (let ps = map query_pair (filter (\<lambda>p. p \<noteq> []) (split_on (CHR ''&'') s))
      in if list_all (\<lambda>p. p \<noteq> None) ps then Some (map the ps) else None)"

definition Atoi64 :: "string \<Rightarrow> int option" where
  "Atoi64 s = Option.bind (SetString s) (\<lambda>i. if - (2 ^ 63) \<le> i \<and> i < 2 ^ 63 then Some i else None)"

section \<open>Page tokens\<close>

record pageToken =
  Page :: int
  Size :: int

datatype page_error = ErrInvalidToken | ErrBadEncoding | ErrList string

definition defaultSize :: int where
  "defaultSize = 100"

definition page_query :: "int \<Rightarrow> int \<Rightarrow> string" where
  "page_query page psize = ''page='' @ big_string page @ ''&size='' @ big_string psize"

definition page_Encode :: "pageToken \<Rightarrow> string" where
  "page_Encode pr = raw_encode (text_bytes (page_query (Page pr) (if Size pr = 0 then defaultSize else Size pr)))"

definition NewPageToken :: "string \<Rightarrow> page_error + pageToken" where
  "NewPageToken b64enc =
     (if b64enc = [] then Inr \<lparr>Page = 0, Size = defaultSize\<rparr>
      else case raw_decode b64enc of
          None \<Rightarrow> Inl ErrBadEncoding
        | Some b \<Rightarrow>
            (case ParseQuery (bytes_text b) of
               None \<Rightarrow> Inl ErrBadEncoding
             | Some vals \<Rightarrow>
                 (case (map_of vals ''page'', map_of vals ''size'') of
                    (Some p, Some s) \<Rightarrow>
                      (case (Atoi64 p, Atoi64 s) of
                         (Some page, Some psize) \<Rightarrow> Inr \<lparr>Page = page, Size = psize\<rparr>
                       | _ \<Rightarrow> Inl ErrInvalidToken)
                  | _ \<Rightarrow> Inl ErrInvalidToken)))"

definition wrap64_page :: "int \<Rightarrow> int" where
  "wrap64_page n = (n + 2 ^ 63) mod 2 ^ 64 - 2 ^ 63"

type_synonym 'n ListNodeStatusFn = "int \<Rightarrow> int \<Rightarrow> string + ('n list \<times> int)"

definition ListNodeStatuses :: "int \<Rightarrow> string \<Rightarrow> 'n ListNodeStatusFn \<Rightarrow> page_error + ('n list \<times> string \<times> int)" where
  "ListNodeStatuses pageSize pageTokenStr listFn =
     (let t0 = \<lparr>Page = 0, Size = if pageSize = 0 then defaultSize else pageSize\<rparr>
      in case (if pageTokenStr = [] then Inr t0 else NewPageToken pageTokenStr) of
          Inl e \<Rightarrow> Inl e
        | Inr t \<Rightarrow>
            (let start = wrap64_page (Page t * Size t); stop = wrap64_page (wrap64_page (Page t + 1) * Size t)
             in case listFn start stop of
                 Inl e \<Rightarrow> Inl (ErrList e)
               | Inr (stats, tot) \<Rightarrow>
                   Inr (stats, if tot > stop then page_Encode \<lparr>Page = wrap64_page (Page t + 1), Size = Size t\<rparr> else [], tot)))"

text \<open>A client that follows the tokens; \<open>None\<close> is a client that has not come to the end.\<close>

fun follow_pages :: "nat \<Rightarrow> int \<Rightarrow> string \<Rightarrow> 'n ListNodeStatusFn \<Rightarrow> (page_error + 'n list) option" where
  "follow_pages 0 pageSize token listFn = None"
| "follow_pages (Suc n) pageSize token listFn =
     (case ListNodeStatuses pageSize token listFn of
        Inl e \<Rightarrow> Some (Inl e)
      | Inr (stats, next, tot) \<Rightarrow>
          if next = [] then Some (Inr stats)
          else map_option (map_sum (\<lambda>e. e) ((@) stats)) (follow_pages n pageSize next listFn))"

section \<open>Tokens can be read back\<close>

lemma text_bytes_text: "bytes_text (text_bytes s) = s"
proof -
  have "unat (of_nat (of_char c) :: byte) = of_char c" for c :: char
  proof -
    have "(of_char c :: nat) < 256" using range_nat_of_char by auto
    then show ?thesis by (simp add: unat_of_nat)
  qed
  then show ?thesis by (simp add: bytes_text_def text_bytes_def map_idI)
qed

lemma raw_pad:
  "base64_encode bs = raw_encode bs @ replicate ((4 - length (raw_encode bs) mod 4) mod 4) (CHR ''='') \<and> length (raw_encode bs) mod 4 \<noteq> 1"
proof (induction bs rule: base64_encode.induct)
  case (4 a b c bs)
  have "raw_encode (a # b # c # bs) =
      [b64_char (unat a div 4), b64_char (unat a mod 4 * 16 + unat b div 16), b64_char (unat b mod 16 * 4 + unat c div 64), b64_char (unat c mod 64)] @
      raw_encode bs"
    by (simp add: raw_encode_def b64_char_plain sextets)
  with 4 show ?case by simp
qed (simp_all add: raw_encode_def b64_char_plain sextets numeral_2_eq_2)

lemma raw_round_trip: "raw_decode (raw_encode bs) = Some bs"
proof -
  have "filter (\<lambda>c. c \<noteq> CHR 0x0A \<and> c \<noteq> CHR 0x0D) (raw_encode bs) = raw_encode bs"
    using base64_no_breaks [of _ bs] by (intro filter_True) (auto simp: raw_encode_def)
  moreover have "CHR ''='' \<notin> set (raw_encode bs)" by (simp add: raw_encode_def)
  ultimately show ?thesis using raw_pad [of bs] b64_quads_encode [of bs] by (simp add: raw_decode_def Let_def)
qed

definition numeral_text :: "string \<Rightarrow> bool" where
  "numeral_text s \<longleftrightarrow> (\<forall>c \<in> set s. c = CHR ''-'' \<or> (48 \<le> (of_char c :: nat) \<and> (of_char c :: nat) \<le> 57))"

lemma numeral_big_string: "numeral_text (big_string b)"
  using show_nat_digits by (auto simp: numeral_text_def big_string_def)

lemma numeral_plain:
  assumes "numeral_text s"
  shows "QueryUnescape s = Some s" "CHR ''&'' \<notin> set s" "CHR '';'' \<notin> set s" "CHR ''='' \<notin> set s"
proof -
  note digit = assms [unfolded numeral_text_def, rule_format]
  show "CHR ''&'' \<notin> set s" using digit [of "CHR ''&''"] by auto
  show "CHR '';'' \<notin> set s" using digit [of "CHR '';''"] by auto
  show "CHR ''='' \<notin> set s" using digit [of "CHR ''=''"] by auto
  have "CHR ''%'' \<notin> set s" "CHR ''+'' \<notin> set s" using digit [of "CHR ''%''"] digit [of "CHR ''+''"] by auto
  then show "QueryUnescape s = Some s"
  proof (induction s)
    case (Cons c s)
    then show ?case by (simp add: eq_commute [of c])
  qed simp
qed

lemma split_on_none: "c \<notin> set s \<Longrightarrow> split_on c s = [s]"
  by (induction s) auto

lemma split_on_sep: "c \<notin> set s \<Longrightarrow> split_on c (s @ c # t) = s # split_on c t"
  by (induction s) auto

lemma query_pair_numeral:
  assumes "numeral_text v" "k = ''page'' \<or> k = ''size''"
  shows "query_pair (k @ CHR ''='' # v) = Some (k, v)"
  using assms numeral_plain [OF assms(1)] by (auto simp: query_pair_def cut_at_def)

lemma ParseQuery_page: "ParseQuery (page_query p s) = Some [(''page'', big_string p), (''size'', big_string s)]"
proof -
  let ?p = "''page'' @ CHR ''='' # big_string p" and ?s = "''size'' @ CHR ''='' # big_string s"
  have "page_query p s = ?p @ CHR ''&'' # ?s" by (simp add: page_query_def)
  moreover have "CHR ''&'' \<notin> set ?p" "CHR ''&'' \<notin> set ?s" using numeral_plain(2) [OF numeral_big_string] by auto
  ultimately have "split_on (CHR ''&'') (page_query p s) = [?p, ?s]"
    using split_on_sep [of "CHR ''&''" ?p ?s] split_on_none [of "CHR ''&''" ?s] by metis
  then show ?thesis using query_pair_numeral [OF numeral_big_string] by (simp add: ParseQuery_def del: append.simps)
qed

lemma page_query_not_empty: "page_Encode t \<noteq> []"
proof
  assume "page_Encode t = []"
  then have "raw_decode [] = Some (text_bytes (page_query (Page t) (if Size t = 0 then defaultSize else Size t)))"
    using raw_round_trip unfolding page_Encode_def by metis
  then show False by (simp add: raw_decode_def text_bytes_def page_query_def)
qed

lemma token_round_trip:
  assumes "- (2 ^ 63) \<le> p" "p < 2 ^ 63" "- (2 ^ 63) \<le> s" "s < 2 ^ 63" "s \<noteq> 0"
  shows "NewPageToken (page_Encode \<lparr>Page = p, Size = s\<rparr>) = Inr \<lparr>Page = p, Size = s\<rparr>"
  using assms page_query_not_empty [of "\<lparr>Page = p, Size = s\<rparr>"]
  by (simp add: NewPageToken_def page_Encode_def raw_round_trip text_bytes_text ParseQuery_page Atoi64_def SetString_big_string)

section \<open>Following the tokens\<close>

text \<open>What the list function promises: the nodes of a range that starts within the list, and how many there are.\<close>

definition lists :: "'n list \<Rightarrow> 'n ListNodeStatusFn \<Rightarrow> bool" where
  "lists nodes listFn \<longleftrightarrow>
     (\<forall>start stop. 0 \<le> start \<longrightarrow> start < int (length nodes) \<longrightarrow> start \<le> stop \<longrightarrow>
        listFn start stop = Inr (take (nat (stop - start)) (drop (nat start) nodes), int (length nodes)))"

definition effective_size :: "int \<Rightarrow> int" where
  "effective_size pageSize = (if pageSize = 0 then defaultSize else pageSize)"

lemma wrap64_page_id: "0 \<le> n \<Longrightarrow> n < 2 ^ 63 \<Longrightarrow> wrap64_page n = n"
  by (simp add: wrap64_page_def)

lemma page_of_token:
  assumes "lists nodes listFn" and "0 < s" and "s = effective_size pageSize" and "int (length nodes) + s < 2 ^ 63"
    and "0 \<le> k" and "k * s < int (length nodes)" and "token = [] \<and> k = 0 \<or> token = page_Encode \<lparr>Page = k, Size = s\<rparr>"
  shows "ListNodeStatuses pageSize token listFn =
    Inr (take (nat s) (drop (nat (k * s)) nodes),
         if int (length nodes) > (k + 1) * s then page_Encode \<lparr>Page = k + 1, Size = s\<rparr> else [], int (length nodes))"
proof -
  have "k \<le> k * s" using assms(2,5) by (simp add: mult_le_cancel_left1)
  then have bounds: "0 \<le> k * s" "k * s < 2 ^ 63" "k + 1 < 2 ^ 63" "0 \<le> (k + 1) * s" "(k + 1) * s < 2 ^ 63"
    using assms(2,4,5,6) by (auto simp: distrib_right)
  have "(if token = [] then Inr \<lparr>Page = 0, Size = if pageSize = 0 then defaultSize else pageSize\<rparr> else NewPageToken token) =
      Inr \<lparr>Page = k, Size = s\<rparr>"
  proof (cases "token = []")
    case True
    then show ?thesis using assms(3,7) page_query_not_empty [of "\<lparr>Page = k, Size = s\<rparr>"] by (auto simp: effective_size_def)
  next
    case False
    then show ?thesis using assms bounds token_round_trip [of k s] by auto
  qed
  moreover have "listFn (k * s) ((k + 1) * s) = Inr (take (nat s) (drop (nat (k * s)) nodes), int (length nodes))"
    using assms(1,2,6) bounds unfolding lists_def by (simp add: distrib_right)
  ultimately show ?thesis using bounds assms(5)
    by (simp add: ListNodeStatuses_def Let_def wrap64_page_id)
qed

lemma follow_pages_from:
  assumes "lists nodes listFn" and "0 < s" and "s = effective_size pageSize" and "int (length nodes) + s < 2 ^ 63"
  shows "0 \<le> k \<Longrightarrow> k * s < int (length nodes) \<Longrightarrow> token = [] \<and> k = 0 \<or> token = page_Encode \<lparr>Page = k, Size = s\<rparr> \<Longrightarrow>
    int (length nodes) - k * s \<le> int n \<Longrightarrow> follow_pages n pageSize token listFn = Some (Inr (drop (nat (k * s)) nodes))"
proof (induction n arbitrary: k token)
  case (Suc n)
  note page = page_of_token [OF assms Suc.prems(1,2,3)]
  have step: "(k + 1) * s = k * s + s" "0 \<le> k * s" using assms(2) Suc.prems(1) by (simp_all add: distrib_right)
  show ?case
  proof (cases "int (length nodes) > (k + 1) * s")
    case True
    then have "follow_pages n pageSize (page_Encode \<lparr>Page = k + 1, Size = s\<rparr>) listFn = Some (Inr (drop (nat ((k + 1) * s)) nodes))"
      using Suc.prems assms(2) step by (intro Suc.IH) auto
    moreover have "nat ((k + 1) * s) = nat s + nat (k * s)" using step assms(2) by simp
    ultimately show ?thesis using True page page_query_not_empty
      by (simp add: drop_drop [symmetric] del: drop_drop)
  next
    case False
    then have "length (drop (nat (k * s)) nodes) \<le> nat s" using step by auto
    then show ?thesis using False page by simp
  qed
qed auto

text \<open>
  C37. A client that starts without a token and follows the tokens it is given comes to the end, within as many requests as
  there are nodes, and has then received every node exactly once and in order, whatever size of page it asked for.
\<close>

theorem pages_complete:
  assumes "lists nodes listFn" and "nodes \<noteq> []" and "0 \<le> pageSize" and "int (length nodes) + effective_size pageSize < 2 ^ 63"
  shows "follow_pages (length nodes) pageSize [] listFn = Some (Inr nodes)"
proof -
  have "0 < effective_size pageSize" using assms(3) by (auto simp: effective_size_def defaultSize_def)
  from follow_pages_from [OF assms(1) this refl assms(4), of 0 "[]"] assms(2) show ?thesis by simp
qed

definition ex_list :: "nat ListNodeStatusFn" where
  "ex_list start stop =
     (if 0 \<le> start \<and> start < 3 then Inr (take (nat (stop - start)) (drop (nat start) [10, 20, 30]), 3) else Inl ''out of range'')"

theorem pages_complete_witness: "follow_pages 3 2 [] ex_list = Some (Inr [10, 20, 30])"
  using pages_complete [of "[10, 20, 30]" ex_list 2] by (simp add: lists_def ex_list_def effective_size_def numeral_3_eq_3 del: follow_pages.simps)

text \<open>
  A token for pages of no size is accepted; the next token then has the default size, and the first hundred nodes are
  skipped.
\<close>

lemma zero_size_skips:
  "ListNodeStatuses 0 (raw_encode (text_bytes ''page=0&size=0'')) ex_list = Inr ([], page_Encode \<lparr>Page = 1, Size = 100\<rparr>, 3)"
  by code_simp

end
