(* ===== verification/Secrets.thy ===== *)
theory Secrets
  imports Base64
begin

text \<open>
  Secrets of workflows (\<^verbatim>\<open>pkg/workflows/secrets/secrets.go\<close>): every node of a network gets its share of the secrets, sealed
  to its public key, and the owner is checked when the node opens them. JSON, the sealed boxes and hexadecimal keys are
  arguments. Maps are lists in the order in which a loop visits them.
\<close>

record SecretPayloadToEncrypt =
  payOwner :: string
  paySecrets :: "(string, string) gomap"

record AssignedSecrets =
  WorkflowSecretName :: string
  LocalEnvVarName :: string

record SecretsMetadata =
  metaOwner :: string
  NodePublicEncryptionKeys :: "(string, string) gomap"
  EnvVarsAssignedToNodes :: "(string, AssignedSecrets list) gomap"

record EncryptedSecretsResult =
  EncryptedSecrets :: "(string, string) gomap"
  resMetadata :: SecretsMetadata

text \<open>\<open>seal\<close> has the randomness of the call as its last argument; \<open>unseal\<close> is a node's \<^verbatim>\<open>X25519Key.Decrypt\<close>.\<close>

record 'k secrets_lib =
  marshalPayload :: "SecretPayloadToEncrypt \<Rightarrow> bytes option"
  unmarshalPayload :: "bytes \<Rightarrow> SecretPayloadToEncrypt option"
  seal :: "'k \<Rightarrow> bytes \<Rightarrow> nat \<Rightarrow> bytes option"
  unseal :: "'k \<Rightarrow> bytes \<Rightarrow> bytes option"
  keyHex :: "'k \<Rightarrow> string"

datatype secrets_error =
    MarshalError | SealError | NoPublicKey | NoBundle | BadBase64 | OpenError | UnmarshalError | WrongOwner
  | OwnerMismatch | NoSecretForNode | NoKeyForNode | KeyMismatch

section \<open>Encryption\<close>

text \<open>\<^verbatim>\<open>values[i % len(values)]\<close>; the remainder of a division by zero panics.\<close>

definition round_robin :: "nat \<Rightarrow> 'x list \<Rightarrow> (secrets_error, 'x) go" where
  "round_robin i xs = (if xs = [] then Panic else Ok (xs ! (i mod length xs)))"

definition node_secrets :: "nat \<Rightarrow> (string, string list) gomap \<Rightarrow> (secrets_error, (string, string) gomap) go" where
  "node_secrets i secrets =
     go_foldM (\<lambda>m (name, vals). go_map (\<lambda>v. put name v m) (round_robin i vals)) [] secrets"

definition node_envVars :: "nat \<Rightarrow> (string, string list) gomap \<Rightarrow> (secrets_error, AssignedSecrets list) go" where
  "node_envVars i names =
     go_mapM (\<lambda>(name, evars). go_map (\<lambda>v. \<lparr>WorkflowSecretName = name, LocalEnvVarName = v\<rparr>) (round_robin i evars)) names"

definition of_option :: "'e \<Rightarrow> 'a option \<Rightarrow> ('e, 'a) go" where
  "of_option e r = (case r of None \<Rightarrow> Err e | Some a \<Rightarrow> Ok a)"

definition encrypt_node ::
    "'k secrets_lib \<Rightarrow> string \<Rightarrow> (string, string list) gomap \<Rightarrow> (string, string list) gomap \<Rightarrow> nat \<Rightarrow> 'k \<Rightarrow>
     (secrets_error, string \<times> AssignedSecrets list) go" where
  "encrypt_node L workflowOwner secrets config i key =
     go_bind (node_secrets i secrets) (\<lambda>ss.
     go_bind (of_option MarshalError (marshalPayload L \<lparr>payOwner = workflowOwner, paySecrets = ss\<rparr>)) (\<lambda>json.
     go_bind (of_option SealError (seal L key json i)) (\<lambda>encrypted.
     go_map (\<lambda>evars. (base64_encode encrypted, evars)) (node_envVars i config))))"

text \<open>\<^verbatim>\<open>append\<close> to a missing entry makes it only when something is appended.\<close>

fun encrypt_nodes ::
    "'k secrets_lib \<Rightarrow> string \<Rightarrow> (string, string list) gomap \<Rightarrow> (string, string list) gomap \<Rightarrow> nat \<Rightarrow> (string, 'k) gomap \<Rightarrow>
     (string, string) gomap \<times> (string, AssignedSecrets list) gomap \<Rightarrow>
     (secrets_error, (string, string) gomap \<times> (string, AssignedSecrets list) gomap) go" where
  "encrypt_nodes L owner secrets config i [] acc = Ok acc"
| "encrypt_nodes L owner secrets config i ((p2pId, key) # rest) acc =
     go_bind (encrypt_node L owner secrets config i key) (\<lambda>(bundle, evars).
       encrypt_nodes L owner secrets config (Suc i) rest
         (put p2pId bundle (fst acc), if evars = [] then snd acc else put p2pId evars (snd acc)))"

definition EncryptSecretsForNodes ::
    "'k secrets_lib \<Rightarrow> string \<Rightarrow> (string, string list) gomap \<Rightarrow> (string, 'k) gomap \<Rightarrow> (string, string list) gomap \<Rightarrow>
     (secrets_error, (string, string) gomap \<times> (string, AssignedSecrets list) gomap) go" where
  "EncryptSecretsForNodes L workflowOwner secrets encryptionPublicKeys config =
     encrypt_nodes L workflowOwner secrets config 0 encryptionPublicKeys ([], [])"

section \<open>Decryption and validation\<close>

definition lower_char :: "char \<Rightarrow> char" where
  "lower_char c = (let n = (of_char c :: nat) in if 65 \<le> n \<and> n \<le> 90 then char_of (n + 32) else c)"

definition normalizeOwner :: "string \<Rightarrow> string" where
  "normalizeOwner owner = map lower_char (if take 2 owner = ''0x'' then drop 2 owner else owner)"

definition DecryptSecretsForNode ::
    "'k secrets_lib \<Rightarrow> EncryptedSecretsResult \<Rightarrow> 'k \<Rightarrow> string \<Rightarrow> (secrets_error, (string, string) gomap) go" where
  "DecryptSecretsForNode L result key workflowOwner =
     (let foundP2pId = (case find (\<lambda>(p2pId, pubKey). pubKey = keyHex L key) (NodePublicEncryptionKeys (resMetadata result)) of
                          None \<Rightarrow> [] | Some (p2pId, pubKey) \<Rightarrow> p2pId)
      in if foundP2pId = [] then Err NoPublicKey
         else go_bind (of_option NoBundle (map_of (EncryptedSecrets result) foundP2pId)) (\<lambda>bundle.
              go_bind (of_option BadBase64 (base64_decode bundle)) (\<lambda>bundleBytes.
              go_bind (of_option OpenError (unseal L key bundleBytes)) (\<lambda>payloadBytes.
              go_bind (of_option UnmarshalError (unmarshalPayload L payloadBytes)) (\<lambda>payload.
                if normalizeOwner (payOwner payload) \<noteq> normalizeOwner workflowOwner then Err WrongOwner
                else Ok (paySecrets payload))))))"

text \<open>After the JSON has been parsed.\<close>

definition ValidateEncryptedSecrets :: "'k secrets_lib \<Rightarrow> EncryptedSecretsResult \<Rightarrow> (string, 'k) gomap \<Rightarrow> string \<Rightarrow> (secrets_error, unit) go" where
  "ValidateEncryptedSecrets L r encryptionPublicKeys workflowOwner =
     (if metaOwner (resMetadata r) \<noteq> workflowOwner then Err OwnerMismatch
      else go_bind (go_mapM (\<lambda>(_, s). of_option BadBase64 (base64_decode s)) (EncryptedSecrets r)) (\<lambda>_.
           go_bind (go_mapM (\<lambda>(p2pId, _). of_option NoSecretForNode (map_of (EncryptedSecrets r) p2pId)) (NodePublicEncryptionKeys (resMetadata r))) (\<lambda>_.
           go_map (\<lambda>_. ())
             (go_mapM (\<lambda>(p2pId, keyFromMetadata).
                 go_bind (of_option NoKeyForNode (map_of encryptionPublicKeys p2pId))
                   (\<lambda>key. if keyFromMetadata \<noteq> keyHex L key then Err KeyMismatch else Ok ()))
               (NodePublicEncryptionKeys (resMetadata r))))))"

section \<open>Every node opens its own share\<close>

lemma of_option_Ok [simp]: "of_option e r = Ok a \<longleftrightarrow> r = Some a"
  by (cases r) (auto simp: of_option_def)











section \<open>What validation leaves open\<close>

text \<open>Secrets whose metadata list no node are valid, and no node can open them.\<close>

lemma no_nodes_valid:
  "ValidateEncryptedSecrets L \<lparr>EncryptedSecrets = [], resMetadata = \<lparr>metaOwner = owner, NodePublicEncryptionKeys = [], EnvVarsAssignedToNodes = []\<rparr>\<rparr> keys owner = Ok () \<and>
   DecryptSecretsForNode L \<lparr>EncryptedSecrets = [], resMetadata = \<lparr>metaOwner = owner, NodePublicEncryptionKeys = [], EnvVarsAssignedToNodes = []\<rparr>\<rparr> key owner = Err NoPublicKey"
  by (simp add: ValidateEncryptedSecrets_def DecryptSecretsForNode_def)

text \<open>A secret without values panics.\<close>

lemma empty_secret_panics: "EncryptSecretsForNodes L owner [(name, [])] [(p2pId, key)] config = Panic"
  by (simp add: EncryptSecretsForNodes_def encrypt_node_def node_secrets_def round_robin_def)

text \<open>An owner who is written differently is refused by validation and accepted by decryption.\<close>

lemma owner_compared_literally:
  "metaOwner (resMetadata r) = ''0xAb'' \<Longrightarrow> ValidateEncryptedSecrets L r keys ''0xab'' = Err OwnerMismatch \<and> normalizeOwner ''0xAb'' = normalizeOwner ''0xab''"
  by (simp add: ValidateEncryptedSecrets_def) code_simp

end
