(* ===== verification/Utils.thy ===== *)
theory Utils
  imports Prelude
begin

text \<open>
  Small shared parts: splitting into batches, averages and medians of machine integers, quorums, hexadecimal prefixes
  (\<^verbatim>\<open>pkg/utils\<close>, \<^verbatim>\<open>pkg/aggregation\<close>), identifiers of workflows (\<^verbatim>\<open>pkg/workflows/utils.go\<close>), values that are loaded
  once, retries, and the task that sleeps until it is woken up.
\<close>

section \<open>Batches\<close>

datatype util_error = MaxZero | Overflow | EmptyInput | NoPrefix | BadHex | MaxRetriesReached | ContextDone

function batches :: "nat \<Rightarrow> 'a list \<Rightarrow> 'a list list" where
  "batches m xs = (if m > 0 \<and> length xs > m then take m xs # batches m (drop m xs) else [xs])"
  by auto
termination by (relation "measure (length \<circ> snd)") auto

declare batches.simps [simp del]

text \<open>A negative maximum is less than every length, and slicing with it panics.\<close>

definition BatchSplit :: "'a list \<Rightarrow> int \<Rightarrow> (util_error, 'a list list) go" where
  "BatchSplit xs limit = (if limit = 0 then Err MaxZero else if limit < 0 then Panic else Ok (batches (nat limit) xs))"

lemma batches_more: "length xs > m \<Longrightarrow> 0 < m \<Longrightarrow> batches m xs = take m xs # batches m (drop m xs)"
  by (rule trans [OF batches.simps]) (simp only: simp_thms if_True)

lemma batches_last: "\<not> length xs > m \<Longrightarrow> batches m xs = [xs]"
  by (rule trans [OF batches.simps]) (simp only: simp_thms if_False)

lemma batches_not_empty: "batches m xs \<noteq> []"
  by (metis batches.simps list.distinct(1))

lemma batches_spec:
  "0 < m \<Longrightarrow> concat (batches m xs) = xs \<and> (\<forall>b \<in> set (batches m xs). length b \<le> m) \<and> (\<forall>b \<in> set (butlast (batches m xs)). length b = m)"
proof (induction m xs rule: batches.induct)
  case (1 m xs)
  show ?case
  proof (cases "length xs > m")
    case True
    define rest where "rest = batches m (drop m xs)"
    have "concat rest = drop m xs" "\<forall>b \<in> set rest. length b \<le> m" "\<forall>b \<in> set (butlast rest). length b = m" "rest \<noteq> []"
      using 1(1) [OF conjI [OF 1(2) True] 1(2)] batches_not_empty unfolding rest_def by blast+
    moreover have "batches m xs = take m xs # rest" using batches_more [OF True 1(2)] unfolding rest_def .
    ultimately show ?thesis using True by simp
  next
    case False
    then have "batches m xs = [xs]" by (rule batches_last)
    with False show ?thesis by simp
  qed
qed

text \<open>The batches are the list, none is longer than the maximum, and only the last can be shorter.\<close>

lemma BatchSplit_exact:
  "0 < limit \<Longrightarrow> \<exists>bs. BatchSplit xs limit = Ok bs \<and> concat bs = xs \<and> (\<forall>b \<in> set bs. int (length b) \<le> limit) \<and>
     (\<forall>b \<in> set (butlast bs). int (length b) = limit)"
  using batches_spec [of "nat limit" xs] by (force simp: BatchSplit_def)

section \<open>Averages and medians\<close>

text \<open>
  Integers of a signed type of \<open>w\<close> bits. The sum wraps, and a step that has wrapped is seen by its direction; the
  number of values has to fit the type. Division by no values panics.
\<close>

definition wrap_signed :: "nat \<Rightarrow> int \<Rightarrow> int" where
  "wrap_signed w n = (n + 2 ^ (w - 1)) mod 2 ^ w - 2 ^ (w - 1)"

fun avg_sum :: "nat \<Rightarrow> int \<Rightarrow> int list \<Rightarrow> (util_error, int) go" where
  "avg_sum w tot [] = Ok tot"
| "avg_sum w tot (v # vs) =
     (let next = wrap_signed w (tot + v)
      in if next < tot \<and> v \<ge> 0 \<or> next > tot \<and> v < 0 then Err Overflow else avg_sum w next vs)"

definition trunc_div :: "int \<Rightarrow> int \<Rightarrow> int" where
  "trunc_div a b = sgn a * sgn b * (\<bar>a\<bar> div \<bar>b\<bar>)"

definition Avg :: "nat \<Rightarrow> int list \<Rightarrow> (util_error, int) go" where
  "Avg w arr =
     go_bind (avg_sum w 0 arr) (\<lambda>tot.
       if wrap_signed w (int (length arr)) mod 2 ^ 64 \<noteq> int (length arr) then Err Overflow
       else if arr = [] then Panic
       else Ok (wrap_signed w (trunc_div tot (wrap_signed w (int (length arr))))))"

definition Median :: "nat \<Rightarrow> int list \<Rightarrow> (util_error, int) go" where
  "Median w arr =
     (let s = sort arr; l = length s
      in if l = 0 then Err EmptyInput
         else if l mod 2 = 0 then Avg w (take 2 (drop (l div 2 - 1) s))
         else Ok (s ! (l div 2)))"

definition signed_range :: "nat \<Rightarrow> int \<Rightarrow> bool" where
  "signed_range w n \<longleftrightarrow> - (2 ^ (w - 1)) \<le> n \<and> n < 2 ^ (w - 1)"

lemma wrap_signed_id: "0 < w \<Longrightarrow> signed_range w n \<Longrightarrow> wrap_signed w n = n"
  by (cases w) (auto simp: wrap_signed_def signed_range_def)

lemma wrap_signed_once:
  assumes "0 < w" "signed_range w a" "signed_range w b" "\<not> signed_range w (a + b)"
  shows "wrap_signed w (a + b) = (if 0 < b then a + b - 2 ^ w else a + b + 2 ^ w)"
proof -
  obtain v where w: "w = Suc v" using assms(1) by (cases w) auto
  show ?thesis
  proof (cases "0 < b")
    case True
    then have "2 ^ v \<le> a + b" "a + b < 2 ^ v + 2 ^ v" using assms w by (auto simp: signed_range_def)
    then have "(a + b + 2 ^ v) mod (2 * 2 ^ v) = a + b + 2 ^ v - 2 * 2 ^ v"
      by (intro int_mod_pos_eq [where q = 1]) auto
    with True show ?thesis by (simp add: wrap_signed_def w)
  next
    case False
    then have "a + b < - (2 ^ v)" "- (2 * 2 ^ v) \<le> a + b" using assms w by (auto simp: signed_range_def)
    then have "(a + b + 2 ^ v) mod (2 * 2 ^ v) = a + b + 2 ^ v + 2 * 2 ^ v"
      by (intro int_mod_pos_eq [where q = "-1"]) auto
    with False show ?thesis by (simp add: wrap_signed_def w)
  qed
qed

lemma All_le_Suc_split: "(\<forall>i \<le> Suc n. Q i) \<longleftrightarrow> Q 0 \<and> (\<forall>i \<le> n. Q (Suc i))"
  by (metis Suc_le_mono le0 not0_implies_Suc)

text \<open>The sum is exact or an error, and an error when and only when a partial sum is out of range.\<close>

lemma avg_sum_exact:
  assumes "0 < w" "signed_range w tot" "list_all (signed_range w) vs"
  shows "avg_sum w tot vs = (if \<forall>i \<le> length vs. signed_range w (tot + sum_list (take i vs)) then Ok (tot + sum_list vs) else Err Overflow)"
  using assms(2,3)
proof (induction vs arbitrary: tot)
  case (Cons v vs)
  have v: "signed_range w v" using Cons.prems by simp
  show ?case
  proof (cases "signed_range w (tot + v)")
    case True
    have "(\<forall>i \<le> length (v # vs). signed_range w (tot + sum_list (take i (v # vs)))) \<longleftrightarrow>
        (\<forall>i \<le> length vs. signed_range w (tot + v + sum_list (take i vs)))"
      using Cons.prems(1) by (simp add: All_le_Suc_split add.assoc)
    then show ?thesis using Cons True wrap_signed_id [OF assms(1) True] by (auto simp: Let_def add.assoc)
  next
    case False
    have bad: "\<not> (\<forall>i \<le> length (v # vs). signed_range w (tot + sum_list (take i (v # vs))))" using False by (auto intro!: exI [of _ 1])
    have "2 ^ (w - 1) + 2 ^ (w - 1) = (2 :: int) ^ w" using assms(1) by (cases w) auto
    then have "v < 2 ^ w" "- (2 ^ w) < v" using v by (auto simp: signed_range_def intro: le_less_trans)
    with False Cons.prems(1) v wrap_signed_once [OF assms(1) Cons.prems(1) v False] bad show ?thesis
      by (cases "0 < v") (auto simp: Let_def signed_range_def)
  qed
qed simp

text \<open>So an average is never wrong: it is the quotient of the true sum, rounded towards zero.\<close>

lemma wrap_signed_range: "0 < w \<Longrightarrow> signed_range w (wrap_signed w n)"
proof -
  assume "0 < w"
  then obtain v where w: "w = Suc v" by (cases w) auto
  have "0 \<le> (n + 2 ^ v) mod (2 * 2 ^ v)" "(n + 2 ^ v) mod (2 * 2 ^ v) < 2 * 2 ^ v" by simp_all
  then show ?thesis by (simp add: signed_range_def wrap_signed_def w)
qed

lemma trunc_div_range: "signed_range w s \<Longrightarrow> 0 < n \<Longrightarrow> signed_range w (trunc_div s n)"
proof -
  assume s: "signed_range w s" and n: "0 < n"
  have "0 \<le> \<bar>s\<bar> div n" "\<bar>s\<bar> div n \<le> \<bar>s\<bar>" using n zdiv_mono2 [of "\<bar>s\<bar>" 1 n] by (simp_all add: pos_imp_zdiv_nonneg_iff)
  then show ?thesis using s n by (auto simp: signed_range_def trunc_div_def sgn_if)
qed

lemma Avg_exact:
  assumes "0 < w" "w \<le> 64" "list_all (signed_range w) vs" "int (length vs) < 2 ^ 63" "Avg w vs = Ok r"
  shows "r = trunc_div (sum_list vs) (int (length vs))"
proof -
  let ?n = "wrap_signed w (int (length vs))"
  have zero: "signed_range w 0" by (simp add: signed_range_def)
  have tot: "avg_sum w 0 vs = Ok (sum_list vs)" "signed_range w (sum_list vs)"
    using assms avg_sum_exact [OF assms(1) zero assms(3)] by (auto simp: Avg_def split: if_splits dest: spec [of _ "length vs"])
  with assms(5) have len: "?n mod 2 ^ 64 = int (length vs)" "vs \<noteq> []" and r: "r = wrap_signed w (trunc_div (sum_list vs) ?n)"
    by (auto simp: Avg_def split: if_splits)
  have half: "(2 :: int) ^ (w - 1) \<le> 2 ^ 63" using assms(2) by (intro power_increasing) auto
  have range: "- (2 ^ 63) \<le> ?n" "?n < 2 ^ 63" using wrap_signed_range [OF assms(1), of "int (length vs)"] half by (auto simp: signed_range_def)
  have "0 \<le> ?n"
  proof (rule ccontr)
    assume "\<not> 0 \<le> ?n"
    then have "?n mod 2 ^ 64 = ?n + 2 ^ 64" using range by (intro int_mod_pos_eq [where q = "-1"]) auto
    then show False using len(1) range assms(4) by simp
  qed
  then have "?n = int (length vs)" using len(1) range by simp
  then show ?thesis using r trunc_div_range [OF tot(2), of "int (length vs)"] len(2) wrap_signed_id [OF assms(1)] by simp
qed

text \<open>The average of nothing panics, and the median of two large values is an error although it could be represented.\<close>

lemma avg_of_nothing_panics: "0 < w \<Longrightarrow> Avg w [] = Panic"
  by (simp add: Avg_def wrap_signed_id signed_range_def)

lemma median_overflows: "Median 8 [100, 100] = Err Overflow"
  by code_simp

section \<open>Quorums and percentages\<close>

definition ByzantineQuorum :: "int \<Rightarrow> int \<Rightarrow> int" where
  "ByzantineQuorum N F = (if N = 1 then 1 else trunc_div (N + F) 2 + 1)"

text \<open>
  Any two quorums have a member in common that is not among \<open>F\<close> faulty ones, and where there are more than three
  times as many members as faulty ones the others form a quorum.
\<close>

lemma quorums_intersect:
  assumes "finite nodes" "A \<subseteq> nodes" "B \<subseteq> nodes" "ByzantineQuorum (int (card nodes)) (int F) \<le> int (card A)"
    and "ByzantineQuorum (int (card nodes)) (int F) \<le> int (card B)" "1 < card nodes" "faulty \<subseteq> nodes" "card faulty \<le> F"
  shows "A \<inter> B - faulty \<noteq> {}"
proof
  assume "A \<inter> B - faulty = {}"
  then have sub: "A \<inter> B \<subseteq> faulty" by blast
  have fin: "finite A" "finite B" "finite faulty" using assms finite_subset by blast+
  have "card (A \<inter> B) \<le> F" using card_mono [OF fin(3) sub] assms(8) by simp
  moreover have "card (A \<union> B) \<le> card nodes" using assms(1-3) by (intro card_mono) auto
  moreover have "card A + card B = card (A \<union> B) + card (A \<inter> B)" using fin(1,2) by (rule card_Un_Int)
  moreover have "int (card nodes) + int F < 2 * ByzantineQuorum (int (card nodes)) (int F)"
    using assms(6) by (simp add: ByzantineQuorum_def trunc_div_def)
  ultimately show False using assms(4,5) by linarith
qed

lemma quorum_available: "3 * F < N \<Longrightarrow> 1 < N \<Longrightarrow> 0 \<le> F \<Longrightarrow> ByzantineQuorum N F \<le> N - F"
  by (simp add: ByzantineQuorum_def trunc_div_def)

text \<open>The sum of 100 and the percentage has sixteen bits. Division is Euclidean.\<close>

definition AddPercentage :: "int \<Rightarrow> 16 word \<Rightarrow> int" where
  "AddPercentage value percentage = (value * uint (100 + percentage)) div 100"

lemma AddPercentage_wraps: "AddPercentage 1000 65436 = 0 \<and> AddPercentage 1000 65435 = 655350"
  by (simp add: AddPercentage_def)

section \<open>Prefixes and quotes\<close>

definition HasPrefix :: "string \<Rightarrow> bool" where
  "HasPrefix s \<longleftrightarrow> (case s of z # x # _ \<Rightarrow> z = CHR ''0'' \<and> (x = CHR ''x'' \<or> x = CHR ''X'') | _ \<Rightarrow> False)"

definition TrimPrefix :: "string \<Rightarrow> string" where
  "TrimPrefix s = (if HasPrefix s then drop 2 s else s)"

definition EnsurePrefix :: "string \<Rightarrow> string" where
  "EnsurePrefix s = (if take 2 s = ''0x'' then s else ''0x'' @ s)"

lemma TrimPrefix_EnsurePrefix: "\<not> HasPrefix s \<Longrightarrow> TrimPrefix (EnsurePrefix s) = s"
  by (cases s rule: remdups_adj.cases) (auto simp: TrimPrefix_def EnsurePrefix_def HasPrefix_def)

text \<open>A prefix with a capital letter is recognised, and another one is put in front of it.\<close>

lemma capital_prefix_doubled: "HasPrefix ''0Xab'' \<and> EnsurePrefix ''0Xab'' = ''0x0Xab''"
  by code_simp

definition HasQuotes :: "string \<Rightarrow> bool" where
  "HasQuotes s \<longleftrightarrow> length s \<ge> 2 \<and>
     (hd s = CHR 0x22 \<and> last s = CHR 0x22 \<or> hd s = CHR 0x27 \<and> last s = CHR 0x27)"

definition TrimQuotes :: "string \<Rightarrow> string" where
  "TrimQuotes s = (if HasQuotes s then butlast (tl s) else s)"

lemma TrimQuotes_quoted: "q = CHR 0x22 \<or> q = CHR 0x27 \<Longrightarrow> TrimQuotes (q # s @ [q]) = s"
  by (auto simp: TrimQuotes_def HasQuotes_def)

section \<open>Identifiers of workflows\<close>

text \<open>The hash function is an argument; the parts are written to it one after the other.\<close>

definition EncodeExecutionID :: "(bytes \<Rightarrow> bytes) \<Rightarrow> bytes \<Rightarrow> bytes \<Rightarrow> bytes" where
  "EncodeExecutionID sha workflowID eventID = sha (workflowID @ eventID)"

definition GenerateWorkflowID :: "(bytes \<Rightarrow> bytes) \<Rightarrow> bytes \<Rightarrow> bytes \<Rightarrow> bytes \<Rightarrow> bytes \<Rightarrow> bytes \<Rightarrow> bytes" where
  "GenerateWorkflowID sha owner name workflow config secretsURL = (sha (owner @ name @ workflow @ config @ secretsURL))[0 := 0]"

text \<open>A byte that moves from the end of one part to the start of the next leaves the identifier as it is.\<close>

lemma ids_ambiguous:
  "GenerateWorkflowID sha owner (name @ x) workflow config url = GenerateWorkflowID sha owner name (x @ workflow) config url \<and>
   GenerateWorkflowID sha owner name (workflow @ x) config url = GenerateWorkflowID sha owner name workflow (x @ config) url \<and>
   EncodeExecutionID sha (workflowID @ x) eventID = EncodeExecutionID sha workflowID (x @ eventID)"
  by (simp add: GenerateWorkflowID_def EncodeExecutionID_def)

section \<open>Loading once\<close>

record 'a LazyLoad =
  lzState :: "'a option"
  lzCalls :: nat

definition NewLazyLoad :: "'a LazyLoad" where
  "NewLazyLoad = \<lparr>lzState = None, lzCalls = 0\<rparr>"

text \<open>\<open>f\<close> is the result of the function at its next call.\<close>

definition lazy_Get :: "'e + 'a \<Rightarrow> 'a LazyLoad \<Rightarrow> 'a LazyLoad \<times> ('e + 'a)" where
  "lazy_Get f l =
     (case lzState l of
        Some v \<Rightarrow> (l, Inr v)
      | None \<Rightarrow>
          (case f of
             Inl e \<Rightarrow> (l\<lparr>lzCalls := lzCalls l + 1\<rparr>, Inl e)
           | Inr v \<Rightarrow> (\<lparr>lzState = Some v, lzCalls = lzCalls l + 1\<rparr>, Inr v)))"

definition lazy_Reset :: "'a LazyLoad \<Rightarrow> 'a LazyLoad" where
  "lazy_Reset l = l\<lparr>lzState := None\<rparr>"

lemma lazy_once:
  fixes f g :: "'e + 'a" and fs :: "('e + 'a) list"
  assumes "lazy_Get f l = (l1, Inr v)"
  shows "foldl (\<lambda>l f. fst (lazy_Get f l)) l1 fs = l1 \<and> snd (lazy_Get g l1) = Inr v"
proof -
  have "lzState l1 = Some v" using assms by (auto simp: lazy_Get_def split: option.splits sum.splits)
  then have "lazy_Get g l1 = (l1, Inr v)" for g :: "'e + 'a" by (simp add: lazy_Get_def)
  then show ?thesis by (induction fs) auto
qed

section \<open>Retries\<close>

text \<open>
  The calls to come: how each ends, and whether the context is done before the wait after it. \<open>None\<close> is a loop that goes
  on. The maximum is converted to a signed integer.
\<close>

fun retry_loop :: "64 word \<Rightarrow> int \<Rightarrow> (('e + 'r) \<times> bool) list \<Rightarrow> nat \<Rightarrow> (nat \<times> (util_error + 'r)) option" where
  "retry_loop maxRetries numRetries env calls =
     (if maxRetries > 0 \<and> numRetries > sint maxRetries then Some (calls, Inl MaxRetriesReached)
      else case env of
          [] \<Rightarrow> None
        | (Inr r, _) # rest \<Rightarrow> Some (calls + 1, Inr r)
        | (Inl e, True) # rest \<Rightarrow> Some (calls + 1, Inl ContextDone)
        | (Inl e, False) # rest \<Rightarrow> retry_loop maxRetries (numRetries + 1) rest (calls + 1))"

declare retry_loop.simps [simp del]

definition Strategy_Do :: "64 word \<Rightarrow> (('e + 'r) \<times> bool) list \<Rightarrow> (nat \<times> (util_error + 'r)) option" where
  "Strategy_Do maxRetries env = retry_loop maxRetries 0 env 0"

lemma retry_loop_result:
  assumes "retry_loop maxRetries n env calls = Some (c, r)" and "0 < sint maxRetries" and "int calls = n" and "n \<le> sint maxRetries + 1"
  shows "int c \<le> sint maxRetries + 1 \<and> (\<forall>v. r = Inr v \<longrightarrow> calls < c \<and> c - calls \<le> length env \<and>
    fst (env ! (c - calls - 1)) = Inr v \<and> (\<forall>i < c - calls - 1. \<exists>e. env ! i = (Inl e, False)))"
  using assms
proof (induction env arbitrary: n calls)
  case Nil
  then show ?case by (auto simp: retry_loop.simps [of _ _ "[]"] split: if_splits)
next
  case (Cons x env)
  show ?case
  proof (cases "maxRetries > 0 \<and> n > sint maxRetries")
    case True
    with Cons.prems show ?thesis by (auto simp: retry_loop.simps [of _ n])
  next
    case more: False
    have pos: "maxRetries > 0" using Cons.prems(2) by (cases "maxRetries = 0") (auto simp: word_neq_0_conv)
    show ?thesis
    proof (cases "\<exists>e. x = (Inl e, False)")
      case True
      then obtain e where x: "x = (Inl e, False)" by blast
      then have "retry_loop maxRetries (n + 1) env (calls + 1) = Some (c, r)"
        using Cons.prems(1) more by (auto simp: retry_loop.simps [of _ n])
      from Cons.IH [OF this Cons.prems(2)] Cons.prems(3) more pos have IH: "int c \<le> sint maxRetries + 1"
          "\<forall>v. r = Inr v \<longrightarrow> calls + 1 < c \<and> c - (calls + 1) \<le> length env \<and> fst (env ! (c - (calls + 1) - 1)) = Inr v \<and>
             (\<forall>i < c - (calls + 1) - 1. \<exists>e. env ! i = (Inl e, False))" by auto
      show ?thesis
      proof (intro conjI allI impI IH(1))
        fix v assume "r = Inr v"
        with IH(2) have I: "calls + 1 < c" "c - (calls + 1) \<le> length env" "fst (env ! (c - (calls + 1) - 1)) = Inr v"
            "\<forall>i < c - (calls + 1) - 1. \<exists>e. env ! i = (Inl e, False)" by auto
        have "c = calls + 2 + (c - calls - 2)" using I(1) by linarith
        then obtain d where d: "c = calls + 2 + d" by blast
        show "calls < c" "c - calls \<le> length (x # env)" using I(1,2) by auto
        show "fst ((x # env) ! (c - calls - 1)) = Inr v" using I(3) d by simp
        fix i assume "i < c - calls - 1"
        then show "\<exists>e. (x # env) ! i = (Inl e, False)" using I(4) x d by (cases i) auto
      qed
    next
      case False
      then consider v b where "x = (Inr v, b)" | e where "x = (Inl e, True)" by (metis (full_types) old.sum.exhaust surj_pair)
      then show ?thesis
      proof cases
        case 1
        then have "c = calls + 1" "r = Inr v" using Cons.prems(1) more by (auto simp: retry_loop.simps [of _ n])
        with 1 Cons.prems(3) more pos show ?thesis by auto
      next
        case 2
        then have "c = calls + 1" "r = Inl ContextDone" using Cons.prems(1) more by (auto simp: retry_loop.simps [of _ n])
        with Cons.prems(3) more pos show ?thesis by auto
      qed
    qed
  qed
qed

text \<open>
  With a limit the function is called at most once more often than the limit; the result that is returned is the first
  success, after failures only. A limit with the highest bit set is negative as an integer, and the function is not called.
\<close>

lemma retries_bounded:
  assumes "Strategy_Do maxRetries env = Some (c, r)" and "0 < sint maxRetries"
  shows "int c \<le> sint maxRetries + 1 \<and> (\<forall>v. r = Inr v \<longrightarrow> 0 < c \<and> c \<le> length env \<and> fst (env ! (c - 1)) = Inr v \<and>
    (\<forall>i < c - 1. \<exists>e. env ! i = (Inl e, False)))"
  using retry_loop_result [OF assms(1) [unfolded Strategy_Do_def] assms(2)] assms(2) by simp

lemma retries_negative: "Strategy_Do (2 ^ 63) env = Some (0, Inl MaxRetriesReached)"
  by (simp add: Strategy_Do_def retry_loop.simps)

section \<open>The sleeper task\<close>

text \<open>
  The state of the task: whether a wake-up is queued (the channel holds one), whether the worker works, whether the task is
  stopped and its loop has ended; and for the statement how many wake-ups there were, and how many of them came before
  the last start of the work.
\<close>

record SleeperTask =
  slQueued :: bool
  slWorking :: bool
  slStopped :: bool
  slDone :: bool
  slWoken :: nat
  slServed :: nat

definition NewSleeperTask :: SleeperTask where
  "NewSleeperTask = \<lparr>slQueued = False, slWorking = False, slStopped = False, slDone = False, slWoken = 0, slServed = 0\<rparr>"

text \<open>When both channels are ready the loop takes either.\<close>

inductive sleeper_step :: "SleeperTask \<Rightarrow> SleeperTask \<Rightarrow> bool" where
  wake: "\<not> slStopped s \<Longrightarrow> sleeper_step s (s\<lparr>slQueued := True, slWoken := slWoken s + 1\<rparr>)"
| work: "slQueued s \<Longrightarrow> \<not> slWorking s \<Longrightarrow> \<not> slDone s \<Longrightarrow> sleeper_step s (s\<lparr>slQueued := False, slWorking := True, slServed := slWoken s\<rparr>)"
| work_done: "slWorking s \<Longrightarrow> sleeper_step s (s\<lparr>slWorking := False\<rparr>)"
| stop: "\<not> slStopped s \<Longrightarrow> sleeper_step s (s\<lparr>slStopped := True\<rparr>)"
| ends: "slStopped s \<Longrightarrow> \<not> slWorking s \<Longrightarrow> \<not> slDone s \<Longrightarrow> sleeper_step s (s\<lparr>slDone := True\<rparr>)"

inductive_simps sleeper_step_simps: "sleeper_step s s'"

lemma sleeper_inv:
  "sleeper_step\<^sup>*\<^sup>* NewSleeperTask s \<Longrightarrow> (slQueued s \<or> slServed s = slWoken s) \<and> (slDone s \<longrightarrow> slStopped s \<and> \<not> slWorking s)"
  by (induction rule: rtranclp_induct) (auto simp: NewSleeperTask_def sleeper_step_simps)

text \<open>Until the task is stopped, a wake-up the worker has not started for is queued, and the worker takes it up when it is free.\<close>

lemma wake_ups_served:
  assumes "sleeper_step\<^sup>*\<^sup>* NewSleeperTask s" "slServed s < slWoken s" "\<not> slStopped s"
  shows "\<exists>s1 s2. (s1 = s \<or> sleeper_step s s1) \<and> sleeper_step s1 s2 \<and> slServed s2 = slWoken s"
proof (cases "slWorking s")
  case True
  have "slQueued s" "\<not> slDone s" using sleeper_inv [OF assms(1)] assms(2,3) by auto
  then show ?thesis using True work_done [of s] work [of "s\<lparr>slWorking := False\<rparr>"] by fastforce
next
  case False
  have "slQueued s" "\<not> slDone s" using sleeper_inv [OF assms(1)] assms(2,3) by auto
  then show ?thesis using False work [of s] by fastforce
qed

text \<open>A wake-up before a stop may never be served.\<close>

lemma wake_up_lost: "\<exists>s. sleeper_step\<^sup>*\<^sup>* NewSleeperTask s \<and> slDone s \<and> slServed s < slWoken s"
proof -
  let ?s1 = "NewSleeperTask\<lparr>slQueued := True, slWoken := 1\<rparr>" and ?s2 = "NewSleeperTask\<lparr>slQueued := True, slWoken := 1, slStopped := True\<rparr>"
  have "sleeper_step NewSleeperTask ?s1" using wake [of NewSleeperTask] by (simp add: NewSleeperTask_def)
  moreover have "sleeper_step ?s1 ?s2" using stop [of ?s1] by (simp add: NewSleeperTask_def)
  moreover have "sleeper_step ?s2 (?s2\<lparr>slDone := True\<rparr>)" by (intro ends) (simp_all add: NewSleeperTask_def)
  ultimately have "sleeper_step\<^sup>*\<^sup>* NewSleeperTask (?s2\<lparr>slDone := True\<rparr>)" by (meson rtranclp.rtrancl_into_rtrancl rtranclp.rtrancl_refl)
  then show ?thesis by (intro exI [of _ "?s2\<lparr>slDone := True\<rparr>"]) (simp add: NewSleeperTask_def)
qed

end
