(* ===== verification/Encodings.thy ===== *)
theory Encodings
  imports Prelude "HOL-Library.Char_ord"
begin

text \<open>
  The type codecs of \<^verbatim>\<open>pkg/codec/encodings\<close> and \<^verbatim>\<open>pkg/codec/encodings/binary\<close>: integers of every
  width in both byte orders, big integers, booleans, floats, strings, arrays, slices, structs and
  the codec that is looked up by item type.

  A Go value that is passed as \<^verbatim>\<open>any\<close> carries its dynamic type, so \<open>cval\<close> has one constructor per
  type and containers carry the type of their elements (\<open>type_of\<close>). A \<^verbatim>\<open>TypeCodec\<close> is the tuple of
  its methods; an optional method stands for the interface that only some codecs implement
  (\<^verbatim>\<open>TopLevelCodec\<close>, \<^verbatim>\<open>StructTypeCodec\<close>). Signed big integers are encoded by the package
  \<^verbatim>\<open>bigbigendian\<close>, which is an argument. Sizes are unbounded integers.
\<close>

section \<open>Values and their types\<close>

datatype ctype =
    TNil | TBool | TInt8 | TInt16 | TInt32 | TInt64 | TUint8 | TUint16 | TUint32 | TUint64
  | TFloat32 | TFloat64 | TOracleID | TInt | TUint | TString | TBigInt | TEmpty
  | TSlice ctype | TArray nat ctype | TPtr ctype | TStruct "(string \<times> ctype) list"

text \<open>
  Floats are their IEEE bits, strings are bytes, \<open>CBigInt None\<close> is a nil \<^verbatim>\<open>*big.Int\<close>, \<open>CNil\<close> the nil
  interface.
\<close>

datatype cval =
    CNil | CBool bool
  | CInt8 "8 word" | CInt16 "16 word" | CInt32 "32 word" | CInt64 "64 word"
  | CUint8 "8 word" | CUint16 "16 word" | CUint32 "32 word" | CUint64 "64 word"
  | CFloat32 "32 word" | CFloat64 "64 word" | COracleID "8 word" | CInt "64 word" | CUint "64 word"
  | CString bytes | CBigInt "int option" | CEmpty
  | CSlice ctype "cval list" | CArray ctype "cval list" | CPtr ctype "cval option"
  | CStruct "(string \<times> ctype) list" "cval list"

fun type_of :: "cval \<Rightarrow> ctype" where
  "type_of CNil = TNil"
| "type_of (CBool _) = TBool"
| "type_of (CInt8 _) = TInt8"
| "type_of (CInt16 _) = TInt16"
| "type_of (CInt32 _) = TInt32"
| "type_of (CInt64 _) = TInt64"
| "type_of (CUint8 _) = TUint8"
| "type_of (CUint16 _) = TUint16"
| "type_of (CUint32 _) = TUint32"
| "type_of (CUint64 _) = TUint64"
| "type_of (CFloat32 _) = TFloat32"
| "type_of (CFloat64 _) = TFloat64"
| "type_of (COracleID _) = TOracleID"
| "type_of (CInt _) = TInt"
| "type_of (CUint _) = TUint"
| "type_of (CString _) = TString"
| "type_of (CBigInt _) = TBigInt"
| "type_of CEmpty = TEmpty"
| "type_of (CSlice t _) = TSlice t"
| "type_of (CArray t vs) = TArray (length vs) t"
| "type_of (CPtr t _) = TPtr t"
| "type_of (CStruct fts _) = TStruct fts"

text \<open>\<^verbatim>\<open>Kind() == reflect.Pointer\<close>\<close>

fun is_pointer :: "ctype \<Rightarrow> bool" where
  "is_pointer TBigInt = True"
| "is_pointer (TPtr _) = True"
| "is_pointer _ = False"

text \<open>
  The bytes of memory of a value of a type on a 64-bit machine (every field of a struct codec is a
  pointer) and the limit of the runtime on one allocation: making a larger slice or array panics.
\<close>

fun type_size :: "ctype \<Rightarrow> nat" where
  "type_size TNil = 0"
| "type_size TBool = 1"
| "type_size TInt8 = 1"
| "type_size TInt16 = 2"
| "type_size TInt32 = 4"
| "type_size TInt64 = 8"
| "type_size TUint8 = 1"
| "type_size TUint16 = 2"
| "type_size TUint32 = 4"
| "type_size TUint64 = 8"
| "type_size TFloat32 = 4"
| "type_size TFloat64 = 8"
| "type_size TOracleID = 1"
| "type_size TInt = 8"
| "type_size TUint = 8"
| "type_size TString = 16"
| "type_size TBigInt = 8"
| "type_size TEmpty = 0"
| "type_size (TSlice _) = 24"
| "type_size (TArray n t) = n * type_size t"
| "type_size (TPtr _) = 8"
| "type_size (TStruct fts) = 8 * length fts"

definition maxAlloc :: nat where "maxAlloc = 2 ^ 48"

definition can_make :: "ctype \<Rightarrow> nat \<Rightarrow> bool" where
  "can_make t n \<longleftrightarrow> n * type_size t \<le> maxAlloc"

datatype cerr = ErrInvalidType | ErrInvalidEncoding | ErrInvalidConfig | ErrNotASlice | ErrSliceWrongLen | ErrInternal

datatype typeCodec = TypeCodec
  (encode: "cval \<Rightarrow> bytes \<Rightarrow> (cerr, bytes) go")
  (decode: "bytes \<Rightarrow> (cerr, cval \<times> bytes) go")
  (getType: ctype)
  (codecSize: "int \<Rightarrow> (cerr, int) go")
  (fixedSize: "(cerr, int) go")
  (sizeAtTopLevel: "(int \<Rightarrow> (cerr, int) go) option")
  (fieldCodec: "(string \<Rightarrow> (cerr, typeCodec) go) option")

section \<open>Helpers\<close>

definition SafeDecode :: "bytes \<Rightarrow> nat \<Rightarrow> (bytes \<Rightarrow> 'a) \<Rightarrow> (cerr, 'a \<times> bytes) go" where
  "SafeDecode raw n call =
     (if length raw < n then Err ErrInvalidEncoding else Ok (call (take n raw), drop n raw))"

text \<open>The elements of a value whose kind is slice or array.\<close>

fun elements :: "cval \<Rightarrow> cval list option" where
  "elements (CSlice _ vs) = Some vs"
| "elements (CArray _ vs) = Some vs"
| "elements _ = None"

definition EncodeEach :: "typeCodec \<Rightarrow> cval list \<Rightarrow> bytes \<Rightarrow> (cerr, bytes) go" where
  "EncodeEach tc vs into = go_foldM (\<lambda>into v. encode tc v into) into vs"

text \<open>\<^verbatim>\<open>Set\<close> panics on a value of another type.\<close>

definition checked :: "ctype \<Rightarrow> cval \<Rightarrow> (cerr, cval) go" where
  "checked t v = (if type_of v = t then Ok v else Panic)"

fun DecodeEach :: "typeCodec \<Rightarrow> nat \<Rightarrow> bytes \<Rightarrow> (cerr, cval list \<times> bytes) go" where
  "DecodeEach tc 0 encoded = Ok ([], encoded)"
| "DecodeEach tc (Suc n) encoded =
     go_bind (decode tc encoded) (\<lambda>(element, remaining).
     go_bind (checked (getType tc) element) (\<lambda>v.
     go_map (map_prod ((#) v) (\<lambda>r. r)) (DecodeEach tc n remaining)))"

section \<open>Fixed-width integers\<close>

datatype endian = BigEndian | LittleEndian

text \<open>\<^verbatim>\<open>AppendUint16\<close>, \<^verbatim>\<open>Uint16\<close> and so on of \<^verbatim>\<open>encoding/binary\<close>, for \<open>n\<close> bytes.\<close>

definition word_bytes :: "endian \<Rightarrow> nat \<Rightarrow> 'w :: len word \<Rightarrow> bytes" where
  "word_bytes e n w = (case e of BigEndian \<Rightarrow> be_fixed n (unat w) | LittleEndian \<Rightarrow> rev (be_fixed n (unat w)))"

definition bytes_word :: "endian \<Rightarrow> bytes \<Rightarrow> 'w :: len word" where
  "bytes_word e bs = of_nat (be_nat (case e of BigEndian \<Rightarrow> bs | LittleEndian \<Rightarrow> rev bs))"

definition word_codec ::
    "endian \<Rightarrow> nat \<Rightarrow> ('w :: len word \<Rightarrow> cval) \<Rightarrow> (cval \<Rightarrow> 'w word option) \<Rightarrow> ctype \<Rightarrow> typeCodec" where
  "word_codec e n mk dest t = TypeCodec
     (\<lambda>value into. case dest value of
        None \<Rightarrow> Err ErrInvalidType | Some v \<Rightarrow> Ok (into @ word_bytes e n v))
     (\<lambda>encoded. SafeDecode encoded n (\<lambda>b. mk (bytes_word e b)))
     t (\<lambda>_. Ok (int n)) (Ok (int n)) None None"

definition Int8 :: "endian \<Rightarrow> typeCodec" where
  "Int8 e = word_codec e 1 CInt8 (\<lambda>v. case v of CInt8 w \<Rightarrow> Some w | _ \<Rightarrow> None) TInt8"

definition Uint8 :: "endian \<Rightarrow> typeCodec" where
  "Uint8 e = word_codec e 1 CUint8 (\<lambda>v. case v of CUint8 w \<Rightarrow> Some w | _ \<Rightarrow> None) TUint8"

definition Int16 :: "endian \<Rightarrow> typeCodec" where
  "Int16 e = word_codec e 2 CInt16 (\<lambda>v. case v of CInt16 w \<Rightarrow> Some w | _ \<Rightarrow> None) TInt16"

definition Uint16 :: "endian \<Rightarrow> typeCodec" where
  "Uint16 e = word_codec e 2 CUint16 (\<lambda>v. case v of CUint16 w \<Rightarrow> Some w | _ \<Rightarrow> None) TUint16"

definition Int32 :: "endian \<Rightarrow> typeCodec" where
  "Int32 e = word_codec e 4 CInt32 (\<lambda>v. case v of CInt32 w \<Rightarrow> Some w | _ \<Rightarrow> None) TInt32"

definition Uint32 :: "endian \<Rightarrow> typeCodec" where
  "Uint32 e = word_codec e 4 CUint32 (\<lambda>v. case v of CUint32 w \<Rightarrow> Some w | _ \<Rightarrow> None) TUint32"

definition Int64 :: "endian \<Rightarrow> typeCodec" where
  "Int64 e = word_codec e 8 CInt64 (\<lambda>v. case v of CInt64 w \<Rightarrow> Some w | _ \<Rightarrow> None) TInt64"

definition Uint64 :: "endian \<Rightarrow> typeCodec" where
  "Uint64 e = word_codec e 8 CUint64 (\<lambda>v. case v of CUint64 w \<Rightarrow> Some w | _ \<Rightarrow> None) TUint64"

definition Float32 :: "endian \<Rightarrow> typeCodec" where
  "Float32 e = word_codec e 4 CFloat32 (\<lambda>v. case v of CFloat32 w \<Rightarrow> Some w | _ \<Rightarrow> None) TFloat32"

definition Float64 :: "endian \<Rightarrow> typeCodec" where
  "Float64 e = word_codec e 8 CFloat64 (\<lambda>v. case v of CFloat64 w \<Rightarrow> Some w | _ \<Rightarrow> None) TFloat64"

definition OracleID :: "endian \<Rightarrow> typeCodec" where
  "OracleID e = word_codec e 1 COracleID (\<lambda>v. case v of COracleID w \<Rightarrow> Some w | _ \<Rightarrow> None) TOracleID"

definition Bool :: typeCodec where
  "Bool = TypeCodec
     (\<lambda>value into. case value of
        CBool b \<Rightarrow> Ok (into @ [if b then 1 else 0]) | _ \<Rightarrow> Err ErrInvalidType)
     (\<lambda>encoded. SafeDecode encoded 1 (\<lambda>b. CBool (hd b \<noteq> 0)))
     TBool (\<lambda>_. Ok 1) (Ok 1) None None"

definition Empty :: typeCodec where
  "Empty = TypeCodec (\<lambda>_ into. Ok into) (\<lambda>encoded. Ok (CEmpty, encoded))
     TEmpty (\<lambda>_. Ok 0) (Ok 0) None None"

section \<open>Big integers\<close>

text \<open>
  The package \<^verbatim>\<open>bigbigendian\<close>: two's complement in a given number of bytes. A nil integer makes every
  one of the methods used here panic.
\<close>

record big_lib =
  MaxSize :: nat
  SerializeSigned :: "nat \<Rightarrow> int \<Rightarrow> bytes option"
  DeserializeSigned :: "nat \<Rightarrow> bytes \<Rightarrow> int option"

fun bits_len :: "nat \<Rightarrow> nat" where
  "bits_len n = (if n = 0 then 0 else Suc (bits_len (n div 2)))"

declare bits_len.simps [simp del]

definition serializeUnsigned :: "endian \<Rightarrow> nat \<Rightarrow> int \<Rightarrow> (cerr, bytes) go" where
  "serializeUnsigned e n i =
     (if i < 0 then Err ErrInvalidType
      else if bits_len (nat i) > n * 8 then Err ErrInvalidType
      else Ok (case e of BigEndian \<Rightarrow> be_fixed n (nat i) | LittleEndian \<Rightarrow> rev (be_fixed n (nat i))))"

definition deserializeUnsigned :: "endian \<Rightarrow> bytes \<Rightarrow> int" where
  "deserializeUnsigned e b = int (be_nat (case e of BigEndian \<Rightarrow> b | LittleEndian \<Rightarrow> rev b))"

definition serializeSigned :: "big_lib \<Rightarrow> endian \<Rightarrow> nat \<Rightarrow> int \<Rightarrow> (cerr, bytes) go" where
  "serializeSigned B e n i =
     (case SerializeSigned B n i of
        None \<Rightarrow> Err ErrInvalidType
      | Some b \<Rightarrow> Ok (case e of BigEndian \<Rightarrow> b | LittleEndian \<Rightarrow> rev b))"

definition deserializeSigned :: "big_lib \<Rightarrow> endian \<Rightarrow> nat \<Rightarrow> bytes \<Rightarrow> int option" where
  "deserializeSigned B e n b =
     DeserializeSigned B n (case e of BigEndian \<Rightarrow> b | LittleEndian \<Rightarrow> rev b)"

definition NewBigInt :: "big_lib \<Rightarrow> endian \<Rightarrow> nat \<Rightarrow> bool \<Rightarrow> (cerr, typeCodec) go" where
  "NewBigInt B e numBytes isSigned =
     (if numBytes > MaxSize B then Err ErrInvalidConfig
      else Ok (TypeCodec
        (\<lambda>value into. case value of
           CBigInt None \<Rightarrow> Panic
         | CBigInt (Some i) \<Rightarrow>
             go_map ((@) into)
               (if isSigned then serializeSigned B e numBytes i else serializeUnsigned e numBytes i)
         | _ \<Rightarrow> Err ErrInvalidType)
        (\<lambda>encoded. SafeDecode encoded numBytes (\<lambda>b. CBigInt
           (if isSigned then deserializeSigned B e numBytes b else Some (deserializeUnsigned e b))))
        TBigInt (\<lambda>_. Ok (int numBytes)) (Ok (int numBytes)) None None))"

section \<open>Go integers\<close>

text \<open>\<^verbatim>\<open>intCodec\<close> and \<^verbatim>\<open>uintCodec\<close>: the conversions are functions of the codec below them.\<close>

definition intCodec :: "typeCodec \<Rightarrow> (cval \<Rightarrow> 64 word option) \<Rightarrow> (64 word \<Rightarrow> cval) \<Rightarrow> typeCodec" where
  "intCodec c toInt fromInt = TypeCodec
     (\<lambda>value into. case value of CInt i \<Rightarrow> encode c (fromInt i) into | _ \<Rightarrow> Err ErrInvalidType)
     (\<lambda>encoded. go_bind (decode c encoded) (\<lambda>(v, remaining).
        case toInt v of None \<Rightarrow> Panic | Some i \<Rightarrow> Ok (CInt i, remaining)))
     TInt (codecSize c) (fixedSize c) None None"

definition uintCodec :: "typeCodec \<Rightarrow> (cval \<Rightarrow> 64 word option) \<Rightarrow> (64 word \<Rightarrow> cval) \<Rightarrow> typeCodec" where
  "uintCodec c toUint fromUint = TypeCodec
     (\<lambda>value into. case value of CUint i \<Rightarrow> encode c (fromUint i) into | _ \<Rightarrow> Err ErrInvalidType)
     (\<lambda>encoded. go_bind (decode c encoded) (\<lambda>(v, remaining).
        case toUint v of None \<Rightarrow> Panic | Some i \<Rightarrow> Ok (CUint i, remaining)))
     TUint (codecSize c) (fixedSize c) None None"

definition IntN :: "big_lib \<Rightarrow> endian \<Rightarrow> nat \<Rightarrow> (cerr, typeCodec) go" where
  "IntN B e bytes =
     (if bytes = 1 then
        Ok (intCodec (Int8 e) (\<lambda>v. case v of CInt8 w \<Rightarrow> Some (scast w) | _ \<Rightarrow> None) (\<lambda>i. CInt8 (ucast i)))
      else if bytes = 2 then
        Ok (intCodec (Int16 e) (\<lambda>v. case v of CInt16 w \<Rightarrow> Some (scast w) | _ \<Rightarrow> None) (\<lambda>i. CInt16 (ucast i)))
      else if bytes = 4 then
        Ok (intCodec (Int32 e) (\<lambda>v. case v of CInt32 w \<Rightarrow> Some (scast w) | _ \<Rightarrow> None) (\<lambda>i. CInt32 (ucast i)))
      else if bytes = 8 then
        Ok (intCodec (Int64 e) (\<lambda>v. case v of CInt64 w \<Rightarrow> Some w | _ \<Rightarrow> None) CInt64)
      else go_map (\<lambda>c. intCodec c
             (\<lambda>v. case v of CBigInt (Some i) \<Rightarrow> Some (word_of_int i) | _ \<Rightarrow> None) (\<lambda>i. CBigInt (Some (sint i))))
           (NewBigInt B e bytes True))"

definition UintN :: "big_lib \<Rightarrow> endian \<Rightarrow> nat \<Rightarrow> (cerr, typeCodec) go" where
  "UintN B e bytes =
     (if bytes = 1 then
        Ok (uintCodec (Uint8 e) (\<lambda>v. case v of CUint8 w \<Rightarrow> Some (ucast w) | _ \<Rightarrow> None) (\<lambda>i. CUint8 (ucast i)))
      else if bytes = 2 then
        Ok (uintCodec (Uint16 e) (\<lambda>v. case v of CUint16 w \<Rightarrow> Some (ucast w) | _ \<Rightarrow> None) (\<lambda>i. CUint16 (ucast i)))
      else if bytes = 4 then
        Ok (uintCodec (Uint32 e) (\<lambda>v. case v of CUint32 w \<Rightarrow> Some (ucast w) | _ \<Rightarrow> None) (\<lambda>i. CUint32 (ucast i)))
      else if bytes = 8 then
        Ok (uintCodec (Uint64 e) (\<lambda>v. case v of CUint64 w \<Rightarrow> Some w | _ \<Rightarrow> None) CUint64)
      else go_map (\<lambda>c. uintCodec c
             (\<lambda>v. case v of CBigInt (Some i) \<Rightarrow> Some (word_of_int i) | _ \<Rightarrow> None) (\<lambda>i. CBigInt (Some (uint i))))
           (NewBigInt B e bytes False))"

section \<open>Containers\<close>

definition NotNilPointer :: "typeCodec \<Rightarrow> typeCodec" where
  "NotNilPointer elm = TypeCodec
     (\<lambda>value into. case value of
        CPtr _ (Some v) \<Rightarrow> encode elm v into
      | _ \<Rightarrow> Err ErrInvalidType)
     (\<lambda>encoded. go_bind (decode elm encoded) (\<lambda>(val, remaining).
        go_map (\<lambda>v. (CPtr (getType elm) (Some v), remaining)) (checked (getType elm) val)))
     (TPtr (getType elm)) (codecSize elm) (fixedSize elm) None None"

definition NewArray :: "nat \<Rightarrow> typeCodec option \<Rightarrow> (cerr, typeCodec) go" where
  "NewArray numElements underlying =
     (case underlying of
        None \<Rightarrow> Err ErrInvalidConfig
      | Some field \<Rightarrow>
          let fixed = go_map (\<lambda>fs. fs * int numElements) (fixedSize field)
          in Ok (TypeCodec
            (\<lambda>value into. case elements value of
               None \<Rightarrow> Err ErrNotASlice
             | Some vs \<Rightarrow> if length vs \<noteq> numElements then Err ErrSliceWrongLen else EncodeEach field vs into)
            (\<lambda>encoded. if can_make (getType field) numElements
               then go_map (map_prod (CArray (getType field)) (\<lambda>r. r)) (DecodeEach field numElements encoded)
               else Panic)
            (TArray numElements (getType field)) (\<lambda>_. fixed) fixed None None))"

definition slice :: "typeCodec \<Rightarrow> typeCodec \<Rightarrow> typeCodec" where
  "slice field sizeCodec = TypeCodec
     (\<lambda>value into. case elements value of
        None \<Rightarrow> Err ErrNotASlice
      | Some vs \<Rightarrow>
          go_bind (fixedSize sizeCodec) (\<lambda>fs.
            if int (length vs) > 2 ^ nat (fs * 8) then Err ErrSliceWrongLen
            else go_bind (encode sizeCodec (CInt (of_nat (length vs))) into) (EncodeEach field vs)))
     (\<lambda>encoded. go_bind (decode sizeCodec encoded) (\<lambda>(sz, remaining).
        case sz of
          CInt intSize \<Rightarrow>
            if sint intSize < 0 then Err ErrInvalidEncoding
            else if \<not> can_make (getType field) (nat (sint intSize)) then Panic
            else go_map (map_prod (CSlice (getType field)) (\<lambda>r. r))
                   (DecodeEach field (nat (sint intSize)) remaining)
        | _ \<Rightarrow> Err ErrInternal))
     (TSlice (getType field))
     (\<lambda>numItems. go_bind (fixedSize sizeCodec) (\<lambda>sizeSize.
        go_map (\<lambda>elemSize. sizeSize + elemSize * numItems) (fixedSize field)))
     (Err ErrInvalidType) None None"

definition NewSlice :: "typeCodec option \<Rightarrow> typeCodec option \<Rightarrow> (cerr, typeCodec) go" where
  "NewSlice field sz =
     (case (field, sz) of
        (Some f, Some s) \<Rightarrow> if getType s \<noteq> TInt then Err ErrInvalidConfig else Ok (slice f s)
      | _ \<Rightarrow> Err ErrInvalidConfig)"

text \<open>A Go string is its bytes; the slice below holds them as \<^verbatim>\<open>uint8\<close> values.\<close>

definition NewString :: "big_lib \<Rightarrow> endian \<Rightarrow> nat \<Rightarrow> (cerr, typeCodec) go" where
  "NewString B e maxLength =
     go_bind (IntN B e ((bits_len maxLength + 7) div 8)) (\<lambda>sizeEncoder.
     go_map (\<lambda>c. TypeCodec
       (\<lambda>value into. case value of
          CString str \<Rightarrow>
            if length str > maxLength then Err ErrInvalidType
            else encode c (CSlice TUint8 (map CUint8 str)) into
        | _ \<Rightarrow> Err ErrInvalidType)
       (\<lambda>encoded. go_bind (decode c encoded) (\<lambda>(v, remaining).
          case v of
            CSlice _ vs \<Rightarrow>
              (let str = [w. CUint8 w \<leftarrow> vs]
               in if length str > maxLength then Err ErrInvalidEncoding else Ok (CString str, remaining))
          | _ \<Rightarrow> Panic))
       TString (\<lambda>_. Err ErrInvalidType) (Err ErrInvalidType) None None)
     (NewSlice (Some (Uint8 e)) (Some sizeEncoder)))"

section \<open>Structs and lookup by item type\<close>

text \<open>\<^verbatim>\<open>ItemTyper.Next\<close>: the part before the first dot and the rest.\<close>

definition Next :: "string \<Rightarrow> string \<times> string" where
  "Next t = (takeWhile (\<lambda>c. c \<noteq> CHR ''.'') t, tl (dropWhile (\<lambda>c. c \<noteq> CHR ''.'') t))"

text \<open>What \<^verbatim>\<open>reflect.StructOf\<close> accepts as field names, for names in ASCII.\<close>

definition field_name :: "string \<Rightarrow> bool" where
  "field_name s \<longleftrightarrow>
     (case s of [] \<Rightarrow> False | c # cs \<Rightarrow> CHR ''A'' \<le> c \<and> c \<le> CHR ''Z'' \<and>
        list_all (\<lambda>d. (CHR ''A'' \<le> d \<and> d \<le> CHR ''Z'') \<or> (CHR ''a'' \<le> d \<and> d \<le> CHR ''z'') \<or>
                      (CHR ''0'' \<le> d \<and> d \<le> CHR ''9'') \<or> d = CHR ''_'') cs)"

definition struct_encode :: "(string \<times> typeCodec) list \<Rightarrow> cval \<Rightarrow> bytes \<Rightarrow> (cerr, bytes) go" where
  "struct_encode flds value into =
     (if value = CNil then Panic
      else if type_of value \<noteq> TPtr (TStruct (map (map_prod (\<lambda>n. n) getType) flds)) then Err ErrInvalidType
      else case value of
          CPtr _ (Some (CStruct _ vs)) \<Rightarrow>
            go_foldM (\<lambda>into (field, v). encode field v into) into (zip (map snd flds) vs)
        | _ \<Rightarrow> if flds = [] then Ok into else Panic)"

definition decode_field :: "cval list \<times> bytes \<Rightarrow> typeCodec \<Rightarrow> (cerr, cval list \<times> bytes) go" where
  "decode_field st field =
     go_bind (decode field (snd st)) (\<lambda>(v, remaining).
       go_map (\<lambda>v. (fst st @ [v], remaining)) (checked (getType field) v))"

definition struct_decode :: "(string \<times> typeCodec) list \<Rightarrow> bytes \<Rightarrow> (cerr, cval \<times> bytes) go" where
  "struct_decode flds encoded =
     (let fts = map (map_prod (\<lambda>n. n) getType) flds
      in go_map (\<lambda>(vs, remaining). (CPtr (TStruct fts) (Some (CStruct fts vs)), remaining))
           (go_foldM decode_field ([], encoded) (map snd flds)))"

definition sum_sizes :: "(typeCodec \<Rightarrow> (cerr, int) go) \<Rightarrow> (string \<times> typeCodec) list \<Rightarrow> (cerr, int) go" where
  "sum_sizes f flds = go_foldM (\<lambda>sz (_, field). go_map ((+) sz) (f field)) 0 flds"

definition struct_field :: "(string \<times> typeCodec) list \<Rightarrow> string \<Rightarrow> (cerr, typeCodec) go" where
  "struct_field flds itemType =
     (case Next itemType of (fieldName, tail) \<Rightarrow>
        if fieldName = [] then Err ErrInvalidType
        else case map_of flds fieldName of
            None \<Rightarrow> Err ErrInvalidType
          | Some field \<Rightarrow>
              if tail = [] then Ok field
              else (case fieldCodec field of None \<Rightarrow> Err ErrInvalidType | Some f \<Rightarrow> f tail))"

definition NewStructCodec :: "(string \<times> typeCodec) list \<Rightarrow> (cerr, typeCodec) go" where
  "NewStructCodec given =
     (let flds = map (map_prod (\<lambda>n. n) (\<lambda>c. if is_pointer (getType c) then c else NotNilPointer c)) given
      in if \<not> distinct (map fst flds) \<or> \<not> list_all field_name (map fst flds) then Err ErrInvalidConfig
         else Ok (TypeCodec (struct_encode flds) (struct_decode flds)
           (TPtr (TStruct (map (map_prod (\<lambda>n. n) getType) flds)))
           (\<lambda>_. sum_sizes fixedSize flds) (sum_sizes fixedSize flds)
           (Some (\<lambda>numItems. sum_sizes (\<lambda>c. codecSize c numItems) flds))
           (Some (struct_field flds))))"

definition getCodec :: "(string, typeCodec) gomap \<Rightarrow> string \<Rightarrow> (cerr, typeCodec) go" where
  "getCodec c itemType =
     (case Next itemType of (head, tail) \<Rightarrow>
        if head = [] then Err ErrInvalidType
        else case map_of c head of
            None \<Rightarrow> (case map_of c itemType of None \<Rightarrow> Err ErrInvalidType | Some tc \<Rightarrow> Ok tc)
          | Some tc \<Rightarrow>
              if tail = [] then Ok tc
              else (case fieldCodec tc of None \<Rightarrow> Err ErrInvalidType | Some f \<Rightarrow> f tail))"

definition GetMaxEncodingSize :: "(string, typeCodec) gomap \<Rightarrow> int \<Rightarrow> string \<Rightarrow> (cerr, int) go" where
  "GetMaxEncodingSize c n itemType =
     go_bind (getCodec c itemType) (\<lambda>tc.
       case sizeAtTopLevel tc of Some f \<Rightarrow> f n | None \<Rightarrow> codecSize tc n)"

text \<open>
  Decoding into a Go variable: the conversion into the variable's type is \<^verbatim>\<open>codec.Convert\<close>, an
  argument; bytes that are left over are an error unless the codec is the lenient one.
\<close>

definition codec_decode ::
    "(cval \<Rightarrow> (cerr, 'a) go) \<Rightarrow> bool \<Rightarrow> (string, typeCodec) gomap \<Rightarrow> bytes \<Rightarrow> string \<Rightarrow> (cerr, 'a) go" where
  "codec_decode convert exactSize c raw itemType =
     go_bind (getCodec c itemType) (\<lambda>tc.
     go_bind (decode tc raw) (\<lambda>(val, remaining).
       if exactSize \<and> remaining \<noteq> [] then Err ErrInvalidEncoding else convert val))"

section \<open>The contract of a codec\<close>

text \<open>
  What a user of \<^verbatim>\<open>TypeCodec\<close> relies on: \<open>V\<close> are the values the codec carries, \<open>E\<close> their encoding.
  Encoding appends, decoding gives the value back and leaves what follows it, a fixed size is the
  size, and decoding bytes from outside never panics and gives a value of the codec's type.
\<close>

locale type_codec =
  fixes C :: typeCodec and V :: "cval \<Rightarrow> bool" and E :: "cval \<Rightarrow> bytes"
  assumes encodes: "V v \<Longrightarrow> encode C v into = Ok (into @ E v)"
    and decodes: "V v \<Longrightarrow> decode C (E v @ rest) = Ok (v, rest)"
    and typed: "V v \<Longrightarrow> type_of v = getType C"
    and fixed: "V v \<Longrightarrow> fixedSize C = Ok n \<Longrightarrow> int (length (E v)) = n"
    and total: "decode C bs \<noteq> Panic"
    and result: "decode C bs = Ok (v, rest) \<Longrightarrow> type_of v = getType C \<and> (\<exists>p. bs = p @ rest)"
begin

lemma encode_inj: "V v \<Longrightarrow> V w \<Longrightarrow> E v = E w \<Longrightarrow> v = w"
  using decodes [of v "[]"] decodes [of w "[]"] by simp

lemma prefix_free: "V v \<Longrightarrow> V w \<Longrightarrow> E v @ r = E w @ s \<Longrightarrow> v = w \<and> r = s"
  using decodes [of v r] decodes [of w s] by (metis go.inject(1) prod.inject)

lemma EncodeEach_Ok: "list_all V vs \<Longrightarrow> EncodeEach C vs into = Ok (into @ concat (map E vs))"
  unfolding EncodeEach_def by (induction vs arbitrary: into) (auto simp: encodes)

lemma DecodeEach_Ok: "list_all V vs \<Longrightarrow> DecodeEach C (length vs) (concat (map E vs) @ rest) = Ok (vs, rest)"
  by (induction vs) (auto simp: decodes checked_def typed)

lemma DecodeEach_total: "DecodeEach C n bs \<noteq> Panic"
proof (induction n arbitrary: bs)
  case (Suc n)
  show ?case
  proof (cases "decode C bs")
    case (Ok a)
    then show ?thesis using result Suc.IH by (cases a) (auto simp: checked_def go_simps)
  qed (use total in auto)
qed simp

lemma DecodeEach_result:
  "DecodeEach C n bs = Ok (vs, rest) \<Longrightarrow> length vs = n \<and> (\<exists>p. bs = p @ rest)"
proof (induction n arbitrary: bs vs)
  case (Suc n)
  from Suc.prems obtain v r ws where v: "decode C bs = Ok (v, r)" and ws: "DecodeEach C n r = Ok (ws, rest)"
    and vs: "vs = v # ws" by (auto simp: go_simps checked_def split: if_splits)
  from result [OF v] Suc.IH [OF ws] obtain p q where "bs = p @ r" "r = q @ rest" "length ws = n" by blast
  then show ?case by (simp add: vs)
qed simp

lemma fixed_concat:
  "list_all V vs \<Longrightarrow> fixedSize C = Ok n \<Longrightarrow> int (length (concat (map E vs))) = n * int (length vs)"
  by (induction vs) (auto simp: fixed algebra_simps)

end

section \<open>The basic codecs\<close>

lemma SafeDecode_append: "length p = n \<Longrightarrow> SafeDecode (p @ rest) n f = Ok (f p, rest)"
  by (simp add: SafeDecode_def)

lemma SafeDecode_total: "SafeDecode bs n f \<noteq> Panic"
  by (simp add: SafeDecode_def)

lemma SafeDecode_Ok: "SafeDecode bs n f = Ok (v, rest) \<Longrightarrow> \<exists>p. bs = p @ rest \<and> length p = n \<and> v = f p"
  by (auto simp: SafeDecode_def split: if_splits intro!: exI [of _ "take n bs"])

lemma length_word_bytes [simp]: "length (word_bytes e n w) = n"
  by (simp add: word_bytes_def split: endian.splits)

lemma bytes_word_word_bytes: "LENGTH('w) \<le> 8 * n \<Longrightarrow> bytes_word e (word_bytes e n w) = (w :: 'w :: len word)"
proof -
  assume len: "LENGTH('w) \<le> 8 * n"
  have "unat w < 2 ^ LENGTH('w)" by (rule unsigned_less)
  also have "\<dots> \<le> 2 ^ (8 * n)" using len by (rule power_increasing) simp
  also have "\<dots> = 256 ^ n" by (simp add: power_mult)
  finally have "unat w mod 256 ^ n = unat w" by simp
  then show ?thesis
    by (cases e) (simp_all add: word_bytes_def bytes_word_def)
qed

lemma word_codec_contract:
  fixes mk :: "'w :: len word \<Rightarrow> cval"
  assumes "\<And>w. dest (mk w) = Some w" and "\<And>w. type_of (mk w) = t" and "LENGTH('w) \<le> 8 * n"
  shows "type_codec (word_codec e n mk dest t) (\<lambda>v. \<exists>w. v = mk w) (\<lambda>v. word_bytes e n (the (dest v)))"
proof
  fix v into rest bs m
  show "\<exists>w. v = mk w \<Longrightarrow> encode (word_codec e n mk dest t) v into = Ok (into @ word_bytes e n (the (dest v)))"
    using assms(1) by (auto simp: word_codec_def)
  show "\<exists>w. v = mk w \<Longrightarrow> decode (word_codec e n mk dest t) (word_bytes e n (the (dest v)) @ rest) = Ok (v, rest)"
    using assms(1) bytes_word_word_bytes [OF assms(3)] by (auto simp: word_codec_def SafeDecode_append)
  show "\<exists>w. v = mk w \<Longrightarrow> type_of v = getType (word_codec e n mk dest t)"
    using assms(2) by (auto simp: word_codec_def)
  show "\<exists>w. v = mk w \<Longrightarrow> fixedSize (word_codec e n mk dest t) = Ok m \<Longrightarrow>
      int (length (word_bytes e n (the (dest v)))) = m" by (simp add: word_codec_def)
  show "decode (word_codec e n mk dest t) bs \<noteq> Panic" by (simp add: word_codec_def SafeDecode_total)
  show "decode (word_codec e n mk dest t) bs = Ok (v, rest) \<Longrightarrow>
      type_of v = getType (word_codec e n mk dest t) \<and> (\<exists>p. bs = p @ rest)"
    using assms(2) by (auto simp: word_codec_def dest!: SafeDecode_Ok)
qed

text \<open>The instances of the generated file and of the two float codecs.\<close>

lemmas word_codec_defs = Int8_def Uint8_def Int16_def Uint16_def Int32_def Uint32_def Int64_def Uint64_def
  Float32_def Float64_def OracleID_def

interpretation i8: type_codec "Int8 e" "\<lambda>v. \<exists>w. v = CInt8 w"
  "\<lambda>v. word_bytes e 1 (the (case v of CInt8 w \<Rightarrow> Some w | _ \<Rightarrow> None))" for e
  unfolding word_codec_defs by (rule word_codec_contract) simp_all

interpretation u8: type_codec "Uint8 e" "\<lambda>v. \<exists>w. v = CUint8 w"
  "\<lambda>v. word_bytes e 1 (the (case v of CUint8 w \<Rightarrow> Some w | _ \<Rightarrow> None))" for e
  unfolding word_codec_defs by (rule word_codec_contract) simp_all

interpretation i16: type_codec "Int16 e" "\<lambda>v. \<exists>w. v = CInt16 w"
  "\<lambda>v. word_bytes e 2 (the (case v of CInt16 w \<Rightarrow> Some w | _ \<Rightarrow> None))" for e
  unfolding word_codec_defs by (rule word_codec_contract) simp_all

interpretation u16: type_codec "Uint16 e" "\<lambda>v. \<exists>w. v = CUint16 w"
  "\<lambda>v. word_bytes e 2 (the (case v of CUint16 w \<Rightarrow> Some w | _ \<Rightarrow> None))" for e
  unfolding word_codec_defs by (rule word_codec_contract) simp_all

interpretation i32: type_codec "Int32 e" "\<lambda>v. \<exists>w. v = CInt32 w"
  "\<lambda>v. word_bytes e 4 (the (case v of CInt32 w \<Rightarrow> Some w | _ \<Rightarrow> None))" for e
  unfolding word_codec_defs by (rule word_codec_contract) simp_all

interpretation u32: type_codec "Uint32 e" "\<lambda>v. \<exists>w. v = CUint32 w"
  "\<lambda>v. word_bytes e 4 (the (case v of CUint32 w \<Rightarrow> Some w | _ \<Rightarrow> None))" for e
  unfolding word_codec_defs by (rule word_codec_contract) simp_all

interpretation i64: type_codec "Int64 e" "\<lambda>v. \<exists>w. v = CInt64 w"
  "\<lambda>v. word_bytes e 8 (the (case v of CInt64 w \<Rightarrow> Some w | _ \<Rightarrow> None))" for e
  unfolding word_codec_defs by (rule word_codec_contract) simp_all

interpretation u64: type_codec "Uint64 e" "\<lambda>v. \<exists>w. v = CUint64 w"
  "\<lambda>v. word_bytes e 8 (the (case v of CUint64 w \<Rightarrow> Some w | _ \<Rightarrow> None))" for e
  unfolding word_codec_defs by (rule word_codec_contract) simp_all

interpretation f32: type_codec "Float32 e" "\<lambda>v. \<exists>w. v = CFloat32 w"
  "\<lambda>v. word_bytes e 4 (the (case v of CFloat32 w \<Rightarrow> Some w | _ \<Rightarrow> None))" for e
  unfolding word_codec_defs by (rule word_codec_contract) simp_all

interpretation f64: type_codec "Float64 e" "\<lambda>v. \<exists>w. v = CFloat64 w"
  "\<lambda>v. word_bytes e 8 (the (case v of CFloat64 w \<Rightarrow> Some w | _ \<Rightarrow> None))" for e
  unfolding word_codec_defs by (rule word_codec_contract) simp_all

interpretation oid: type_codec "OracleID e" "\<lambda>v. \<exists>w. v = COracleID w"
  "\<lambda>v. word_bytes e 1 (the (case v of COracleID w \<Rightarrow> Some w | _ \<Rightarrow> None))" for e
  unfolding word_codec_defs by (rule word_codec_contract) simp_all

interpretation bl: type_codec Bool "\<lambda>v. \<exists>b. v = CBool b" "\<lambda>v. [if v = CBool True then 1 else 0]"
  by unfold_locales (auto simp: Bool_def SafeDecode_total SafeDecode_append [of "[_]" 1, simplified]
      dest!: SafeDecode_Ok split: if_splits)

interpretation em: type_codec Empty "\<lambda>v. v = CEmpty" "\<lambda>_. []"
  by unfold_locales (auto simp: Empty_def)

section \<open>Big integers\<close>

lemma bits_len_le: "bits_len n \<le> k \<longleftrightarrow> n < 2 ^ k"
proof (induction n arbitrary: k rule: bits_len.induct)
  case (1 n)
  show ?case
  proof (cases "n = 0")
    case False
    show ?thesis
    proof (cases k)
      case (Suc j)
      have "bits_len n \<le> k \<longleftrightarrow> n div 2 < 2 ^ j"
        using 1 [OF False, of j] False by (simp add: bits_len.simps [of n] Suc)
      also have "\<dots> \<longleftrightarrow> n < 2 ^ k" unfolding Suc power_Suc by linarith
      finally show ?thesis .
    qed (use False in \<open>simp add: bits_len.simps [of n]\<close>)
  qed (simp add: bits_len.simps)
qed

definition fits :: "nat \<Rightarrow> int \<Rightarrow> bool" where
  "fits n i \<longleftrightarrow> - (2 ^ (8 * n - 1)) \<le> i \<and> i < 2 ^ (8 * n - 1)"

text \<open>What \<^verbatim>\<open>bigbigendian\<close> promises: exactly the integers that fit are serialised,
  deserialising undoes it, and as many bytes as asked for are always deserialised.\<close>

definition big_laws :: "big_lib \<Rightarrow> bool" where
  "big_laws B \<longleftrightarrow>
     (\<forall>n i. 0 < n \<and> n \<le> MaxSize B \<longrightarrow>
        (case SerializeSigned B n i of
           None \<Rightarrow> \<not> fits n i
         | Some b \<Rightarrow> fits n i \<and> length b = n \<and> DeserializeSigned B n b = Some i)) \<and>
     (\<forall>n b. 0 < n \<and> n \<le> MaxSize B \<and> length b = n \<longrightarrow>
        (case DeserializeSigned B n b of None \<Rightarrow> False | Some i \<Rightarrow> fits n i))"

lemma big_laws_Some:
  assumes "big_laws B" and "0 < n" and "n \<le> MaxSize B" and "fits n i"
  obtains b where "SerializeSigned B n i = Some b" and "length b = n" and "DeserializeSigned B n b = Some i"
proof -
  have "case SerializeSigned B n i of None \<Rightarrow> \<not> fits n i
      | Some b \<Rightarrow> fits n i \<and> length b = n \<and> DeserializeSigned B n b = Some i"
    using assms(1-3) unfolding big_laws_def by blast
  with assms(4) that show thesis by (cases "SerializeSigned B n i") simp_all
qed

definition signed_bytes :: "big_lib \<Rightarrow> endian \<Rightarrow> nat \<Rightarrow> cval \<Rightarrow> bytes" where
  "signed_bytes B e n v =
     (case v of
        CBigInt (Some i) \<Rightarrow> (let b = the (SerializeSigned B n i) in case e of BigEndian \<Rightarrow> b | LittleEndian \<Rightarrow> rev b)
      | _ \<Rightarrow> [])"

lemma signed_bigint_contract:
  assumes "big_laws B" and "0 < n" and "NewBigInt B e n True = Ok C"
  shows "type_codec C (\<lambda>v. \<exists>i. v = CBigInt (Some i) \<and> fits n i) (signed_bytes B e n)"
    and "\<And>bs v rest. decode C bs = Ok (v, rest) \<Longrightarrow> \<exists>i. v = CBigInt (Some i) \<and> fits n i"
proof -
  from assms(3) have n: "n \<le> MaxSize B" by (auto simp: NewBigInt_def split: if_splits)
  from assms(3) n have C: "C = TypeCodec (\<lambda>value into. case value of
           CBigInt None \<Rightarrow> Panic
         | CBigInt (Some i) \<Rightarrow> go_map ((@) into) (serializeSigned B e n i)
         | _ \<Rightarrow> Err ErrInvalidType)
        (\<lambda>encoded. SafeDecode encoded n (\<lambda>b. CBigInt (deserializeSigned B e n b)))
        TBigInt (\<lambda>_. Ok (int n)) (Ok (int n)) None None"
    by (simp add: NewBigInt_def cong del: cval.case_cong_weak option.case_cong_weak)
  have some: "\<exists>i. deserializeSigned B e n b = Some i \<and> fits n i" if "length b = n" for b
  proof -
    let ?b = "case e of BigEndian \<Rightarrow> b | LittleEndian \<Rightarrow> rev b"
    have "length ?b = n" using that by (cases e) auto
    then have "case DeserializeSigned B n ?b of None \<Rightarrow> False | Some i \<Rightarrow> fits n i"
      using assms(1,2) n unfolding big_laws_def by blast
    then show ?thesis unfolding deserializeSigned_def by (cases "DeserializeSigned B n ?b") simp_all
  qed
  then show "\<And>bs v rest. decode C bs = Ok (v, rest) \<Longrightarrow> \<exists>i. v = CBigInt (Some i) \<and> fits n i"
    by (fastforce simp: C dest!: SafeDecode_Ok)
  show "type_codec C (\<lambda>v. \<exists>i. v = CBigInt (Some i) \<and> fits n i) (signed_bytes B e n)"
  proof
    fix v into rest bs m
    assume "\<exists>i. v = CBigInt (Some i) \<and> fits n i"
    then obtain i b where v: "v = CBigInt (Some i)" and b: "SerializeSigned B n i = Some b" "length b = n"
      "DeserializeSigned B n b = Some i"
      using big_laws_Some [OF assms(1,2) n] by metis
    have len: "length (signed_bytes B e n v) = n" by (cases e) (simp_all add: signed_bytes_def v b)
    show "encode C v into = Ok (into @ signed_bytes B e n v)"
      by (simp add: C v b serializeSigned_def signed_bytes_def)
    have "deserializeSigned B e n (signed_bytes B e n v) = Some i"
      by (cases e) (simp_all add: deserializeSigned_def signed_bytes_def v b)
    then show "decode C (signed_bytes B e n v @ rest) = Ok (v, rest)"
      by (simp add: C SafeDecode_append [OF len [unfolded v]] v)
    show "fixedSize C = Ok m \<Longrightarrow> int (length (signed_bytes B e n v)) = m" by (simp add: C len)
    show "type_of v = getType C" by (simp add: C v)
  next
    fix v rest bs
    show "decode C bs \<noteq> Panic" by (simp add: C SafeDecode_total)
    show "decode C bs = Ok (v, rest) \<Longrightarrow> type_of v = getType C \<and> (\<exists>p. bs = p @ rest)"
      by (auto simp: C dest!: SafeDecode_Ok)
  qed
qed

definition unsigned_bytes :: "endian \<Rightarrow> nat \<Rightarrow> cval \<Rightarrow> bytes" where
  "unsigned_bytes e n v =
     (case v of
        CBigInt (Some i) \<Rightarrow> (case e of BigEndian \<Rightarrow> be_fixed n (nat i) | LittleEndian \<Rightarrow> rev (be_fixed n (nat i)))
      | _ \<Rightarrow> [])"

lemma unsigned_bigint_contract:
  assumes "NewBigInt B e n False = Ok C"
  shows "type_codec C (\<lambda>v. \<exists>i. v = CBigInt (Some i) \<and> 0 \<le> i \<and> i < 256 ^ n) (unsigned_bytes e n)"
    and "\<And>bs v rest. decode C bs = Ok (v, rest) \<Longrightarrow> \<exists>i. v = CBigInt (Some i)"
proof -
  from assms have C: "C = TypeCodec (\<lambda>value into. case value of
           CBigInt None \<Rightarrow> Panic
         | CBigInt (Some i) \<Rightarrow> go_map ((@) into) (serializeUnsigned e n i)
         | _ \<Rightarrow> Err ErrInvalidType)
        (\<lambda>encoded. SafeDecode encoded n (\<lambda>b. CBigInt (Some (deserializeUnsigned e b))))
        TBigInt (\<lambda>_. Ok (int n)) (Ok (int n)) None None"
    by (simp add: NewBigInt_def cong del: cval.case_cong_weak option.case_cong_weak split: if_splits)
  show "\<And>bs v rest. decode C bs = Ok (v, rest) \<Longrightarrow> \<exists>i. v = CBigInt (Some i)"
    by (auto simp: C dest!: SafeDecode_Ok)
  show "type_codec C (\<lambda>v. \<exists>i. v = CBigInt (Some i) \<and> 0 \<le> i \<and> i < 256 ^ n) (unsigned_bytes e n)"
  proof
    fix v into rest bs m
    assume "\<exists>i. v = CBigInt (Some i) \<and> 0 \<le> i \<and> i < 256 ^ n"
    then obtain i where v: "v = CBigInt (Some i)" and i: "0 \<le> i" "i < 256 ^ n" by blast
    have bound: "nat i < 256 ^ n" using i by (simp add: nat_less_iff)
    then have "bits_len (nat i) \<le> n * 8" by (simp add: bits_len_le power_mult mult.commute [of n])
    then show "encode C v into = Ok (into @ unsigned_bytes e n v)"
      using i by (simp add: C v serializeUnsigned_def unsigned_bytes_def)
    have len: "length (unsigned_bytes e n v) = n" by (cases e) (simp_all add: unsigned_bytes_def v)
    have "deserializeUnsigned e (unsigned_bytes e n v) = i"
      using bound i by (cases e) (simp_all add: deserializeUnsigned_def unsigned_bytes_def v)
    then show "decode C (unsigned_bytes e n v @ rest) = Ok (v, rest)"
      by (simp add: C SafeDecode_append [OF len [unfolded v]] v)
    show "fixedSize C = Ok m \<Longrightarrow> int (length (unsigned_bytes e n v)) = m" by (simp add: C len)
    show "type_of v = getType C" by (simp add: C v)
  next
    fix v rest bs
    show "decode C bs \<noteq> Panic" by (simp add: C SafeDecode_total)
    show "decode C bs = Ok (v, rest) \<Longrightarrow> type_of v = getType C \<and> (\<exists>p. bs = p @ rest)"
      by (auto simp: C dest!: SafeDecode_Ok)
  qed
qed

section \<open>Go integers\<close>

text \<open>A codec \<open>K\<close> of Go integers on top of a codec \<open>C\<close>; \<open>W\<close> are the integers the conversion to \<open>C\<close> keeps.\<close>

locale converted_codec = type_codec +
  fixes K :: typeCodec and mk :: "64 word \<Rightarrow> cval" and un :: "cval \<Rightarrow> 64 word"
    and to :: "cval \<Rightarrow> 64 word option" and frm :: "64 word \<Rightarrow> cval" and W :: "64 word \<Rightarrow> bool"
  assumes K_encode: "encode K (mk i) into = encode C (frm i) into"
    and K_decode: "decode K bs = go_bind (decode C bs) (\<lambda>(v, remaining).
          case to v of None \<Rightarrow> Panic | Some i \<Rightarrow> Ok (mk i, remaining))"
    and K_type: "type_of (mk i) = getType K" and K_un: "un (mk i) = i"
    and K_fixed: "fixedSize K = fixedSize C"
    and converts: "decode C bs = Ok (v, rest) \<Longrightarrow> to v \<noteq> None"
    and kept: "W i \<Longrightarrow> V (frm i) \<and> to (frm i) = Some i"
begin

lemma contract: "type_codec K (\<lambda>v. \<exists>i. v = mk i \<and> W i) (\<lambda>v. E (frm (un v)))"
proof
  fix v into rest n
  assume "\<exists>i. v = mk i \<and> W i"
  then obtain i where v: "v = mk i" "V (frm i)" "to (frm i) = Some i" using kept by blast
  show "encode K v into = Ok (into @ E (frm (un v)))" "decode K (E (frm (un v)) @ rest) = Ok (v, rest)"
    "type_of v = getType K" "fixedSize K = Ok n \<Longrightarrow> int (length (E (frm (un v)))) = n"
    using v encodes decodes fixed by (simp_all add: K_encode K_decode K_type K_un K_fixed)
next
  fix v bs rest
  show "decode K bs \<noteq> Panic"
  proof (cases "decode C bs")
    case (Ok a)
    then show ?thesis using converts [of bs "fst a" "snd a"] by (cases a) (auto simp: K_decode)
  qed (use total in \<open>auto simp: K_decode\<close>)
  show "decode K bs = Ok (v, rest) \<Longrightarrow> type_of v = getType K \<and> (\<exists>p. bs = p @ rest)"
    by (auto simp: K_decode K_type go_simps split: option.splits dest: result)
qed

end

sublocale converted_codec \<subseteq> k: type_codec K "\<lambda>v. \<exists>i. v = mk i \<and> W i" "\<lambda>v. E (frm (un v))"
  by (rule contract)

lemma scast_ucast_fits:
  fixes i :: "64 word"
  assumes l: "LENGTH('a::len) \<le> 64" "- (2^(LENGTH('a)-1)) \<le> sint i" "sint i < 2^(LENGTH('a)-1)"
  shows "scast (ucast i :: 'a word) = i"
proof -
  have "take_bit LENGTH('a) (sint i) = take_bit LENGTH('a) (take_bit 64 (sint i))"
    using l(1) by (simp add: min_absorb1)
  also have "take_bit 64 (sint i) = uint i" using uint_sint [of i] by simp
  finally have "(ucast i :: 'a word) = word_of_int (sint i)"
    unfolding ucast_eq by (metis word_of_int_eq_iff)
  then have sint: "sint (ucast i :: 'a word) = sint i"
    using l(2,3) by (metis sint_sbintrunc' signed_take_bit_int_eq_self)
  have "scast (ucast i :: 'a word) = (word_of_int (sint (ucast i :: 'a word)) :: 64 word)" by (rule scast_eq)
  also have "\<dots> = i" unfolding sint by simp
  finally show ?thesis .
qed

lemma ucast_ucast_fits:
  fixes i :: "64 word"
  assumes "uint i < 2 ^ LENGTH('a :: len)"
  shows "ucast (ucast i :: 'a word) = i"
proof -
  have "uint (ucast i :: 'a word) = uint i"
    using assms by (simp add: unsigned_ucast_eq take_bit_int_eq_self)
  moreover have "ucast (ucast i :: 'a word) = (word_of_int (uint (ucast i :: 'a word)) :: 64 word)" by (rule ucast_eq)
  ultimately show ?thesis by simp
qed

text \<open>The codecs that \<^verbatim>\<open>Int\<close> and \<^verbatim>\<open>Uint\<close> build.\<close>

definition un_int :: "cval \<Rightarrow> 64 word" where
  "un_int v = (case v of CInt i \<Rightarrow> i | CUint i \<Rightarrow> i | _ \<Rightarrow> 0)"

interpretation n1: converted_codec "Int8 e" "\<lambda>v. \<exists>w. v = CInt8 w"
  "\<lambda>v. word_bytes e 1 (the (case v of CInt8 w \<Rightarrow> Some w | _ \<Rightarrow> None))"
  "intCodec (Int8 e) (\<lambda>v. case v of CInt8 w \<Rightarrow> Some (scast w) | _ \<Rightarrow> None) (\<lambda>i. CInt8 (ucast i))" CInt un_int
  "\<lambda>v. case v of CInt8 w \<Rightarrow> Some (scast w) | _ \<Rightarrow> None" "\<lambda>i. CInt8 (ucast i)" "\<lambda>i. fits 1 (sint i)" for e
  by unfold_locales (auto simp: intCodec_def un_int_def fits_def word_codec_defs word_codec_def
      intro!: scast_ucast_fits dest!: SafeDecode_Ok)

interpretation n2: converted_codec "Int16 e" "\<lambda>v. \<exists>w. v = CInt16 w"
  "\<lambda>v. word_bytes e 2 (the (case v of CInt16 w \<Rightarrow> Some w | _ \<Rightarrow> None))"
  "intCodec (Int16 e) (\<lambda>v. case v of CInt16 w \<Rightarrow> Some (scast w) | _ \<Rightarrow> None) (\<lambda>i. CInt16 (ucast i))" CInt un_int
  "\<lambda>v. case v of CInt16 w \<Rightarrow> Some (scast w) | _ \<Rightarrow> None" "\<lambda>i. CInt16 (ucast i)" "\<lambda>i. fits 2 (sint i)" for e
  by unfold_locales (auto simp: intCodec_def un_int_def fits_def word_codec_defs word_codec_def
      intro!: scast_ucast_fits dest!: SafeDecode_Ok)

interpretation n4: converted_codec "Int32 e" "\<lambda>v. \<exists>w. v = CInt32 w"
  "\<lambda>v. word_bytes e 4 (the (case v of CInt32 w \<Rightarrow> Some w | _ \<Rightarrow> None))"
  "intCodec (Int32 e) (\<lambda>v. case v of CInt32 w \<Rightarrow> Some (scast w) | _ \<Rightarrow> None) (\<lambda>i. CInt32 (ucast i))" CInt un_int
  "\<lambda>v. case v of CInt32 w \<Rightarrow> Some (scast w) | _ \<Rightarrow> None" "\<lambda>i. CInt32 (ucast i)" "\<lambda>i. fits 4 (sint i)" for e
  by unfold_locales (auto simp: intCodec_def un_int_def fits_def word_codec_defs word_codec_def
      intro!: scast_ucast_fits dest!: SafeDecode_Ok)

interpretation n8: converted_codec "Int64 e" "\<lambda>v. \<exists>w. v = CInt64 w"
  "\<lambda>v. word_bytes e 8 (the (case v of CInt64 w \<Rightarrow> Some w | _ \<Rightarrow> None))"
  "intCodec (Int64 e) (\<lambda>v. case v of CInt64 w \<Rightarrow> Some w | _ \<Rightarrow> None) CInt64" CInt un_int
  "\<lambda>v. case v of CInt64 w \<Rightarrow> Some w | _ \<Rightarrow> None" CInt64 "\<lambda>i. fits 8 (sint i)" for e
  by unfold_locales (auto simp: intCodec_def un_int_def word_codec_defs word_codec_def dest!: SafeDecode_Ok)

interpretation m1: converted_codec "Uint8 e" "\<lambda>v. \<exists>w. v = CUint8 w"
  "\<lambda>v. word_bytes e 1 (the (case v of CUint8 w \<Rightarrow> Some w | _ \<Rightarrow> None))"
  "uintCodec (Uint8 e) (\<lambda>v. case v of CUint8 w \<Rightarrow> Some (ucast w) | _ \<Rightarrow> None) (\<lambda>i. CUint8 (ucast i))" CUint un_int
  "\<lambda>v. case v of CUint8 w \<Rightarrow> Some (ucast w) | _ \<Rightarrow> None" "\<lambda>i. CUint8 (ucast i)" "\<lambda>i. uint i < 256 ^ 1" for e
  by unfold_locales (auto simp: uintCodec_def un_int_def word_codec_defs word_codec_def
      intro!: ucast_ucast_fits dest!: SafeDecode_Ok)

interpretation m2: converted_codec "Uint16 e" "\<lambda>v. \<exists>w. v = CUint16 w"
  "\<lambda>v. word_bytes e 2 (the (case v of CUint16 w \<Rightarrow> Some w | _ \<Rightarrow> None))"
  "uintCodec (Uint16 e) (\<lambda>v. case v of CUint16 w \<Rightarrow> Some (ucast w) | _ \<Rightarrow> None) (\<lambda>i. CUint16 (ucast i))" CUint un_int
  "\<lambda>v. case v of CUint16 w \<Rightarrow> Some (ucast w) | _ \<Rightarrow> None" "\<lambda>i. CUint16 (ucast i)" "\<lambda>i. uint i < 256 ^ 2" for e
  by unfold_locales (auto simp: uintCodec_def un_int_def word_codec_defs word_codec_def
      intro!: ucast_ucast_fits dest!: SafeDecode_Ok)

interpretation m4: converted_codec "Uint32 e" "\<lambda>v. \<exists>w. v = CUint32 w"
  "\<lambda>v. word_bytes e 4 (the (case v of CUint32 w \<Rightarrow> Some w | _ \<Rightarrow> None))"
  "uintCodec (Uint32 e) (\<lambda>v. case v of CUint32 w \<Rightarrow> Some (ucast w) | _ \<Rightarrow> None) (\<lambda>i. CUint32 (ucast i))" CUint un_int
  "\<lambda>v. case v of CUint32 w \<Rightarrow> Some (ucast w) | _ \<Rightarrow> None" "\<lambda>i. CUint32 (ucast i)" "\<lambda>i. uint i < 256 ^ 4" for e
  by unfold_locales (auto simp: uintCodec_def un_int_def word_codec_defs word_codec_def
      intro!: ucast_ucast_fits dest!: SafeDecode_Ok)

interpretation m8: converted_codec "Uint64 e" "\<lambda>v. \<exists>w. v = CUint64 w"
  "\<lambda>v. word_bytes e 8 (the (case v of CUint64 w \<Rightarrow> Some w | _ \<Rightarrow> None))"
  "uintCodec (Uint64 e) (\<lambda>v. case v of CUint64 w \<Rightarrow> Some w | _ \<Rightarrow> None) CUint64" CUint un_int
  "\<lambda>v. case v of CUint64 w \<Rightarrow> Some w | _ \<Rightarrow> None" CUint64 "\<lambda>i. uint i < 256 ^ 8" for e
  by unfold_locales (auto simp: uintCodec_def un_int_def word_codec_defs word_codec_def dest!: SafeDecode_Ok)

text \<open>Every other number of bytes goes through the big integer codec.\<close>

lemma big_int_codec:
  assumes "big_laws B" and "0 < n" and "NewBigInt B e n True = Ok C"
  shows "converted_codec C (\<lambda>v. \<exists>i. v = CBigInt (Some i) \<and> fits n i) (signed_bytes B e n)
    (intCodec C (\<lambda>v. case v of CBigInt (Some i) \<Rightarrow> Some (word_of_int i) | _ \<Rightarrow> None) (\<lambda>i. CBigInt (Some (sint i))))
    CInt un_int (\<lambda>v. case v of CBigInt (Some i) \<Rightarrow> Some (word_of_int i) | _ \<Rightarrow> None) (\<lambda>i. CBigInt (Some (sint i)))
    (\<lambda>i. fits n (sint i))"
proof (rule converted_codec.intro [OF signed_bigint_contract(1) [OF assms]], unfold_locales)
  fix bs v rest
  assume "decode C bs = Ok (v, rest)"
  from signed_bigint_contract(2) [OF assms this]
  show "(case v of CBigInt (Some i) \<Rightarrow> Some (word_of_int i) | _ \<Rightarrow> None) \<noteq> None" by auto
qed (auto simp: intCodec_def un_int_def)

lemma big_uint_codec:
  assumes "NewBigInt B e n False = Ok C"
  shows "converted_codec C (\<lambda>v. \<exists>i. v = CBigInt (Some i) \<and> 0 \<le> i \<and> i < 256 ^ n) (unsigned_bytes e n)
    (uintCodec C (\<lambda>v. case v of CBigInt (Some i) \<Rightarrow> Some (word_of_int i) | _ \<Rightarrow> None) (\<lambda>i. CBigInt (Some (uint i))))
    CUint un_int (\<lambda>v. case v of CBigInt (Some i) \<Rightarrow> Some (word_of_int i) | _ \<Rightarrow> None) (\<lambda>i. CBigInt (Some (uint i)))
    (\<lambda>i. uint i < 256 ^ n)"
proof (rule converted_codec.intro [OF unsigned_bigint_contract(1) [OF assms]], unfold_locales)
  fix bs v rest
  assume "decode C bs = Ok (v, rest)"
  from unsigned_bigint_contract(2) [OF assms this]
  show "(case v of CBigInt (Some i) \<Rightarrow> Some (word_of_int i) | _ \<Rightarrow> None) \<noteq> None" by auto
qed (auto simp: uintCodec_def un_int_def)

lemma intCodec_shape [simp]:
  "fixedSize (intCodec C f g) = fixedSize C" "getType (intCodec C f g) = TInt"
  by (simp_all add: intCodec_def)

lemma word_codec_fixed [simp]: "fixedSize (word_codec e n mk dest t) = Ok (int n)"
  by (simp add: word_codec_def)

lemma IntN_contract:
  assumes "big_laws B" and "0 < n" and "IntN B e n = Ok C"
  shows "\<exists>E. type_codec C (\<lambda>v. \<exists>i. v = CInt i \<and> fits n (sint i)) E"
    and "fixedSize C = Ok (int n)" and "getType C = TInt"
proof -
  consider (1) "n = 1" | (2) "n = 2" | (4) "n = 4" | (8) "n = 8"
    | (big) c where "n \<noteq> 1" "n \<noteq> 2" "n \<noteq> 4" "n \<noteq> 8" "NewBigInt B e n True = Ok c"
        "C = intCodec c (\<lambda>v. case v of CBigInt (Some i) \<Rightarrow> Some (word_of_int i) | _ \<Rightarrow> None) (\<lambda>i. CBigInt (Some (sint i)))"
    using assms(3) by (auto simp: IntN_def go_simps split: if_splits)
  then have "(\<exists>E. type_codec C (\<lambda>v. \<exists>i. v = CInt i \<and> fits n (sint i)) E) \<and> fixedSize C = Ok (int n) \<and> getType C = TInt"
  proof cases
    case big
    then show ?thesis
      using converted_codec.contract [OF big_int_codec [OF assms(1,2) big(5)]]
      by (auto simp: NewBigInt_def split: if_splits)
  next
    case 1
    have C: "C = intCodec (Int8 e) (\<lambda>v. case v of CInt8 w \<Rightarrow> Some (scast w) | _ \<Rightarrow> None) (\<lambda>i. CInt8 (ucast i))"
      using assms(3) by (simp add: IntN_def 1)
    show ?thesis unfolding C 1 by (intro conjI exI, rule n1.contract) (simp_all add: word_codec_defs)
  next
    case 2
    have C: "C = intCodec (Int16 e) (\<lambda>v. case v of CInt16 w \<Rightarrow> Some (scast w) | _ \<Rightarrow> None) (\<lambda>i. CInt16 (ucast i))"
      using assms(3) by (simp add: IntN_def 2)
    show ?thesis unfolding C 2 by (intro conjI exI, rule n2.contract) (simp_all add: word_codec_defs)
  next
    case 4
    have C: "C = intCodec (Int32 e) (\<lambda>v. case v of CInt32 w \<Rightarrow> Some (scast w) | _ \<Rightarrow> None) (\<lambda>i. CInt32 (ucast i))"
      using assms(3) by (simp add: IntN_def 4)
    show ?thesis unfolding C 4 by (intro conjI exI, rule n4.contract) (simp_all add: word_codec_defs)
  next
    case 8
    have C: "C = intCodec (Int64 e) (\<lambda>v. case v of CInt64 w \<Rightarrow> Some w | _ \<Rightarrow> None) CInt64"
      using assms(3) by (simp add: IntN_def 8)
    show ?thesis unfolding C 8 by (intro conjI exI, rule n8.contract) (simp_all add: word_codec_defs)
  qed
  then show "\<exists>E. type_codec C (\<lambda>v. \<exists>i. v = CInt i \<and> fits n (sint i)) E"
    and "fixedSize C = Ok (int n)" and "getType C = TInt" by blast+
qed

lemma UintN_contract:
  assumes "UintN B e n = Ok C"
  shows "\<exists>E. type_codec C (\<lambda>v. \<exists>i. v = CUint i \<and> uint i < 256 ^ n) E"
proof -
  consider (1) "n = 1" | (2) "n = 2" | (4) "n = 4" | (8) "n = 8"
    | (big) c where "n \<noteq> 1" "n \<noteq> 2" "n \<noteq> 4" "n \<noteq> 8" "NewBigInt B e n False = Ok c"
        "C = uintCodec c (\<lambda>v. case v of CBigInt (Some i) \<Rightarrow> Some (word_of_int i) | _ \<Rightarrow> None) (\<lambda>i. CBigInt (Some (uint i)))"
    using assms by (auto simp: UintN_def go_simps split: if_splits)
  then show ?thesis
  proof cases
    case big
    then show ?thesis
      using converted_codec.contract [OF big_uint_codec [OF big(5)]] by blast
  next
    case 1
    have C: "C = uintCodec (Uint8 e) (\<lambda>v. case v of CUint8 w \<Rightarrow> Some (ucast w) | _ \<Rightarrow> None) (\<lambda>i. CUint8 (ucast i))"
      using assms by (simp add: UintN_def 1)
    show ?thesis unfolding C 1 by (rule exI, rule m1.contract)
  next
    case 2
    have C: "C = uintCodec (Uint16 e) (\<lambda>v. case v of CUint16 w \<Rightarrow> Some (ucast w) | _ \<Rightarrow> None) (\<lambda>i. CUint16 (ucast i))"
      using assms by (simp add: UintN_def 2)
    show ?thesis unfolding C 2 by (rule exI, rule m2.contract)
  next
    case 4
    have C: "C = uintCodec (Uint32 e) (\<lambda>v. case v of CUint32 w \<Rightarrow> Some (ucast w) | _ \<Rightarrow> None) (\<lambda>i. CUint32 (ucast i))"
      using assms by (simp add: UintN_def 4)
    show ?thesis unfolding C 4 by (rule exI, rule m4.contract)
  next
    case 8
    have C: "C = uintCodec (Uint64 e) (\<lambda>v. case v of CUint64 w \<Rightarrow> Some w | _ \<Rightarrow> None) CUint64"
      using assms by (simp add: UintN_def 8)
    show ?thesis unfolding C 8 by (rule exI, rule m8.contract)
  qed
qed

text \<open>What such a codec reads has the width that it was built with.\<close>

lemma sint_scast_fits:
  assumes "LENGTH('a :: len) = 8 * n" and "0 < n" and "8 * n \<le> 64"
  shows "fits n (sint (scast (w :: 'a word) :: 64 word))"
proof -
  have w: "- (2 ^ (8 * n - 1)) \<le> sint w" "sint w < 2 ^ (8 * n - 1)"
    using sint_greater_eq [of w] sint_less [of w] assms(1) by auto
  have "(2 :: int) ^ (8 * n - 1) \<le> 2 ^ 63" using assms(3) by (intro power_increasing) auto
  with w have "signed_take_bit 63 (sint w) = sint w" by (intro signed_take_bit_int_eq_self) auto
  then have "sint (scast w :: 64 word) = sint w"
    using sint_sbintrunc' [of "sint w", where 'a = 64] unfolding scast_eq [of w] by (simp only: len_num1 len_bit0 len_bit1) simp
  with w show ?thesis by (simp add: fits_def)
qed

lemma IntN_range:
  assumes "big_laws B" and "0 < n" and "n \<le> 8" and "IntN B e n = Ok C" and "decode C bs = Ok (CInt i, r)"
  shows "fits n (sint i)"
proof -
  consider "n = 1" | "n = 2" | "n = 4" | "n = 8"
    | (big) c where "NewBigInt B e n True = Ok c"
        "C = intCodec c (\<lambda>v. case v of CBigInt (Some i) \<Rightarrow> Some (word_of_int i) | _ \<Rightarrow> None) (\<lambda>i. CBigInt (Some (sint i)))"
    using assms(4) by (auto simp: IntN_def go_simps split: if_splits)
  then show ?thesis
  proof cases
    case big
    from assms(5) obtain v where v: "decode c bs = Ok (v, r)" and i: "(case v of CBigInt (Some i) \<Rightarrow> Some (word_of_int i) | _ \<Rightarrow> None) = Some i"
      by (auto simp: big(2) intCodec_def go_simps split: option.splits)
    from signed_bigint_contract(2) [OF assms(1,2) big(1) v] i obtain j where j: "i = word_of_int j" "fits n j" by auto
    have "(2 :: int) ^ (8 * n - 1) \<le> 2 ^ 63" using assms(3) by (intro power_increasing) auto
    with j(2) have "signed_take_bit 63 j = j" by (intro signed_take_bit_int_eq_self) (auto simp: fits_def)
    with j show ?thesis using sint_sbintrunc' [of j, where 'a = 64] by simp
  qed (use assms(4,5) sint_scast_fits [where 'a = 8 and n = 1] sint_scast_fits [where 'a = 16 and n = 2]
      sint_scast_fits [where 'a = 32 and n = 4] sint_scast_fits [where 'a = 64 and n = 8] in
      \<open>auto simp: IntN_def intCodec_def word_codec_defs word_codec_def go_simps dest!: SafeDecode_Ok\<close>)
qed

section \<open>Containers\<close>

context type_codec
begin

lemma pointer_contract:
  "type_codec (NotNilPointer C) (\<lambda>v. \<exists>w. v = CPtr (getType C) (Some w) \<and> V w)
     (\<lambda>v. case v of CPtr _ (Some w) \<Rightarrow> E w)"
proof
  fix v into rest n
  assume "\<exists>w. v = CPtr (getType C) (Some w) \<and> V w"
  then show "encode (NotNilPointer C) v into = Ok (into @ (case v of CPtr _ (Some w) \<Rightarrow> E w))"
    "decode (NotNilPointer C) ((case v of CPtr _ (Some w) \<Rightarrow> E w) @ rest) = Ok (v, rest)"
    "type_of v = getType (NotNilPointer C)"
    "fixedSize (NotNilPointer C) = Ok n \<Longrightarrow> int (length (case v of CPtr _ (Some w) \<Rightarrow> E w)) = n"
    using encodes decodes typed fixed by (auto simp: NotNilPointer_def checked_def)
next
  fix v bs rest
  show "decode (NotNilPointer C) bs \<noteq> Panic"
  proof (cases "decode C bs")
    case (Ok a)
    then show ?thesis using result [of bs "fst a" "snd a"] by (cases a) (auto simp: NotNilPointer_def checked_def)
  qed (use total in \<open>auto simp: NotNilPointer_def\<close>)
  show "decode (NotNilPointer C) bs = Ok (v, rest) \<Longrightarrow> type_of v = getType (NotNilPointer C) \<and> (\<exists>p. bs = p @ rest)"
    by (auto simp: NotNilPointer_def go_simps dest: result)
qed

lemma array_contract:
  assumes "NewArray n (Some C) = Ok A" and "can_make (getType C) n"
  shows "type_codec A (\<lambda>v. \<exists>vs. v = CArray (getType C) vs \<and> length vs = n \<and> list_all V vs)
     (\<lambda>v. concat (map E (the (elements v))))"
proof -
  have A: "encode A = (\<lambda>value into. case elements value of
               None \<Rightarrow> Err ErrNotASlice
             | Some vs \<Rightarrow> if length vs \<noteq> n then Err ErrSliceWrongLen else EncodeEach C vs into)"
    "decode A = (\<lambda>encoded. if can_make (getType C) n
       then go_map (map_prod (CArray (getType C)) (\<lambda>r. r)) (DecodeEach C n encoded) else Panic)"
    "getType A = TArray n (getType C)" "fixedSize A = go_map (\<lambda>fs. fs * int n) (fixedSize C)"
    using assms(1) by (auto simp: NewArray_def Let_def)
  show ?thesis
  proof
    fix v into rest m
    assume "\<exists>vs. v = CArray (getType C) vs \<and> length vs = n \<and> list_all V vs"
    then obtain vs where v: "v = CArray (getType C) vs" "length vs = n" "list_all V vs" by blast
    show "encode A v into = Ok (into @ concat (map E (the (elements v))))"
      "decode A (concat (map E (the (elements v))) @ rest) = Ok (v, rest)" "type_of v = getType A"
      using v EncodeEach_Ok DecodeEach_Ok [OF v(3)] assms(2) by (simp_all add: A)
    show "fixedSize A = Ok m \<Longrightarrow> int (length (concat (map E (the (elements v))))) = m"
      using fixed_concat [OF v(3)] v(2) unfolding A v(1) by (auto simp: go_simps)
  next
    fix v bs rest
    show "decode A bs \<noteq> Panic" using DecodeEach_total assms(2) by (simp add: A go_simps)
    show "decode A bs = Ok (v, rest) \<Longrightarrow> type_of v = getType A \<and> (\<exists>p. bs = p @ rest)"
      using assms(2) by (auto simp: A go_simps dest: DecodeEach_result)
  qed
qed

end

lemma type_of_TInt: "type_of v = TInt \<Longrightarrow> \<exists>i. v = CInt i"
  by (cases v) auto

text \<open>A slice is an element codec and a codec for its length.\<close>

locale slice_codec = field: type_codec F FV FE + header: type_codec S SV SE
  for F FV FE S SV SE +
  fixes width :: nat
  assumes header_fixed: "fixedSize S = Ok (int width)" and header_int: "getType S = TInt"
    and header_alloc: "decode S bs = Ok (CInt i, r) \<Longrightarrow> 0 \<le> sint i \<Longrightarrow> can_make (getType F) (nat (sint i))"
begin

definition carries :: "cval \<Rightarrow> bool" where
  "carries v \<longleftrightarrow> (\<exists>vs. v = CSlice (getType F) vs \<and> list_all FV vs \<and> length vs < 2 ^ 63 \<and>
     length vs \<le> 256 ^ width \<and> SV (CInt (of_nat (length vs))))"

definition slice_bytes :: "cval \<Rightarrow> bytes" where
  "slice_bytes v = (let vs = the (elements v) in SE (CInt (of_nat (length vs))) @ concat (map FE vs))"

lemma sint_length: "n < 2 ^ 63 \<Longrightarrow> sint (of_nat n :: 64 word) = int n"
proof -
  assume n: "n < 2 ^ 63"
  have "sint (word_of_int (int n) :: 64 word) = signed_take_bit 63 (int n)"
    using sint_sbintrunc' [of "int n", where 'a = 64] by simp
  also have "\<dots> = int n" using n by (intro signed_take_bit_int_eq_self) auto
  finally show ?thesis by simp
qed

lemma contract: "type_codec (slice F S) carries slice_bytes"
proof
  fix v into rest n
  assume "carries v"
  then obtain vs where v: "v = CSlice (getType F) vs" "list_all FV vs" "length vs < 2 ^ 63"
    "length vs \<le> 256 ^ width" "SV (CInt (of_nat (length vs)))" unfolding carries_def by blast
  have "(2 :: int) ^ nat (int width * 8) = 256 ^ width"
    by (simp add: nat_mult_distrib power_mult mult.commute [of width])
  with v(4) have "\<not> int (length vs) > 2 ^ nat (int width * 8)" by (simp add: not_less flip: of_nat_le_iff)
  then show "encode (slice F S) v into = Ok (into @ slice_bytes v)"
    using v header.encodes field.EncodeEach_Ok
    by (simp add: slice_def header_fixed slice_bytes_def)
  have "decode S (slice_bytes v @ rest) = Ok (CInt (of_nat (length vs)), concat (map FE vs) @ rest)"
    using header.decodes [OF v(5)] by (simp add: slice_bytes_def v(1))
  then show "decode (slice F S) (slice_bytes v @ rest) = Ok (v, rest)"
    using field.DecodeEach_Ok [OF v(2)] header_alloc by (fastforce simp: slice_def sint_length [OF v(3)] v(1))
  show "type_of v = getType (slice F S)" by (simp add: slice_def v(1))
  show "fixedSize (slice F S) = Ok n \<Longrightarrow> int (length (slice_bytes v)) = n" by (simp add: slice_def)
next
  fix v bs rest
  show "decode (slice F S) bs \<noteq> Panic"
  proof (cases "decode S bs")
    case (Ok a)
    then show ?thesis
      using field.DecodeEach_total header_alloc by (cases a) (auto simp: slice_def go_simps not_less split: cval.splits)
  qed (use header.total in \<open>auto simp: slice_def\<close>)
  assume dec: "decode (slice F S) bs = Ok (v, rest)"
  then obtain sz r where sz: "decode S bs = Ok (sz, r)" by (auto simp: slice_def go_simps)
  with header.result header_int obtain i p where "sz = CInt i" "bs = p @ r" by (metis type_of_TInt)
  with dec sz obtain vs where "DecodeEach F (nat (sint i)) r = Ok (vs, rest)" "v = CSlice (getType F) vs"
    by (auto simp: slice_def go_simps split: if_splits)
  with \<open>bs = p @ r\<close> show "type_of v = getType (slice F S) \<and> (\<exists>p. bs = p @ rest)"
    by (auto simp: slice_def dest!: field.DecodeEach_result)
qed

lemma size_exact:
  assumes "carries v" and "codecSize (slice F S) (int (length (the (elements v)))) = Ok n"
  shows "int (length (slice_bytes v)) = n"
proof -
  obtain vs where v: "v = CSlice (getType F) vs" "list_all FV vs" "SV (CInt (of_nat (length vs)))"
    using assms(1) unfolding carries_def by blast
  from assms(2) obtain es where es: "fixedSize F = Ok es" and n: "n = int width + es * int (length vs)"
    by (auto simp: slice_def header_fixed go_simps v(1))
  show ?thesis
    using header.fixed [OF v(3) header_fixed] field.fixed_concat [OF v(2) es]
    by (simp add: slice_bytes_def v(1) n del: length_concat)
qed

end

sublocale slice_codec \<subseteq> sl: type_codec "slice F S" carries slice_bytes
  by (rule contract)

end
