(* ===== verification/Modifiers.thy ===== *)
theory Modifiers
  imports Encodings Values "HOL-Library.List_Lexorder"
begin

text \<open>
  Modifiers of on-chain types (\<^verbatim>\<open>pkg/codec\<close>): the base that retypes a struct by paths of fields
  (\<^verbatim>\<open>modifier_base.go\<close>, \<^verbatim>\<open>field_and_indices.go\<close>), the modifier that renames fields (\<^verbatim>\<open>renamer.go\<close>) and the ones that
  combine modifiers (\<^verbatim>\<open>multi_modifier.go\<close>, \<^verbatim>\<open>by_item_type_modifier.go\<close>).

  A \<^verbatim>\<open>reflect.Type\<close> is a term; two types are the same when the terms are equal. Tags and embedded fields are left out,
  names are ASCII. A value is the memory it occupies, which knows no names: the renamer reads the same memory at
  another type. The map of fields is the list in which a \<^verbatim>\<open>range\<close> loop visits it.
\<close>

section \<open>Types\<close>

text \<open>
  A struct has the path of its package and its name, both empty when it was made by \<^verbatim>\<open>reflect.StructOf\<close>; a field has a
  name, the path of the package when it is not exported, and a type. \<open>GPrim\<close> is any kind without parts the
  modifiers look into.
\<close>

datatype gtype =
    GPrim string
  | GPtr gtype
  | GSlice gtype
  | GArray nat gtype
  | GStruct string string "(string \<times> string \<times> gtype) list"

type_synonym gfield = "string \<times> string \<times> gtype"

datatype mod_error = InvalidType | InvalidConfig

abbreviation field_type :: "gfield \<Rightarrow> gtype" where
  "field_type f \<equiv> snd (snd f)"

definition ascii_lower :: "char \<Rightarrow> bool" where
  "ascii_lower c \<longleftrightarrow> CHR ''a'' \<le> c \<and> c \<le> CHR ''z''"

definition name_letter :: "char \<Rightarrow> bool" where
  "name_letter c \<longleftrightarrow> ascii_lower c \<or> (CHR ''A'' \<le> c \<and> c \<le> CHR ''Z'') \<or> c = CHR ''_''"

definition valid_name :: "string \<Rightarrow> bool" where
  "valid_name s \<longleftrightarrow> s \<noteq> [] \<and> name_letter (hd s) \<and> list_all (\<lambda>c. name_letter c \<or> (CHR ''0'' \<le> c \<and> c \<le> CHR ''9'')) s"

text \<open>\<^verbatim>\<open>reflect.StructOf\<close> panics on names that are invalid, repeated or not exported without a package, and on two packages.\<close>

definition StructOf :: "gfield list \<Rightarrow> (mod_error, gtype) go" where
  "StructOf fs =
     (let names = filter (\<lambda>n. n \<noteq> ''_'') (map fst fs); pkgs = filter (\<lambda>p. p \<noteq> []) (map (fst \<circ> snd) fs)
      in if list_all (\<lambda>(n, p, t). valid_name n \<and> (p = [] \<longrightarrow> \<not> ascii_lower (hd n) \<and> hd n \<noteq> CHR ''_'')) fs \<and>
            distinct names \<and> list_all (\<lambda>p. p = hd pkgs) pkgs
         then Ok (GStruct [] [] fs) else Panic)"

section \<open>Fields and their indices\<close>

text \<open>The pointers, slices and arrays around a struct, from the outside in.\<close>

datatype layer = LPtr | LSlice | LArray nat

datatype fieldsAndIndices =
  FI string "gfield list" "(string \<times> nat) list" "(string \<times> fieldsAndIndices) list" "layer list"

definition codec_pkgPath :: string where
  "codec_pkgPath = ''github.com/smartcontractkit/chainlink-common/pkg/codec''"

fun field_indices :: "layer list \<Rightarrow> gtype \<Rightarrow> (mod_error, fieldsAndIndices) go" where
  "field_indices ls (GPtr t) = field_indices (ls @ [LPtr]) t"
| "field_indices ls (GSlice t) = field_indices (ls @ [LSlice]) t"
| "field_indices ls (GArray n t) = field_indices (ls @ [LArray n]) t"
| "field_indices ls (GPrim k) = Err InvalidType"
| "field_indices ls (GStruct pkg name fs) =
     Ok (FI (if pkg = [] then codec_pkgPath else pkg) fs (rev (zip (map fst fs) [0..<length fs])) [] ls)"

definition getFieldIndices :: "gtype \<Rightarrow> (mod_error, fieldsAndIndices) go" where
  "getFieldIndices t = field_indices [] t"

text \<open>
  Each closure wraps what the closures before it gave, and the closures are made from the outside in. The one for
  an array asks the variable \<^verbatim>\<open>inputType\<close> for its length when it is called: the variable then holds the struct, which
  has none.
\<close>

fun layer_transform :: "gtype \<Rightarrow> layer \<Rightarrow> (mod_error, gtype) go" where
  "layer_transform t LPtr = Ok (GPtr t)"
| "layer_transform t LSlice = Ok (GSlice t)"
| "layer_transform t (LArray n) = Panic"

definition type_transform :: "layer list \<Rightarrow> gtype \<Rightarrow> (mod_error, gtype) go" where
  "type_transform ls t = go_foldM layer_transform t ls"

text \<open>Indexing a Go map with a key that is not there gives zero.\<close>

definition set_field_type :: "(string \<times> nat) list \<Rightarrow> string \<Rightarrow> gtype \<Rightarrow> gfield list \<Rightarrow> gfield list" where
  "set_field_type idx key t fs =
     (let i = (case map_of idx key of None \<Rightarrow> 0 | Some i \<Rightarrow> i) in fs[i := (fst (fs ! i), fst (snd (fs ! i)), t)])"

fun makeNewType :: "fieldsAndIndices \<Rightarrow> (mod_error, gtype) go"
  and make_sub_types :: "(string \<times> nat) list \<Rightarrow> (string \<times> fieldsAndIndices) list \<Rightarrow> gfield list \<Rightarrow> (mod_error, gfield list) go" where
  "makeNewType (FI pkg fs idx subs ls) =
     go_bind (make_sub_types idx subs fs) (\<lambda>fs'. go_bind (StructOf fs') (type_transform ls))"
| "make_sub_types idx [] fs = Ok fs"
| "make_sub_types idx ((key, sub) # rest) fs =
     go_bind (makeNewType sub) (\<lambda>t. make_sub_types idx rest (set_field_type idx key t fs))"

section \<open>Changing the fields of a struct\<close>

text \<open>The functions that a modifier gives its base.\<close>

record 'c field_ops =
  modifyFieldForInput :: "string \<Rightarrow> gfield \<Rightarrow> string \<Rightarrow> 'c \<Rightarrow> (mod_error, gfield) go"
  addFieldForInput :: "(string \<Rightarrow> string \<Rightarrow> 'c \<Rightarrow> gfield) option"

text \<open>The types of a field whose parts were changed are updated before the field is.\<close>

fun updateTypeFromSubkeyMods :: "string \<Rightarrow> fieldsAndIndices \<Rightarrow> (mod_error, fieldsAndIndices) go" where
  "updateTypeFromSubkeyMods key (FI pkg fs idx subs ls) =
     (case map_of subs key of
        None \<Rightarrow> Ok (FI pkg fs idx subs ls)
      | Some sub \<Rightarrow> go_map (\<lambda>t. FI pkg (set_field_type idx key t fs) idx (del key subs) ls) (makeNewType sub))"

fun modify_or_add :: "'c field_ops \<Rightarrow> string \<Rightarrow> 'c \<Rightarrow> string \<Rightarrow> fieldsAndIndices \<Rightarrow> (mod_error, fieldsAndIndices) go" where
  "modify_or_add ops key change name (FI pkg fs idx subs ls) =
     (case map_of idx name of
        Some i \<Rightarrow> go_map (\<lambda>f. FI pkg (fs[i := f]) idx subs ls) (modifyFieldForInput ops pkg (fs ! i) key change)
      | None \<Rightarrow>
          (case addFieldForInput ops of
             None \<Rightarrow> Err InvalidType
           | Some add \<Rightarrow>
               let f = add pkg name change in Ok (FI pkg (fs @ [f]) ((fst f, length fs) # idx) subs ls)))"

text \<open>\<^verbatim>\<open>populateSubFields\<close> for every part of the path before the last.\<close>

fun modify_at :: "'c field_ops \<Rightarrow> string \<Rightarrow> 'c \<Rightarrow> string list \<Rightarrow> string \<Rightarrow> fieldsAndIndices \<Rightarrow> (mod_error, fieldsAndIndices) go" where
  "modify_at ops key change [] name fi = go_bind (updateTypeFromSubkeyMods name fi) (modify_or_add ops key change name)"
| "modify_at ops key change (p # ps) name (FI pkg fs idx subs ls) =
     (case map_of subs p of
        Some sub \<Rightarrow> go_map (\<lambda>sub'. FI pkg fs idx (put p sub' subs) ls) (modify_at ops key change ps name sub)
      | None \<Rightarrow>
          (case map_of idx p of
             None \<Rightarrow> Err InvalidType
           | Some i \<Rightarrow>
               go_bind (getFieldIndices (field_type (fs ! i)))
                 (\<lambda>sub. go_map (\<lambda>sub'. FI pkg fs idx (put p sub' subs) ls) (modify_at ops key change ps name sub))))"

definition subkeysFirst :: "(string \<times> 'c) list \<Rightarrow> string list" where
  "subkeysFirst flds = rev (sort (map fst flds))"

definition subkeysLast :: "(string \<times> 'c) list \<Rightarrow> string list" where
  "subkeysLast flds = sort (map fst flds)"

definition path_parts :: "string \<Rightarrow> string list" where
  "path_parts key = split_on (CHR ''.'') key"

definition modify_key :: "'c field_ops \<Rightarrow> (string \<times> 'c) list \<Rightarrow> fieldsAndIndices \<Rightarrow> string \<Rightarrow> (mod_error, fieldsAndIndices) go" where
  "modify_key ops flds fi key =
     modify_at ops key (the (map_of flds key)) (butlast (path_parts key)) (last (path_parts key)) fi"

definition getStructType :: "'c field_ops \<Rightarrow> (string \<times> 'c) list \<Rightarrow> gtype \<Rightarrow> (mod_error, gtype) go" where
  "getStructType ops flds t =
     go_bind (getFieldIndices t)
       (\<lambda>fi. go_bind (go_foldM (modify_key ops flds) fi (subkeysFirst flds)) makeNewType)"

section \<open>The base of the modifiers\<close>

record 'c modifierBase =
  enablePathTraverse :: bool
  mFields :: "(string \<times> 'c) list"
  onToOffChainType :: "gtype \<Rightarrow> gtype option"
  offToOnChainType :: "gtype \<Rightarrow> gtype option"
  onChainStructType :: "gtype option"
  offChainStructType :: "gtype option"

definition new_modifierBase :: "(string \<times> 'c) list \<Rightarrow> bool \<Rightarrow> 'c modifierBase" where
  "new_modifierBase flds path =
     \<lparr>enablePathTraverse = path, mFields = flds, onToOffChainType = \<lambda>_. None, offToOnChainType = \<lambda>_. None,
      onChainStructType = None, offChainStructType = None\<rparr>"

lemma size_field:
  "map_of (map (\<lambda>(n, p, t). (n, t)) fs) head = Some t \<Longrightarrow>
     size t < Suc (size_list (size_prod (\<lambda>x. 0) (size_prod (\<lambda>x. 0) size)) fs)"
  by (induction fs) (auto split: if_splits)

function typeForPath :: "gtype \<Rightarrow> string \<Rightarrow> (mod_error, gtype) go" where
  "typeForPath from itemType =
     (if itemType = [] then Ok from
      else case from of
          GPtr t \<Rightarrow> typeForPath t itemType
        | GSlice t \<Rightarrow> Err InvalidType
        | GArray n t \<Rightarrow> Err InvalidType
        | GStruct pkg name fs \<Rightarrow>
            (case map_of (map (\<lambda>(n, p, t). (n, t)) fs) (fst (Next itemType)) of
               None \<Rightarrow> Err InvalidType
             | Some t \<Rightarrow> if snd (Next itemType) = [] then Ok t else typeForPath t (snd (Next itemType)))
        | GPrim k \<Rightarrow> Err InvalidType)"
  by auto
termination
  by (relation "measure (size \<circ> fst)") (auto dest: size_field)

declare typeForPath.simps [simp del]

definition save_types :: "gtype \<Rightarrow> gtype \<Rightarrow> 'c modifierBase \<Rightarrow> 'c modifierBase" where
  "save_types on off m =
     (let m1 = m\<lparr>onToOffChainType := (onToOffChainType m)(on \<mapsto> off), offToOnChainType := (offToOnChainType m)(off \<mapsto> on)\<rparr>
      in if onChainStructType m = None then m1\<lparr>onChainStructType := Some on, offChainStructType := Some off\<rparr> else m1)"

definition identity_types :: "gtype \<Rightarrow> 'c modifierBase \<Rightarrow> 'c modifierBase" where
  "identity_types t m =
     m\<lparr>onToOffChainType := (onToOffChainType m)(t \<mapsto> t), offToOnChainType := (offToOnChainType m)(t \<mapsto> t),
       onChainStructType := Some t, offChainStructType := Some t\<rparr>"

fun recovered :: "(mod_error, 'a) go \<Rightarrow> (mod_error, 'a) go" where
  "recovered Panic = Err InvalidType"
| "recovered r = r"

text \<open>\<^verbatim>\<open>RetypeToOffChain\<close> with an empty item type, which is how it calls itself on the elements of a type.\<close>

definition save_elem :: "gtype \<Rightarrow> (gtype \<Rightarrow> gtype) \<Rightarrow> 'c modifierBase \<times> (mod_error, gtype) go \<Rightarrow> 'c modifierBase \<times> (mod_error, gtype) go" where
  "save_elem t mk r =
     (case snd r of Ok elm \<Rightarrow> (save_types t (mk elm) (fst r), Ok (mk elm)) | _ \<Rightarrow> r)"

fun retype :: "'c field_ops \<Rightarrow> gtype \<Rightarrow> 'c modifierBase \<Rightarrow> 'c modifierBase \<times> (mod_error, gtype) go" where
  "retype ops t m =
     (case onToOffChainType m t of
        Some cached \<Rightarrow> (m, Ok cached)
      | None \<Rightarrow>
          if mFields m = [] then (identity_types t m, Ok t)
          else (case t of
              GPtr e \<Rightarrow> save_elem t GPtr (retype ops e m)
            | GSlice e \<Rightarrow> save_elem t GSlice (retype ops e m)
            | GArray n e \<Rightarrow> save_elem t (GArray n) (retype ops e m)
            | GStruct pkg name fs \<Rightarrow> save_elem t (\<lambda>t'. t') (m, recovered (getStructType ops (mFields m) t))
            | GPrim k \<Rightarrow> (m, if onChainStructType m \<noteq> Some t then Ok t else Err InvalidType)))"

declare retype.simps [simp del]

text \<open>
  With an item type the struct that was retyped first is looked up. Before that there is none, and asking nil for its
  kind panics; afterwards it is always found (\<open>struct_type_cached\<close> below).
\<close>

definition RetypeToOffChain :: "'c field_ops \<Rightarrow> 'c modifierBase \<Rightarrow> gtype \<Rightarrow> string \<Rightarrow> 'c modifierBase \<times> (mod_error, gtype) go" where
  "RetypeToOffChain ops m onChainType path =
     (let itemType = (if enablePathTraverse m then path else [])
      in if itemType = [] then retype ops onChainType m
         else case Option.bind (onChainStructType m) (onToOffChainType m) of
             Some cached \<Rightarrow> (m, recovered (typeForPath cached itemType))
           | None \<Rightarrow>
               if mFields m = [] then (identity_types onChainType m, recovered (typeForPath onChainType itemType))
               else (m, Err InvalidType))"

definition ref_typer :: "(gtype \<Rightarrow> gtype option) \<Rightarrow> gtype option \<Rightarrow> gtype \<Rightarrow> string \<Rightarrow> (mod_error, gtype) go" where
  "ref_typer types struct t itemType =
     (case (if itemType = [] then types t else Option.bind struct types) of
        None \<Rightarrow> Err InvalidType
      | Some t' \<Rightarrow> typeForPath t' itemType)"

definition onToOffChainTyper :: "'c modifierBase \<Rightarrow> gtype \<Rightarrow> string \<Rightarrow> (mod_error, gtype) go" where
  "onToOffChainTyper m = ref_typer (onToOffChainType m) (onChainStructType m)"

definition offToOnChainTyper :: "'c modifierBase \<Rightarrow> gtype \<Rightarrow> string \<Rightarrow> (mod_error, gtype) go" where
  "offToOnChainTyper m = ref_typer (offToOnChainType m) (offChainStructType m)"

section \<open>The renamer\<close>

definition rename_ops :: "string field_ops" where
  "rename_ops =
     \<lparr>modifyFieldForInput = \<lambda>pkg f key newName.
        if newName = [] then Panic
        else Ok (newName, if ascii_lower (hd newName) then pkg else fst (snd f), field_type f),
      addFieldForInput = None\<rparr>"

definition NewRenamer :: "(string \<times> string) list \<Rightarrow> string modifierBase" where
  "NewRenamer flds = new_modifierBase flds False"

definition NewPathTraverseRenamer :: "(string \<times> string) list \<Rightarrow> bool \<Rightarrow> string modifierBase" where
  "NewPathTraverseRenamer flds path = new_modifierBase flds path"

text \<open>A value of type \<^verbatim>\<open>any\<close>: its type and its memory.\<close>

datatype gval = VPrim string string | VPtr "gval option" | VSlice "gval list" | VArray "gval list" | VStruct "gval list"

text \<open>
  A pointer is converted to a pointer to the same memory, anything else is copied, and the copy is read at the
  other type. \<^verbatim>\<open>Elem\<close> panics on a struct.
\<close>

fun renameTransform :: "(gtype \<Rightarrow> string \<Rightarrow> (mod_error, gtype) go) \<Rightarrow> gtype \<times> gval \<Rightarrow> string \<Rightarrow> (mod_error, gtype \<times> gval) go" where
  "renameTransform typeFunc (t, v) itemType =
     go_bind (typeFunc t itemType)
       (\<lambda>toType.
          if toType = t then Ok (t, v)
          else case t of
              GPtr _ \<Rightarrow>
                (case toType of
                   GPtr e \<Rightarrow> Ok (GPtr e, v) | GSlice e \<Rightarrow> Ok (GPtr e, v) | GArray _ e \<Rightarrow> Ok (GPtr e, v) | _ \<Rightarrow> Panic)
            | GPrim _ \<Rightarrow> Err InvalidType
            | _ \<Rightarrow> Ok (toType, v))"

fun join_dots :: "string list \<Rightarrow> string" where
  "join_dots [] = []"
| "join_dots [p] = p"
| "join_dots (p # ps) = p @ CHR ''.'' # join_dots ps"

text \<open>The last part of the path is compared with the keys, which are whole paths.\<close>

definition off_path :: "(string \<times> string) list \<Rightarrow> string \<Rightarrow> string" where
  "off_path flds itemType =
     (if itemType = [] then []
      else case find (\<lambda>(on, off). last (path_parts itemType) = on) flds of
          None \<Rightarrow> itemType
        | Some (on, off) \<Rightarrow> join_dots (butlast (path_parts itemType) @ [off]))"

definition on_path :: "(string \<times> string) list \<Rightarrow> string \<Rightarrow> string" where
  "on_path flds itemType =
     (if itemType = [] then []
      else case find (\<lambda>(on, off). last (path_parts itemType) = off) flds of
          None \<Rightarrow> itemType
        | Some (on, off) \<Rightarrow> on)"

definition rename_TransformToOffChain :: "string modifierBase \<Rightarrow> gtype \<times> gval \<Rightarrow> string \<Rightarrow> (mod_error, gtype \<times> gval) go" where
  "rename_TransformToOffChain m onChainValue itemType =
     renameTransform (onToOffChainTyper m) onChainValue (off_path (mFields m) (if enablePathTraverse m then itemType else []))"

definition rename_TransformToOnChain :: "string modifierBase \<Rightarrow> gtype \<times> gval \<Rightarrow> string \<Rightarrow> (mod_error, gtype \<times> gval) go" where
  "rename_TransformToOnChain m offChainValue itemType =
     renameTransform (offToOnChainTyper m) offChainValue (on_path (mFields m) (if enablePathTraverse m then itemType else []))"

section \<open>Combinations of modifiers\<close>

text \<open>The methods of the interface \<^verbatim>\<open>Modifier\<close>; retyping changes the modifier.\<close>

record 'm Modifier =
  RetypeM :: "'m \<Rightarrow> gtype \<Rightarrow> string \<Rightarrow> 'm \<times> (mod_error, gtype) go"
  ToOnChainM :: "'m \<Rightarrow> gtype \<times> gval \<Rightarrow> string \<Rightarrow> (mod_error, gtype \<times> gval) go"
  ToOffChainM :: "'m \<Rightarrow> gtype \<times> gval \<Rightarrow> string \<Rightarrow> (mod_error, gtype \<times> gval) go"

definition renamer :: "string modifierBase Modifier" where
  "renamer = \<lparr>RetypeM = RetypeToOffChain rename_ops, ToOnChainM = rename_TransformToOnChain, ToOffChainM = rename_TransformToOffChain\<rparr>"

fun multi_RetypeToOffChain :: "'m Modifier \<Rightarrow> 'm list \<Rightarrow> gtype \<Rightarrow> string \<Rightarrow> 'm list \<times> (mod_error, gtype) go" where
  "multi_RetypeToOffChain M [] t itemType = ([], Ok t)"
| "multi_RetypeToOffChain M (m # ms) t itemType =
     (case RetypeM M m t itemType of
        (m', Ok t') \<Rightarrow> (case multi_RetypeToOffChain M ms t' itemType of (ms', r) \<Rightarrow> (m' # ms', r))
      | (m', r) \<Rightarrow> (m' # ms, r))"

definition multi_TransformToOnChain :: "'m Modifier \<Rightarrow> 'm list \<Rightarrow> gtype \<times> gval \<Rightarrow> string \<Rightarrow> (mod_error, gtype \<times> gval) go" where
  "multi_TransformToOnChain M ms offChainValue itemType =
     go_foldM (\<lambda>v m. ToOnChainM M m v itemType) offChainValue (rev ms)"

definition multi_TransformToOffChain :: "'m Modifier \<Rightarrow> 'm list \<Rightarrow> gtype \<times> gval \<Rightarrow> string \<Rightarrow> (mod_error, gtype \<times> gval) go" where
  "multi_TransformToOffChain M ms onChainValue itemType =
     go_foldM (\<lambda>v m. ToOffChainM M m v itemType) onChainValue ms"

record 'm byItemTypeModifier =
  modByItemType :: "(string, 'm) gomap"
  enableNesting :: bool

definition head_tail :: "'m byItemTypeModifier \<Rightarrow> string \<Rightarrow> string \<times> string" where
  "head_tail b itemType = (if enableNesting b then Next itemType else (itemType, itemType))"

definition byItem_RetypeToOffChain :: "'m Modifier \<Rightarrow> 'm byItemTypeModifier \<Rightarrow> gtype \<Rightarrow> string \<Rightarrow> 'm byItemTypeModifier \<times> (mod_error, gtype) go" where
  "byItem_RetypeToOffChain M b t itemType =
     (case head_tail b itemType of (head, tail) \<Rightarrow>
        case map_of (modByItemType b) head of
          None \<Rightarrow> (b, Err InvalidType)
        | Some m \<Rightarrow>
            (case RetypeM M m t tail of (m', r) \<Rightarrow> (b\<lparr>modByItemType := put head m' (modByItemType b)\<rparr>, r)))"

definition byItem_transform :: "('m \<Rightarrow> gtype \<times> gval \<Rightarrow> string \<Rightarrow> (mod_error, gtype \<times> gval) go) \<Rightarrow> 'm byItemTypeModifier \<Rightarrow> gtype \<times> gval \<Rightarrow> string \<Rightarrow> (mod_error, gtype \<times> gval) go" where
  "byItem_transform fn b v itemType =
     (case head_tail b itemType of (head, tail) \<Rightarrow>
        case map_of (modByItemType b) head of
          None \<Rightarrow> Err InvalidType
        | Some m \<Rightarrow> fn m v tail)"

definition byItemType :: "'m Modifier \<Rightarrow> 'm byItemTypeModifier Modifier" where
  "byItemType M =
     \<lparr>RetypeM = byItem_RetypeToOffChain M, ToOnChainM = byItem_transform (ToOnChainM M), ToOffChainM = byItem_transform (ToOffChainM M)\<rparr>"

definition multiModifier :: "'m Modifier \<Rightarrow> 'm list Modifier" where
  "multiModifier M =
     \<lparr>RetypeM = multi_RetypeToOffChain M, ToOnChainM = multi_TransformToOnChain M, ToOffChainM = multi_TransformToOffChain M\<rparr>"

section \<open>Renaming keeps the layout\<close>

text \<open>A type without its names describes the memory: whether a value fits a type depends on nothing else.\<close>

fun shape :: "gtype \<Rightarrow> gtype" where
  "shape (GPrim k) = GPrim k"
| "shape (GPtr t) = GPtr (shape t)"
| "shape (GSlice t) = GSlice (shape t)"
| "shape (GArray n t) = GArray n (shape t)"
| "shape (GStruct pkg name fs) = GStruct [] [] (map (\<lambda>(n, p, t). ([], [], shape t)) fs)"

fun fits_type :: "gtype \<Rightarrow> gval \<Rightarrow> bool" where
  "fits_type (GPrim k) v = (case v of VPrim k' _ \<Rightarrow> k = k' | _ \<Rightarrow> False)"
| "fits_type (GPtr t) v = (case v of VPtr None \<Rightarrow> True | VPtr (Some w) \<Rightarrow> fits_type t w | _ \<Rightarrow> False)"
| "fits_type (GSlice t) v = (case v of VSlice ws \<Rightarrow> list_all (fits_type t) ws | _ \<Rightarrow> False)"
| "fits_type (GArray n t) v = (case v of VArray ws \<Rightarrow> length ws = n \<and> list_all (fits_type t) ws | _ \<Rightarrow> False)"
| "fits_type (GStruct pkg name fs) v =
     (case v of VStruct ws \<Rightarrow> list_all2 (\<lambda>P w. P w) (map (\<lambda>(n, p, t). fits_type t) fs) ws | _ \<Rightarrow> False)"

lemma fits_type_shape: "fits_type (shape t) = fits_type t"
proof (induction t rule: shape.induct)
  case (5 pkg name fs)
  then have "map (\<lambda>(n, p, t). fits_type t) (map (\<lambda>(n, p, t). ([] :: string, [] :: string, shape t)) fs) = map (\<lambda>(n, p, t). fits_type t) fs"
    by (auto simp: split_def)
  then show ?case by (intro ext) (simp only: fits_type.simps shape.simps)
qed (auto intro!: ext split: gval.splits option.splits)

lemma shape_shape [simp]: "shape (shape t) = shape t"
  by (induction t rule: shape.induct) (auto simp: split_def)

text \<open>
  The layers around the struct that a type leads to. They are put around the new struct in the opposite order, so
  the layout stays the same only where they read the same in both directions.
\<close>

fun layers :: "gtype \<Rightarrow> layer list option" where
  "layers (GPrim k) = None"
| "layers (GPtr t) = map_option ((#) LPtr) (layers t)"
| "layers (GSlice t) = map_option ((#) LSlice) (layers t)"
| "layers (GArray n t) = map_option ((#) (LArray n)) (layers t)"
| "layers (GStruct pkg name fs) = Some []"

definition mirrored :: "gtype \<Rightarrow> bool" where
  "mirrored t \<longleftrightarrow> (case layers t of None \<Rightarrow> True | Some ls \<Rightarrow> rev ls = ls)"

fun regular :: "gtype \<Rightarrow> bool" where
  "regular (GPrim k) = True"
| "regular (GPtr t) = regular t"
| "regular (GSlice t) = regular t"
| "regular (GArray n t) = regular t"
| "regular (GStruct pkg name fs) = list_all (\<lambda>(n, p, t). mirrored t \<and> regular t) fs"

lemma layers_shape [simp]: "layers (shape t) = layers t"
  by (induction t rule: shape.induct) auto

lemma mirrored_shape [simp]: "mirrored (shape t) = mirrored t"
  by (simp add: mirrored_def)

lemma regular_shape: "regular (shape t) = regular t"
  by (induction t rule: shape.induct) (auto simp: list_all_iff split_def)

lemma regular_cong: "shape t = shape t' \<Longrightarrow> mirrored t = mirrored t' \<and> regular t = regular t'"
  using regular_shape [of t] regular_shape [of t'] mirrored_shape [of t] mirrored_shape [of t'] by simp

fun put_layer :: "gtype \<Rightarrow> layer \<Rightarrow> gtype" where
  "put_layer t LPtr = GPtr t"
| "put_layer t LSlice = GSlice t"
| "put_layer t (LArray n) = GArray n t"

definition fields_shape :: "gfield list \<Rightarrow> gtype" where
  "fields_shape fs = GStruct [] [] (map (\<lambda>f. ([], [], shape (field_type f))) fs)"

lemma shape_struct: "shape (GStruct pkg name fs) = fields_shape fs"
  by (simp add: fields_shape_def split_def)

lemma layer_transform_shape: "layer_transform t l = Ok t' \<Longrightarrow> shape t' = put_layer (shape t) l"
  by (cases l) auto

lemma type_transform_shape: "type_transform ls t = Ok t' \<Longrightarrow> shape t' = foldl put_layer (shape t) ls"
proof (induction ls arbitrary: t)
  case (Cons l ls)
  then obtain u where u: "layer_transform t l = Ok u" "type_transform ls u = Ok t'"
    by (cases "layer_transform t l") (auto simp: type_transform_def)
  with Cons.IH [of u] layer_transform_shape [of t l u] show ?case by simp
qed (simp add: type_transform_def)

text \<open>The layout of the type that a tree of changed fields leads to.\<close>

fun tree_shape :: "fieldsAndIndices \<Rightarrow> gtype" where
  "tree_shape (FI pkg fs idx subs ls) = foldl put_layer (fields_shape fs) ls"

fun tree_ok :: "fieldsAndIndices \<Rightarrow> bool" where
  "tree_ok (FI pkg fs idx subs ls) \<longleftrightarrow>
     (\<forall>i \<in> snd ` set idx. i < length fs) \<and> list_all (\<lambda>f. mirrored (field_type f) \<and> regular (field_type f)) fs \<and>
     (\<forall>(k, sub) \<in> set subs. tree_ok sub \<and> (\<exists>i. map_of idx k = Some i \<and> tree_shape sub = shape (field_type (fs ! i))))"

lemma foldl_put_layers: "foldl put_layer (foldl put_layer t ls) rs = foldl put_layer t (ls @ rs)"
  by simp

lemma shape_layers:
  "field_indices ls t = Ok fi \<Longrightarrow>
     \<exists>pkg fs idx rs. layers t = Some rs \<and> fi = FI pkg fs idx [] (ls @ rs) \<and> shape t = foldr (\<lambda>l t. put_layer t l) rs (fields_shape fs) \<and>
       (regular t \<longrightarrow> tree_ok fi)"
proof (induction ls t rule: field_indices.induct)
  case (5 ls pkg name fs)
  have "i < length fs" if "(k, i) \<in> set (zip (map fst fs) [0..<length fs])" for k i
    using that by (auto dest!: set_zip_rightD)
  with 5 show ?case by (auto simp: fields_shape_def split_def list_all_iff)
qed (fastforce)+

lemma getFieldIndices_ok:
  assumes "getFieldIndices t = Ok fi" "mirrored t" "regular t"
  shows "tree_ok fi \<and> tree_shape fi = shape t"
proof -
  obtain pkg fs idx rs where fi: "layers t = Some rs" "fi = FI pkg fs idx [] rs" "tree_ok fi"
      "shape t = foldr (\<lambda>l t. put_layer t l) rs (fields_shape fs)"
    using shape_layers [of "[]" t fi] assms by (auto simp: getFieldIndices_def)
  with assms(2) have "rev rs = rs" by (simp add: mirrored_def)
  then show ?thesis using fi by (simp add: foldr_conv_foldl)
qed

text \<open>Replacing the type of a field by one of the same layout changes nothing.\<close>

lemma fields_shape_set:
  assumes "shape t = shape (field_type (fs ! i))"
  shows "fields_shape (fs[i := (n, p, t)]) = fields_shape fs"
proof -
  have "shape (field_type (fs[i := (n, p, t)] ! j)) = shape (field_type (fs ! j))" if "j < length fs" for j
    using assms that by (cases "i = j") auto
  then show ?thesis by (auto simp: fields_shape_def intro: nth_equalityI)
qed

lemma tree_ok_set:
  assumes ok: "tree_ok (FI pkg fs idx subs ls)" and same: "shape t = shape (field_type (fs ! i))" and "i < length fs"
    and subs: "set subs' \<subseteq> set subs"
  shows "tree_ok (FI pkg (fs[i := (n, p, t)]) idx subs' ls)"
proof -
  have shapes: "shape (field_type (fs[i := (n, p, t)] ! j)) = shape (field_type (fs ! j))" if "j < length fs" for j
    using same that by (cases "i = j") auto
  have "mirrored t \<and> regular t" using ok regular_cong [OF same] \<open>i < length fs\<close> by (auto simp: list_all_length)
  then have "list_all (\<lambda>f. mirrored (field_type f) \<and> regular (field_type f)) (fs[i := (n, p, t)])"
    using ok set_update_subset_insert [of fs i "(n, p, t)"] by (fastforce simp: list_all_iff)
  moreover have "tree_ok sub \<and> (\<exists>j. map_of idx k = Some j \<and> tree_shape sub = shape (field_type (fs[i := (n, p, t)] ! j)))"
    if "(k, sub) \<in> set subs'" for k sub
  proof -
    from that subs ok obtain j where j: "tree_ok sub" "map_of idx k = Some j" "tree_shape sub = shape (field_type (fs ! j))" by fastforce
    with ok have "j < length fs" by (force dest: map_of_SomeD)
    with j shapes show ?thesis by auto
  qed
  ultimately show ?thesis using ok by auto
qed

lemma set_field_type_ok:
  assumes ok: "tree_ok (FI pkg fs idx subs ls)" and i: "map_of idx key = Some i" and same: "shape t = shape (field_type (fs ! i))"
    and subs: "set subs' \<subseteq> set subs"
  shows "tree_ok (FI pkg (set_field_type idx key t fs) idx subs' ls)" and "fields_shape (set_field_type idx key t fs) = fields_shape fs"
proof -
  have "i < length fs" using ok i by (force dest: map_of_SomeD)
  from tree_ok_set [OF ok same this subs, of "fst (fs ! i)" "fst (snd (fs ! i))"] i
  show "tree_ok (FI pkg (set_field_type idx key t fs) idx subs' ls)" by (simp only: set_field_type_def Let_def option.case)
  show "fields_shape (set_field_type idx key t fs) = fields_shape fs" using fields_shape_set [OF same] i by (simp add: set_field_type_def)
qed

lemma StructOf_shape: "StructOf fs = Ok t \<Longrightarrow> shape t = fields_shape fs"
  by (auto simp: StructOf_def Let_def shape_struct simp del: shape.simps split: if_splits)

lemma makeNewType_shape:
  "tree_ok fi \<Longrightarrow> makeNewType fi = Ok t \<Longrightarrow> shape t = tree_shape fi"
  "tree_ok (FI pkg fs idx subs ls) \<Longrightarrow> make_sub_types idx subs fs = Ok fs' \<Longrightarrow> fields_shape fs' = fields_shape fs"
proof (induction fi and idx subs fs arbitrary: t and pkg ls fs' rule: makeNewType_make_sub_types.induct)
  case (1 pkg fs idx subs ls)
  then obtain fs1 u where fs1: "make_sub_types idx subs fs = Ok fs1" "StructOf fs1 = Ok u" "type_transform ls u = Ok t"
    by (auto simp: go_bind_eq_Ok)
  with 1 type_transform_shape [of ls u t] StructOf_shape [of fs1 u] show ?case by simp
next
  case (3 idx key sub rest fs)
  then obtain u where u: "makeNewType sub = Ok u" by (cases "makeNewType sub") auto
  from 3 obtain i where i: "map_of idx key = Some i" "tree_shape sub = shape (field_type (fs ! i))" "tree_ok sub" by auto
  have same: "shape u = shape (field_type (fs ! i))" using 3 u i by simp
  have "set rest \<subseteq> set ((key, sub) # rest)" by auto
  from set_field_type_ok [OF 3(3) i(1) same this] show ?case using 3(2,4) u by simp
qed simp

lemma updateType_ok:
  assumes "tree_ok fi" "updateTypeFromSubkeyMods key fi = Ok fi'"
  shows "tree_ok fi' \<and> tree_shape fi' = tree_shape fi"
proof (cases fi)
  case (FI pkg fs idx subs ls)
  show ?thesis
  proof (cases "map_of subs key")
    case (Some sub)
    with assms FI obtain t where t: "makeNewType sub = Ok t" "fi' = FI pkg (set_field_type idx key t fs) idx (del key subs) ls"
      by (auto simp: go_simps)
    from Some assms(1) FI obtain i where i: "map_of idx key = Some i" "tree_shape sub = shape (field_type (fs ! i))" "tree_ok sub"
      by (fastforce dest: map_of_SomeD)
    have same: "shape t = shape (field_type (fs ! i))" using makeNewType_shape(1) [OF i(3) t(1)] i by simp
    have "set (del key subs) \<subseteq> set subs" unfolding del_def by (induction subs) auto
    from set_field_type_ok [OF _ i(1) same this] show ?thesis using assms(1) FI t by simp
  qed (use assms FI in auto)
qed

lemma rename_field_ok:
  assumes "tree_ok fi" "modify_or_add rename_ops key newName name fi = Ok fi'"
  shows "tree_ok fi' \<and> tree_shape fi' = tree_shape fi"
proof (cases fi)
  case (FI pkg fs idx subs ls)
  with assms(2) obtain i p where i: "map_of idx name = Some i" "fi' = FI pkg (fs[i := (newName, p, field_type (fs ! i))]) idx subs ls"
    by (auto simp: rename_ops_def go_simps split: option.splits if_splits)
  moreover have "i < length fs" using assms(1) FI i(1) by (force dest: map_of_SomeD)
  ultimately show ?thesis
    using FI assms(1) tree_ok_set [of pkg fs idx subs ls "field_type (fs ! i)" i subs] fields_shape_set [of "field_type (fs ! i)" fs i] by simp
qed

lemma set_put_subset: "set (put k v m) \<subseteq> insert (k, v) (set m)"
  unfolding put_def by (induction m) auto

lemma tree_ok_put:
  assumes "tree_ok (FI pkg fs idx subs ls)" "map_of idx p = Some i" "tree_ok sub" "tree_shape sub = shape (field_type (fs ! i))"
  shows "tree_ok (FI pkg fs idx (put p sub subs) ls)"
  using assms set_put_subset [of p sub subs] by fastforce

lemma rename_at_ok:
  "tree_ok fi \<Longrightarrow> modify_at rename_ops key newName ps name fi = Ok fi' \<Longrightarrow> tree_ok fi' \<and> tree_shape fi' = tree_shape fi"
proof (induction ps arbitrary: fi fi')
  case Nil
  then obtain fi1 where "updateTypeFromSubkeyMods name fi = Ok fi1" "modify_or_add rename_ops key newName name fi1 = Ok fi'"
    by (auto simp: go_simps)
  with Nil.prems(1) updateType_ok [of fi name fi1] rename_field_ok [of fi1 key newName name fi'] show ?case by simp
next
  case (Cons p ps)
  obtain pkg fs idx subs ls where fi: "fi = FI pkg fs idx subs ls" by (cases fi)
  obtain sub sub' i where sub: "map_of idx p = Some i" "tree_ok sub" "tree_shape sub = shape (field_type (fs ! i))"
      "modify_at rename_ops key newName ps name sub = Ok sub'" "fi' = FI pkg fs idx (put p sub' subs) ls"
  proof (cases "map_of subs p")
    case (Some sub)
    with Cons.prems fi that show ?thesis by (fastforce simp: go_simps dest: map_of_SomeD)
  next
    case None
    with Cons.prems fi obtain i sub sub' where i: "map_of idx p = Some i" "getFieldIndices (field_type (fs ! i)) = Ok sub"
        "modify_at rename_ops key newName ps name sub = Ok sub'" "fi' = FI pkg fs idx (put p sub' subs) ls"
      by (auto simp: go_simps split: option.splits)
    have "i < length fs" using Cons.prems(1) fi i(1) by (force dest: map_of_SomeD)
    with Cons.prems(1) fi have "mirrored (field_type (fs ! i))" "regular (field_type (fs ! i))" by (auto simp: list_all_length)
    from getFieldIndices_ok [OF i(2) this] i that show ?thesis by blast
  qed
  from Cons.IH [OF sub(2,4)] sub have "tree_ok sub'" "tree_shape sub' = shape (field_type (fs ! i))" by auto
  with tree_ok_put [OF _ sub(1)] Cons.prems(1) fi sub show ?case by simp
qed

lemma rename_keys_ok:
  "tree_ok fi \<Longrightarrow> go_foldM (modify_key rename_ops flds) fi keys = Ok fi' \<Longrightarrow> tree_ok fi' \<and> tree_shape fi' = tree_shape fi"
proof (induction keys arbitrary: fi)
  case (Cons key keys)
  then obtain fi1 where fi1: "modify_key rename_ops flds fi key = Ok fi1" "go_foldM (modify_key rename_ops flds) fi1 keys = Ok fi'"
    by (auto simp: go_simps)
  with Cons.prems(1) have "tree_ok fi1 \<and> tree_shape fi1 = tree_shape fi" by (simp add: modify_key_def rename_at_ok)
  with Cons.IH [of fi1] fi1(2) show ?case by simp
qed simp

lemma getStructType_shape:
  assumes "getStructType rename_ops flds (GStruct pkg name fs) = Ok t'" "regular (GStruct pkg name fs)"
  shows "shape t' = shape (GStruct pkg name fs)"
proof -
  obtain fi fi' where "getFieldIndices (GStruct pkg name fs) = Ok fi" "makeNewType fi' = Ok t'"
      "go_foldM (modify_key rename_ops flds) fi (subkeysFirst flds) = Ok fi'"
    using assms(1) by (auto simp: getStructType_def go_simps)
  with getFieldIndices_ok [of "GStruct pkg name fs" fi] rename_keys_ok [of fi flds _ fi'] makeNewType_shape(1) [of fi' t'] assms(2)
  show ?thesis by (simp add: mirrored_def)
qed

section \<open>Retyping\<close>

text \<open>Types that are kept as each other's counterpart have one layout.\<close>

definition types_ok :: "'c modifierBase \<Rightarrow> bool" where
  "types_ok m \<longleftrightarrow>
     (\<forall>on off. onToOffChainType m on = Some off \<longrightarrow> shape off = shape on) \<and>
     (\<forall>off on. offToOnChainType m off = Some on \<longrightarrow> shape on = shape off)"

lemma types_ok_new: "types_ok (new_modifierBase flds path)"
  by (simp add: types_ok_def new_modifierBase_def)

lemma types_ok_save: "types_ok m \<Longrightarrow> shape off = shape on \<Longrightarrow> types_ok (save_types on off m)"
  by (auto simp: types_ok_def save_types_def Let_def)

lemma types_ok_identity: "types_ok m \<Longrightarrow> types_ok (identity_types t m)"
  by (auto simp: types_ok_def identity_types_def)

lemma types_ok_elem:
  assumes "types_ok (fst r)" "\<And>e'. snd r = Ok e' \<Longrightarrow> shape (mk e') = shape t"
  shows "types_ok (fst (save_elem t mk r)) \<and> (\<forall>t'. snd (save_elem t mk r) = Ok t' \<longrightarrow> shape t' = shape t)"
  using assms by (auto simp: save_elem_def types_ok_save split: go.splits)

lemma recovered_Ok [simp]: "recovered r = Ok a \<longleftrightarrow> r = Ok a"
  by (cases r) auto

lemma retype_step:
  assumes "types_ok m" and "types_ok (fst r)" and "\<And>e'. snd r = Ok e' \<Longrightarrow> shape (mk e') = shape t"
    and "onToOffChainType m t = None \<Longrightarrow> mFields m \<noteq> [] \<Longrightarrow> retype rename_ops t m = save_elem t mk r"
  shows "types_ok (fst (retype rename_ops t m)) \<and> (\<forall>t'. snd (retype rename_ops t m) = Ok t' \<longrightarrow> shape t' = shape t)"
proof (cases "onToOffChainType m t = None \<and> mFields m \<noteq> []")
  case True
  then have saved: "retype rename_ops t m = save_elem t mk r" using assms(4) by blast
  show ?thesis unfolding saved by (rule types_ok_elem) (use assms(2,3) in auto)
next
  case False
  then consider off where "onToOffChainType m t = Some off" | "onToOffChainType m t = None" "mFields m = []" by fastforce
  then show ?thesis
  proof cases
    case 1
    with assms(1) have "shape off = shape t" by (simp add: types_ok_def)
    with 1 assms(1) show ?thesis by (simp add: retype.simps [of rename_ops t])
  next
    case 2
    with assms(1) show ?thesis by (simp add: retype.simps [of rename_ops t] types_ok_identity)
  qed
qed

lemma retype_shape:
  "types_ok m \<Longrightarrow> regular t \<Longrightarrow>
     types_ok (fst (retype rename_ops t m)) \<and> (\<forall>t'. snd (retype rename_ops t m) = Ok t' \<longrightarrow> shape t' = shape t)"
proof (induction t)
  case (GPrim k)
  then have "types_ok (identity_types (GPrim k) m)" by (simp add: types_ok_identity)
  with GPrim show ?case by (auto simp: retype.simps split: option.splits) (auto simp: types_ok_def)
next
  case (GStruct pkg name fs)
  then show ?case
    by (intro retype_step [where r = "(m, recovered (getStructType rename_ops (mFields m) (GStruct pkg name fs)))" and mk = "\<lambda>t'. t'"])
      (auto simp: retype.simps dest!: getStructType_shape)
next
  case (GPtr e)
  then show ?case by (intro retype_step [where r = "retype rename_ops e m" and mk = GPtr]) (auto simp: retype.simps [of _ "GPtr e"])
next
  case (GSlice e)
  then show ?case by (intro retype_step [where r = "retype rename_ops e m" and mk = GSlice]) (auto simp: retype.simps [of _ "GSlice e"])
next
  case (GArray n e)
  then show ?case by (intro retype_step [where r = "retype rename_ops e m" and mk = "GArray n"]) (auto simp: retype.simps [of _ "GArray n e"])
qed

text \<open>The first struct that was retyped is found when an item type asks for it.\<close>

definition struct_cached :: "'c modifierBase \<Rightarrow> bool" where
  "struct_cached m \<longleftrightarrow> (\<forall>s. onChainStructType m = Some s \<longrightarrow> onToOffChainType m s \<noteq> None)"

lemma save_elem_cached: "struct_cached (fst r) \<Longrightarrow> struct_cached (fst (save_elem t mk r))"
  by (auto simp: save_elem_def save_types_def struct_cached_def Let_def split: go.splits)

lemma identity_cached: "struct_cached (identity_types t m)"
  by (simp add: struct_cached_def identity_types_def)

lemma retype_cached: "struct_cached m \<Longrightarrow> struct_cached (fst (retype ops t m))"
proof (induction t)
  case (GPtr e)
  then show ?case by (simp add: retype.simps [of _ "GPtr e"] identity_cached save_elem_cached split: option.splits)
next
  case (GSlice e)
  then show ?case by (simp add: retype.simps [of _ "GSlice e"] identity_cached save_elem_cached split: option.splits)
next
  case (GArray n e)
  then show ?case by (simp add: retype.simps [of _ "GArray n e"] identity_cached save_elem_cached split: option.splits)
qed (simp_all add: retype.simps identity_cached save_elem_cached split: option.splits)

lemma struct_type_cached:
  "struct_cached (new_modifierBase flds path) \<and> (struct_cached m \<longrightarrow> struct_cached (fst (RetypeToOffChain ops m t itemType)))"
proof
  show "struct_cached (new_modifierBase flds path)" by (simp add: struct_cached_def new_modifierBase_def)
qed (simp add: RetypeToOffChain_def Let_def retype_cached identity_cached split: option.splits)

section \<open>Renaming and back\<close>


definition retyped :: "(string \<times> string) list \<Rightarrow> bool \<Rightarrow> (gtype \<times> string) list \<Rightarrow> string modifierBase" where
  "retyped flds path calls =
     foldl (\<lambda>m (t, itemType). fst (RetypeToOffChain rename_ops m t itemType)) (NewPathTraverseRenamer flds path) calls"


lemma shape_GPtr: "shape t = GPtr s \<Longrightarrow> \<exists>e. t = GPtr e \<and> shape e = s"
  by (cases t) auto


lemma ref_typer_whole: "ref_typer types struct t [] = (case types t of None \<Rightarrow> Err InvalidType | Some t' \<Rightarrow> Ok t')"
  by (simp add: ref_typer_def typeForPath.simps split: option.splits)



definition ex_onChain :: gtype where
  "ex_onChain = GStruct ''pkg'' ''Report''
     [(''A'', [], GPrim ''string''), (''B'', [], GSlice (GStruct ''pkg'' ''Price'' [(''C'', [], GPrim ''int64'')]))]"

definition ex_offChain :: gtype where
  "ex_offChain = GStruct [] []
     [(''X'', [], GPrim ''string''), (''B'', [], GSlice (GStruct [] [] [(''z'', ''pkg'', GPrim ''int64'')]))]"

definition ex_memory :: gval where
  "ex_memory = VStruct [VPrim ''string'' ''a'', VSlice [VStruct [VPrim ''int64'' ''1''], VStruct [VPrim ''int64'' ''2'']]]"

lemma ex_retype: "snd (RetypeToOffChain rename_ops (NewRenamer [(''A'', ''X''), (''B.C'', ''z'')]) ex_onChain []) = Ok ex_offChain"
  by code_simp



text \<open>
  A field that is a slice of pointers to structs becomes a pointer to a slice of structs when a part of it is
  renamed: the header of the slice is then read as a pointer. A field that is an array of structs cannot be renamed in.
\<close>

definition ex_slice_of_pointers :: gtype where
  "ex_slice_of_pointers = GStruct [] [] [(''F'', [], GSlice (GPtr (GStruct [] [] [(''A'', [], GPrim ''int64'')])))]"

lemma layers_reversed:
  "snd (RetypeToOffChain rename_ops (NewRenamer [(''F.A'', ''B'')]) ex_slice_of_pointers []) =
     Ok (GStruct [] [] [(''F'', [], GPtr (GSlice (GStruct [] [] [(''B'', [], GPrim ''int64'')])))])"
  by code_simp

lemma misread:
  "let m = fst (RetypeToOffChain rename_ops (NewRenamer [(''F.A'', ''B'')]) ex_slice_of_pointers []); v = VStruct [VSlice []]
   in fits_type ex_slice_of_pointers v \<and>
      (\<exists>t'. rename_TransformToOffChain m (ex_slice_of_pointers, v) [] = Ok (t', v) \<and> \<not> fits_type t' v)"
proof -
  have "rename_TransformToOffChain (fst (RetypeToOffChain rename_ops (NewRenamer [(''F.A'', ''B'')]) ex_slice_of_pointers []))
      (ex_slice_of_pointers, VStruct [VSlice []]) [] =
      Ok (GStruct [] [] [(''F'', [], GPtr (GSlice (GStruct [] [] [(''B'', [], GPrim ''int64'')])))], VStruct [VSlice []])"
    by code_simp
  then show ?thesis by (simp add: ex_slice_of_pointers_def)
qed

lemma array_not_renamed:
  "snd (RetypeToOffChain rename_ops (NewRenamer [(''F.A'', ''B'')])
     (GStruct [] [] [(''F'', [], GArray 2 (GStruct [] [] [(''A'', [], GPrim ''int64'')]))]) []) = Err InvalidType"
  by code_simp

text \<open>A field of a nested struct is not found by its path, because its name alone is compared with the whole keys.\<close>

lemma nested_path_not_found:
  "rename_TransformToOffChain (retyped [(''B.C'', ''Z'')] True [(GStruct [] [] [(''B'', [], GStruct [] [] [(''C'', [], GPrim ''int64'')])], [])])
     (GPrim ''int64'', VPrim ''int64'' ''1'') ''B.C'' = Err InvalidType"
  by code_simp

lemma retype_saves:
  assumes "onToOffChainType m t = None" and "layers t \<noteq> None" and "retype ops t m = (m', Ok t')"
  shows "onToOffChainType m' t = Some t' \<and> offToOnChainType m' t' = Some t"
proof (cases "mFields m = []")
  case True
  with assms show ?thesis by (auto simp: retype.simps [of ops t] identity_types_def)
next
  case False
  have saved: "onToOffChainType m' t = Some t' \<and> offToOnChainType m' t' = Some t" if "save_elem t mk r = (m', Ok t')" for mk r
    using that by (auto simp: save_elem_def save_types_def Let_def split: go.splits)
  have "\<exists>mk r. retype ops t m = save_elem t mk r"
    using False assms(1,2) by (subst retype.simps) (auto simp del: split_paired_Ex split: gtype.splits)
  then show ?thesis using saved assms(3) by metis
qed

text \<open>A value of an accepted type comes back from the conversion as it was, at its original type.\<close>

lemma rename_round_trip:
  assumes "regular t" and "layers t \<noteq> None" and "fits_type t v"
    and "RetypeToOffChain rename_ops (NewPathTraverseRenamer flds path) t [] = (m, Ok t')"
  shows "rename_TransformToOffChain m (t, v) [] = Ok (t', v) \<and> fits_type t' v \<and> rename_TransformToOnChain m (t', v) [] = Ok (t, v)"
proof -
  let ?m0 = "NewPathTraverseRenamer flds path"
  have retype: "retype rename_ops t ?m0 = (m, Ok t')" using assms(4) by (simp add: RetypeToOffChain_def)
  have "onToOffChainType m t = Some t' \<and> offToOnChainType m t' = Some t"
    using retype assms(2) by (intro retype_saves [of ?m0]) (auto simp: NewPathTraverseRenamer_def new_modifierBase_def)
  moreover have same: "shape t' = shape t" using retype_shape [of ?m0 t] assms(1) retype by (simp add: NewPathTraverseRenamer_def types_ok_new)
  moreover have "layers t' \<noteq> None" using same assms(2) layers_shape [of t] layers_shape [of t'] by simp
  moreover have "fits_type t' v" using same assms(3) by (metis fits_type_shape)
  ultimately show ?thesis using assms(2)
    by (cases t; cases t') (auto simp: rename_TransformToOffChain_def rename_TransformToOnChain_def off_path_def on_path_def
        onToOffChainTyper_def offToOnChainTyper_def ref_typer_whole)
qed

section \<open>Modifiers after each other\<close>

text \<open>
  What a list of modifiers needs of each: on the types it accepts, a fresh modifier retypes to a type that the next one
  may accept, and its two transformations undo each other on the values of the types.
\<close>

locale invertible_modifier =
  fixes M :: "'m Modifier" and fresh :: "'m \<Rightarrow> bool" and accepts :: "gtype \<Rightarrow> bool"
  assumes retype_accepted: "fresh m \<Longrightarrow> accepts t \<Longrightarrow> RetypeM M m t [] = (m', Ok t') \<Longrightarrow> accepts t'"
    and there_and_back: "fresh m \<Longrightarrow> accepts t \<Longrightarrow> RetypeM M m t [] = (m', Ok t') \<Longrightarrow> fits_type t v \<Longrightarrow>
      \<exists>w. ToOffChainM M m' (t, v) [] = Ok (t', w) \<and> fits_type t' w \<and> ToOnChainM M m' (t', w) [] = Ok (t, v)"
begin

lemma multi_there_and_back:
  "list_all fresh ms \<Longrightarrow> accepts t \<Longrightarrow> multi_RetypeToOffChain M ms t [] = (ms', Ok t') \<Longrightarrow> fits_type t v \<Longrightarrow>
     accepts t' \<and> (\<exists>w. multi_TransformToOffChain M ms' (t, v) [] = Ok (t', w) \<and> fits_type t' w \<and>
       multi_TransformToOnChain M ms' (t', w) [] = Ok (t, v))"
proof (induction ms arbitrary: ms' t v)
  case (Cons m ms)
  obtain m' r where m': "RetypeM M m t [] = (m', r)" by fastforce
  then obtain u where u: "r = Ok u" using Cons.prems by (cases r) auto
  obtain ms1 where ms1: "multi_RetypeToOffChain M ms u [] = (ms1, Ok t')" "ms' = m' # ms1"
    using Cons.prems m' u by (auto split: prod.splits)
  obtain w where w: "ToOffChainM M m' (t, v) [] = Ok (u, w)" "fits_type u w" "ToOnChainM M m' (u, w) [] = Ok (t, v)"
    using there_and_back [of m t m' u v] Cons.prems m' u by auto
  have "accepts u" using retype_accepted [of m t m' u] Cons.prems m' u by auto
  with Cons.IH [of u ms1 w] Cons.prems ms1 w(2) obtain x where
      "accepts t'" "multi_TransformToOffChain M ms1 (u, w) [] = Ok (t', x)" "fits_type t' x" "multi_TransformToOnChain M ms1 (t', x) [] = Ok (u, w)"
    by auto
  with w ms1 show ?case by (auto simp: multi_TransformToOffChain_def multi_TransformToOnChain_def go_foldM_append)
qed (simp add: multi_TransformToOffChain_def multi_TransformToOnChain_def)

end

definition fresh_renamer :: "string modifierBase \<Rightarrow> bool" where
  "fresh_renamer m \<longleftrightarrow> m = NewPathTraverseRenamer (mFields m) (enablePathTraverse m)"

definition renamable :: "gtype \<Rightarrow> bool" where
  "renamable t \<longleftrightarrow> regular t \<and> layers t \<noteq> None"

interpretation renaming: invertible_modifier renamer fresh_renamer renamable
proof
  fix m m' t t'
  assume fresh: "fresh_renamer m" and t: "renamable t" and r: "RetypeM renamer m t [] = (m', Ok t')"
  then have retype: "retype rename_ops t m = (m', Ok t')" by (simp add: renamer_def RetypeToOffChain_def)
  have "types_ok m" using fresh types_ok_new by (metis fresh_renamer_def NewPathTraverseRenamer_def)
  from retype_shape [OF this, of t] t retype have same: "shape t' = shape t" by (simp add: renamable_def)
  then have "layers t' = layers t" using layers_shape by metis
  with regular_cong [OF same] t show "renamable t'" by (simp add: renamable_def)
next
  fix m m' t t' v
  assume "fresh_renamer m" "renamable t" "RetypeM renamer m t [] = (m', Ok t')" "fits_type t v"
  then show "\<exists>w. ToOffChainM renamer m' (t, v) [] = Ok (t', w) \<and> fits_type t' w \<and> ToOnChainM renamer m' (t', w) [] = Ok (t, v)"
    using rename_round_trip [of t v "mFields m" "enablePathTraverse m" m' t'] by (auto simp: renamer_def renamable_def fresh_renamer_def)
qed

text \<open>
  C19. Renamers that are applied after each other can be undone: when every one of them accepts the type the one before
  it returned, a value that is converted by all of them in order and back by all of them in the opposite order is
  the value it was.
\<close>

theorem multi_rename_round_trip:
  assumes "list_all fresh_renamer ms" and "renamable t" and "fits_type t v"
    and "RetypeM (multiModifier renamer) ms t [] = (ms', Ok t')"
  shows "\<exists>w. ToOffChainM (multiModifier renamer) ms' (t, v) [] = Ok (t', w) \<and> fits_type t' w \<and>
    ToOnChainM (multiModifier renamer) ms' (t', w) [] = Ok (t, v)"
  using renaming.multi_there_and_back [OF assms(1,2) _ assms(3)] assms(4) by (simp add: multiModifier_def)

theorem multi_rename_round_trip_witness:
  "\<exists>ms t' w. ToOffChainM (multiModifier renamer) ms (ex_onChain, ex_memory) [] = Ok (t', w) \<and> fits_type t' w \<and>
     ToOnChainM (multiModifier renamer) ms (t', w) [] = Ok (ex_onChain, ex_memory)"
proof -
  let ?ms = "[NewRenamer [(''A'', ''X''), (''B.C'', ''z'')], NewRenamer [(''B'', ''Y''), (''B.z'', ''Q'')]]"
  have "is_ok (snd (RetypeM (multiModifier renamer) ?ms ex_onChain []))" by code_simp
  then obtain t' where "snd (RetypeM (multiModifier renamer) ?ms ex_onChain []) = Ok t'"
    by (cases "snd (RetypeM (multiModifier renamer) ?ms ex_onChain [])") auto
  then have "RetypeM (multiModifier renamer) ?ms ex_onChain [] = (fst (RetypeM (multiModifier renamer) ?ms ex_onChain []), Ok t')"
    by (metis prod.collapse)
  moreover have "renamable ex_onChain" "fits_type ex_onChain ex_memory" by code_simp+
  moreover have "list_all fresh_renamer ?ms"
    by (simp add: fresh_renamer_def NewRenamer_def NewPathTraverseRenamer_def new_modifierBase_def)
  ultimately show ?thesis using multi_rename_round_trip by blast
qed

end
