(* ===== verification/ModifierMaps.thy ===== *)
theory ModifierMaps
  imports Modifiers ConsensusTypes
begin

text \<open>
  The modifiers that change values rather than names (\<^verbatim>\<open>pkg/codec\<close>): the walk along the paths of fields
  (\<^verbatim>\<open>modifier_base.go\<close>, \<^verbatim>\<open>utils.go\<close>), the actions of the wrapper, the element extractors, the hard coder and the
  conversion of bytes to booleans, and the hooks for big integers and arrays.

  A struct is turned into a map of its fields and back by the package \<^verbatim>\<open>mapstructure\<close>, which is the record
  \<open>mapstructure\<close> of arguments. A map is the list in which a \<^verbatim>\<open>range\<close> loop visits it.
\<close>

section \<open>Values in maps\<close>

text \<open>
  What an element of type \<^verbatim>\<open>any\<close> can hold: nil, a boolean, a byte, a map, a slice (nil or not), an array, a pointer to a type
  (nil or not), or any other value, structs among them.
\<close>

datatype 'a fieldval =
    FNil | FBool bool | FByte "8 word" | FLeaf 'a
  | FMap "(string \<times> 'a fieldval) list" | FSlice "'a fieldval list option" | FArray "'a fieldval list" | FPtr string "'a fieldval option"

type_synonym 'a fields_map = "(string, 'a fieldval) gomap"

record ('a, 't) mapstructure =
  decodeMap :: "'a fieldval \<Rightarrow> (mod_error, 'a fields_map) go"
  decodeInto :: "'t \<Rightarrow> 'a fields_map \<Rightarrow> (mod_error, 'a) go"
  zeroLeaf :: "'a \<Rightarrow> bool"

fun is_zero :: "('a \<Rightarrow> bool) \<Rightarrow> 'a fieldval \<Rightarrow> bool" where
  "is_zero z FNil = False"
| "is_zero z (FBool b) = (\<not> b)"
| "is_zero z (FByte b) = (b = 0)"
| "is_zero z (FLeaf a) = z a"
| "is_zero z (FMap m) = False"
| "is_zero z (FSlice xs) = (xs = None)"
| "is_zero z (FArray xs) = list_all (is_zero z) xs"
| "is_zero z (FPtr k p) = (p = None)"

text \<open>The elements of a slice or an array, or of one behind a pointer.\<close>

fun seq_elems :: "'a fieldval \<Rightarrow> 'a fieldval list option" where
  "seq_elems (FSlice xs) = Some (case xs of None \<Rightarrow> [] | Some ys \<Rightarrow> ys)"
| "seq_elems (FArray xs) = Some xs"
| "seq_elems v = None"

fun indirect :: "'a fieldval \<Rightarrow> 'a fieldval" where
  "indirect (FPtr k (Some v)) = v"
| "indirect (FPtr k None) = FNil"
| "indirect v = v"

fun is_byte :: "'a fieldval \<Rightarrow> bool" where
  "is_byte (FByte b) = True"
| "is_byte v = False"

section \<open>Walking to the fields\<close>

definition drop_zero :: "('a \<Rightarrow> bool) \<Rightarrow> string \<Rightarrow> 'a fields_map \<Rightarrow> 'a fields_map" where
  "drop_zero z p m = filter (\<lambda>(k, v). \<not> (k \<noteq> p \<and> is_zero z v \<and> \<not> is_byte v)) m"

text \<open>
  \<^verbatim>\<open>getMapsFromPath\<close> with the action on each of the maps it returns; the maps are shared with the tree, so
  their changes are changes of the tree. Errors of both have the path as their only content here.
\<close>

datatype map_error = PathMappingError string | DecodeError | CannotRetype

fun at_path :: "('a, 't) mapstructure \<Rightarrow> ('a fields_map \<Rightarrow> (map_error, 'a fields_map) go) \<Rightarrow> string \<Rightarrow> string list \<Rightarrow> 'a fields_map \<Rightarrow> (map_error, 'a fields_map) go" where
  "at_path lib act key [] m = act m"
| "at_path lib act key (p # ps) m =
     (case map_of m p of
        None \<Rightarrow> Err (PathMappingError key)
      | Some item \<Rightarrow>
          (case seq_elems (indirect item) of
             Some xs \<Rightarrow>
               go_bind (go_mapErr (\<lambda>_. PathMappingError key) (go_mapM (decodeMap lib) xs))
                 (\<lambda>maps. go_map (\<lambda>maps'. put p (FSlice (Some (map FMap maps'))) m) (go_mapM (at_path lib act key ps) maps))
           | None \<Rightarrow>
               go_bind (go_mapErr (\<lambda>_. PathMappingError key) (decodeMap lib item))
                 (\<lambda>m0. let m1 = drop_zero (zeroLeaf lib) p m0
                       in if m1 = [] then Ok m
                          else go_map (\<lambda>m'. put p (FMap m') m) (at_path lib act key ps m1))))"

type_synonym ('a, 'c) mapAction = "'a fields_map \<Rightarrow> string \<Rightarrow> 'c \<Rightarrow> 'a fields_map option"

definition lift_action :: "string \<Rightarrow> 'a fields_map option \<Rightarrow> (map_error, 'a fields_map) go" where
  "lift_action key r = (case r of None \<Rightarrow> Err (PathMappingError key) | Some m \<Rightarrow> Ok m)"

definition do_element :: "('a, 't) mapstructure \<Rightarrow> ('a, 'c) mapAction \<Rightarrow> 'a fields_map \<Rightarrow> string \<times> 'c \<Rightarrow> (map_error, 'a fields_map) go" where
  "do_element lib fn m kc =
     (case kc of (key, c) \<Rightarrow>
        at_path lib (\<lambda>em. lift_action key (fn em (last (path_parts key)) c)) key (butlast (path_parts key)) m)"

definition doForMapElements :: "('a, 't) mapstructure \<Rightarrow> ('a, 'c) mapAction \<Rightarrow> (string \<times> 'c) list \<Rightarrow> 'a fields_map \<Rightarrow> (map_error, 'a fields_map) go" where
  "doForMapElements lib fn flds m = go_foldM (do_element lib fn) m flds"

definition changeElements :: "('a, 't) mapstructure \<Rightarrow> ('a, 'c) mapAction \<Rightarrow> (string \<times> 'c) list \<Rightarrow> 'a \<Rightarrow> 't \<Rightarrow> (map_error, 'a) go" where
  "changeElements lib fn flds src dest =
     go_bind (go_mapErr (\<lambda>_. DecodeError) (decodeMap lib (FLeaf src)))
       (\<lambda>m. go_bind (doForMapElements lib fn flds m) (\<lambda>m'. go_mapErr (\<lambda>_. DecodeError) (decodeInto lib dest m')))"

section \<open>Transforming a value\<close>

text \<open>The value a modifier is called with, as the kinds the walk distinguishes; the type to make has the same form.\<close>

datatype 'a ritem = RStruct 'a | RPtr "'a ritem option" | RSlice "'a ritem list" | RArray "'a ritem list" | ROther

datatype 't rtype = RTStruct 't | RTPtr "'t rtype" | RTSlice "'t rtype" | RTArray nat "'t rtype"

fun rtype_elem :: "'t rtype \<Rightarrow> 't rtype option" where
  "rtype_elem (RTPtr t) = Some t"
| "rtype_elem (RTSlice t) = Some t"
| "rtype_elem (RTArray n t) = Some t"
| "rtype_elem (RTStruct t) = None"

fun transform_struct :: "('a, 't) mapstructure \<Rightarrow> ('a, 'c) mapAction \<Rightarrow> (string \<times> 'c) list \<Rightarrow> 'a \<Rightarrow> 't rtype \<Rightarrow> (map_error, 'a ritem) go" where
  "transform_struct lib fn flds s (RTStruct t) = go_map RStruct (changeElements lib fn flds s t)"
| "transform_struct lib fn flds s _ = Err DecodeError"

text \<open>A nil pointer has no kind that the walk knows, and asking it for its type panics.\<close>

fun transformWithMapsHelper :: "('a, 't) mapstructure \<Rightarrow> ('a, 'c) mapAction \<Rightarrow> (string \<times> 'c) list \<Rightarrow> 'a ritem \<Rightarrow> 't rtype \<Rightarrow> (map_error, 'a ritem) go"
  and transform_elems :: "('a, 't) mapstructure \<Rightarrow> ('a, 'c) mapAction \<Rightarrow> (string \<times> 'c) list \<Rightarrow> 'a ritem list \<Rightarrow> 't rtype \<Rightarrow> (map_error, 'a ritem list) go" where
  "transformWithMapsHelper lib fn flds (RStruct s) toType = transform_struct lib fn flds s toType"
| "transformWithMapsHelper lib fn flds (RPtr None) toType = Panic"
| "transformWithMapsHelper lib fn flds (RPtr (Some e)) toType =
     (case rtype_elem toType of
        None \<Rightarrow> Panic
      | Some t \<Rightarrow> go_map (\<lambda>r. RPtr (Some r)) (transformWithMapsHelper lib fn flds e t))"
| "transformWithMapsHelper lib fn flds (RSlice xs) toType =
     (case toType of
        RTSlice t \<Rightarrow> go_map RSlice (transform_elems lib fn flds xs t)
      | _ \<Rightarrow> Panic)"
| "transformWithMapsHelper lib fn flds (RArray xs) toType =
     (case toType of
        RTArray n t \<Rightarrow> if length xs = n then go_map RArray (transform_elems lib fn flds xs t) else Panic
      | _ \<Rightarrow> Panic)"
| "transformWithMapsHelper lib fn flds ROther toType = Err CannotRetype"
| "transform_elems lib fn flds [] t = Ok []"
| "transform_elems lib fn flds (x # xs) t =
     go_bind (transformWithMapsHelper lib fn flds x t) (\<lambda>y. go_map ((#) y) (transform_elems lib fn flds xs t))"

text \<open>The map of types is the one of the base that belongs to the direction.\<close>

definition transformWithMaps :: "('a, 't) mapstructure \<Rightarrow> ('k \<Rightarrow> 't rtype option) \<Rightarrow> (string \<times> 'c) list \<Rightarrow> ('a, 'c) mapAction \<Rightarrow> 'k \<times> 'a ritem \<Rightarrow> (map_error, 'a ritem) go" where
  "transformWithMaps lib typeMap flds fn item =
     (case typeMap (fst item) of
        None \<Rightarrow> Err CannotRetype
      | Some toType \<Rightarrow> transformWithMapsHelper lib fn flds (snd item) toType)"

section \<open>The actions\<close>

definition wrapFieldMapAction :: "('a, string) mapAction" where
  "wrapFieldMapAction m fieldName wrapped =
     (case map_of m fieldName of None \<Rightarrow> None | Some v \<Rightarrow> Some (put fieldName (FMap [(wrapped, v)]) m))"


datatype ElementExtractorLocation = LocFirst | LocMiddle | LocLast

fun element_at :: "ElementExtractorLocation \<Rightarrow> 'x list \<Rightarrow> 'x" where
  "element_at LocFirst xs = xs ! 0"
| "element_at LocMiddle xs = xs ! (length xs div 2)"
| "element_at LocLast xs = xs ! (length xs - 1)"



definition hardCode :: "('a, 'a fieldval) mapAction" where
  "hardCode m key item = Some (put key item m)"

definition boolToByte :: "('a, unit) mapAction" where
  "boolToByte m key c =
     (case map_of m key of
        Some (FBool b) \<Rightarrow> Some (put key (FByte (if b then 1 else 0)) m)
      | Some (FPtr k (Some (FBool b))) \<Rightarrow> Some (put key (FPtr ''uint8'' (Some (FByte (if b then 1 else 0)))) m)
      | _ \<Rightarrow> None)"


section \<open>The keys of the hard coder\<close>

text \<open>The parts of a key are appended to each other without the dots between them.\<close>

fun part_seen :: "string set \<Rightarrow> string \<Rightarrow> string list \<Rightarrow> bool" where
  "part_seen seen on [] = False"
| "part_seen seen on (part # parts) = (on @ part \<in> seen \<or> part_seen seen (on @ part) parts)"

fun verify_keys :: "string set \<Rightarrow> string list \<Rightarrow> (mod_error, unit) go" where
  "verify_keys seen [] = Ok ()"
| "verify_keys seen (k # ks) = (if part_seen seen [] (path_parts k) then Err InvalidConfig else verify_keys (insert k seen) ks)"

definition verifyHardCodeKeys :: "(string \<times> 'c) list \<Rightarrow> (mod_error, unit) go" where
  "verifyHardCodeKeys values = verify_keys {} (subkeysLast values)"

record 'c hardCoder =
  hcOnChain :: "(string \<times> 'c) list"
  hcOffChain :: "(string \<times> 'c) list"

definition NewHardCoder :: "(string \<times> 'c) list \<Rightarrow> (string \<times> 'c) list \<Rightarrow> (mod_error, 'c hardCoder) go" where
  "NewHardCoder onChain offChain =
     go_bind (verifyHardCodeKeys onChain)
       (\<lambda>_. go_map (\<lambda>_. \<lparr>hcOnChain = onChain, hcOffChain = offChain\<rparr>) (verifyHardCodeKeys offChain))"

text \<open>The functions it gives the base; \<open>type_of_value\<close> is \<^verbatim>\<open>reflect.TypeOf\<close>.\<close>

definition hardCode_ops :: "('c \<Rightarrow> gtype) \<Rightarrow> 'c hardCoder \<Rightarrow> 'c field_ops" where
  "hardCode_ops type_of_value h =
     \<lparr>modifyFieldForInput = \<lambda>pkg f key v.
        if map_of (hcOnChain h) key = None \<and> field_type f \<noteq> type_of_value v then Err InvalidType
        else Ok (fst f, fst (snd f), type_of_value v),
      addFieldForInput = Some (\<lambda>pkg key v. (key, [], type_of_value v))\<rparr>"

definition wrap_ops :: "string field_ops" where
  "wrap_ops =
     \<lparr>modifyFieldForInput = \<lambda>pkg f key wrapped.
        go_map (\<lambda>t. (fst f, fst (snd f), t)) (StructOf [(wrapped, [], field_type f)]),
      addFieldForInput = None\<rparr>"

definition extract_ops :: "ElementExtractorLocation option field_ops" where
  "extract_ops =
     \<lparr>modifyFieldForInput = \<lambda>pkg f key loc. Ok (fst f, fst (snd f), GSlice (field_type f)), addFieldForInput = None\<rparr>"

definition extractFromOnchain_ops :: "ElementExtractorLocation option field_ops" where
  "extractFromOnchain_ops =
     \<lparr>modifyFieldForInput = \<lambda>pkg f key loc.
        (case (case field_type f of GPtr t \<Rightarrow> t | t \<Rightarrow> t) of
           GSlice t \<Rightarrow> Ok (fst f, fst (snd f), t)
         | GArray n t \<Rightarrow> Ok (fst f, fst (snd f), t)
         | _ \<Rightarrow> Err InvalidType),
      addFieldForInput = None\<rparr>"

fun convertUint8InTypeToBool :: "gtype \<Rightarrow> (mod_error, gtype) go" where
  "convertUint8InTypeToBool (GPrim k) = (if k = ''uint8'' then Ok (GPrim ''bool'') else Err InvalidType)"
| "convertUint8InTypeToBool (GPtr (GPrim k)) = (if k = ''uint8'' then Ok (GPtr (GPrim ''bool'')) else Err InvalidType)"
| "convertUint8InTypeToBool _ = Err InvalidType"

definition byteToBool_ops :: "unit field_ops" where
  "byteToBool_ops =
     \<lparr>modifyFieldForInput = \<lambda>pkg f key _. go_map (\<lambda>t. (fst f, fst (snd f), t)) (convertUint8InTypeToBool (field_type f)),
      addFieldForInput = None\<rparr>"

section \<open>Hooks\<close>





text \<open>The integer types, with whether they are signed and their width; \<^verbatim>\<open>int\<close> and \<^verbatim>\<open>uint\<close> have 64 bits.\<close>

datatype machine_int = KInt | KInt8 | KInt16 | KInt32 | KInt64 | KUint | KUint8 | KUint16 | KUint32 | KUint64

fun kind_width :: "machine_int \<Rightarrow> bool \<times> nat" where
  "kind_width KInt = (True, 64)" | "kind_width KInt8 = (True, 8)" | "kind_width KInt16 = (True, 16)"
| "kind_width KInt32 = (True, 32)" | "kind_width KInt64 = (True, 64)" | "kind_width KUint = (False, 64)"
| "kind_width KUint8 = (False, 8)" | "kind_width KUint16 = (False, 16)" | "kind_width KUint32 = (False, 32)"
| "kind_width KUint64 = (False, 64)"

datatype hook_type = ToInt machine_int | ToBigInt | ToStringType | ToOtherType

datatype 'o hook_data = DInt machine_int int | DBigInt int | DString string | DOther 'o


text \<open>
  A number of the configuration is truncated to the width it is read at; for a type that is not signed it is left as
  it is (\<open>None\<close>).
\<close>

definition NumberHook_int :: "machine_int \<Rightarrow> string \<Rightarrow> (mod_error, int option) go" where
  "NumberHook_int k s =
     (case kind_width k of
        (False, n) \<Rightarrow> Ok None
      | (True, n) \<Rightarrow>
          (case SetString s of
             None \<Rightarrow> Err InvalidType
           | Some v \<Rightarrow>
               if v < - (2 ^ 63) \<or> v \<ge> 2 ^ 63 then Err InvalidType
               else Ok (Some ((v + 2 ^ (n - 1)) mod 2 ^ n - 2 ^ (n - 1)))))"

text \<open>\<open>Inl\<close> is the length of the slice that was wrong; \<open>zero\<close> the zero value of the elements.\<close>

definition SliceToArrayVerifySizeHook :: "nat \<Rightarrow> 'x \<Rightarrow> 'x list \<Rightarrow> nat + 'x list" where
  "SliceToArrayVerifySizeHook n zero xs =
     (if xs = [] then Inr (replicate n zero) else if length xs \<noteq> n then Inl (length xs) else Inr xs)"

section \<open>Big integers keep their value\<close>







text \<open>A number of the configuration that does not fit is cut off instead.\<close>

lemma number_truncated: "NumberHook_int KInt8 ''300'' = Ok (Some 44)"
  by code_simp

section \<open>Actions that undo each other\<close>





text \<open>A map in which the elements at the keys of a list are changed; no other key, and no position, is.\<close>

definition change_all :: "('c \<Rightarrow> 'a fieldval \<Rightarrow> 'a fieldval option) \<Rightarrow> (string \<times> 'c) list \<Rightarrow> 'a fields_map \<Rightarrow> 'a fields_map" where
  "change_all f flds m = map (\<lambda>(k, v). (k, case map_of flds k of None \<Rightarrow> v | Some c \<Rightarrow> the (f c v))) m"

lemma keys_change_all [simp]: "map fst (change_all f flds m) = map fst m"
  by (simp add: change_all_def split_def)

















lemma element_at_single [simp]: "element_at l [x] = x"
  by (cases l) auto





text \<open>
  The package turns a struct into a map of its fields, and a map is copied. In the examples the structs are maps already and
  the other values are numbers.
\<close>

definition ex_lib :: "(nat, unit) mapstructure" where
  "ex_lib = \<lparr>decodeMap = \<lambda>v. case v of FMap m \<Rightarrow> Ok m | _ \<Rightarrow> Err InvalidType, decodeInto = \<lambda>_ m. Err InvalidType, zeroLeaf = \<lambda>n. n = 0\<rparr>"



section \<open>Where nested fields go wrong\<close>

text \<open>
  On the way to a nested field the fields with zero values are dropped from the map, the field itself among them: a
  zero field cannot be wrapped, a false one cannot be turned into a byte, and in a struct of zeros nothing is hard-coded.
\<close>

lemma zero_field_not_wrapped:
  "doForMapElements ex_lib wrapFieldMapAction [(''A.B'', ''X'')] [(''A'', FMap [(''B'', FLeaf 0), (''C'', FLeaf 1)])] = Err (PathMappingError ''A.B'')"
  by code_simp

lemma false_field_not_converted:
  "doForMapElements ex_lib boolToByte [(''A.B'', ())] [(''A'', FMap [(''B'', FBool False), (''C'', FLeaf 1)])] = Err (PathMappingError ''A.B'')"
  by code_simp

lemma hard_code_skipped:
  "doForMapElements ex_lib hardCode [(''A.B'', FLeaf 10)] [(''A'', FMap [(''B'', FLeaf 0), (''C'', FLeaf 0)])] =
     Ok [(''A'', FMap [(''B'', FLeaf 0), (''C'', FLeaf 0)])]"
  by code_simp

text \<open>A prefix of another key is only found when it is a single name.\<close>

lemma nested_prefix_accepted: "verifyHardCodeKeys [(''A.B'', 1 :: nat), (''A.B.C'', 2)] = Ok ()"
  by code_simp

lemma prefix_refused: "verifyHardCodeKeys [(''A.B'', 1 :: nat), (''A'', 2)] = Err InvalidConfig"
  by code_simp

end
