(* ===== verification/Plugins.thy ===== *)
theory Plugins
  imports Prelude
begin

text \<open>
  Plugins in other processes (\<^verbatim>\<open>pkg/loop/internal\<close>): the service that keeps a plugin process alive
  (\<^verbatim>\<open>goplugin/plugin_service.go\<close>) and the connection to a service of a plugin, which is dialed again when it breaks
  (\<^verbatim>\<open>net/client.go\<close>).

  What the other side does is data of the environment: how each attempt to connect or to launch ends, whether a
  call fails, whether a context ends. Connections, resources and processes are numbered in the order in which they
  come into being. \<open>refresh\<close> holds the lock of the connection until it returns, so it is one step.
\<close>

section \<open>The connection\<close>

text \<open>
  The fields \<^verbatim>\<open>cc\<close> and \<^verbatim>\<open>deps\<close>, the calls of \<^verbatim>\<open>Close\<close> so far, and how many connections and resources there
  have been.
\<close>

record clientConn =
  ccConn :: "nat option"
  ccDeps :: "nat list"
  ccClosedConns :: "nat list"
  ccClosedDeps :: "nat list"
  ccDialed :: nat
  ccGot :: nat

definition new_clientConn :: clientConn where
  "new_clientConn = \<lparr>ccConn = None, ccDeps = [], ccClosedConns = [], ccClosedDeps = [], ccDialed = 0, ccGot = 0\<rparr>"

text \<open>
  An attempt to connect: \<^verbatim>\<open>newClient\<close> fails, the connection cannot be dialed, or it is; \<^verbatim>\<open>newClient\<close> returns so
  many resources.
\<close>

datatype attempt = NewClientFails nat | DialFails nat | Dials nat

definition CloseAll :: "nat list \<Rightarrow> clientConn \<Rightarrow> clientConn" where
  "CloseAll deps c = c\<lparr>ccClosedDeps := ccClosedDeps c @ deps\<rparr>"

definition get_deps :: "nat \<Rightarrow> clientConn \<Rightarrow> nat list \<times> clientConn" where
  "get_deps n c = ([ccGot c..<ccGot c + n], c\<lparr>ccGot := ccGot c + n\<rparr>)"

text \<open>The function \<^verbatim>\<open>try\<close>.\<close>

fun try_connect :: "attempt \<Rightarrow> clientConn \<Rightarrow> bool \<times> clientConn" where
  "try_connect (NewClientFails n) c = (case get_deps n c of (deps, c1) \<Rightarrow> (False, CloseAll deps c1))"
| "try_connect (DialFails n) c =
     (case get_deps n c of (deps, c1) \<Rightarrow> (False, CloseAll deps (c1\<lparr>ccDeps := deps, ccConn := None\<rparr>)))"
| "try_connect (Dials n) c =
     (case get_deps n c of (deps, c1) \<Rightarrow>
        (True, c1\<lparr>ccDeps := deps, ccConn := Some (ccDialed c1), ccDialed := ccDialed c1 + 1\<rparr>))"

text \<open>
  The loop of \<^verbatim>\<open>refresh\<close>: each attempt comes with whether the context of the call has ended when the attempt has
  failed or during the wait after it. \<open>None\<close> is a refresh that still tries.
\<close>

fun refresh_loop :: "(attempt \<times> bool) list \<Rightarrow> clientConn \<Rightarrow> (clientConn \<times> nat option) option" where
  "refresh_loop [] c = None"
| "refresh_loop ((a, ended) # rest) c =
     (case try_connect a c of (success, c1) \<Rightarrow>
        if success then Some (c1, ccConn c1)
        else if ended then Some (c1, None)
        else refresh_loop rest c1)"

definition refresh :: "nat option \<Rightarrow> (attempt \<times> bool) list \<Rightarrow> clientConn \<Rightarrow> (clientConn \<times> nat option) option" where
  "refresh orig env c =
     (if ccConn c \<noteq> orig then Some (c, ccConn c)
      else refresh_loop env
        (case ccConn c of
           None \<Rightarrow> c
         | Some k \<Rightarrow> CloseAll (ccDeps c) (c\<lparr>ccClosedConns := ccClosedConns c @ [k]\<rparr>)))"

section \<open>Calls\<close>

datatype rpc_code = OK | Canceled | Unknown | InvalidArgument | DeadlineExceeded | NotFound | Unavailable | OtherCode nat

definition isErrTerminal :: "rpc_code \<Rightarrow> bool" where
  "isErrTerminal code \<longleftrightarrow> code = Unavailable \<or> code = Canceled"

text \<open>
  A call of \<^verbatim>\<open>Invoke\<close>: it has read the connection, has a terminal error from it, or has returned the code that a
  connection gave or the cause of its context, which is nil when the context has not ended.
\<close>

datatype result = Code nat rpc_code | Cause bool

datatype call_state = Started | NoConn | Holds nat | Broken nat | Returned result

record rpc_call =
  clIsClose :: bool
  clState :: call_state

inductive invoke_step :: "clientConn \<times> rpc_call list \<Rightarrow> clientConn \<times> rpc_call list \<Rightarrow> bool" where
  start: "invoke_step (c, calls) (c, calls @ [\<lparr>clIsClose = isClose, clState = Started\<rparr>])"
| read: "i < length calls \<Longrightarrow> clState (calls ! i) = Started \<Longrightarrow>
    invoke_step (c, calls) (c, calls[i := (calls ! i)\<lparr>clState := (case ccConn c of None \<Rightarrow> NoConn | Some k \<Rightarrow> Holds k)\<rparr>])"
| answer: "i < length calls \<Longrightarrow> clState (calls ! i) = Holds k \<Longrightarrow> \<not> isErrTerminal code \<or> clIsClose (calls ! i) \<Longrightarrow>
    invoke_step (c, calls) (c, calls[i := (calls ! i)\<lparr>clState := Returned (Code k code)\<rparr>])"
| breaks: "i < length calls \<Longrightarrow> clState (calls ! i) = Holds k \<Longrightarrow> isErrTerminal code \<Longrightarrow> \<not> clIsClose (calls ! i) \<Longrightarrow>
    invoke_step (c, calls) (c, calls[i := (calls ! i)\<lparr>clState := Broken k\<rparr>])"
| refreshes: "i < length calls \<Longrightarrow> clState (calls ! i) = NoConn \<and> orig = None \<or> clState (calls ! i) = Broken k \<and> orig = Some k \<Longrightarrow>
    refresh orig env c = Some (c', r) \<Longrightarrow> (ccConn c = orig \<longrightarrow> ended) \<Longrightarrow>
    invoke_step (c, calls)
      (c', calls[i := (calls ! i)\<lparr>clState := (case r of None \<Rightarrow> Returned (Cause ended) | Some k' \<Rightarrow> Holds k')\<rparr>])"

inductive conn_reachable :: "clientConn \<times> rpc_call list \<Rightarrow> bool" where
  init: "conn_reachable (new_clientConn, [])"
| step: "conn_reachable s \<Longrightarrow> invoke_step s s' \<Longrightarrow> conn_reachable s'"

section \<open>No leaks\<close>

definition conn_inv :: "clientConn \<Rightarrow> bool" where
  "conn_inv c \<longleftrightarrow>
     (\<forall>k < ccDialed c. k \<in> set (ccClosedConns c) \<or> ccConn c = Some k) \<and>
     (\<forall>r < ccGot c. r \<in> set (ccClosedDeps c) \<or> ccConn c \<noteq> None \<and> r \<in> set (ccDeps c)) \<and>
     (\<forall>k. ccConn c = Some k \<longrightarrow> k < ccDialed c) \<and>
     set (ccClosedConns c) \<subseteq> {..<ccDialed c} \<and> set (ccClosedDeps c) \<subseteq> {..<ccGot c} \<and> set (ccDeps c) \<subseteq> {..<ccGot c}"

text \<open>During a refresh everything that was there before is closed.\<close>

definition drained :: "clientConn \<Rightarrow> bool" where
  "drained c \<longleftrightarrow> conn_inv c \<and> (\<forall>k < ccDialed c. k \<in> set (ccClosedConns c)) \<and> (\<forall>r < ccGot c. r \<in> set (ccClosedDeps c))"

lemma try_connect_fails: "drained c \<Longrightarrow> try_connect a c = (False, c') \<Longrightarrow> drained c'"
  by (cases a) (auto simp: drained_def conn_inv_def get_deps_def CloseAll_def)

lemma try_connect_succeeds: "drained c \<Longrightarrow> try_connect a c = (True, c') \<Longrightarrow> conn_inv c' \<and> ccConn c' \<noteq> None"
  by (cases a) (auto simp: drained_def conn_inv_def get_deps_def CloseAll_def not_less [symmetric])

lemma refresh_loop_inv: "drained c \<Longrightarrow> refresh_loop env c = Some (c', r) \<Longrightarrow> conn_inv c' \<and> (r = None \<longrightarrow> drained c') \<and> (r \<noteq> None \<longrightarrow> r = ccConn c')"
proof (induction env arbitrary: c)
  case (Cons x rest)
  obtain a ended where x: "x = (a, ended)" by fastforce
  obtain success c1 where c1: "try_connect a c = (success, c1)" by fastforce
  consider success | "\<not> success" "ended" | "\<not> success" "\<not> ended" by blast
  then show ?case
  proof cases
    case 1
    with x c1 Cons.prems try_connect_succeeds [of c a c1] show ?thesis by auto
  next
    case 2
    with x c1 Cons.prems try_connect_fails [of c a c1] show ?thesis by (auto simp: drained_def)
  next
    case 3
    with x c1 Cons.prems Cons.IH [of c1] try_connect_fails [of c a c1] show ?thesis by simp
  qed
qed simp

lemma close_current_drains:
  "conn_inv c \<Longrightarrow> drained (case ccConn c of None \<Rightarrow> c | Some k \<Rightarrow> CloseAll (ccDeps c) (c\<lparr>ccClosedConns := ccClosedConns c @ [k]\<rparr>))"
  by (auto simp: drained_def conn_inv_def CloseAll_def split: option.splits)

lemma refresh_inv: "conn_inv c \<Longrightarrow> refresh orig env c = Some (c', r) \<Longrightarrow> conn_inv c'"
  using refresh_loop_inv [OF close_current_drains [of c], of env c' r] by (auto simp: refresh_def split: if_splits)

lemma reachable_conn_inv: "conn_reachable s \<Longrightarrow> conn_inv (fst s)"
proof (induction rule: conn_reachable.induct)
  case init
  then show ?case by (simp add: new_clientConn_def conn_inv_def)
next
  case (step s s')
  from step.hyps(2) step.IH show ?case by (cases rule: invoke_step.cases) (auto intro: refresh_inv)
qed

text \<open>A refresh returns as soon as an attempt succeeds or the context has ended after one.\<close>

lemma refresh_returns:
  assumes "i < length env" and "snd (env ! i) \<or> (\<exists>n. fst (env ! i) = Dials n)"
  shows "\<exists>c' r. refresh orig env c = Some (c', r)"
proof -
  have "\<exists>c' r. refresh_loop env c = Some (c', r)" for c
    using assms
  proof (induction env arbitrary: i c)
    case (Cons x env)
    obtain a ended where x: "x = (a, ended)" by fastforce
    show ?case
    proof (cases i)
      case 0
      with Cons.prems x show ?thesis by (cases "try_connect a c") (auto simp: get_deps_def)
    next
      case (Suc j)
      with Cons.prems Cons.IH [of j] x show ?thesis by (auto split: prod.splits)
    qed
  qed simp
  then show ?thesis by (auto simp: refresh_def)
qed

text \<open>
  C18. However calls interleave, fail and are cancelled, at most one connection is open, and it is the one that new
  calls use: every connection that was dialed and is not the current one has been closed, and so has every
  resource that was made for a connection and does not belong to the current one.
\<close>

theorem connections_not_leaked:
  assumes "conn_reachable (c, calls)"
  shows "(\<forall>k < ccDialed c. ccConn c \<noteq> Some k \<longrightarrow> k \<in> set (ccClosedConns c)) \<and>
    (\<forall>r < ccGot c. r \<notin> set (ccClosedDeps c) \<longrightarrow> ccConn c \<noteq> None \<and> r \<in> set (ccDeps c))"
  using reachable_conn_inv [OF assms] by (auto simp: conn_inv_def)

text \<open>The runs below are a list of steps of one call after the other.\<close>

definition holding :: "bool \<Rightarrow> call_state \<Rightarrow> rpc_call" where
  "holding isClose st = \<lparr>clIsClose = isClose, clState = st\<rparr>"

lemma dialed_call:
  "conn_reachable (new_clientConn\<lparr>ccConn := Some 0, ccDeps := [0..<n], ccDialed := 1, ccGot := n\<rparr>, [holding False (Holds 0)])"
proof -
  have "conn_reachable (new_clientConn, [holding False Started])"
    using conn_reachable.step [OF conn_reachable.init invoke_step.start [of new_clientConn "[]" False]] by (simp add: holding_def)
  from conn_reachable.step [OF this invoke_step.read [of 0]]
  have "conn_reachable (new_clientConn, [holding False NoConn])" by (simp add: holding_def new_clientConn_def)
  from conn_reachable.step [OF this invoke_step.refreshes [of 0 _ None 0 "[(Dials n, False)]" _ _ _ True]]
  show ?thesis by (simp add: holding_def new_clientConn_def refresh_def get_deps_def)
qed

theorem connections_not_leaked_witness:
  "let c = new_clientConn\<lparr>ccConn := Some 0, ccDeps := [0, 1], ccDialed := 1, ccGot := 2\<rparr> in
     \<forall>r < ccGot c. r \<notin> set (ccClosedDeps c) \<longrightarrow> ccConn c \<noteq> None \<and> r \<in> set (ccDeps c)"
  using connections_not_leaked [OF dialed_call [of 2]] by (simp add: upt_rec numeral_2_eq_2)

text \<open>
  A call can return no error although no connection answered it: its connection breaks, another call closes that,
  cannot dial a new one and gives up, and the first call finds a connection that differs from its own, namely
  none. The cause of a context that has not ended is nil.
\<close>

lemma silent_success:
  "\<exists>c calls. conn_reachable (c, calls) \<and> clState (calls ! 1) = Returned (Cause False)"
proof -
  let ?c = "new_clientConn\<lparr>ccConn := Some 0, ccDialed := 1\<rparr>"
  have "conn_reachable (?c, [holding False (Holds 0)])" using dialed_call [of 0] by (simp add: new_clientConn_def)
  from conn_reachable.step [OF this invoke_step.start [of _ _ False]]
  have "conn_reachable (?c, [holding False (Holds 0), holding False Started])" by (simp add: holding_def)
  from conn_reachable.step [OF this invoke_step.read [of 1]]
  have "conn_reachable (?c, [holding False (Holds 0), holding False (Holds 0)])" by (simp add: holding_def)
  from conn_reachable.step [OF this invoke_step.breaks [of 0 _ 0 Unavailable]]
  have "conn_reachable (?c, [holding False (Broken 0), holding False (Holds 0)])" by (simp add: holding_def isErrTerminal_def)
  from conn_reachable.step [OF this invoke_step.breaks [of 1 _ 0 Canceled]]
  have "conn_reachable (?c, [holding False (Broken 0), holding False (Broken 0)])" by (simp add: holding_def isErrTerminal_def)
  from conn_reachable.step [OF this invoke_step.refreshes [of 0 _ "Some 0" 0 "[(DialFails 0, True)]" _ _ _ True]]
  obtain c' where "conn_reachable (c', [holding False (Returned (Cause True)), holding False (Broken 0)])" "ccConn c' = None"
    by (simp add: holding_def refresh_def get_deps_def CloseAll_def)
  then have "conn_reachable (c', [holding False (Returned (Cause True)), holding False (Returned (Cause False))])"
    using conn_reachable.step [OF _ invoke_step.refreshes [of 1 "[holding False (Returned (Cause True)), holding False (Broken 0)]"
        "Some 0" 0 "[]" c' c' None False]]
    by (simp add: holding_def refresh_def)
  then show ?thesis by (intro exI conjI) (assumption, simp add: holding_def)
qed

text \<open>
  When no new client can be made, the closed connection stays the current one, and the next refresh closes it and
  its resources again.
\<close>

lemma closed_again:
  assumes "ccConn c = Some k" and "refresh (Some k) [(NewClientFails 0, True)] c = Some (c', r)"
  shows "ccConn c' = Some k \<and> r = None \<and> ccClosedDeps c' = ccClosedDeps c @ ccDeps c \<and> ccDeps c' = ccDeps c"
  using assms by (auto simp: refresh_def get_deps_def CloseAll_def)

section \<open>The plugin service\<close>

text \<open>
  The fields of \<^verbatim>\<open>PluginService\<close>: the client of the process and its protocol, whether the service is available
  (\<^verbatim>\<open>serviceCh\<close> is closed) and the service is the one made from which process, whether it is stopped; and the processes:
  how many were launched and which run.
\<close>

record PluginService =
  psClient :: "nat option"
  psProtocol :: "nat option"
  psAvailable :: bool
  psService :: "nat option"
  psStopped :: bool
  psLaunched :: nat
  psRunning :: "nat set"

definition Init :: PluginService where
  "Init = \<lparr>psClient = None, psProtocol = None, psAvailable = False, psService = None, psStopped = False,
     psLaunched = 0, psRunning = {}\<rparr>"

text \<open>How a launch ends: the client cannot connect, the plugin cannot be dispensed, the service cannot be made.\<close>

datatype launching = ClientFails | DispenseFails | ServiceFails | Launches

definition Kill :: "nat \<Rightarrow> PluginService \<Rightarrow> PluginService" where
  "Kill p s = s\<lparr>psRunning := psRunning s - {p}\<rparr>"

definition closeClient :: "PluginService \<Rightarrow> PluginService" where
  "closeClient s = (case psClient s of None \<Rightarrow> s | Some p \<Rightarrow> Kill p s)"

text \<open>The service is only made once, from the first plugin that is dispensed.\<close>

definition launch :: "launching \<Rightarrow> PluginService \<Rightarrow> PluginService \<times> (nat \<times> nat) option" where
  "launch l s0 =
     (let p = psLaunched s0; s = s0\<lparr>psLaunched := p + 1, psRunning := insert p (psRunning s0)\<rparr>
      in if l = ClientFails then (Kill p s, None)
         else if l = DispenseFails then (Kill p s, None)
         else if psAvailable s then (s, Some (p, p))
         else if l = ServiceFails then (Kill p s, None)
         else (s\<lparr>psService := Some p, psAvailable := True\<rparr>, Some (p, p)))"

definition tryLaunch :: "nat option \<Rightarrow> launching \<Rightarrow> PluginService \<Rightarrow> PluginService" where
  "tryLaunch old l s =
     (if old \<noteq> None \<and> psProtocol s \<noteq> old then s
      else (case launch l (closeClient s) of
              (s', None) \<Rightarrow> s'\<lparr>psClient := None, psProtocol := None\<rparr>
            | (s', Some (c, cp)) \<Rightarrow> s'\<lparr>psClient := Some c, psProtocol := Some cp\<rparr>))"

text \<open>The check of \<^verbatim>\<open>keepAlive\<close>; \<open>ping\<close> is whether the plugin answers.\<close>

definition keepAlive_check :: "bool \<Rightarrow> launching \<Rightarrow> PluginService \<Rightarrow> PluginService" where
  "keepAlive_check ping l s =
     (let cp = psProtocol s
      in case psClient s of
           Some c \<Rightarrow> if c \<in> psRunning s \<and> cp \<noteq> None \<and> ping then s else tryLaunch cp l s
         | None \<Rightarrow> tryLaunch cp l s)"

definition plugin_Ready :: "PluginService \<Rightarrow> string option \<Rightarrow> string option" where
  "plugin_Ready s serviceReady = (if psAvailable s then serviceReady else Some ''plugin unavailable'')"

text \<open>\<^verbatim>\<open>Close\<close> waits for the loop before it closes the service and the client.\<close>

definition plugin_Close :: "PluginService \<Rightarrow> PluginService" where
  "plugin_Close s = closeClient (s\<lparr>psStopped := True\<rparr>)"

text \<open>The hooks for tests.\<close>

definition hook_Kill :: "PluginService \<Rightarrow> PluginService" where
  "hook_Kill s = closeClient s"

definition hook_Reset :: "PluginService \<Rightarrow> PluginService" where
  "hook_Reset s = (closeClient s)\<lparr>psClient := None, psProtocol := None\<rparr>"

inductive plugin_step :: "PluginService \<Rightarrow> PluginService \<Rightarrow> bool" where
  check: "\<not> psStopped s \<Longrightarrow> plugin_step s (keepAlive_check ping l s)"
| exits: "plugin_step s (s\<lparr>psRunning := psRunning s - {p}\<rparr>)"
| kill: "\<not> psStopped s \<Longrightarrow> plugin_step s (hook_Kill s)"
| reset: "\<not> psStopped s \<Longrightarrow> plugin_step s (hook_Reset s)"
| close: "\<not> psStopped s \<Longrightarrow> plugin_step s (plugin_Close s)"

lemmas plugin_defs = keepAlive_check_def tryLaunch_def launch_def closeClient_def Kill_def hook_Kill_def hook_Reset_def plugin_Close_def

definition plugin_inv :: "PluginService \<Rightarrow> bool" where
  "plugin_inv s \<longleftrightarrow> psRunning s \<subseteq> set_option (psClient s) \<and> psProtocol s = psClient s \<and>
     (psStopped s \<longrightarrow> psRunning s = {}) \<and> psAvailable s = (psService s \<noteq> None) \<and> (psClient s \<noteq> None \<longrightarrow> psAvailable s)"

lemma plugin_inv_step: "plugin_step s s' \<Longrightarrow> plugin_inv s \<Longrightarrow> plugin_inv s'"
  by (cases rule: plugin_step.cases, assumption)
    (auto simp: plugin_defs plugin_inv_def Let_def split: option.splits if_splits)

lemma plugin_inv_Init: "plugin_inv Init"
  by (simp add: plugin_inv_def Init_def)

lemma plugin_service_step: "plugin_step s s' \<Longrightarrow> psAvailable s \<Longrightarrow> psAvailable s' \<and> psService s' = psService s"
  by (cases rule: plugin_step.cases, assumption)
    (auto simp: plugin_defs Let_def split: option.splits if_splits)

lemma check_relaunches:
  "plugin_inv s \<Longrightarrow> (let s' = keepAlive_check ping Launches s in
     psAvailable s' \<and> psClient s' \<noteq> None \<and> psRunning s' = set_option (psClient s'))"
  by (auto simp: plugin_defs plugin_inv_def Let_def split: option.splits)

text \<open>
  C20. In every state that launches, pings, exits, resets and a close lead to, at most one process of the plugin
  runs, and it is the one the service holds; after the close none does. The service that was made first stays
  the service through every relaunch. A check of the plugin leaves it running and available, whether it was alive,
  did not answer or had exited, provided that it can be launched.
\<close>

theorem plugin_single_process:
  assumes "plugin_step\<^sup>*\<^sup>* Init s"
  shows "psRunning s \<subseteq> set_option (psClient s) \<and> (psStopped s \<longrightarrow> psRunning s = {}) \<and>
    (\<forall>s'. plugin_step\<^sup>*\<^sup>* s s' \<longrightarrow> psAvailable s \<longrightarrow> psAvailable s' \<and> psService s' = psService s) \<and>
    (let s' = keepAlive_check ping Launches s in psAvailable s' \<and> psClient s' \<noteq> None \<and> psRunning s' = set_option (psClient s'))"
proof -
  have inv: "plugin_inv s" using assms
    by (induction rule: rtranclp_induct) (auto intro: plugin_inv_step plugin_inv_Init)
  moreover have "psAvailable s' \<and> psService s' = psService s" if "plugin_step\<^sup>*\<^sup>* s s'" "psAvailable s" for s'
    using that by (induction rule: rtranclp_induct) (auto dest: plugin_service_step)
  ultimately show ?thesis using check_relaunches [OF inv, of ping] unfolding plugin_inv_def Let_def by blast
qed

theorem plugin_single_process_witness:
  "psRunning (keepAlive_check True Launches Init) \<subseteq> set_option (psClient (keepAlive_check True Launches Init)) \<and>
     psRunning (keepAlive_check True Launches Init) = {0}"
proof -
  have "plugin_step\<^sup>*\<^sup>* Init (keepAlive_check True Launches Init)"
    by (intro r_into_rtranclp plugin_step.check) (simp add: Init_def)
  from plugin_single_process [OF this] show ?thesis
    by (auto simp: plugin_defs Init_def Let_def)
qed

end
