(* ===== verification/Query.thy ===== *)
theory Query
  imports Values
begin

text \<open>
  Queries of contract data (\<^verbatim>\<open>pkg/types/query\<close>): filters of nested boolean expressions over primitives,
  their constructors, limits and sorting. The meaning of an expression, which the chain-specific
  implementations of \<^verbatim>\<open>Visitor\<close> give it, is a valuation of the primitives; boolean expressions are
  conjunctions and disjunctions.

  A Go \<^verbatim>\<open>int\<close> is a 64-bit word. An object of dynamic type \<^verbatim>\<open>any\<close> is of the type \<open>'v\<close>.
\<close>

type_synonym goint = "64 word"

section \<open>Primitives\<close>

definition Eq :: goint where "Eq = 0"
definition Neq :: goint where "Neq = 1"
definition Gt :: goint where "Gt = 2"
definition Lt :: goint where "Lt = 3"
definition Gte :: goint where "Gte = 4"
definition Lte :: goint where "Lte = 5"

record 'v ValueComparator =
  vcValue :: 'v
  vcOperator :: goint

definition Finalized :: string where "Finalized = ''finalized''"
definition Unconfirmed :: string where "Unconfirmed = ''unconfirmed''"

text \<open>\<^verbatim>\<open>Primitive\<close> is an interface: \<open>POther\<close> is an implementation that is not of this package.\<close>

datatype 'v Primitive =
    PComparator string "'v ValueComparator list"
  | PBlock string goint
  | PConfidence string
  | PTimestamp "64 word" goint
  | PTxHash string
  | POther

datatype query_error =
    InvalidConfidenceLevel string | TooFewExpressions

definition ConfidenceLevelFromString :: "string \<Rightarrow> (query_error, string) go" where
  "ConfidenceLevelFromString v =
     (if v = ''finalized'' then Ok Finalized
      else if v = ''unconfirmed'' then Ok Unconfirmed
      else Err (InvalidConfidenceLevel v))"

section \<open>Expressions\<close>

definition op_AND :: goint where "op_AND = 0"
definition op_OR :: goint where "op_OR = 1"

text \<open>An \<^verbatim>\<open>Expression\<close> has both a primitive, which may be nil, and a boolean expression.\<close>

datatype 'v Expression =
  Expression (ePrimitive: "'v Primitive option") (eExpressions: "'v Expression list") (eBoolOperator: goint)

definition IsPrimitive :: "'v Expression \<Rightarrow> bool" where
  "IsPrimitive expr \<longleftrightarrow> ePrimitive expr \<noteq> None"

definition prim :: "'v Primitive \<Rightarrow> 'v Expression" where
  "prim p = Expression (Some p) [] 0"

definition Comparator :: "string \<Rightarrow> 'v ValueComparator list \<Rightarrow> 'v Expression" where
  "Comparator name valueComparators = prim (PComparator name valueComparators)"

definition Block :: "string \<Rightarrow> goint \<Rightarrow> 'v Expression" where
  "Block block operator = prim (PBlock block operator)"

definition Confidence :: "string \<Rightarrow> 'v Expression" where
  "Confidence confLevel = prim (PConfidence confLevel)"

definition Timestamp :: "64 word \<Rightarrow> goint \<Rightarrow> 'v Expression" where
  "Timestamp ts operator = prim (PTimestamp ts operator)"

definition TxHash :: "string \<Rightarrow> 'v Expression" where
  "TxHash txHash = prim (PTxHash txHash)"

definition And :: "'v Expression list \<Rightarrow> 'v Expression" where
  "And expressions = (case expressions of [e] \<Rightarrow> e | _ \<Rightarrow> Expression None expressions op_AND)"

definition Or :: "'v Expression list \<Rightarrow> 'v Expression" where
  "Or expressions = (case expressions of [e] \<Rightarrow> e | _ \<Rightarrow> Expression None expressions op_OR)"

record 'v KeyFilter =
  kfKey :: string
  kfExpressions :: "'v Expression list"

fun where_check :: "'v Expression list \<Rightarrow> bool" where
  "where_check [] \<longleftrightarrow> True"
| "where_check (e # es) \<longleftrightarrow> (if \<not> IsPrimitive e \<and> length (eExpressions e) < 2 then False else where_check es)"

definition Where :: "string \<Rightarrow> 'v Expression list \<Rightarrow> (query_error, 'v KeyFilter) go" where
  "Where k expressions =
     (if where_check expressions then Ok \<lparr>kfKey = k, kfExpressions = expressions\<rparr> else Err TooFewExpressions)"

section \<open>Limits and sorting\<close>

definition Asc :: goint where "Asc = 0"
definition Desc :: goint where "Desc = 1"

datatype SortBy = SortByTimestamp goint | SortByBlock goint | SortBySequence goint | SortByOther goint

fun GetDirection :: "SortBy \<Rightarrow> goint" where
  "GetDirection (SortByTimestamp d) = d"
| "GetDirection (SortByBlock d) = d"
| "GetDirection (SortBySequence d) = d"
| "GetDirection (SortByOther d) = d"

definition CursorPrevious :: "32 word" where "CursorPrevious = 1"
definition CursorFollowing :: "32 word" where "CursorFollowing = 2"

record Limit =
  lmCursor :: string
  lmCursorDirection :: "32 word"
  lmCount :: "64 word"

definition CursorLimit :: "string \<Rightarrow> 32 word \<Rightarrow> 64 word \<Rightarrow> Limit" where
  "CursorLimit cursor cursorDirection n = \<lparr>lmCursor = cursor, lmCursorDirection = cursorDirection, lmCount = n\<rparr>"

definition CountLimit :: "64 word \<Rightarrow> Limit" where
  "CountLimit n = \<lparr>lmCursor = [], lmCursorDirection = 0, lmCount = n\<rparr>"

record LimitAndSort =
  lsSortBy :: "SortBy list"
  lsLimit :: Limit

definition NewLimitAndSort :: "Limit \<Rightarrow> SortBy list \<Rightarrow> LimitAndSort" where
  "NewLimitAndSort limit sortBy = \<lparr>lsSortBy = sortBy, lsLimit = limit\<rparr>"

definition HasCursorLimit :: "LimitAndSort \<Rightarrow> bool" where
  "HasCursorLimit p \<longleftrightarrow> lmCursor (lsLimit p) \<noteq> [] \<and> lmCursorDirection (lsLimit p) \<noteq> 0"

fun has_sequence_sort :: "SortBy list \<Rightarrow> bool" where
  "has_sequence_sort [] \<longleftrightarrow> False"
| "has_sequence_sort (SortBySequence _ # _) \<longleftrightarrow> True"
| "has_sequence_sort (_ # rest) \<longleftrightarrow> has_sequence_sort rest"

definition HasSequenceSort :: "LimitAndSort \<Rightarrow> bool" where
  "HasSequenceSort p = has_sequence_sort (lsSortBy p)"

section \<open>Ready-made filters\<close>

text \<open>The values are strings, of which \<open>str\<close> makes objects.\<close>

definition valueComparator :: "(string \<Rightarrow> 'v) \<Rightarrow> string \<Rightarrow> string \<Rightarrow> goint \<Rightarrow> 'v Expression" where
  "valueComparator str comparatorName v operator = Comparator comparatorName [\<lparr>vcValue = str v, vcOperator = operator\<rparr>]"

definition filtersForValues :: "(string \<Rightarrow> 'v) \<Rightarrow> string \<Rightarrow> string list \<Rightarrow> 'v Expression" where
  "filtersForValues str comparatorName vs =
     Expression None (map (\<lambda>v. valueComparator str comparatorName v Eq) vs) op_OR"

definition IndexedSequencesKeyFilter ::
    "(string \<Rightarrow> 'v) \<Rightarrow> string \<Rightarrow> string \<Rightarrow> string list \<Rightarrow> string \<Rightarrow> 'v KeyFilter" where
  "IndexedSequencesKeyFilter str readName comparatorName vs confidence =
     \<lparr>kfKey = readName, kfExpressions = [filtersForValues str comparatorName vs, Confidence confidence]\<rparr>"

definition IndexedSequencesByBlockRangeKeyFilter ::
    "(string \<Rightarrow> 'v) \<Rightarrow> string \<Rightarrow> string \<Rightarrow> string \<Rightarrow> string \<Rightarrow> string list \<Rightarrow> 'v KeyFilter" where
  "IndexedSequencesByBlockRangeKeyFilter str readName start stop comparatorName vs =
     \<lparr>kfKey = readName, kfExpressions = [filtersForValues str comparatorName vs, Block start Gte, Block stop Lte]\<rparr>"

definition IndexedSequencesValueGreaterThanKeyFilter ::
    "(string \<Rightarrow> 'v) \<Rightarrow> string \<Rightarrow> string \<Rightarrow> string \<Rightarrow> string \<Rightarrow> 'v KeyFilter" where
  "IndexedSequencesValueGreaterThanKeyFilter str readName comparatorName v confidence =
     \<lparr>kfKey = readName, kfExpressions = [valueComparator str comparatorName v Gte, Confidence confidence]\<rparr>"

definition IndexedSequencesValueRangeKeyFilter ::
    "(string \<Rightarrow> 'v) \<Rightarrow> string \<Rightarrow> string \<Rightarrow> string \<Rightarrow> string \<Rightarrow> string \<Rightarrow> 'v KeyFilter" where
  "IndexedSequencesValueRangeKeyFilter str readName comparatorName lo hi confidence =
     \<lparr>kfKey = readName, kfExpressions = [valueComparator str comparatorName lo Gte,
        valueComparator str comparatorName hi Lte, Confidence confidence]\<rparr>"

definition IndexedSequencesByTxHashKeyFilter :: "string \<Rightarrow> string \<Rightarrow> 'v KeyFilter" where
  "IndexedSequencesByTxHashKeyFilter readName txHash = \<lparr>kfKey = readName, kfExpressions = [TxHash txHash]\<rparr>"

definition SequencesByBlockRangeKeyFilter :: "string \<Rightarrow> string \<Rightarrow> string \<Rightarrow> 'v KeyFilter" where
  "SequencesByBlockRangeKeyFilter readName start stop =
     \<lparr>kfKey = readName, kfExpressions = [Block start Gte, Block stop Lte]\<rparr>"

text \<open>The time as its Unix seconds, an \<^verbatim>\<open>int64\<close> that is read as a \<^verbatim>\<open>uint64\<close>.\<close>

definition SequencesCreatedAfterKeyFilter :: "string \<Rightarrow> int \<Rightarrow> string \<Rightarrow> 'v KeyFilter" where
  "SequencesCreatedAfterKeyFilter readName unix confidence =
     \<lparr>kfKey = readName, kfExpressions = [Timestamp (word_of_int unix) Gt, Confidence confidence]\<rparr>"

definition IndexedSequencesCreatedAfterKeyFilter ::
    "(string \<Rightarrow> 'v) \<Rightarrow> string \<Rightarrow> string \<Rightarrow> string list \<Rightarrow> int \<Rightarrow> string \<Rightarrow> 'v KeyFilter" where
  "IndexedSequencesCreatedAfterKeyFilter str readName comparatorName vs unix confidence =
     \<lparr>kfKey = readName, kfExpressions = [filtersForValues str comparatorName vs,
        Timestamp (word_of_int unix) Gt, Confidence confidence]\<rparr>"

section \<open>What a filter means\<close>

fun expr_holds :: "('v Primitive \<Rightarrow> bool) \<Rightarrow> 'v Expression \<Rightarrow> bool" where
  "expr_holds V (Expression (Some p) es operator) \<longleftrightarrow> V p"
| "expr_holds V (Expression None es operator) \<longleftrightarrow>
     (if operator = op_AND then \<forall>e \<in> set es. expr_holds V e else \<exists>e \<in> set es. expr_holds V e)"

definition filter_holds :: "('v Primitive \<Rightarrow> bool) \<Rightarrow> 'v KeyFilter \<Rightarrow> bool" where
  "filter_holds V f \<longleftrightarrow> (\<forall>e \<in> set (kfExpressions f). expr_holds V e)"

named_theorems query_simps \<open>what expressions mean\<close>

lemma expr_holds_prim [simp, query_simps]: "expr_holds V (prim p) = V p"
  by (simp add: prim_def)

lemma expr_holds_And [simp, query_simps]: "expr_holds V (And es) \<longleftrightarrow> (\<forall>e \<in> set es. expr_holds V e)"
  by (auto simp: And_def op_AND_def split: list.splits)

lemma expr_holds_Or [simp, query_simps]: "expr_holds V (Or es) \<longleftrightarrow> (\<exists>e \<in> set es. expr_holds V e)"
  by (auto simp: Or_def op_AND_def op_OR_def split: list.splits)

lemmas primitive_defs = Comparator_def Block_def Confidence_def Timestamp_def TxHash_def

lemma filtersForValues_holds [simp, query_simps]:
  "expr_holds V (filtersForValues str name vs) \<longleftrightarrow> (\<exists>v \<in> set vs. V (PComparator name [\<lparr>vcValue = str v, vcOperator = Eq\<rparr>]))"
  by (simp add: filtersForValues_def valueComparator_def Comparator_def op_AND_def op_OR_def)

text \<open>
  The ready-made filters mean what they are named after: the values are alternatives, the rest are
  conditions on top.
\<close>

lemma ready_made_filters:
  "filter_holds V (IndexedSequencesCreatedAfterKeyFilter str key name vs unix conf) \<longleftrightarrow>
     (\<exists>v \<in> set vs. V (PComparator name [\<lparr>vcValue = str v, vcOperator = Eq\<rparr>])) \<and>
     V (PTimestamp (word_of_int unix) Gt) \<and> V (PConfidence conf)"
  "filter_holds V (IndexedSequencesByBlockRangeKeyFilter str key b e name vs) \<longleftrightarrow>
     (\<exists>v \<in> set vs. V (PComparator name [\<lparr>vcValue = str v, vcOperator = Eq\<rparr>])) \<and> V (PBlock b Gte) \<and> V (PBlock e Lte)"
  "filter_holds V (IndexedSequencesKeyFilter str key name vs conf) \<longleftrightarrow>
     (\<exists>v \<in> set vs. V (PComparator name [\<lparr>vcValue = str v, vcOperator = Eq\<rparr>])) \<and> V (PConfidence conf)"
  by (simp_all add: filter_holds_def IndexedSequencesCreatedAfterKeyFilter_def IndexedSequencesByBlockRangeKeyFilter_def
      IndexedSequencesKeyFilter_def primitive_defs conj_commute)

text \<open>
  A boolean expression with fewer than two operands gets through: below the top level nothing checks it, and
  the ready-made filters make one of every list with fewer than two values.
\<close>

lemma short_expressions_accepted:
  "Where k [Expression None [Expression None [] op_OR, prim p] op_AND] =
     Ok \<lparr>kfKey = k, kfExpressions = [Expression None [Expression None [] op_OR, prim p] op_AND]\<rparr>"
  "\<not> filter_holds V (IndexedSequencesKeyFilter str key name [] conf)"
  by (simp_all add: Where_def IsPrimitive_def filter_holds_def IndexedSequencesKeyFilter_def)

end
