(* ===== verification/ContractReader.thy ===== *)
theory ContractReader
  imports Query
begin

text \<open>
  The contract reader over the process boundary
  (\<^verbatim>\<open>pkg/loop/internal/relayer/pluginprovider/contractreader/contract_reader.go\<close>): a client that turns the calls of
  \<^verbatim>\<open>types.ContractReader\<close> into messages, and a server that turns messages into calls of an implementation.

  Objects of dynamic type are of the type \<open>'v\<close>; a function that decodes into an object takes the object
  before and gives the object after. The encoding packages (JSON, CBOR, protobuf) and reflection are the record
  \<open>codec_lib\<close>. gRPC carries messages unchanged: the client takes the server's method as an argument.
  The options of the CBOR package are constants that it accepts.
\<close>

section \<open>Versioned bytes\<close>

type_synonym enum32 = "32 word"
type_synonym EncodingVersion = "32 word"

definition JSONEncodingVersion1 :: EncodingVersion where "JSONEncodingVersion1 = 0"
definition JSONEncodingVersion2 :: EncodingVersion where "JSONEncodingVersion2 = 1"
definition CBOREncodingVersion :: EncodingVersion where "CBOREncodingVersion = 2"
definition ValuesEncodingVersion :: EncodingVersion where "ValuesEncodingVersion = 3"
definition DefaultEncodingVersion :: EncodingVersion where "DefaultEncodingVersion = CBOREncodingVersion"

lemmas version_defs = JSONEncodingVersion1_def JSONEncodingVersion2_def CBOREncodingVersion_def ValuesEncodingVersion_def

record VersionedBytes =
  vbVersion :: "32 word"
  vbData :: bytes

text \<open>Types as reflection sees them, as far as the code looks.\<close>

datatype 'b gotype = NilType | Pointer "'b gotype" | Base 'b

record ('v, 'd, 'b) codec_lib =
  cJSONMarshal :: "'v \<Rightarrow> bytes option"
  cJSONDecode :: "'v \<Rightarrow> bytes \<Rightarrow> 'v option"
  cJSON2Marshal :: "'v \<Rightarrow> bytes option"
  cJSON2Unmarshal :: "'v \<Rightarrow> bytes \<Rightarrow> 'v option"
  cCBORMarshal :: "'v \<Rightarrow> bytes option"
  cCBORUnmarshal :: "'v \<Rightarrow> bytes \<Rightarrow> 'v option"
  cAny :: "'v \<Rightarrow> 'd any"
  cMarshalValue :: "pbValue \<Rightarrow> bytes option"
  cUnmarshalValue :: "bytes \<Rightarrow> pbValue option"
  cIsValuePtr :: "'v \<Rightarrow> bool"
  cSetValue :: "'d Value \<Rightarrow> 'v"
  cUnwrapTo :: "'d Value \<Rightarrow> 'v \<Rightarrow> 'v option"
  cValues :: "'d vlib"
  cTypeOf :: "'v \<Rightarrow> 'b gotype"
  cNew :: "'b gotype \<Rightarrow> 'v"
  cIndirect :: "'v \<Rightarrow> 'v"
  cEmptyMap :: 'v
  cNil :: 'v

datatype reader_error =
    InvalidType | InvalidEncoding "32 word" | NilVersionedBytes | UnsupportedVersion "32 word"
  | UnknownPrimitive | UnknownExpression | InvalidConfidence string | InvalidPbConfidence enum32
  | UnknownSortBy | CursorMismatch | MissingVersion string | PointerToPointer
  | UnexpectedContract | LengthMismatch | NoContractType string | ImplError string | RPC reader_error

definition marshalled :: "32 word \<Rightarrow> bytes option \<Rightarrow> (reader_error, VersionedBytes) go" where
  "marshalled version b = (case b of None \<Rightarrow> Err InvalidType | Some bs \<Rightarrow> Ok \<lparr>vbVersion = version, vbData = bs\<rparr>)"

definition EncodeVersionedBytes ::
    "('v, 'd, 'b) codec_lib \<Rightarrow> 'v \<Rightarrow> EncodingVersion \<Rightarrow> (reader_error, VersionedBytes) go" where
  "EncodeVersionedBytes C data version =
     (if version = JSONEncodingVersion1 then marshalled version (cJSONMarshal C data)
      else if version = JSONEncodingVersion2 then marshalled version (cJSON2Marshal C data)
      else if version = CBOREncodingVersion then marshalled version (cCBORMarshal C data)
      else if version = ValuesEncodingVersion then
        (case Wrap (cAny C data) of
           Ok val \<Rightarrow> marshalled version (cMarshalValue C (Proto (cValues C) val))
         | Err _ \<Rightarrow> Err InvalidType
         | Panic \<Rightarrow> Panic)
      else Err (InvalidEncoding version))"

definition unmarshalled :: "'v option \<Rightarrow> (reader_error, 'v) go" where
  "unmarshalled r = (case r of None \<Rightarrow> Err InvalidType | Some v \<Rightarrow> Ok v)"

text \<open>\<^verbatim>\<open>value.UnwrapTo(res)\<close> is a method call on a nil interface when the value is nil.\<close>

definition DecodeVersionedBytes ::
    "('v, 'd, 'b) codec_lib \<Rightarrow> 'v \<Rightarrow> VersionedBytes option \<Rightarrow> (reader_error, 'v) go" where
  "DecodeVersionedBytes C res vData =
     (case vData of
        None \<Rightarrow> Err NilVersionedBytes
      | Some vd \<Rightarrow>
          if vbVersion vd = JSONEncodingVersion1 then unmarshalled (cJSONDecode C res (vbData vd))
          else if vbVersion vd = JSONEncodingVersion2 then unmarshalled (cJSON2Unmarshal C res (vbData vd))
          else if vbVersion vd = CBOREncodingVersion then unmarshalled (cCBORUnmarshal C res (vbData vd))
          else if vbVersion vd = ValuesEncodingVersion then
            (case cUnmarshalValue C (vbData vd) of
               None \<Rightarrow> Err InvalidType
             | Some protoValue \<Rightarrow>
                 (let val = FromProto (cValues C) protoValue
                  in if cIsValuePtr C res then Ok (cSetValue C val)
                     else if val = VNil then Panic
                     else unmarshalled (cUnwrapTo C val res)))
          else Err (UnsupportedVersion (vbVersion vd)))"

section \<open>The interface and its messages\<close>

record BoundContract =
  bcAddress :: string
  bcName :: string

definition ReadIdentifier :: "BoundContract \<Rightarrow> string \<Rightarrow> string" where
  "ReadIdentifier bc readName = bcAddress bc @ ''-'' @ bcName bc @ ''-'' @ readName"

record Head =
  hdHeight :: string
  hdHash :: bytes
  hdTimestamp :: "64 word"

record 'v Sequence =
  sqCursor :: string
  sqHead :: Head
  sqData :: 'v

record 'v ContractKeyFilter =
  ckKeyFilter :: "'v KeyFilter"
  ckContract :: BoundContract
  ckSequenceDataType :: 'v

record 'v BatchRead =
  brReadName :: string
  brParams :: 'v
  brReturnVal :: 'v

record 'v BatchReadResult =
  rrReadName :: string
  rrReturnValue :: 'v
  rrErr :: "string option"

definition GetResult :: "'v BatchReadResult \<Rightarrow> 'v \<times> string option" where
  "GetResult brr = (if rrErr brr \<noteq> None then (rrReturnValue brr, rrErr brr) else (rrReturnValue brr, None))"

definition SetResult :: "'v \<Rightarrow> string option \<Rightarrow> 'v BatchReadResult \<Rightarrow> 'v BatchReadResult" where
  "SetResult returnValue err brr = brr\<lparr>rrReturnValue := returnValue, rrErr := err\<rparr>"

text \<open>An implementation: each call gives an error or an answer.\<close>

record 'v ContractReader =
  crCreateContractType :: "(string \<Rightarrow> bool \<Rightarrow> 'v option) option"
  crGetLatestValue :: "string \<Rightarrow> string \<Rightarrow> 'v \<Rightarrow> 'v \<Rightarrow> string + 'v"
  crGetLatestValueWithHeadData :: "string \<Rightarrow> string \<Rightarrow> 'v \<Rightarrow> 'v \<Rightarrow> string + ('v \<times> Head option)"
  crBatchGetLatestValues :: "(BoundContract, 'v BatchRead list) gomap \<Rightarrow> string + (BoundContract, 'v BatchReadResult list) gomap"
  crQueryKey :: "BoundContract \<Rightarrow> 'v KeyFilter \<Rightarrow> LimitAndSort \<Rightarrow> 'v \<Rightarrow> string + 'v Sequence list"
  crQueryKeys :: "'v ContractKeyFilter list \<Rightarrow> LimitAndSort \<Rightarrow> string + (string \<times> 'v Sequence) list"

datatype pbPrimitive =
    PbComparator string "(VersionedBytes option \<times> enum32) list"
  | PbBlock string enum32
  | PbConfidence enum32
  | PbTimestamp "64 word" enum32
  | PbTxHash string

datatype pbExpression =
    PbNoEvaluator
  | PbBool enum32 "pbExpression list"
  | PbPrim "pbPrimitive option"

record pbQueryKeyFilter =
  pfKey :: string
  pfExpression :: "pbExpression list"

record pbSortBy =
  psSortType :: enum32
  psDirection :: enum32

record pbLimit =
  plCursor :: "string option"
  plDirection :: "enum32 option"
  plCount :: "64 word"

record pbLimitAndSort =
  paSortBy :: "pbSortBy list"
  paLimit :: "pbLimit option"

record pbSequence =
  pqCursor :: string
  pqHead :: "Head option"
  pqData :: "VersionedBytes option"

record GetLatestValueRequest =
  glReadIdentifier :: string
  glConfidence :: enum32
  glParams :: "VersionedBytes option"
  glAsValueType :: bool

record QueryKeyRequest =
  qkContract :: "BoundContract option"
  qkFilter :: "pbQueryKeyFilter option"
  qkLimitAndSort :: "pbLimitAndSort option"
  qkAsValueType :: bool

record pbContractKeyFilter =
  pkContract :: "BoundContract option"
  pkFilter :: "pbQueryKeyFilter option"
  pkAsValueType :: bool

record pbBatchRead =
  pbReadName :: string
  pbParams :: "VersionedBytes option"

record pbContractBatch =
  pcContract :: "BoundContract option"
  pcReads :: "pbBatchRead list"

record pbBatchReadResult =
  ptReadName :: string
  ptReturnVal :: "VersionedBytes option"
  ptError :: string

record pbContractBatchResult =
  pzContract :: "BoundContract option"
  pzResults :: "pbBatchReadResult list"

section \<open>Conversions\<close>

definition confidenceToProto :: "string \<Rightarrow> (reader_error, enum32) go" where
  "confidenceToProto c =
     (if c = Finalized then Ok 1 else if c = Unconfirmed then Ok 0 else Err (InvalidConfidence c))"

definition confidenceFromProto :: "enum32 \<Rightarrow> (reader_error, string) go" where
  "confidenceFromProto p =
     (if p = 1 then Ok Finalized else if p = 0 then Ok Unconfirmed else Err (InvalidPbConfidence p))"

text \<open>A conversion between a Go \<^verbatim>\<open>int\<close> and an enumeration of the wire keeps the low 32 bits.\<close>

definition to_enum :: "goint \<Rightarrow> enum32" where "to_enum n = scast n"
definition of_enum :: "enum32 \<Rightarrow> goint" where "of_enum n = scast n"

fun primitive_to_proto ::
    "('v, 'd, 'b) codec_lib \<Rightarrow> EncodingVersion \<Rightarrow> 'v Primitive \<Rightarrow> (reader_error, pbPrimitive) go" where
  "primitive_to_proto C encodeWith (PComparator name vcs) =
     go_map (PbComparator name)
       (go_mapM (\<lambda>vc. go_map (\<lambda>v. (Some v, to_enum (vcOperator vc))) (EncodeVersionedBytes C (vcValue vc) encodeWith)) vcs)"
| "primitive_to_proto C encodeWith (PBlock b operator) = Ok (PbBlock b (to_enum operator))"
| "primitive_to_proto C encodeWith (PConfidence c) = go_map PbConfidence (confidenceToProto c)"
| "primitive_to_proto C encodeWith (PTimestamp t operator) = Ok (PbTimestamp t (to_enum operator))"
| "primitive_to_proto C encodeWith (PTxHash h) = Ok (PbTxHash h)"
| "primitive_to_proto C encodeWith POther = Err UnknownPrimitive"

primrec convertExpressionToProto ::
    "('v, 'd, 'b) codec_lib \<Rightarrow> EncodingVersion \<Rightarrow> 'v Expression \<Rightarrow> (reader_error, pbExpression) go" where
  "convertExpressionToProto C encodeWith (Expression p es operator) =
     (case p of
        Some pr \<Rightarrow> go_map (\<lambda>q. PbPrim (Some q)) (primitive_to_proto C encodeWith pr)
      | None \<Rightarrow> go_map (PbBool (to_enum operator)) (go_mapM (\<lambda>r. r) (map (convertExpressionToProto C encodeWith) es)))"

definition convertQueryFilterToProto ::
    "('v, 'd, 'b) codec_lib \<Rightarrow> EncodingVersion \<Rightarrow> 'v KeyFilter \<Rightarrow> (reader_error, pbQueryKeyFilter) go" where
  "convertQueryFilterToProto C encodeWith flt =
     go_map (\<lambda>es. \<lparr>pfKey = kfKey flt, pfExpression = es\<rparr>)
       (go_mapM (convertExpressionToProto C encodeWith) (kfExpressions flt))"

definition getContractEncodedType ::
    "('v, 'd, 'b) codec_lib \<Rightarrow> 'v ContractReader \<Rightarrow> string \<Rightarrow> bool \<Rightarrow> (reader_error, 'v) go" where
  "getContractEncodedType C impl readIdentifier forEncoding =
     (case crCreateContractType impl of
        None \<Rightarrow> Ok (cEmptyMap C)
      | Some create \<Rightarrow>
          (case create readIdentifier forEncoding of
             None \<Rightarrow> Err (NoContractType readIdentifier)
           | Some v \<Rightarrow> Ok v))"

fun primitive_from_proto ::
    "('v, 'd, 'b) codec_lib \<Rightarrow> 'v ContractReader \<Rightarrow> BoundContract \<Rightarrow> string \<Rightarrow> pbPrimitive \<Rightarrow> (reader_error, 'v Expression) go" where
  "primitive_from_proto C impl bound k (PbComparator name vcs) =
     go_map (Comparator name)
       (go_mapM (\<lambda>(v, operator).
          go_bind (getContractEncodedType C impl (ReadIdentifier bound (k @ ''.'' @ name)) True) (\<lambda>val.
          go_map (\<lambda>val'. \<lparr>vcValue = val', vcOperator = of_enum operator\<rparr>) (DecodeVersionedBytes C val v))) vcs)"
| "primitive_from_proto C impl bound k (PbConfidence c) = go_map Confidence (confidenceFromProto c)"
| "primitive_from_proto C impl bound k (PbBlock b operator) = Ok (Block b (of_enum operator))"
| "primitive_from_proto C impl bound k (PbTxHash h) = Ok (TxHash h)"
| "primitive_from_proto C impl bound k (PbTimestamp t operator) = Ok (Timestamp t (of_enum operator))"

primrec convertExpressionFromProto ::
    "('v, 'd, 'b) codec_lib \<Rightarrow> 'v ContractReader \<Rightarrow> BoundContract \<Rightarrow> string \<Rightarrow> pbExpression \<Rightarrow> (reader_error, 'v Expression) go" where
  "convertExpressionFromProto C impl bound k PbNoEvaluator = Err UnknownExpression"
| "convertExpressionFromProto C impl bound k (PbBool operator es) =
     go_map (if operator = 0 then And else Or)
       (go_mapM (\<lambda>r. r) (map (convertExpressionFromProto C impl bound k) es))"
| "convertExpressionFromProto C impl bound k (PbPrim p) =
     (case p of None \<Rightarrow> Err UnknownPrimitive | Some pr \<Rightarrow> primitive_from_proto C impl bound k pr)"

text \<open>The receiver dereferences the filter, a message that may be absent.\<close>

definition convertQueryFiltersFromProto ::
    "('v, 'd, 'b) codec_lib \<Rightarrow> 'v ContractReader \<Rightarrow> BoundContract \<Rightarrow> pbQueryKeyFilter option \<Rightarrow> (reader_error, 'v KeyFilter) go" where
  "convertQueryFiltersFromProto C impl bound pf =
     (case pf of
        None \<Rightarrow> Panic
      | Some f \<Rightarrow>
          go_map (\<lambda>es. \<lparr>kfKey = pfKey f, kfExpressions = es\<rparr>)
            (go_mapM (convertExpressionFromProto C impl bound (pfKey f)) (pfExpression f)))"

fun sort_to_proto :: "SortBy \<Rightarrow> (reader_error, pbSortBy) go" where
  "sort_to_proto (SortByBlock d) = Ok \<lparr>psSortType = 1, psDirection = to_enum d\<rparr>"
| "sort_to_proto (SortByTimestamp d) = Ok \<lparr>psSortType = 0, psDirection = to_enum d\<rparr>"
| "sort_to_proto (SortBySequence d) = Ok \<lparr>psSortType = 2, psDirection = to_enum d\<rparr>"
| "sort_to_proto (SortByOther d) = Err UnknownSortBy"

definition convertLimitAndSortToProto :: "LimitAndSort \<Rightarrow> (reader_error, pbLimitAndSort) go" where
  "convertLimitAndSortToProto ls =
     go_bind (go_mapM sort_to_proto (lsSortBy ls)) (\<lambda>sortByArr.
       (let cursorDefined = lmCursor (lsLimit ls) \<noteq> [];
            cursorDirectionDefined = lmCursorDirection (lsLimit ls) \<noteq> 0;
            limit = \<lparr>plCursor = None, plDirection = None, plCount = lmCount (lsLimit ls)\<rparr>
        in if HasCursorLimit ls
           then Ok \<lparr>paSortBy = sortByArr, paLimit = Some (limit\<lparr>plCursor := Some (lmCursor (lsLimit ls)),
                  plDirection := Some (lmCursorDirection (lsLimit ls))\<rparr>)\<rparr>
           else if (\<not> cursorDefined \<and> cursorDirectionDefined) \<or> (cursorDefined \<and> \<not> cursorDirectionDefined)
           then Err CursorMismatch
           else Ok \<lparr>paSortBy = sortByArr, paLimit = Some limit\<rparr>))"

definition sort_from_proto :: "pbSortBy \<Rightarrow> (reader_error, SortBy) go" where
  "sort_from_proto s =
     (if psSortType s = 0 then Ok (SortByTimestamp (of_enum (psDirection s)))
      else if psSortType s = 1 then Ok (SortByBlock (of_enum (psDirection s)))
      else if psSortType s = 2 then Ok (SortBySequence (of_enum (psDirection s)))
      else Err UnknownSortBy)"

text \<open>Both the message and its limit are dereferenced.\<close>

definition convertLimitAndSortFromProto :: "pbLimitAndSort option \<Rightarrow> (reader_error, LimitAndSort) go" where
  "convertLimitAndSortFromProto pls =
     (case pls of
        None \<Rightarrow> Panic
      | Some ls \<Rightarrow>
          go_bind (go_mapM sort_from_proto (paSortBy ls)) (\<lambda>sortByArr.
            (case paLimit ls of
               None \<Rightarrow> Panic
             | Some limit \<Rightarrow>
                 (case (plCursor limit, plDirection limit) of
                    (Some c, Some d) \<Rightarrow> Ok (NewLimitAndSort (CursorLimit c d (plCount limit)) [])
                  | (None, None) \<Rightarrow> Ok (NewLimitAndSort (CountLimit (plCount limit)) sortByArr)
                  | _ \<Rightarrow> Err CursorMismatch))))"

definition sequence_to_proto ::
    "('v, 'd, 'b) codec_lib \<Rightarrow> EncodingVersion \<Rightarrow> 'v Sequence \<Rightarrow> (reader_error, pbSequence) go" where
  "sequence_to_proto C version s =
     go_map (\<lambda>v. \<lparr>pqCursor = sqCursor s, pqHead = Some (sqHead s), pqData = Some v\<rparr>)
       (EncodeVersionedBytes C (sqData s) version)"

definition convertSequencesToVersionedBytesProto ::
    "('v, 'd, 'b) codec_lib \<Rightarrow> 'v Sequence list \<Rightarrow> EncodingVersion \<Rightarrow> (reader_error, pbSequence list) go" where
  "convertSequencesToVersionedBytesProto C sequences version = go_mapM (sequence_to_proto C version) sequences"

definition getSequenceTypeInformation ::
    "('v, 'd, 'b) codec_lib \<Rightarrow> 'v \<Rightarrow> (reader_error, 'b gotype \<times> 'b gotype) go" where
  "getSequenceTypeInformation C sequenceDataType =
     (let seqTypeOf = cTypeOf C sequenceDataType
      in case seqTypeOf of
           NilType \<Rightarrow> Panic
         | Base b \<Rightarrow> Ok (seqTypeOf, seqTypeOf)
         | Pointer t \<Rightarrow>
             (case t of
                Pointer _ \<Rightarrow> Err PointerToPointer
              | _ \<Rightarrow> Ok (seqTypeOf, t)))"

definition pointer_type :: "'b gotype \<Rightarrow> bool" where
  "pointer_type t \<longleftrightarrow> (case t of Pointer _ \<Rightarrow> True | _ \<Rightarrow> False)"

definition sequence_from_proto ::
    "('v, 'd, 'b) codec_lib \<Rightarrow> 'b gotype \<times> 'b gotype \<Rightarrow> pbSequence \<Rightarrow> (reader_error, 'v Sequence) go" where
  "sequence_from_proto C types s =
     (case types of (seqTypeOf, nonPointerType) \<Rightarrow>
       go_bind (DecodeVersionedBytes C (cNew C nonPointerType) (pqData s)) (\<lambda>cpy.
         (case pqHead s of
            None \<Rightarrow> Panic
          | Some head \<Rightarrow> Ok \<lparr>sqCursor = pqCursor s, sqHead = head,
              sqData = (if pointer_type seqTypeOf then cpy else cIndirect C cpy)\<rparr>)))"

definition convertSequencesFromProto ::
    "('v, 'd, 'b) codec_lib \<Rightarrow> pbSequence list \<Rightarrow> 'v \<Rightarrow> (reader_error, 'v Sequence list) go" where
  "convertSequencesFromProto C pbSequences sequenceDataType =
     go_bind (getSequenceTypeInformation C sequenceDataType) (\<lambda>types. go_mapM (sequence_from_proto C types) pbSequences)"

definition convertBoundContractFromProto :: "BoundContract option \<Rightarrow> (reader_error, BoundContract) go" where
  "convertBoundContractFromProto bound =
     (case bound of None \<Rightarrow> Panic | Some b \<Rightarrow> Ok \<lparr>bcAddress = bcAddress b, bcName = bcName b\<rparr>)"

definition convertBoundContractToProto :: "BoundContract \<Rightarrow> BoundContract" where
  "convertBoundContractToProto bound = \<lparr>bcAddress = bcAddress bound, bcName = bcName bound\<rparr>"

section \<open>Sequences of several keys\<close>

definition key_versions :: "pbContractKeyFilter list \<Rightarrow> EncodingVersion \<Rightarrow> (reader_error, (string, EncodingVersion) gomap) go" where
  "key_versions filters encodeWith =
     go_foldM (\<lambda>m flt. case pkFilter flt of
         None \<Rightarrow> Panic
       | Some f \<Rightarrow> Ok (put (pfKey f) (if pkAsValueType flt then ValuesEncodingVersion else encodeWith) m)) [] filters"

definition convertSequencesWithKeyToVersionedBytesProto ::
    "('v, 'd, 'b) codec_lib \<Rightarrow> (string \<times> 'v Sequence) list \<Rightarrow> pbContractKeyFilter list \<Rightarrow> EncodingVersion \<Rightarrow>
     (reader_error, (string \<times> pbSequence) list) go" where
  "convertSequencesWithKeyToVersionedBytesProto C sequences filters encodeWith =
     go_bind (key_versions filters encodeWith) (\<lambda>versions.
       go_mapM (\<lambda>(k, s). case map_of versions k of
           None \<Rightarrow> Err (MissingVersion k)
         | Some version \<Rightarrow> go_map (Pair k) (sequence_to_proto C version s)) sequences)"

text \<open>A key that was not asked for has the nil type, of which nothing can be made.\<close>

definition convertSequencesWithKeyFromProto ::
    "('v, 'd, 'b) codec_lib \<Rightarrow> (string \<times> pbSequence) list \<Rightarrow> 'v ContractKeyFilter list \<Rightarrow>
     (reader_error, (string \<times> 'v Sequence) list) go" where
  "convertSequencesWithKeyFromProto C pbSequences keyQueries =
     go_bind (go_foldM (\<lambda>m q. go_map (\<lambda>t. put (kfKey (ckKeyFilter q)) t m)
        (getSequenceTypeInformation C (ckSequenceDataType q))) [] keyQueries) (\<lambda>types.
       go_mapM (\<lambda>(k, s). case map_of types k of
           None \<Rightarrow> Panic
         | Some t \<Rightarrow> go_map (Pair k) (sequence_from_proto C t s)) pbSequences)"

section \<open>Batches\<close>

definition read_to_proto ::
    "('v, 'd, 'b) codec_lib \<Rightarrow> EncodingVersion \<Rightarrow> 'v BatchRead \<Rightarrow> (reader_error, pbBatchRead) go" where
  "read_to_proto C encodeWith call =
     go_map (\<lambda>p. \<lparr>pbReadName = brReadName call, pbParams = Some p\<rparr>) (EncodeVersionedBytes C (brParams call) encodeWith)"

definition convertBatchGetLatestValuesRequestToProto ::
    "('v, 'd, 'b) codec_lib \<Rightarrow> (BoundContract, 'v BatchRead list) gomap \<Rightarrow> EncodingVersion \<Rightarrow>
     (reader_error, pbContractBatch list) go" where
  "convertBatchGetLatestValuesRequestToProto C request encodeWith =
     go_mapM (\<lambda>(binding, nextBatch).
       go_map (\<lambda>reads. \<lparr>pcContract = Some (convertBoundContractToProto binding), pcReads = reads\<rparr>)
         (go_mapM (read_to_proto C encodeWith) nextBatch)) request"

definition read_from_proto ::
    "('v, 'd, 'b) codec_lib \<Rightarrow> 'v ContractReader \<Rightarrow> BoundContract \<Rightarrow> pbBatchRead \<Rightarrow> (reader_error, 'v BatchRead) go" where
  "read_from_proto C impl binding call =
     go_bind (getContractEncodedType C impl (ReadIdentifier binding (pbReadName call)) True) (\<lambda>params.
     go_bind (DecodeVersionedBytes C params (pbParams call)) (\<lambda>params'.
     go_map (\<lambda>retVal. \<lparr>brReadName = pbReadName call, brParams = params', brReturnVal = retVal\<rparr>)
       (getContractEncodedType C impl (ReadIdentifier binding (pbReadName call)) False)))"

text \<open>
  The reads of a batch are stored by index into the list that was made for the first batch of the
  binding; an index beyond its length panics.
\<close>

definition store_read ::
    "('v, 'd, 'b) codec_lib \<Rightarrow> 'v ContractReader \<Rightarrow> BoundContract \<Rightarrow> (BoundContract, 'v BatchRead list) gomap \<Rightarrow>
     nat \<times> pbBatchRead \<Rightarrow> (reader_error, (BoundContract, 'v BatchRead list) gomap) go" where
  "store_read C impl binding request = (\<lambda>(idx, pbReadCall).
     go_bind (read_from_proto C impl binding pbReadCall) (\<lambda>call.
       (case map_of request binding of
          None \<Rightarrow> Panic
        | Some calls \<Rightarrow> if idx < length calls then Ok (put binding (calls[idx := call]) request) else Panic)))"

definition store_batch ::
    "('v, 'd, 'b) codec_lib \<Rightarrow> 'v ContractReader \<Rightarrow> (BoundContract, 'v BatchRead list) gomap \<Rightarrow> pbContractBatch \<Rightarrow>
     (reader_error, (BoundContract, 'v BatchRead list) gomap) go" where
  "store_batch C impl request pbBatch =
     go_bind (convertBoundContractFromProto (pcContract pbBatch)) (\<lambda>binding.
       (let zero = \<lparr>brReadName = [], brParams = cNil C, brReturnVal = cNil C\<rparr>;
            request' = (if map_of request binding = None
                        then put binding (replicate (length (pcReads pbBatch)) zero) request else request)
        in go_foldM (store_read C impl binding) request' (enumerate 0 (pcReads pbBatch))))"

definition convertBatchGetLatestValuesRequestFromProto ::
    "('v, 'd, 'b) codec_lib \<Rightarrow> 'v ContractReader \<Rightarrow> pbContractBatch list \<Rightarrow>
     (reader_error, (BoundContract, 'v BatchRead list) gomap) go" where
  "convertBatchGetLatestValuesRequestFromProto C impl requests = go_foldM (store_batch C impl) [] requests"

definition result_to_proto ::
    "('v, 'd, 'b) codec_lib \<Rightarrow> EncodingVersion \<Rightarrow> 'v BatchReadResult \<Rightarrow> (reader_error, pbBatchReadResult) go" where
  "result_to_proto C encodeWith batchCall =
     (case GetResult batchCall of (returnVal, err) \<Rightarrow>
       go_map (\<lambda>v. \<lparr>ptReadName = rrReadName batchCall, ptReturnVal = Some v,
                    ptError = (case err of None \<Rightarrow> [] | Some e \<Rightarrow> e)\<rparr>)
         (EncodeVersionedBytes C returnVal encodeWith))"

text \<open>The keys of the map are distinct, so that every binding makes a new entry of the reply.\<close>

definition newPbBatchGetLatestValuesReply ::
    "('v, 'd, 'b) codec_lib \<Rightarrow> (BoundContract, 'v BatchReadResult list) gomap \<Rightarrow> EncodingVersion \<Rightarrow>
     (reader_error, pbContractBatchResult list) go" where
  "newPbBatchGetLatestValuesReply C result encodeWith =
     go_mapM (\<lambda>(binding, nextBatchResult).
       go_map (\<lambda>rs. \<lparr>pzContract = Some (convertBoundContractToProto binding), pzResults = rs\<rparr>)
         (go_mapM (result_to_proto C encodeWith) nextBatchResult)) result"

definition result_from_proto ::
    "('v, 'd, 'b) codec_lib \<Rightarrow> 'v BatchRead \<times> pbBatchReadResult \<Rightarrow> (reader_error, 'v BatchReadResult) go" where
  "result_from_proto C = (\<lambda>(req, res).
     go_map (\<lambda>v. SetResult v (if ptError res \<noteq> [] then Some (ptError res) else None)
                  \<lparr>rrReadName = ptReadName res, rrReturnValue = cNil C, rrErr = None\<rparr>)
       (DecodeVersionedBytes C (brReturnVal req) (ptReturnVal res)))"

definition parse_batch ::
    "('v, 'd, 'b) codec_lib \<Rightarrow> (BoundContract, 'v BatchRead list) gomap \<Rightarrow> (BoundContract, 'v BatchReadResult list) gomap \<Rightarrow>
     pbContractBatchResult \<Rightarrow> (reader_error, (BoundContract, 'v BatchReadResult list) gomap) go" where
  "parse_batch C request result contractBatch =
     go_bind (convertBoundContractFromProto (pzContract contractBatch)) (\<lambda>binding.
       (case map_of request binding of
          None \<Rightarrow> Err UnexpectedContract
        | Some calls \<Rightarrow>
            if length calls \<noteq> length (pzResults contractBatch) then Err LengthMismatch
            else go_map (\<lambda>rs. put binding rs result)
                   (go_mapM (result_from_proto C) (zip calls (pzResults contractBatch)))))"

definition parseBatchGetLatestValuesReply ::
    "('v, 'd, 'b) codec_lib \<Rightarrow> (BoundContract, 'v BatchRead list) gomap \<Rightarrow> pbContractBatchResult list \<Rightarrow>
     (reader_error, (BoundContract, 'v BatchReadResult list) gomap) go" where
  "parseBatchGetLatestValuesReply C request results = go_foldM (parse_batch C request) [] results"

section \<open>The server\<close>

definition from_impl :: "string + 'a \<Rightarrow> (reader_error, 'a) go" where
  "from_impl r = (case r of Inl e \<Rightarrow> Err (ImplError e) | Inr a \<Rightarrow> Ok a)"

text \<open>\<^verbatim>\<open>request.Params\<close> is not nil once it was decoded.\<close>

definition server_params ::
    "('v, 'd, 'b) codec_lib \<Rightarrow> 'v ContractReader \<Rightarrow> GetLatestValueRequest \<Rightarrow> (reader_error, 'v \<times> 'v \<times> string) go" where
  "server_params C impl request =
     go_bind (getContractEncodedType C impl (glReadIdentifier request) True) (\<lambda>params.
     go_bind (DecodeVersionedBytes C params (glParams request)) (\<lambda>params'.
     go_bind (getContractEncodedType C impl (glReadIdentifier request) False) (\<lambda>retVal.
     go_map (\<lambda>confidence. (params', retVal, confidence)) (confidenceFromProto (glConfidence request)))))"

definition reply_version :: "GetLatestValueRequest \<Rightarrow> EncodingVersion" where
  "reply_version request =
     (if glAsValueType request then ValuesEncodingVersion
      else case glParams request of None \<Rightarrow> 0 | Some p \<Rightarrow> vbVersion p)"

definition Server_GetLatestValue ::
    "('v, 'd, 'b) codec_lib \<Rightarrow> 'v ContractReader \<Rightarrow> GetLatestValueRequest \<Rightarrow> (reader_error, VersionedBytes) go" where
  "Server_GetLatestValue C impl request =
     go_bind (server_params C impl request) (\<lambda>(params, retVal, confidence).
     go_bind (from_impl (crGetLatestValue impl (glReadIdentifier request) confidence params retVal)) (\<lambda>retVal'.
       EncodeVersionedBytes C retVal' (reply_version request)))"

definition Server_GetLatestValueWithHeadData ::
    "('v, 'd, 'b) codec_lib \<Rightarrow> 'v ContractReader \<Rightarrow> GetLatestValueRequest \<Rightarrow>
     (reader_error, VersionedBytes \<times> Head option) go" where
  "Server_GetLatestValueWithHeadData C impl request =
     go_bind (server_params C impl request) (\<lambda>(params, retVal, confidence).
     go_bind (from_impl (crGetLatestValueWithHeadData impl (glReadIdentifier request) confidence params retVal)) (\<lambda>(retVal', headData).
       go_map (\<lambda>v. (v, headData)) (EncodeVersionedBytes C retVal' (reply_version request))))"

definition Server_BatchGetLatestValues ::
    "('v, 'd, 'b) codec_lib \<Rightarrow> EncodingVersion \<Rightarrow> 'v ContractReader \<Rightarrow> pbContractBatch list \<Rightarrow>
     (reader_error, pbContractBatchResult list) go" where
  "Server_BatchGetLatestValues C encodeWith impl requests =
     go_bind (convertBatchGetLatestValuesRequestFromProto C impl requests) (\<lambda>request.
     go_bind (from_impl (crBatchGetLatestValues impl request)) (\<lambda>reply.
       newPbBatchGetLatestValuesReply C reply encodeWith))"

definition Server_QueryKey ::
    "('v, 'd, 'b) codec_lib \<Rightarrow> EncodingVersion \<Rightarrow> 'v ContractReader \<Rightarrow> QueryKeyRequest \<Rightarrow> (reader_error, pbSequence list) go" where
  "Server_QueryKey C encodeWith impl request =
     go_bind (convertBoundContractFromProto (qkContract request)) (\<lambda>bound.
     go_bind (convertQueryFiltersFromProto C impl bound (qkFilter request)) (\<lambda>queryFilter.
     go_bind (getContractEncodedType C impl (ReadIdentifier bound (kfKey queryFilter)) False) (\<lambda>sequenceDataType.
     go_bind (convertLimitAndSortFromProto (qkLimitAndSort request)) (\<lambda>limitAndSort.
     go_bind (from_impl (crQueryKey impl bound queryFilter limitAndSort sequenceDataType)) (\<lambda>sequences.
       convertSequencesToVersionedBytesProto C sequences
         (if qkAsValueType request then ValuesEncodingVersion else encodeWith))))))"

definition key_query_from_proto ::
    "('v, 'd, 'b) codec_lib \<Rightarrow> 'v ContractReader \<Rightarrow> pbContractKeyFilter \<Rightarrow> (reader_error, 'v ContractKeyFilter) go" where
  "key_query_from_proto C impl keyQuery =
     go_bind (convertBoundContractFromProto (pkContract keyQuery)) (\<lambda>bound.
     go_bind (convertQueryFiltersFromProto C impl bound (pkFilter keyQuery)) (\<lambda>queryFilter.
     go_map (\<lambda>t. \<lparr>ckKeyFilter = queryFilter, ckContract = bound, ckSequenceDataType = t\<rparr>)
       (getContractEncodedType C impl (ReadIdentifier bound (kfKey queryFilter)) False)))"

definition Server_QueryKeys ::
    "('v, 'd, 'b) codec_lib \<Rightarrow> EncodingVersion \<Rightarrow> 'v ContractReader \<Rightarrow> pbContractKeyFilter list \<Rightarrow> pbLimitAndSort option \<Rightarrow>
     (reader_error, (string \<times> pbSequence) list) go" where
  "Server_QueryKeys C encodeWith impl keyFilters pls =
     go_bind (go_mapM (key_query_from_proto C impl) keyFilters) (\<lambda>filters.
     go_bind (convertLimitAndSortFromProto pls) (\<lambda>limitAndSort.
     go_bind (from_impl (crQueryKeys impl filters limitAndSort)) (\<lambda>sequences.
       convertSequencesWithKeyToVersionedBytesProto C sequences keyFilters encodeWith)))"

section \<open>The client\<close>

text \<open>The error of a call over the wire is wrapped; a panic of the server is one.\<close>

definition over_rpc :: "(reader_error, 'a) go \<Rightarrow> (reader_error, 'a) go" where
  "over_rpc r = go_mapErr RPC r"

definition client_request ::
    "('v, 'd, 'b) codec_lib \<Rightarrow> EncodingVersion \<Rightarrow> string \<Rightarrow> string \<Rightarrow> 'v \<Rightarrow> 'v \<Rightarrow> (reader_error, GetLatestValueRequest) go" where
  "client_request C encodeWith readIdentifier confidenceLevel params retVal =
     go_bind (EncodeVersionedBytes C params encodeWith) (\<lambda>versionedParams.
     go_map (\<lambda>c. \<lparr>glReadIdentifier = readIdentifier, glConfidence = c, glParams = Some versionedParams,
                  glAsValueType = cIsValuePtr C retVal\<rparr>)
       (confidenceToProto confidenceLevel))"

definition Client_GetLatestValue ::
    "('v, 'd, 'b) codec_lib \<Rightarrow> EncodingVersion \<Rightarrow> (GetLatestValueRequest \<Rightarrow> (reader_error, VersionedBytes) go) \<Rightarrow>
     string \<Rightarrow> string \<Rightarrow> 'v \<Rightarrow> 'v \<Rightarrow> (reader_error, 'v) go" where
  "Client_GetLatestValue C encodeWith rpc readIdentifier confidenceLevel params retVal =
     go_bind (client_request C encodeWith readIdentifier confidenceLevel params retVal) (\<lambda>request.
     go_bind (over_rpc (rpc request)) (\<lambda>reply. DecodeVersionedBytes C retVal (Some reply)))"

definition Client_GetLatestValueWithHeadData ::
    "('v, 'd, 'b) codec_lib \<Rightarrow> EncodingVersion \<Rightarrow> (GetLatestValueRequest \<Rightarrow> (reader_error, VersionedBytes \<times> Head option) go) \<Rightarrow>
     string \<Rightarrow> string \<Rightarrow> 'v \<Rightarrow> 'v \<Rightarrow> (reader_error, 'v \<times> Head option) go" where
  "Client_GetLatestValueWithHeadData C encodeWith rpc readIdentifier confidenceLevel params retVal =
     go_bind (client_request C encodeWith readIdentifier confidenceLevel params retVal) (\<lambda>request.
     go_bind (over_rpc (rpc request)) (\<lambda>(reply, headData).
       go_map (\<lambda>v. (v, headData)) (DecodeVersionedBytes C retVal (Some reply))))"

definition Client_BatchGetLatestValues ::
    "('v, 'd, 'b) codec_lib \<Rightarrow> EncodingVersion \<Rightarrow> (pbContractBatch list \<Rightarrow> (reader_error, pbContractBatchResult list) go) \<Rightarrow>
     (BoundContract, 'v BatchRead list) gomap \<Rightarrow> (reader_error, (BoundContract, 'v BatchReadResult list) gomap) go" where
  "Client_BatchGetLatestValues C encodeWith rpc request =
     go_bind (convertBatchGetLatestValuesRequestToProto C request encodeWith) (\<lambda>pbRequest.
     go_bind (over_rpc (rpc pbRequest)) (\<lambda>reply. parseBatchGetLatestValuesReply C request reply))"

definition Client_QueryKey ::
    "('v, 'd, 'b) codec_lib \<Rightarrow> EncodingVersion \<Rightarrow> (QueryKeyRequest \<Rightarrow> (reader_error, pbSequence list) go) \<Rightarrow>
     BoundContract \<Rightarrow> 'v KeyFilter \<Rightarrow> LimitAndSort \<Rightarrow> 'v \<Rightarrow> (reader_error, 'v Sequence list) go" where
  "Client_QueryKey C encodeWith rpc bound flt limitAndSort sequenceDataType =
     go_bind (convertQueryFilterToProto C encodeWith flt) (\<lambda>pbQueryFilter.
     go_bind (convertLimitAndSortToProto limitAndSort) (\<lambda>pbLimitAndSort.
     go_bind (over_rpc (rpc \<lparr>qkContract = Some \<lparr>bcAddress = bcAddress bound, bcName = bcName bound\<rparr>,
         qkFilter = Some pbQueryFilter, qkLimitAndSort = Some pbLimitAndSort,
         qkAsValueType = cIsValuePtr C sequenceDataType\<rparr>)) (\<lambda>reply.
       convertSequencesFromProto C reply sequenceDataType)))"

definition key_query_to_proto ::
    "('v, 'd, 'b) codec_lib \<Rightarrow> EncodingVersion \<Rightarrow> 'v ContractKeyFilter \<Rightarrow> (reader_error, pbContractKeyFilter) go" where
  "key_query_to_proto C encodeWith keyQuery =
     go_map (\<lambda>f. \<lparr>pkContract = Some (convertBoundContractToProto (ckContract keyQuery)), pkFilter = Some f,
                  pkAsValueType = cIsValuePtr C (ckSequenceDataType keyQuery)\<rparr>)
       (convertQueryFilterToProto C encodeWith (ckKeyFilter keyQuery))"

definition Client_QueryKeys ::
    "('v, 'd, 'b) codec_lib \<Rightarrow> EncodingVersion \<Rightarrow>
     (pbContractKeyFilter list \<Rightarrow> pbLimitAndSort option \<Rightarrow> (reader_error, (string \<times> pbSequence) list) go) \<Rightarrow>
     'v ContractKeyFilter list \<Rightarrow> LimitAndSort \<Rightarrow> (reader_error, (string \<times> 'v Sequence) list) go" where
  "Client_QueryKeys C encodeWith rpc keyQueries limitAndSort =
     go_bind (go_mapM (key_query_to_proto C encodeWith) keyQueries) (\<lambda>filters.
     go_bind (convertLimitAndSortToProto limitAndSort) (\<lambda>pbLimitAndSort.
     go_bind (over_rpc (rpc filters (Some pbLimitAndSort))) (\<lambda>reply.
       convertSequencesWithKeyFromProto C reply keyQueries)))"

section \<open>What the encodings carry\<close>

text \<open>
  An encoding carries the object \<open>v\<close> into an object like \<open>t\<close> as \<open>w\<close>: the packages marshal \<open>v\<close>, and unmarshal
  that into \<open>t\<close> to give \<open>w\<close>. The nil value can only be read into a \<^verbatim>\<open>*values.Value\<close>.
\<close>

definition transports :: "('v, 'd, 'b) codec_lib \<Rightarrow> EncodingVersion \<Rightarrow> 'v \<Rightarrow> 'v \<Rightarrow> 'v \<Rightarrow> bool" where
  "transports C version t v w \<longleftrightarrow>
     (if version = JSONEncodingVersion1 then \<exists>b. cJSONMarshal C v = Some b \<and> cJSONDecode C t b = Some w
      else if version = JSONEncodingVersion2 then \<exists>b. cJSON2Marshal C v = Some b \<and> cJSON2Unmarshal C t b = Some w
      else if version = CBOREncodingVersion then \<exists>b. cCBORMarshal C v = Some b \<and> cCBORUnmarshal C t b = Some w
      else if version = ValuesEncodingVersion then
        \<exists>val b. Wrap (cAny C v) = Ok val \<and> cMarshalValue C (Proto (cValues C) val) = Some b \<and>
          cUnmarshalValue C b = Some (Proto (cValues C) val) \<and>
          (if cIsValuePtr C t then w = cSetValue C val else val \<noteq> VNil \<and> cUnwrapTo C val t = Some w)
      else False)"

text \<open>
  What the conversions rely on: what is carried is encoded to bytes that the decoder reads, whatever version they
  name.
\<close>

locale transport =
  fixes encode :: "'v \<Rightarrow> 'n \<Rightarrow> ('e, 'm) go" and decode :: "'v \<Rightarrow> 'm option \<Rightarrow> ('e, 'v) go"
    and version_of :: "'m \<Rightarrow> 'n" and carries :: "'n \<Rightarrow> 'v \<Rightarrow> 'v \<Rightarrow> 'v \<Rightarrow> bool"
  assumes carried: "carries n t v w \<Longrightarrow> \<exists>m. encode v n = Ok m \<and> version_of m = n \<and> decode t (Some m) = Ok w"
begin

lemma carried_with:
  assumes "carries n t v w"
  shows "\<exists>m. go_map f (encode v n) = Ok (f m) \<and> version_of m = n \<and> go_map g (decode t (Some m)) = Ok (g w)"
  using carried [OF assms] by (auto simp: go_map_eq_Ok)

lemma carried_list:
  assumes "\<And>x. x \<in> set xs \<Longrightarrow> carries n (target x) (val x) (out x)"
  shows "\<exists>ms. go_mapM (\<lambda>x. encode (val x) n) xs = Ok ms \<and> length ms = length xs \<and>
    go_mapM (\<lambda>(x, m). decode (target x) (Some m)) (zip xs ms) = Ok (map out xs)"
  using assms
proof (induction xs)
  case (Cons x xs)
  then obtain ms where "go_mapM (\<lambda>x. encode (val x) n) xs = Ok ms" "length ms = length xs"
    "go_mapM (\<lambda>(x, m). decode (target x) (Some m)) (zip xs ms) = Ok (map out xs)" by auto
  moreover obtain m where "encode (val x) n = Ok m" "decode (target x) (Some m) = Ok (out x)"
    using carried Cons.prems by fastforce
  ultimately show ?case by (auto intro!: exI [of _ "m # ms"])
qed simp

end

interpretation versioned: transport "EncodeVersionedBytes C" "DecodeVersionedBytes C" vbVersion
    "\<lambda>version t v w. vlib_laws (cValues C) \<and> transports C version t v w" for C :: "('v, 'd, 'b) codec_lib"
proof unfold_locales
  fix version t v w
  assume "vlib_laws (cValues C) \<and> transports C version t v w"
  then show "\<exists>m. EncodeVersionedBytes C v version = Ok m \<and> vbVersion m = version \<and> DecodeVersionedBytes C t (Some m) = Ok w"
    by (auto simp: transports_def EncodeVersionedBytes_def DecodeVersionedBytes_def marshalled_def unmarshalled_def
        version_defs FromProto_Proto Let_def split: if_splits)
qed

lemma go_mapM_chain:
  assumes "\<And>x. x \<in> set xs \<Longrightarrow> \<exists>y. f x = Ok y \<and> g y = Ok (h x)"
  shows "\<exists>ys. go_mapM f xs = Ok ys \<and> go_mapM g ys = Ok (map h xs)"
  using assms
proof (induction xs)
  case (Cons x xs)
  then obtain y ys where "f x = Ok y" "g y = Ok (h x)" "go_mapM f xs = Ok ys" "go_mapM g ys = Ok (map h xs)"
    by (metis list.set_intros)
  then show ?case by (auto intro!: exI [of _ "y # ys"])
qed simp

lemma go_mapM_id_map: "go_mapM (\<lambda>r. r) (map f xs) = go_mapM f xs"
  by (induction xs) simp_all

section \<open>Expressions over the wire\<close>

definition fits_enum :: "goint \<Rightarrow> bool" where
  "fits_enum n \<longleftrightarrow> of_enum (to_enum n) = n"

fun prim_wire_ok :: "'v Primitive \<Rightarrow> bool" where
  "prim_wire_ok (PComparator name vcs) \<longleftrightarrow> (\<forall>vc \<in> set vcs. fits_enum (vcOperator vc))"
| "prim_wire_ok (PBlock b operator) \<longleftrightarrow> fits_enum operator"
| "prim_wire_ok (PConfidence c) \<longleftrightarrow> c = Finalized \<or> c = Unconfirmed"
| "prim_wire_ok (PTimestamp t operator) \<longleftrightarrow> fits_enum operator"
| "prim_wire_ok (PTxHash h) \<longleftrightarrow> True"
| "prim_wire_ok POther \<longleftrightarrow> False"

text \<open>The known operators, levels and kinds of primitives: what the package's constructors make.\<close>

primrec wire_ok :: "'v Expression \<Rightarrow> bool" where
  "wire_ok (Expression p es operator) \<longleftrightarrow>
     (case p of Some pr \<Rightarrow> prim_wire_ok pr | None \<Rightarrow> (operator = op_AND \<or> operator = op_OR) \<and> list_all wire_ok es)"

fun prim_comparands :: "'v Primitive \<Rightarrow> (string \<times> 'v) set" where
  "prim_comparands (PComparator name vcs) = Pair name ` vcValue ` set vcs"
| "prim_comparands _ = {}"

primrec comparands :: "'v Expression \<Rightarrow> (string \<times> 'v) set" where
  "comparands (Expression p es operator) =
     (case p of Some pr \<Rightarrow> prim_comparands pr | None \<Rightarrow> \<Union> (set (map comparands es)))"

fun arrived_prim :: "(string \<Rightarrow> 'v \<Rightarrow> 'v) \<Rightarrow> 'v Primitive \<Rightarrow> 'v Primitive" where
  "arrived_prim conv (PComparator name vcs) = PComparator name (map (\<lambda>vc. vc\<lparr>vcValue := conv name (vcValue vc)\<rparr>) vcs)"
| "arrived_prim conv p = p"

primrec arrived :: "(string \<Rightarrow> 'v \<Rightarrow> 'v) \<Rightarrow> 'v Expression \<Rightarrow> 'v Expression" where
  "arrived conv (Expression p es operator) =
     (case p of
        Some pr \<Rightarrow> prim (arrived_prim conv pr)
      | None \<Rightarrow> (if operator = op_AND then And else Or) (map (arrived conv) es))"

text \<open>The comparands of a filter are carried into objects of the types that the implementation gives for them.\<close>

definition comparand_carried ::
    "('v, 'd, 'b) codec_lib \<Rightarrow> EncodingVersion \<Rightarrow> 'v ContractReader \<Rightarrow> BoundContract \<Rightarrow> string \<Rightarrow> (string \<Rightarrow> 'v \<Rightarrow> 'v) \<Rightarrow> string \<times> 'v \<Rightarrow> bool" where
  "comparand_carried C e impl bound k conv = (\<lambda>(name, v).
     \<exists>t. getContractEncodedType C impl (ReadIdentifier bound (k @ ''.'' @ name)) True = Ok t \<and> transports C e t v (conv name v))"

lemma comparator_round:
  assumes "vlib_laws (cValues C)" and "\<And>vc. vc \<in> set vcs \<Longrightarrow> fits_enum (vcOperator vc)"
    and "\<And>vc. vc \<in> set vcs \<Longrightarrow> comparand_carried C e impl bound k conv (name, vcValue vc)"
  shows "\<exists>q. primitive_to_proto C e (PComparator name vcs) = Ok q \<and>
    primitive_from_proto C impl bound k q = Ok (prim (arrived_prim conv (PComparator name vcs)))"
proof -
  let ?f = "\<lambda>vc. go_map (\<lambda>v. (Some v, to_enum (vcOperator vc))) (EncodeVersionedBytes C (vcValue vc) e)"
  let ?g = "\<lambda>(v, operator). go_bind (getContractEncodedType C impl (ReadIdentifier bound (k @ ''.'' @ name)) True) (\<lambda>val.
    go_map (\<lambda>val'. \<lparr>vcValue = val', vcOperator = of_enum operator\<rparr>) (DecodeVersionedBytes C val v))"
  have "\<exists>y. ?f vc = Ok y \<and> ?g y = Ok (vc\<lparr>vcValue := conv name (vcValue vc)\<rparr>)" if vc: "vc \<in> set vcs" for vc
  proof -
    from assms(3) [OF vc] obtain t where t: "getContractEncodedType C impl (ReadIdentifier bound (k @ ''.'' @ name)) True = Ok t"
      "transports C e t (vcValue vc) (conv name (vcValue vc))" by (auto simp: comparand_carried_def)
    with versioned.carried [of C e t "vcValue vc" "conv name (vcValue vc)"] assms(1) obtain m
      where "EncodeVersionedBytes C (vcValue vc) e = Ok m" "DecodeVersionedBytes C t (Some m) = Ok (conv name (vcValue vc))" by blast
    with t(1) assms(2) [OF vc] show ?thesis by (auto simp: fits_enum_def)
  qed
  from go_mapM_chain [of vcs ?f ?g "\<lambda>vc. vc\<lparr>vcValue := conv name (vcValue vc)\<rparr>", OF this] obtain ys
    where "go_mapM ?f vcs = Ok ys" "go_mapM ?g ys = Ok (map (\<lambda>vc. vc\<lparr>vcValue := conv name (vcValue vc)\<rparr>) vcs)" by blast
  then show ?thesis by (simp add: Comparator_def)
qed

lemma primitive_round:
  assumes "vlib_laws (cValues C)" and "prim_wire_ok p" and "\<forall>c \<in> prim_comparands p. comparand_carried C e impl bound k conv c"
  shows "\<exists>q. primitive_to_proto C e p = Ok q \<and> primitive_from_proto C impl bound k q = Ok (prim (arrived_prim conv p))"
proof (cases p)
  case (PComparator name vcs)
  have "\<exists>q. primitive_to_proto C e (PComparator name vcs) = Ok q \<and>
      primitive_from_proto C impl bound k q = Ok (prim (arrived_prim conv (PComparator name vcs)))"
    using assms PComparator by (intro comparator_round) auto
  then show ?thesis unfolding PComparator .
qed (use assms in \<open>auto simp: confidenceToProto_def confidenceFromProto_def Finalized_def Unconfirmed_def fits_enum_def
    Block_def Confidence_def Timestamp_def TxHash_def\<close>)

lemma expression_round:
  assumes "vlib_laws (cValues C)" and "wire_ok x" and "\<forall>c \<in> comparands x. comparand_carried C e impl bound k conv c"
  shows "\<exists>q. convertExpressionToProto C e x = Ok q \<and> convertExpressionFromProto C impl bound k q = Ok (arrived conv x)"
  using assms(2,3)
proof (induction x)
  case (Expression p es operator)
  show ?case
  proof (cases p)
    case (Some pr)
    with Expression.prems primitive_round [OF assms(1), of pr e impl bound k conv] show ?thesis by auto
  next
    case None
    with Expression have "\<exists>y. convertExpressionToProto C e x = Ok y \<and> convertExpressionFromProto C impl bound k y = Ok (arrived conv x)"
      if "x \<in> set es" for x
      using that by (auto simp: list_all_iff)
    from go_mapM_chain [of es "convertExpressionToProto C e" "convertExpressionFromProto C impl bound k" "arrived conv", OF this]
    obtain ys where "go_mapM (convertExpressionToProto C e) es = Ok ys"
      "go_mapM (convertExpressionFromProto C impl bound k) ys = Ok (map (arrived conv) es)" by blast
    moreover have "(to_enum operator = 0) = (operator = op_AND)"
      using Expression.prems None by (auto simp: to_enum_def op_AND_def op_OR_def)
    ultimately show ?thesis using None by (auto simp: go_mapM_id_map)
  qed
qed

text \<open>An expression with one operand arrives as its operand; the meaning is kept.\<close>

lemma arrived_meaning: "wire_ok x \<Longrightarrow> expr_holds V (arrived conv x) = expr_holds (V \<circ> arrived_prim conv) x"
proof (induction x)
  case (Expression p es operator)
  then show ?case by (cases p) (auto simp: list_all_iff op_AND_def op_OR_def)
qed


definition arrived_filter :: "(string \<Rightarrow> 'v \<Rightarrow> 'v) \<Rightarrow> 'v KeyFilter \<Rightarrow> 'v KeyFilter" where
  "arrived_filter conv flt = \<lparr>kfKey = kfKey flt, kfExpressions = map (arrived conv) (kfExpressions flt)\<rparr>"

definition filter_carried ::
    "('v, 'd, 'b) codec_lib \<Rightarrow> EncodingVersion \<Rightarrow> 'v ContractReader \<Rightarrow> BoundContract \<Rightarrow> (string \<Rightarrow> 'v \<Rightarrow> 'v) \<Rightarrow> 'v KeyFilter \<Rightarrow> bool" where
  "filter_carried C e impl bound conv flt \<longleftrightarrow>
     (\<forall>x \<in> set (kfExpressions flt). wire_ok x \<and> (\<forall>c \<in> comparands x. comparand_carried C e impl bound (kfKey flt) conv c))"

lemma filter_round:
  assumes "vlib_laws (cValues C)" and "filter_carried C e impl bound conv flt"
  shows "\<exists>q. convertQueryFilterToProto C e flt = Ok q \<and>
    convertQueryFiltersFromProto C impl bound (Some q) = Ok (arrived_filter conv flt)"
proof -
  have "\<exists>y. convertExpressionToProto C e x = Ok y \<and> convertExpressionFromProto C impl bound (kfKey flt) y = Ok (arrived conv x)"
    if "x \<in> set (kfExpressions flt)" for x
    using assms that by (intro expression_round) (auto simp: filter_carried_def)
  from go_mapM_chain [of "kfExpressions flt" "convertExpressionToProto C e" "convertExpressionFromProto C impl bound (kfKey flt)"
      "arrived conv", OF this]
  obtain ys where "go_mapM (convertExpressionToProto C e) (kfExpressions flt) = Ok ys"
    "go_mapM (convertExpressionFromProto C impl bound (kfKey flt)) ys = Ok (map (arrived conv) (kfExpressions flt))" by blast
  then show ?thesis
    by (auto simp: convertQueryFilterToProto_def convertQueryFiltersFromProto_def arrived_filter_def)
qed

lemma arrived_filter_meaning:
  "filter_carried C e impl bound conv flt \<Longrightarrow> filter_holds V (arrived_filter conv flt) = filter_holds (V \<circ> arrived_prim conv) flt"
  by (simp add: filter_holds_def arrived_filter_def filter_carried_def arrived_meaning)

section \<open>Limits over the wire\<close>

definition limit_ok :: "LimitAndSort \<Rightarrow> bool" where
  "limit_ok ls \<longleftrightarrow> (lmCursor (lsLimit ls) = [] \<longleftrightarrow> lmCursorDirection (lsLimit ls) = 0) \<and>
     (\<forall>s \<in> set (lsSortBy ls). fits_enum (GetDirection s) \<and> (\<forall>d. s \<noteq> SortByOther d))"

text \<open>The sorting does not arrive when the limit has a cursor.\<close>

definition arrived_limit :: "LimitAndSort \<Rightarrow> LimitAndSort" where
  "arrived_limit ls = (if HasCursorLimit ls then ls\<lparr>lsSortBy := []\<rparr> else ls)"

lemma limit_round:
  assumes "limit_ok ls"
  shows "\<exists>q. convertLimitAndSortToProto ls = Ok q \<and> convertLimitAndSortFromProto (Some q) = Ok (arrived_limit ls)"
proof -
  have "\<exists>y. sort_to_proto s = Ok y \<and> sort_from_proto y = Ok s" if "s \<in> set (lsSortBy ls)" for s
    using assms that by (cases s) (auto simp: limit_ok_def sort_from_proto_def fits_enum_def)
  from go_mapM_chain [of "lsSortBy ls" sort_to_proto sort_from_proto "\<lambda>s. s", OF this] obtain ys
    where "go_mapM sort_to_proto (lsSortBy ls) = Ok ys" "go_mapM sort_from_proto ys = Ok (lsSortBy ls)" by auto
  with assms show ?thesis
    by (auto simp: convertLimitAndSortToProto_def convertLimitAndSortFromProto_def arrived_limit_def HasCursorLimit_def
        limit_ok_def NewLimitAndSort_def CursorLimit_def CountLimit_def Let_def)
qed

lemma wrong_cursor_refused:
  "(lmCursor (lsLimit ls) = []) \<noteq> (lmCursorDirection (lsLimit ls) = 0) \<Longrightarrow> (\<And>s. s \<in> set (lsSortBy ls) \<Longrightarrow> \<forall>d. s \<noteq> SortByOther d) \<Longrightarrow>
     convertLimitAndSortToProto ls = Err CursorMismatch"
proof -
  assume cursor: "(lmCursor (lsLimit ls) = []) \<noteq> (lmCursorDirection (lsLimit ls) = 0)"
    and sorts: "\<And>s. s \<in> set (lsSortBy ls) \<Longrightarrow> \<forall>d. s \<noteq> SortByOther d"
  have "\<exists>y. sort_to_proto s = Ok y \<and> Ok () = (Ok () :: (reader_error, unit) go)" if "s \<in> set (lsSortBy ls)" for s
    using sorts [OF that] by (cases s) auto
  from go_mapM_chain [of "lsSortBy ls" sort_to_proto "\<lambda>_. Ok ()" "\<lambda>_. ()", OF this]
  obtain ys where "go_mapM sort_to_proto (lsSortBy ls) = Ok ys" by auto
  with cursor show ?thesis by (auto simp: convertLimitAndSortToProto_def HasCursorLimit_def Let_def)
qed

section \<open>Calls over the wire\<close>

definition value_of_type :: "('v, 'd, 'b) codec_lib \<Rightarrow> 'b gotype \<Rightarrow> 'v \<Rightarrow> 'v" where
  "value_of_type C t v = (if pointer_type t then v else cIndirect C v)"

lemma bound_eta [simp]: "\<lparr>bcAddress = bcAddress bound, bcName = bcName bound\<rparr> = bound"
  by simp

lemma sequence_round:
  assumes "vlib_laws (cValues C)" and "transports C version (cNew C nt) (sqData s) w"
  shows "\<exists>q. sequence_to_proto C version s = Ok q \<and>
    sequence_from_proto C (st, nt) q = Ok (s\<lparr>sqData := value_of_type C st w\<rparr>)"
  using versioned.carried [of C version "cNew C nt" "sqData s" w] assms
  by (auto simp: sequence_to_proto_def sequence_from_proto_def value_of_type_def)

abbreviation reply_encoding :: "('v, 'd, 'b) codec_lib \<Rightarrow> EncodingVersion \<Rightarrow> 'v \<Rightarrow> EncodingVersion" where
  "reply_encoding C e t \<equiv> (if cIsValuePtr C t then ValuesEncodingVersion else e)"

text \<open>
  C16. A query through the client and the server is the query of the implementation: it is asked for the same
  contract and key, with a filter of the same meaning, the same limit, and the same sorting unless the limit has
  a cursor; its sequences come back with cursors, heads and order as they are and their data as the encoding
  carries it into the type that was asked for. An error comes back as an error of the call.
\<close>

theorem query_transparent:
  assumes "vlib_laws (cValues C)" and "filter_carried C e impl bound conv flt" and "limit_ok ls"
    and "getContractEncodedType C impl (ReadIdentifier bound (kfKey flt)) False = Ok dt"
    and "getSequenceTypeInformation C sdt = Ok (st, nt)"
    and "\<And>s. s \<in> set seqs \<Longrightarrow> transports C (reply_encoding C es sdt) (cNew C nt) (sqData s) (out (sqData s))"
  shows "(crQueryKey impl bound (arrived_filter conv flt) (arrived_limit ls) dt = Inr seqs \<longrightarrow>
      Client_QueryKey C e (Server_QueryKey C es impl) bound flt ls sdt =
        Ok (map (\<lambda>s. s\<lparr>sqData := value_of_type C st (out (sqData s))\<rparr>) seqs)) \<and>
    (crQueryKey impl bound (arrived_filter conv flt) (arrived_limit ls) dt = Inl err \<longrightarrow>
      Client_QueryKey C e (Server_QueryKey C es impl) bound flt ls sdt = Err (RPC (ImplError err))) \<and>
    (\<forall>V. filter_holds V (arrived_filter conv flt) = filter_holds (V \<circ> arrived_prim conv) flt) \<and>
    lsLimit (arrived_limit ls) = lsLimit ls \<and> (\<not> HasCursorLimit ls \<longrightarrow> arrived_limit ls = ls)"
proof -
  obtain pf pl where conv: "convertQueryFilterToProto C e flt = Ok pf"
    "convertQueryFiltersFromProto C impl bound (Some pf) = Ok (arrived_filter conv flt)"
    "convertLimitAndSortToProto ls = Ok pl" "convertLimitAndSortFromProto (Some pl) = Ok (arrived_limit ls)"
    using filter_round [OF assms(1,2)] limit_round [OF assms(3)] by blast
  obtain qs where "go_mapM (sequence_to_proto C (reply_encoding C es sdt)) seqs = Ok qs"
    "go_mapM (sequence_from_proto C (st, nt)) qs = Ok (map (\<lambda>s. s\<lparr>sqData := value_of_type C st (out (sqData s))\<rparr>) seqs)"
    using go_mapM_chain [of seqs "sequence_to_proto C (reply_encoding C es sdt)" "sequence_from_proto C (st, nt)"
        "\<lambda>s. s\<lparr>sqData := value_of_type C st (out (sqData s))\<rparr>"] sequence_round [OF assms(1) assms(6)] by blast
  with conv assms(4,5) show ?thesis
    using arrived_filter_meaning [OF assms(2)]
    by (auto simp: Client_QueryKey_def Server_QueryKey_def over_rpc_def from_impl_def convertBoundContractFromProto_def
        convertSequencesToVersionedBytesProto_def convertSequencesFromProto_def arrived_filter_def arrived_limit_def)
qed

text \<open>
  Reading a value through the client and the server is reading it from the implementation: with the same
  identifier and confidence and the parameters as the encoding carries them; the value comes back in the
  encoding of the request, or as a \<^verbatim>\<open>values.Value\<close> when that was asked for, the head unchanged, and an error as an error
  of the call. A confidence level that is not known is refused before anything is sent.
\<close>

lemma latest_value_transparent:
  assumes "vlib_laws (cValues C)"
    and "getContractEncodedType C impl rid True = Ok pt" and "transports C e pt params p"
    and "getContractEncodedType C impl rid False = Ok rt"
    and "transports C (reply_encoding C e retVal) retVal ret w"
    and "known = (conf = Finalized \<or> conf = Unconfirmed)"
  shows "(known \<and> crGetLatestValueWithHeadData impl rid conf p rt = Inr (ret, head) \<longrightarrow>
      Client_GetLatestValueWithHeadData C e (Server_GetLatestValueWithHeadData C impl) rid conf params retVal = Ok (w, head)) \<and>
    (known \<and> crGetLatestValueWithHeadData impl rid conf p rt = Inl err \<longrightarrow>
      Client_GetLatestValueWithHeadData C e (Server_GetLatestValueWithHeadData C impl) rid conf params retVal = Err (RPC (ImplError err))) \<and>
    (known \<and> crGetLatestValue impl rid conf p rt = Inr ret \<longrightarrow>
      Client_GetLatestValue C e (Server_GetLatestValue C impl) rid conf params retVal = Ok w) \<and>
    (known \<and> crGetLatestValue impl rid conf p rt = Inl err \<longrightarrow>
      Client_GetLatestValue C e (Server_GetLatestValue C impl) rid conf params retVal = Err (RPC (ImplError err))) \<and>
    (\<not> known \<longrightarrow> Client_GetLatestValue C e rpc rid conf params retVal = Err (InvalidConfidence conf))"
proof -
  obtain pm where pm: "EncodeVersionedBytes C params e = Ok pm" "vbVersion pm = e" "DecodeVersionedBytes C pt (Some pm) = Ok p"
    using versioned.carried [of C e pt params p] assms(1,3) by blast
  obtain rm where rm: "EncodeVersionedBytes C ret (reply_encoding C e retVal) = Ok rm" "DecodeVersionedBytes C retVal (Some rm) = Ok w"
    using versioned.carried [of C "reply_encoding C e retVal" retVal ret w] assms(1,5) by blast
  let ?req = "\<lambda>c. \<lparr>glReadIdentifier = rid, glConfidence = c, glParams = Some pm, glAsValueType = cIsValuePtr C retVal\<rparr>"
  have "server_params C impl (?req c) = go_map (\<lambda>cl. (p, rt, cl)) (confidenceFromProto c)" for c
    by (simp add: server_params_def assms(2,4) pm(3))
  moreover have "reply_version (?req c) = reply_encoding C e retVal" for c by (simp add: reply_version_def pm(2))
  moreover have "client_request C e rid conf params retVal = go_map ?req (confidenceToProto conf)"
    by (simp add: client_request_def pm(1))
  moreover have "known \<Longrightarrow> \<exists>c. confidenceToProto conf = Ok c \<and> confidenceFromProto c = Ok conf"
    "\<not> known \<Longrightarrow> confidenceToProto conf = Err (InvalidConfidence conf)"
    using assms(6) by (auto simp: confidenceToProto_def confidenceFromProto_def Finalized_def Unconfirmed_def)
  ultimately show ?thesis using rm
    by (auto simp: Client_GetLatestValueWithHeadData_def Client_GetLatestValue_def Server_GetLatestValueWithHeadData_def
        Server_GetLatestValue_def over_rpc_def from_impl_def)
qed

section \<open>Batches over the wire\<close>

lemma put_last: "map_of m b = None \<Longrightarrow> put b v (m @ [(b, u)]) = m @ [(b, v)]"
  unfolding put_def by (induction m) (auto split: if_splits)

lemma map_of_last: "map_of m b = None \<Longrightarrow> map_of (m @ [(b, u)]) b = Some u"
  by (simp add: map_add_def)

definition read_arrives :: "('v, 'd, 'b) codec_lib \<Rightarrow> 'v ContractReader \<Rightarrow> BoundContract \<Rightarrow> pbBatchRead \<Rightarrow> 'v BatchRead \<Rightarrow> bool" where
  "read_arrives C impl b r c \<longleftrightarrow> read_from_proto C impl b r = Ok c"

lemma reads_stored:
  assumes "list_all2 (read_arrives C impl b) reads calls" and "length zs = length reads" and "map_of m b = None"
  shows "go_foldM (store_read C impl b) (m @ [(b, ready @ zs)]) (enumerate (length ready) reads) = Ok (m @ [(b, ready @ calls)])"
  using assms(1,2)
proof (induction reads calls arbitrary: ready zs rule: list_all2_induct)
  case (Cons r reads c calls)
  then obtain z zs' where zs: "zs = z # zs'" "length zs' = length reads" by (cases zs) auto
  have "store_read C impl b (m @ [(b, ready @ zs)]) (length ready, r) = Ok (m @ [(b, (ready @ [c]) @ zs')])"
    using Cons.hyps assms(3)
    by (simp add: store_read_def read_arrives_def map_of_last put_last zs list_update_append del: append_assoc map_of_append)
  with Cons.IH [of zs' "ready @ [c]"] zs(2) show ?case by simp
qed simp

lemma batch_stored:
  assumes "list_all2 (read_arrives C impl b) (pcReads pb) calls" and "pcContract pb = Some b" and "map_of m b = None"
  shows "store_batch C impl m pb = Ok (m @ [(b, calls)])"
  using reads_stored [OF assms(1) length_replicate assms(3), where ready = "[]"] assms(2,3)
  by (simp add: store_batch_def convertBoundContractFromProto_def put_new Let_def)

lemma batches_stored:
  assumes "list_all2 (\<lambda>pb (b, calls). pcContract pb = Some b \<and> list_all2 (read_arrives C impl b) (pcReads pb) calls) pbs request"
    and "gomap_wf request" and "gomap_dom m \<inter> gomap_dom request = {}"
  shows "go_foldM (store_batch C impl) m pbs = Ok (m @ request)"
  using assms
proof (induction pbs request arbitrary: m rule: list_all2_induct)
  case (Cons pb pbs bc request)
  obtain b calls where bc: "bc = (b, calls)" by fastforce
  have "store_batch C impl m pb = Ok (m @ [(b, calls)])"
    using Cons.hyps(1) Cons.prems(2) by (intro batch_stored) (auto simp: bc map_of_eq_None_iff)
  with Cons.IH [of "m @ [(b, calls)]"] Cons.prems show ?case by (auto simp: bc)
qed simp

text \<open>The call as the server makes it: parameters as carried, a new object of the return type.\<close>

definition arrived_read :: "(BoundContract \<Rightarrow> 'v BatchRead \<Rightarrow> 'v) \<Rightarrow> (BoundContract \<Rightarrow> string \<Rightarrow> 'v) \<Rightarrow> BoundContract \<Rightarrow> 'v BatchRead \<Rightarrow> 'v BatchRead" where
  "arrived_read param rtype b call = \<lparr>brReadName = brReadName call, brParams = param b call, brReturnVal = rtype b (brReadName call)\<rparr>"

definition read_carried ::
    "('v, 'd, 'b) codec_lib \<Rightarrow> EncodingVersion \<Rightarrow> 'v ContractReader \<Rightarrow> (BoundContract \<Rightarrow> 'v BatchRead \<Rightarrow> 'v) \<Rightarrow> (BoundContract \<Rightarrow> string \<Rightarrow> 'v) \<Rightarrow>
     BoundContract \<Rightarrow> 'v BatchRead \<Rightarrow> bool" where
  "read_carried C e impl param rtype b call \<longleftrightarrow>
     getContractEncodedType C impl (ReadIdentifier b (brReadName call)) False = Ok (rtype b (brReadName call)) \<and>
     (\<exists>t. getContractEncodedType C impl (ReadIdentifier b (brReadName call)) True = Ok t \<and>
        transports C e t (brParams call) (param b call))"

lemma read_round:
  assumes "vlib_laws (cValues C)" and "read_carried C e impl param rtype b call"
  shows "\<exists>r. read_to_proto C e call = Ok r \<and> read_from_proto C impl b r = Ok (arrived_read param rtype b call)"
proof -
  from assms(2) obtain t where t: "getContractEncodedType C impl (ReadIdentifier b (brReadName call)) True = Ok t"
    "transports C e t (brParams call) (param b call)" by (auto simp: read_carried_def)
  with versioned.carried [of C e t "brParams call" "param b call"] assms(1)
  obtain m where "EncodeVersionedBytes C (brParams call) e = Ok m" "DecodeVersionedBytes C t (Some m) = Ok (param b call)" by blast
  with t(1) assms(2) show ?thesis
    by (simp add: read_to_proto_def read_from_proto_def arrived_read_def read_carried_def)
qed

lemma go_mapM_related:
  assumes "\<And>x. x \<in> set xs \<Longrightarrow> \<exists>y. f x = Ok y \<and> R y (h x)"
  shows "\<exists>ys. go_mapM f xs = Ok ys \<and> list_all2 R ys (map h xs)"
  using assms
proof (induction xs)
  case (Cons x xs)
  then obtain y ys where "f x = Ok y" "R y (h x)" "go_mapM f xs = Ok ys" "list_all2 R ys (map h xs)"
    by (metis list.set_intros)
  then show ?case by (auto intro!: exI [of _ "y # ys"])
qed simp

lemma batch_request_round:
  assumes "vlib_laws (cValues C)" and "gomap_wf request"
    and "\<And>b calls call. (b, calls) \<in> set request \<Longrightarrow> call \<in> set calls \<Longrightarrow> read_carried C e impl param rtype b call"
  shows "\<exists>pbs. convertBatchGetLatestValuesRequestToProto C request e = Ok pbs \<and>
    convertBatchGetLatestValuesRequestFromProto C impl pbs = Ok (map (\<lambda>(b, calls). (b, map (arrived_read param rtype b) calls)) request)"
proof -
  let ?R = "\<lambda>pb (b, calls). pcContract pb = Some b \<and> list_all2 (read_arrives C impl b) (pcReads pb) calls"
  let ?f = "\<lambda>(binding, nextBatch). go_map (\<lambda>reads. \<lparr>pcContract = Some (convertBoundContractToProto binding), pcReads = reads\<rparr>)
         (go_mapM (read_to_proto C e) nextBatch)"
  let ?h = "\<lambda>(b, calls). (b, map (arrived_read param rtype b) calls)"
  have "\<exists>pb. ?f x = Ok pb \<and> ?R pb (?h x)" if "x \<in> set request" for x
  proof -
    obtain b calls where x: "x = (b, calls)" by fastforce
    have "\<exists>r. read_to_proto C e call = Ok r \<and> read_arrives C impl b r (arrived_read param rtype b call)" if "call \<in> set calls" for call
      using read_round [OF assms(1) assms(3)] that \<open>x \<in> set request\<close> by (auto simp: x read_arrives_def)
    from go_mapM_related [of calls "read_to_proto C e" "read_arrives C impl b" "arrived_read param rtype b", OF this]
    show ?thesis by (auto simp: x convertBoundContractToProto_def)
  qed
  from go_mapM_related [of request ?f ?R ?h, OF this] obtain pbs where pbs: "go_mapM ?f request = Ok pbs" "list_all2 ?R pbs (map ?h request)"
    by blast
  have "gomap_wf (map ?h request)" using assms(2) by (simp add: comp_def split_def)
  from batches_stored [OF pbs(2) this, of "[]"] pbs(1) show ?thesis
    by (simp add: convertBatchGetLatestValuesRequestToProto_def convertBatchGetLatestValuesRequestFromProto_def)
qed

text \<open>The result as the caller gets it: an error without text is taken for none.\<close>

definition arrived_result :: "('v \<Rightarrow> 'v \<Rightarrow> 'v) \<Rightarrow> 'v BatchRead \<Rightarrow> 'v BatchReadResult \<Rightarrow> 'v BatchReadResult" where
  "arrived_result ret call r =
     \<lparr>rrReadName = rrReadName r, rrReturnValue = ret (brReturnVal call) (rrReturnValue r),
      rrErr = (if rrErr r = Some [] then None else rrErr r)\<rparr>"

lemma GetResult_eq: "GetResult r = (rrReturnValue r, rrErr r)"
  by (simp add: GetResult_def)

lemma results_round:
  assumes "vlib_laws (cValues C)"
    and "list_all2 (\<lambda>call r. transports C es (brReturnVal call) (rrReturnValue r) (ret (brReturnVal call) (rrReturnValue r))) calls rs"
  shows "\<exists>ps. go_mapM (result_to_proto C es) rs = Ok ps \<and> length ps = length rs \<and>
    go_mapM (result_from_proto C) (zip calls ps) = Ok (map2 (arrived_result ret) calls rs)"
  using assms(2)
proof (induction calls rs rule: list_all2_induct)
  case (Cons call calls r rs)
  let ?err = "case rrErr r of None \<Rightarrow> [] | Some e \<Rightarrow> e"
  from Cons obtain ps where ps: "go_mapM (result_to_proto C es) rs = Ok ps" "length ps = length rs"
    "go_mapM (result_from_proto C) (zip calls ps) = Ok (map2 (arrived_result ret) calls rs)" by blast
  obtain m where m: "EncodeVersionedBytes C (rrReturnValue r) es = Ok m"
    "DecodeVersionedBytes C (brReturnVal call) (Some m) = Ok (ret (brReturnVal call) (rrReturnValue r))"
    using versioned.carried [of C es "brReturnVal call" "rrReturnValue r"] Cons.hyps(1) assms(1) by blast
  let ?p = "\<lparr>ptReadName = rrReadName r, ptReturnVal = Some m, ptError = ?err\<rparr>"
  have "result_to_proto C es r = Ok ?p" by (simp add: result_to_proto_def GetResult_eq m(1))
  moreover have "result_from_proto C (call, ?p) = Ok (arrived_result ret call r)"
    by (auto simp: result_from_proto_def SetResult_def arrived_result_def m(2) split: option.splits)
  ultimately show ?case using ps by (auto intro!: exI [of _ "?p # ps"])
qed simp

definition batch_answers ::
    "('v, 'd, 'b) codec_lib \<Rightarrow> EncodingVersion \<Rightarrow> ('v \<Rightarrow> 'v \<Rightarrow> 'v) \<Rightarrow> (BoundContract, 'v BatchRead list) gomap \<Rightarrow>
     BoundContract \<times> 'v BatchReadResult list \<Rightarrow> bool" where
  "batch_answers C es ret request = (\<lambda>(b, rs). \<exists>calls. map_of request b = Some calls \<and>
     list_all2 (\<lambda>call r. transports C es (brReturnVal call) (rrReturnValue r) (ret (brReturnVal call) (rrReturnValue r))) calls rs)"

definition arrived_results :: "('v \<Rightarrow> 'v \<Rightarrow> 'v) \<Rightarrow> (BoundContract, 'v BatchRead list) gomap \<Rightarrow>
    BoundContract \<times> 'v BatchReadResult list \<Rightarrow> BoundContract \<times> 'v BatchReadResult list" where
  "arrived_results ret request = (\<lambda>(b, rs). (b, map2 (arrived_result ret) (the (map_of request b)) rs))"

lemma batch_result_round:
  assumes "vlib_laws (cValues C)" and "batch_answers C es ret request (b, rs)" and "map_of result b = None"
  shows "\<exists>ps. go_mapM (result_to_proto C es) rs = Ok ps \<and>
    parse_batch C request result \<lparr>pzContract = Some b, pzResults = ps\<rparr> = Ok (result @ [arrived_results ret request (b, rs)])"
proof -
  from assms(2) obtain calls where calls: "map_of request b = Some calls"
    "list_all2 (\<lambda>call r. transports C es (brReturnVal call) (rrReturnValue r) (ret (brReturnVal call) (rrReturnValue r))) calls rs"
    by (auto simp: batch_answers_def)
  from results_round [OF assms(1) calls(2)] obtain ps where "go_mapM (result_to_proto C es) rs = Ok ps" "length ps = length rs"
    "go_mapM (result_from_proto C) (zip calls ps) = Ok (map2 (arrived_result ret) calls rs)" by blast
  with calls list_all2_lengthD [OF calls(2)] assms(3) show ?thesis
    by (simp add: parse_batch_def convertBoundContractFromProto_def arrived_results_def put_new)
qed

lemma batch_reply_round:
  assumes "vlib_laws (cValues C)" and "gomap_wf answer" and "\<And>x. x \<in> set answer \<Longrightarrow> batch_answers C es ret request x"
    and "gomap_dom result \<inter> gomap_dom answer = {}"
  shows "\<exists>ps. newPbBatchGetLatestValuesReply C answer es = Ok ps \<and>
    go_foldM (parse_batch C request) result ps = Ok (result @ map (arrived_results ret request) answer)"
  using assms(2-4)
proof (induction answer arbitrary: result)
  case (Cons x answer)
  obtain b rs where x: "x = (b, rs)" by fastforce
  obtain ps where ps: "go_mapM (result_to_proto C es) rs = Ok ps"
    "parse_batch C request result \<lparr>pzContract = Some b, pzResults = ps\<rparr> = Ok (result @ [arrived_results ret request (b, rs)])"
    using batch_result_round [OF assms(1), of es ret request b rs result] Cons.prems by (auto simp: x map_of_eq_None_iff)
  have "gomap_dom (result @ [arrived_results ret request (b, rs)]) \<inter> gomap_dom answer = {}"
    using Cons.prems by (auto simp: x arrived_results_def)
  with Cons.IH [of "result @ [arrived_results ret request (b, rs)]"] Cons.prems obtain qs
    where "newPbBatchGetLatestValuesReply C answer es = Ok qs"
      "go_foldM (parse_batch C request) (result @ [arrived_results ret request (b, rs)]) qs =
        Ok (result @ map (arrived_results ret request) (x # answer))" by (auto simp: x)
  with ps show ?case
    by (auto simp: x newPbBatchGetLatestValuesReply_def convertBoundContractToProto_def)
qed (simp add: newPbBatchGetLatestValuesReply_def)

text \<open>
  C29. A batch through the client and the server is the batch of the implementation: it is asked for the same reads
  of the same contracts in the same order, and when it answers every read of the contracts it answers for, the
  caller gets these answers under their contracts and names, with values as carried into the objects of the
  request. An error of a single read arrives with its answer, unless its text is empty; an error of the whole
  batch is one of the call.
\<close>

theorem batch_transparent:
  assumes "vlib_laws (cValues C)" and "gomap_wf request"
    and "\<And>b calls call. (b, calls) \<in> set request \<Longrightarrow> call \<in> set calls \<Longrightarrow> read_carried C e impl param rtype b call"
    and "asked = map (\<lambda>(b, calls). (b, map (arrived_read param rtype b) calls)) request"
    and "gomap_wf answer" and "\<And>x. x \<in> set answer \<Longrightarrow> batch_answers C es ret request x"
  shows "(crBatchGetLatestValues impl asked = Inr answer \<longrightarrow>
      Client_BatchGetLatestValues C e (Server_BatchGetLatestValues C es impl) request =
        Ok (map (arrived_results ret request) answer)) \<and>
    (crBatchGetLatestValues impl asked = Inl err \<longrightarrow>
      Client_BatchGetLatestValues C e (Server_BatchGetLatestValues C es impl) request = Err (RPC (ImplError err)))"
proof -
  obtain pbs where pbs: "convertBatchGetLatestValuesRequestToProto C request e = Ok pbs"
    "convertBatchGetLatestValuesRequestFromProto C impl pbs = Ok asked"
    using batch_request_round [OF assms(1,2), of e impl param rtype] assms(3,4) by blast
  obtain ps where ps: "newPbBatchGetLatestValuesReply C answer es = Ok ps"
    "go_foldM (parse_batch C request) [] ps = Ok (map (arrived_results ret request) answer)"
    using batch_reply_round [OF assms(1,5), of es ret request "[]"] assms(6) by auto
  from pbs ps show ?thesis
    by (simp add: Client_BatchGetLatestValues_def Server_BatchGetLatestValues_def over_rpc_def from_impl_def
        parseBatchGetLatestValuesReply_def)
qed

section \<open>Queries of several keys over the wire\<close>

lemma fold_put_lookup:
  "distinct (map k xs) \<Longrightarrow> x \<in> set xs \<Longrightarrow> map_of (fold (\<lambda>x. put (k x) (v x)) xs m) (k x) = Some (v x)"
proof (induction xs arbitrary: m)
  case (Cons y ys)
  have "map_of (fold (\<lambda>x. put (k x) (v x)) ys m') (k y) = map_of m' (k y)" for m'
    using Cons.prems(1) by (induction ys arbitrary: m') auto
  with Cons show ?case by auto
qed simp

lemma go_foldM_Oks: "(\<And>m x. x \<in> set xs \<Longrightarrow> f m x = Ok (g x m)) \<Longrightarrow> go_foldM f m xs = Ok (fold g xs m)"
  by (induction xs arbitrary: m) simp_all

text \<open>A query is carried when its filter is and the implementation has a type for its key.\<close>

definition key_query_carried ::
    "('v, 'd, 'b) codec_lib \<Rightarrow> EncodingVersion \<Rightarrow> 'v ContractReader \<Rightarrow> (BoundContract \<Rightarrow> string \<Rightarrow> 'v \<Rightarrow> 'v) \<Rightarrow> (BoundContract \<Rightarrow> string \<Rightarrow> 'v) \<Rightarrow>
     'v ContractKeyFilter \<Rightarrow> bool" where
  "key_query_carried C e impl conv dtype q \<longleftrightarrow> filter_carried C e impl (ckContract q) (conv (ckContract q)) (ckKeyFilter q) \<and>
     getContractEncodedType C impl (ReadIdentifier (ckContract q) (kfKey (ckKeyFilter q))) False =
       Ok (dtype (ckContract q) (kfKey (ckKeyFilter q)))"

definition arrived_key_query ::
    "(BoundContract \<Rightarrow> string \<Rightarrow> 'v \<Rightarrow> 'v) \<Rightarrow> (BoundContract \<Rightarrow> string \<Rightarrow> 'v) \<Rightarrow> 'v ContractKeyFilter \<Rightarrow> 'v ContractKeyFilter" where
  "arrived_key_query conv dtype q =
     \<lparr>ckKeyFilter = arrived_filter (conv (ckContract q)) (ckKeyFilter q), ckContract = ckContract q,
      ckSequenceDataType = dtype (ckContract q) (kfKey (ckKeyFilter q))\<rparr>"

lemma key_query_round:
  assumes "vlib_laws (cValues C)" and "key_query_carried C e impl conv dtype q"
  shows "\<exists>f p. key_query_to_proto C e q = Ok p \<and> p = \<lparr>pkContract = Some (ckContract q), pkFilter = Some f,
      pkAsValueType = cIsValuePtr C (ckSequenceDataType q)\<rparr> \<and> pfKey f = kfKey (ckKeyFilter q) \<and>
    key_query_from_proto C impl p = Ok (arrived_key_query conv dtype q)"
proof -
  from assms(2) have "filter_carried C e impl (ckContract q) (conv (ckContract q)) (ckKeyFilter q)"
    by (simp add: key_query_carried_def)
  from filter_round [OF assms(1) this] obtain f where f: "convertQueryFilterToProto C e (ckKeyFilter q) = Ok f"
    "convertQueryFiltersFromProto C impl (ckContract q) (Some f) = Ok (arrived_filter (conv (ckContract q)) (ckKeyFilter q))" by blast
  have "pfKey f = kfKey (ckKeyFilter q)" using f(1) by (auto simp: convertQueryFilterToProto_def go_map_eq_Ok)
  with f assms(2) show ?thesis
    by (auto simp: key_query_to_proto_def key_query_from_proto_def convertBoundContractToProto_def convertBoundContractFromProto_def
        arrived_key_query_def key_query_carried_def arrived_filter_def)
qed

lemma key_queries_round:
  assumes "vlib_laws (cValues C)" and "\<And>q. q \<in> set qs \<Longrightarrow> key_query_carried C e impl conv dtype q"
    and "distinct (map (kfKey \<circ> ckKeyFilter) qs)"
  shows "\<exists>ps versions. go_mapM (key_query_to_proto C e) qs = Ok ps \<and>
    go_mapM (key_query_from_proto C impl) ps = Ok (map (arrived_key_query conv dtype) qs) \<and>
    key_versions ps es = Ok versions \<and>
    (\<forall>q \<in> set qs. map_of versions (kfKey (ckKeyFilter q)) = Some (reply_encoding C es (ckSequenceDataType q)))"
proof -
  let ?R = "\<lambda>p q. (\<exists>f. pkFilter p = Some f \<and> pfKey f = kfKey (ckKeyFilter q)) \<and>
    pkAsValueType p = cIsValuePtr C (ckSequenceDataType q) \<and> key_query_from_proto C impl p = Ok (arrived_key_query conv dtype q)"
  have "\<exists>p. key_query_to_proto C e q = Ok p \<and> ?R p q" if "q \<in> set qs" for q
    using key_query_round [OF assms(1) assms(2) [OF that]] by auto
  from go_mapM_related [of qs "key_query_to_proto C e" ?R "\<lambda>q. q", OF this] obtain ps
    where ps: "go_mapM (key_query_to_proto C e) qs = Ok ps" "list_all2 ?R ps qs" by auto
  from ps(2) have "go_mapM (key_query_from_proto C impl) ps = Ok (map (arrived_key_query conv dtype) qs)"
    by (induction ps qs rule: list_all2_induct) auto
  moreover have "key_versions ps es =
      Ok (fold (\<lambda>q. put ((kfKey \<circ> ckKeyFilter) q) (reply_encoding C es (ckSequenceDataType q))) qs [])"
  proof -
    let ?step = "\<lambda>m flt. case pkFilter flt of None \<Rightarrow> Panic
      | Some f \<Rightarrow> Ok (put (pfKey f) (if pkAsValueType flt then ValuesEncodingVersion else es) m)"
    have "go_foldM ?step m ps = Ok (fold (\<lambda>q. put ((kfKey \<circ> ckKeyFilter) q) (reply_encoding C es (ckSequenceDataType q))) qs m)" for m
      using ps(2) by (induction ps qs arbitrary: m rule: list_all2_induct) auto
    then show ?thesis by (simp add: key_versions_def)
  qed
  moreover have "map_of (fold (\<lambda>q. put ((kfKey \<circ> ckKeyFilter) q) (reply_encoding C es (ckSequenceDataType q))) qs []) (kfKey (ckKeyFilter q)) =
      Some (reply_encoding C es (ckSequenceDataType q))" if "q \<in> set qs" for q
    using fold_put_lookup [OF assms(3) that, of "\<lambda>q. reply_encoding C es (ckSequenceDataType q)"] by simp
  ultimately show ?thesis using ps(1) by blast
qed

text \<open>
  With distinct keys, each answer is encoded and decoded with the type of the query of its key. (With a key that
  two queries share, the last query decides for both.)
\<close>

definition keyed_carried ::
    "('v, 'd, 'b) codec_lib \<Rightarrow> EncodingVersion \<Rightarrow> 'v ContractKeyFilter list \<Rightarrow> (string \<times> 'v Sequence \<Rightarrow> 'v) \<Rightarrow> string \<times> 'v Sequence \<Rightarrow> bool" where
  "keyed_carried C es qs out ks \<longleftrightarrow> (\<exists>q st nt w. q \<in> set qs \<and> kfKey (ckKeyFilter q) = fst ks \<and>
     getSequenceTypeInformation C (ckSequenceDataType q) = Ok (st, nt) \<and>
     transports C (reply_encoding C es (ckSequenceDataType q)) (cNew C nt) (sqData (snd ks)) w \<and> out ks = value_of_type C st w)"

lemma keyed_sequences_round:
  fixes qs :: "'a ContractKeyFilter list"
  assumes "vlib_laws (cValues C)" and "distinct (map (kfKey \<circ> ckKeyFilter) qs)"
    and "\<And>q. q \<in> set qs \<Longrightarrow> \<exists>t. getSequenceTypeInformation C (ckSequenceDataType q) = Ok t"
    and "\<And>ks. ks \<in> set seqs \<Longrightarrow> keyed_carried C es qs out ks"
    and "\<forall>q \<in> set qs. map_of versions (kfKey (ckKeyFilter q)) = Some (reply_encoding C es (ckSequenceDataType q))"
    and "key_versions ps es = Ok versions"
  shows "\<exists>rs. convertSequencesWithKeyToVersionedBytesProto C seqs ps es = Ok rs \<and>
    convertSequencesWithKeyFromProto C rs qs = Ok (map (\<lambda>ks. (fst ks, (snd ks)\<lparr>sqData := out ks\<rparr>)) seqs)"
proof -
  define tinfo where "tinfo q = (case getSequenceTypeInformation C (ckSequenceDataType q) of Ok t \<Rightarrow> t | _ \<Rightarrow> (NilType, NilType))" for q :: "'a ContractKeyFilter"
  have tinfo: "getSequenceTypeInformation C (ckSequenceDataType q) = Ok (tinfo q)" if "q \<in> set qs" for q
    using assms(3) [OF that] by (auto simp: tinfo_def)
  let ?types = "fold (\<lambda>q. put ((kfKey \<circ> ckKeyFilter) q) (tinfo q)) qs []"
  have types: "go_foldM (\<lambda>m q. go_map (\<lambda>t. put (kfKey (ckKeyFilter q)) t m) (getSequenceTypeInformation C (ckSequenceDataType q))) [] qs = Ok ?types"
    by (rule go_foldM_Oks) (simp add: tinfo)
  let ?f = "\<lambda>(k, s). case map_of versions k of None \<Rightarrow> Err (MissingVersion k) | Some version \<Rightarrow> go_map (Pair k) (sequence_to_proto C version s)"
  let ?g = "\<lambda>(k, s). case map_of ?types k of None \<Rightarrow> Panic | Some t \<Rightarrow> go_map (Pair k) (sequence_from_proto C t s)"
  have "\<exists>y. ?f ks = Ok y \<and> ?g y = Ok (fst ks, (snd ks)\<lparr>sqData := out ks\<rparr>)" if "ks \<in> set seqs" for ks
  proof -
    obtain k s where ks: "ks = (k, s)" by fastforce
    from assms(4) [OF that] obtain q st nt w where q: "q \<in> set qs" "kfKey (ckKeyFilter q) = k"
      "getSequenceTypeInformation C (ckSequenceDataType q) = Ok (st, nt)"
      "transports C (reply_encoding C es (ckSequenceDataType q)) (cNew C nt) (sqData s) w" "out ks = value_of_type C st w"
      by (auto simp: keyed_carried_def ks)
    have "map_of ?types k = Some (st, nt)"
      using fold_put_lookup [OF assms(2) q(1), of tinfo "[]"] q(2,3) tinfo [OF q(1)] by simp
    moreover obtain p where "sequence_to_proto C (reply_encoding C es (ckSequenceDataType q)) s = Ok p"
      "sequence_from_proto C (st, nt) p = Ok (s\<lparr>sqData := value_of_type C st w\<rparr>)"
      using sequence_round [OF assms(1) q(4)] by blast
    moreover have "map_of versions k = Some (reply_encoding C es (ckSequenceDataType q))" using assms(5) q(1,2) by blast
    ultimately show ?thesis using q(5) by (auto simp: ks)
  qed
  from go_mapM_chain [of seqs ?f ?g "\<lambda>ks. (fst ks, (snd ks)\<lparr>sqData := out ks\<rparr>)", OF this]
  show ?thesis using assms(6) types
    by (auto simp: convertSequencesWithKeyToVersionedBytesProto_def convertSequencesWithKeyFromProto_def)
qed

lemma queries_transparent:
  assumes "vlib_laws (cValues C)" and "distinct (map (kfKey \<circ> ckKeyFilter) qs)" and "limit_ok ls"
    and "\<And>q. q \<in> set qs \<Longrightarrow> key_query_carried C e impl conv dtype q"
    and "\<And>q. q \<in> set qs \<Longrightarrow> \<exists>t. getSequenceTypeInformation C (ckSequenceDataType q) = Ok t"
    and "crQueryKeys impl (map (arrived_key_query conv dtype) qs) (arrived_limit ls) = Inr seqs"
    and "\<And>ks. ks \<in> set seqs \<Longrightarrow> keyed_carried C es qs out ks"
  shows "Client_QueryKeys C e (Server_QueryKeys C es impl) qs ls = Ok (map (\<lambda>ks. (fst ks, (snd ks)\<lparr>sqData := out ks\<rparr>)) seqs)"
proof -
  obtain ps versions where ps: "go_mapM (key_query_to_proto C e) qs = Ok ps"
    "go_mapM (key_query_from_proto C impl) ps = Ok (map (arrived_key_query conv dtype) qs)" "key_versions ps es = Ok versions"
    "\<forall>q \<in> set qs. map_of versions (kfKey (ckKeyFilter q)) = Some (reply_encoding C es (ckSequenceDataType q))"
    using key_queries_round [OF assms(1) assms(4) assms(2)] by blast
  obtain pl where "convertLimitAndSortToProto ls = Ok pl" "convertLimitAndSortFromProto (Some pl) = Ok (arrived_limit ls)"
    using limit_round [OF assms(3)] by blast
  moreover obtain rs where "convertSequencesWithKeyToVersionedBytesProto C seqs ps es = Ok rs"
    "convertSequencesWithKeyFromProto C rs qs = Ok (map (\<lambda>ks. (fst ks, (snd ks)\<lparr>sqData := out ks\<rparr>)) seqs)"
    using keyed_sequences_round [OF assms(1,2,5,7) ps(4,3)] by blast
  ultimately show ?thesis using ps(1,2) assms(6)
    by (auto simp: Client_QueryKeys_def Server_QueryKeys_def over_rpc_def from_impl_def)
qed

section \<open>A concrete instance\<close>

text \<open>Objects are bytes, which every encoding leaves as they are; \<open>[9]\<close> stands for a \<^verbatim>\<open>*values.Value\<close>.\<close>

definition plain_codec :: "(bytes, int \<times> 32 word, unit) codec_lib" where
  "plain_codec = \<lparr>cJSONMarshal = Some, cJSONDecode = (\<lambda>t. Some), cJSON2Marshal = Some, cJSON2Unmarshal = (\<lambda>t. Some),
     cCBORMarshal = Some, cCBORUnmarshal = (\<lambda>t. Some), cAny = ABytes,
     cMarshalValue = (\<lambda>p. case p of PBytes b \<Rightarrow> Some b | _ \<Rightarrow> None), cUnmarshalValue = (\<lambda>b. Some (PBytes b)),
     cIsValuePtr = (\<lambda>t. t = [9]), cSetValue = (\<lambda>v. case v of VBytes b \<Rightarrow> b | _ \<Rightarrow> []),
     cUnwrapTo = (\<lambda>v t. case v of VBytes b \<Rightarrow> Some b | _ \<Rightarrow> None), cValues = pair_vlib,
     cTypeOf = (\<lambda>_. Pointer (Base ())), cNew = (\<lambda>_. []), cIndirect = (\<lambda>v. v), cEmptyMap = [], cNil = []\<rparr>"

definition plain_reader :: "bytes ContractReader" where
  "plain_reader = \<lparr>crCreateContractType = None, crGetLatestValue = (\<lambda>rid conf p t. Inr (p @ [1])),
     crGetLatestValueWithHeadData = (\<lambda>rid conf p t. Inr (p @ [1], Some \<lparr>hdHeight = ''7'', hdHash = [], hdTimestamp = 3\<rparr>)),
     crBatchGetLatestValues = (\<lambda>req. Inr (map (\<lambda>(b, calls).
        (b, map (\<lambda>c. \<lparr>rrReadName = brReadName c, rrReturnValue = brParams c, rrErr = Some ''no''\<rparr>) calls)) req)),
     crQueryKey = (\<lambda>b f ls t. Inr [\<lparr>sqCursor = ''c'', sqHead = \<lparr>hdHeight = ''7'', hdHash = [], hdTimestamp = 3\<rparr>, sqData = [4, 5]\<rparr>]),
     crQueryKeys = (\<lambda>qs ls. Inr [])\<rparr>"

lemma plain_transports: "version \<in> {0, 1, 2, 3} \<Longrightarrow> transports plain_codec version t v v"
  by (auto simp: transports_def plain_codec_def version_defs)

lemma plain_type: "getContractEncodedType plain_codec plain_reader rid enc = Ok []"
  by (simp add: getContractEncodedType_def plain_reader_def plain_codec_def)

lemma plain_values: "vlib_laws (cValues plain_codec)"
  by (simp add: plain_codec_def)

abbreviation sample_sequence :: "bytes Sequence" where
  "sample_sequence \<equiv> \<lparr>sqCursor = ''c'', sqHead = \<lparr>hdHeight = ''7'', hdHash = [], hdTimestamp = 3\<rparr>, sqData = [4, 5]\<rparr>"

lemma plain_simps:
  "cIsValuePtr plain_codec t = (t = [9])" "crQueryKey plain_reader b f ls t = Inr [sample_sequence]"
  "crGetLatestValue plain_reader rid conf p t = Inr (p @ [1])"
  by (simp_all add: plain_codec_def plain_reader_def)

abbreviation sample_filter :: "bytes KeyFilter" where
  "sample_filter \<equiv> \<lparr>kfKey = ''k'', kfExpressions = [Or [Comparator ''x'' [\<lparr>vcValue = [1], vcOperator = Gte\<rparr>], Block ''5'' Lt],
     Confidence Finalized]\<rparr>"

abbreviation sample_contract :: BoundContract where
  "sample_contract \<equiv> \<lparr>bcAddress = ''0x'', bcName = ''c''\<rparr>"

theorem query_transparent_witness:
  "Client_QueryKey plain_codec 2 (Server_QueryKey plain_codec 1 plain_reader) sample_contract sample_filter
     (NewLimitAndSort (CountLimit 10) [SortByBlock Desc]) [] =
   Ok [sample_sequence]"
proof -
  let ?ls = "NewLimitAndSort (CountLimit 10) [SortByBlock Desc]"
  have "filter_carried plain_codec 2 plain_reader sample_contract (\<lambda>n v. v) sample_filter"
    by (auto simp: filter_carried_def Or_def primitive_defs prim_def comparand_carried_def plain_type plain_transports
        fits_enum_def of_enum_def to_enum_def Gte_def Lt_def)
  moreover have "limit_ok ?ls"
    by (auto simp: limit_ok_def NewLimitAndSort_def CountLimit_def fits_enum_def of_enum_def to_enum_def Desc_def)
  moreover have "getSequenceTypeInformation plain_codec [] = Ok (Pointer (Base ()), Base ())"
    by (simp add: getSequenceTypeInformation_def plain_codec_def)
  ultimately show ?thesis
    using query_transparent [OF plain_values, of 2 plain_reader sample_contract "\<lambda>n v. v" sample_filter ?ls "[]" "[]"
        "Pointer (Base ())" "Base ()" "[sample_sequence]" 1 "\<lambda>v. v"]
    by (simp add: plain_type plain_transports plain_simps value_of_type_def pointer_type_def)
qed

lemma latest_value_transparent_witness:
  "Client_GetLatestValue plain_codec 0 (Server_GetLatestValue plain_codec plain_reader) ''id'' Unconfirmed [6] [9] = Ok [6, 1]"
  using latest_value_transparent [OF plain_values, of plain_reader "''id''" "[]" 0 "[6]" "[6]" "[]" "[9]" "[6, 1]" "[6, 1]" True Unconfirmed]
  by (simp add: plain_type plain_transports plain_simps version_defs)

abbreviation sample_batch :: "(BoundContract, bytes BatchRead list) gomap" where
  "sample_batch \<equiv> [(sample_contract, [\<lparr>brReadName = ''r'', brParams = [2], brReturnVal = [3]\<rparr>])]"

theorem batch_transparent_witness:
  "Client_BatchGetLatestValues plain_codec 3 (Server_BatchGetLatestValues plain_codec 2 plain_reader) sample_batch =
     Ok [(sample_contract, [\<lparr>rrReadName = ''r'', rrReturnValue = [2], rrErr = Some ''no''\<rparr>])]"
proof -
  let ?answer = "[(sample_contract, [\<lparr>rrReadName = ''r'', rrReturnValue = [2] :: bytes, rrErr = Some ''no''\<rparr>])]"
  let ?asked = "[(sample_contract, [\<lparr>brReadName = ''r'', brParams = [2] :: bytes, brReturnVal = []\<rparr>])]"
  have "read_carried plain_codec 3 plain_reader (\<lambda>b c. brParams c) (\<lambda>b n. []) b call" for b call
    by (simp add: read_carried_def plain_type plain_transports)
  moreover have "batch_answers plain_codec 2 (\<lambda>t v. v) sample_batch x" if "x \<in> set ?answer" for x
    using that by (auto simp: batch_answers_def plain_transports)
  moreover have "crBatchGetLatestValues plain_reader ?asked = Inr ?answer" by (simp add: plain_reader_def)
  ultimately show ?thesis
    using batch_transparent [OF plain_values, of sample_batch 3 plain_reader "\<lambda>b c. brParams c" "\<lambda>b n. []" ?asked ?answer 2 "\<lambda>t v. v"]
    by (simp add: arrived_read_def arrived_results_def arrived_result_def)
qed

section \<open>Where the boundary shows\<close>

text \<open>
  The sorting is lost with a cursor. A nil value in the values encoding makes the receiver panic. A read that failed
  with an empty text succeeds. A message without a limit makes the server panic. The direction of a cursor to
  earlier entries is the wire's constant for following ones.
\<close>

lemma cursor_loses_sorting:
  "convertLimitAndSortToProto (NewLimitAndSort (CursorLimit ''c'' CursorPrevious n) [SortBySequence Desc]) = Ok q \<Longrightarrow>
     convertLimitAndSortFromProto (Some q) = Ok (NewLimitAndSort (CursorLimit ''c'' CursorPrevious n) []) \<and>
     plDirection (the (paLimit q)) = Some 1"
  by (auto simp: convertLimitAndSortToProto_def convertLimitAndSortFromProto_def HasCursorLimit_def NewLimitAndSort_def
      CursorLimit_def CursorPrevious_def sort_from_proto_def Let_def)

lemma nil_value_panics:
  assumes "cAny C v = ANil" and "cMarshalValue C PNone = Some b" and "cUnmarshalValue C b = Some PNone" and "\<not> cIsValuePtr C t"
  shows "\<exists>m. EncodeVersionedBytes C v ValuesEncodingVersion = Ok m \<and> DecodeVersionedBytes C t (Some m) = Panic"
  using assms by (simp add: EncodeVersionedBytes_def DecodeVersionedBytes_def marshalled_def version_defs)

lemma empty_error_lost: "rrErr (arrived_result ret call (r\<lparr>rrErr := Some []\<rparr>)) = None"
  by (simp add: arrived_result_def)

lemma missing_parts_panic:
  "convertLimitAndSortFromProto None = Panic" "convertLimitAndSortFromProto (Some \<lparr>paSortBy = [], paLimit = None\<rparr>) = Panic"
  "Server_QueryKey C es impl \<lparr>qkContract = None, qkFilter = f, qkLimitAndSort = l, qkAsValueType = a\<rparr> = Panic"
  by (simp_all add: convertLimitAndSortFromProto_def Server_QueryKey_def convertBoundContractFromProto_def)

end
