(* ===== verification/Feeds.thy ===== *)
theory Feeds
  imports ConsensusTypes "HOL-Library.List_Lexorder" "HOL-Library.Char_ord"
begin

text \<open>
  The data feeds aggregator (\<^verbatim>\<open>pkg/capabilities/consensus/ocr3/datafeeds/feeds_aggregator.go\<close>) and the
  feed identifiers and trigger events it works on (\<^verbatim>\<open>pkg/capabilities/datastreams/types.go\<close>).
  The oracles first agree on the signers of the trigger DON and on the number of signatures a
  report needs; the latest validly signed report of every configured feed is then reported when
  its price deviates or its heartbeat has passed.

  The report codec is an interface implemented elsewhere: \<open>unwrapReports\<close> and \<open>validate\<close> are its
  methods, \<open>unwrapEvent\<close> is \<^verbatim>\<open>UnwrapTo\<close> a trigger event (\<open>None\<close> for an error). The arithmetic of
  \<^verbatim>\<open>float64\<close> is the record \<open>flib\<close>. \<open>it\<close> and \<open>ite\<close> are the orders in which the map of signers
  and the map of events are visited.
\<close>

section \<open>Floating point\<close>

record 'd flib =
  flOfBig :: "int \<Rightarrow> float64"
  flOfInt64 :: "int64 \<Rightarrow> float64"
  flMul :: "float64 \<Rightarrow> float64 \<Rightarrow> float64"
  flSub :: "float64 \<Rightarrow> float64 \<Rightarrow> float64"
  flDiv :: "float64 \<Rightarrow> float64 \<Rightarrow> float64"
  flGt :: "float64 \<Rightarrow> float64 \<Rightarrow> bool"
  dInexactFloat64 :: "'d \<Rightarrow> float64"
  dParse :: "string \<Rightarrow> 'd option"

definition MaxFloat64 :: float64 where "MaxFloat64 = 0x7FEFFFFFFFFFFFFF"
definition One64 :: float64 where "One64 = 0x3FF0000000000000"

section \<open>Feed identifiers\<close>

text \<open>\<^verbatim>\<open>hex.DecodeString\<close>: what was decoded before an error, and whether there was one.\<close>

definition hex_digit :: "char \<Rightarrow> nat option" where
  "hex_digit c =
     (let n = (of_char c :: nat)
      in if 48 \<le> n \<and> n \<le> 57 then Some (n - 48)
         else if 97 \<le> n \<and> n \<le> 102 then Some (n - 87)
         else if 65 \<le> n \<and> n \<le> 70 then Some (n - 55)
         else None)"

fun hex_decode :: "string \<Rightarrow> bytes \<times> bool" where
  "hex_decode [] = ([], True)"
| "hex_decode [c] = ([], False)"
| "hex_decode (c # d # cs) =
     (case (hex_digit c, hex_digit d) of
        (Some h, Some l) \<Rightarrow> (case hex_decode cs of (bs, ok) \<Rightarrow> (of_nat (16 * h + l) # bs, ok))
      | _ \<Rightarrow> ([], False))"

definition hex_char :: "nat \<Rightarrow> char" where
  "hex_char n = char_of (if n < 10 then 48 + n else 87 + n)"

fun hex_encode :: "bytes \<Rightarrow> string" where
  "hex_encode [] = []"
| "hex_encode (b # bs) = hex_char (unat b div 16) # hex_char (unat b mod 16) # hex_encode bs"

definition to_lower :: "char \<Rightarrow> char" where
  "to_lower c = (let n = (of_char c :: nat) in if 65 \<le> n \<and> n \<le> 90 then char_of (n + 32) else c)"

definition FeedIDBytesLen :: nat where "FeedIDBytesLen = 32"

definition FeedID_validate :: "string \<Rightarrow> bool" where
  "FeedID_validate s \<longleftrightarrow>
     length s = 2 * FeedIDBytesLen + 2 \<and> take 2 s = ''0x'' \<and> map to_lower s = s \<and>
     snd (hex_decode (drop 2 s))"

definition NewFeedID :: "string \<Rightarrow> string option" where
  "NewFeedID s = (if FeedID_validate s then Some s else None)"

text \<open>
  \<^verbatim>\<open>FeedID.Bytes\<close>: slicing a shorter string panics, and so does the conversion of fewer bytes to
  an array.
\<close>

definition FeedID_Bytes :: "string \<Rightarrow> ('e, bytes) go" where
  "FeedID_Bytes s =
     (if length s < 2 then Panic
      else let b = fst (hex_decode (drop 2 s))
           in if length b < FeedIDBytesLen then Panic else Ok (take FeedIDBytesLen b))"

definition FeedIDFromBytes :: "bytes \<Rightarrow> string" where
  "FeedIDFromBytes b = ''0x'' @ hex_encode b"

section \<open>Trigger events\<close>

record FeedReport =
  frFeedID :: string
  frFullReport :: bytes
  frReportContext :: bytes
  frSignatures :: "bytes list"
  frBenchmarkPrice :: bytes
  frObservationTimestamp :: int64

record StreamsMetadata =
  smSigners :: "bytes list"
  smMinRequiredSignatures :: int

record StreamsTriggerEvent =
  stPayload :: "FeedReport list"
  stMetadata :: StreamsMetadata
  stTimestamp :: int64

datatype unwrap_error = NotAMap | MissingKey string | WrongType string

definition getStringField ::
    "(string \<times> 'd Value) list \<Rightarrow> string \<Rightarrow> (unwrap_error, string) go" where
  "getStringField mp key =
     (case map_of mp key of
        None \<Rightarrow> Err (MissingKey key)
      | Some (VString s) \<Rightarrow> Ok s
      | Some _ \<Rightarrow> Err (WrongType key))"

definition getBytesField ::
    "(string \<times> 'd Value) list \<Rightarrow> string \<Rightarrow> (unwrap_error, bytes) go" where
  "getBytesField mp key =
     (case map_of mp key of
        None \<Rightarrow> Err (MissingKey key)
      | Some (VBytes b) \<Rightarrow> Ok b
      | Some _ \<Rightarrow> Err (WrongType key))"

definition unwrap_signature :: "'d Value \<Rightarrow> (unwrap_error, bytes) go" where
  "unwrap_signature sig = (case sig of VBytes b \<Rightarrow> Ok b | _ \<Rightarrow> Err (WrongType ''signature''))"

definition unwrap_report :: "'d Value \<Rightarrow> (unwrap_error, FeedReport) go" where
  "unwrap_report v =
     (case v of
        VMap mp \<Rightarrow>
          go_bind (getStringField mp ''FeedID'') (\<lambda>feedID.
          go_bind (getBytesField mp ''FullReport'') (\<lambda>full.
          go_bind (getBytesField mp ''ReportContext'') (\<lambda>ctx.
          case map_of mp ''Signatures'' of
            None \<Rightarrow> Err (MissingKey ''Signatures'')
          | Some (VList sigs) \<Rightarrow>
              go_map (\<lambda>ss. \<lparr>frFeedID = feedID, frFullReport = full, frReportContext = ctx,
                            frSignatures = ss, frBenchmarkPrice = [], frObservationTimestamp = 0\<rparr>)
                (go_mapM unwrap_signature sigs)
          | Some _ \<Rightarrow> Err (WrongType ''Signatures''))))
      | _ \<Rightarrow> Err NotAMap)"

definition UnwrapStreamsTriggerEventToFeedReportList ::
    "'d Value \<Rightarrow> (unwrap_error, FeedReport list) go" where
  "UnwrapStreamsTriggerEventToFeedReportList wrapped =
     (case wrapped of
        VMap m \<Rightarrow>
          (case map_of m ''Payload'' of
             None \<Rightarrow> Err (MissingKey ''Payload'')
           | Some (VList l) \<Rightarrow> go_mapM unwrap_report l
           | Some _ \<Rightarrow> Err (WrongType ''Payload''))
      | _ \<Rightarrow> Err NotAMap)"

section \<open>Configuration\<close>

record 'd FeedConfig =
  fcHeartbeat :: int64
  fcDeviation :: string
  fcRemappedIDHex :: string
  fcParsedDeviation :: 'd
  fcRemappedID :: bytes

definition HeartbeatNanos :: "'d FeedConfig \<Rightarrow> int64" where
  "HeartbeatNanos c = fcHeartbeat c * 1000000000"

record 'd feeds_config =
  Feeds :: "(string, 'd FeedConfig) gomap"
  AllowedPartialStaleness :: float64
  AllowedPartialStalenessStr :: string

datatype feeds_config_error =
    BadFeedID string | BadDeviation string | BadRemappedID string | BadStaleness | FeedsDecode

definition parse_feed ::
    "'d flib \<Rightarrow> string \<times> 'd FeedConfig \<Rightarrow> (feeds_config_error, string \<times> 'd FeedConfig) go" where
  "parse_feed F = (\<lambda>(feedID, feedCfg).
     go_bind
       (if fcDeviation feedCfg \<noteq> [] then
          if NewFeedID feedID = None then Err (BadFeedID feedID)
          else (case dParse F (fcDeviation feedCfg) of
                  None \<Rightarrow> Err (BadDeviation feedID)
                | Some dec \<Rightarrow> Ok (feedCfg\<lparr>fcParsedDeviation := dec\<rparr>))
        else Ok feedCfg) (\<lambda>feedCfg.
     if take 2 (fcRemappedIDHex feedCfg) = ''0x'' then
       (case hex_decode (drop 2 (fcRemappedIDHex feedCfg)) of
          (raw, True) \<Rightarrow> Ok (feedID, feedCfg\<lparr>fcRemappedID := raw\<rparr>)
        | (raw, False) \<Rightarrow> Err (BadRemappedID feedID))
     else Ok (feedID, feedCfg)))"

definition feeds_ParseConfig ::
    "'d flib \<Rightarrow> (feeds_config_error, 'd feeds_config) go \<Rightarrow>
     (feeds_config_error, 'd feeds_config) go" where
  "feeds_ParseConfig F decoded =
     go_bind decoded (\<lambda>cfg.
     go_bind (go_mapM (parse_feed F) (Feeds cfg)) (\<lambda>fds.
       if AllowedPartialStalenessStr cfg \<noteq> [] then
         (case dParse F (AllowedPartialStalenessStr cfg) of
            None \<Rightarrow> Err BadStaleness
          | Some d \<Rightarrow> Ok (cfg\<lparr>Feeds := fds, AllowedPartialStaleness := dInexactFloat64 F d\<rparr>))
       else Ok (cfg\<lparr>Feeds := fds\<rparr>)))"

section \<open>Signers and payloads\<close>

definition addrLen :: nat where "addrLen = 20"

text \<open>The set of the signers one node names; one signer of a wrong length spoils the list.\<close>

definition extractUniqueSigners :: "bytes list \<Rightarrow> (unit, bytes list) go" where
  "extractUniqueSigners signers =
     go_foldM (\<lambda>unique signer.
        if length signer \<noteq> addrLen then Err () else Ok (List.insert signer unique)) [] signers"

record 'd signer_votes =
  svEvents :: "(OracleID, 'd Value) gomap"
  svSigners :: "(bytes, nat) gomap"
  svMins :: "(int, nat) gomap"

definition collect_node ::
    "('d Value \<Rightarrow> StreamsTriggerEvent option) \<Rightarrow> 'd signer_votes \<Rightarrow> OracleID \<times> 'd Value list \<Rightarrow>
     'd signer_votes" where
  "collect_node unwrapEvent sv = (\<lambda>(nodeID, nodeObservations).
     if nodeObservations = [] \<or> hd nodeObservations = VNil then sv
     else if length nodeObservations > 1 then sv
     else case unwrapEvent (hd nodeObservations) of
         None \<Rightarrow> sv
       | Some triggerEvent \<Rightarrow>
           (case extractUniqueSigners (smSigners (stMetadata triggerEvent)) of
              Ok currentNodeSigners \<Rightarrow>
                \<lparr>svEvents = put nodeID (hd nodeObservations) (svEvents sv),
                 svSigners = incr_all currentNodeSigners (svSigners sv),
                 svMins = incr (smMinRequiredSignatures (stMetadata triggerEvent)) (svMins sv)\<rparr>
            | _ \<Rightarrow> sv))"

definition extractSignersAndPayloads ::
    "('d Value \<Rightarrow> StreamsTriggerEvent option) \<Rightarrow> ((bytes \<times> nat) list \<Rightarrow> (bytes \<times> nat) list) \<Rightarrow>
     'd observations \<Rightarrow> nat \<Rightarrow> bytes list \<times> int \<times> (OracleID, 'd Value) gomap" where
  "extractSignersAndPayloads unwrapEvent it observations fConsensus =
     (let sv = foldl (collect_node unwrapEvent)
                 \<lparr>svEvents = [], svSigners = [], svMins = []\<rparr> observations;
          allowedSigners = [signer. (signer, cnt) \<leftarrow> it (svSigners sv), cnt \<ge> fConsensus + 1];
          minRequired = foldl (\<lambda>m (minCandidate, cnt).
             if cnt \<ge> fConsensus + 1 \<and> minCandidate > m then minCandidate else m) 0 (svMins sv)
      in (allowedSigners, minRequired, svEvents sv))"

section \<open>The latest report of each feed\<close>

definition consider_report ::
    "(FeedReport \<Rightarrow> bytes list \<Rightarrow> int \<Rightarrow> bool) \<Rightarrow> bytes list \<Rightarrow> int \<Rightarrow>
     (string, FeedReport) gomap \<Rightarrow> FeedReport \<Rightarrow> (string, FeedReport) gomap" where
  "consider_report validate allowedSigners minRequired latest report =
     (if (case map_of latest (frFeedID report) of
            None \<Rightarrow> True
          | Some l \<Rightarrow> frObservationTimestamp l <s frObservationTimestamp report)
      then if validate report allowedSigners minRequired
           then put (frFeedID report) report latest else latest
      else latest)"

definition latest_reports ::
    "('d Value \<Rightarrow> FeedReport list option) \<Rightarrow> (FeedReport \<Rightarrow> bytes list \<Rightarrow> int \<Rightarrow> bool) \<Rightarrow>
     bytes list \<Rightarrow> int \<Rightarrow> (OracleID \<times> 'd Value) list \<Rightarrow> (string, FeedReport) gomap" where
  "latest_reports unwrapReports validate allowedSigners minRequired events =
     foldl (\<lambda>latest (nodeID, event).
        case unwrapReports event of
          None \<Rightarrow> latest
        | Some reports \<Rightarrow>
            foldl (consider_report validate allowedSigners minRequired) latest reports) [] events"

section \<open>State\<close>

record MercuryInfo =
  miObservationTimestamp :: int64
  miBenchmarkPrice :: bytes

type_synonym feed_state = "(string, MercuryInfo) gomap"

definition feeds_initializeCurrentState ::
    "(bytes \<Rightarrow> feed_state option) \<Rightarrow> 'd feeds_config \<Rightarrow> AggregationOutcome option \<Rightarrow>
     (agg_error, feed_state) go" where
  "feeds_initializeCurrentState unmarshalState cfg previousOutcome =
     go_map (\<lambda>state0.
        let state1 = foldl (\<lambda>st (feedID, c).
              case map_of st feedID of
                None \<Rightarrow> put feedID \<lparr>miObservationTimestamp = 0, miBenchmarkPrice = be_bytes 0\<rparr> st
              | Some _ \<Rightarrow> st) state0 (Feeds cfg)
        in filter (\<lambda>(feedID, info). map_of (Feeds cfg) feedID \<noteq> None) state1)
       (case previousOutcome of
          None \<Rightarrow> Ok []
        | Some prev \<Rightarrow>
            (case unmarshalState (OutcomeMetadata prev) of
               None \<Rightarrow> Err UnmarshalError | Some st \<Rightarrow> Ok st))"

section \<open>Deviation and heartbeat\<close>

definition feed_deviation :: "'d flib \<Rightarrow> int \<Rightarrow> int \<Rightarrow> float64" where
  "feed_deviation F oldPrice newPrice =
     (let diff = \<bar>oldPrice - newPrice\<bar>
      in if oldPrice = 0 then if diff = 0 then 0 else MaxFloat64
         else flDiv F (flOfBig F diff) (flOfBig F oldPrice))"

text \<open>The two tests of the loop: an update is due, or it may join a batch.\<close>

definition update_due :: "'d flib \<Rightarrow> 'd FeedConfig \<Rightarrow> MercuryInfo \<Rightarrow> FeedReport \<Rightarrow> bool" where
  "update_due F config prev report \<longleftrightarrow>
     (let oldPrice = int (be_nat (miBenchmarkPrice prev));
          newPrice = int (be_nat (frBenchmarkPrice report));
          currStaleness = frObservationTimestamp report - miObservationTimestamp prev
      in fcHeartbeat config <s currStaleness \<or>
         flGt F (feed_deviation F oldPrice newPrice) (dInexactFloat64 F (fcParsedDeviation config)))"

definition update_allowed ::
    "'d flib \<Rightarrow> float64 \<Rightarrow> 'd FeedConfig \<Rightarrow> MercuryInfo \<Rightarrow> FeedReport \<Rightarrow> bool" where
  "update_allowed F staleness config prev report \<longleftrightarrow>
     flGt F (flOfInt64 F (frObservationTimestamp report - miObservationTimestamp prev))
       (flMul F (flOfInt64 F (fcHeartbeat config)) (flSub F One64 staleness))"

definition info_of :: "FeedReport \<Rightarrow> MercuryInfo" where
  "info_of report = \<lparr>miObservationTimestamp = frObservationTimestamp report,
                     miBenchmarkPrice = frBenchmarkPrice report\<rparr>"

definition zero_feed_config :: "'d \<Rightarrow> 'd FeedConfig" where
  "zero_feed_config zero = \<lparr>fcHeartbeat = 0, fcDeviation = [], fcRemappedIDHex = [],
     fcParsedDeviation = zero, fcRemappedID = []\<rparr>"

definition feed_config_of :: "'d \<Rightarrow> 'd feeds_config \<Rightarrow> string \<Rightarrow> 'd FeedConfig" where
  "feed_config_of zero cfg feedID =
     (case map_of (Feeds cfg) feedID of None \<Rightarrow> zero_feed_config zero | Some c \<Rightarrow> c)"

definition check_feed ::
    "'d flib \<Rightarrow> 'd \<Rightarrow> 'd feeds_config \<Rightarrow> (string, FeedReport) gomap \<Rightarrow>
     feed_state \<times> FeedReport list \<times> string list \<Rightarrow> string \<Rightarrow>
     feed_state \<times> FeedReport list \<times> string list" where
  "check_feed F zero cfg latestReportPerFeed = (\<lambda>(state, needing, candidates) feedIDStr.
     case (map_of state feedIDStr, NewFeedID feedIDStr) of
       (Some prev, Some feedID) \<Rightarrow>
         (case map_of latestReportPerFeed feedID of
            None \<Rightarrow> (state, needing, candidates)
          | Some latest \<Rightarrow>
              let config = feed_config_of zero cfg feedID
              in if update_due F config prev latest
                 then (put feedIDStr (info_of latest) state, needing @ [latest], candidates)
                 else if update_allowed F (AllowedPartialStaleness cfg) config prev latest
                 then (state, needing, candidates @ [feedIDStr])
                 else (state, needing, candidates))
     | _ \<Rightarrow> (state, needing, candidates))"

text \<open>The batching step. A missing map entry reads as the zero report.\<close>

definition zero_report :: FeedReport where
  "zero_report = \<lparr>frFeedID = [], frFullReport = [], frReportContext = [], frSignatures = [],
     frBenchmarkPrice = [], frObservationTimestamp = 0\<rparr>"

definition add_candidate ::
    "(string, FeedReport) gomap \<Rightarrow> feed_state \<times> FeedReport list \<Rightarrow> string \<Rightarrow>
     feed_state \<times> FeedReport list" where
  "add_candidate latestReportPerFeed = (\<lambda>(state, needing) feedIDStr.
     let latest = (case map_of latestReportPerFeed feedIDStr of Some r \<Rightarrow> r | None \<Rightarrow> zero_report)
     in (put feedIDStr (info_of latest) state, needing @ [latest]))"

definition select_updates ::
    "'d flib \<Rightarrow> 'd \<Rightarrow> 'd feeds_config \<Rightarrow> (string, FeedReport) gomap \<Rightarrow> feed_state \<Rightarrow>
     feed_state \<times> FeedReport list" where
  "select_updates F zero cfg latest state0 =
     (case foldl (check_feed F zero cfg latest) (state0, [], []) (sort (map fst state0)) of
        (state1, needing, candidates) \<Rightarrow>
          if needing \<noteq> [] then foldl (add_candidate latest) (state1, needing) candidates
          else (state1, needing))"

section \<open>Aggregation\<close>

definition report_entry ::
    "'d \<Rightarrow> 'd feeds_config \<Rightarrow> FeedReport \<Rightarrow> (agg_error, 'd any) go" where
  "report_entry zero cfg report =
     go_map (\<lambda>feedID.
        let remapped = fcRemappedID (feed_config_of zero cfg (frFeedID report));
            remappedID = (if length remapped = 0 then feedID else remapped)
        in AMap [(''FeedID'', ABytes feedID), (''RawReport'', ABytes (frFullReport report)),
                 (''Price'', ABigInt (int (be_nat (frBenchmarkPrice report)))),
                 (''Timestamp'', AInt KInt64 (sint (frObservationTimestamp report))),
                 (''RemappedID'', ABytes remappedID)])
       (FeedID_Bytes (frFeedID report))"

definition feeds_Aggregate ::
    "'d vlib \<Rightarrow> 'd flib \<Rightarrow> 'd \<Rightarrow> ('d Value \<Rightarrow> StreamsTriggerEvent option) \<Rightarrow>
     ('d Value \<Rightarrow> FeedReport list option) \<Rightarrow> (FeedReport \<Rightarrow> bytes list \<Rightarrow> int \<Rightarrow> bool) \<Rightarrow>
     (bytes \<Rightarrow> feed_state option) \<Rightarrow> (feed_state \<Rightarrow> bytes option) \<Rightarrow>
     ((bytes \<times> nat) list \<Rightarrow> (bytes \<times> nat) list) \<Rightarrow>
     ((OracleID \<times> 'd Value) list \<Rightarrow> (OracleID \<times> 'd Value) list) \<Rightarrow>
     'd feeds_config \<Rightarrow> AggregationOutcome option \<Rightarrow> 'd observations \<Rightarrow> nat \<Rightarrow>
     (agg_error, AggregationOutcome) go" where
  "feeds_Aggregate L F zero unwrapEvent unwrapReports validate unmarshalState marshalState it ite
       cfg previousOutcome observations f =
     (case extractSignersAndPayloads unwrapEvent it observations f of
        (allowedSigners, minRequired, events) \<Rightarrow>
      if events \<noteq> [] \<and> minRequired = 0 then Err MinSignaturesZero
      else
      let latest = latest_reports unwrapReports validate allowedSigners minRequired (ite events)
      in go_bind (feeds_initializeCurrentState unmarshalState cfg previousOutcome) (\<lambda>state0.
      case select_updates F zero cfg latest state0 of (state, needing) \<Rightarrow>
      case marshalState state of
        None \<Rightarrow> Err MarshalError
      | Some marshalledState \<Rightarrow>
          go_bind (go_mapM (report_entry zero cfg) needing) (\<lambda>toWrap.
          go_map (\<lambda>w. aggregated (ProtoMap L w) marshalledState (needing \<noteq> []))
            (go_mapErr (\<lambda>_. WrapError) (NewMap [(''Reports'', ASlice toWrap)])))))"

text \<open>The contract the reporting plugin relies on.\<close>

interpretation feeds: aggregator "feeds_Aggregate L F zero unwrapEvent unwrapReports validate unmarshalState marshalState it ite cfg"
  for L F zero unwrapEvent unwrapReports validate unmarshalState marshalState it ite cfg
  by unfold_locales (auto simp: feeds_Aggregate_def Let_def go_simps case_prod_beta split: if_splits option.splits; blast)

section \<open>Agreement on signers\<close>

lemma extractUniqueSigners_Ok:
  assumes "extractUniqueSigners signers = Ok us"
  shows "distinct us \<and> set us = set signers"
proof -
  have "go_foldM (\<lambda>unique signer.
      if length signer \<noteq> addrLen then Err () else Ok (List.insert signer unique)) acc signers = Ok us \<Longrightarrow>
    distinct acc \<Longrightarrow> distinct us \<and> set us = set acc \<union> set signers" for acc
    by (induction signers arbitrary: acc) (auto split: if_splits)
  from this [of "[]"] assms show ?thesis by (simp add: extractUniqueSigners_def)
qed

text \<open>What an accepted observation contributes: its signers without repetition, its minimum.\<close>

definition accepted ::
    "('d Value \<Rightarrow> StreamsTriggerEvent option) \<Rightarrow> 'd Value list \<Rightarrow> (bytes list \<times> int) option" where
  "accepted unwrapEvent obs =
     (if obs = [] \<or> hd obs = VNil \<or> length obs > 1 then None
      else case unwrapEvent (hd obs) of
          None \<Rightarrow> None
        | Some ev \<Rightarrow>
            (case extractUniqueSigners (smSigners (stMetadata ev)) of
               Ok us \<Rightarrow> Some (us, smMinRequiredSignatures (stMetadata ev))
             | _ \<Rightarrow> None))"

definition names_signer ::
    "('d Value \<Rightarrow> StreamsTriggerEvent option) \<Rightarrow> bytes \<Rightarrow> 'd Value list \<Rightarrow> bool" where
  "names_signer unwrapEvent s obs \<longleftrightarrow>
     (case accepted unwrapEvent obs of Some (us, m) \<Rightarrow> s \<in> set us | None \<Rightarrow> False)"

definition asks_for ::
    "('d Value \<Rightarrow> StreamsTriggerEvent option) \<Rightarrow> int \<Rightarrow> 'd Value list \<Rightarrow> bool" where
  "asks_for unwrapEvent n obs \<longleftrightarrow>
     (case accepted unwrapEvent obs of Some (us, m) \<Rightarrow> m = n | None \<Rightarrow> False)"

lemma accepted_distinct: "accepted unwrapEvent obs = Some (us, m) \<Longrightarrow> distinct us"
  by (auto simp: accepted_def dest: extractUniqueSigners_Ok split: if_splits option.splits go.splits)

lemma collect_node_accepted:
  "collect_node unwrapEvent sv (p, obs) =
     (case accepted unwrapEvent obs of
        None \<Rightarrow> sv
      | Some (us, m) \<Rightarrow>
          \<lparr>svEvents = put p (hd obs) (svEvents sv), svSigners = incr_all us (svSigners sv),
           svMins = incr m (svMins sv)\<rparr>)"
  by (auto simp: collect_node_def accepted_def split: option.splits go.splits)

lemma count_list_distinct: "distinct us \<Longrightarrow> count_list us s = (if s \<in> set us then 1 else 0)"
  by (induction us) auto

abbreviation no_votes :: "'d signer_votes" where
  "no_votes \<equiv> \<lparr>svEvents = [], svSigners = [], svMins = []\<rparr>"

definition votes ::
    "('d Value \<Rightarrow> StreamsTriggerEvent option) \<Rightarrow> 'd observations \<Rightarrow> 'd signer_votes" where
  "votes unwrapEvent observations = foldl (collect_node unwrapEvent) no_votes observations"

lemma votes_snoc:
  "votes unwrapEvent (observations @ [ob]) = collect_node unwrapEvent (votes unwrapEvent observations) ob"
  by (simp add: votes_def)

text \<open>What the collecting loop computes: every counter is a number of accepted observations.\<close>

lemma votes_counts:
  "gomap_wf (svSigners (votes unwrapEvent observations)) \<and>
   gomap_wf (svMins (votes unwrapEvent observations)) \<and>
   count_of (svSigners (votes unwrapEvent observations)) s =
     length (filter (names_signer unwrapEvent s) (map snd observations)) \<and>
   count_of (svMins (votes unwrapEvent observations)) n =
     length (filter (asks_for unwrapEvent n) (map snd observations))"
proof (induction observations rule: rev_induct)
  case (snoc ob observations)
  obtain p obs where ob: "ob = (p, obs)" by fastforce
  show ?case
  proof (cases "accepted unwrapEvent obs")
    case None
    with snoc show ?thesis
      by (simp add: votes_snoc ob collect_node_accepted names_signer_def asks_for_def)
  next
    case (Some a)
    obtain us m where a: "a = (us, m)" by fastforce
    have "distinct us" using Some a by (auto intro: accepted_distinct)
    with snoc Some a show ?thesis
      by (simp add: votes_snoc ob collect_node_accepted names_signer_def asks_for_def
          count_list_distinct comp_def) (auto simp: eq_commute)
  qed
qed (simp add: votes_def)

lemma votes_events:
  "(p, v) \<in> set (svEvents (votes unwrapEvent observations)) \<Longrightarrow>
   \<exists>obs. (p, obs) \<in> set observations \<and> accepted unwrapEvent obs \<noteq> None \<and> v = hd obs"
proof (induction observations rule: rev_induct)
  case (snoc ob observations)
  obtain q obs where ob: "ob = (q, obs)" by fastforce
  have "e \<in> set (put k w m) \<Longrightarrow> e = (k, w) \<or> e \<in> set m" for e :: "nat \<times> 'a Value" and k w m
    unfolding put_def by (induction m) (auto split: if_splits)
  with snoc show ?case
    by (cases "accepted unwrapEvent obs") (fastforce simp: votes_snoc ob collect_node_accepted)+
qed (simp add: votes_def)

text \<open>The number of signatures agreed on is the largest one that enough oracles ask for.\<close>

definition agreed_min :: "nat \<Rightarrow> (int, nat) gomap \<Rightarrow> int" where
  "agreed_min f mins =
     foldl (\<lambda>m (c, cnt). if cnt \<ge> f + 1 \<and> c > m then c else m) 0 mins"

lemma agreed_min_snoc:
  "agreed_min f (mins @ [(c, n)]) =
     (if n \<ge> f + 1 \<and> c > agreed_min f mins then c else agreed_min f mins)"
  by (simp add: agreed_min_def)

lemma agreed_min_ge: "(c, n) \<in> set mins \<Longrightarrow> f + 1 \<le> n \<Longrightarrow> c \<le> agreed_min f mins"
  by (induction mins rule: rev_induct) (auto simp: agreed_min_snoc)

lemma agreed_min_attained:
  "agreed_min f mins = 0 \<or> 0 < agreed_min f mins \<and> (\<exists>n. (agreed_min f mins, n) \<in> set mins \<and> f + 1 \<le> n)"
proof (induction mins rule: rev_induct)
  case (snoc e mins)
  then show ?case by (cases e) (auto simp: agreed_min_snoc)
qed (simp add: agreed_min_def)

lemma extractSignersAndPayloads_unfold:
  "extractSignersAndPayloads unwrapEvent it observations f =
     ([s. (s, n) \<leftarrow> it (svSigners (votes unwrapEvent observations)), n \<ge> f + 1],
      agreed_min f (svMins (votes unwrapEvent observations)),
      svEvents (votes unwrapEvent observations))"
  by (simp add: extractSignersAndPayloads_def votes_def agreed_min_def Let_def)

lemma agreed_signers:
  assumes "extractSignersAndPayloads unwrapEvent it observations f = (signers, minReq, events)"
    and "iteration_order it"
  shows "set signers = {s. f + 1 \<le> length (filter (names_signer unwrapEvent s) (map snd observations))}"
proof -
  let ?m = "svSigners (votes unwrapEvent observations)"
  have wf: "gomap_wf ?m" using votes_counts by blast
  have "set signers = {s. \<exists>n. (s, n) \<in> set ?m \<and> f + 1 \<le> n}"
    using assms by (force simp: extractSignersAndPayloads_unfold)
  also have "\<dots> = {s. f + 1 \<le> count_of ?m s}"
  proof (intro Collect_cong iffI)
    fix s assume "f + 1 \<le> count_of ?m s"
    then obtain n where "map_of ?m s = Some n" "f + 1 \<le> n"
      by (auto simp: count_of_def split: option.splits)
    then show "\<exists>n. (s, n) \<in> set ?m \<and> f + 1 \<le> n" by (blast dest: map_of_SomeD)
  next
    fix s assume "\<exists>n. (s, n) \<in> set ?m \<and> f + 1 \<le> n"
    then show "f + 1 \<le> count_of ?m s" by (auto dest: count_of_mem [OF wf])
  qed
  finally show ?thesis by (simp only: votes_counts)
qed


section \<open>The latest valid report\<close>

definition all_reports ::
    "('d Value \<Rightarrow> FeedReport list option) \<Rightarrow> (OracleID \<times> 'd Value) list \<Rightarrow> FeedReport list" where
  "all_reports unwrapReports events =
     concat (map (\<lambda>(p, v). case unwrapReports v of None \<Rightarrow> [] | Some rs \<Rightarrow> rs) events)"

lemma latest_reports_flat:
  "latest_reports unwrapReports validate signers minReq events =
     foldl (consider_report validate signers minReq) [] (all_reports unwrapReports events)"
proof -
  have "foldl (\<lambda>latest (nodeID, event).
        case unwrapReports event of
          None \<Rightarrow> latest
        | Some reports \<Rightarrow> foldl (consider_report validate signers minReq) latest reports) acc events =
      foldl (consider_report validate signers minReq) acc (all_reports unwrapReports events)" for acc
    by (induction events arbitrary: acc) (auto simp: all_reports_def split: option.splits)
  then show ?thesis by (simp add: latest_reports_def)
qed

definition is_latest ::
    "(FeedReport \<Rightarrow> bool) \<Rightarrow> FeedReport list \<Rightarrow> string \<Rightarrow> FeedReport \<Rightarrow> bool" where
  "is_latest valid rs feedID l \<longleftrightarrow>
     l \<in> set rs \<and> frFeedID l = feedID \<and> valid l \<and>
     (\<forall>r\<in>set rs. frFeedID r = feedID \<and> valid r \<longrightarrow>
        sint (frObservationTimestamp r) \<le> sint (frObservationTimestamp l))"

lemma latest_spec:
  "case map_of (foldl (consider_report validate signers minReq) [] rs) feedID of
     Some l \<Rightarrow> is_latest (\<lambda>r. validate r signers minReq) rs feedID l
   | None \<Rightarrow> \<forall>r\<in>set rs. frFeedID r = feedID \<longrightarrow> \<not> validate r signers minReq"
proof (induction rs rule: rev_induct)
  case (snoc r rs)
  let ?m = "foldl (consider_report validate signers minReq) [] rs"
  show ?case
  proof (cases "frFeedID r = feedID")
    case False
    then have "map_of (consider_report validate signers minReq ?m r) feedID = map_of ?m feedID"
      by (simp add: consider_report_def)
    with snoc False show ?thesis
      by (auto simp: is_latest_def split: option.splits)
  next
    case True
    with snoc show ?thesis
      by (auto simp: consider_report_def is_latest_def word_sless_alt split: option.splits)
  qed
qed simp

lemma latest_permute:
  assumes "set rs1 = set rs2" and "\<And>r. validate r s1 m = validate r s2 m"
    and "\<And>r r'. r \<in> set rs1 \<Longrightarrow> r' \<in> set rs1 \<Longrightarrow> validate r s1 m \<Longrightarrow> validate r' s1 m \<Longrightarrow>
           frFeedID r = frFeedID r' \<Longrightarrow> frObservationTimestamp r = frObservationTimestamp r' \<Longrightarrow> r = r'"
  shows "map_of (foldl (consider_report validate s1 m) [] rs1) =
         map_of (foldl (consider_report validate s2 m) [] rs2)"
proof
  fix feedID
  let ?m1 = "map_of (foldl (consider_report validate s1 m) [] rs1) feedID"
  let ?m2 = "map_of (foldl (consider_report validate s2 m) [] rs2) feedID"
  note spec1 = latest_spec [where validate = validate and signers = s1 and minReq = m and rs = rs1 and feedID = feedID]
  note spec2 = latest_spec [where validate = validate and signers = s2 and minReq = m and rs = rs2 and feedID = feedID]
  show "?m1 = ?m2"
  proof (cases ?m1)
    case None
    with spec1 spec2 assms(1,2) show ?thesis by (cases ?m2) (auto simp: is_latest_def)
  next
    case (Some l1)
    with spec1 spec2 assms(1,2) obtain l2 where l2: "?m2 = Some l2"
      by (cases ?m2) (auto simp: is_latest_def)
    from Some l2 spec1 spec2 have
      "is_latest (\<lambda>r. validate r s1 m) rs1 feedID l1" "is_latest (\<lambda>r. validate r s2 m) rs2 feedID l2"
      by simp_all
    with assms(1,2) have both: "l1 \<in> set rs1" "l2 \<in> set rs1" "validate l1 s1 m" "validate l2 s1 m"
        "frFeedID l1 = frFeedID l2"
      and "sint (frObservationTimestamp l1) = sint (frObservationTimestamp l2)"
      by (auto simp: is_latest_def intro!: order_antisym)
    then have "frObservationTimestamp l1 = frObservationTimestamp l2" by (auto intro: signed_word_eqI)
    with assms(3) both have "l1 = l2" by blast
    with Some l2 show ?thesis by simp
  qed
qed

section \<open>Which feeds are updated\<close>

definition feed_due ::
    "'d flib \<Rightarrow> 'd \<Rightarrow> 'd feeds_config \<Rightarrow> (string, FeedReport) gomap \<Rightarrow> feed_state \<Rightarrow> string \<Rightarrow> bool" where
  "feed_due F zero cfg latest state feedID \<longleftrightarrow>
     (case (map_of state feedID, map_of latest feedID) of
        (Some prev, Some l) \<Rightarrow>
          FeedID_validate feedID \<and> update_due F (feed_config_of zero cfg feedID) prev l
      | _ \<Rightarrow> False)"

definition feed_joins ::
    "'d flib \<Rightarrow> 'd \<Rightarrow> 'd feeds_config \<Rightarrow> (string, FeedReport) gomap \<Rightarrow> feed_state \<Rightarrow> string \<Rightarrow> bool" where
  "feed_joins F zero cfg latest state feedID \<longleftrightarrow>
     (case (map_of state feedID, map_of latest feedID) of
        (Some prev, Some l) \<Rightarrow>
          FeedID_validate feedID \<and> \<not> update_due F (feed_config_of zero cfg feedID) prev l \<and>
          update_allowed F (AllowedPartialStaleness cfg) (feed_config_of zero cfg feedID) prev l
      | _ \<Rightarrow> False)"

definition reported_feeds ::
    "'d flib \<Rightarrow> 'd \<Rightarrow> 'd feeds_config \<Rightarrow> (string, FeedReport) gomap \<Rightarrow> feed_state \<Rightarrow> string list" where
  "reported_feeds F zero cfg latest state =
     (let ids = sort (map fst state); due = filter (feed_due F zero cfg latest state) ids
      in if due = [] then [] else due @ filter (feed_joins F zero cfg latest state) ids)"

lemma check_feed_step:
  assumes "map_of st feedID = map_of state0 feedID"
  shows "check_feed F zero cfg latest (st, needing, cands) feedID =
           (if feed_due F zero cfg latest state0 feedID
            then (put feedID (info_of (the (map_of latest feedID))) st,
                  needing @ [the (map_of latest feedID)], cands)
            else if feed_joins F zero cfg latest state0 feedID
            then (st, needing, cands @ [feedID]) else (st, needing, cands))"
  using assms
  by (auto simp: check_feed_def feed_due_def feed_joins_def NewFeedID_def Let_def split: option.splits)

lemma check_feeds:
  assumes "distinct ids"
  shows "\<exists>st. foldl (check_feed F zero cfg latest) (state0, [], []) ids =
           (st, map (\<lambda>i. the (map_of latest i)) (filter (feed_due F zero cfg latest state0) ids),
            filter (feed_joins F zero cfg latest state0) ids) \<and>
         (\<forall>i. map_of st i =
            (if i \<in> set (filter (feed_due F zero cfg latest state0) ids)
             then Some (info_of (the (map_of latest i))) else map_of state0 i))"
  using assms
proof (induction ids rule: rev_induct)
  case (snoc i ids)
  then obtain st where
    st: "foldl (check_feed F zero cfg latest) (state0, [], []) ids =
      (st, map (\<lambda>i. the (map_of latest i)) (filter (feed_due F zero cfg latest state0) ids),
       filter (feed_joins F zero cfg latest state0) ids)"
    and look: "\<forall>i. map_of st i = (if i \<in> set (filter (feed_due F zero cfg latest state0) ids)
             then Some (info_of (the (map_of latest i))) else map_of state0 i)"
    by auto
  from look snoc.prems have "map_of st i = map_of state0 i" by simp
  note step = check_feed_step [OF this]
  have excl: "\<not> (feed_due F zero cfg latest state0 i \<and> feed_joins F zero cfg latest state0 i)"
    by (auto simp: feed_due_def feed_joins_def split: option.splits)
  show ?case
    using st look excl
    by (cases "feed_due F zero cfg latest state0 i"; cases "feed_joins F zero cfg latest state0 i")
      (simp_all add: step)
qed simp

lemma add_candidates:
  assumes "\<forall>i\<in>set cands. map_of latest i \<noteq> None"
  shows "\<exists>st'. foldl (add_candidate latest) (st, needing) cands =
           (st', needing @ map (\<lambda>i. the (map_of latest i)) cands) \<and>
         (\<forall>i. map_of st' i = (if i \<in> set cands then Some (info_of (the (map_of latest i)))
                              else map_of st i))"
  using assms
proof (induction cands rule: rev_induct)
  case (snoc i cands)
  then obtain st' where
    "foldl (add_candidate latest) (st, needing) cands =
       (st', needing @ map (\<lambda>i. the (map_of latest i)) cands)"
    "\<forall>i. map_of st' i = (if i \<in> set cands then Some (info_of (the (map_of latest i)))
                          else map_of st i)" by auto
  with snoc.prems show ?case by (auto simp: add_candidate_def Let_def)
qed simp

lemma select_updates_spec:
  assumes "gomap_wf state0"
  obtains st where
    "select_updates F zero cfg latest state0 =
       (st, map (\<lambda>i. the (map_of latest i)) (reported_feeds F zero cfg latest state0))"
    and "\<And>i. map_of st i =
      (if i \<in> set (reported_feeds F zero cfg latest state0)
       then Some (info_of (the (map_of latest i))) else map_of state0 i)"
proof -
  let ?ids = "sort (map fst state0)"
  let ?due = "filter (feed_due F zero cfg latest state0) ?ids"
  let ?joins = "filter (feed_joins F zero cfg latest state0) ?ids"
  have "distinct ?ids" using assms by simp
  from check_feeds [OF this, of F zero cfg latest state0] obtain st where
    st: "foldl (check_feed F zero cfg latest) (state0, [], []) ?ids =
      (st, map (\<lambda>i. the (map_of latest i)) ?due, ?joins)"
    and look: "\<And>i. map_of st i = (if i \<in> set ?due then Some (info_of (the (map_of latest i)))
                    else map_of state0 i)" by blast
  have "\<forall>i\<in>set ?joins. map_of latest i \<noteq> None"
    by (auto simp: feed_joins_def split: option.splits)
  from add_candidates [OF this, of st "map (\<lambda>i. the (map_of latest i)) ?due"] obtain st' where
    st': "foldl (add_candidate latest) (st, map (\<lambda>i. the (map_of latest i)) ?due) ?joins =
      (st', map (\<lambda>i. the (map_of latest i)) ?due @ map (\<lambda>i. the (map_of latest i)) ?joins)"
    and look': "\<And>i. map_of st' i = (if i \<in> set ?joins then Some (info_of (the (map_of latest i)))
                    else map_of st i)" by blast
  show thesis
  proof (cases "?due = []")
    case True
    with st look show ?thesis
      by (intro that [of st]) (simp_all add: select_updates_def reported_feeds_def)
  next
    case False
    with st st' look look' show ?thesis
      by (intro that [of st']) (auto simp: select_updates_def reported_feeds_def Let_def)
  qed
qed

section \<open>State\<close>



section \<open>Properties\<close>




text \<open>
  The selection of feeds does what the configuration asks for: the reports are those of the
  feeds whose deviation or heartbeat threshold is exceeded, in the order of the feed ids,
  followed, if there is one, by those of the feeds that are close enough to their heartbeat;
  the new state records exactly the reported feeds and keeps every other one.
\<close>

lemma feeds_updates_exact:
  assumes "gomap_wf state0"
  shows "snd (select_updates F zero cfg latest state0) =
           map (\<lambda>i. the (map_of latest i)) (reported_feeds F zero cfg latest state0) \<and>
         (\<forall>i. map_of (fst (select_updates F zero cfg latest state0)) i =
            (if i \<in> set (reported_feeds F zero cfg latest state0)
             then Some (info_of (the (map_of latest i))) else map_of state0 i))"
  by (rule select_updates_spec [OF assms, of F zero cfg latest]) simp

definition sample_flib :: "unit flib" where
  "sample_flib = \<lparr>flOfBig = (\<lambda>n. of_int n), flOfInt64 = (\<lambda>n. n), flMul = (*), flSub = (-),
     flDiv = (\<lambda>a b. a div b), flGt = (\<lambda>a b. b < a), dInexactFloat64 = (\<lambda>_. 0), dParse = (\<lambda>_. Some ())\<rparr>"

lemma feeds_updates_exact_witness:
  "snd (select_updates sample_flib () \<lparr>Feeds = [], AllowedPartialStaleness = 0,
       AllowedPartialStalenessStr = []\<rparr> [] [(''a'', \<lparr>miObservationTimestamp = 0, miBenchmarkPrice = []\<rparr>)]) =
     map (\<lambda>i. the (map_of [] i)) (reported_feeds sample_flib () \<lparr>Feeds = [],
       AllowedPartialStaleness = 0, AllowedPartialStalenessStr = []\<rparr> []
       [(''a'', \<lparr>miObservationTimestamp = 0, miBenchmarkPrice = []\<rparr>)])"
  using feeds_updates_exact [of "[(''a'', \<lparr>miObservationTimestamp = 0, miBenchmarkPrice = []\<rparr>)]"
      sample_flib "()" "\<lparr>Feeds = [], AllowedPartialStaleness = 0, AllowedPartialStalenessStr = []\<rparr>" "[]"]
  by simp

lemma select_updates_cong:
  assumes "map_of l1 = map_of l2"
  shows "select_updates F zero cfg l1 state0 = select_updates F zero cfg l2 state0"
proof -
  have "check_feed F zero cfg l1 = check_feed F zero cfg l2" "add_candidate l1 = add_candidate l2"
    unfolding check_feed_def add_candidate_def assms by (rule refl)+
  then show ?thesis by (simp only: select_updates_def)
qed

lemma agreed_min_counts:
  assumes "gomap_wf m1" and "gomap_wf m2" and "\<And>k. count_of m1 k = count_of m2 k"
  shows "agreed_min f m1 = agreed_min f m2"
proof -
  have "agreed_min f x \<le> agreed_min f y"
    if wf: "gomap_wf x" and same: "\<And>k. count_of x k = count_of y k" for x y
  proof (cases "agreed_min f x = 0")
    case True
    then show ?thesis using agreed_min_attained [of f y] by auto
  next
    case False
    then obtain n where "(agreed_min f x, n) \<in> set x" "f + 1 \<le> n"
      using agreed_min_attained [of f x] by auto
    then have "f + 1 \<le> count_of y (agreed_min f x)" using count_of_mem [OF wf] same by metis
    then obtain k where "map_of y (agreed_min f x) = Some k" "f + 1 \<le> k"
      by (auto simp: count_of_def split: option.splits)
    then show ?thesis by (blast intro: agreed_min_ge dest: map_of_SomeD)
  qed
  from this [of m1 m2] this [of m2 m1] assms show ?thesis by (auto intro: order_antisym)
qed

lemma votes_events_eq:
  assumes "gomap_wf observations"
  shows "svEvents (votes unwrapEvent observations) =
           map (\<lambda>(p, obs). (p, hd obs))
             (filter (\<lambda>(p, obs). accepted unwrapEvent obs \<noteq> None) observations)"
  using assms
proof (induction observations rule: rev_induct)
  case (snoc ob observations)
  obtain p obs where ob: "ob = (p, obs)" by fastforce
  let ?evs = "svEvents (votes unwrapEvent observations)"
  have IH: "?evs = map (\<lambda>(p, obs). (p, hd obs))
      (filter (\<lambda>(p, obs). accepted unwrapEvent obs \<noteq> None) observations)"
    using snoc by simp
  have "p \<notin> gomap_dom ?evs"
    using snoc.prems ob IH by force
  then have "map_of ?evs p = None" by (simp add: gomap_dom_iff)
  from put_new [OF this] IH show ?case
    by (cases "accepted unwrapEvent obs") (auto simp: votes_snoc ob collect_node_accepted)
qed (simp add: votes_def)

lemma extract_permute:
  assumes "mset obs1 = mset obs2" and "gomap_wf obs1" and "iteration_order it1" and "iteration_order it2"
    and "extractSignersAndPayloads unwrapEvent it1 obs1 f = (s1, m1, e1)"
    and "extractSignersAndPayloads unwrapEvent it2 obs2 f = (s2, m2, e2)"
  shows "set s1 = set s2 \<and> m1 = m2 \<and> mset e1 = mset e2"
proof (intro conjI)
  have len: "length (filter P (map snd obs1)) = length (filter P (map snd obs2))" for P
    using assms(1) by (metis mset_filter mset_map size_mset)
  show "set s1 = set s2"
    using agreed_signers [OF assms(5,3)] agreed_signers [OF assms(6,4)] len by simp
  have "agreed_min f (svMins (votes unwrapEvent obs1)) = agreed_min f (svMins (votes unwrapEvent obs2))"
    by (intro agreed_min_counts) (simp_all only: votes_counts len)
  then show "m1 = m2"
    using assms(5,6) by (simp add: extractSignersAndPayloads_unfold)
  have "gomap_wf obs2" using assms(1,2) gomap_wf_permute by metis
  then show "mset e1 = mset e2"
    using assms(1,2,5,6) by (auto simp: extractSignersAndPayloads_unfold votes_events_eq mset_filter)
qed

text \<open>
  The outcome of the data feeds aggregator does not depend on the iteration order of any map
  it visits, if validation only asks which signers are allowed and if the oracles never hold two
  different valid reports of one feed with the same timestamp.
\<close>

lemma feeds_deterministic:
  assumes "mset obs1 = mset obs2" and "gomap_wf obs1"
    and "iteration_order it1" and "iteration_order it2" and "iteration_order ite1" and "iteration_order ite2"
    and "\<forall>r s1 s2 m. set s1 = set s2 \<longrightarrow> validate r s1 m = validate r s2 m"
    and "\<forall>s m. \<forall>r\<in>set (all_reports unwrapReports (svEvents (votes unwrapEvent obs1))).
           \<forall>r'\<in>set (all_reports unwrapReports (svEvents (votes unwrapEvent obs1))).
             validate r s m \<and> validate r' s m \<and> frFeedID r = frFeedID r' \<and>
             frObservationTimestamp r = frObservationTimestamp r' \<longrightarrow> r = r'"
  shows "feeds_Aggregate L F zero unwrapEvent unwrapReports validate unmarshalState marshalState
           it1 ite1 cfg prev obs1 f =
         feeds_Aggregate L F zero unwrapEvent unwrapReports validate unmarshalState marshalState
           it2 ite2 cfg prev obs2 f"
proof -
  obtain s1 m1 e1 s2 m2 e2 where
    ex1: "extractSignersAndPayloads unwrapEvent it1 obs1 f = (s1, m1, e1)" and
    ex2: "extractSignersAndPayloads unwrapEvent it2 obs2 f = (s2, m2, e2)"
    by (metis prod_cases3)
  from extract_permute [OF assms(1-4) ex1 ex2] have same: "set s1 = set s2" "m1 = m2" "mset e1 = mset e2"
    by simp_all
  then have sets: "set e1 = set e2" by (metis mset_eq_setD)
  have e1: "e1 = svEvents (votes unwrapEvent obs1)"
    using ex1 by (simp add: extractSignersAndPayloads_unfold)
  have reports: "set (all_reports unwrapReports (ite1 e1)) = set (all_reports unwrapReports (ite2 e2))"
    "set (all_reports unwrapReports (ite1 e1)) = set (all_reports unwrapReports e1)"
    using assms(5,6) sets by (simp_all add: all_reports_def)
  have "map_of (latest_reports unwrapReports validate s1 m1 (ite1 e1)) =
        map_of (latest_reports unwrapReports validate s2 m2 (ite2 e2))"
    unfolding latest_reports_flat same(2)
  proof (rule latest_permute)
    show "validate r s1 m2 = validate r s2 m2" for r using assms(7) same(1) by blast
    show "r = r'" if "r \<in> set (all_reports unwrapReports (ite1 e1))"
      "r' \<in> set (all_reports unwrapReports (ite1 e1))" "validate r s1 m2" "validate r' s1 m2"
      "frFeedID r = frFeedID r'" "frObservationTimestamp r = frObservationTimestamp r'" for r r'
    proof -
      have "r \<in> set (all_reports unwrapReports (svEvents (votes unwrapEvent obs1)))"
        "r' \<in> set (all_reports unwrapReports (svEvents (votes unwrapEvent obs1)))"
        using that(1,2) reports(2) e1 by auto
      with assms(8) that(3-6) show ?thesis by blast
    qed
  qed (fact reports(1))
  from select_updates_cong [OF this]
  have sel: "select_updates F zero cfg (latest_reports unwrapReports validate s1 m2 (ite1 e1)) st =
      select_updates F zero cfg (latest_reports unwrapReports validate s2 m2 (ite2 e2)) st" for st
    unfolding same(2) .
  have "e1 = [] \<longleftrightarrow> e2 = []" using sets by auto
  with ex1 ex2 same(2) show ?thesis
    by (simp add: feeds_Aggregate_def Let_def sel)
qed

text \<open>A concrete round: one feed, four oracles, the third one faulty.\<close>

definition sample_feed :: string where
  "sample_feed = FeedIDFromBytes (replicate 32 7)"

definition sample_event :: "unit Value \<Rightarrow> StreamsTriggerEvent option" where
  "sample_event v = (case v of
     VInt64 n \<Rightarrow> Some \<lparr>stPayload = [], stMetadata = \<lparr>smSigners = [replicate 20 1],
                       smMinRequiredSignatures = 1\<rparr>, stTimestamp = n\<rparr>
   | _ \<Rightarrow> None)"

definition feed_report :: "int64 \<Rightarrow> FeedReport" where
  "feed_report n = \<lparr>frFeedID = sample_feed, frFullReport = [1], frReportContext = [],
     frSignatures = [[1]], frBenchmarkPrice = [5], frObservationTimestamp = n\<rparr>"

definition sample_reports :: "unit Value \<Rightarrow> FeedReport list option" where
  "sample_reports v = (case v of VInt64 n \<Rightarrow> Some [feed_report n] | _ \<Rightarrow> None)"

definition sample_validate :: "FeedReport \<Rightarrow> bytes list \<Rightarrow> int \<Rightarrow> bool" where
  "sample_validate r signers n \<longleftrightarrow> n = 1 \<and> replicate 20 1 \<in> set signers"

definition feeds_sample_cfg :: "unit feeds_config" where
  "feeds_sample_cfg = \<lparr>Feeds = [(sample_feed, \<lparr>fcHeartbeat = 5, fcDeviation = [], fcRemappedIDHex = [],
     fcParsedDeviation = (), fcRemappedID = []\<rparr>)], AllowedPartialStaleness = 0,
     AllowedPartialStalenessStr = []\<rparr>"

definition feeds_sample_obs :: "unit observations" where
  "feeds_sample_obs = [(0, [VInt64 100]), (1, [VInt64 100]), (2, [VInt64 90]), (3, [VInt64 100])]"

definition unit_vlib :: "unit vlib" where
  "unit_vlib = \<lparr>dCoefficient = (\<lambda>_. 0), dExponent = (\<lambda>_. 0), dNewFromBigInt = (\<lambda>_ _. ()),
     tsNew = (\<lambda>t. \<lparr>Seconds = t, Nanos = 0\<rparr>), tsAsTime = Seconds, msDecode = Ok\<rparr>"

abbreviation feeds_sample_run :: "unit observations \<Rightarrow> (agg_error, AggregationOutcome) go" where
  "feeds_sample_run obs \<equiv> feeds_Aggregate unit_vlib sample_flib () sample_event sample_reports
     sample_validate (\<lambda>_. None) (\<lambda>_. Some []) rev rev feeds_sample_cfg None obs 1"




lemma feeds_sample_reports:
  "all_reports sample_reports (svEvents (votes sample_event feeds_sample_obs)) =
     [feed_report 100, feed_report 100, feed_report 90, feed_report 100]"
  by code_simp

lemma feeds_deterministic_witness:
  "feeds_sample_run feeds_sample_obs =
   feeds_Aggregate unit_vlib sample_flib () sample_event sample_reports sample_validate (\<lambda>_. None)
     (\<lambda>_. Some []) (\<lambda>xs. xs) (\<lambda>xs. xs) feeds_sample_cfg None (rev feeds_sample_obs) 1"
proof (rule feeds_deterministic [OF _ _ iteration_order_rev iteration_order_id iteration_order_rev
      iteration_order_id])
  show "\<forall>s m. \<forall>r\<in>set (all_reports sample_reports (svEvents (votes sample_event feeds_sample_obs))).
           \<forall>r'\<in>set (all_reports sample_reports (svEvents (votes sample_event feeds_sample_obs))).
             sample_validate r s m \<and> sample_validate r' s m \<and> frFeedID r = frFeedID r' \<and>
             frObservationTimestamp r = frObservationTimestamp r' \<longrightarrow> r = r'"
    unfolding feeds_sample_reports by (auto simp: feed_report_def)
  show "\<forall>r s1 s2 m. set s1 = set s2 \<longrightarrow> sample_validate r s1 m = sample_validate r s2 m"
    by (simp add: sample_validate_def)
qed (simp_all add: feeds_sample_obs_def)

section \<open>Feed identifiers\<close>

lemma hex_digit_hex_char: "n < 16 \<Longrightarrow> hex_digit (hex_char n) = Some n"
  by (auto simp: hex_digit_def hex_char_def Let_def)

lemma hex_roundtrip: "hex_decode (hex_encode bs) = (bs, True)"
proof (induction bs)
  case (Cons b bs)
  have "unat b < 256" using unsigned_less [of b] by simp
  then have "hex_digit (hex_char (unat b div 16)) = Some (unat b div 16)"
    "hex_digit (hex_char (unat b mod 16)) = Some (unat b mod 16)"
    by (simp_all add: hex_digit_hex_char)
  moreover have "16 * (unat b div 16) + unat b mod 16 = unat b" by simp
  then have "(of_nat (16 * (unat b div 16) + unat b mod 16) :: byte) = b" by simp
  ultimately show ?case using Cons by simp
qed simp

lemma length_hex_encode [simp]: "length (hex_encode bs) = 2 * length bs"
  by (induction bs) auto

lemma to_lower_hex_char: "n < 16 \<Longrightarrow> to_lower (hex_char n) = hex_char n"
  by (auto simp: to_lower_def hex_char_def Let_def)

lemma to_lower_hex_encode: "map to_lower (hex_encode bs) = hex_encode bs"
proof (induction bs)
  case (Cons b bs)
  have "unat b < 256" using unsigned_less [of b] by simp
  with Cons show ?case by (simp add: to_lower_hex_char)
qed simp

text \<open>
  A feed id made from 32 bytes is a valid feed id and gives the bytes back; and for every
  valid feed id the conversion to bytes does not panic.
\<close>

lemma feed_id_roundtrip:
  "(length b = 32 \<longrightarrow> NewFeedID (FeedIDFromBytes b) = Some (FeedIDFromBytes b) \<and>
      (FeedID_Bytes (FeedIDFromBytes b) :: (unit, bytes) go) = Ok b) \<and>
   (NewFeedID s \<noteq> None \<longrightarrow> (\<exists>bs. (FeedID_Bytes s :: (unit, bytes) go) = Ok bs \<and> length bs = 32))"
proof (intro conjI impI)
  have len: "2 * length (fst (hex_decode cs)) = length cs" if "snd (hex_decode cs)" for cs
    using that by (induction cs rule: hex_decode.induct) (auto split: option.splits prod.splits)
  assume "NewFeedID s \<noteq> None"
  then show "\<exists>bs. (FeedID_Bytes s :: (unit, bytes) go) = Ok bs \<and> length bs = 32"
    using len [of "drop 2 s"]
    by (auto simp: NewFeedID_def FeedID_validate_def FeedID_Bytes_def FeedIDBytesLen_def Let_def
        split: if_splits)
qed (simp_all add: NewFeedID_def FeedID_validate_def FeedID_Bytes_def FeedIDFromBytes_def
    FeedIDBytesLen_def hex_roundtrip to_lower_hex_encode Let_def to_lower_def)

lemma feed_id_roundtrip_witness:
  "(FeedID_Bytes (FeedIDFromBytes (replicate 32 7)) :: (unit, bytes) go) = Ok (replicate 32 7)"
  using feed_id_roundtrip [of "replicate 32 7"] by simp

end
