(* ===== verification/Requests.thy ===== *)
theory Requests
  imports Values
begin

text \<open>
  The consensus requests of a node (\<^verbatim>\<open>pkg/capabilities/consensus/ocr3/requests\<close>): the request and
  response types, the in-memory store of ongoing requests, and the handler, whose single worker
  goroutine receives requests and responses, answers requests over their callback channels,
  caches responses that arrive before their request, and expires both.

  The store is a FIFO queue of requests with access by execution id: that contract is the locale
  \<open>request_queue\<close>, which the store interprets. The handler is a state machine: \<open>worker_step\<close>
  is one iteration of the worker's \<^verbatim>\<open>select\<close> loop, an event names the case that was taken, the
  time the clock showed, and whether the \<^verbatim>\<open>select\<close> inside \<^verbatim>\<open>sendResponse\<close> took the
  cancellation of the context instead of the send. A callback channel is a number; the messages
  sent so far and the channels closed so far are fields of the state, and a send on a closed
  channel is a panic, as in Go.
\<close>

section \<open>Requests and responses\<close>

record 'd Request =
  Observations :: "'d Value list option"
  OverriddenEncoderName :: string
  OverriddenEncoderConfig :: "(string \<times> 'd Value) list option"
  ExpiresAt :: time
  CallbackCh :: nat
  StopCh :: nat
  WorkflowExecutionID :: string
  WorkflowID :: string
  WorkflowOwner :: string
  WorkflowName :: string
  WorkflowDonID :: "32 word"
  WorkflowDonConfigVersion :: "32 word"
  ReportID :: string
  KeyID :: string

datatype response_error = TimeoutExceeded string | ErrStopExecution

record 'd Response =
  rsWorkflowExecutionID :: string
  rsValue :: "(string \<times> 'd Value) list option"
  rsErr :: "response_error option"

definition Request_Copy :: "'d Request \<Rightarrow> 'd Request" where
  "Request_Copy r =
     r\<lparr>Observations := map_option (map Copy) (Observations r),
       OverriddenEncoderConfig :=
         map_option (map (map_prod (\<lambda>k. k) Copy)) (OverriddenEncoderConfig r)\<rparr>"

section \<open>The store\<close>

datatype store_error = BatchSizeZero | RequestExists string

record 'd Store =
  requestIDs :: "string list"
  requests :: "(string, 'd Request) gomap"

definition NewStore :: "'d Store" where
  "NewStore = \<lparr>requestIDs = [], requests = []\<rparr>"

fun GetByIDs :: "'d Store \<Rightarrow> string list \<Rightarrow> 'd Request list" where
  "GetByIDs s [] = []"
| "GetByIDs s (r # rs) =
     (case map_of (requests s) r of
        Some gr \<Rightarrow> Request_Copy gr # GetByIDs s rs
      | None \<Rightarrow> GetByIDs s rs)"

fun firstN_loop ::
    "(string, 'd Request) gomap \<Rightarrow> int \<Rightarrow> string list \<Rightarrow> 'd Request list \<Rightarrow> 'd Request list" where
  "firstN_loop m batchSize [] got = got"
| "firstN_loop m batchSize (r # rs) got =
     (case map_of m r of
        None \<Rightarrow> firstN_loop m batchSize rs got
      | Some gr \<Rightarrow>
          (let got' = got @ [Request_Copy gr] in
           if int (length got') = batchSize then got'
           else firstN_loop m batchSize rs got'))"

definition FirstN :: "'d Store \<Rightarrow> int \<Rightarrow> (store_error, 'd Request list) go" where
  "FirstN s batchSize =
     (if batchSize = 0 then Err BatchSizeZero
      else if requestIDs s = [] then Ok []
      else Ok (firstN_loop (requests s) batchSize (requestIDs s) []))"

definition Add :: "'d Request \<Rightarrow> 'd Store \<Rightarrow> (store_error, 'd Store) go" where
  "Add req s =
     (case map_of (requests s) (WorkflowExecutionID req) of
        Some _ \<Rightarrow> Err (RequestExists (WorkflowExecutionID req))
      | None \<Rightarrow>
          Ok (s\<lparr>requestIDs := requestIDs s @ [WorkflowExecutionID req],
                requests := put (WorkflowExecutionID req) req (requests s)\<rparr>))"

definition Get :: "'d Store \<Rightarrow> string \<Rightarrow> 'd Request option" where
  "Get s requestID = map_option Request_Copy (map_of (requests s) requestID)"

definition evict :: "string \<Rightarrow> 'd Store \<Rightarrow> 'd Request option \<times> bool \<times> 'd Store" where
  "evict requestID s =
     (let r = map_of (requests s) requestID;
          newRequests = (case r of Some _ \<Rightarrow> del requestID (requests s) | None \<Rightarrow> requests s);
          found = (r \<noteq> None \<or> requestID \<in> set (requestIDs s));
          newRequestIDs = filter (\<lambda>rid. rid \<noteq> requestID) (requestIDs s)
      in (r, found, s\<lparr>requestIDs := newRequestIDs, requests := newRequests\<rparr>))"

section \<open>The handler\<close>

record 'd responseCacheEntry =
  response :: "'d Response"
  entryTime :: time

record 'd Handler =
  hstore :: "'d Store"
  pendingRequests :: "(string, 'd Request) gomap"
  responseCache :: "(string, 'd responseCacheEntry) gomap"
  cacheExpiryTime :: int
  delivered :: "('d Request \<times> 'd Response) list"
  closedChs :: "nat list"

definition NewHandler :: "'d Store \<Rightarrow> int \<Rightarrow> 'd Handler" where
  "NewHandler s responseExpiryTime =
     \<lparr>hstore = s, pendingRequests = [], responseCache = [],
      cacheExpiryTime = responseExpiryTime, delivered = [], closedChs = []\<rparr>"

text \<open>
  \<^verbatim>\<open>sendResponse\<close>: the \<^verbatim>\<open>select\<close> either takes the cancelled context or sends, closes the
  channel and forgets the request.
\<close>

definition sendResponse ::
    "bool \<Rightarrow> 'd Request \<Rightarrow> 'd Response \<Rightarrow> 'd Handler \<Rightarrow> (unit, 'd Handler) go" where
  "sendResponse cancelled req resp h =
     (if cancelled then Ok h
      else if CallbackCh req \<in> set (closedChs h) then Panic
      else Ok (h\<lparr>delivered := delivered h @ [(req, resp)],
                 closedChs := CallbackCh req # closedChs h,
                 pendingRequests := del (WorkflowExecutionID req) (pendingRequests h)\<rparr>))"

definition timeoutResponse :: "'d Request \<Rightarrow> 'd Response" where
  "timeoutResponse req =
     \<lparr>rsWorkflowExecutionID = WorkflowExecutionID req, rsValue = None,
      rsErr = Some (TimeoutExceeded (WorkflowExecutionID req))\<rparr>"

definition expire_one ::
    "time \<Rightarrow> (string \<Rightarrow> bool) \<Rightarrow> 'd Handler \<Rightarrow> string \<times> 'd Request \<Rightarrow> (unit, 'd Handler) go" where
  "expire_one now cancelled h e =
     (case e of (k, req) \<Rightarrow>
        if now > ExpiresAt req then
          (case evict (WorkflowExecutionID req) (hstore h) of (_, _, s') \<Rightarrow>
             sendResponse (cancelled k) req (timeoutResponse req) (h\<lparr>hstore := s'\<rparr>))
        else Ok h)"

definition expirePendingRequests ::
    "((string \<times> 'd Request) list \<Rightarrow> (string \<times> 'd Request) list) \<Rightarrow> time \<Rightarrow> (string \<Rightarrow> bool) \<Rightarrow>
     'd Handler \<Rightarrow> (unit, 'd Handler) go" where
  "expirePendingRequests it now cancelled h =
     go_foldM (expire_one now cancelled) h (it (pendingRequests h))"

definition expireCachedResponses :: "time \<Rightarrow> 'd Handler \<Rightarrow> 'd Handler" where
  "expireCachedResponses now h =
     h\<lparr>responseCache :=
         filter (\<lambda>(k, v). \<not> (now - entryTime v > cacheExpiryTime h)) (responseCache h)\<rparr>"

definition handle_request :: "bool \<Rightarrow> 'd Request \<Rightarrow> 'd Handler \<Rightarrow> (unit, 'd Handler) go" where
  "handle_request cancelled req h =
     (let h1 = h\<lparr>pendingRequests := put (WorkflowExecutionID req) req (pendingRequests h)\<rparr> in
      case map_of (responseCache h) (WorkflowExecutionID req) of
        Some e \<Rightarrow>
          sendResponse cancelled req (response e)
            (h1\<lparr>responseCache := del (WorkflowExecutionID req) (responseCache h)\<rparr>)
      | None \<Rightarrow>
          (case Add req (hstore h) of
             Ok s' \<Rightarrow> Ok (h1\<lparr>hstore := s'\<rparr>)
           | Err _ \<Rightarrow> Ok h1
           | Panic \<Rightarrow> Panic))"

definition handle_response ::
    "bool \<Rightarrow> time \<Rightarrow> 'd Response \<Rightarrow> 'd Handler \<Rightarrow> (unit, 'd Handler) go" where
  "handle_response cancelled now resp h =
     (case evict (rsWorkflowExecutionID resp) (hstore h) of
        (req, wasPresent, s') \<Rightarrow>
          if \<not> wasPresent then
            Ok (h\<lparr>hstore := s',
                  responseCache := put (rsWorkflowExecutionID resp)
                    \<lparr>response = resp, entryTime = now\<rparr> (responseCache h)\<rparr>)
          else (case req of
                  None \<Rightarrow> Panic
                | Some r \<Rightarrow> sendResponse cancelled r resp (h\<lparr>hstore := s'\<rparr>)))"

text \<open>One iteration of the worker; the cancellation of the worker itself ends the run.\<close>

datatype 'd handler_event =
    PendingTick time "string \<Rightarrow> bool"
  | CacheTick time
  | RequestIn "'d Request" bool
  | ResponseIn "'d Response" time bool

fun worker_step ::
    "((string \<times> 'd Request) list \<Rightarrow> (string \<times> 'd Request) list) \<Rightarrow> 'd Handler \<Rightarrow>
     'd handler_event \<Rightarrow> (unit, 'd Handler) go" where
  "worker_step it h (PendingTick now cancelled) = expirePendingRequests it now cancelled h"
| "worker_step it h (CacheTick now) = Ok (expireCachedResponses now h)"
| "worker_step it h (RequestIn req cancelled) = handle_request cancelled req h"
| "worker_step it h (ResponseIn resp now cancelled) = handle_response cancelled now resp h"

text \<open>
  The requests the handler knows, and the runs of the worker. A request arrives with a callback
  channel of its own (\<^verbatim>\<open>queueRequestForProcessing\<close> makes one for every request).
\<close>

definition known_requests :: "'d Handler \<Rightarrow> 'd Request set" where
  "known_requests h = snd ` set (requests (hstore h)) \<union> snd ` set (pendingRequests h)"

fun fresh_event :: "'d Handler \<Rightarrow> 'd handler_event \<Rightarrow> bool" where
  "fresh_event h (RequestIn req _) =
     (CallbackCh req \<notin> set (closedChs h) \<and>
      (\<forall>r \<in> known_requests h. CallbackCh r \<noteq> CallbackCh req))"
| "fresh_event h _ = True"

inductive handler_reachable :: "'d Handler \<Rightarrow> bool" where
  start: "handler_reachable (NewHandler NewStore expiry)"
| step: "handler_reachable h \<Longrightarrow> fresh_event h ev \<Longrightarrow> iteration_order it \<Longrightarrow>
     worker_step it h ev = Ok h' \<Longrightarrow> handler_reachable h'"

text \<open>The invariants of the store and of the handler.\<close>

definition store_wf :: "'d Store \<Rightarrow> bool" where
  "store_wf s \<longleftrightarrow>
     distinct (requestIDs s) \<and> gomap_wf (requests s) \<and>
     set (requestIDs s) = gomap_dom (requests s) \<and>
     (\<forall>(k, r) \<in> set (requests s). WorkflowExecutionID r = k)"

definition queued :: "'d Store \<Rightarrow> 'd Request list" where
  "queued s = map (\<lambda>k. the (map_of (requests s) k)) (requestIDs s)"

definition keyed :: "('r \<Rightarrow> string) \<Rightarrow> (string, 'r) gomap \<Rightarrow> bool" where
  "keyed f m \<longleftrightarrow> (\<forall>(k, r) \<in> set m. f r = k)"

definition maps_inv :: "'d Handler \<Rightarrow> bool" where
  "maps_inv h \<longleftrightarrow>
     store_wf (hstore h) \<and> gomap_wf (pendingRequests h) \<and> gomap_wf (responseCache h) \<and>
     keyed WorkflowExecutionID (pendingRequests h) \<and>
     keyed (\<lambda>e. rsWorkflowExecutionID (response e)) (responseCache h)"

definition doms_inv :: "'d Handler \<Rightarrow> bool" where
  "doms_inv h \<longleftrightarrow>
     gomap_dom (requests (hstore h)) \<subseteq> gomap_dom (pendingRequests h) \<and>
     gomap_dom (responseCache h) \<inter> gomap_dom (requests (hstore h)) = {}"

definition chans_inv :: "'d Handler \<Rightarrow> bool" where
  "chans_inv h \<longleftrightarrow>
     (\<forall>r \<in> known_requests h. CallbackCh r \<notin> set (closedChs h)) \<and>
     (\<forall>r \<in> known_requests h. \<forall>r' \<in> known_requests h.
        CallbackCh r = CallbackCh r' \<longrightarrow> WorkflowExecutionID r = WorkflowExecutionID r')"

definition log_inv :: "'d Handler \<Rightarrow> bool" where
  "log_inv h \<longleftrightarrow>
     distinct (map (\<lambda>(r, _). CallbackCh r) (delivered h)) \<and>
     set (closedChs h) = set (map (\<lambda>(r, _). CallbackCh r) (delivered h)) \<and>
     (\<forall>(r, resp) \<in> set (delivered h). rsWorkflowExecutionID resp = WorkflowExecutionID r)"

definition handler_inv :: "'d Handler \<Rightarrow> bool" where
  "handler_inv h \<longleftrightarrow> maps_inv h \<and> doms_inv h \<and> chans_inv h \<and> log_inv h"

section \<open>The contract of the store\<close>

lemma find_snoc: "f r \<notin> f ` set xs \<Longrightarrow> find (\<lambda>q. f q = f r) (xs @ [r]) = Some r"
  by (induction xs) auto

locale request_queue =
  fixes empty :: 's
    and add :: "'r \<Rightarrow> 's \<Rightarrow> ('e, 's) go"
    and remove :: "string \<Rightarrow> 's \<Rightarrow> 'r option \<times> bool \<times> 's"
    and queue :: "'s \<Rightarrow> 'r list"
    and invar :: "'s \<Rightarrow> bool"
    and id_of :: "'r \<Rightarrow> string"
  assumes invar_empty: "invar empty"
    and queue_empty: "queue empty = []"
    and queue_distinct: "invar s \<Longrightarrow> distinct (map id_of (queue s))"
    and add_new: "invar s \<Longrightarrow> id_of r \<notin> id_of ` set (queue s) \<Longrightarrow>
      \<exists>s'. add r s = Ok s' \<and> invar s' \<and> queue s' = queue s @ [r]"
    and add_known: "invar s \<Longrightarrow> id_of r \<in> id_of ` set (queue s) \<Longrightarrow> \<exists>e. add r s = Err e"
    and remove_spec: "invar s \<Longrightarrow> remove k s = (ro, found, s') \<Longrightarrow>
      invar s' \<and> queue s' = filter (\<lambda>q. id_of q \<noteq> k) (queue s) \<and>
      ro = find (\<lambda>q. id_of q = k) (queue s) \<and> found = (k \<in> id_of ` set (queue s))"
begin

text \<open>Requests leave in the order in which they came.\<close>

lemma add_all_fifo:
  assumes "invar s" and "distinct (map id_of (queue s @ rs))"
  shows "\<exists>s'. go_foldM (\<lambda>s r. add r s) s rs = Ok s' \<and> invar s' \<and> queue s' = queue s @ rs"
  using assms
proof (induction rs arbitrary: s)
  case Nil
  then show ?case by simp
next
  case (Cons r rs)
  then have "id_of r \<notin> id_of ` set (queue s)" by auto
  with Cons.prems(1) obtain s' where s': "add r s = Ok s'" "invar s'" "queue s' = queue s @ [r]"
    using add_new by blast
  with Cons.prems(2) have "distinct (map id_of (queue s' @ rs))" by simp
  with Cons.IH s' show ?case by fastforce
qed

text \<open>Adding a request and removing it again leaves the queue as it was.\<close>

lemma add_remove:
  assumes "invar s" and "add r s = Ok s'" and "remove (id_of r) s' = (r', found, s'')"
  shows "r' = Some r \<and> found \<and> queue s'' = queue s"
proof -
  have new: "id_of r \<notin> id_of ` set (queue s)"
    using assms(1,2) add_known by fastforce
  with assms(1,2) add_new have s': "invar s'" "queue s' = queue s @ [r]"
    by fastforce+
  have "filter (\<lambda>q. id_of q \<noteq> id_of r) (queue s) = queue s"
    using new by (intro filter_True) (auto simp: image_iff)
  moreover have "find (\<lambda>q. id_of q = id_of r) (queue s @ [r]) = Some r"
    using new by (rule find_snoc)
  ultimately show ?thesis
    using remove_spec [OF s'(1) assms(3)] s'(2) by auto
qed

end

section \<open>The store keeps the contract\<close>

lemma map_map_prod_Copy [simp]: "map (map_prod (\<lambda>k. k) Copy) m = m"
  by (rule map_map_prod_id) simp

lemma Request_Copy_id [simp]: "Request_Copy r = r"
proof -
  have "map_option (map Copy) (Observations r) = Observations r"
    by (cases "Observations r") (simp_all add: map_idI)
  moreover have "map_option (map (map_prod (\<lambda>k. k) Copy)) (OverriddenEncoderConfig r) =
      OverriddenEncoderConfig r"
    by (cases "OverriddenEncoderConfig r") simp_all
  ultimately show ?thesis by (simp add: Request_Copy_def)
qed

lemma store_wf_lookup:
  "store_wf s \<Longrightarrow> map_of (requests s) k = Some r \<Longrightarrow> WorkflowExecutionID r = k"
  by (fastforce simp: store_wf_def dest: map_of_SomeD)

lemma store_wf_ids: "store_wf s \<Longrightarrow> k \<in> set (requestIDs s) \<longleftrightarrow> (\<exists>r. map_of (requests s) k = Some r)"
  unfolding store_wf_def by (metis gomap_dom_iff not_None_eq)

lemma queued_ids: "store_wf s \<Longrightarrow> map WorkflowExecutionID (queued s) = requestIDs s"
  unfolding queued_def map_map
  by (rule map_idI) (auto simp: store_wf_ids dest: store_wf_lookup)

lemma queued_ids_set: "store_wf s \<Longrightarrow> WorkflowExecutionID ` set (queued s) = set (requestIDs s)"
  by (metis queued_ids set_map)

lemma store_wf_NewStore [simp]: "store_wf NewStore"
  by (simp add: store_wf_def NewStore_def)

lemma Add_new:
  assumes "store_wf s" and "map_of (requests s) (WorkflowExecutionID r) = None"
  shows "\<exists>s'. Add r s = Ok s' \<and> store_wf s' \<and> queued s' = queued s @ [r] \<and>
    requests s' = put (WorkflowExecutionID r) r (requests s)"
proof -
  let ?k = "WorkflowExecutionID r"
  have "?k \<notin> set (requestIDs s)"
    using assms by (simp add: store_wf_ids)
  then show ?thesis
    using assms by (auto simp: Add_def store_wf_def queued_def put_new gomap_dom_iff map_add_def)
qed

lemma Add_known:
  "map_of (requests s) (WorkflowExecutionID r) = Some q \<Longrightarrow>
     Add r s = Err (RequestExists (WorkflowExecutionID r))"
  by (simp add: Add_def)

lemma find_queued:
  assumes "store_wf s"
  shows "find (\<lambda>q. WorkflowExecutionID q = k) (queued s) = map_of (requests s) k"
proof -
  have "find (\<lambda>q. WorkflowExecutionID q = k) (map (\<lambda>k. the (map_of (requests s) k)) ks) =
      (if k \<in> set ks then map_of (requests s) k else None)"
    if "set ks \<subseteq> set (requestIDs s)" for ks
    using that assms by (induction ks) (auto simp: store_wf_ids dest: store_wf_lookup)
  from this [of "requestIDs s"] show ?thesis
    using assms by (auto simp: queued_def store_wf_ids)
qed

lemma evict_spec:
  assumes "store_wf s" and "evict k s = (r, found, s')"
  shows "store_wf s' \<and> queued s' = filter (\<lambda>q. WorkflowExecutionID q \<noteq> k) (queued s) \<and>
    r = map_of (requests s) k \<and> found = (r \<noteq> None) \<and> requests s' = del k (requests s)"
proof -
  have s': "s' = s\<lparr>requestIDs := filter (\<lambda>rid. rid \<noteq> k) (requestIDs s), requests := del k (requests s)\<rparr>"
    using assms(2) by (auto simp: evict_def Let_def del_absent split: option.splits)
  have wf: "store_wf s'"
    using assms(1) unfolding s' store_wf_def by (auto simp: set_del)
  have "filter (\<lambda>q. WorkflowExecutionID q \<noteq> k) (map (\<lambda>k. the (map_of (requests s) k)) ks) =
      map (\<lambda>j. the (((map_of (requests s))(k := None)) j)) (filter (\<lambda>rid. rid \<noteq> k) ks)"
    if "set ks \<subseteq> set (requestIDs s)" for ks
    using that assms(1) by (induction ks) (auto simp: store_wf_ids dest: store_wf_lookup)
  from this [of "requestIDs s"]
  have "queued s' = filter (\<lambda>q. WorkflowExecutionID q \<noteq> k) (queued s)"
    by (simp add: s' queued_def)
  with wf assms show ?thesis
    by (auto simp: evict_def Let_def store_wf_ids s' split: option.splits)
qed

interpretation store: request_queue NewStore Add evict queued store_wf WorkflowExecutionID
proof (unfold_locales, goal_cases)
  case (3 s)
  then show ?case by (simp add: queued_ids store_wf_def)
next
  case (4 s r)
  then show ?case
    using Add_new [of s r] by (auto simp: queued_ids_set store_wf_ids)
next
  case (5 s r)
  then show ?case
    using Add_known [of s r] by (auto simp: queued_ids_set store_wf_ids)
next
  case (6 s k ro found s')
  then show ?case
    using evict_spec [OF 6] by (auto simp: find_queued queued_ids_set store_wf_ids)
qed (simp_all add: queued_def NewStore_def store_wf_NewStore [unfolded NewStore_def])

lemma firstN_loop_all:
  assumes "\<forall>k \<in> set ks. map_of m k \<noteq> None"
  shows "firstN_loop m b ks got =
    (if int (length got) < b \<and> b \<le> int (length got + length ks)
     then take (nat b) (got @ map (\<lambda>k. the (map_of m k)) ks)
     else got @ map (\<lambda>k. the (map_of m k)) ks)"
  using assms
proof (induction ks arbitrary: got)
  case Nil
  then show ?case by auto
next
  case (Cons k ks)
  then obtain r where r: "map_of m k = Some r" by auto
  show ?case
  proof (cases "int (length (got @ [r])) = b")
    case True
    with r show ?thesis by (auto simp: Let_def nat_add_distrib)
  next
    case False
    with r Cons show ?thesis by (auto simp: Let_def)
  qed
qed

lemma FirstN_queued:
  assumes "store_wf s" and "b \<noteq> 0"
  shows "FirstN s b = Ok (if 0 < b then take (nat b) (queued s) else queued s)"
proof -
  have "\<forall>k \<in> set (requestIDs s). map_of (requests s) k \<noteq> None"
    using assms by (simp add: store_wf_ids)
  from firstN_loop_all [OF this, of b "[]"] assms(2) show ?thesis
    by (auto simp: FirstN_def queued_def)
qed

section \<open>The handler keeps its invariant\<close>

lemmas handler_inv_defs = handler_inv_def maps_inv_def doms_inv_def chans_inv_def log_inv_def

lemma handler_inv_start: "handler_inv (NewHandler NewStore expiry)"
  by (simp add: handler_inv_defs NewHandler_def known_requests_def keyed_def NewStore_def
      store_wf_NewStore [unfolded NewStore_def])

lemma keyed_del [simp]: "keyed f m \<Longrightarrow> keyed f (del k m)"
  by (auto simp: keyed_def set_del)

lemma keyed_put [simp]: "gomap_wf m \<Longrightarrow> keyed f m \<Longrightarrow> f r = k \<Longrightarrow> keyed f (put k r m)"
  by (auto simp: keyed_def set_put)

lemma store_keyed: "store_wf s \<Longrightarrow> keyed WorkflowExecutionID (requests s)"
  by (simp add: store_wf_def keyed_def)

lemma keyed_dom: "keyed f m \<Longrightarrow> r \<in> snd ` set m \<Longrightarrow> f r \<in> gomap_dom m"
  by (force simp: keyed_def)

text \<open>
  The invariant at the point where a request is answered: the request is no longer in the store,
  it is the only one the handler knows under its channel, and the channel is open.
\<close>

definition answerable :: "'d Request \<Rightarrow> 'd Handler \<Rightarrow> bool" where
  "answerable req h \<longleftrightarrow>
     CallbackCh req \<notin> set (closedChs h) \<and>
     WorkflowExecutionID req \<notin> gomap_dom (requests (hstore h)) \<and>
     (\<forall>r \<in> known_requests h.
        CallbackCh r = CallbackCh req \<longrightarrow> WorkflowExecutionID r = WorkflowExecutionID req)"

lemma sendResponse_ok:
  assumes "answerable req h"
  shows "\<exists>h'. sendResponse c req resp h = Ok h'"
  using assms by (auto simp: answerable_def sendResponse_def)

lemma sendResponse_inv:
  assumes inv: "handler_inv h" and ans: "answerable req h"
    and id: "rsWorkflowExecutionID resp = WorkflowExecutionID req"
    and send: "sendResponse c req resp h = Ok h'"
  shows "handler_inv h'"
proof (cases c)
  case True
  with inv send show ?thesis by (simp add: sendResponse_def)
next
  case False
  with ans send have h': "h' = h\<lparr>delivered := delivered h @ [(req, resp)],
      closedChs := CallbackCh req # closedChs h,
      pendingRequests := del (WorkflowExecutionID req) (pendingRequests h)\<rparr>"
    by (simp add: sendResponse_def answerable_def)
  have maps: "maps_inv h" and doms: "doms_inv h" and chans: "chans_inv h" and log: "log_inv h"
    using inv by (simp_all add: handler_inv_def)
  have known: "known_requests h' \<subseteq> known_requests h"
    by (auto simp: known_requests_def h' set_del)
  have other: "WorkflowExecutionID r \<noteq> WorkflowExecutionID req" if r: "r \<in> known_requests h'" for r
  proof (cases "r \<in> snd ` set (requests (hstore h))")
    case True
    with maps have "WorkflowExecutionID r \<in> gomap_dom (requests (hstore h))"
      by (intro keyed_dom store_keyed) (auto simp: maps_inv_def)
    with ans show ?thesis by (metis answerable_def)
  next
    case False
    with r have "r \<in> snd ` set (del (WorkflowExecutionID req) (pendingRequests h))"
      by (simp add: known_requests_def h')
    moreover have "keyed WorkflowExecutionID (del (WorkflowExecutionID req) (pendingRequests h))"
      using maps by (simp add: maps_inv_def)
    ultimately have
      "WorkflowExecutionID r \<in> gomap_dom (del (WorkflowExecutionID req) (pendingRequests h))"
      by (intro keyed_dom)
    then show ?thesis by simp
  qed
  have "maps_inv h'"
    using maps by (simp add: maps_inv_def h')
  moreover have "doms_inv h'"
  proof -
    have "WorkflowExecutionID req \<notin> gomap_dom (requests (hstore h))"
      using ans unfolding answerable_def by blast
    with doms show ?thesis
      unfolding doms_inv_def h' by (simp add: subset_Diff_insert)
  qed
  moreover have "chans_inv h'"
    unfolding chans_inv_def
  proof (intro conjI ballI impI)
    fix r assume r: "r \<in> known_requests h'"
    with known have "r \<in> known_requests h" by blast
    then have "CallbackCh r \<noteq> CallbackCh req" "CallbackCh r \<notin> set (closedChs h)"
      using other [OF r] ans chans unfolding answerable_def chans_inv_def by blast+
    then show "CallbackCh r \<notin> set (closedChs h')" by (simp add: h')
  next
    fix r r' assume "r \<in> known_requests h'" "r' \<in> known_requests h'" "CallbackCh r = CallbackCh r'"
    then show "WorkflowExecutionID r = WorkflowExecutionID r'"
      using known chans unfolding chans_inv_def by blast
  qed
  moreover have "log_inv h'"
    using log ans id by (auto simp: log_inv_def h' answerable_def)
  ultimately show ?thesis by (simp add: handler_inv_def)
qed

lemma chans_inv_mono:
  assumes "chans_inv h" and "known_requests h' \<subseteq> known_requests h"
    and "set (closedChs h') \<subseteq> set (closedChs h)"
  shows "chans_inv h'"
  using assms unfolding chans_inv_def by blast

lemma evict_inv:
  assumes inv: "handler_inv h" and ev: "evict k (hstore h) = (ro, found, s')"
  shows "handler_inv (h\<lparr>hstore := s'\<rparr>)"
    and "known_requests (h\<lparr>hstore := s'\<rparr>) \<subseteq> known_requests h"
proof -
  from inv have wf: "store_wf (hstore h)"
    by (simp add: handler_inv_def maps_inv_def)
  note sp = evict_spec [OF wf ev]
  show known: "known_requests (h\<lparr>hstore := s'\<rparr>) \<subseteq> known_requests h"
    using sp by (auto simp: known_requests_def set_del)
  have "maps_inv (h\<lparr>hstore := s'\<rparr>)" "log_inv (h\<lparr>hstore := s'\<rparr>)"
    using inv sp by (simp_all add: handler_inv_def maps_inv_def log_inv_def)
  moreover have "doms_inv (h\<lparr>hstore := s'\<rparr>)"
    using inv sp unfolding handler_inv_def doms_inv_def by simp blast
  moreover have "chans_inv (h\<lparr>hstore := s'\<rparr>)"
    using inv by (intro chans_inv_mono [OF _ known]) (simp_all add: handler_inv_def)
  ultimately show "handler_inv (h\<lparr>hstore := s'\<rparr>)"
    by (simp add: handler_inv_def)
qed

lemma known_answerable:
  assumes "chans_inv h" and "req \<in> known_requests h"
    and "WorkflowExecutionID req \<notin> gomap_dom (requests (hstore h))"
  shows "answerable req h"
  using assms unfolding answerable_def chans_inv_def by blast

lemma evict_answerable:
  assumes inv: "handler_inv h" and ev: "evict (WorkflowExecutionID req) (hstore h) = (ro, found, s')"
    and req: "req \<in> known_requests h"
  shows "answerable req (h\<lparr>hstore := s'\<rparr>)"
proof -
  from inv have wf: "store_wf (hstore h)" and chans: "chans_inv h"
    by (simp_all add: handler_inv_def maps_inv_def)
  let ?h = "h\<lparr>hstore := s'\<rparr>"
  have "WorkflowExecutionID req \<notin> gomap_dom (requests (hstore ?h))"
    using evict_spec [OF wf ev] by simp
  moreover have "CallbackCh req \<notin> set (closedChs ?h)"
    using chans req by (simp add: chans_inv_def)
  moreover have "WorkflowExecutionID r = WorkflowExecutionID req"
    if "r \<in> known_requests ?h" "CallbackCh r = CallbackCh req" for r
    using that chans req evict_inv(2) [OF inv ev] unfolding chans_inv_def by blast
  ultimately show ?thesis
    unfolding answerable_def by blast
qed

lemma expire_one_spec:
  assumes inv: "handler_inv h" and e: "(k, req) \<in> set (pendingRequests h)"
  shows "\<exists>h'. expire_one now cancelled h (k, req) = Ok h' \<and> handler_inv h' \<and>
    (if now > ExpiresAt req \<and> \<not> cancelled k
     then pendingRequests h' = del k (pendingRequests h) \<and>
          delivered h' = delivered h @ [(req, timeoutResponse req)]
     else pendingRequests h' = pendingRequests h \<and> delivered h' = delivered h)"
proof (cases "now > ExpiresAt req")
  case True
  obtain ro found s' where ev: "evict (WorkflowExecutionID req) (hstore h) = (ro, found, s')"
    by (metis prod_cases3)
  have k: "k = WorkflowExecutionID req"
    using inv e by (auto simp: handler_inv_def maps_inv_def keyed_def)
  have ans: "answerable req (h\<lparr>hstore := s'\<rparr>)"
    using e by (intro evict_answerable [OF inv ev]) (force simp: known_requests_def)
  then obtain h' where h': "sendResponse (cancelled k) req (timeoutResponse req) (h\<lparr>hstore := s'\<rparr>) = Ok h'"
    using sendResponse_ok by blast
  moreover have "handler_inv h'"
    using sendResponse_inv [OF evict_inv(1) [OF inv ev] ans _ h'] by (simp add: timeoutResponse_def)
  moreover have "expire_one now cancelled h (k, req) = Ok h'"
    using True ev h' by (simp add: expire_one_def)
  moreover have "pendingRequests h' = del k (pendingRequests h) \<and>
      delivered h' = delivered h @ [(req, timeoutResponse req)]" if "\<not> cancelled k"
    using that h' k by (auto simp: sendResponse_def split: if_splits)
  moreover have "pendingRequests h' = pendingRequests h \<and> delivered h' = delivered h" if "cancelled k"
    using that h' by (auto simp: sendResponse_def)
  ultimately show ?thesis
    using True by auto
qed (use inv in \<open>simp add: expire_one_def\<close>)

lemma expire_all_spec:
  assumes "handler_inv h" and "set xs \<subseteq> set (pendingRequests h)" and "gomap_wf xs"
  shows "\<exists>h'. go_foldM (expire_one now cancelled) h xs = Ok h' \<and> handler_inv h' \<and>
    set (pendingRequests h') =
      {(k, r) \<in> set (pendingRequests h). \<not> ((k, r) \<in> set xs \<and> now > ExpiresAt r \<and> \<not> cancelled k)} \<and>
    delivered h' = delivered h @
      map (\<lambda>(k, r). (r, timeoutResponse r)) (filter (\<lambda>(k, r). now > ExpiresAt r \<and> \<not> cancelled k) xs)"
  using assms
proof (induction xs arbitrary: h)
  case Nil
  then show ?case by auto
next
  case (Cons e xs)
  obtain k req where e: "e = (k, req)" by (cases e)
  with Cons.prems have pend: "(k, req) \<in> set (pendingRequests h)" by simp
  have wf: "gomap_wf (pendingRequests h)"
    using Cons.prems(1) by (simp add: handler_inv_def maps_inv_def)
  from expire_one_spec [OF Cons.prems(1) pend] obtain h1 where h1:
    "expire_one now cancelled h (k, req) = Ok h1" "handler_inv h1"
    "if now > ExpiresAt req \<and> \<not> cancelled k
     then pendingRequests h1 = del k (pendingRequests h) \<and>
          delivered h1 = delivered h @ [(req, timeoutResponse req)]
     else pendingRequests h1 = pendingRequests h \<and> delivered h1 = delivered h"
    by blast
  have "set xs \<subseteq> set (pendingRequests h1)"
    using Cons.prems(2,3) h1(3) e by (force simp: set_del split: if_splits)
  from Cons.IH [OF h1(2) this] Cons.prems(3) obtain h2 where h2:
    "go_foldM (expire_one now cancelled) h1 xs = Ok h2" "handler_inv h2"
    "set (pendingRequests h2) =
      {(k, r) \<in> set (pendingRequests h1). \<not> ((k, r) \<in> set xs \<and> now > ExpiresAt r \<and> \<not> cancelled k)}"
    "delivered h2 = delivered h1 @
      map (\<lambda>(k, r). (r, timeoutResponse r)) (filter (\<lambda>(k, r). now > ExpiresAt r \<and> \<not> cancelled k) xs)"
    by auto
  have only: "r = req" if "(k, r) \<in> set (pendingRequests h)" for r
    using that pend wf by (metis map_of_is_SomeI option.inject)
  have "set (pendingRequests h2) = {(j, r) \<in> set (pendingRequests h).
      \<not> ((j, r) \<in> set (e # xs) \<and> now > ExpiresAt r \<and> \<not> cancelled j)}"
    using h1(3) h2(3) only e by (auto simp: set_del split: if_splits)
  with h1 h2 e show ?case by (auto split: if_splits)
qed

lemma register_inv:
  assumes inv: "handler_inv h" and fresh: "fresh_event h (RequestIn req c)"
  shows "handler_inv (h\<lparr>pendingRequests := put (WorkflowExecutionID req) req (pendingRequests h)\<rparr>)"
    (is "handler_inv ?h")
proof -
  have maps: "maps_inv h" and doms: "doms_inv h" and chans: "chans_inv h" and log: "log_inv h"
    using inv by (simp_all add: handler_inv_def)
  have known: "known_requests ?h \<subseteq> insert req (known_requests h)"
    using maps by (auto simp: known_requests_def maps_inv_def set_put)
  have "maps_inv ?h"
    using maps by (simp add: maps_inv_def)
  moreover have "doms_inv ?h"
    using doms by (auto simp: doms_inv_def)
  moreover have "chans_inv ?h"
    unfolding chans_inv_def
  proof (intro conjI ballI impI)
    fix r assume "r \<in> known_requests ?h"
    with known fresh chans show "CallbackCh r \<notin> set (closedChs ?h)"
      by (auto simp: chans_inv_def)
  next
    fix r r' assume "r \<in> known_requests ?h" "r' \<in> known_requests ?h" "CallbackCh r = CallbackCh r'"
    moreover have "\<forall>q \<in> known_requests h. CallbackCh q \<noteq> CallbackCh req"
      using fresh by simp
    ultimately have "r = req \<and> r' = req \<or> r \<in> known_requests h \<and> r' \<in> known_requests h"
      using known by (metis insertE subsetD)
    with \<open>CallbackCh r = CallbackCh r'\<close> chans show "WorkflowExecutionID r = WorkflowExecutionID r'"
      unfolding chans_inv_def by blast
  qed
  moreover have "log_inv ?h"
    using log by (simp add: log_inv_def)
  ultimately show ?thesis by (simp add: handler_inv_def)
qed

lemma known_requests_frame [simp]:
  "known_requests (h\<lparr>responseCache := c\<rparr>) = known_requests h"
  by (simp add: known_requests_def)

lemma chans_inv_frame [simp]: "chans_inv (h\<lparr>responseCache := c\<rparr>) = chans_inv h"
  by (simp only: chans_inv_def known_requests_frame) simp

lemma cache_inv:
  assumes "handler_inv h" and "gomap_wf c" and "keyed (\<lambda>e. rsWorkflowExecutionID (response e)) c"
    and "gomap_dom c \<inter> gomap_dom (requests (hstore h)) = {}"
  shows "handler_inv (h\<lparr>responseCache := c\<rparr>)"
  using assms
  by (simp add: handler_inv_def maps_inv_def doms_inv_def log_inv_def)

lemma handle_request_cached:
  assumes inv: "handler_inv h" and fresh: "fresh_event h (RequestIn req c)"
    and cached: "map_of (responseCache h) (WorkflowExecutionID req) = Some e"
  shows "\<exists>h'. handle_request c req h = Ok h' \<and> handler_inv h'"
proof -
  let ?k = "WorkflowExecutionID req"
  let ?h1 = "h\<lparr>pendingRequests := put ?k req (pendingRequests h)\<rparr>"
  let ?h2 = "?h1\<lparr>responseCache := del ?k (responseCache h)\<rparr>"
  note r1 = register_inv [OF inv fresh]
  have maps: "maps_inv h" and doms: "doms_inv h" and chans: "chans_inv ?h1"
    using inv r1 by (simp_all add: handler_inv_def)
  have inv2: "handler_inv ?h2"
    using maps doms by (intro cache_inv [OF r1]) (auto simp: maps_inv_def doms_inv_def)
  have "?k \<in> gomap_dom (responseCache h)"
    using cached by blast
  with doms have "?k \<notin> gomap_dom (requests (hstore ?h2))"
    unfolding doms_inv_def by auto
  moreover have "req \<in> known_requests ?h1"
    by (simp add: known_requests_def)
  ultimately have ans: "answerable req ?h2"
    using chans by (metis chans_inv_frame known_answerable known_requests_frame)
  have id: "rsWorkflowExecutionID (response e) = ?k"
    using cached maps by (force simp: maps_inv_def keyed_def dest: map_of_SomeD)
  obtain h' where h': "sendResponse c req (response e) ?h2 = Ok h'"
    using sendResponse_ok [OF ans] by blast
  with sendResponse_inv [OF inv2 ans id h'] cached show ?thesis
    by (simp add: handle_request_def Let_def)
qed

lemma handle_request_new:
  assumes inv: "handler_inv h" and fresh: "fresh_event h (RequestIn req c)"
    and uncached: "map_of (responseCache h) (WorkflowExecutionID req) = None"
  shows "\<exists>h'. handle_request c req h = Ok h' \<and> handler_inv h'"
proof (cases "map_of (requests (hstore h)) (WorkflowExecutionID req)")
  case (Some q)
  with register_inv [OF inv fresh] uncached show ?thesis
    by (simp add: handle_request_def Add_known)
next
  case None
  let ?k = "WorkflowExecutionID req"
  let ?h1 = "h\<lparr>pendingRequests := put ?k req (pendingRequests h)\<rparr>"
  have r1: "maps_inv ?h1" "doms_inv ?h1" "chans_inv ?h1" "log_inv ?h1"
    using register_inv [OF inv fresh] by (simp_all add: handler_inv_def)
  then have wf: "store_wf (hstore h)" "gomap_wf (requests (hstore h))"
    by (simp_all add: maps_inv_def store_wf_def)
  then obtain s' where s': "Add req (hstore h) = Ok s'" "store_wf s'"
    "requests s' = put ?k req (requests (hstore h))"
    using Add_new [OF wf(1) None] by blast
  have "snd ` set (requests s') \<subseteq> insert req (snd ` set (requests (hstore h)))"
    using snd_set_put [OF wf(2)] by (simp only: s'(3))
  moreover have "req \<in> known_requests ?h1"
    by (simp add: known_requests_def)
  ultimately have known: "known_requests (?h1\<lparr>hstore := s'\<rparr>) \<subseteq> known_requests ?h1"
    unfolding known_requests_def by auto
  have nk: "?k \<notin> gomap_dom (responseCache h)"
    using uncached by (metis gomap_dom_iff)
  have "maps_inv (?h1\<lparr>hstore := s'\<rparr>)" "log_inv (?h1\<lparr>hstore := s'\<rparr>)"
    using r1 s' by (simp_all add: maps_inv_def log_inv_def)
  moreover have "doms_inv (?h1\<lparr>hstore := s'\<rparr>)"
    using r1(2) s'(3) nk by (simp add: doms_inv_def)
  moreover have "chans_inv (?h1\<lparr>hstore := s'\<rparr>)"
    by (rule chans_inv_mono [OF r1(3) known]) simp
  ultimately show ?thesis
    using s'(1) uncached by (simp add: handle_request_def handler_inv_def)
qed

lemma handle_response_inv:
  assumes inv: "handler_inv h"
  shows "\<exists>h'. handle_response c now resp h = Ok h' \<and> handler_inv h'"
proof -
  let ?k = "rsWorkflowExecutionID resp"
  obtain ro found s' where ev: "evict ?k (hstore h) = (ro, found, s')"
    by (metis prod_cases3)
  have maps: "maps_inv h" and doms: "doms_inv h"
    using inv by (simp_all add: handler_inv_def)
  then have wf: "store_wf (hstore h)" by (simp add: maps_inv_def)
  note sp = evict_spec [OF wf ev] and inv' = evict_inv(1) [OF inv ev]
  show ?thesis
  proof (cases ro)
    case None
    with sp maps doms have "handler_inv (h\<lparr>hstore := s'\<rparr>\<lparr>responseCache :=
        put ?k \<lparr>response = resp, entryTime = now\<rparr> (responseCache h)\<rparr>)"
      by (intro cache_inv [OF inv']) (auto simp: maps_inv_def doms_inv_def)
    with None sp ev show ?thesis by (simp add: handle_response_def)
  next
    case (Some r)
    with sp wf have id: "?k = WorkflowExecutionID r"
      by (metis store_wf_lookup)
    have "r \<in> known_requests h"
      using Some sp by (force simp: known_requests_def dest: map_of_SomeD)
    then have ans: "answerable r (h\<lparr>hstore := s'\<rparr>)"
      using evict_answerable [OF inv] ev id by metis
    then obtain h' where h': "sendResponse c r resp (h\<lparr>hstore := s'\<rparr>) = Ok h'"
      using sendResponse_ok by blast
    with sendResponse_inv [OF inv' ans id h'] Some sp ev show ?thesis
      by (simp add: handle_response_def)
  qed
qed

lemma expireCachedResponses_inv:
  "handler_inv h \<Longrightarrow> handler_inv (expireCachedResponses now h)"
  unfolding expireCachedResponses_def
  by (rule cache_inv)
    (auto simp: handler_inv_def maps_inv_def doms_inv_def keyed_def distinct_map_filter)

lemma expirePendingRequests_spec:
  assumes inv: "handler_inv h" and it: "iteration_order it"
  shows "\<exists>h'. expirePendingRequests it now cancelled h = Ok h' \<and> handler_inv h' \<and>
    set (pendingRequests h') =
      {(k, r) \<in> set (pendingRequests h). \<not> (now > ExpiresAt r \<and> \<not> cancelled k)} \<and>
    set (delivered h') = set (delivered h) \<union>
      {(r, timeoutResponse r) | k r. (k, r) \<in> set (pendingRequests h) \<and>
         now > ExpiresAt r \<and> \<not> cancelled k}"
proof -
  have "set (it (pendingRequests h)) \<subseteq> set (pendingRequests h)"
    and wf: "gomap_wf (it (pendingRequests h))"
    using inv it by (simp_all add: handler_inv_def maps_inv_def
        gomap_wf_permute [OF iteration_orderD [OF it]])
  from expire_all_spec [OF inv this, of now cancelled] it show ?thesis
    unfolding expirePendingRequests_def by (auto 4 4 simp: image_iff)
qed

lemma worker_step_inv:
  assumes inv: "handler_inv h" and fresh: "fresh_event h ev" and it: "iteration_order it"
  shows "\<exists>h'. worker_step it h ev = Ok h' \<and> handler_inv h'"
proof (cases ev)
  case (RequestIn req c)
  have "\<exists>h'. handle_request c req h = Ok h' \<and> handler_inv h'"
  proof (cases "map_of (responseCache h) (WorkflowExecutionID req)")
    case None
    with inv fresh RequestIn show ?thesis by (blast intro: handle_request_new)
  next
    case (Some e)
    with inv fresh RequestIn show ?thesis by (blast intro: handle_request_cached)
  qed
  with RequestIn show ?thesis by simp
next
  case (PendingTick now cancelled)
  then show ?thesis
    using expirePendingRequests_spec [OF inv it, of now cancelled] by auto
qed (use expireCachedResponses_inv [OF inv] handle_response_inv [OF inv] in auto)

lemma handler_reachable_inv: "handler_reachable h \<Longrightarrow> handler_inv h"
proof (induction rule: handler_reachable.induct)
  case (step h ev it h')
  then show ?case using worker_step_inv by fastforce
qed (rule handler_inv_start)

section \<open>Properties\<close>

text \<open>
  The store is a FIFO queue. Adding distinct requests keeps their order, \<^verbatim>\<open>FirstN\<close> returns the
  oldest ones (at most the batch size; all of them for a negative batch size), eviction removes
  exactly the request with the given id and returns it, and the store stays well-formed.
\<close>

lemma store_fifo:
  assumes "store_wf s" and "distinct (map WorkflowExecutionID (queued s @ rs))"
  shows "\<exists>s'. go_foldM (\<lambda>s r. Add r s) s rs = Ok s' \<and> store_wf s' \<and>
    (\<forall>b. b \<noteq> 0 \<longrightarrow>
       FirstN s' b = Ok (if 0 < b then take (nat b) (queued s @ rs) else queued s @ rs)) \<and>
    (\<forall>k. case evict k s' of (r, found, s'') \<Rightarrow>
       queued s'' = filter (\<lambda>q. WorkflowExecutionID q \<noteq> k) (queued s @ rs) \<and>
       r = find (\<lambda>q. WorkflowExecutionID q = k) (queued s @ rs) \<and> store_wf s'')"
proof -
  from store.add_all_fifo [OF assms] obtain s' where
    s': "go_foldM (\<lambda>s r. Add r s) s rs = Ok s'" "store_wf s'" "queued s' = queued s @ rs"
    by blast
  then show ?thesis
    using FirstN_queued [OF s'(2)] store.remove_spec [OF s'(2)] by (fastforce split: prod.splits)
qed

text \<open>A request with the given id and callback channel.\<close>

definition sample_request :: "string \<Rightarrow> nat \<Rightarrow> unit Request" where
  "sample_request wid ch =
     \<lparr>Observations = Some [], OverriddenEncoderName = [], OverriddenEncoderConfig = None,
      ExpiresAt = 10, CallbackCh = ch, StopCh = 0, WorkflowExecutionID = wid,
      WorkflowID = ''wf'', WorkflowOwner = [], WorkflowName = [], WorkflowDonID = 0,
      WorkflowDonConfigVersion = 0, ReportID = [], KeyID = []\<rparr>"

lemma store_fifo_witness:
  "\<exists>s'. go_foldM (\<lambda>s r. Add r s) NewStore [sample_request ''a'' 1, sample_request ''b'' 2] = Ok s' \<and>
     FirstN s' 1 = Ok [sample_request ''a'' 1]"
proof -
  have "distinct (map WorkflowExecutionID
      (queued (NewStore :: unit Store) @ [sample_request ''a'' 1, sample_request ''b'' 2]))"
    by (simp add: queued_def NewStore_def sample_request_def)
  from store_fifo [OF store_wf_NewStore this] show ?thesis
    by (auto simp: queued_def NewStore_def)
qed



text \<open>
  Expiry. A tick of the pending-requests timer answers every pending request whose deadline has
  passed with a timeout error (unless its send is cancelled), drops those requests and no others,
  and leaves the rest pending: with no cancellation no request stays pending past its deadline.
\<close>

lemma expiry_answers_all:
  assumes "handler_reachable h" and "iteration_order it"
  shows "\<exists>h'. worker_step it h (PendingTick now cancelled) = Ok h' \<and>
    set (pendingRequests h') =
      {(k, r) \<in> set (pendingRequests h). \<not> (now > ExpiresAt r \<and> \<not> cancelled k)} \<and>
    set (delivered h') = set (delivered h) \<union>
      {(r, timeoutResponse r) | k r. (k, r) \<in> set (pendingRequests h) \<and>
         now > ExpiresAt r \<and> \<not> cancelled k}"
  unfolding worker_step.simps
  using expirePendingRequests_spec [OF handler_reachable_inv [OF assms(1)] assms(2),
      of now cancelled]
  by blast

lemma expiry_answers_all_witness:
  "\<exists>(h :: unit Handler) h'. handler_reachable h \<and> map fst (pendingRequests h) = [''a''] \<and>
     worker_step rev h (PendingTick 11 (\<lambda>_. False)) = Ok h' \<and> set (pendingRequests h') = {}"
proof -
  let ?r = "sample_request ''a'' 1"
  let ?h = "(NewHandler NewStore 5)\<lparr>pendingRequests := [(''a'', ?r)],
    hstore := \<lparr>requestIDs = [''a''], requests = [(''a'', ?r)]\<rparr>\<rparr>"
  have h: "handler_reachable ?h"
    by (rule handler_reachable.step [OF handler_reachable.start [of 5],
          of "RequestIn ?r False" "\<lambda>xs. xs"])
      (auto simp: NewHandler_def NewStore_def known_requests_def handle_request_def Add_def
        put_def sample_request_def)
  from expiry_answers_all [OF h iteration_order_rev, of 11 "\<lambda>_. False"] obtain h' where
    h': "worker_step rev ?h (PendingTick 11 (\<lambda>_. False)) = Ok h'"
      "set (pendingRequests h') =
        {(k, r) \<in> set (pendingRequests ?h). \<not> (11 > ExpiresAt r \<and> \<not> False)}"
    by blast
  from h'(2) have "set (pendingRequests h') = {}"
    by (auto simp: sample_request_def)
  with h h'(1) show ?thesis by (intro exI [of _ ?h] exI [of _ h']) simp
qed

text \<open>
  A response that arrives before its request is not lost: it is cached, and the request, when it
  arrives, is answered with it at once and is neither stored nor left pending.
\<close>

lemma early_response_delivered:
  assumes reach: "handler_reachable h"
    and absent: "rsWorkflowExecutionID resp \<notin> gomap_dom (requests (hstore h))"
    and id: "WorkflowExecutionID req = rsWorkflowExecutionID resp"
    and fresh: "fresh_event h (RequestIn req False)"
  shows "\<exists>h1 h2. worker_step it h (ResponseIn resp now c) = Ok h1 \<and>
    worker_step it h1 (RequestIn req False) = Ok h2 \<and>
    delivered h2 = delivered h @ [(req, resp)] \<and>
    rsWorkflowExecutionID resp \<notin> gomap_dom (pendingRequests h2) \<and>
    rsWorkflowExecutionID resp \<notin> gomap_dom (responseCache h2) \<and>
    queued (hstore h2) = queued (hstore h)"
proof -
  let ?k = "rsWorkflowExecutionID resp"
  have wf: "store_wf (hstore h)"
    using handler_reachable_inv [OF reach] by (simp add: handler_inv_def maps_inv_def)
  obtain ro found s' where ev: "evict ?k (hstore h) = (ro, found, s')"
    by (metis prod_cases3)
  have none: "map_of (requests (hstore h)) ?k = None"
    using absent by (metis gomap_dom_iff)
  have "queued s' = queued (hstore h)"
    using evict_spec [OF wf ev] none find_queued [OF wf, of ?k]
    by (auto simp: find_None_iff intro: filter_True)
  then show ?thesis
    using evict_spec [OF wf ev] ev none fresh
    by (simp add: handle_response_def handle_request_def sendResponse_def Let_def id)
qed

lemma early_response_delivered_witness:
  "\<exists>h1 h2. worker_step (\<lambda>xs. xs) (NewHandler NewStore 5)
      (ResponseIn \<lparr>rsWorkflowExecutionID = ''a'', rsValue = None, rsErr = None\<rparr> 3 False) = Ok h1 \<and>
    worker_step (\<lambda>xs. xs) h1 (RequestIn (sample_request ''a'' 1) False) = Ok h2 \<and>
    delivered h2 =
      [(sample_request ''a'' 1, \<lparr>rsWorkflowExecutionID = ''a'', rsValue = None, rsErr = None\<rparr>)]"
proof -
  have "\<exists>h1 h2. worker_step (\<lambda>xs. xs) (NewHandler NewStore 5)
      (ResponseIn \<lparr>rsWorkflowExecutionID = ''a'', rsValue = None, rsErr = None\<rparr> 3 False) = Ok h1 \<and>
    worker_step (\<lambda>xs. xs) h1 (RequestIn (sample_request ''a'' 1) False) = Ok h2 \<and>
    delivered h2 = delivered (NewHandler NewStore 5 :: unit Handler) @
      [(sample_request ''a'' 1, \<lparr>rsWorkflowExecutionID = ''a'', rsValue = None, rsErr = None\<rparr>)] \<and>
    rsWorkflowExecutionID \<lparr>rsWorkflowExecutionID = ''a'', rsValue = (None :: (string \<times> unit Value) list option), rsErr = None\<rparr>
      \<notin> gomap_dom (pendingRequests h2) \<and>
    rsWorkflowExecutionID \<lparr>rsWorkflowExecutionID = ''a'', rsValue = (None :: (string \<times> unit Value) list option), rsErr = None\<rparr>
      \<notin> gomap_dom (responseCache h2) \<and>
    queued (hstore h2) = queued (hstore (NewHandler NewStore 5 :: unit Handler))"
    by (rule early_response_delivered [OF handler_reachable.start])
      (simp_all add: NewHandler_def NewStore_def known_requests_def sample_request_def)
  then show ?thesis by (simp add: NewHandler_def) blast
qed

text \<open>
  Two requests with one execution id. The second one replaces the first among the pending
  requests but not in the store, so the response is sent to the first, and the second is dropped
  from the pending requests without an answer: no later tick finds it and its channel stays open.
\<close>

lemma duplicate_request_dropped:
  assumes reach: "handler_reachable h"
    and new: "WorkflowExecutionID r1 \<notin> gomap_dom (requests (hstore h))"
      "WorkflowExecutionID r1 \<notin> gomap_dom (responseCache h)"
    and same: "WorkflowExecutionID r2 = WorkflowExecutionID r1"
      "rsWorkflowExecutionID resp = WorkflowExecutionID r1"
    and fresh: "fresh_event h (RequestIn r1 False)"
  shows "\<exists>h1 h2 h3. worker_step it h (RequestIn r1 False) = Ok h1 \<and>
    worker_step it h1 (RequestIn r2 False) = Ok h2 \<and>
    worker_step it h2 (ResponseIn resp now False) = Ok h3 \<and>
    delivered h3 = delivered h @ [(r1, resp)] \<and>
    WorkflowExecutionID r2 \<notin> gomap_dom (pendingRequests h3) \<and>
    WorkflowExecutionID r2 \<notin> gomap_dom (requests (hstore h3)) \<and>
    closedChs h3 = CallbackCh r1 # closedChs h"
proof -
  let ?k = "WorkflowExecutionID r1"
  have wf: "store_wf (hstore h)"
    using handler_reachable_inv [OF reach] by (simp add: handler_inv_def maps_inv_def)
  have none: "map_of (requests (hstore h)) ?k = None" "map_of (responseCache h) ?k = None"
    using new by (metis gomap_dom_iff)+
  obtain s1 where s1: "Add r1 (hstore h) = Ok s1" "store_wf s1"
    "requests s1 = put ?k r1 (requests (hstore h))"
    using Add_new [OF wf none(1)] by blast
  then have k1: "map_of (requests s1) ?k = Some r1" by simp
  obtain ro found s2 where ev: "evict ?k s1 = (ro, found, s2)"
    by (metis prod_cases3)
  note sp = evict_spec [OF s1(2) ev]
  have "Add r2 s1 = Err (RequestExists ?k)"
    using Add_known [of s1 r2 r1] k1 same by simp
  then show ?thesis
    using s1(1) none sp ev k1 same fresh
    by (simp add: handle_request_def handle_response_def sendResponse_def Let_def)
qed

lemma duplicate_request_dropped_witness:
  "\<exists>h1 h2 h3.
    worker_step rev (NewHandler NewStore 5) (RequestIn (sample_request ''a'' 1) False) = Ok h1 \<and>
    worker_step rev h1 (RequestIn (sample_request ''a'' 2) False) = Ok h2 \<and>
    worker_step rev h2
      (ResponseIn \<lparr>rsWorkflowExecutionID = ''a'', rsValue = None, rsErr = None\<rparr> 3 False) = Ok h3 \<and>
    closedChs h3 = [1] \<and> ''a'' \<notin> gomap_dom (pendingRequests h3)"
proof -
  let ?resp = "\<lparr>rsWorkflowExecutionID = ''a'', rsValue = None, rsErr = None\<rparr> :: unit Response"
  let ?h = "NewHandler NewStore 5 :: unit Handler"
  have "\<exists>h1 h2 h3. worker_step rev ?h (RequestIn (sample_request ''a'' 1) False) = Ok h1 \<and>
    worker_step rev h1 (RequestIn (sample_request ''a'' 2) False) = Ok h2 \<and>
    worker_step rev h2 (ResponseIn ?resp 3 False) = Ok h3 \<and>
    delivered h3 = delivered ?h @ [(sample_request ''a'' 1, ?resp)] \<and>
    WorkflowExecutionID (sample_request ''a'' 2) \<notin> gomap_dom (pendingRequests h3) \<and>
    WorkflowExecutionID (sample_request ''a'' 2) \<notin> gomap_dom (requests (hstore h3)) \<and>
    closedChs h3 = CallbackCh (sample_request ''a'' 1) # closedChs ?h"
    by (rule duplicate_request_dropped [OF handler_reachable.start])
      (simp_all add: NewHandler_def NewStore_def known_requests_def sample_request_def)
  then show ?thesis
    by (simp add: NewHandler_def sample_request_def) blast
qed

end
