(* ===== verification/ReportingPlugin.thy ===== *)
theory ReportingPlugin
  imports Requests ConsensusTypes
begin

text \<open>
  The OCR3 reporting plugin (\<^verbatim>\<open>pkg/capabilities/consensus/ocr3/reporting_plugin.go\<close>): the leader's query,
  an oracle's observation, the outcome that every oracle computes from the attributed
  observations, and the reports made from an outcome.

  The methods work on wire messages. Their encoding is \<^verbatim>\<open>proto.Marshal\<close> and
  \<^verbatim>\<open>proto.Unmarshal\<close>, which are arguments (\<open>None\<close> for an error). The capability's registry is
  a set of arguments too: \<open>getAggregator\<close>, \<open>getEncoderByName\<close>, \<open>getEncoderByWorkflowID\<close>; the
  calls of \<^verbatim>\<open>UnregisterWorkflowID\<close> are a result of \<open>Outcome\<close>.

  Aliasing matters in \<open>Outcome\<close>: a report of the round and the entry of its workflow in the map
  of outcomes are one object, and the pruning loop writes to it through the map. So the objects
  are in an explicit heap, and both hold references.
\<close>

section \<open>Messages\<close>

record Id =
  idWorkflowExecutionId :: string
  idWorkflowId :: string
  idWorkflowOwner :: string
  idWorkflowName :: string
  idReportId :: string
  idWorkflowDonId :: uint32
  idWorkflowDonConfigVersion :: uint32
  idKeyId :: string

record pbObservation =
  obId :: "Id option"
  obObservations :: "pbValue list option"
  obOverriddenEncoderName :: string
  obOverriddenEncoderConfig :: "pbMap option"

record pbObservations =
  obsObservations :: "pbObservation option list"
  obsRegisteredWorkflowIds :: "string list"
  obsTimestamp :: "timestamp option"

record pbReport =
  prOutcome :: "AggregationOutcome option"
  prId :: "Id option"

record pbOutcome =
  poOutcomes :: "(string, AggregationOutcome) gomap"
  poCurrentReports :: "pbReport option list"

datatype plugin_error =
    StoreErr store_error | QueryMarshal | QueryUnmarshal | ObservationMarshal | OutcomeUnmarshal
  | OutcomeMarshal | ContextDone

section \<open>Query and observation\<close>

definition id_of_request :: "'d Request \<Rightarrow> Id" where
  "id_of_request rq =
     \<lparr>idWorkflowExecutionId = WorkflowExecutionID rq, idWorkflowId = WorkflowID rq,
      idWorkflowOwner = WorkflowOwner rq, idWorkflowName = WorkflowName rq,
      idReportId = ReportID rq, idWorkflowDonId = WorkflowDonID rq,
      idWorkflowDonConfigVersion = WorkflowDonConfigVersion rq, idKeyId = KeyID rq\<rparr>"

definition Query ::
    "(Id option list \<Rightarrow> bytes option) \<Rightarrow> 'd Store \<Rightarrow> int \<Rightarrow> (plugin_error, bytes) go" where
  "Query marshalQuery s batchSize =
     go_bind (go_mapErr StoreErr (FirstN s batchSize)) (\<lambda>batch.
       case marshalQuery (map (\<lambda>rq. Some (id_of_request rq)) batch) of
         None \<Rightarrow> Err QueryMarshal | Some b \<Rightarrow> Ok b)"

text \<open>
  One requested execution: a request without a list of observations panics, since the wire form of
  a nil list is asked for.
\<close>

definition observe_one ::
    "'d vlib \<Rightarrow> (string, 'd Request) gomap \<Rightarrow> pbObservation option list \<Rightarrow> string \<Rightarrow>
     (plugin_error, pbObservation option list) go" where
  "observe_one L reqMap obs weid =
     (case map_of reqMap weid of
        None \<Rightarrow> Ok obs
      | Some rq \<Rightarrow>
          (case Observations rq of
             None \<Rightarrow> Panic
           | Some l \<Rightarrow>
               Ok (obs @ [Some \<lparr>obId = Some (id_of_request rq),
                                obObservations = Some (map (Proto L) l),
                                obOverriddenEncoderName = OverriddenEncoderName rq,
                                obOverriddenEncoderConfig =
                                  map_option (ProtoMap L) (OverriddenEncoderConfig rq)\<rparr>])))"

definition Observation ::
    "'d vlib \<Rightarrow> (bytes \<Rightarrow> Id option list option) \<Rightarrow> (pbObservations \<Rightarrow> bytes option) \<Rightarrow>
     'd Store \<Rightarrow> string list \<Rightarrow> time \<Rightarrow> bytes \<Rightarrow> (plugin_error, bytes) go" where
  "Observation L unmarshalQuery marshalObs s registered now query =
     (case unmarshalQuery query of
        None \<Rightarrow> Err QueryUnmarshal
      | Some ids \<Rightarrow>
          let weids = [idWorkflowExecutionId q. Some q \<leftarrow> ids];
              reqMap = foldl (\<lambda>m req. put (WorkflowExecutionID req) req m) [] (GetByIDs s weids)
          in go_bind (go_foldM (observe_one L reqMap) [] weids) (\<lambda>obs.
               case marshalObs \<lparr>obsObservations = obs, obsRegisteredWorkflowIds = registered,
                                obsTimestamp = Some (tsNew L now)\<rparr> of
                 None \<Rightarrow> Err ObservationMarshal | Some b \<Rightarrow> Ok b))"

text \<open>\<^verbatim>\<open>quorumhelper\<close> with the quorum \<^verbatim>\<open>2F+1\<close>.\<close>

definition ObservationQuorum :: "nat \<Rightarrow> 'a list \<Rightarrow> bool" where
  "ObservationQuorum F aos \<longleftrightarrow> length aos \<ge> 2 * F + 1"

definition ValidateObservation :: "bytes \<Rightarrow> bool" where
  "ValidateObservation ao = True"

section \<open>Collecting the observations\<close>

text \<open>
  The hash of an encoder override runs over the name and the wire form of the configuration, one
  after the other; a nil configuration has the empty wire form.
\<close>

definition shaForOverriddenEncoder ::
    "(pbMap \<Rightarrow> bytes option) \<Rightarrow> (bytes \<Rightarrow> 'h) \<Rightarrow> pbObservation \<Rightarrow> 'h option" where
  "shaForOverriddenEncoder marshalMap sha obs =
     (case (case obOverriddenEncoderConfig obs of None \<Rightarrow> Some [] | Some m \<Rightarrow> marshalMap m) of
        None \<Rightarrow> None
      | Some marshalled \<Rightarrow>
          Some (sha (map (\<lambda>c. of_char c) (obOverriddenEncoderName obs) @ marshalled)))"

record encoderConfig =
  ecName :: string
  ecConfig :: "pbMap option"

record ('d, 'h) collected =
  cExecIDToOracleObservations :: "(string, (OracleID, 'd Value list) gomap) gomap"
  cSeenWorkflowIDs :: "(string, nat) gomap"
  cTimestamps :: "timestamp option list"
  cExecIDToEncoderShaToCount :: "(string, ('h, nat) gomap) gomap"
  cShaToEncoder :: "('h, encoderConfig) gomap"

definition nothing_collected :: "('d, 'h) collected" where
  "nothing_collected = \<lparr>cExecIDToOracleObservations = [], cSeenWorkflowIDs = [], cTimestamps = [],
     cExecIDToEncoderShaToCount = [], cShaToEncoder = []\<rparr>"

definition inner :: "('k, ('a, 'b) gomap) gomap \<Rightarrow> 'k \<Rightarrow> ('a, 'b) gomap" where
  "inner m k = (case map_of m k of None \<Rightarrow> [] | Some i \<Rightarrow> i)"

definition collect_request ::
    "'d vlib \<Rightarrow> (pbMap \<Rightarrow> bytes option) \<Rightarrow> (bytes \<Rightarrow> 'h) \<Rightarrow> OracleID \<Rightarrow> ('d, 'h) collected \<Rightarrow>
     pbObservation option \<Rightarrow> ('d, 'h) collected" where
  "collect_request L marshalMap sha observer c request =
     (case request of
        None \<Rightarrow> c
      | Some rq \<Rightarrow>
          (case (obId rq, FromListValueProto L (obObservations rq)) of
             (Some ident, Some obsList) \<Rightarrow>
               (let weid = idWorkflowExecutionId ident;
                    execs = cExecIDToOracleObservations c;
                    c' = c\<lparr>cExecIDToOracleObservations :=
                             put weid (put observer obsList (inner execs weid)) execs\<rparr>
                in case shaForOverriddenEncoder marshalMap sha rq of
                     None \<Rightarrow> c'
                   | Some h \<Rightarrow>
                       c'\<lparr>cShaToEncoder :=
                            put h \<lparr>ecName = obOverriddenEncoderName rq,
                                   ecConfig = obOverriddenEncoderConfig rq\<rparr> (cShaToEncoder c),
                          cExecIDToEncoderShaToCount :=
                            put weid (incr h (inner (cExecIDToEncoderShaToCount c) weid))
                              (cExecIDToEncoderShaToCount c)\<rparr>)
           | _ \<Rightarrow> c))"

text \<open>A workflow id counts once per oracle, however often the oracle lists it.\<close>

definition collect_oracle ::
    "'d vlib \<Rightarrow> (bytes \<Rightarrow> pbObservations option) \<Rightarrow> (pbMap \<Rightarrow> bytes option) \<Rightarrow> (bytes \<Rightarrow> 'h) \<Rightarrow>
     ('d, 'h) collected \<Rightarrow> OracleID \<times> bytes \<Rightarrow> ('d, 'h) collected" where
  "collect_oracle L unmarshalObs marshalMap sha c = (\<lambda>(observer, raw).
     case unmarshalObs raw of
       None \<Rightarrow> c
     | Some obs \<Rightarrow>
         let counted = foldl (\<lambda>(seen, done) wid.
               if wid \<in> set done then (seen, done) else (incr wid seen, wid # done))
               (cSeenWorkflowIDs c, []) (obsRegisteredWorkflowIds obs);
             c1 = c\<lparr>cSeenWorkflowIDs := fst counted, cTimestamps := cTimestamps c @ [obsTimestamp obs]\<rparr>
         in foldl (collect_request L marshalMap sha observer) c1 (obsObservations obs))"

definition collect ::
    "'d vlib \<Rightarrow> (bytes \<Rightarrow> pbObservations option) \<Rightarrow> (pbMap \<Rightarrow> bytes option) \<Rightarrow> (bytes \<Rightarrow> 'h) \<Rightarrow>
     (OracleID \<times> bytes) list \<Rightarrow> ('d, 'h) collected" where
  "collect L unmarshalObs marshalMap sha aos =
     foldl (collect_oracle L unmarshalObs marshalMap sha) nothing_collected aos"

section \<open>The timestamp\<close>

text \<open>\<^verbatim>\<open>AsTime\<close> of a nil timestamp is the epoch; \<^verbatim>\<open>Unix\<close> are the whole seconds since.\<close>

definition ts_time :: "'d vlib \<Rightarrow> timestamp option \<Rightarrow> time" where
  "ts_time L t = (case t of None \<Rightarrow> 0 | Some s \<Rightarrow> tsAsTime L s)"

definition unix :: "time \<Rightarrow> int" where "unix t = t div 1000000000"

definition wrap64 :: "int \<Rightarrow> int" where "wrap64 n = sint (word_of_int n :: int64)"

text \<open>Division by two rounds towards zero.\<close>

definition half :: "int \<Rightarrow> int" where "half n = sgn n * (\<bar>n\<bar> div 2)"

definition medianTimestamp ::
    "'d vlib \<Rightarrow> ((timestamp option \<Rightarrow> timestamp option \<Rightarrow> bool) \<Rightarrow> timestamp option list \<Rightarrow>
       timestamp option list) \<Rightarrow> timestamp option list \<Rightarrow> (plugin_error, timestamp option) go" where
  "medianTimestamp L srt ts =
     (let sorted = srt (\<lambda>a b. ts_time L a < ts_time L b) ts; n = length sorted; mid = n div 2
      in if n mod 2 = 1 then Ok (sorted ! mid)
         else if mid = 0 then Panic
         else let a = unix (ts_time L (sorted ! (mid - 1)));
                  b = unix (ts_time L (sorted ! mid))
              in Ok (Some (tsNew L (1000000000 * wrap64 (a + half (wrap64 (b - a)))))))"

section \<open>The outcome\<close>

record round_state =
  rHeap :: "AggregationOutcome list"
  rOutcomes :: "(string, nat) gomap"
  rReports :: "(nat \<times> Id) list"

text \<open>The encoder override on which \<open>2 F + 1\<close> votes agree, in the order the counts are visited.\<close>

definition pick_encoder ::
    "(('h \<times> nat) list \<Rightarrow> ('h \<times> nat) list) \<Rightarrow> nat \<Rightarrow> ('h, nat) gomap \<Rightarrow> ('h, encoderConfig) gomap \<Rightarrow>
     encoderConfig option" where
  "pick_encoder it F shaToCount shaToEncoder =
     (case find (\<lambda>(h, cnt). cnt \<ge> 2 * F + 1 \<and> map_of shaToEncoder h \<noteq> None) (it shaToCount) of
        None \<Rightarrow> None
      | Some (h, cnt) \<Rightarrow> map_of shaToEncoder h)"

definition outcome_one ::
    "(string \<Rightarrow> 'd aggregator option) \<Rightarrow> (('h \<times> nat) list \<Rightarrow> ('h \<times> nat) list) \<Rightarrow> nat \<Rightarrow>
     ('d, 'h) collected \<Rightarrow> timestamp option \<Rightarrow> round_state \<Rightarrow> Id option \<Rightarrow>
     (plugin_error, round_state) go" where
  "outcome_one getAggregator it F c finalTimestamp st q =
     (case q of
        None \<Rightarrow> Ok st
      | Some weid \<Rightarrow>
     (case map_of (cExecIDToOracleObservations c) (idWorkflowExecutionId weid) of
        None \<Rightarrow> Ok st
      | Some obs \<Rightarrow>
     (let workflowOutcome = map_option (\<lambda>r. rHeap st ! r) (map_of (rOutcomes st) (idWorkflowId weid))
      in if length obs < 2 * F + 1 then Ok st
         else case getAggregator (idWorkflowId weid) of
             None \<Rightarrow> Ok st
           | Some agg \<Rightarrow>
         (case agg workflowOutcome obs F of
            Panic \<Rightarrow> Panic
          | Err _ \<Rightarrow> Ok st
          | Ok out0 \<Rightarrow>
         (let out1 = (case workflowOutcome of
                        None \<Rightarrow> out0 | Some w \<Rightarrow> out0\<lparr>LastSeenAt := LastSeenAt w\<rparr>);
              out2 = out1\<lparr>OutcomeTimestamp := finalTimestamp\<rparr>
          in case map_of (cExecIDToEncoderShaToCount c) (idWorkflowExecutionId weid) of
               None \<Rightarrow> Ok st
             | Some shaToCount \<Rightarrow>
                 let out3 = (case pick_encoder it F shaToCount (cShaToEncoder c) of
                               None \<Rightarrow> out2
                             | Some e \<Rightarrow> out2\<lparr>EncoderName := ecName e, EncoderConfig := ecConfig e\<rparr>);
                     ref = length (rHeap st)
                 in Ok \<lparr>rHeap = rHeap st @ [out3],
                        rOutcomes = put (idWorkflowId weid) ref (rOutcomes st),
                        rReports = rReports st @ [(ref, weid)]\<rparr>)))))"

definition prune_one ::
    "nat \<Rightarrow> uint64 \<Rightarrow> uint64 \<Rightarrow> (string, nat) gomap \<Rightarrow> round_state \<times> string list \<Rightarrow> string \<times> nat \<Rightarrow>
     round_state \<times> string list" where
  "prune_one F seqNr threshold seen = (\<lambda>(st, unregistered) (workflowID, ref).
     if count_of seen workflowID \<ge> F + 1
     then (st\<lparr>rHeap := (rHeap st)[ref := (rHeap st ! ref)\<lparr>LastSeenAt := seqNr\<rparr>]\<rparr>, unregistered)
     else if seqNr - LastSeenAt (rHeap st ! ref) > threshold
     then (st\<lparr>rOutcomes := del workflowID (rOutcomes st)\<rparr>, unregistered @ [workflowID])
     else (st, unregistered))"

text \<open>The decoded previous outcome: every entry of its map is an object of its own.\<close>

definition load_outcomes :: "(string, AggregationOutcome) gomap \<Rightarrow> round_state" where
  "load_outcomes outcomes =
     \<lparr>rHeap = map snd outcomes,
      rOutcomes = zip (map fst outcomes) [0..<length outcomes], rReports = []\<rparr>"

definition store_outcomes :: "round_state \<Rightarrow> pbOutcome" where
  "store_outcomes st =
     \<lparr>poOutcomes = map (\<lambda>(k, r). (k, rHeap st ! r)) (rOutcomes st),
      poCurrentReports =
        map (\<lambda>(r, weid). Some \<lparr>prOutcome = Some (rHeap st ! r), prId = Some weid\<rparr>) (rReports st)\<rparr>"

definition outcome_message ::
    "'d vlib \<Rightarrow> (bytes \<Rightarrow> pbObservations option) \<Rightarrow> (pbMap \<Rightarrow> bytes option) \<Rightarrow> (bytes \<Rightarrow> 'h) \<Rightarrow>
     ((timestamp option \<Rightarrow> timestamp option \<Rightarrow> bool) \<Rightarrow> timestamp option list \<Rightarrow> timestamp option list) \<Rightarrow>
     (bytes \<Rightarrow> Id option list option) \<Rightarrow> (bytes \<Rightarrow> pbOutcome option) \<Rightarrow>
     (string \<Rightarrow> 'd aggregator option) \<Rightarrow> (('h \<times> nat) list \<Rightarrow> ('h \<times> nat) list) \<Rightarrow>
     nat \<Rightarrow> uint64 \<Rightarrow> uint64 \<Rightarrow> bytes \<Rightarrow> bytes \<Rightarrow> (OracleID \<times> bytes) list \<Rightarrow>
     (plugin_error, pbOutcome \<times> string list) go" where
  "outcome_message L unmarshalObs marshalMap sha srt unmarshalQuery unmarshalOutcome getAggregator it F
      seqNr threshold previous query aos =
     (let c = collect L unmarshalObs marshalMap sha aos
      in go_bind (medianTimestamp L srt (cTimestamps c)) (\<lambda>finalTimestamp.
      case unmarshalQuery query of
        None \<Rightarrow> Err QueryUnmarshal
      | Some ids \<Rightarrow>
      (case unmarshalOutcome previous of
         None \<Rightarrow> Err OutcomeUnmarshal
       | Some prev \<Rightarrow>
      go_bind (go_foldM (outcome_one getAggregator it F c finalTimestamp)
                 (load_outcomes (poOutcomes prev)) ids) (\<lambda>st.
      case foldl (prune_one F seqNr threshold (cSeenWorkflowIDs c)) (st, []) (rOutcomes st) of
        (st', unregistered) \<Rightarrow> Ok (store_outcomes st', unregistered)))))"

text \<open>
  \<^verbatim>\<open>Outcome\<close> marshals that message. The second component lists the workflows it unregistered on
  the way.
\<close>

definition Outcome ::
    "'d vlib \<Rightarrow> (bytes \<Rightarrow> pbObservations option) \<Rightarrow> (pbMap \<Rightarrow> bytes option) \<Rightarrow> (bytes \<Rightarrow> 'h) \<Rightarrow>
     ((timestamp option \<Rightarrow> timestamp option \<Rightarrow> bool) \<Rightarrow> timestamp option list \<Rightarrow> timestamp option list) \<Rightarrow>
     (bytes \<Rightarrow> Id option list option) \<Rightarrow> (bytes \<Rightarrow> pbOutcome option) \<Rightarrow> (pbOutcome \<Rightarrow> bytes option) \<Rightarrow>
     (string \<Rightarrow> 'd aggregator option) \<Rightarrow> (('h \<times> nat) list \<Rightarrow> ('h \<times> nat) list) \<Rightarrow>
     nat \<Rightarrow> uint64 \<Rightarrow> uint64 \<Rightarrow> bytes \<Rightarrow> bytes \<Rightarrow> (OracleID \<times> bytes) list \<Rightarrow>
     (plugin_error, bytes \<times> string list) go" where
  "Outcome L unmarshalObs marshalMap sha srt unmarshalQuery unmarshalOutcome marshalOutcome getAggregator
      it F seqNr threshold previous query aos =
     go_bind (outcome_message L unmarshalObs marshalMap sha srt unmarshalQuery unmarshalOutcome
                getAggregator it F seqNr threshold previous query aos) (\<lambda>(msg, unregistered).
       case marshalOutcome msg of
         None \<Rightarrow> Err OutcomeMarshal
       | Some raw \<Rightarrow> Ok (raw, unregistered))"

section \<open>Reports\<close>

type_synonym 'd encoder = "(string \<times> 'd Value) list \<Rightarrow> bytes option"

definition report_metadata :: "'d vlib \<Rightarrow> AggregationOutcome \<Rightarrow> Id \<Rightarrow> Metadata" where
  "report_metadata L out ident =
     \<lparr>mdVersion = 1, mdExecutionID = idWorkflowExecutionId ident,
      mdTimestamp = word_of_int (unix (ts_time L (OutcomeTimestamp out))),
      mdDONID = idWorkflowDonId ident, mdDONConfigVersion = idWorkflowDonConfigVersion ident,
      mdWorkflowID = idWorkflowId ident, mdWorkflowName = idWorkflowName ident,
      mdWorkflowOwner = idWorkflowOwner ident, mdReportID = idReportId ident\<rparr>"

definition choose_encoder ::
    "'d vlib \<Rightarrow> (string \<Rightarrow> (string \<times> 'd Value) list option \<Rightarrow> 'd encoder option) \<Rightarrow>
     (string \<Rightarrow> 'd encoder option) \<Rightarrow> AggregationOutcome \<Rightarrow> string \<Rightarrow> 'd encoder option" where
  "choose_encoder L getEncoderByName getEncoderByWorkflowID out workflowID =
     (case (if EncoderName out \<noteq> []
            then getEncoderByName (EncoderName out) (FromMapValueProto L (EncoderConfig out))
            else None) of
        Some e \<Rightarrow> Some e
      | None \<Rightarrow> getEncoderByWorkflowID workflowID)"

text \<open>
  The raw report of one outcome: \<open>Ok None\<close> where the loop goes on to the next report, an error
  where the whole call ends because the context is done.
\<close>

definition encode_report ::
    "'d vlib \<Rightarrow> (string \<Rightarrow> (string \<times> 'd Value) list option \<Rightarrow> 'd encoder option) \<Rightarrow>
     (string \<Rightarrow> 'd encoder option) \<Rightarrow> bool \<Rightarrow> AggregationOutcome \<Rightarrow> Id \<Rightarrow>
     (plugin_error, bytes option) go" where
  "encode_report L getEncoderByName getEncoderByWorkflowID ctxDone out ident =
     (if \<not> ShouldReport out then Ok (Some [])
      else case AppendMetadata L out (report_metadata L out ident) of
          Panic \<Rightarrow> Panic
        | Err _ \<Rightarrow> Ok None
        | Ok newOut \<Rightarrow>
            (case choose_encoder L getEncoderByName getEncoderByWorkflowID newOut (idWorkflowId ident) of
               None \<Rightarrow> Ok None
             | Some enc \<Rightarrow>
                 (case FromMapValueProto L (EncodableOutcome newOut) of
                    None \<Rightarrow> Panic
                  | Some mv \<Rightarrow>
                      (case enc mv of
                         Some raw \<Rightarrow> Ok (Some raw)
                       | None \<Rightarrow> if ctxDone then Err ContextDone else Ok None))))"

definition report_one ::
    "'d vlib \<Rightarrow> (string \<Rightarrow> (string \<times> 'd Value) list option \<Rightarrow> 'd encoder option) \<Rightarrow>
     (string \<Rightarrow> 'd encoder option) \<Rightarrow> (Id \<Rightarrow> bool \<Rightarrow> string \<Rightarrow> bytes option) \<Rightarrow> bool \<Rightarrow>
     (bytes \<times> bytes) list \<Rightarrow> pbReport option \<Rightarrow> (plugin_error, (bytes \<times> bytes) list) go" where
  "report_one L getEncoderByName getEncoderByWorkflowID marshalReportInfo ctxDone reports rep =
     (case (Option.bind rep prOutcome, Option.bind rep prId) of
        (Some out, Some ident) \<Rightarrow>
          go_map (\<lambda>raw.
             case raw of
               None \<Rightarrow> reports
             | Some rawReport \<Rightarrow>
                 (case marshalReportInfo ident (ShouldReport out) (idKeyId ident) of
                    None \<Rightarrow> reports
                  | Some infob \<Rightarrow> reports @ [(rawReport, infob)]))
            (encode_report L getEncoderByName getEncoderByWorkflowID ctxDone out ident)
      | _ \<Rightarrow> Ok reports)"

definition Reports ::
    "'d vlib \<Rightarrow> (bytes \<Rightarrow> pbOutcome option) \<Rightarrow>
     (string \<Rightarrow> (string \<times> 'd Value) list option \<Rightarrow> 'd encoder option) \<Rightarrow>
     (string \<Rightarrow> 'd encoder option) \<Rightarrow> (Id \<Rightarrow> bool \<Rightarrow> string \<Rightarrow> bytes option) \<Rightarrow> bool \<Rightarrow> bytes \<Rightarrow>
     (plugin_error, (bytes \<times> bytes) list) go" where
  "Reports L unmarshalOutcome getEncoderByName getEncoderByWorkflowID marshalReportInfo ctxDone outcome =
     (case unmarshalOutcome outcome of
        None \<Rightarrow> Err OutcomeUnmarshal
      | Some o' \<Rightarrow>
          go_foldM (report_one L getEncoderByName getEncoderByWorkflowID marshalReportInfo ctxDone) []
            (poCurrentReports o'))"

definition ShouldAcceptAttestedReport :: "bytes \<Rightarrow> bool" where
  "ShouldAcceptAttestedReport rwi = True"

definition ShouldTransmitAcceptedReport :: "bytes \<Rightarrow> bool" where
  "ShouldTransmitAcceptedReport rwi = True"

section \<open>What collecting computes\<close>

text \<open>The observations that could be decoded, with their oracles.\<close>

definition decoded ::
    "(bytes \<Rightarrow> pbObservations option) \<Rightarrow> (OracleID \<times> bytes) list \<Rightarrow> (OracleID \<times> pbObservations) list" where
  "decoded unmarshalObs aos =
     List.map_filter (\<lambda>(p, raw). map_option (Pair p) (unmarshalObs raw)) aos"

definition collect_obs ::
    "'d vlib \<Rightarrow> (pbMap \<Rightarrow> bytes option) \<Rightarrow> (bytes \<Rightarrow> 'h) \<Rightarrow> ('d, 'h) collected \<Rightarrow>
     OracleID \<times> pbObservations \<Rightarrow> ('d, 'h) collected" where
  "collect_obs L marshalMap sha c = (\<lambda>(observer, obs).
     foldl (collect_request L marshalMap sha observer)
       (c\<lparr>cSeenWorkflowIDs :=
            fst (foldl (\<lambda>(seen, done) wid.
               if wid \<in> set done then (seen, done) else (incr wid seen, wid # done))
               (cSeenWorkflowIDs c, []) (obsRegisteredWorkflowIds obs)),
          cTimestamps := cTimestamps c @ [obsTimestamp obs]\<rparr>) (obsObservations obs))"

lemma decoded_Cons:
  "decoded unmarshalObs ((p, raw) # aos) =
     (case unmarshalObs raw of
        None \<Rightarrow> decoded unmarshalObs aos | Some obs \<Rightarrow> (p, obs) # decoded unmarshalObs aos)"
  and decoded_Nil [simp]: "decoded unmarshalObs [] = []"
  by (auto simp: decoded_def List.map_filter_def split: option.splits)

lemma collect_decoded:
  "collect L unmarshalObs marshalMap sha aos =
     foldl (collect_obs L marshalMap sha) nothing_collected (decoded unmarshalObs aos)"
proof -
  have "foldl (collect_oracle L unmarshalObs marshalMap sha) c aos =
      foldl (collect_obs L marshalMap sha) c (decoded unmarshalObs aos)" for c
  proof (induction aos arbitrary: c)
    case (Cons e aos)
    obtain p raw where e: "e = (p, raw)" by fastforce
    show ?case
      using Cons by (auto simp: e decoded_Cons collect_oracle_def collect_obs_def Let_def split: option.splits)
  qed simp
  then show ?thesis by (simp add: collect_def)
qed

lemma decoded_mem:
  "(p, obs) \<in> set (decoded unmarshalObs aos) \<Longrightarrow> \<exists>raw. (p, raw) \<in> set aos \<and> unmarshalObs raw = Some obs"
  by (force simp: decoded_def List.map_filter_def)

lemma decoded_wf: "gomap_wf aos \<Longrightarrow> gomap_wf (decoded unmarshalObs aos)"
proof (induction aos)
  case (Cons e aos)
  have "gomap_dom (decoded unmarshalObs aos) \<subseteq> gomap_dom aos"
    by (auto dest!: decoded_mem intro: rev_image_eqI)
  with Cons show ?case
    by (cases e) (auto simp: decoded_Cons split: option.splits)
qed simp

lemma collect_request_keeps [simp]:
  "cSeenWorkflowIDs (collect_request L marshalMap sha p c rq) = cSeenWorkflowIDs c"
  "cTimestamps (collect_request L marshalMap sha p c rq) = cTimestamps c"
  by (auto simp: collect_request_def Let_def split: option.splits prod.splits)

lemma collect_requests_keep [simp]:
  "cSeenWorkflowIDs (foldl (collect_request L marshalMap sha p) c rqs) = cSeenWorkflowIDs c"
  "cTimestamps (foldl (collect_request L marshalMap sha p) c rqs) = cTimestamps c"
  by (induction rqs arbitrary: c) auto

lemma collected_timestamps:
  "cTimestamps (collect L unmarshalObs marshalMap sha aos) =
     map (\<lambda>(p, obs). obsTimestamp obs) (decoded unmarshalObs aos)"
proof -
  have "cTimestamps (foldl (collect_obs L marshalMap sha) c ds) =
      cTimestamps c @ map (\<lambda>(p, obs). obsTimestamp obs) ds" for c ds
    by (induction ds arbitrary: c) (auto simp: collect_obs_def)
  then show ?thesis by (simp add: collect_decoded nothing_collected_def)
qed

lemma count_once:
  "count_of (fst (foldl (\<lambda>(seen, done) wid.
       if wid \<in> set done then (seen, done) else (incr wid seen, wid # done)) (m, done) ids)) w =
     count_of m w + (if w \<in> set ids \<and> w \<notin> set done then 1 else 0)"
  by (induction ids arbitrary: m "done") auto

text \<open>The number of oracles that list a workflow as registered.\<close>

definition seen_by :: "(bytes \<Rightarrow> pbObservations option) \<Rightarrow> (OracleID \<times> bytes) list \<Rightarrow> string \<Rightarrow> nat" where
  "seen_by unmarshalObs aos wid =
     length (filter (\<lambda>obs. wid \<in> set (obsRegisteredWorkflowIds obs))
       (map snd (decoded unmarshalObs aos)))"

lemma collected_seen:
  "count_of (cSeenWorkflowIDs (collect L unmarshalObs marshalMap sha aos)) wid =
     seen_by unmarshalObs aos wid"
proof -
  have "count_of (cSeenWorkflowIDs (foldl (collect_obs L marshalMap sha) c ds)) wid =
      count_of (cSeenWorkflowIDs c) wid +
      length (filter (\<lambda>obs. wid \<in> set (obsRegisteredWorkflowIds obs)) (map snd ds))" for c ds
    by (induction ds arbitrary: c) (auto simp: collect_obs_def count_once)
  then show ?thesis by (simp add: collect_decoded nothing_collected_def seen_by_def)
qed

text \<open>The observations of an execution come from the messages of the oracles they are filed under.\<close>

definition observed ::
    "'d vlib \<Rightarrow> (OracleID \<times> pbObservations) list \<Rightarrow> string \<Rightarrow> OracleID \<Rightarrow> 'd Value list \<Rightarrow> bool" where
  "observed L ds weid p vs \<longleftrightarrow>
     (\<exists>obs rq ident. (p, obs) \<in> set ds \<and> Some rq \<in> set (obsObservations obs) \<and> obId rq = Some ident \<and>
        idWorkflowExecutionId ident = weid \<and> FromListValueProto L (obObservations rq) = Some vs)"

definition execs_inv ::
    "'d vlib \<Rightarrow> (OracleID \<times> pbObservations) list \<Rightarrow>
     (string, (OracleID, 'd Value list) gomap) gomap \<Rightarrow> bool" where
  "execs_inv L ds m \<longleftrightarrow>
     (\<forall>weid i. map_of m weid = Some i \<longrightarrow>
        gomap_wf i \<and> (\<forall>(p, vs)\<in>set i. observed L ds weid p vs))"

lemma collect_request_execs:
  "cExecIDToOracleObservations (collect_request L marshalMap sha p c request) =
     (case request of
        None \<Rightarrow> cExecIDToOracleObservations c
      | Some rq \<Rightarrow>
          (case (obId rq, FromListValueProto L (obObservations rq)) of
             (Some ident, Some vs) \<Rightarrow>
               (let m = cExecIDToOracleObservations c; weid = idWorkflowExecutionId ident
                in put weid (put p vs (inner m weid)) m)
           | _ \<Rightarrow> cExecIDToOracleObservations c))"
  by (auto simp: collect_request_def Let_def split: option.splits)

lemma execs_inv_step:
  assumes "execs_inv L ds (cExecIDToOracleObservations c)"
    and "(p, obs) \<in> set ds" and "request \<in> set (obsObservations obs)"
  shows "execs_inv L ds (cExecIDToOracleObservations (collect_request L marshalMap sha p c request))"
proof (cases "\<exists>rq ident vs. request = Some rq \<and> obId rq = Some ident \<and>
    FromListValueProto L (obObservations rq) = Some vs")
  case True
  then obtain rq ident vs where rq: "request = Some rq" "obId rq = Some ident"
    "FromListValueProto L (obObservations rq) = Some vs" by blast
  let ?m = "cExecIDToOracleObservations c" and ?w = "idWorkflowExecutionId ident"
  have new: "observed L ds ?w p vs"
    using assms(2,3) rq by (auto simp: observed_def)
  have old: "gomap_wf (inner ?m ?w)" "\<forall>(q, ws)\<in>set (inner ?m ?w). observed L ds ?w q ws"
    using assms(1) by (cases "map_of ?m ?w"; force simp: execs_inv_def inner_def)+
  show ?thesis
    using assms(1) new old
    by (auto simp: execs_inv_def collect_request_execs rq Let_def set_put)
next
  case False
  then have "cExecIDToOracleObservations (collect_request L marshalMap sha p c request) =
      cExecIDToOracleObservations c"
    by (auto simp: collect_request_execs split: option.splits)
  with assms(1) show ?thesis by simp
qed

text \<open>An invariant of collecting is one that holds at the start and is kept by every entry.\<close>

lemma collect_invariant:
  assumes start: "P nothing_collected"
    and head: "\<And>c seen ts. P c \<Longrightarrow> P (c\<lparr>cSeenWorkflowIDs := seen, cTimestamps := ts\<rparr>)"
    and entry: "\<And>p obs rq c. (p, obs) \<in> set (decoded unmarshalObs aos) \<Longrightarrow> rq \<in> set (obsObservations obs) \<Longrightarrow>
      P c \<Longrightarrow> P (collect_request L marshalMap sha p c rq)"
  shows "P (collect L unmarshalObs marshalMap sha aos)"
proof -
  have entries: "P (foldl (collect_request L marshalMap sha p) c rqs)"
    if "P c" "(p, obs) \<in> set (decoded unmarshalObs aos)" "set rqs \<subseteq> set (obsObservations obs)" for c p obs rqs
    using that by (induction rqs arbitrary: c) (auto intro: entry)
  have "P (foldl (collect_obs L marshalMap sha) c es)" if "P c" "set es \<subseteq> set (decoded unmarshalObs aos)" for c es
    using that
  proof (induction es arbitrary: c)
    case (Cons e es)
    obtain p obs where e: "e = (p, obs)" by fastforce
    have "P (collect_obs L marshalMap sha c e)"
      unfolding e collect_obs_def prod.case
      by (rule entries [where obs = obs]) (use Cons.prems e in \<open>auto intro: head\<close>)
    with Cons show ?case by simp
  qed simp
  with start show ?thesis unfolding collect_decoded by blast
qed

lemma collected_execs:
  "execs_inv L (decoded unmarshalObs aos)
     (cExecIDToOracleObservations (collect L unmarshalObs marshalMap sha aos))"
  by (rule collect_invariant [where
        P = "\<lambda>c. execs_inv L (decoded unmarshalObs aos) (cExecIDToOracleObservations c)"])
    (auto intro: execs_inv_step simp: nothing_collected_def execs_inv_def [of L _ "[]"])

section \<open>The loop over the query\<close>

definition round_wf :: "round_state \<Rightarrow> bool" where
  "round_wf st \<longleftrightarrow>
     gomap_wf (rOutcomes st) \<and> distinct (map snd (rOutcomes st)) \<and>
     (\<forall>(k, r)\<in>set (rOutcomes st). r < length (rHeap st)) \<and>
     (\<forall>(r, weid)\<in>set (rReports st). r < length (rHeap st))"

text \<open>What the loop adds to the result of an aggregator.\<close>

definition finish ::
    "AggregationOutcome \<Rightarrow> uint64 \<Rightarrow> timestamp option \<Rightarrow> encoderConfig option \<Rightarrow> AggregationOutcome" where
  "finish out l ts e =
     (case e of
        None \<Rightarrow> out\<lparr>LastSeenAt := l, OutcomeTimestamp := ts\<rparr>
      | Some c \<Rightarrow> out\<lparr>LastSeenAt := l, OutcomeTimestamp := ts, EncoderName := ecName c,
                      EncoderConfig := ecConfig c\<rparr>)"

lemma finish_seen: "(finish out l ts e)\<lparr>LastSeenAt := l'\<rparr> = finish out l' ts e"
  by (simp add: finish_def split: option.splits)

text \<open>What a report of the round was made from. The round the workflow was last seen in is left open.\<close>

definition made_from ::
    "(string \<Rightarrow> 'd aggregator option) \<Rightarrow> (('h \<times> nat) list \<Rightarrow> ('h \<times> nat) list) \<Rightarrow> nat \<Rightarrow>
     ('d, 'h) collected \<Rightarrow> timestamp option \<Rightarrow> Id \<Rightarrow> AggregationOutcome \<Rightarrow> bool" where
  "made_from getAggregator it F c ts weid out \<longleftrightarrow>
     (\<exists>obs agg prev out0 counts l.
        map_of (cExecIDToOracleObservations c) (idWorkflowExecutionId weid) = Some obs \<and>
        2 * F + 1 \<le> length obs \<and> getAggregator (idWorkflowId weid) = Some agg \<and>
        agg prev obs F = Ok out0 \<and>
        map_of (cExecIDToEncoderShaToCount c) (idWorkflowExecutionId weid) = Some counts \<and>
        out = finish out0 l ts (pick_encoder it F counts (cShaToEncoder c)))"

lemma made_from_seen:
  "made_from getAggregator it F c ts weid out \<Longrightarrow>
   made_from getAggregator it F c ts weid (out\<lparr>LastSeenAt := l\<rparr>)"
  unfolding made_from_def using finish_seen by metis

lemma outcome_one_cases:
  assumes "outcome_one getAggregator it F c ts st q = Ok st'"
  obtains "st' = st"
  | weid out where "q = Some weid" and "made_from getAggregator it F c ts weid out"
      and "st' = \<lparr>rHeap = rHeap st @ [out],
                  rOutcomes = put (idWorkflowId weid) (length (rHeap st)) (rOutcomes st),
                  rReports = rReports st @ [(length (rHeap st), weid)]\<rparr>"
proof (cases "st' = st")
  case False
  with assms obtain weid where q: "q = Some weid"
    by (auto simp: outcome_one_def split: option.splits)
  define wo where "wo = map_option (\<lambda>r. rHeap st ! r) (map_of (rOutcomes st) (idWorkflowId weid))"
  from assms False q obtain obs agg out0 counts where
    obs: "map_of (cExecIDToOracleObservations c) (idWorkflowExecutionId weid) = Some obs"
    and len: "\<not> length obs < 2 * F + 1" and agg: "getAggregator (idWorkflowId weid) = Some agg"
    and out0: "agg wo obs F = Ok out0"
    and counts: "map_of (cExecIDToEncoderShaToCount c) (idWorkflowExecutionId weid) = Some counts"
    by (auto simp: outcome_one_def Let_def wo_def split: option.splits if_splits go.splits)
  define l where "l = (case wo of None \<Rightarrow> LastSeenAt out0 | Some w \<Rightarrow> LastSeenAt w)"
  define out where "out = finish out0 l ts (pick_encoder it F counts (cShaToEncoder c))"
  have "made_from getAggregator it F c ts weid out"
    using obs len agg out0 counts unfolding made_from_def out_def by (auto simp: not_less)
  moreover have "st' = \<lparr>rHeap = rHeap st @ [out],
      rOutcomes = put (idWorkflowId weid) (length (rHeap st)) (rOutcomes st),
      rReports = rReports st @ [(length (rHeap st), weid)]\<rparr>"
    using assms q obs len agg out0 counts
    by (simp add: outcome_one_def Let_def wo_def [symmetric] out_def finish_def l_def
        split: option.splits)
  ultimately show thesis using that(2) q by blast
qed (use that(1) in blast)

lemma put_snd_subset: "snd ` set (put k n m) \<subseteq> insert n (snd ` set m)"
  unfolding put_def by (induction m) (auto split: if_splits)

lemma distinct_snd_put:
  "distinct (map snd m) \<Longrightarrow> n \<notin> snd ` set m \<Longrightarrow> distinct (map snd (put k n m))"
proof (induction m)
  case (Cons e m)
  have "snd e \<notin> snd ` set (put k n m)"
    using Cons.prems put_snd_subset [of k n m] by auto
  with Cons show ?case by (cases e) (auto simp: put_def)
qed (simp add: put_def)

lemma round_wf_step:
  assumes "round_wf st"
  shows "round_wf \<lparr>rHeap = rHeap st @ [out], rOutcomes = put k (length (rHeap st)) (rOutcomes st),
           rReports = rReports st @ [(length (rHeap st), weid)]\<rparr>"
proof -
  have wf: "gomap_wf (rOutcomes st)" "distinct (map snd (rOutcomes st))"
    and lt: "\<forall>(k, r)\<in>set (rOutcomes st). r < length (rHeap st)"
    using assms by (simp_all add: round_wf_def)
  have "length (rHeap st) \<notin> snd ` set (rOutcomes st)" using lt by fastforce
  then have "distinct (map snd (put k (length (rHeap st)) (rOutcomes st)))"
    using wf(2) by (rule distinct_snd_put [rotated])
  with assms wf lt show ?thesis
    by (fastforce simp: round_wf_def set_put)
qed

text \<open>The invariant of the loop: the state is well formed and every report has its provenance.\<close>

lemma outcome_loop:
  assumes "go_foldM (outcome_one getAggregator it F c ts) st ids = Ok st'"
    and "round_wf st" and "rReports st = []"
  shows "round_wf st' \<and>
    (\<forall>(r, weid)\<in>set (rReports st'). Some weid \<in> set ids \<and> made_from getAggregator it F c ts weid (rHeap st' ! r))"
proof -
  let ?P = "\<lambda>st. round_wf st \<and>
    (\<forall>(r, weid)\<in>set (rReports st). Some weid \<in> set ids \<and> made_from getAggregator it F c ts weid (rHeap st ! r))"
  show ?thesis
  proof (rule go_foldM_invariant [OF assms(1), of ?P])
    show "?P st" using assms(2,3) by simp
    fix s q s'
    assume P: "?P s" and q: "q \<in> set ids" and step: "outcome_one getAggregator it F c ts s q = Ok s'"
    from step show "?P s'"
    proof (cases rule: outcome_one_cases)
      case (2 weid out)
      with P q show ?thesis
        using round_wf_step [of s out "idWorkflowId weid" weid]
        by (fastforce simp: nth_append round_wf_def)
    qed (use P in simp)
  qed
qed

lemma load_outcomes_wf:
  assumes "gomap_wf outcomes"
  shows "round_wf (load_outcomes outcomes)"
  using assms by (auto simp: round_wf_def load_outcomes_def dest: set_zip_rightD)

section \<open>Pruning\<close>

definition stale ::
    "nat \<Rightarrow> uint64 \<Rightarrow> uint64 \<Rightarrow> (string, nat) gomap \<Rightarrow> AggregationOutcome list \<Rightarrow> string \<Rightarrow> nat \<Rightarrow> bool" where
  "stale F seqNr threshold seen heap k r \<longleftrightarrow>
     \<not> F + 1 \<le> count_of seen k \<and> threshold < seqNr - LastSeenAt (heap ! r)"

lemma prune_loop:
  assumes "foldl (prune_one F seqNr threshold seen) (st, u) es = (st', u')"
    and "distinct (map snd es)" and "\<forall>(k, r)\<in>set es. r < length (rHeap st)"
  shows "rReports st' = rReports st \<and> length (rHeap st') = length (rHeap st) \<and>
    (\<forall>r < length (rHeap st). rHeap st' ! r =
       (if \<exists>k. (k, r) \<in> set es \<and> F + 1 \<le> count_of seen k
        then (rHeap st ! r)\<lparr>LastSeenAt := seqNr\<rparr> else rHeap st ! r)) \<and>
    (\<forall>k. map_of (rOutcomes st') k =
       (if \<exists>r. (k, r) \<in> set es \<and> stale F seqNr threshold seen (rHeap st) k r
        then None else map_of (rOutcomes st) k)) \<and>
    u' = u @ map fst (filter (\<lambda>(k, r). stale F seqNr threshold seen (rHeap st) k r) es)"
  using assms
proof (induction es arbitrary: st u)
  case (Cons e es)
  obtain k r where e: "e = (k, r)" by fastforce
  let ?h = "(rHeap st)[r := (rHeap st ! r)\<lparr>LastSeenAt := seqNr\<rparr>]"
  have r: "r < length (rHeap st)" and fresh: "r \<notin> snd ` set es" using Cons.prems(2,3) e by auto
  have same: "stale F seqNr threshold seen ?h k' r' \<longleftrightarrow> stale F seqNr threshold seen (rHeap st) k' r'"
    if "(k', r') \<in> set es" for k' r'
  proof -
    have "r' \<noteq> r" using fresh that by (metis image_eqI snd_conv)
    then show ?thesis by (simp add: stale_def)
  qed
  then have filt: "filter (\<lambda>(k, r). stale F seqNr threshold seen ?h k r) es =
      filter (\<lambda>(k, r). stale F seqNr threshold seen (rHeap st) k r) es"
    by (intro filter_cong) auto
  show ?case
  proof (cases "F + 1 \<le> count_of seen k")
    case True
    then have step: "prune_one F seqNr threshold seen (st, u) e = (st\<lparr>rHeap := ?h\<rparr>, u)"
      by (simp add: prune_one_def e)
    have "foldl (prune_one F seqNr threshold seen) (st\<lparr>rHeap := ?h\<rparr>, u) es = (st', u')"
      using Cons.prems(1) step by simp
    note IH = Cons.IH [OF this]
    have "\<not> stale F seqNr threshold seen (rHeap st) k r" using True by (simp add: stale_def)
    with IH Cons.prems(2,3) True r fresh same filt show ?thesis
      by (auto simp: e nth_list_update intro: rev_image_eqI)
  next
    case False
    let ?s = "if stale F seqNr threshold seen (rHeap st) k r
              then (st\<lparr>rOutcomes := del k (rOutcomes st)\<rparr>, u @ [k]) else (st, u)"
    have step: "prune_one F seqNr threshold seen (st, u) e = ?s"
      using False by (simp add: prune_one_def e stale_def)
    have "foldl (prune_one F seqNr threshold seen) (fst ?s, snd ?s) es = (st', u')"
      using Cons.prems(1) step by (simp only: foldl_Cons prod.collapse)
    note IH = Cons.IH [OF this]
    have heap: "rHeap (fst ?s) = rHeap st" "rReports (fst ?s) = rReports st" by simp_all
    from IH Cons.prems(2,3) False heap show ?thesis
      by (auto simp: e)
  qed
qed simp

section \<open>Properties\<close>

lemma outcome_message_Ok:
  assumes "outcome_message L unmarshalObs marshalMap sha srt unmarshalQuery unmarshalOutcome getAggregator
             it F seqNr threshold previous query aos = Ok (msg, unregistered)"
  obtains ts ids prev st st' where
    "medianTimestamp L srt (cTimestamps (collect L unmarshalObs marshalMap sha aos)) = Ok ts"
    and "unmarshalQuery query = Some ids" and "unmarshalOutcome previous = Some prev"
    and "go_foldM (outcome_one getAggregator it F (collect L unmarshalObs marshalMap sha aos) ts)
           (load_outcomes (poOutcomes prev)) ids = Ok st"
    and "foldl (prune_one F seqNr threshold
           (cSeenWorkflowIDs (collect L unmarshalObs marshalMap sha aos))) (st, []) (rOutcomes st) =
         (st', unregistered)"
    and "msg = store_outcomes st'"
proof -
  let ?c = "collect L unmarshalObs marshalMap sha aos"
  from assms obtain ts where a: "medianTimestamp L srt (cTimestamps ?c) = Ok ts"
    by (auto simp: outcome_message_def Let_def go_bind_eq_Ok)
  from assms a obtain ids where b: "unmarshalQuery query = Some ids"
    by (cases "unmarshalQuery query") (simp_all add: outcome_message_def Let_def)
  from assms a b obtain prev where d: "unmarshalOutcome previous = Some prev"
    by (cases "unmarshalOutcome previous") (simp_all add: outcome_message_def Let_def)
  from assms a b d obtain st where
    e: "go_foldM (outcome_one getAggregator it F ?c ts) (load_outcomes (poOutcomes prev)) ids = Ok st"
    by (auto simp: outcome_message_def Let_def go_bind_eq_Ok)
  obtain st' u where f: "foldl (prune_one F seqNr threshold (cSeenWorkflowIDs ?c)) (st, []) (rOutcomes st) =
      (st', u)" by fastforce
  from assms a b d e f have "msg = store_outcomes st'" "u = unregistered"
    by (simp_all add: outcome_message_def Let_def)
  with a b d e f that show thesis by blast
qed

text \<open>Every report of the message has its provenance, also after pruning wrote to the shared objects.\<close>

lemma outcome_message_made:
  assumes "outcome_message L unmarshalObs marshalMap sha srt unmarshalQuery unmarshalOutcome getAggregator
             it F seqNr threshold previous query aos = Ok (msg, unregistered)"
    and "unmarshalOutcome previous = Some prev" and "gomap_wf (poOutcomes prev)"
    and "rep \<in> set (poCurrentReports msg)"
  obtains ts ids weid out where
    "medianTimestamp L srt (cTimestamps (collect L unmarshalObs marshalMap sha aos)) = Ok ts"
    and "unmarshalQuery query = Some ids" and "Some weid \<in> set ids"
    and "rep = Some \<lparr>prOutcome = Some out, prId = Some weid\<rparr>"
    and "made_from getAggregator it F (collect L unmarshalObs marshalMap sha aos) ts weid out"
proof -
  let ?c = "collect L unmarshalObs marshalMap sha aos"
  from assms(1,2) obtain ts ids st st' where
    ts: "medianTimestamp L srt (cTimestamps ?c) = Ok ts"
    and ids: "unmarshalQuery query = Some ids"
    and loop: "go_foldM (outcome_one getAggregator it F ?c ts) (load_outcomes (poOutcomes prev)) ids = Ok st"
    and prune: "foldl (prune_one F seqNr threshold (cSeenWorkflowIDs ?c)) (st, []) (rOutcomes st) =
      (st', unregistered)"
    and msg: "msg = store_outcomes st'"
    by (auto elim!: outcome_message_Ok)
  have "rReports (load_outcomes (poOutcomes prev)) = []" by (simp add: load_outcomes_def)
  note inv = outcome_loop [OF loop load_outcomes_wf [OF assms(3)] this]
  then have wf: "distinct (map snd (rOutcomes st))" "\<forall>(k, r)\<in>set (rOutcomes st). r < length (rHeap st)"
    and refs: "\<forall>(r, weid)\<in>set (rReports st). r < length (rHeap st)"
    by (simp_all add: round_wf_def)
  note pruned = prune_loop [OF prune wf]
  from assms(4) msg pruned obtain r weid where rep: "rep = Some \<lparr>prOutcome = Some (rHeap st' ! r), prId = Some weid\<rparr>"
    and mem: "(r, weid) \<in> set (rReports st)" by (auto simp: store_outcomes_def)
  from mem inv have q: "Some weid \<in> set ids" and made: "made_from getAggregator it F ?c ts weid (rHeap st ! r)"
    by auto
  have "r < length (rHeap st)" using mem refs by auto
  with pruned have "rHeap st' ! r = rHeap st ! r \<or> rHeap st' ! r = (rHeap st ! r)\<lparr>LastSeenAt := seqNr\<rparr>"
    by metis
  with made have "made_from getAggregator it F ?c ts weid (rHeap st' ! r)"
    using made_from_seen by metis
  with ts ids q rep that show thesis by blast
qed

lemma reports_backed:
  assumes "outcome_message L unmarshalObs marshalMap sha srt unmarshalQuery unmarshalOutcome getAggregator
             it F seqNr threshold previous query aos = Ok (msg, unregistered)"
    and "unmarshalOutcome previous = Some prev" and "gomap_wf (poOutcomes prev)"
    and "rep \<in> set (poCurrentReports msg)"
  shows "\<exists>ids weid out obs agg prev out0.
     rep = Some \<lparr>prOutcome = Some out, prId = Some weid\<rparr> \<and>
     unmarshalQuery query = Some ids \<and> Some weid \<in> set ids \<and>
     getAggregator (idWorkflowId weid) = Some agg \<and> agg prev obs F = Ok out0 \<and>
     gomap_wf obs \<and> 2 * F + 1 \<le> length obs \<and>
     (\<forall>(p, vs)\<in>set obs. observed L (decoded unmarshalObs aos) (idWorkflowExecutionId weid) p vs) \<and>
     EncodableOutcome out = EncodableOutcome out0 \<and> OutcomeMetadata out = OutcomeMetadata out0 \<and>
     ShouldReport out = ShouldReport out0 \<and>
     Ok (OutcomeTimestamp out) =
       medianTimestamp L srt (map (\<lambda>(p, obs). obsTimestamp obs) (decoded unmarshalObs aos))"
proof -
  let ?c = "collect L unmarshalObs marshalMap sha aos"
  from assms obtain ts ids weid out where
    ts: "medianTimestamp L srt (cTimestamps ?c) = Ok ts"
    and ids: "unmarshalQuery query = Some ids" "Some weid \<in> set ids"
    and rep: "rep = Some \<lparr>prOutcome = Some out, prId = Some weid\<rparr>"
    and made: "made_from getAggregator it F ?c ts weid out"
    by (rule outcome_message_made)
  from made obtain obs agg p out0 counts l where
    obs: "map_of (cExecIDToOracleObservations ?c) (idWorkflowExecutionId weid) = Some obs"
    and rest: "2 * F + 1 \<le> length obs" "getAggregator (idWorkflowId weid) = Some agg" "agg p obs F = Ok out0"
    and out: "out = finish out0 l ts (pick_encoder it F counts (cShaToEncoder ?c))"
    unfolding made_from_def by blast
  from collected_execs [of L unmarshalObs aos marshalMap sha] obs
  have "gomap_wf obs \<and> (\<forall>(p, vs)\<in>set obs.
      observed L (decoded unmarshalObs aos) (idWorkflowExecutionId weid) p vs)"
    unfolding execs_inv_def by blast
  moreover have "EncodableOutcome out = EncodableOutcome out0" "OutcomeMetadata out = OutcomeMetadata out0"
    "ShouldReport out = ShouldReport out0" "OutcomeTimestamp out = ts"
    unfolding out by (simp_all add: finish_def split: option.splits)
  ultimately show ?thesis
    using rep ids rest ts unfolding collected_timestamps by metis
qed

text \<open>
  C1. No report without a quorum. Every report of an outcome answers an id of the query, was made by
  the registered aggregator of its workflow from the observations of at least \<open>2 F + 1\<close> different
  oracles, each of which sent that observation for that execution in its own message, and carries
  the aggregator's result unchanged, with the agreed timestamp of the round.
\<close>

theorem outcome_reports_backed:
  assumes "outcome_message L unmarshalObs marshalMap sha srt unmarshalQuery unmarshalOutcome getAggregator
             it F seqNr threshold previous query aos = Ok (msg, unregistered)"
    and "unmarshalOutcome previous = Some prev" and "gomap_wf (poOutcomes prev)"
    and "rep \<in> set (poCurrentReports msg)"
  shows "\<exists>ids weid out obs agg prev out0.
     rep = Some \<lparr>prOutcome = Some out, prId = Some weid\<rparr> \<and>
     unmarshalQuery query = Some ids \<and> Some weid \<in> set ids \<and>
     getAggregator (idWorkflowId weid) = Some agg \<and> agg prev obs F = Ok out0 \<and>
     gomap_wf obs \<and> 2 * F + 1 \<le> length obs \<and>
     (\<forall>(p, vs)\<in>set obs. observed L (decoded unmarshalObs aos) (idWorkflowExecutionId weid) p vs) \<and>
     EncodableOutcome out = EncodableOutcome out0 \<and> OutcomeMetadata out = OutcomeMetadata out0 \<and>
     ShouldReport out = ShouldReport out0 \<and>
     Ok (OutcomeTimestamp out) =
       medianTimestamp L srt (map (\<lambda>(p, obs). obsTimestamp obs) (decoded unmarshalObs aos))"
  using assms by (rule reports_backed)

lemma outcome_loop_keeps:
  assumes "go_foldM (outcome_one getAggregator it F c ts) st ids = Ok st'"
  shows "gomap_dom (rOutcomes st) \<subseteq> gomap_dom (rOutcomes st')"
proof (rule go_foldM_invariant [OF assms, of "\<lambda>s. gomap_dom (rOutcomes st) \<subseteq> gomap_dom (rOutcomes s)"])
  fix s q s'
  assume sub: "gomap_dom (rOutcomes st) \<subseteq> gomap_dom (rOutcomes s)"
    and step: "outcome_one getAggregator it F c ts s q = Ok s'"
  from step show "gomap_dom (rOutcomes st) \<subseteq> gomap_dom (rOutcomes s')"
    by (cases rule: outcome_one_cases) (use sub in auto)
qed simp

lemma map_of_store: "map_of (map (\<lambda>(k, r). (k, h r)) m) k = map_option h (map_of m k)"
  by (induction m) auto

text \<open>Pruning, entry by entry.\<close>

lemma pruned_entry:
  assumes "foldl (prune_one F seqNr threshold seen) (st, []) (rOutcomes st) = (st', u)"
    and "round_wf st" and "map_of (rOutcomes st) k = Some r"
  shows "(F + 1 \<le> count_of seen k \<longrightarrow>
            map_of (poOutcomes (store_outcomes st')) k = Some ((rHeap st ! r)\<lparr>LastSeenAt := seqNr\<rparr>) \<and>
            k \<notin> set u) \<and>
         (\<not> F + 1 \<le> count_of seen k \<and> threshold < seqNr - LastSeenAt (rHeap st ! r) \<longrightarrow>
            map_of (poOutcomes (store_outcomes st')) k = None \<and> k \<in> set u) \<and>
         (\<not> F + 1 \<le> count_of seen k \<and> \<not> threshold < seqNr - LastSeenAt (rHeap st ! r) \<longrightarrow>
            map_of (poOutcomes (store_outcomes st')) k = Some (rHeap st ! r) \<and> k \<notin> set u)"
proof -
  have wf: "gomap_wf (rOutcomes st)" "distinct (map snd (rOutcomes st))"
    "\<forall>(k, r)\<in>set (rOutcomes st). r < length (rHeap st)"
    using assms(2) by (simp_all add: round_wf_def)
  note pruned = prune_loop [OF assms(1) wf(2,3)]
  have mem: "(k, r') \<in> set (rOutcomes st) \<longleftrightarrow> r' = r" for r'
    using assms(3) wf(1) by (metis map_of_eq_Some_iff option.inject)
  have unique: "(k', r) \<in> set (rOutcomes st) \<longleftrightarrow> k' = k" for k'
  proof
    assume "(k', r) \<in> set (rOutcomes st)"
    with mem [of r] wf(2) show "k' = k"
      by (auto simp: distinct_map dest: inj_onD [where x = "(k', r)" and y = "(k, r)"])
  qed (simp add: mem)
  have r: "r < length (rHeap st)" using wf(3) mem by auto
  have heap: "rHeap st' ! r = (if F + 1 \<le> count_of seen k
      then (rHeap st ! r)\<lparr>LastSeenAt := seqNr\<rparr> else rHeap st ! r)"
    using pruned r unique by auto
  have out: "map_of (rOutcomes st') k = (if stale F seqNr threshold seen (rHeap st) k r then None else Some r)"
    using pruned by (simp only: mem assms(3) simp_thms)
  have "u = map fst (filter (\<lambda>(k, r). stale F seqNr threshold seen (rHeap st) k r) (rOutcomes st))"
    using pruned by simp
  then have "k \<in> set u \<longleftrightarrow> (\<exists>r'. (k, r') \<in> set (rOutcomes st) \<and> stale F seqNr threshold seen (rHeap st) k r')"
    by force
  then have "k \<in> set u \<longleftrightarrow> stale F seqNr threshold seen (rHeap st) k r" by (simp only: mem simp_thms)
  with heap out show ?thesis
    by (auto simp: store_outcomes_def map_of_store stale_def)
qed

text \<open>
  State is kept exactly as long as it should be. A workflow that more than \<open>F\<close> oracles list as
  registered keeps its outcome (so at least one honest oracle suffices when the others do), stamped
  with the current round; one that at most \<open>F\<close> list is unregistered once the threshold of rounds
  has passed since it was last seen, and kept unchanged until then.
\<close>

lemma outcome_pruning:
  assumes "outcome_message L unmarshalObs marshalMap sha srt unmarshalQuery unmarshalOutcome getAggregator
             it F seqNr threshold previous query aos = Ok (msg, unregistered)"
    and "unmarshalOutcome previous = Some prev" and "gomap_wf (poOutcomes prev)"
    and "wid \<in> gomap_dom (poOutcomes prev) \<union> gomap_dom (poOutcomes msg)"
  shows "(F + 1 \<le> seen_by unmarshalObs aos wid \<longrightarrow>
            (\<exists>out. map_of (poOutcomes msg) wid = Some out \<and> LastSeenAt out = seqNr) \<and>
            wid \<notin> set unregistered) \<and>
         (seen_by unmarshalObs aos wid \<le> F \<longrightarrow>
            (case map_of (poOutcomes msg) wid of
               None \<Rightarrow> wid \<in> set unregistered
             | Some out \<Rightarrow> seqNr - LastSeenAt out \<le> threshold \<and> wid \<notin> set unregistered))"
proof -
  let ?c = "collect L unmarshalObs marshalMap sha aos"
  from assms(1,2) obtain ts ids st st' where
    loop: "go_foldM (outcome_one getAggregator it F ?c ts) (load_outcomes (poOutcomes prev)) ids = Ok st"
    and prune: "foldl (prune_one F seqNr threshold (cSeenWorkflowIDs ?c)) (st, []) (rOutcomes st) =
      (st', unregistered)"
    and msg: "msg = store_outcomes st'"
    by (auto elim!: outcome_message_Ok)
  have "rReports (load_outcomes (poOutcomes prev)) = []" by (simp add: load_outcomes_def)
  with outcome_loop [OF loop load_outcomes_wf [OF assms(3)]] have wf: "round_wf st" by blast
  have "gomap_dom (poOutcomes prev) \<subseteq> gomap_dom (rOutcomes st)"
    using outcome_loop_keeps [OF loop] by (simp add: load_outcomes_def flip: set_map)
  moreover have "gomap_dom (poOutcomes msg) \<subseteq> gomap_dom (rOutcomes st)"
  proof -
    have "map_of (rOutcomes st) k = None \<Longrightarrow> map_of (rOutcomes st') k = None" for k
      using prune_loop [OF prune] wf by (simp add: round_wf_def)
    moreover have "gomap_dom (poOutcomes msg) = gomap_dom (rOutcomes st')"
      by (force simp: msg store_outcomes_def)
    ultimately show ?thesis using gomap_dom_iff by (metis subsetI)
  qed
  ultimately have "wid \<in> gomap_dom (rOutcomes st)" using assms(4) by blast
  then obtain r where "map_of (rOutcomes st) wid = Some r" by (auto simp: gomap_dom_iff)
  from pruned_entry [OF prune wf this] show ?thesis
    unfolding collected_seen msg by (auto simp: not_less)
qed

section \<open>The agreed timestamp\<close>

lemma wrap64_id: "- (2 ^ 63) \<le> n \<Longrightarrow> n < 2 ^ 63 \<Longrightarrow> wrap64 n = n"
  by (simp add: wrap64_def sint_sbintrunc' signed_take_bit_int_eq_self)

lemma half_bounds: "0 \<le> n \<Longrightarrow> 0 \<le> half n \<and> half n \<le> n"
  by (auto simp: half_def sgn_if)

text \<open>The middle of two times in whole seconds lies between them, and nothing overflows.\<close>

lemma midpoint:
  assumes "0 \<le> a" and "a \<le> b" and "b < 2 ^ 63"
  shows "a \<le> wrap64 (a + half (wrap64 (b - a)))" and "wrap64 (a + half (wrap64 (b - a))) \<le> b"
proof -
  have "wrap64 (b - a) = b - a" using assms by (intro wrap64_id) simp_all
  moreover have "0 \<le> half (b - a)" "half (b - a) \<le> b - a" using half_bounds assms(2) by auto
  moreover from this have "wrap64 (a + half (b - a)) = a + half (b - a)"
    using assms by (intro wrap64_id) linarith+
  ultimately show "a \<le> wrap64 (a + half (wrap64 (b - a)))"
    and "wrap64 (a + half (wrap64 (b - a))) \<le> b" by simp_all
qed

lemma unix_mono: "s \<le> t \<Longrightarrow> unix s \<le> unix t"
  by (simp add: unix_def zdiv_mono1)

text \<open>
  The median is enclosed by two of the timestamps it was computed from, and more than \<open>f\<close> of them
  are not above the lower one, more than \<open>f\<close> not below the upper one.
\<close>

lemma medianTimestamp_ranks:
  assumes "vlib_laws L" and "sort_law srt" and "2 * f + 1 \<le> length ts"
    and "\<And>lo. f < length (filter (\<lambda>t. ts_time L t \<le> lo) ts) \<Longrightarrow>
           f < length (filter (\<lambda>t. lo \<le> ts_time L t) ts) \<Longrightarrow> 0 \<le> unix lo \<and> unix lo < 2 ^ 63"
  shows "\<exists>r lo hi. medianTimestamp L srt ts = Ok r \<and>
           f < length (filter (\<lambda>t. ts_time L t \<le> lo) ts) \<and> unix lo \<le> unix (ts_time L r) \<and>
           f < length (filter (\<lambda>t. hi \<le> ts_time L t) ts) \<and> unix (ts_time L r) \<le> unix hi"
proof -
  let ?lt = "\<lambda>a b. ts_time L a < ts_time L b"
  define ys where "ys = srt ?lt ts"
  have "strict_weak ?lt" by (auto simp: strict_weak_def)
  with assms(2) have ms: "mset ys = mset ts" and "sorted_wrt (\<lambda>x y. \<not> ?lt y x) ys"
    unfolding sort_law_def ys_def by blast+
  then have sorted: "sorted_wrt (\<lambda>x y. - ts_time L x \<ge> - ts_time L y) ys" by (simp add: not_less)
  have len: "length ys = length ts" using ms by (rule mset_eq_length)
  have eq: "length (filter P ts) = length (filter P ys)" for P
    using ms by (metis mset_filter size_mset)
  have below: "f < length (filter (\<lambda>t. ts_time L t \<le> ts_time L (ys ! m)) ts)" if "f \<le> m" "m < length ys" for m
    unfolding eq using sorted_count_above(1) [OF sorted that(2)] that(1) by simp
  have above: "f < length (filter (\<lambda>t. ts_time L (ys ! m) \<le> ts_time L t) ts)" if "m + f < length ys" for m
    unfolding eq using sorted_count_above(2) [OF sorted, of m] that by simp
  let ?mid = "length ys div 2"
  show ?thesis
  proof (cases "length ys mod 2 = 1")
    case True
    then have "medianTimestamp L srt ts = Ok (ys ! ?mid)"
      by (simp add: medianTimestamp_def ys_def Let_def)
    moreover have "f \<le> ?mid" "?mid + f < length ys" using assms(3) len True by presburger+
    ultimately show ?thesis using below [of ?mid] above [of ?mid] by auto
  next
    case False
    let ?a = "ts_time L (ys ! (?mid - 1))" and ?b = "ts_time L (ys ! ?mid)"
    have mid: "f \<le> ?mid - 1" "?mid + f < length ys" "0 < ?mid" using assms(3) len False by presburger+
    let ?r = "Some (tsNew L (1000000000 * wrap64 (unix ?a + half (wrap64 (unix ?b - unix ?a)))))"
    have med: "medianTimestamp L srt ts = Ok ?r"
      using False mid(3) by (simp add: medianTimestamp_def ys_def [symmetric] Let_def)
    have ranks: "f < length (filter (\<lambda>t. ts_time L t \<le> ?a) ts)" "f < length (filter (\<lambda>t. ?a \<le> ts_time L t) ts)"
      "f < length (filter (\<lambda>t. ts_time L t \<le> ?b) ts)" "f < length (filter (\<lambda>t. ?b \<le> ts_time L t) ts)"
      using mid by (auto intro!: below above)
    have "?a \<le> ?b" using sorted mid by (simp add: sorted_wrt_iff_nth_less)
    then have "unix ?a \<le> unix ?b" by (rule unix_mono)
    moreover have "0 \<le> unix ?a" "unix ?b < 2 ^ 63" using assms(4) ranks by blast+
    ultimately have "unix ?a \<le> unix (ts_time L ?r)" "unix (ts_time L ?r) \<le> unix ?b"
      using midpoint assms(1) by (simp_all add: ts_time_def unix_def vlib_laws_def)
    with med ranks show ?thesis by blast
  qed
qed

lemma honest_timestamp:
  assumes "gomap_wf ds" and "finite faulty" and "card faulty \<le> f"
    and "f < length (filter (\<lambda>t. P (ts_time L t)) (map (\<lambda>(p, obs). obsTimestamp obs) ds))"
  shows "\<exists>p obs. (p, obs) \<in> set ds \<and> p \<notin> faulty \<and> P (ts_time L (obsTimestamp obs))"
proof (rule honest_supporter [OF assms(1) _ assms(2,3)])
  have "map (\<lambda>(p, obs). obsTimestamp obs) ds = map obsTimestamp (map snd ds)" by auto
  then show "f < length (filter (\<lambda>obs. P (ts_time L (obsTimestamp obs))) (map snd ds))"
    using assms(4) by (simp only: filter_map length_map comp_def)
qed

lemma observers_decoded:
  assumes "gomap_wf obs" and "\<forall>(p, vs)\<in>set obs. observed L ds weid p vs" and "gomap_wf ds"
  shows "length obs \<le> length ds"
proof -
  have "gomap_dom obs \<subseteq> gomap_dom ds" using assms(2) by (force simp: observed_def)
  then have "card (gomap_dom obs) \<le> card (gomap_dom ds)" by (rule card_mono [rotated]) simp
  then show ?thesis
    using assms(1,3) by (metis distinct_card length_map list.set_map)
qed

text \<open>
  C32. The timestamp of a report is honest. However the faulty oracles (at most \<open>F\<close>) choose their
  clocks, the whole seconds of the timestamp that a report carries lie between those of two honest
  oracles, and the arithmetic of the median does not overflow when the honest clocks are not before
  the epoch.
\<close>

theorem outcome_timestamp_honest:
  assumes "vlib_laws L" and "sort_law srt"
    and "outcome_message L unmarshalObs marshalMap sha srt unmarshalQuery unmarshalOutcome getAggregator
             it F seqNr threshold previous query aos = Ok (msg, unregistered)"
    and "unmarshalOutcome previous = Some prev" and "gomap_wf (poOutcomes prev)"
    and "gomap_wf aos" and "finite faulty" and "card faulty \<le> F"
    and "\<forall>(p, obs)\<in>set (decoded unmarshalObs aos). p \<notin> faulty \<longrightarrow>
           0 \<le> unix (ts_time L (obsTimestamp obs)) \<and> unix (ts_time L (obsTimestamp obs)) < 2 ^ 63"
    and "Some \<lparr>prOutcome = Some out, prId = Some weid\<rparr> \<in> set (poCurrentReports msg)"
  shows "\<exists>p1 o1 p2 o2.
    (p1, o1) \<in> set (decoded unmarshalObs aos) \<and> p1 \<notin> faulty \<and>
    (p2, o2) \<in> set (decoded unmarshalObs aos) \<and> p2 \<notin> faulty \<and>
    unix (ts_time L (obsTimestamp o1)) \<le> unix (ts_time L (OutcomeTimestamp out)) \<and>
    unix (ts_time L (OutcomeTimestamp out)) \<le> unix (ts_time L (obsTimestamp o2))"
proof -
  let ?c = "collect L unmarshalObs marshalMap sha aos" and ?ds = "decoded unmarshalObs aos"
  let ?ts = "map (\<lambda>(p, obs). obsTimestamp obs) ?ds"
  obtain ts where med: "medianTimestamp L srt ?ts = Ok ts"
    and made: "made_from getAggregator it F ?c ts weid out"
    by (rule outcome_message_made [OF assms(3,4,5,10)]) (auto simp: collected_timestamps)
  have stamp: "OutcomeTimestamp out = ts"
    using made by (auto simp: made_from_def finish_def split: option.splits)
  from made obtain obs where obs: "map_of (cExecIDToOracleObservations ?c) (idWorkflowExecutionId weid) = Some obs"
    and len: "2 * F + 1 \<le> length obs" unfolding made_from_def by blast
  have wf: "gomap_wf ?ds" using assms(6) by (rule decoded_wf)
  note honest = honest_timestamp [OF wf assms(7,8)]
  have "length obs \<le> length ?ds"
    using collected_execs [of L unmarshalObs aos marshalMap sha] obs wf
    by (intro observers_decoded [where weid = "idWorkflowExecutionId weid" and L = L]) (auto simp: execs_inv_def)
  with len have "2 * F + 1 \<le> length ?ts" by simp
  moreover have "0 \<le> unix lo \<and> unix lo < 2 ^ 63"
    if "F < length (filter (\<lambda>t. ts_time L t \<le> lo) ?ts)" "F < length (filter (\<lambda>t. lo \<le> ts_time L t) ?ts)" for lo
    using honest [OF that(1)] honest [OF that(2)] assms(9) unix_mono by fastforce
  ultimately obtain r lo hi where r: "medianTimestamp L srt ?ts = Ok r"
    and lo: "F < length (filter (\<lambda>t. ts_time L t \<le> lo) ?ts)" "unix lo \<le> unix (ts_time L r)"
    and hi: "F < length (filter (\<lambda>t. hi \<le> ts_time L t) ?ts)" "unix (ts_time L r) \<le> unix hi"
    using medianTimestamp_ranks [OF assms(1,2)] by blast
  from r med stamp have out: "OutcomeTimestamp out = r" by simp
  from honest [OF lo(1)] obtain p1 o1 where "(p1, o1) \<in> set ?ds" "p1 \<notin> faulty"
    and "ts_time L (obsTimestamp o1) \<le> lo" by blast
  moreover from honest [OF hi(1)] obtain p2 o2 where "(p2, o2) \<in> set ?ds" "p2 \<notin> faulty"
    and "hi \<le> ts_time L (obsTimestamp o2)" by blast
  ultimately show ?thesis
    unfolding out using lo(2) hi(2) unix_mono [of _ lo] unix_mono [of hi] order_trans by blast
qed

section \<open>The encoder override\<close>

text \<open>The entries of a message that vote on the encoder of an execution, with their hash.\<close>

definition encoder_votes ::
    "'d vlib \<Rightarrow> (pbMap \<Rightarrow> bytes option) \<Rightarrow> (bytes \<Rightarrow> 'h) \<Rightarrow> string \<Rightarrow> 'h \<Rightarrow> pbObservations \<Rightarrow> pbObservation list" where
  "encoder_votes L marshalMap sha weid h obs =
     [rq. Some rq \<leftarrow> obsObservations obs, (case obId rq of None \<Rightarrow> False | Some i \<Rightarrow> idWorkflowExecutionId i = weid),
        FromListValueProto L (obObservations rq) \<noteq> None, shaForOverriddenEncoder marshalMap sha rq = Some h]"

lemma inner_put [simp]: "inner (put k i m) k' = (if k' = k then i else inner m k')"
  by (simp add: inner_def)

lemma inner_Nil [simp]: "inner [] k = []"
  by (simp add: inner_def)

lemma collect_request_votes:
  "count_of (inner (cExecIDToEncoderShaToCount (collect_request L marshalMap sha p c request)) weid) h =
     count_of (inner (cExecIDToEncoderShaToCount c) weid) h +
     length (encoder_votes L marshalMap sha weid h \<lparr>obsObservations = [request],
        obsRegisteredWorkflowIds = [], obsTimestamp = None\<rparr>)"
  by (auto simp: collect_request_def encoder_votes_def Let_def split: option.splits)

lemma encoder_votes_Cons:
  "encoder_votes L marshalMap sha weid h \<lparr>obsObservations = rq # rqs, obsRegisteredWorkflowIds = ws, obsTimestamp = t\<rparr> =
     encoder_votes L marshalMap sha weid h \<lparr>obsObservations = [rq], obsRegisteredWorkflowIds = [], obsTimestamp = None\<rparr> @
     encoder_votes L marshalMap sha weid h \<lparr>obsObservations = rqs, obsRegisteredWorkflowIds = ws, obsTimestamp = t\<rparr>"
  by (simp add: encoder_votes_def)

text \<open>The count of a hash is the number of entries that have it, over the messages of all oracles.\<close>

lemma collected_votes:
  "count_of (inner (cExecIDToEncoderShaToCount (collect L unmarshalObs marshalMap sha aos)) weid) h =
     sum_list (map (\<lambda>(p, obs). length (encoder_votes L marshalMap sha weid h obs)) (decoded unmarshalObs aos))"
proof -
  have requests: "count_of (inner (cExecIDToEncoderShaToCount (foldl (collect_request L marshalMap sha p) c rqs)) weid) h =
      count_of (inner (cExecIDToEncoderShaToCount c) weid) h +
      length (encoder_votes L marshalMap sha weid h \<lparr>obsObservations = rqs, obsRegisteredWorkflowIds = ws, obsTimestamp = t\<rparr>)"
    for p c rqs ws t
  proof (induction rqs arbitrary: c)
    case (Cons rq rqs)
    then show ?case by (simp add: collect_request_votes encoder_votes_Cons [of _ _ _ _ _ rq rqs])
  qed (simp add: encoder_votes_def)
  have "count_of (inner (cExecIDToEncoderShaToCount (foldl (collect_obs L marshalMap sha) c ds)) weid) h =
      count_of (inner (cExecIDToEncoderShaToCount c) weid) h +
      sum_list (map (\<lambda>(p, obs). length (encoder_votes L marshalMap sha weid h obs)) ds)" for c ds
  proof (induction ds arbitrary: c)
    case (Cons d ds)
    obtain p rqs ws t where "d = (p, \<lparr>obsObservations = rqs, obsRegisteredWorkflowIds = ws, obsTimestamp = t\<rparr>)"
      by (metis pbObservations.cases surj_pair)
    with Cons show ?case by (simp add: collect_obs_def requests [where ws = ws and t = t])
  qed simp
  then show ?thesis by (simp add: collect_decoded nothing_collected_def)
qed

definition encoders_inv ::
    "(pbMap \<Rightarrow> bytes option) \<Rightarrow> (bytes \<Rightarrow> 'h) \<Rightarrow> (OracleID \<times> pbObservations) list \<Rightarrow> ('d, 'h) collected \<Rightarrow> bool" where
  "encoders_inv marshalMap sha ds c \<longleftrightarrow>
     (\<forall>weid. gomap_wf (inner (cExecIDToEncoderShaToCount c) weid)) \<and>
     (\<forall>h e. map_of (cShaToEncoder c) h = Some e \<longrightarrow>
        (\<exists>p obs rq. (p, obs) \<in> set ds \<and> Some rq \<in> set (obsObservations obs) \<and>
           shaForOverriddenEncoder marshalMap sha rq = Some h \<and>
           e = \<lparr>ecName = obOverriddenEncoderName rq, ecConfig = obOverriddenEncoderConfig rq\<rparr>))"

lemma encoders_inv_step:
  assumes "encoders_inv marshalMap sha ds c" and "(p, obs) \<in> set ds" and "request \<in> set (obsObservations obs)"
  shows "encoders_inv marshalMap sha ds (collect_request L marshalMap sha p c request)"
proof (cases "\<exists>rq ident vs h. request = Some rq \<and> obId rq = Some ident \<and>
    FromListValueProto L (obObservations rq) = Some vs \<and> shaForOverriddenEncoder marshalMap sha rq = Some h")
  case True
  then obtain rq ident vs h where rq: "request = Some rq" "obId rq = Some ident"
    "FromListValueProto L (obObservations rq) = Some vs" "shaForOverriddenEncoder marshalMap sha rq = Some h"
    by blast
  have "Some rq \<in> set (obsObservations obs)" using assms(3) rq(1) by simp
  with assms(1,2) rq show ?thesis
    unfolding encoders_inv_def by (auto simp: collect_request_def Let_def)
next
  case False
  then have "cExecIDToEncoderShaToCount (collect_request L marshalMap sha p c request) = cExecIDToEncoderShaToCount c"
    "cShaToEncoder (collect_request L marshalMap sha p c request) = cShaToEncoder c"
    by (auto simp: collect_request_def Let_def split: option.splits)
  with assms(1) show ?thesis by (simp add: encoders_inv_def)
qed

lemma collected_encoders:
  fixes L :: "'d vlib" and sha :: "bytes \<Rightarrow> 'h"
  shows "encoders_inv marshalMap sha (decoded unmarshalObs aos) (collect L unmarshalObs marshalMap sha aos)"
proof (rule collect_invariant)
  show "encoders_inv marshalMap sha (decoded unmarshalObs aos) nothing_collected"
    by (simp add: encoders_inv_def nothing_collected_def)
  show "encoders_inv marshalMap sha (decoded unmarshalObs aos) (c\<lparr>cSeenWorkflowIDs := seen, cTimestamps := ts\<rparr>)"
    if "encoders_inv marshalMap sha (decoded unmarshalObs aos) c" for c :: "('d, 'h) collected" and seen ts
    using that by (simp add: encoders_inv_def)
qed (rule encoders_inv_step)

lemma pick_encoder_Some:
  assumes "pick_encoder it F counts encoders = Some e" and "iteration_order it" and "gomap_wf counts"
  obtains h where "2 * F + 1 \<le> count_of counts h" and "map_of encoders h = Some e"
proof -
  from assms(1) obtain h cnt where find: "find (\<lambda>(h, cnt). cnt \<ge> 2 * F + 1 \<and> map_of encoders h \<noteq> None) (it counts) =
      Some (h, cnt)" and e: "map_of encoders h = Some e"
    by (auto simp: pick_encoder_def split: option.splits)
  then have "(h, cnt) \<in> set (it counts)" "2 * F + 1 \<le> cnt"
    by (auto simp: find_Some_iff in_set_conv_nth intro: exI)
  with assms(2,3) e that show thesis by (auto dest: count_of_mem)
qed

text \<open>The executions that a message has entries for.\<close>

definition entry_ids :: "pbObservations \<Rightarrow> string list" where
  "entry_ids obs =
     [idWorkflowExecutionId ident. Some rq \<leftarrow> obsObservations obs, Some ident \<leftarrow> [obId rq]]"

lemma votes_of_one_message:
  assumes "distinct (entry_ids obs)"
  shows "length (encoder_votes L marshalMap sha weid h obs) \<le> (if encoder_votes L marshalMap sha weid h obs = [] then 0 else 1)"
proof -
  have "length (encoder_votes L marshalMap sha weid h \<lparr>obsObservations = rqs, obsRegisteredWorkflowIds = ws, obsTimestamp = t\<rparr>) \<le>
      count_list (entry_ids \<lparr>obsObservations = rqs, obsRegisteredWorkflowIds = ws, obsTimestamp = t\<rparr>) weid" for rqs ws t
    by (induction rqs) (auto simp: encoder_votes_def entry_ids_def split: option.splits)
  then have "length (encoder_votes L marshalMap sha weid h obs) \<le> count_list (entry_ids obs) weid"
    by (cases obs) simp
  also have "\<dots> \<le> 1"
    using assms by (simp add: count_mset [symmetric] distinct_count_atmost_1)
  finally show ?thesis by simp
qed

definition encoder_voters ::
    "(OracleID \<times> pbObservations) list \<Rightarrow> string \<Rightarrow> string \<Rightarrow> pbMap option \<Rightarrow> OracleID set" where
  "encoder_voters ds weid name config =
     {p. \<exists>obs rq ident. (p, obs) \<in> set ds \<and> Some rq \<in> set (obsObservations obs) \<and>
        obId rq = Some ident \<and> idWorkflowExecutionId ident = weid \<and>
        obOverriddenEncoderName rq = name \<and> obOverriddenEncoderConfig rq = config}"

lemma votes_of_distinct_messages:
  assumes "\<forall>(p, obs)\<in>set ds. distinct (entry_ids obs)"
  shows "sum_list (map (\<lambda>(p, obs). length (encoder_votes L marshalMap sha weid h obs)) ds) \<le>
     length (filter (\<lambda>obs. encoder_votes L marshalMap sha weid h obs \<noteq> []) (map snd ds))"
  using assms
proof (induction ds)
  case (Cons d ds)
  obtain p obs where d: "d = (p, obs)" by fastforce
  from Cons.prems have "distinct (entry_ids obs)" by (simp add: d)
  from votes_of_one_message [OF this, of L marshalMap sha weid h] Cons show ?case
    by (auto simp: d split: if_splits)
qed simp

text \<open>
  The votes on the encoder override of an execution: with one entry per execution in a message and
  no two different overrides under one hash, the voters of the winner are \<open>2 F + 1\<close> oracles.
\<close>

lemma pick_encoder_voters:
  assumes "pick_encoder it F counts (cShaToEncoder (collect L unmarshalObs marshalMap sha aos)) = Some e"
    and "map_of (cExecIDToEncoderShaToCount (collect L unmarshalObs marshalMap sha aos)) weid = Some counts"
    and "iteration_order it" and "gomap_wf aos"
    and "\<forall>(p, obs)\<in>set (decoded unmarshalObs aos). distinct (entry_ids obs)"
    and "\<And>p obs rq p' obs' rq'. (p, obs) \<in> set (decoded unmarshalObs aos) \<Longrightarrow> Some rq \<in> set (obsObservations obs) \<Longrightarrow>
       (p', obs') \<in> set (decoded unmarshalObs aos) \<Longrightarrow> Some rq' \<in> set (obsObservations obs') \<Longrightarrow>
       shaForOverriddenEncoder marshalMap sha rq = shaForOverriddenEncoder marshalMap sha rq' \<Longrightarrow>
       obOverriddenEncoderName rq = obOverriddenEncoderName rq' \<and>
       obOverriddenEncoderConfig rq = obOverriddenEncoderConfig rq'"
  shows "2 * F + 1 \<le> card (encoder_voters (decoded unmarshalObs aos) weid (ecName e) (ecConfig e))"
proof -
  let ?c = "collect L unmarshalObs marshalMap sha aos" and ?ds = "decoded unmarshalObs aos"
  have counts: "inner (cExecIDToEncoderShaToCount ?c) weid = counts" using assms(2) by (simp add: inner_def)
  have inv: "encoders_inv marshalMap sha ?ds ?c" by (rule collected_encoders)
  then have wf: "gomap_wf counts" using counts unfolding encoders_inv_def by metis
  obtain h where h: "2 * F + 1 \<le> count_of counts h" "map_of (cShaToEncoder ?c) h = Some e"
    by (rule pick_encoder_Some [OF assms(1,3) wf])
  from inv h(2) obtain p0 obs0 rq0 where rq0: "(p0, obs0) \<in> set ?ds" "Some rq0 \<in> set (obsObservations obs0)"
    "shaForOverriddenEncoder marshalMap sha rq0 = Some h"
    "e = \<lparr>ecName = obOverriddenEncoderName rq0, ecConfig = obOverriddenEncoderConfig rq0\<rparr>"
    unfolding encoders_inv_def by blast
  let ?voters = "{p. \<exists>obs. (p, obs) \<in> set ?ds \<and> encoder_votes L marshalMap sha weid h obs \<noteq> []}"
  have "2 * F + 1 \<le> card ?voters"
    using h(1) votes_of_distinct_messages [OF assms(5), of L marshalMap sha weid h]
    unfolding counts [symmetric] collected_votes card_voters [OF decoded_wf [OF assms(4)]] by linarith
  also have "?voters \<subseteq> encoder_voters ?ds weid (ecName e) (ecConfig e)"
  proof
    fix p assume "p \<in> ?voters"
    then obtain obs rq where obs: "(p, obs) \<in> set ?ds" and rq: "rq \<in> set (encoder_votes L marshalMap sha weid h obs)"
      using hd_in_set by blast
    from rq obtain ident where ident: "Some rq \<in> set (obsObservations obs)" "obId rq = Some ident"
      "idWorkflowExecutionId ident = weid" "shaForOverriddenEncoder marshalMap sha rq = Some h"
      by (auto simp: encoder_votes_def split: option.splits if_splits)
    with assms(6) [OF obs ident(1) rq0(1,2)] rq0(3,4) obs
    show "p \<in> encoder_voters ?ds weid (ecName e) (ecConfig e)"
      unfolding encoder_voters_def by auto
  qed
  moreover have "finite (encoder_voters ?ds weid (ecName e) (ecConfig e))"
    by (rule finite_subset [of _ "gomap_dom ?ds"]) (auto simp: encoder_voters_def intro: rev_image_eqI)
  ultimately show ?thesis by (meson card_mono le_trans)
qed

context aggregator
begin

lemma finish_encoder:
  assumes "Aggregate prev obs F = Ok out0"
  shows "EncoderName (finish out0 l ts e) = (case e of None \<Rightarrow> [] | Some c \<Rightarrow> ecName c)"
    and "EncoderConfig (finish out0 l ts e) = (case e of None \<Rightarrow> None | Some c \<Rightarrow> ecConfig c)"
  using fresh_fields [OF assms] by (auto simp: finish_def split: option.splits)

end

text \<open>
  An encoder override needs a quorum. The encoder that a report names, if any, was asked for by at
  least \<open>2 F + 1\<close> different oracles for that execution, provided that no message lists an execution
  twice and no two different overrides have one hash. Both conditions are needed: the next property
  and \<open>encoder_override_ambiguous\<close> show what happens without them.
\<close>

lemma outcome_encoder_backed:
  assumes "outcome_message L unmarshalObs marshalMap sha srt unmarshalQuery unmarshalOutcome getAggregator
             it F seqNr threshold previous query aos = Ok (msg, unregistered)"
    and "unmarshalOutcome previous = Some prev" and "gomap_wf (poOutcomes prev)"
    and "\<forall>wid agg. getAggregator wid = Some agg \<longrightarrow> aggregator agg"
    and "iteration_order it" and "gomap_wf aos"
    and "\<forall>(p, obs)\<in>set (decoded unmarshalObs aos). distinct (entry_ids obs)"
    and "\<And>p obs rq p' obs' rq'. (p, obs) \<in> set (decoded unmarshalObs aos) \<Longrightarrow> Some rq \<in> set (obsObservations obs) \<Longrightarrow>
       (p', obs') \<in> set (decoded unmarshalObs aos) \<Longrightarrow> Some rq' \<in> set (obsObservations obs') \<Longrightarrow>
       shaForOverriddenEncoder marshalMap sha rq = shaForOverriddenEncoder marshalMap sha rq' \<Longrightarrow>
       obOverriddenEncoderName rq = obOverriddenEncoderName rq' \<and>
       obOverriddenEncoderConfig rq = obOverriddenEncoderConfig rq'"
    and "Some \<lparr>prOutcome = Some out, prId = Some weid\<rparr> \<in> set (poCurrentReports msg)"
  shows "EncoderName out = [] \<and> EncoderConfig out = None \<or>
    2 * F + 1 \<le> card (encoder_voters (decoded unmarshalObs aos) (idWorkflowExecutionId weid)
                       (EncoderName out) (EncoderConfig out))"
proof -
  let ?c = "collect L unmarshalObs marshalMap sha aos"
  obtain ts where made: "made_from getAggregator it F ?c ts weid out"
    by (rule outcome_message_made [OF assms(1-3,9)]) auto
  then obtain obs agg prev' out0 counts l where
    agg: "getAggregator (idWorkflowId weid) = Some agg" "agg prev' obs F = Ok out0"
    and counts: "map_of (cExecIDToEncoderShaToCount ?c) (idWorkflowExecutionId weid) = Some counts"
    and out: "out = finish out0 l ts (pick_encoder it F counts (cShaToEncoder ?c))"
    unfolding made_from_def by blast
  note encoder = aggregator.finish_encoder [OF assms(4) [rule_format, OF agg(1)] agg(2)]
  show ?thesis
  proof (cases "pick_encoder it F counts (cShaToEncoder ?c)")
    case None
    then show ?thesis by (simp add: out encoder)
  next
    case (Some e)
    from pick_encoder_voters [OF Some counts assms(5-8)] show ?thesis by (simp add: out encoder Some)
  qed
qed

section \<open>What the reports say\<close>

definition metadata_values :: "Metadata \<Rightarrow> (string \<times> 'd Value) list" where
  "metadata_values m =
     [(''Version'', VInt64 (ucast (mdVersion m))), (''ExecutionID'', VString (mdExecutionID m)),
      (''Timestamp'', VInt64 (ucast (mdTimestamp m))), (''DONID'', VInt64 (ucast (mdDONID m))),
      (''DONConfigVersion'', VInt64 (ucast (mdDONConfigVersion m))), (''WorkflowID'', VString (mdWorkflowID m)),
      (''WorkflowName'', VString (mdWorkflowName m)), (''WorkflowOwner'', VString (mdWorkflowOwner m)),
      (''ReportID'', VString (mdReportID m))]"

lemma wrap_int_uint32: "wrap_int KUint32 (uint (w :: uint32)) = VInt64 (ucast w)"
proof -
  have "(KUint32 = KUint64) = False" by simp
  then show ?thesis unfolding wrap_int_def by (simp only: simp_thms if_False flip: ucast_eq)
qed

lemma NewMap_metadata: "NewMap (metadata_struct m) = Ok (metadata_values m)"
  by (simp add: metadata_struct_def metadata_values_def NewMap_def wrap_int_uint32)

lemma choose_encoder_fields [simp]:
  "choose_encoder L byName byWorkflow (out\<lparr>EncodableOutcome := fs\<rparr>) w = choose_encoder L byName byWorkflow out w"
  by (simp add: choose_encoder_def)

lemma encode_report_Some:
  assumes "encode_report L byName byWorkflow ctxDone out ident = Ok (Some raw)" and "ShouldReport out" and "vlib_laws L"
  obtains fs mv enc where "EncodableOutcome out = Some fs"
    and "choose_encoder L byName byWorkflow out (idWorkflowId ident) = Some enc" and "enc mv = Some raw"
    and "map_of mv = (map_option (FromProto L) \<circ> map_of fs)(MetadataFieldName \<mapsto>
           VMap (metadata_values (padWorkflowName (report_metadata L out ident))))"
proof -
  let ?md = "VMap (metadata_values (padWorkflowName (report_metadata L out ident)))"
  from assms(1,2) obtain newOut where new: "AppendMetadata L out (report_metadata L out ident) = Ok newOut"
    by (auto simp: encode_report_def split: go.splits)
  then obtain fs where fs: "EncodableOutcome out = Some fs"
    and newOut: "newOut = out\<lparr>EncodableOutcome := Some (put MetadataFieldName (Proto L ?md) fs)\<rparr>"
    by (auto simp: AppendMetadata_def NewMap_metadata split: option.splits list.splits)
  let ?mv = "map (map_prod (\<lambda>k. k) (FromProto L)) (put MetadataFieldName (Proto L ?md) fs)"
  from assms(1,2) new obtain enc where "choose_encoder L byName byWorkflow out (idWorkflowId ident) = Some enc"
    and "enc ?mv = Some raw"
    by (auto simp: encode_report_def FromMapValueProto_def newOut split: option.splits if_splits)
  moreover have "map_of ?mv k = ((map_option (FromProto L) \<circ> map_of fs)(MetadataFieldName \<mapsto> ?md)) k" for k
    using FromProto_Proto [OF assms(3), of ?md]
    by (simp add: map_prod_def map_of_map del: FromProto.simps Proto.simps)
  ultimately show thesis using fs that by blast
qed

text \<open>
  Every transmitted report speaks for an entry of the agreed outcome. Its information names that
  entry's execution and whether to report; without something to report its body is empty; otherwise
  the body is what the chosen encoder makes of the agreed fields together with the metadata of the
  workflow: its ids and the agreed timestamp, in whole seconds.
\<close>

lemma reports_from_outcome:
  assumes "vlib_laws L"
    and "Reports L unmarshalOutcome byName byWorkflow marshalReportInfo ctxDone outcome = Ok reports"
    and "(raw, infob) \<in> set reports"
  shows "\<exists>o' out ident. unmarshalOutcome outcome = Some o' \<and>
     Some \<lparr>prOutcome = Some out, prId = Some ident\<rparr> \<in> set (poCurrentReports o') \<and>
     marshalReportInfo ident (ShouldReport out) (idKeyId ident) = Some infob \<and>
     (if ShouldReport out
      then \<exists>fs mv enc. EncodableOutcome out = Some fs \<and>
             choose_encoder L byName byWorkflow out (idWorkflowId ident) = Some enc \<and> enc mv = Some raw \<and>
             map_of mv = (map_option (FromProto L) \<circ> map_of fs)(MetadataFieldName \<mapsto>
               VMap (metadata_values (padWorkflowName (report_metadata L out ident))))
      else raw = [])"
proof -
  from assms(2) obtain o' where o': "unmarshalOutcome outcome = Some o'"
    and loop: "go_foldM (report_one L byName byWorkflow marshalReportInfo ctxDone) [] (poCurrentReports o') = Ok reports"
    by (auto simp: Reports_def split: option.splits)
  let ?src = "\<lambda>raw infob out ident. Some \<lparr>prOutcome = Some out, prId = Some ident\<rparr> \<in> set (poCurrentReports o') \<and>
    marshalReportInfo ident (ShouldReport out) (idKeyId ident) = Some infob \<and>
    encode_report L byName byWorkflow ctxDone out ident = Ok (Some raw)"
  have "\<forall>(raw, infob)\<in>set reports. \<exists>out ident. ?src raw infob out ident"
  proof (rule go_foldM_invariant [OF loop, of "\<lambda>rs. \<forall>(raw, infob)\<in>set rs. \<exists>out ident. ?src raw infob out ident"])
    fix rs rep rs'
    assume IH: "\<forall>(raw, infob)\<in>set rs. \<exists>out ident. ?src raw infob out ident"
      and rep: "rep \<in> set (poCurrentReports o')"
      and step: "report_one L byName byWorkflow marshalReportInfo ctxDone rs rep = Ok rs'"
    show "\<forall>(raw, infob)\<in>set rs'. \<exists>out ident. ?src raw infob out ident"
    proof (cases "rs' = rs")
      case False
      from step False obtain out ident raw infob where
        r: "rep = Some \<lparr>prOutcome = Some out, prId = Some ident\<rparr>"
        and e: "encode_report L byName byWorkflow ctxDone out ident = Ok (Some raw)"
        and i: "marshalReportInfo ident (ShouldReport out) (idKeyId ident) = Some infob"
        and rs': "rs' = rs @ [(raw, infob)]"
        by (cases rep; cases "the rep") (auto simp: report_one_def go_simps split: option.splits)
      with IH rep show ?thesis by auto
    qed (use IH in simp)
  qed simp
  with assms(3) obtain out ident where src: "?src raw infob out ident" by blast
  show ?thesis
  proof (cases "ShouldReport out")
    case True
    from src have "encode_report L byName byWorkflow ctxDone out ident = Ok (Some raw)" by blast
    from encode_report_Some [OF this True assms(1)] src o' True show ?thesis by metis
  next
    case False
    with src o' show ?thesis by (auto simp: encode_report_def)
  qed
qed

section \<open>A round of three oracles\<close>

text \<open>
  The wire form of an observation is its timestamp; every oracle reports the same value for the
  execution \<open>e\<close> of the workflow \<open>w\<close>.
\<close>

definition sample_id :: Id where
  "sample_id = \<lparr>idWorkflowExecutionId = ''e'', idWorkflowId = ''w'', idWorkflowOwner = ''o'',
     idWorkflowName = ''n'', idReportId = ''01'', idWorkflowDonId = 1, idWorkflowDonConfigVersion = 1,
     idKeyId = ''evm''\<rparr>"

definition sample_observations :: "bytes \<Rightarrow> pbObservations option" where
  "sample_observations raw =
     (case raw of
        [] \<Rightarrow> None
      | b # _ \<Rightarrow> Some \<lparr>obsObservations =
            [Some \<lparr>obId = Some sample_id, obObservations = Some [PBool True],
                   obOverriddenEncoderName = ''enc'', obOverriddenEncoderConfig = None\<rparr>],
          obsRegisteredWorkflowIds = [''w''],
          obsTimestamp = Some \<lparr>Seconds = uint b, Nanos = 0\<rparr>\<rparr>)"

definition sample_previous :: pbOutcome where
  "sample_previous = \<lparr>poOutcomes = [(''old'',
       \<lparr>EncodableOutcome = None, OutcomeMetadata = [], ShouldReport = False, LastSeenAt = 5,
        OutcomeTimestamp = None, EncoderName = [], EncoderConfig = None\<rparr>)], poCurrentReports = []\<rparr>"

definition sample_aggregator :: "(int \<times> 32 word) aggregator" where
  "sample_aggregator prev obs F = Ok (aggregated [] [] True)"

definition sample_round :: "(plugin_error, pbOutcome \<times> string list) go" where
  "sample_round = outcome_message pair_vlib sample_observations (\<lambda>_. Some []) (\<lambda>b. b) insertion_sort
     (\<lambda>_. Some [Some sample_id]) (\<lambda>_. Some sample_previous) (\<lambda>_. Some sample_aggregator) (\<lambda>m. m)
     1 20 10 [] [] [(0, [7]), (2, [3]), (3, [200])]"

definition sample_message :: pbOutcome where
  "sample_message =
     (let out = (aggregated [] [] True)\<lparr>LastSeenAt := 20, OutcomeTimestamp := Some \<lparr>Seconds = 7, Nanos = 0\<rparr>,
                   EncoderName := ''enc''\<rparr>
      in \<lparr>poOutcomes = [(''w'', out)],
          poCurrentReports = [Some \<lparr>prOutcome = Some out, prId = Some sample_id\<rparr>]\<rparr>)"

lemma sample_round_Ok: "sample_round = Ok (sample_message, [''old''])"
  by code_simp

lemmas sample_run = sample_round_Ok [unfolded sample_round_def]

lemma sample_previous_wf: "gomap_wf (poOutcomes sample_previous)"
  by (simp add: sample_previous_def)

theorem outcome_reports_backed_witness:
  "\<exists>ids weid out obs agg prev out0.
     hd (poCurrentReports sample_message) = Some \<lparr>prOutcome = Some out, prId = Some weid\<rparr> \<and>
     Some [Some sample_id] = Some ids \<and> Some weid \<in> set ids \<and>
     Some sample_aggregator = Some agg \<and> agg prev obs 1 = Ok out0 \<and>
     gomap_wf obs \<and> 2 * 1 + 1 \<le> length obs \<and>
     (\<forall>(p, vs)\<in>set obs. observed pair_vlib
        (decoded sample_observations [(0, [7]), (2, [3]), (3, [200])]) (idWorkflowExecutionId weid) p vs) \<and>
     EncodableOutcome out = EncodableOutcome out0 \<and> OutcomeMetadata out = OutcomeMetadata out0 \<and>
     ShouldReport out = ShouldReport out0 \<and>
     Ok (OutcomeTimestamp out) = medianTimestamp pair_vlib insertion_sort
       (map (\<lambda>(p, obs). obsTimestamp obs) (decoded sample_observations [(0, [7]), (2, [3]), (3, [200])]))"
  by (rule outcome_reports_backed [OF sample_run refl sample_previous_wf])
    (simp add: sample_message_def Let_def)

lemma outcome_pruning_witness:
  "''old'' \<in> set [''old''] \<and>
   (\<exists>out. map_of (poOutcomes sample_message) ''w'' = Some out \<and> LastSeenAt out = 20)"
proof -
  have old: "seen_by sample_observations [(0, [7]), (2, [3]), (3, [200])] ''old'' \<le> 1"
    and new: "1 + 1 \<le> seen_by sample_observations [(0, [7]), (2, [3]), (3, [200])] ''w''"
    by code_simp+
  have "map_of (poOutcomes sample_message) ''old'' = None"
    by (simp add: sample_message_def Let_def)
  with outcome_pruning [OF sample_run refl sample_previous_wf, of "''old''"] old
    outcome_pruning [OF sample_run refl sample_previous_wf, of "''w''"] new
  show ?thesis by (simp add: sample_previous_def sample_message_def Let_def)
qed

theorem outcome_timestamp_honest_witness:
  "\<exists>p1 o1 p2 o2.
    (p1, o1) \<in> set (decoded sample_observations [(0, [7]), (2, [3]), (3, [200])]) \<and> p1 \<notin> {3} \<and>
    (p2, o2) \<in> set (decoded sample_observations [(0, [7]), (2, [3]), (3, [200])]) \<and> p2 \<notin> {3} \<and>
    unix (ts_time pair_vlib (obsTimestamp o1)) \<le> 7 \<and> 7 \<le> unix (ts_time pair_vlib (obsTimestamp o2))"
proof -
  have seven: "unix (ts_time pair_vlib (Some \<lparr>Seconds = 7, Nanos = 0\<rparr>)) = 7"
    by code_simp
  have rep: "Some \<lparr>prOutcome = Some ((aggregated [] [] True)\<lparr>LastSeenAt := 20,
      OutcomeTimestamp := Some \<lparr>Seconds = 7, Nanos = 0\<rparr>, EncoderName := ''enc''\<rparr>), prId = Some sample_id\<rparr>
      \<in> set (poCurrentReports sample_message)"
    by (simp add: sample_message_def Let_def)
  have clocks: "\<forall>(p, obs)\<in>set (decoded sample_observations [(0, [7]), (2, [3]), (3, [200])]). p \<notin> {3} \<longrightarrow>
      0 \<le> unix (ts_time pair_vlib (obsTimestamp obs)) \<and> unix (ts_time pair_vlib (obsTimestamp obs)) < 2 ^ 63"
    by code_simp
  have "gomap_wf [(0 :: OracleID, [7 :: byte]), (2, [3]), (3, [200])]" "finite {3 :: OracleID}" "card {3 :: OracleID} \<le> 1"
    by simp_all
  from outcome_timestamp_honest [OF pair_vlib_laws insertion_sort_law sample_run refl sample_previous_wf
      this clocks rep]
  show ?thesis by (simp only: aggregated_def AggregationOutcome.simps seven)
qed

lemma sample_aggregator_contract: "aggregator sample_aggregator"
  by unfold_locales (auto simp: sample_aggregator_def)

lemma sample_decoded:
  "set (decoded sample_observations aos) \<subseteq> {(p, obs). distinct (entry_ids obs) \<and>
     (\<forall>rq. Some rq \<in> set (obsObservations obs) \<longrightarrow> obOverriddenEncoderName rq = ''enc'' \<and> obOverriddenEncoderConfig rq = None)}"
  by (auto dest!: decoded_mem simp: sample_observations_def entry_ids_def split: list.splits)

lemma outcome_encoder_backed_witness:
  "2 * 1 + 1 \<le> card (encoder_voters (decoded sample_observations [(0, [7]), (2, [3]), (3, [200])]) ''e'' ''enc'' None)"
proof -
  let ?out = "(aggregated [] [] True)\<lparr>LastSeenAt := 20, OutcomeTimestamp := Some \<lparr>Seconds = 7, Nanos = 0\<rparr>,
    EncoderName := ''enc''\<rparr>"
  have rep: "Some \<lparr>prOutcome = Some ?out, prId = Some sample_id\<rparr> \<in> set (poCurrentReports sample_message)"
    by (simp add: sample_message_def Let_def)
  have "EncoderName ?out = [] \<and> EncoderConfig ?out = None \<or>
    2 * 1 + 1 \<le> card (encoder_voters (decoded sample_observations [(0, [7]), (2, [3]), (3, [200])])
      (idWorkflowExecutionId sample_id) (EncoderName ?out) (EncoderConfig ?out))"
    by (rule outcome_encoder_backed [OF sample_run refl sample_previous_wf _ iteration_order_id _ _ _ rep])
      (use sample_decoded sample_aggregator_contract in \<open>auto simp: subset_iff\<close>)
  then show ?thesis by (simp add: aggregated_def sample_id_def)
qed

definition sample_encoded :: pbOutcome where
  "sample_encoded = \<lparr>poOutcomes = [], poCurrentReports = [None, Some \<lparr>prOutcome =
     Some (aggregated [(''x'', PBool True)] [] True), prId = Some sample_id\<rparr>]\<rparr>"

lemma reports_from_outcome_witness:
  "\<exists>o' out ident. Some sample_encoded = Some o' \<and>
     Some \<lparr>prOutcome = Some out, prId = Some ident\<rparr> \<in> set (poCurrentReports o') \<and>
     Some [1] = Some [1 :: byte] \<and>
     (if ShouldReport out
      then \<exists>fs mv enc. EncodableOutcome out = Some fs \<and>
             choose_encoder pair_vlib (\<lambda>_ _. None) (\<lambda>_. Some (\<lambda>mv. Some [of_nat (length mv)])) out (idWorkflowId ident) =
               Some enc \<and> enc mv = Some [2 :: byte] \<and>
             map_of mv = (map_option (FromProto pair_vlib) \<circ> map_of fs)(MetadataFieldName \<mapsto>
               VMap (metadata_values (padWorkflowName (report_metadata pair_vlib out ident))))
      else [2 :: byte] = [])"
proof -
  have "Reports pair_vlib (\<lambda>_. Some sample_encoded) (\<lambda>_ _. None) (\<lambda>_. Some (\<lambda>mv. Some [of_nat (length mv)]))
      (\<lambda>_ _ _. Some [1]) False [] = Ok [([2], [1])]"
    by code_simp
  from reports_from_outcome [OF pair_vlib_laws this, of "[2]" "[1]"] show ?thesis by simp
qed



text \<open>
  The hash of an encoder override does not determine it: the wire form of a configuration appended
  to the name, with no configuration, hashes like the name with that configuration, whatever the
  hash function. Votes for the two are added up, and the one seen last is used.
\<close>

lemma encoder_override_ambiguous:
  assumes "marshalMap config = Some (map of_char rest)"
    and "obOverriddenEncoderName a = name" and "obOverriddenEncoderConfig a = Some config"
    and "obOverriddenEncoderName b = name @ rest" and "obOverriddenEncoderConfig b = None"
  shows "shaForOverriddenEncoder marshalMap sha a = shaForOverriddenEncoder marshalMap sha b"
  using assms by (simp add: shaForOverriddenEncoder_def)

lemma encoder_override_ambiguous_witness:
  "shaForOverriddenEncoder (\<lambda>_. Some (map of_char ''cfg'')) (\<lambda>b. b) \<lparr>obId = None, obObservations = None,
      obOverriddenEncoderName = ''EVM'', obOverriddenEncoderConfig = Some []\<rparr> =
   shaForOverriddenEncoder (\<lambda>_. Some (map of_char ''cfg'')) (\<lambda>b. b) \<lparr>obId = None, obObservations = None,
      obOverriddenEncoderName = ''EVMcfg'', obOverriddenEncoderConfig = None\<rparr>"
  by (rule encoder_override_ambiguous [where config = "[]" and rest = "''cfg''" and name = "''EVM''"]) simp_all

end
