(* ===== verification/CapabilityIds.thy ===== *)
theory CapabilityIds
  imports Values
begin

text \<open>
  Identifiers of capabilities (\<^verbatim>\<open>CapabilityInfo\<close> of \<^verbatim>\<open>pkg/capabilities/capabilities.go\<close>): the regular
  expression of valid ids, a name with labels and a semantic version, as a recogniser that splits the
  text where the expression can only split it, and the constructors that check it.
\<close>

section \<open>The expression\<close>

definition is_digit :: "char \<Rightarrow> bool" where
  "is_digit c \<longleftrightarrow> 48 \<le> (of_char c :: nat) \<and> of_char c \<le> (57 :: nat)"

definition is_lower :: "char \<Rightarrow> bool" where
  "is_lower c \<longleftrightarrow> 97 \<le> (of_char c :: nat) \<and> of_char c \<le> (122 :: nat)"

definition is_upper :: "char \<Rightarrow> bool" where
  "is_upper c \<longleftrightarrow> 65 \<le> (of_char c :: nat) \<and> of_char c \<le> (90 :: nat)"

definition name_char :: "char \<Rightarrow> bool" where
  "name_char c \<longleftrightarrow> is_lower c \<or> is_digit c \<or> c \<in> {CHR ''_'', CHR ''-'', CHR '':''}"

definition ident_char :: "char \<Rightarrow> bool" where
  "ident_char c \<longleftrightarrow> is_digit c \<or> is_lower c \<or> is_upper c \<or> c = CHR ''-''"

text \<open>\<^verbatim>\<open>0|[1-9]\d*\<close>, \<^verbatim>\<open>0|[1-9]\d*|\d*[a-zA-Z-][0-9a-zA-Z-]*\<close> and \<^verbatim>\<open>[0-9a-zA-Z-]+\<close>.\<close>

definition numeric_ident :: "string \<Rightarrow> bool" where
  "numeric_ident s \<longleftrightarrow> s \<noteq> [] \<and> list_all is_digit s \<and> (hd s = CHR ''0'' \<longrightarrow> s = ''0'')"

definition pre_ident :: "string \<Rightarrow> bool" where
  "pre_ident s \<longleftrightarrow> s \<noteq> [] \<and> list_all ident_char s \<and> (list_all is_digit s \<longrightarrow> numeric_ident s)"

definition build_ident :: "string \<Rightarrow> bool" where
  "build_ident s \<longleftrightarrow> s \<noteq> [] \<and> list_all ident_char s"

definition split_first :: "char \<Rightarrow> string \<Rightarrow> string \<times> string option" where
  "split_first c s =
     (takeWhile (\<lambda>d. d \<noteq> c) s,
      case dropWhile (\<lambda>d. d \<noteq> c) s of [] \<Rightarrow> None | _ # rest \<Rightarrow> Some rest)"

definition valid_version :: "string \<Rightarrow> bool" where
  "valid_version v =
     (let (main, build) = split_first (CHR ''+'') v; (core, pre) = split_first (CHR ''-'') main
      in length (split_on (CHR ''.'') core) = 3 \<and> list_all numeric_ident (split_on (CHR ''.'') core) \<and>
         (case pre of None \<Rightarrow> True | Some p \<Rightarrow> list_all pre_ident (split_on (CHR ''.'') p)) \<and>
         (case build of None \<Rightarrow> True | Some b \<Rightarrow> list_all build_ident (split_on (CHR ''.'') b)))"

definition idRegex :: "string \<Rightarrow> bool" where
  "idRegex s =
     (case split_first (CHR ''@'') s of
        (_, None) \<Rightarrow> False
      | (name, Some v) \<Rightarrow> name \<noteq> [] \<and> list_all name_char name \<and> valid_version v)"

section \<open>The info\<close>

datatype info_error = IdTooLong string | InvalidId string | InvalidType string

definition CapabilityType_IsValid :: "string \<Rightarrow> bool" where
  "CapabilityType_IsValid t \<longleftrightarrow> t \<in> {''trigger'', ''action'', ''consensus'', ''target''}"

record DON =
  donID :: "32 word"
  donConfigVersion :: "32 word"
  donMembers :: "bytes list"
  donF :: "8 word"
  donIsPublic :: bool
  donAcceptsWorkflows :: bool

record CapabilityInfo =
  ciID :: string
  ciCapabilityType :: string
  ciDescription :: string
  ciDON :: "DON option"
  ciIsLocal :: bool

definition idMaxLength :: nat where "idMaxLength = 128"

definition newCapabilityInfo ::
    "string \<Rightarrow> string \<Rightarrow> string \<Rightarrow> DON option \<Rightarrow> bool \<Rightarrow> (info_error, CapabilityInfo) go" where
  "newCapabilityInfo ident capabilityType description don isLocal =
     (if length ident > idMaxLength then Err (IdTooLong ident)
      else if \<not> idRegex ident then Err (InvalidId ident)
      else if \<not> CapabilityType_IsValid capabilityType then Err (InvalidType capabilityType)
      else Ok \<lparr>ciID = ident, ciCapabilityType = capabilityType, ciDescription = description,
               ciDON = don, ciIsLocal = isLocal\<rparr>)"

definition NewCapabilityInfo :: "string \<Rightarrow> string \<Rightarrow> string \<Rightarrow> (info_error, CapabilityInfo) go" where
  "NewCapabilityInfo ident capabilityType description = newCapabilityInfo ident capabilityType description None True"

definition NewRemoteCapabilityInfo ::
    "string \<Rightarrow> string \<Rightarrow> string \<Rightarrow> DON option \<Rightarrow> (info_error, CapabilityInfo) go" where
  "NewRemoteCapabilityInfo ident capabilityType description don =
     newCapabilityInfo ident capabilityType description don False"

definition MustNewCapabilityInfo :: "string \<Rightarrow> string \<Rightarrow> string \<Rightarrow> ('e, CapabilityInfo) go" where
  "MustNewCapabilityInfo ident capabilityType description =
     (case NewCapabilityInfo ident capabilityType description of Ok c \<Rightarrow> Ok c | _ \<Rightarrow> Panic)"

definition MustNewRemoteCapabilityInfo :: "string \<Rightarrow> string \<Rightarrow> string \<Rightarrow> DON option \<Rightarrow> ('e, CapabilityInfo) go" where
  "MustNewRemoteCapabilityInfo ident capabilityType description don =
     (case NewRemoteCapabilityInfo ident capabilityType description don of Ok c \<Rightarrow> Ok c | _ \<Rightarrow> Panic)"

text \<open>\<^verbatim>\<open>c.ID[strings.Index(c.ID, "@")+1:]\<close>: the whole id when there is no \<^verbatim>\<open>@\<close>.\<close>

definition Version :: "CapabilityInfo \<Rightarrow> string" where
  "Version c = (case split_first (CHR ''@'') (ciID c) of (_, None) \<Rightarrow> ciID c | (_, Some v) \<Rightarrow> v)"

section \<open>Ids and versions\<close>

lemma split_first_Some:
  "split_first c s = (a, Some b) \<Longrightarrow> s = a @ c # b \<and> c \<notin> set a"
proof -
  assume "split_first c s = (a, Some b)"
  then obtain d where a: "a = takeWhile (\<lambda>d. d \<noteq> c) s" and d: "dropWhile (\<lambda>d. d \<noteq> c) s = d # b"
    by (auto simp: split_first_def split: list.splits)
  have "d = c" using d by (simp add: dropWhile_eq_Cons_conv)
  with a d takeWhile_dropWhile_id [of "\<lambda>d. d \<noteq> c" s] show "s = a @ c # b \<and> c \<notin> set a"
    by (auto dest: set_takeWhileD)
qed

text \<open>The version of a capability that was constructed is the valid version after its name.\<close>

lemma constructed_version:
  assumes "newCapabilityInfo ident t d don loc = Ok c"
  shows "\<exists>name. ident = name @ CHR ''@'' # Version c \<and> list_all name_char name \<and> valid_version (Version c)"
proof -
  from assms have c: "ciID c = ident" and ok: "idRegex ident"
    by (auto simp: newCapabilityInfo_def split: if_splits)
  from ok obtain name v where s: "split_first (CHR ''@'') ident = (name, Some v)"
    and v: "list_all name_char name" "valid_version v"
    by (auto simp: idRegex_def split: prod.splits option.splits)
  with split_first_Some [OF s] show ?thesis by (auto simp: Version_def c)
qed

lemma id_examples:
  "idRegex ''streams-trigger@1.1.0''" "idRegex ''write:network_eth@1.0.0-rc.1+b7''"
  "\<not> idRegex ''streams@1.01.0''" "\<not> idRegex ''streams@1.0''" "\<not> idRegex ''Streams@1.0.0''" "\<not> idRegex ''x@1.0.0-01''"
  by code_simp+

end
