(* ===== verification/Validator.thy ===== *)
theory Validator
  imports CapabilityIds
begin

text \<open>
  Validation of a capability's configuration and inputs (\<^verbatim>\<open>pkg/capabilities/validate.go\<close>). A JSON
  schema is generated from a Go type once and kept in a cache; a value is unwrapped into the type,
  marshalled to JSON, read back, and checked against the compiled schema.

  Reflection of a Go type into a schema, compilation of a schema, \<^verbatim>\<open>encoding/json\<close> on the decoded
  struct, and the unwrapping of a map into a struct (\<^verbatim>\<open>mapstructure\<close>) depend on the type: they are the
  fields of the record \<open>schema_lib\<close>, one record for each type. \<open>'t\<close> is the type of decoded values,
  \<open>'s\<close> that of compiled schemas, \<open>'j\<close> that of JSON values.
\<close>

section \<open>Schemas\<close>

record ('d, 't, 's, 'j) schema_lib =
  slValidID :: "string \<Rightarrow> bool"
  slReflect :: "string \<Rightarrow> string \<Rightarrow> string option"
  slCompile :: "string \<Rightarrow> 's option"
  slDecode :: "(string \<times> 'd Value) list \<Rightarrow> 't option"
  slMarshal :: "'t \<Rightarrow> bytes option"
  slUnmarshal :: "bytes \<Rightarrow> 'j option"
  slAccepts :: "'s \<Rightarrow> 'j \<Rightarrow> bool"

datatype val_error =
    InvalidSchemaID | SchemaMarshal | CompileError | NilValue | DecodeFailed
  | JSONMarshal | JSONUnmarshal | SchemaViolation

type_synonym schemas = "(string, string) gomap"

definition uriPrefix :: string where
  "uriPrefix = ''https://github.com/smartcontractkit/chainlink/capabilities/''"

text \<open>The schema as it is generated when the cache has none.\<close>

definition generate_schema ::
    "('d, 't, 's, 'j) schema_lib \<Rightarrow> string \<Rightarrow> CapabilityInfo \<Rightarrow> (val_error, string) go" where
  "generate_schema S key info =
     (let idPath = (if ciID info = [] then uriPrefix @ key else uriPrefix @ ciID info @ ''/'' @ key)
      in if \<not> slValidID S idPath then Err InvalidSchemaID
         else case slReflect S idPath (ciDescription info) of
                None \<Rightarrow> Err SchemaMarshal
              | Some schemaBytes \<Rightarrow> Ok schemaBytes)"

definition schemaWith ::
    "('d, 't, 's, 'j) schema_lib \<Rightarrow> string \<Rightarrow> CapabilityInfo \<Rightarrow> schemas \<Rightarrow> (val_error, string) go \<times> schemas" where
  "schemaWith S key info schemaCache =
     (case map_of schemaCache key of
        Some schema \<Rightarrow> (Ok schema, schemaCache)
      | None \<Rightarrow>
          (case generate_schema S key info of
             Ok schema \<Rightarrow> (Ok schema, put key schema schemaCache)
           | r \<Rightarrow> (r, schemaCache)))"

section \<open>Validation\<close>

definition validateAgainstSchema ::
    "('d, 't, 's, 'j) schema_lib \<Rightarrow> (string \<times> 'd Value) list option \<Rightarrow> string \<Rightarrow> (val_error, 't) go" where
  "validateAgainstSchema S val schema =
     (case slCompile S schema of
        None \<Rightarrow> Err CompileError
      | Some jsonSchema \<Rightarrow>
     (case val of
        None \<Rightarrow> Err NilValue
      | Some m \<Rightarrow>
     (case slDecode S m of
        None \<Rightarrow> Err DecodeFailed
      | Some decodedValue \<Rightarrow>
     (case slMarshal S decodedValue of
        None \<Rightarrow> Err JSONMarshal
      | Some jsonValue \<Rightarrow>
     (case slUnmarshal S jsonValue of
        None \<Rightarrow> Err JSONUnmarshal
      | Some jsonRaw \<Rightarrow>
          if slAccepts S jsonSchema jsonRaw then Ok decodedValue else Err SchemaViolation)))))"

text \<open>
  \<^verbatim>\<open>ValidateConfig\<close>, \<^verbatim>\<open>ValidateInputs\<close> and \<^verbatim>\<open>ValidateOutputs\<close> differ in the type and in the key of the
  cache.
\<close>

definition validate_as ::
    "string \<Rightarrow> ('d, 't, 's, 'j) schema_lib \<Rightarrow> CapabilityInfo \<Rightarrow> schemas \<Rightarrow>
     (string \<times> 'd Value) list option \<Rightarrow> (val_error, 't) go \<times> schemas" where
  "validate_as key S info schemaCache val =
     (case schemaWith S key info schemaCache of (r, cache') \<Rightarrow>
        (go_bind r (validateAgainstSchema S val), cache'))"

definition ValidateConfig ::
    "('d, 't, 's, 'j) schema_lib \<Rightarrow> CapabilityInfo \<Rightarrow> schemas \<Rightarrow>
     (string \<times> 'd Value) list option \<Rightarrow> (val_error, 't) go \<times> schemas" where
  "ValidateConfig = validate_as ''config''"

definition ValidateInputs ::
    "('d, 't, 's, 'j) schema_lib \<Rightarrow> CapabilityInfo \<Rightarrow> schemas \<Rightarrow>
     (string \<times> 'd Value) list option \<Rightarrow> (val_error, 't) go \<times> schemas" where
  "ValidateInputs = validate_as ''inputs''"

definition ValidateOutputs ::
    "('d, 't, 's, 'j) schema_lib \<Rightarrow> CapabilityInfo \<Rightarrow> schemas \<Rightarrow>
     (string \<times> 'd Value) list option \<Rightarrow> (val_error, 't) go \<times> schemas" where
  "ValidateOutputs = validate_as ''outputs''"

section \<open>The cache is transparent\<close>

text \<open>
  The entry of a cache under a key is the schema that would be generated for it; validation with
  such a cache is validation without one.
\<close>

definition cached_schema ::
    "('d, 't, 's, 'j) schema_lib \<Rightarrow> string \<Rightarrow> CapabilityInfo \<Rightarrow> schemas \<Rightarrow> bool" where
  "cached_schema S key info c \<longleftrightarrow>
     (\<forall>schema. map_of c key = Some schema \<longrightarrow> generate_schema S key info = Ok schema)"

definition validates ::
    "string \<Rightarrow> ('d, 't, 's, 'j) schema_lib \<Rightarrow> CapabilityInfo \<Rightarrow> (string \<times> 'd Value) list option \<Rightarrow>
     (val_error, 't) go" where
  "validates key S info val = go_bind (generate_schema S key info) (validateAgainstSchema S val)"

lemma cached_schema_empty [simp]: "cached_schema S key info []"
  by (simp add: cached_schema_def)

lemma cached_schema_other [simp]:
  "k \<noteq> key \<Longrightarrow> cached_schema S key info c \<Longrightarrow> cached_schema S key info (put k v c)"
  by (simp add: cached_schema_def)

lemma schemaWith_cached:
  assumes "cached_schema S key info c"
  shows "fst (schemaWith S key info c) = generate_schema S key info"
    and "cached_schema S key info (snd (schemaWith S key info c))"
  using assms
  by (auto simp: cached_schema_def schemaWith_def split: option.splits go.splits)

lemma schemaWith_other:
  assumes "cached_schema S' k info c" and "k \<noteq> key"
  shows "cached_schema S' k info (snd (schemaWith S key info c))"
  using assms by (auto simp: schemaWith_def split: option.splits go.splits)

lemma validate_as_cached:
  assumes "cached_schema S key info c"
  shows "fst (validate_as key S info c val) = validates key S info val"
    and "cached_schema S key info (snd (validate_as key S info c val))"
  using schemaWith_cached [OF assms]
  by (simp_all add: validate_as_def validates_def case_prod_beta)

lemma validate_as_other:
  "cached_schema S' k info c \<Longrightarrow> k \<noteq> key \<Longrightarrow> cached_schema S' k info (snd (validate_as key S info c val))"
  using schemaWith_other [of S' k info c key S] by (simp add: validate_as_def case_prod_beta)

text \<open>A validated value is the decoded one, and the schema accepts its JSON form.\<close>

lemma validates_Ok:
  assumes "validates key S info val = Ok t"
  shows "\<exists>m schema s b j. val = Some m \<and> slDecode S m = Some t \<and> generate_schema S key info = Ok schema \<and>
    slCompile S schema = Some s \<and> slMarshal S t = Some b \<and> slUnmarshal S b = Some j \<and> slAccepts S s j"
proof -
  from assms obtain schema where "generate_schema S key info = Ok schema"
    and "validateAgainstSchema S val schema = Ok t"
    by (auto simp: validates_def go_simps)
  then show ?thesis
    by (auto simp: validateAgainstSchema_def split: option.splits if_splits)
qed

lemma validates_no_Panic [simp]: "validates key S info val \<noteq> Panic"
  by (auto simp: validates_def validateAgainstSchema_def generate_schema_def go_simps Let_def
      split: option.splits if_splits)

end
