(* ===== verification/Capability.thy ===== *)
theory Capability
  imports ReportingPlugin Validator
begin

text \<open>
  The consensus capability (\<^verbatim>\<open>pkg/capabilities/consensus/ocr3/capability.go\<close>, \<^verbatim>\<open>models.go\<close>,
  \<^verbatim>\<open>factory.go\<close>): registration of workflows, the calls of \<^verbatim>\<open>Execute\<close> that hand a request or a
  response to the handler, and the plugin factory's defaults.

  A call of \<^verbatim>\<open>Execute\<close> that starts a request blocks twice: until the handler's worker has received
  the request, and until the answer arrives on the callback channel it has made. So \<open>Execute\<close> is the
  part up to the first of these points, \<open>Execute_resume\<close> the part after the second, and \<open>sys_step\<close>
  interleaves any number of calls with each other, with registrations and with the worker: the
  channels \<^verbatim>\<open>requestCh\<close> and \<^verbatim>\<open>responseCh\<close> have no buffer, so a send on them and the worker's step that
  receives are one event. \<open>system_reachable\<close> are the states of all interleavings.

  The factories of aggregators and encoders are the caller's, the decoding of structs is
  \<^verbatim>\<open>mapstructure\<close>'s and the wire size \<^verbatim>\<open>proto.Size\<close>: they are the fields of \<open>cap_env\<close>.
\<close>

section \<open>Data\<close>

type_synonym 'd vmap = "(string \<times> 'd Value) list"

record 'd cap_config =
  cfgAggregationMethod :: string
  cfgAggregationConfig :: "'d vmap option"
  cfgEncoder :: string
  cfgEncoderConfig :: "'d vmap option"
  cfgReportID :: string
  cfgRequestTimeoutMS :: int64
  cfgKeyID :: string

record 'd cap_inputs =
  inObservations :: "'d Value list option"
  inEncoderName :: string
  inEncoderConfig :: "'d vmap option"

record RequestMetadata =
  rmWorkflowID :: string
  rmWorkflowOwner :: string
  rmWorkflowExecutionID :: string
  rmWorkflowName :: string
  rmWorkflowDonID :: uint32
  rmWorkflowDonConfigVersion :: uint32
  rmReferenceID :: string
  rmDecodedWorkflowName :: string

record 'd CapabilityRequest =
  rqMetadata :: RequestMetadata
  rqConfig :: "'d vmap option"
  rqInputs :: "'d vmap option"

record RegistrationMetadata =
  rgWorkflowID :: string
  rgWorkflowOwner :: string
  rgReferenceID :: string

record 'd RegisterToWorkflowRequest =
  rgMetadata :: RegistrationMetadata
  rgConfig :: "'d vmap option"

text \<open>A response with its metering detail: the number of bytes spent, if the call got that far.\<close>

record 'd CapabilityResponse =
  crValue :: "'d vmap option"
  crSpendValue :: "nat option"

datatype cap_error =
    Invalid val_error | AggregatorFactoryError | EncoderFactoryError | UnknownMethod string
  | ResponseInputs verr | ContextError | ResponseError response_error
  | NoAggregator string | NoEncoder string

record 'd exec_inputs =
  exMethod :: string
  exTransmission :: "(string \<times> 'd any) list option"
  exTerminate :: bool

record ('d, 's, 'j) cap_env =
  configLib :: "('d, 'd cap_config, 's, 'j) schema_lib"
  inputsLib :: "('d, 'd cap_inputs, 's, 'j) schema_lib"
  aggregatorFactory :: "string \<Rightarrow> 'd vmap \<Rightarrow> 'd aggregator option"
  encoderFactory :: "string \<Rightarrow> 'd vmap option \<Rightarrow> 'd encoder option"
  unwrapMethod :: "'d exec_inputs \<Rightarrow> 'd vmap \<Rightarrow> 'd exec_inputs"
  protoSize :: "pbValue \<Rightarrow> nat"
  valueLib :: "'d vlib"

record 'd capability =
  requestTimeout :: int
  aggregators :: "(string, 'd aggregator) gomap"
  encoders :: "(string, 'd encoder) gomap"
  callbackChannelBufferSize :: int
  registeredWorkflowsIDs :: "(string, bool) gomap"
  schemaCache :: schemas
  reqHandler :: "'d Handler"

section \<open>Registration\<close>

definition methodStartRequest :: string where "methodStartRequest = ''start_request''"
definition methodSendResponse :: string where "methodSendResponse = ''send_response''"
definition ocrCapabilityID :: string where "ocrCapabilityID = ''offchain_reporting@1.0.0''"

definition cap_info :: CapabilityInfo where
  "cap_info = \<lparr>ciID = ocrCapabilityID, ciCapabilityType = ''consensus'',
     ciDescription = ''OCR3 consensus exposed as a capability.'', ciDON = None, ciIsLocal = True\<rparr>"

lemma cap_info_constructed:
  "MustNewCapabilityInfo ocrCapabilityID ''consensus'' ''OCR3 consensus exposed as a capability.'' =
     (Ok cap_info :: (info_error, CapabilityInfo) go)"
  by code_simp

definition NewCapability :: "'d Store \<Rightarrow> int \<Rightarrow> int \<Rightarrow> 'd capability" where
  "NewCapability s timeout bufferSize =
     \<lparr>requestTimeout = timeout, aggregators = [], encoders = [],
      callbackChannelBufferSize = bufferSize, registeredWorkflowsIDs = [], schemaCache = [],
      reqHandler = NewHandler s timeout\<rparr>"

text \<open>
  A failed registration keeps what was written before the failure; a nil aggregation configuration
  is dereferenced.
\<close>

definition RegisterToWorkflow ::
    "('d, 's, 'j) cap_env \<Rightarrow> 'd RegisterToWorkflowRequest \<Rightarrow> 'd capability \<Rightarrow>
     (cap_error, unit) go \<times> 'd capability" where
  "RegisterToWorkflow E request o0 =
     (case ValidateConfig (configLib E) cap_info (schemaCache o0) (rgConfig request) of
        (r, cache) \<Rightarrow>
     (let o1 = o0\<lparr>schemaCache := cache\<rparr>; wid = rgWorkflowID (rgMetadata request) in
      case r of
        Panic \<Rightarrow> (Panic, o1)
      | Err e \<Rightarrow> (Err (Invalid e), o1)
      | Ok c \<Rightarrow>
     (case cfgAggregationConfig c of
        None \<Rightarrow> (Panic, o1)
      | Some ac \<Rightarrow>
     (case aggregatorFactory E (cfgAggregationMethod c) ac of
        None \<Rightarrow> (Err AggregatorFactoryError, o1)
      | Some agg \<Rightarrow>
     (let o2 = o1\<lparr>aggregators := put wid agg (aggregators o1)\<rparr> in
      case encoderFactory E (cfgEncoder c) (cfgEncoderConfig c) of
        None \<Rightarrow> (Err EncoderFactoryError, o2)
      | Some enc \<Rightarrow>
          (Ok (), o2\<lparr>encoders := put wid enc (encoders o2),
                     registeredWorkflowsIDs := put wid True (registeredWorkflowsIDs o2)\<rparr>))))))"

definition GetAggregator :: "'d capability \<Rightarrow> string \<Rightarrow> (cap_error, 'd aggregator) go" where
  "GetAggregator o0 workflowID =
     (case map_of (aggregators o0) workflowID of
        None \<Rightarrow> Err (NoAggregator workflowID) | Some agg \<Rightarrow> Ok agg)"

definition GetEncoderByWorkflowID :: "'d capability \<Rightarrow> string \<Rightarrow> (cap_error, 'd encoder) go" where
  "GetEncoderByWorkflowID o0 workflowID =
     (case map_of (encoders o0) workflowID of
        None \<Rightarrow> Err (NoEncoder workflowID) | Some enc \<Rightarrow> Ok enc)"

definition GetEncoderByName ::
    "('d, 's, 'j) cap_env \<Rightarrow> string \<Rightarrow> 'd vmap option \<Rightarrow> (cap_error, 'd encoder) go" where
  "GetEncoderByName E encoderName cfg =
     (case encoderFactory E encoderName cfg of None \<Rightarrow> Err EncoderFactoryError | Some enc \<Rightarrow> Ok enc)"

definition GetRegisteredWorkflowsIDs ::
    "((string \<times> bool) list \<Rightarrow> (string \<times> bool) list) \<Rightarrow> 'd capability \<Rightarrow> string list" where
  "GetRegisteredWorkflowsIDs it o0 = map fst (it (registeredWorkflowsIDs o0))"

definition UnregisterWorkflowID :: "string \<Rightarrow> 'd capability \<Rightarrow> 'd capability" where
  "UnregisterWorkflowID workflowID o0 =
     o0\<lparr>registeredWorkflowsIDs := del workflowID (registeredWorkflowsIDs o0)\<rparr>"

definition UnregisterFromWorkflow :: "RegistrationMetadata \<Rightarrow> 'd capability \<Rightarrow> 'd capability" where
  "UnregisterFromWorkflow meta o0 =
     o0\<lparr>registeredWorkflowsIDs := del (rgWorkflowID meta) (registeredWorkflowsIDs o0),
        aggregators := del (rgWorkflowID meta) (aggregators o0),
        encoders := del (rgWorkflowID meta) (encoders o0)\<rparr>"

definition setRequestTimeout :: "int \<Rightarrow> 'd capability \<Rightarrow> 'd capability" where
  "setRequestTimeout timeout o0 = o0\<lparr>requestTimeout := timeout\<rparr>"

section \<open>Execution\<close>

definition byteSizeOfMap :: "('d, 's, 'j) cap_env \<Rightarrow> 'd vmap option \<Rightarrow> nat" where
  "byteSizeOfMap E m =
     (case m of None \<Rightarrow> 0 | Some fs \<Rightarrow> protoSize E (Proto (valueLib E) (VMap fs)))"

text \<open>
  The request that is queued, with two channels that have just been made. A duration is an \<^verbatim>\<open>int64\<close>
  of nanoseconds; making a channel with a negative buffer panics.
\<close>

definition queueRequestForProcessing ::
    "time \<Rightarrow> nat \<Rightarrow> RequestMetadata \<Rightarrow> 'd cap_inputs \<Rightarrow> 'd cap_config \<Rightarrow> 'd capability \<Rightarrow>
     (cap_error, 'd Request) go" where
  "queueRequestForProcessing now ch metadata i c o0 =
     (if callbackChannelBufferSize o0 < 0 then Panic
      else let timeout = (if cfgRequestTimeoutMS c \<noteq> 0
                          then wrap64 (sint (cfgRequestTimeoutMS c) * 1000000)
                          else requestTimeout o0)
           in Ok \<lparr>Observations = inObservations i, OverriddenEncoderName = inEncoderName i,
                  OverriddenEncoderConfig = inEncoderConfig i, ExpiresAt = now + timeout,
                  CallbackCh = ch, StopCh = Suc ch,
                  WorkflowExecutionID = rmWorkflowExecutionID metadata,
                  WorkflowID = rmWorkflowID metadata, WorkflowOwner = rmWorkflowOwner metadata,
                  WorkflowName = rmWorkflowName metadata, WorkflowDonID = rmWorkflowDonID metadata,
                  WorkflowDonConfigVersion = rmWorkflowDonConfigVersion metadata,
                  ReportID = cfgReportID c, KeyID = cfgKeyID c\<rparr>)"

text \<open>
  Where a call of \<^verbatim>\<open>Execute\<close> first blocks, or what it returns if it does not block. Go returns a
  response and an error together.
\<close>

type_synonym 'd exec_result = "'d CapabilityResponse \<times> cap_error option"

datatype 'd exec_point =
    Returns "'d exec_result"
  | SendsResponse "'d Response"
  | SendsRequest "'d Request" nat
  | Panics

definition no_response :: "'d CapabilityResponse" where
  "no_response = \<lparr>crValue = None, crSpendValue = None\<rparr>"

definition exec_inputs_of :: "('d, 's, 'j) cap_env \<Rightarrow> 'd vmap option \<Rightarrow> 'd exec_inputs" where
  "exec_inputs_of E inputs =
     (let m = \<lparr>exMethod = methodStartRequest, exTransmission = None, exTerminate = False\<rparr>
      in case inputs of None \<Rightarrow> m | Some im \<Rightarrow> unwrapMethod E m im)"

definition send_response_point :: "RequestMetadata \<Rightarrow> 'd exec_inputs \<Rightarrow> 'd exec_point" where
  "send_response_point metadata m =
     (case NewMap (case exTransmission m of None \<Rightarrow> [] | Some t \<Rightarrow> t) of
        Panic \<Rightarrow> Panics
      | Err e \<Rightarrow> Returns (no_response, Some (ResponseInputs e))
      | Ok inputs \<Rightarrow>
          SendsResponse \<lparr>rsWorkflowExecutionID = rmWorkflowExecutionID metadata, rsValue = Some inputs,
            rsErr = (if exTerminate m then Some ErrStopExecution else None)\<rparr>)"

definition start_request_point ::
    "('d, 's, 'j) cap_env \<Rightarrow> time \<Rightarrow> nat \<Rightarrow> 'd CapabilityRequest \<Rightarrow> 'd capability \<Rightarrow>
     'd exec_point \<times> 'd capability" where
  "start_request_point E now ch r o0 =
     (case ValidateInputs (inputsLib E) cap_info (schemaCache o0) (rqInputs r) of (ri, cache1) \<Rightarrow>
     (let o1 = o0\<lparr>schemaCache := cache1\<rparr> in
      case ri of
        Panic \<Rightarrow> (Panics, o1)
      | Err e \<Rightarrow> (Returns (no_response, Some (Invalid e)), o1)
      | Ok inputs \<Rightarrow>
     (case ValidateConfig (configLib E) cap_info (schemaCache o1) (rqConfig r) of (rc, cache2) \<Rightarrow>
     (let o2 = o1\<lparr>schemaCache := cache2\<rparr> in
      case rc of
        Panic \<Rightarrow> (Panics, o2)
      | Err e \<Rightarrow> (Returns (no_response, Some (Invalid e)), o2)
      | Ok config \<Rightarrow>
          (case queueRequestForProcessing now ch (rqMetadata r) inputs config o2 of
             Panic \<Rightarrow> (Panics, o2)
           | Err e \<Rightarrow> (Returns (no_response, Some e), o2)
           | Ok req \<Rightarrow> (SendsRequest req (byteSizeOfMap E (rqInputs r)), o2))))))"

definition Execute ::
    "('d, 's, 'j) cap_env \<Rightarrow> time \<Rightarrow> nat \<Rightarrow> 'd CapabilityRequest \<Rightarrow> 'd capability \<Rightarrow>
     'd exec_point \<times> 'd capability" where
  "Execute E now ch r o0 =
     (let m = exec_inputs_of E (rqInputs r) in
      if exMethod m = methodSendResponse then (send_response_point (rqMetadata r) m, o0)
      else if exMethod m = methodStartRequest then start_request_point E now ch r o0
      else (Returns (no_response, Some (UnknownMethod (exMethod m))), o0))"

text \<open>
  The end of a call that waits: the context is done, or the channel yields a response, which is
  returned with its error and with what the request and the response weigh.
\<close>

definition Execute_resume :: "('d, 's, 'j) cap_env \<Rightarrow> nat \<Rightarrow> 'd Response option \<Rightarrow> 'd exec_result" where
  "Execute_resume E inputLenBytes resp =
     (case resp of
        None \<Rightarrow> (no_response, Some ContextError)
      | Some rs \<Rightarrow>
          (\<lparr>crValue = rsValue rs, crSpendValue = Some (inputLenBytes + byteSizeOfMap E (rsValue rs))\<rparr>,
           map_option ResponseError (rsErr rs)))"

section \<open>The plugin factory\<close>

record pbDuration =
  durSeconds :: int64
  durNanos :: "32 word"

record ReportingPluginConfig =
  rpcMaxQueryLengthBytes :: uint32
  rpcMaxObservationLengthBytes :: uint32
  rpcMaxOutcomeLengthBytes :: uint32
  rpcMaxReportLengthBytes :: uint32
  rpcMaxReportCount :: uint32
  rpcMaxBatchSize :: uint32
  rpcOutcomePruningThreshold :: uint64
  rpcRequestTimeout :: "pbDuration option"

record ReportingPluginLimits =
  MaxQueryLength :: int
  MaxObservationLength :: int
  MaxOutcomeLength :: int
  MaxReportLength :: int
  MaxReportCount :: int

record plugin_settings =
  psBatchSize :: int
  psOutcomePruningThreshold :: uint64
  psLimits :: ReportingPluginLimits

definition defaultMaxPhaseOutputBytes :: uint32 where "defaultMaxPhaseOutputBytes = 1000000"
definition defaultMaxReportCount :: uint32 where "defaultMaxReportCount = 20"
definition defaultBatchSize :: uint32 where "defaultBatchSize = 20"
definition defaultOutcomePruningThreshold :: uint64 where "defaultOutcomePruningThreshold = 3600"
definition defaultRequestExpiry :: int where "defaultRequestExpiry = 20 * 1000000000"
definition defaultSendBufferSize :: int where "defaultSendBufferSize = 10"

text \<open>An unsigned field that is not positive is zero, and gets its default.\<close>

definition or_default :: "'n::len word \<Rightarrow> 'n word \<Rightarrow> 'n word" where
  "or_default v d = (if v \<le> 0 then d else v)"

definition with_defaults :: "(int \<Rightarrow> pbDuration) \<Rightarrow> ReportingPluginConfig \<Rightarrow> ReportingPluginConfig" where
  "with_defaults durationNew c =
     \<lparr>rpcMaxQueryLengthBytes = or_default (rpcMaxQueryLengthBytes c) defaultMaxPhaseOutputBytes,
      rpcMaxObservationLengthBytes = or_default (rpcMaxObservationLengthBytes c) defaultMaxPhaseOutputBytes,
      rpcMaxOutcomeLengthBytes = or_default (rpcMaxOutcomeLengthBytes c) defaultMaxPhaseOutputBytes,
      rpcMaxReportLengthBytes = or_default (rpcMaxReportLengthBytes c) defaultMaxPhaseOutputBytes,
      rpcMaxReportCount = or_default (rpcMaxReportCount c) defaultMaxReportCount,
      rpcMaxBatchSize = or_default (rpcMaxBatchSize c) defaultBatchSize,
      rpcOutcomePruningThreshold =
        or_default (rpcOutcomePruningThreshold c) defaultOutcomePruningThreshold,
      rpcRequestTimeout =
        (case rpcRequestTimeout c of
           None \<Rightarrow> Some (durationNew defaultRequestExpiry) | Some d \<Rightarrow> Some d)\<rparr>"

definition factory_NewReportingPlugin ::
    "(bytes \<Rightarrow> ReportingPluginConfig option) \<Rightarrow> (int \<Rightarrow> pbDuration) \<Rightarrow> (pbDuration \<Rightarrow> int) \<Rightarrow> bytes \<Rightarrow>
     'd capability \<Rightarrow> (unit, plugin_settings) go \<times> 'd capability" where
  "factory_NewReportingPlugin unmarshalConfig durationNew asDuration offchainConfig o0 =
     (case unmarshalConfig offchainConfig of
        None \<Rightarrow> (Err (), o0)
      | Some c0 \<Rightarrow>
     (let c = with_defaults durationNew c0 in
      (Ok \<lparr>psBatchSize = uint (rpcMaxBatchSize c),
           psOutcomePruningThreshold = rpcOutcomePruningThreshold c,
           psLimits = \<lparr>MaxQueryLength = uint (rpcMaxQueryLengthBytes c),
                       MaxObservationLength = uint (rpcMaxObservationLengthBytes c),
                       MaxOutcomeLength = uint (rpcMaxOutcomeLengthBytes c),
                       MaxReportLength = uint (rpcMaxReportLengthBytes c),
                       MaxReportCount = uint (rpcMaxReportCount c)\<rparr>\<rparr>,
       setRequestTimeout (case rpcRequestTimeout c of None \<Rightarrow> 0 | Some d \<Rightarrow> asDuration d) o0)))"

text \<open>\<^verbatim>\<open>NewOCR3\<close> with a capability of its own: the timeout and the buffer get their defaults.\<close>

definition NewOCR3_capability :: "int option \<Rightarrow> int \<Rightarrow> 'd capability" where
  "NewOCR3_capability timeout sendBufferSize =
     NewCapability NewStore (case timeout of None \<Rightarrow> defaultRequestExpiry | Some t \<Rightarrow> t)
       (if sendBufferSize = 0 then defaultSendBufferSize else sendBufferSize)"

section \<open>All calls together\<close>

text \<open>
  The state of a node: the capability with its handler, the number of channels made, the calls that
  wait for an answer with the size of their inputs, and the history: the requests that were made,
  those that the worker received, the responses it received, and what calls returned.
\<close>

record 'd system =
  sysCap :: "'d capability"
  nextCh :: nat
  waiting :: "('d Request \<times> nat) list"
  issued :: "'d Request list"
  accepted :: "'d Request list"
  sentResponses :: "'d Response list"
  answered :: "('d Request \<times> 'd exec_result) list"

datatype 'd sys_event =
    RegisterCall "'d RegisterToWorkflowRequest"
  | UnregisterCall RegistrationMetadata
  | UnregisterIDCall string
  | SetTimeout int
  | Call time "'d CapabilityRequest" bool bool
  | ExpiryTick time "string \<Rightarrow> bool"
  | CleanupTick time
  | CallCancelled nat
  | CallReceives nat

definition sys_cap :: "('d capability \<Rightarrow> 'd capability) \<Rightarrow> 'd system \<Rightarrow> 'd system" where
  "sys_cap f s = s\<lparr>sysCap := f (sysCap s)\<rparr>"

definition sys_handler :: "'d system \<Rightarrow> 'd Handler" where
  "sys_handler s = reqHandler (sysCap s)"

definition sys_worker ::
    "((string \<times> 'd Request) list \<Rightarrow> (string \<times> 'd Request) list) \<Rightarrow> 'd handler_event \<Rightarrow> 'd system \<Rightarrow>
     (unit, 'd system) go" where
  "sys_worker it ev s =
     go_map (\<lambda>h. s\<lparr>sysCap := (sysCap s)\<lparr>reqHandler := h\<rparr>\<rparr>) (worker_step it (sys_handler s) ev)"

text \<open>
  A call: \<open>ctxDone\<close> says that the context ended before the worker received, \<open>stopped\<close> that the
  worker's own context did while it answered.
\<close>

definition sys_call ::
    "('d, 's, 'j) cap_env \<Rightarrow> ((string \<times> 'd Request) list \<Rightarrow> (string \<times> 'd Request) list) \<Rightarrow> time \<Rightarrow>
     'd CapabilityRequest \<Rightarrow> bool \<Rightarrow> bool \<Rightarrow> 'd system \<Rightarrow> (unit, 'd system) go" where
  "sys_call E it now r ctxDone stopped s =
     (case Execute E now (nextCh s) r (sysCap s) of (point, o1) \<Rightarrow>
     (let s1 = s\<lparr>sysCap := o1\<rparr> in
      case point of
        Panics \<Rightarrow> Panic
      | Returns _ \<Rightarrow> Ok s1
      | SendsResponse resp \<Rightarrow>
          if ctxDone then Ok s1
          else sys_worker it (ResponseIn resp now stopped)
                 (s1\<lparr>sentResponses := resp # sentResponses s\<rparr>)
      | SendsRequest req len \<Rightarrow>
          (let s2 = s1\<lparr>nextCh := nextCh s + 2, waiting := (req, len) # waiting s,
                       issued := req # issued s\<rparr>
           in if ctxDone then Ok s2
              else sys_worker it (RequestIn req stopped) (s2\<lparr>accepted := req # accepted s\<rparr>))))"

text \<open>
  The end of the waiting call with the callback channel \<open>ch\<close>; nothing happens as long as there is
  no message for it.
\<close>

definition sys_return ::
    "('d, 's, 'j) cap_env \<Rightarrow> nat \<Rightarrow> 'd Response option \<Rightarrow> 'd system \<Rightarrow> 'd system" where
  "sys_return E ch resp s =
     (case find (\<lambda>(req, len). CallbackCh req = ch) (waiting s) of
        None \<Rightarrow> s
      | Some (req, len) \<Rightarrow>
          s\<lparr>waiting := filter (\<lambda>(q, _). CallbackCh q \<noteq> ch) (waiting s),
            answered := (req, Execute_resume E len resp) # answered s\<rparr>)"

fun sys_step ::
    "('d, 's, 'j) cap_env \<Rightarrow> ((string \<times> 'd Request) list \<Rightarrow> (string \<times> 'd Request) list) \<Rightarrow>
     'd system \<Rightarrow> 'd sys_event \<Rightarrow> (unit, 'd system) go" where
  "sys_step E it s (RegisterCall request) =
     (case RegisterToWorkflow E request (sysCap s) of
        (Panic, _) \<Rightarrow> Panic | (_, o1) \<Rightarrow> Ok (s\<lparr>sysCap := o1\<rparr>))"
| "sys_step E it s (UnregisterCall meta) = Ok (sys_cap (UnregisterFromWorkflow meta) s)"
| "sys_step E it s (UnregisterIDCall wid) = Ok (sys_cap (UnregisterWorkflowID wid) s)"
| "sys_step E it s (SetTimeout t) = Ok (sys_cap (setRequestTimeout t) s)"
| "sys_step E it s (Call now r ctxDone stopped) = sys_call E it now r ctxDone stopped s"
| "sys_step E it s (ExpiryTick now stopped) = sys_worker it (PendingTick now stopped) s"
| "sys_step E it s (CleanupTick now) = sys_worker it (CacheTick now) s"
| "sys_step E it s (CallCancelled ch) = Ok (sys_return E ch None s)"
| "sys_step E it s (CallReceives ch) =
     (case find (\<lambda>(req, resp). CallbackCh req = ch) (delivered (sys_handler s)) of
        None \<Rightarrow> Ok s
      | Some (req, resp) \<Rightarrow> Ok (sys_return E ch (Some resp) s))"

definition sys_start :: "int option \<Rightarrow> int \<Rightarrow> 'd system" where
  "sys_start timeout sendBufferSize =
     \<lparr>sysCap = NewOCR3_capability timeout sendBufferSize, nextCh = 0, waiting = [], issued = [],
      accepted = [], sentResponses = [], answered = []\<rparr>"

inductive system_reachable :: "('d, 's, 'j) cap_env \<Rightarrow> 'd system \<Rightarrow> bool" for E where
  start: "0 \<le> sendBufferSize \<Longrightarrow> system_reachable E (sys_start timeout sendBufferSize)"
| step: "system_reachable E s \<Longrightarrow> iteration_order it \<Longrightarrow> sys_step E it s ev = Ok s' \<Longrightarrow>
     system_reachable E s'"

section \<open>What a step of the worker adds\<close>

text \<open>
  \<open>grows R S h h'\<close>: between the two states the handler has met no request but those of \<open>R\<close> and no
  response but those of \<open>S\<close>, it has answered requests it knew with responses it knew or with a
  timeout, and a pending request is gone only if one with its id was answered or came in.
\<close>

definition cached_responses :: "'d Handler \<Rightarrow> 'd Response set" where
  "cached_responses h = (\<lambda>(_, e). response e) ` set (responseCache h)"

definition grows :: "'d Request set \<Rightarrow> 'd Response set \<Rightarrow> 'd Handler \<Rightarrow> 'd Handler \<Rightarrow> bool" where
  "grows R S h h' \<longleftrightarrow>
     known_requests h' \<subseteq> known_requests h \<union> R \<and>
     cached_responses h' \<subseteq> cached_responses h \<union> S \<and>
     (\<exists>new. delivered h' = delivered h @ new \<and>
        (\<forall>(r, resp) \<in> set new. r \<in> known_requests h \<union> R \<and>
           (resp \<in> cached_responses h \<union> S \<or> resp = timeoutResponse r)) \<and>
        (\<forall>e \<in> set (pendingRequests h). e \<in> set (pendingRequests h') \<or>
           fst e \<in> (\<lambda>(r, _). WorkflowExecutionID r) ` set new \<or> fst e \<in> WorkflowExecutionID ` R))"

lemma grows_refl [simp]: "grows R S h h"
  by (simp add: grows_def)

lemma grows_trans:
  assumes "grows R S h h1" and "grows R S h1 h2"
  shows "grows R S h h2"
proof -
  obtain new1 where 1: "known_requests h1 \<subseteq> known_requests h \<union> R" "cached_responses h1 \<subseteq> cached_responses h \<union> S"
    "delivered h1 = delivered h @ new1"
    "\<forall>(r, resp) \<in> set new1. r \<in> known_requests h \<union> R \<and> (resp \<in> cached_responses h \<union> S \<or> resp = timeoutResponse r)"
    "\<forall>e \<in> set (pendingRequests h). e \<in> set (pendingRequests h1) \<or>
       fst e \<in> (\<lambda>(r, _). WorkflowExecutionID r) ` set new1 \<or> fst e \<in> WorkflowExecutionID ` R"
    using assms(1) unfolding grows_def by blast
  obtain new2 where 2: "known_requests h2 \<subseteq> known_requests h1 \<union> R" "cached_responses h2 \<subseteq> cached_responses h1 \<union> S"
    "delivered h2 = delivered h1 @ new2"
    "\<forall>(r, resp) \<in> set new2. r \<in> known_requests h1 \<union> R \<and> (resp \<in> cached_responses h1 \<union> S \<or> resp = timeoutResponse r)"
    "\<forall>e \<in> set (pendingRequests h1). e \<in> set (pendingRequests h2) \<or>
       fst e \<in> (\<lambda>(r, _). WorkflowExecutionID r) ` set new2 \<or> fst e \<in> WorkflowExecutionID ` R"
    using assms(2) unfolding grows_def by blast
  show ?thesis
    unfolding grows_def
  proof (intro conjI exI)
    show "delivered h2 = delivered h @ (new1 @ new2)" using 1(3) 2(3) by simp
    show "\<forall>(r, resp) \<in> set (new1 @ new2). r \<in> known_requests h \<union> R \<and>
        (resp \<in> cached_responses h \<union> S \<or> resp = timeoutResponse r)"
      using 1(1,2,4) 2(4) by fastforce
    show "\<forall>e \<in> set (pendingRequests h). e \<in> set (pendingRequests h2) \<or>
       fst e \<in> (\<lambda>(r, _). WorkflowExecutionID r) ` set (new1 @ new2) \<or> fst e \<in> WorkflowExecutionID ` R"
      using 1(5) 2(5) by (simp only: set_append image_Un) blast
  qed (use 1(1,2) 2(1,2) in blast)+
qed

text \<open>
  Every answer goes through \<^verbatim>\<open>sendResponse\<close>, from a state \<open>h1\<close> that may differ from the state \<open>h\<close> at the
  beginning of the step in its store, its cache and its pending requests.
\<close>

lemma sendResponse_grows:
  assumes send: "sendResponse c req resp h1 = Ok h'"
    and known: "known_requests h1 \<subseteq> known_requests h \<union> R" and cached: "cached_responses h1 \<subseteq> cached_responses h \<union> S"
    and log: "delivered h1 = delivered h"
    and pend: "\<forall>e \<in> set (pendingRequests h). e \<in> set (pendingRequests h1) \<or> fst e \<in> WorkflowExecutionID ` R"
    and req: "req \<in> known_requests h \<union> R" and resp: "resp \<in> cached_responses h \<union> S \<or> resp = timeoutResponse req"
  shows "grows R S h h'"
proof (cases c)
  case True
  with send have "h' = h1" by (simp add: sendResponse_def)
  with known cached log pend show ?thesis unfolding grows_def by simp
next
  case False
  with send have h': "h' = h1\<lparr>delivered := delivered h1 @ [(req, resp)],
      closedChs := CallbackCh req # closedChs h1,
      pendingRequests := del (WorkflowExecutionID req) (pendingRequests h1)\<rparr>"
    by (simp add: sendResponse_def split: if_splits)
  show ?thesis
    unfolding grows_def
  proof (intro conjI exI [of _ "[(req, resp)]"])
    have "known_requests h' \<subseteq> known_requests h1"
      by (auto simp: h' known_requests_def set_del)
    with known show "known_requests h' \<subseteq> known_requests h \<union> R" by blast
    have "cached_responses h' = cached_responses h1"
      by (simp add: h' cached_responses_def)
    with cached show "cached_responses h' \<subseteq> cached_responses h \<union> S" by simp
    show "\<forall>e \<in> set (pendingRequests h). e \<in> set (pendingRequests h') \<or>
       fst e \<in> (\<lambda>(r, _). WorkflowExecutionID r) ` set [(req, resp)] \<or> fst e \<in> WorkflowExecutionID ` R"
      using pend by (auto simp: h' set_del)
  qed (use log req resp in \<open>simp_all add: h'\<close>)
qed

lemma evict_known: "evict k (hstore h) = (ro, found, s') \<Longrightarrow> known_requests (h\<lparr>hstore := s'\<rparr>) \<subseteq> known_requests h"
  by (auto simp: evict_def Let_def known_requests_def set_del split: option.splits)

lemma cached_responses_frame [simp]: "cached_responses (h\<lparr>hstore := s\<rparr>) = cached_responses h"
  "cached_responses (h\<lparr>pendingRequests := p\<rparr>) = cached_responses h"
  by (simp_all add: cached_responses_def)

lemma known_pending: "(k, r) \<in> set (pendingRequests h) \<Longrightarrow> r \<in> known_requests h"
  by (force simp: known_requests_def)

lemma expire_one_grows:
  assumes "expire_one now c h (k, req) = Ok h'" and "(k, req) \<in> set (pendingRequests h)"
  shows "grows {} {} h h'"
proof (cases "now > ExpiresAt req")
  case True
  obtain ro found s' where ev: "evict (WorkflowExecutionID req) (hstore h) = (ro, found, s')"
    by (metis prod_cases3)
  with True assms(1) have "sendResponse (c k) req (timeoutResponse req) (h\<lparr>hstore := s'\<rparr>) = Ok h'"
    by (simp add: expire_one_def)
  then show ?thesis
    by (rule sendResponse_grows) (use evict_known [OF ev] known_pending [OF assms(2)] in simp_all)
qed (use assms(1) in \<open>simp add: expire_one_def\<close>)

lemma expire_all_grows:
  assumes "handler_inv h" and "set xs \<subseteq> set (pendingRequests h)" and "gomap_wf xs"
    and "go_foldM (expire_one now c) h xs = Ok h'"
  shows "grows {} {} h h'"
  using assms
proof (induction xs arbitrary: h)
  case (Cons e xs)
  obtain k req where e: "e = (k, req)" by (cases e)
  with Cons.prems have pend: "(k, req) \<in> set (pendingRequests h)" by simp
  from expire_one_spec [OF Cons.prems(1) pend, of now c] obtain h1 where h1:
    "expire_one now c h (k, req) = Ok h1" "handler_inv h1"
    "pendingRequests h1 = del k (pendingRequests h) \<or> pendingRequests h1 = pendingRequests h"
    by (auto split: if_splits)
  have "set xs \<subseteq> set (pendingRequests h1)"
    using Cons.prems(2,3) h1(3) e by (force simp: set_del)
  with Cons.IH [OF h1(2)] Cons.prems(3,4) e h1(1) have "grows {} {} h1 h'" by simp
  with expire_one_grows [OF h1(1) pend] show ?case by (rule grows_trans)
qed simp

lemma handle_request_grows:
  assumes "handler_inv h" and "handle_request c req h = Ok h'"
  shows "grows {req} {} h h'"
proof -
  let ?k = "WorkflowExecutionID req"
  let ?h1 = "h\<lparr>pendingRequests := put ?k req (pendingRequests h)\<rparr>"
  let ?h2 = "?h1\<lparr>responseCache := del ?k (responseCache h)\<rparr>"
  have wf: "gomap_wf (pendingRequests h)" "gomap_wf (requests (hstore h))"
    using assms(1) by (simp_all add: handler_inv_def maps_inv_def store_wf_def)
  have known: "known_requests ?h1 \<subseteq> known_requests h \<union> {req}"
    using wf(1) by (auto simp: known_requests_def set_put)
  have pend: "\<forall>e \<in> set (pendingRequests h). e \<in> set (pendingRequests ?h1) \<or> fst e \<in> WorkflowExecutionID ` {req}"
    using wf(1) by (auto simp: set_put)
  show ?thesis
  proof (cases "map_of (responseCache h) ?k")
    case None
    with assms(2) have h': "h' = ?h1\<lparr>hstore := hstore h'\<rparr>" and s': "requests (hstore h') = requests (hstore h) \<or>
        requests (hstore h') = put ?k req (requests (hstore h))"
      by (auto simp: handle_request_def Add_def split: option.splits)
    have "known_requests (?h1\<lparr>hstore := hstore h'\<rparr>) \<subseteq> known_requests h \<union> {req}"
    proof
      fix q assume "q \<in> known_requests (?h1\<lparr>hstore := hstore h'\<rparr>)"
      then consider "q \<in> snd ` set (requests (hstore h'))" | "q \<in> snd ` set (pendingRequests ?h1)"
        by (auto simp: known_requests_def)
      then show "q \<in> known_requests h \<union> {req}"
      proof cases
        case 1
        from s' have "q \<in> insert req (snd ` set (requests (hstore h)))"
        proof
          assume eq: "requests (hstore h') = put ?k req (requests (hstore h))"
          show ?thesis by (rule subsetD [OF snd_set_put [OF wf(2)] 1 [unfolded eq]])
        qed (use 1 in simp)
        then show ?thesis by (auto simp: known_requests_def)
      next
        case 2
        then have "q \<in> known_requests ?h1" by (simp add: known_requests_def)
        with known show ?thesis by (rule subsetD)
      qed
    qed
    then have "grows {req} {} h (?h1\<lparr>hstore := hstore h'\<rparr>)"
      using pend by (simp add: grows_def)
    with h' show ?thesis by metis
  next
    case (Some e)
    then have e: "response e \<in> cached_responses h"
      by (force simp: cached_responses_def dest: map_of_SomeD)
    from Some assms(2) have "sendResponse c req (response e) ?h2 = Ok h'"
      by (simp add: handle_request_def)
    then show ?thesis
      by (rule sendResponse_grows) (use known pend e in \<open>auto simp: cached_responses_def set_del\<close>)
  qed
qed

lemma handle_response_grows:
  assumes inv: "handler_inv h" and "handle_response c now resp h = Ok h'"
  shows "grows {} {resp} h h'"
proof -
  obtain ro found s' where ev: "evict (rsWorkflowExecutionID resp) (hstore h) = (ro, found, s')"
    by (metis prod_cases3)
  have wf: "store_wf (hstore h)" "gomap_wf (responseCache h)"
    using inv by (simp_all add: handler_inv_def maps_inv_def)
  note sp = evict_spec [OF wf(1) ev]
  show ?thesis
  proof (cases ro)
    case None
    with sp ev assms(2) have h': "h' = h\<lparr>hstore := s', responseCache :=
        put (rsWorkflowExecutionID resp) \<lparr>response = resp, entryTime = now\<rparr> (responseCache h)\<rparr>"
      by (simp add: handle_response_def)
    then have "cached_responses h' \<subseteq> cached_responses h \<union> {resp}"
      using wf(2) by (auto simp: cached_responses_def set_put)
    moreover have "known_requests h' \<subseteq> known_requests h"
      using evict_known [OF ev] by (simp add: h' known_requests_def)
    ultimately show ?thesis by (simp add: grows_def h')
  next
    case (Some r)
    with sp ev assms(2) have "sendResponse c r resp (h\<lparr>hstore := s'\<rparr>) = Ok h'"
      by (auto simp: handle_response_def split: option.splits)
    then show ?thesis
    proof (rule sendResponse_grows)
      show "r \<in> known_requests h \<union> {}"
        using Some sp by (force simp: known_requests_def dest: map_of_SomeD)
    qed (use evict_known [OF ev] in auto)
  qed
qed

fun event_requests :: "'d handler_event \<Rightarrow> 'd Request set" where
  "event_requests (RequestIn req _) = {req}"
| "event_requests _ = {}"

fun event_responses :: "'d handler_event \<Rightarrow> 'd Response set" where
  "event_responses (ResponseIn resp _ _) = {resp}"
| "event_responses _ = {}"

lemma worker_step_grows:
  assumes inv: "handler_inv h" and it: "iteration_order it" and step: "worker_step it h ev = Ok h'"
  shows "grows (event_requests ev) (event_responses ev) h h'"
proof (cases ev)
  case (PendingTick now c)
  have "set (it (pendingRequests h)) \<subseteq> set (pendingRequests h)" "gomap_wf (it (pendingRequests h))"
    using inv it by (simp_all add: handler_inv_def maps_inv_def gomap_wf_permute [OF iteration_orderD [OF it]])
  with expire_all_grows [OF inv this] PendingTick step show ?thesis
    by (simp add: expirePendingRequests_def)
next
  case (CacheTick now)
  with step show ?thesis
    by (auto simp: expireCachedResponses_def grows_def known_requests_def cached_responses_def)
qed (use handle_request_grows [OF inv] handle_response_grows [OF inv] step in auto)

section \<open>The invariant of the system\<close>

text \<open>
  What the JSON schema of the two types says: the aggregation configuration and the observations are
  objects that must be there, so the schema does not accept a struct in which they are nil.
\<close>

definition schema_laws :: "('d, 's, 'j) cap_env \<Rightarrow> bool" where
  "schema_laws E \<longleftrightarrow>
     (\<forall>c schema s b j. generate_schema (configLib E) ''config'' cap_info = Ok schema \<longrightarrow>
        slCompile (configLib E) schema = Some s \<longrightarrow> slMarshal (configLib E) c = Some b \<longrightarrow>
        slUnmarshal (configLib E) b = Some j \<longrightarrow> slAccepts (configLib E) s j \<longrightarrow>
        cfgAggregationConfig c \<noteq> None) \<and>
     (\<forall>i schema s b j. generate_schema (inputsLib E) ''inputs'' cap_info = Ok schema \<longrightarrow>
        slCompile (inputsLib E) schema = Some s \<longrightarrow> slMarshal (inputsLib E) i = Some b \<longrightarrow>
        slUnmarshal (inputsLib E) b = Some j \<longrightarrow> slAccepts (inputsLib E) s j \<longrightarrow>
        inObservations i \<noteq> None)"

lemma validates_config: "schema_laws E \<Longrightarrow> validates ''config'' (configLib E) cap_info val = Ok c \<Longrightarrow> cfgAggregationConfig c \<noteq> None"
  using validates_Ok [of "''config''" "configLib E" cap_info val c] unfolding schema_laws_def by blast

lemma validates_inputs: "schema_laws E \<Longrightarrow> validates ''inputs'' (inputsLib E) cap_info val = Ok i \<Longrightarrow> inObservations i \<noteq> None"
  using validates_Ok [of "''inputs''" "inputsLib E" cap_info val i] unfolding schema_laws_def by blast

text \<open>
  The capability: the cache of schemas is right, a channel can be made, and a registered workflow has
  an aggregator and an encoder.
\<close>

definition cap_inv :: "('d, 's, 'j) cap_env \<Rightarrow> 'd capability \<Rightarrow> bool" where
  "cap_inv E o0 \<longleftrightarrow>
     cached_schema (configLib E) ''config'' cap_info (schemaCache o0) \<and>
     cached_schema (inputsLib E) ''inputs'' cap_info (schemaCache o0) \<and>
     0 \<le> callbackChannelBufferSize o0 \<and>
     (\<forall>w. map_of (registeredWorkflowsIDs o0) w \<noteq> None \<longrightarrow>
        map_of (aggregators o0) w \<noteq> None \<and> map_of (encoders o0) w \<noteq> None)"

definition requests_inv :: "'d system \<Rightarrow> bool" where
  "requests_inv s \<longleftrightarrow>
     inj_on CallbackCh (set (issued s)) \<and>
     (\<forall>r \<in> set (issued s). CallbackCh r < nextCh s \<and> Observations r \<noteq> None) \<and>
     set (accepted s) \<subseteq> set (issued s) \<and> fst ` set (waiting s) \<subseteq> set (issued s)"

definition history_inv :: "'d system \<Rightarrow> bool" where
  "history_inv s \<longleftrightarrow>
     known_requests (sys_handler s) \<subseteq> set (accepted s) \<and>
     cached_responses (sys_handler s) \<subseteq> set (sentResponses s) \<and>
     (\<forall>(r, resp) \<in> set (delivered (sys_handler s)). r \<in> set (accepted s) \<and>
        (resp \<in> set (sentResponses s) \<or> resp = timeoutResponse r))"

definition answered_inv :: "('d, 's, 'j) cap_env \<Rightarrow> 'd system \<Rightarrow> bool" where
  "answered_inv E s \<longleftrightarrow>
     (\<forall>(r, res) \<in> set (answered s). r \<in> set (issued s) \<and>
        (\<exists>len. res = Execute_resume E len None \<or>
           (\<exists>resp. (r, resp) \<in> set (delivered (sys_handler s)) \<and> res = Execute_resume E len (Some resp))))"

text \<open>
  A request that the worker received has been answered or is pending, unless another one with the
  same execution id was received as well.
\<close>

definition served :: "'d system \<Rightarrow> 'd Request \<Rightarrow> bool" where
  "served s r \<longleftrightarrow>
     r \<in> fst ` set (delivered (sys_handler s)) \<or>
     (WorkflowExecutionID r, r) \<in> set (pendingRequests (sys_handler s)) \<or>
     (\<exists>q \<in> set (accepted s). q \<noteq> r \<and> WorkflowExecutionID q = WorkflowExecutionID r)"

definition sys_inv :: "('d, 's, 'j) cap_env \<Rightarrow> 'd system \<Rightarrow> bool" where
  "sys_inv E s \<longleftrightarrow>
     handler_reachable (sys_handler s) \<and> cap_inv E (sysCap s) \<and> requests_inv s \<and> history_inv s \<and>
     answered_inv E s \<and> (\<forall>r \<in> set (accepted s). served s r)"

lemma sys_inv_start:
  assumes "0 \<le> sendBufferSize"
  shows "sys_inv E (sys_start timeout sendBufferSize)"
proof -
  have h: "sys_handler (sys_start timeout sendBufferSize) =
      NewHandler NewStore (case timeout of None \<Rightarrow> defaultRequestExpiry | Some t \<Rightarrow> t)"
    by (simp add: sys_handler_def sys_start_def NewOCR3_capability_def NewCapability_def)
  have "cap_inv E (NewOCR3_capability timeout sendBufferSize)"
    using assms by (simp add: cap_inv_def NewOCR3_capability_def NewCapability_def defaultSendBufferSize_def)
  then show ?thesis
    unfolding sys_inv_def requests_inv_def history_inv_def answered_inv_def h
    using handler_reachable.start
    by (simp add: sys_start_def NewHandler_def NewStore_def known_requests_def cached_responses_def)
qed

subsection \<open>Steps of the worker\<close>

lemma handle_request_served:
  assumes "handler_inv h" and "handle_request c req h = Ok h'"
  shows "(WorkflowExecutionID req, req) \<in> set (pendingRequests h') \<or> req \<in> fst ` set (delivered h')"
  using assms
  by (auto simp: handle_request_def sendResponse_def Add_def handler_inv_def maps_inv_def set_put Let_def
      split: option.splits if_splits)

lemma event_served:
  assumes "handler_inv h" and "worker_step it h ev = Ok h'" and "r \<in> event_requests ev"
  shows "(WorkflowExecutionID r, r) \<in> set (pendingRequests h') \<or> r \<in> fst ` set (delivered h')"
  using assms handle_request_served [OF assms(1)] by (cases ev) auto

lemma sys_fresh_event:
  assumes "requests_inv s" and "history_inv s" and "handler_inv (sys_handler s)"
    and "\<forall>r \<in> event_requests ev. CallbackCh r \<notin> CallbackCh ` set (accepted s)"
  shows "fresh_event (sys_handler s) ev"
proof (cases ev)
  case (RequestIn req c)
  have "set (closedChs (sys_handler s)) \<subseteq> CallbackCh ` set (accepted s)"
    using assms(2,3) by (force simp: history_inv_def handler_inv_def log_inv_def)
  moreover have "CallbackCh ` known_requests (sys_handler s) \<subseteq> CallbackCh ` set (accepted s)"
    using assms(2) by (intro image_mono) (simp add: history_inv_def)
  ultimately show ?thesis
    using assms(4) unfolding RequestIn by (simp add: image_subset_iff) (metis subsetD)
qed simp_all

lemma served_step:
  assumes g: "grows (event_requests ev) S (sys_handler s) (sys_handler s')"
    and known: "known_requests (sys_handler s) \<subseteq> set (accepted s)" "event_requests ev \<subseteq> set (accepted s)"
    and acc: "accepted s' = accepted s" and r: "served s r"
    and new: "r \<in> event_requests ev \<Longrightarrow> served s' r"
  shows "served s' r"
proof -
  obtain new where del: "delivered (sys_handler s') = delivered (sys_handler s) @ new"
    and from_known: "\<forall>(q, resp) \<in> set new. q \<in> known_requests (sys_handler s) \<union> event_requests ev"
    and pend: "\<forall>e \<in> set (pendingRequests (sys_handler s)). e \<in> set (pendingRequests (sys_handler s')) \<or>
       fst e \<in> (\<lambda>(q, _). WorkflowExecutionID q) ` set new \<or> fst e \<in> WorkflowExecutionID ` event_requests ev"
    using g unfolding grows_def by fast
  from r consider "r \<in> fst ` set (delivered (sys_handler s))"
    | "\<exists>q \<in> set (accepted s). q \<noteq> r \<and> WorkflowExecutionID q = WorkflowExecutionID r"
    | "(WorkflowExecutionID r, r) \<in> set (pendingRequests (sys_handler s))"
    unfolding served_def by blast
  then show ?thesis
  proof cases
    case 3
    with pend consider "(WorkflowExecutionID r, r) \<in> set (pendingRequests (sys_handler s'))"
      | q resp where "(q, resp) \<in> set new" "WorkflowExecutionID q = WorkflowExecutionID r"
      | q where "q \<in> event_requests ev" "WorkflowExecutionID q = WorkflowExecutionID r"
      by fastforce
    then show ?thesis
    proof cases
      case 2
      then have "q \<in> set (accepted s)" using from_known known by fast
      with 2 show ?thesis by (cases "q = r") (force simp: served_def del acc)+
    next
      case 3
      with known(2) new show ?thesis by (cases "q = r") (auto simp: served_def acc)
    qed (simp add: served_def)
  qed (auto simp: served_def del acc)
qed

lemma sys_worker_inv:
  assumes reach: "handler_reachable (sys_handler s)" and cap: "cap_inv E (sysCap s)"
    and reqs: "requests_inv s" and hist: "history_inv s" and ans: "answered_inv E s"
    and fresh: "fresh_event (sys_handler s) ev" and it: "iteration_order it"
    and served: "\<forall>r \<in> set (accepted s) - event_requests ev. served s r"
    and ev: "event_requests ev \<subseteq> set (accepted s)" "event_responses ev \<subseteq> set (sentResponses s)"
  shows "\<exists>s'. sys_worker it ev s = Ok s' \<and> sys_inv E s' \<and> worker_step it (sys_handler s) ev = Ok (sys_handler s')"
proof -
  note inv = handler_reachable_inv [OF reach]
  obtain h' where h': "worker_step it (sys_handler s) ev = Ok h'"
    using worker_step_inv [OF inv fresh it] by blast
  define s' where "s' = s\<lparr>sysCap := (sysCap s)\<lparr>reqHandler := h'\<rparr>\<rparr>"
  have s': "sys_handler s' = h'" "accepted s' = accepted s" "issued s' = issued s" "nextCh s' = nextCh s"
    "waiting s' = waiting s" "sentResponses s' = sentResponses s" "answered s' = answered s"
    by (simp_all add: s'_def sys_handler_def)
  note g = worker_step_grows [OF inv it h']
  obtain new where new: "delivered h' = delivered (sys_handler s) @ new"
    "\<forall>(r, resp) \<in> set new. r \<in> known_requests (sys_handler s) \<union> event_requests ev \<and>
       (resp \<in> cached_responses (sys_handler s) \<union> event_responses ev \<or> resp = timeoutResponse r)"
    using g unfolding grows_def by blast
  have known: "known_requests (sys_handler s) \<subseteq> set (accepted s)"
    and cached: "cached_responses (sys_handler s) \<subseteq> set (sentResponses s)"
    using hist by (simp_all add: history_inv_def)
  have "handler_reachable h'"
    using handler_reachable.step [OF reach fresh it h'] .
  moreover have "cap_inv E (sysCap s')"
    using cap by (simp add: cap_inv_def s'_def)
  moreover have "requests_inv s'"
    using reqs by (simp add: requests_inv_def s')
  moreover have "history_inv s'"
  proof -
    have "known_requests h' \<subseteq> set (accepted s)" "cached_responses h' \<subseteq> set (sentResponses s)"
      using g known cached ev unfolding grows_def by blast+
    moreover have "\<forall>(r, resp) \<in> set new. r \<in> set (accepted s) \<and> (resp \<in> set (sentResponses s) \<or> resp = timeoutResponse r)"
      using new(2) known cached ev by fast
    ultimately show ?thesis
      using hist by (simp add: history_inv_def s' new(1)) blast
  qed
  moreover have "answered_inv E s'"
    using ans unfolding answered_inv_def s' new(1) by (fastforce simp: s' new(1))
  moreover have "served s' r" if r: "r \<in> set (accepted s')" for r
  proof (cases "r \<in> event_requests ev")
    case True
    with event_served [OF inv h'] show ?thesis by (auto simp: served_def s')
  next
    case False
    with r served have "served s r" by (simp add: s')
    with False show ?thesis
      using served_step [of ev _ s s' r] g known ev(1) by (simp add: s')
  qed
  ultimately have "sys_inv E s'" by (simp add: sys_inv_def s')
  moreover have "sys_worker it ev s = Ok s'"
    using h' by (simp add: sys_worker_def s'_def)
  ultimately show ?thesis
    using h' s'(1) by blast
qed

subsection \<open>Registrations and calls\<close>

lemma cap_inv_register:
  assumes inv: "cap_inv E o0" and laws: "schema_laws E"
    and reg: "RegisterToWorkflow E request o0 = (res, o1)"
  shows "res \<noteq> Panic \<and> cap_inv E o1 \<and> reqHandler o1 = reqHandler o0"
proof -
  let ?v = "ValidateConfig (configLib E) cap_info (schemaCache o0) (rgConfig request)"
  have c: "cached_schema (configLib E) ''config'' cap_info (schemaCache o0)"
    "cached_schema (inputsLib E) ''inputs'' cap_info (schemaCache o0)"
    using inv by (simp_all add: cap_inv_def)
  have v: "fst ?v = validates ''config'' (configLib E) cap_info (rgConfig request)"
    "cached_schema (configLib E) ''config'' cap_info (snd ?v)"
    "cached_schema (inputsLib E) ''inputs'' cap_info (snd ?v)"
    using validate_as_cached [OF c(1)] validate_as_other [OF c(2), of "''config''"]
    by (simp_all add: ValidateConfig_def)
  from v(1) have "fst ?v \<noteq> Panic" "\<And>c. fst ?v = Ok c \<Longrightarrow> cfgAggregationConfig c \<noteq> None"
    using validates_config [OF laws] by simp_all
  with reg inv v(2,3) show ?thesis
    by (cases ?v) (auto simp: RegisterToWorkflow_def cap_inv_def Let_def split: go.splits option.splits)
qed

lemma Wrap_no_Panic [simp]: "Wrap a \<noteq> Panic"
proof (induction a)
  case (AMap m)
  have "\<forall>(k, b) \<in> set m. Wrap b \<noteq> Panic"
    using AMap by fastforce
  then have "go_mapM (\<lambda>(k, r). go_map (Pair k) r) (map (map_prod (\<lambda>k. k) Wrap) m) \<noteq> Panic"
    by (induction m) (auto simp: go_simps)
  then show ?case by (simp add: go_simps)
next
  case (ASlice l)
  have "go_mapM (\<lambda>r. r) (map Wrap l) \<noteq> Panic"
    using ASlice by (induction l) (auto simp: go_simps)
  then show ?case by (simp add: go_simps)
qed simp_all

lemma NewMap_no_Panic [simp]: "NewMap m \<noteq> Panic"
  unfolding NewMap_def by (induction m) (auto simp: go_simps)

text \<open>What a call leaves behind at its first blocking point.\<close>

definition point_ok :: "nat \<Rightarrow> RequestMetadata \<Rightarrow> 'd exec_point \<Rightarrow> bool" where
  "point_ok ch metadata point =
     (case point of
        Panics \<Rightarrow> False
      | Returns res \<Rightarrow> True
      | SendsResponse resp \<Rightarrow> rsWorkflowExecutionID resp = rmWorkflowExecutionID metadata
      | SendsRequest req len \<Rightarrow>
          CallbackCh req = ch \<and> Observations req \<noteq> None \<and>
          WorkflowExecutionID req = rmWorkflowExecutionID metadata)"

lemma start_request_inv:
  assumes inv: "cap_inv E o0" and laws: "schema_laws E" and start: "start_request_point E now ch r o0 = (point, o1)"
  shows "point_ok ch (rqMetadata r) point \<and> cap_inv E o1 \<and> reqHandler o1 = reqHandler o0"
proof -
  let ?i = "ValidateInputs (inputsLib E) cap_info (schemaCache o0) (rqInputs r)"
  let ?c = "ValidateConfig (configLib E) cap_info (snd ?i) (rqConfig r)"
  have "cached_schema (configLib E) ''config'' cap_info (schemaCache o0)"
    "cached_schema (inputsLib E) ''inputs'' cap_info (schemaCache o0)"
    using inv by (simp_all add: cap_inv_def)
  then have i: "fst ?i = validates ''inputs'' (inputsLib E) cap_info (rqInputs r)"
    "cached_schema (configLib E) ''config'' cap_info (snd ?i)" "cached_schema (inputsLib E) ''inputs'' cap_info (snd ?i)"
    by (simp_all add: ValidateInputs_def validate_as_cached validate_as_other)
  then have c: "fst ?c = validates ''config'' (configLib E) cap_info (rqConfig r)"
    "cached_schema (configLib E) ''config'' cap_info (snd ?c)" "cached_schema (inputsLib E) ''inputs'' cap_info (snd ?c)"
    by (simp_all add: ValidateConfig_def validate_as_cached validate_as_other)
  have "fst ?i \<noteq> Panic" "fst ?c \<noteq> Panic" "\<And>x. fst ?i = Ok x \<Longrightarrow> inObservations x \<noteq> None"
    using i(1) c(1) validates_inputs [OF laws] by simp_all
  with start inv i(2,3) c(2,3) show ?thesis
    by (cases ?i; cases ?c)
      (auto simp: start_request_point_def cap_inv_def point_ok_def queueRequestForProcessing_def Let_def
        split: go.splits if_splits)
qed

lemma Execute_inv:
  assumes "cap_inv E o0" and "schema_laws E" and "Execute E now ch r o0 = (point, o1)"
  shows "point_ok ch (rqMetadata r) point \<and> cap_inv E o1 \<and> reqHandler o1 = reqHandler o0"
proof (cases "exMethod (exec_inputs_of E (rqInputs r)) = methodStartRequest")
  case True
  then have "exMethod (exec_inputs_of E (rqInputs r)) \<noteq> methodSendResponse"
    by (simp add: methodStartRequest_def methodSendResponse_def)
  with True assms(3) show ?thesis
    by (intro start_request_inv [OF assms(1,2)]) (simp add: Execute_def Let_def)
next
  case False
  have "send_response_point meta m \<noteq> Panics" for meta :: RequestMetadata and m :: "'a exec_inputs"
    by (simp add: send_response_point_def split: go.splits)
  with False assms(1,3) show ?thesis
    by (auto simp: Execute_def Let_def point_ok_def send_response_point_def split: if_splits go.splits)
qed

subsection \<open>Every step keeps the invariant\<close>

lemma sys_handler_frame [simp]:
  "sys_handler (s\<lparr>nextCh := n\<rparr>) = sys_handler s" "sys_handler (s\<lparr>waiting := w\<rparr>) = sys_handler s"
  "sys_handler (s\<lparr>issued := i\<rparr>) = sys_handler s" "sys_handler (s\<lparr>accepted := a\<rparr>) = sys_handler s"
  "sys_handler (s\<lparr>sentResponses := p\<rparr>) = sys_handler s" "sys_handler (s\<lparr>answered := q\<rparr>) = sys_handler s"
  by (simp_all add: sys_handler_def)

lemma sys_inv_cap:
  assumes "sys_inv E s" and "cap_inv E o1" and "reqHandler o1 = reqHandler (sysCap s)"
  shows "sys_inv E (s\<lparr>sysCap := o1\<rparr>)"
proof -
  have "sys_handler (s\<lparr>sysCap := o1\<rparr>) = sys_handler s"
    using assms(3) by (simp add: sys_handler_def)
  with assms(1,2) show ?thesis
    by (simp add: sys_inv_def requests_inv_def history_inv_def answered_inv_def served_def)
qed

lemma sys_return_inv:
  assumes inv: "sys_inv E s"
    and resp: "\<And>req rs. resp = Some rs \<Longrightarrow> req \<in> set (issued s) \<Longrightarrow> CallbackCh req = ch \<Longrightarrow>
      (req, rs) \<in> set (delivered (sys_handler s))"
  shows "sys_inv E (sys_return E ch resp s)"
proof (cases "find (\<lambda>(req, len). CallbackCh req = ch) (waiting s)")
  case (Some e)
  obtain req len where e: "e = (req, len)" by (cases e)
  from Some e have w: "(req, len) \<in> set (waiting s)" "CallbackCh req = ch"
    by (auto simp: find_Some_iff) (metis nth_mem)
  then have i: "req \<in> set (issued s)"
    using inv by (force simp: sys_inv_def requests_inv_def)
  have "\<exists>n. Execute_resume E len resp = Execute_resume E n None \<or>
     (\<exists>rs. (req, rs) \<in> set (delivered (sys_handler s)) \<and> Execute_resume E len resp = Execute_resume E n (Some rs))"
    using resp [OF _ i w(2)] by (cases resp) blast+
  with inv i Some e show ?thesis
    by (auto simp: sys_return_def sys_inv_def requests_inv_def history_inv_def answered_inv_def served_def)
qed (use inv in \<open>simp add: sys_return_def\<close>)

lemma sys_call_inv:
  assumes inv: "sys_inv E s" and laws: "schema_laws E" and it: "iteration_order it"
  shows "\<exists>s'. sys_call E it now r ctxDone stopped s = Ok s' \<and> sys_inv E s'"
proof -
  obtain point o1 where ex: "Execute E now (nextCh s) r (sysCap s) = (point, o1)" by fastforce
  have "cap_inv E (sysCap s)" using inv by (simp add: sys_inv_def)
  note p = Execute_inv [OF this laws ex]
  define s1 where "s1 = s\<lparr>sysCap := o1\<rparr>"
  have s1: "sys_inv E s1"
    unfolding s1_def using p by (intro sys_inv_cap [OF inv]) simp_all
  have hinv: "handler_inv (sys_handler s1)"
    using s1 by (simp add: sys_inv_def handler_reachable_inv)
  show ?thesis
  proof (cases point)
    case (SendsResponse resp)
    let ?s2 = "s1\<lparr>sentResponses := resp # sentResponses s1\<rparr>"
    have "\<exists>s'. sys_worker it (ResponseIn resp now stopped) ?s2 = Ok s' \<and> sys_inv E s' \<and>
        worker_step it (sys_handler ?s2) (ResponseIn resp now stopped) = Ok (sys_handler s')"
      by (rule sys_worker_inv)
        (use s1 it in \<open>auto simp: sys_inv_def cap_inv_def requests_inv_def history_inv_def answered_inv_def served_def\<close>)
    with SendsResponse ex s1 show ?thesis
      by (auto simp: sys_call_def s1_def Let_def)
  next
    case (SendsRequest req len)
    let ?s2 = "s1\<lparr>nextCh := nextCh s1 + 2, waiting := (req, len) # waiting s1, issued := req # issued s1\<rparr>"
    let ?s3 = "?s2\<lparr>accepted := req # accepted s1\<rparr>"
    from p SendsRequest have req: "CallbackCh req = nextCh s1" "Observations req \<noteq> None"
      by (simp_all add: point_ok_def s1_def)
    have fresh: "CallbackCh req \<notin> CallbackCh ` set (issued s1)"
      using s1 req(1) by (fastforce simp: sys_inv_def requests_inv_def)
    have r2: "requests_inv ?s2" and r3: "requests_inv ?s3"
      using s1 req fresh by (auto simp: sys_inv_def requests_inv_def)
    have i2: "sys_inv E ?s2"
      using s1 r2 by (auto simp: sys_inv_def history_inv_def answered_inv_def served_def)
    have "fresh_event (sys_handler s1) (RequestIn req stopped)"
      using s1 fresh hinv
      by (intro sys_fresh_event) (auto simp: sys_inv_def requests_inv_def)
    then have "\<exists>s'. sys_worker it (RequestIn req stopped) ?s3 = Ok s' \<and> sys_inv E s' \<and>
        worker_step it (sys_handler ?s3) (RequestIn req stopped) = Ok (sys_handler s')"
      by (intro sys_worker_inv [OF _ _ r3])
        (use i2 it in \<open>auto simp: sys_inv_def history_inv_def answered_inv_def served_def\<close>)
    with SendsRequest ex i2 show ?thesis
      by (auto simp: sys_call_def s1_def Let_def)
  qed (use p ex s1 in \<open>auto simp: sys_call_def s1_def point_ok_def\<close>)
qed

lemma sys_tick_inv:
  assumes inv: "sys_inv E s" and it: "iteration_order it"
    and ev: "event_requests ev = {}" "event_responses ev = {}" "fresh_event (sys_handler s) ev"
  shows "\<exists>s'. sys_worker it ev s = Ok s' \<and> sys_inv E s' \<and> worker_step it (sys_handler s) ev = Ok (sys_handler s')"
  using inv it ev by (intro sys_worker_inv) (simp_all add: sys_inv_def)

lemma delivered_own:
  assumes "sys_inv E s" and "find (\<lambda>(req, resp). CallbackCh req = ch) (delivered (sys_handler s)) = Some (q, rs)"
    and "req \<in> set (issued s)" and "CallbackCh req = ch"
  shows "(req, rs) \<in> set (delivered (sys_handler s))"
proof -
  from assms(2) have q: "(q, rs) \<in> set (delivered (sys_handler s))" "CallbackCh q = ch"
    by (auto simp: find_Some_iff) (metis nth_mem)
  then have "q \<in> set (issued s)"
    using assms(1) by (auto simp: sys_inv_def history_inv_def requests_inv_def)
  with assms q(2) have "req = q"
    by (auto simp: sys_inv_def requests_inv_def dest: inj_onD)
  with q show ?thesis by simp
qed

lemma sys_step_inv:
  assumes inv: "sys_inv E s" and laws: "schema_laws E" and it: "iteration_order it"
  shows "\<exists>s'. sys_step E it s ev = Ok s' \<and> sys_inv E s'"
proof -
  have cap: "cap_inv E (sysCap s)" using inv by (simp add: sys_inv_def)
  note keep = sys_inv_cap [OF inv]
  show ?thesis
  proof (cases ev)
    case (RegisterCall request)
    obtain res o1 where reg: "RegisterToWorkflow E request (sysCap s) = (res, o1)" by fastforce
    note r = cap_inv_register [OF cap laws reg]
    with keep have "sys_inv E (s\<lparr>sysCap := o1\<rparr>)" by simp
    with RegisterCall reg r show ?thesis by (cases res) auto
  next
    case (Call now r ctxDone stopped)
    with sys_call_inv [OF inv laws it] show ?thesis by simp
  next
    case (ExpiryTick now stopped)
    with sys_tick_inv [OF inv it, of "PendingTick now stopped"] show ?thesis by auto
  next
    case (CleanupTick now)
    with sys_tick_inv [OF inv it, of "CacheTick now"] show ?thesis by auto
  next
    case (CallReceives ch)
    show ?thesis
    proof (cases "find (\<lambda>(req, resp). CallbackCh req = ch) (delivered (sys_handler s))")
      case (Some e)
      then obtain q rs where e: "find (\<lambda>(req, resp). CallbackCh req = ch) (delivered (sys_handler s)) = Some (q, rs)"
        by (cases e) simp
      have "sys_inv E (sys_return E ch (Some rs) s)"
        using delivered_own [OF inv e] by (intro sys_return_inv [OF inv]) simp
      with CallReceives e show ?thesis by simp
    qed (use CallReceives inv in simp)
  next
    case (CallCancelled ch)
    with sys_return_inv [OF inv, of None] show ?thesis by simp
  qed (use cap keep in \<open>simp_all add: sys_cap_def UnregisterFromWorkflow_def UnregisterWorkflowID_def
        setRequestTimeout_def cap_inv_def\<close>)
qed

lemma system_reachable_inv:
  assumes "system_reachable E s" and "schema_laws E"
  shows "sys_inv E s"
  using assms
proof (induction rule: system_reachable.induct)
  case (start sendBufferSize timeout)
  then show ?case by (simp add: sys_inv_start)
next
  case (step s it ev s')
  then obtain s'' where "sys_step E it s ev = Ok s''" "sys_inv E s''"
    using sys_step_inv by blast
  with step show ?case by simp
qed

section \<open>Properties\<close>

lemma find_channel:
  "find (\<lambda>(req, x). CallbackCh req = ch) xs = Some (q, y) \<Longrightarrow> (q, y) \<in> set xs \<and> CallbackCh q = ch"
  by (auto simp: find_Some_iff) (metis nth_mem)

lemma find_channel_ex:
  "(req, x) \<in> set xs \<Longrightarrow> \<exists>q y. find (\<lambda>(req, x). CallbackCh req = CallbackCh req0) xs = Some (q, y)"
  if "CallbackCh req = CallbackCh req0"
  using that by (cases "find (\<lambda>(req, x). CallbackCh req = CallbackCh req0) xs") (auto simp: find_None_iff)





lemma GetByIDs_requests: "r \<in> set (GetByIDs s ids) \<Longrightarrow> r \<in> snd ` set (requests s)"
  by (induction ids) (force split: option.splits dest: map_of_SomeD)+

lemma foldl_put_range:
  "map_of (foldl (\<lambda>m r. put (f r) r m) m rs) k = Some q \<Longrightarrow> q \<in> set rs \<or> map_of m k = Some q"
  by (induction rs arbitrary: m) (fastforce split: if_splits)+

text \<open>
  An observation can always be made: the validation of the inputs lets no request into the store
  whose observations are nil, so the reporting plugin's \<^verbatim>\<open>Observation\<close>, which dereferences them, never
  panics, whatever the leader asks for and in whatever state of the node.
\<close>

lemma observation_total:
  assumes "system_reachable E s" and "schema_laws E"
  shows "Observation L unmarshalQuery marshalObs (hstore (sys_handler s))
    (GetRegisteredWorkflowsIDs it (sysCap s)) now query \<noteq> Panic"
proof -
  note inv = system_reachable_inv [OF assms]
  define reqMap where "reqMap = (\<lambda>weids. foldl (\<lambda>m req. put (WorkflowExecutionID req) req m) []
    (GetByIDs (hstore (sys_handler s)) weids))"
  have obs: "Observations q \<noteq> None" if "map_of (reqMap weids) k = Some q" for weids k q
  proof -
    have "q \<in> snd ` set (requests (hstore (sys_handler s)))"
      using foldl_put_range [of _ "[]"] that GetByIDs_requests unfolding reqMap_def by fastforce
    then have "q \<in> set (issued s)"
      using inv by (auto simp: sys_inv_def history_inv_def requests_inv_def known_requests_def)
    then show ?thesis
      using inv by (simp add: sys_inv_def requests_inv_def)
  qed
  have "go_foldM (observe_one L (reqMap weids)) [] weids \<noteq> Panic" for weids
    by (intro go_foldM_no_Panic [where P = "\<lambda>_. True"])
      (auto simp: observe_one_def split: option.splits dest: obs)
  then show ?thesis
    unfolding Observation_def Let_def reqMap_def by (auto simp: go_simps split: option.splits)
qed

lemma tick_delivers:
  assumes inv: "sys_inv E s" and it: "iteration_order it" and r: "req \<in> set (accepted s)"
    and only: "\<forall>q \<in> set (accepted s). WorkflowExecutionID q = WorkflowExecutionID req \<longrightarrow> q = req"
    and late: "ExpiresAt req < now" "\<not> stopped (WorkflowExecutionID req)"
  shows "\<exists>s1. sys_worker it (PendingTick now stopped) s = Ok s1 \<and> sys_inv E s1 \<and>
    req \<in> fst ` set (delivered (sys_handler s1)) \<and> waiting s1 = waiting s \<and> issued s1 = issued s"
proof -
  obtain s1 where s1: "sys_worker it (PendingTick now stopped) s = Ok s1" "sys_inv E s1"
    "worker_step it (sys_handler s) (PendingTick now stopped) = Ok (sys_handler s1)"
    using sys_tick_inv [OF inv it, of "PendingTick now stopped"] by auto
  have "handler_inv (sys_handler s)"
    using inv by (simp add: sys_inv_def handler_reachable_inv)
  from expirePendingRequests_spec [OF this it, of now stopped] s1(3)
  have del: "set (delivered (sys_handler s1)) = set (delivered (sys_handler s)) \<union>
      {(r, timeoutResponse r) | k r. (k, r) \<in> set (pendingRequests (sys_handler s)) \<and> now > ExpiresAt r \<and> \<not> stopped k}"
    by auto
  have "served s req" using inv r by (simp add: sys_inv_def)
  then have "req \<in> fst ` set (delivered (sys_handler s)) \<or>
      (WorkflowExecutionID req, req) \<in> set (pendingRequests (sys_handler s))"
    using only by (auto simp: served_def)
  then have "req \<in> fst ` set (delivered (sys_handler s1))"
  proof
    assume "(WorkflowExecutionID req, req) \<in> set (pendingRequests (sys_handler s))"
    with late have "(req, timeoutResponse req) \<in> set (delivered (sys_handler s1))"
      unfolding del by blast
    then show ?thesis by force
  qed (auto simp: del)
  moreover have "waiting s1 = waiting s \<and> issued s1 = issued s"
  proof -
    from s1(1) obtain h where "s1 = s\<lparr>sysCap := (sysCap s)\<lparr>reqHandler := h\<rparr>\<rparr>"
      by (auto simp: sys_worker_def go_simps)
    then show ?thesis by simp
  qed
  ultimately show ?thesis using s1 by blast
qed

lemma sys_return_answers:
  assumes inv: "sys_inv E s" and w: "(req, len) \<in> set (waiting s)"
  shows "\<exists>len'. (req, Execute_resume E len' resp) \<in> set (answered (sys_return E (CallbackCh req) resp s)) \<and>
    req \<notin> fst ` set (waiting (sys_return E (CallbackCh req) resp s))"
proof -
  obtain q len' where q: "find (\<lambda>(r, _). CallbackCh r = CallbackCh req) (waiting s) = Some (q, len')"
    using find_channel_ex [OF refl w] by auto
  then have "q \<in> fst ` set (waiting s)" "CallbackCh q = CallbackCh req"
    using find_channel [OF q] by force+
  moreover have "req \<in> fst ` set (waiting s)" using w by force
  moreover have "inj_on CallbackCh (fst ` set (waiting s))"
    using inv by (auto simp: sys_inv_def requests_inv_def intro: inj_on_subset)
  ultimately have "q = req" by (auto dest: inj_onD)
  with q show ?thesis by (auto simp: sys_return_def)
qed

text \<open>
  C36. A waiting call ends. Once the worker has received the request of a call, and no other request
  with that execution id, then whatever has happened since, the first expiry tick after the request's
  deadline leaves a message in the call's channel, and the call returns with it.
\<close>

theorem waiting_call_ends:
  assumes "system_reachable E s" and "schema_laws E" and "iteration_order it"
    and "(req, len) \<in> set (waiting s)" and "req \<in> set (accepted s)"
    and "\<forall>q \<in> set (accepted s). WorkflowExecutionID q = WorkflowExecutionID req \<longrightarrow> q = req"
    and "ExpiresAt req < now" and "\<not> stopped (WorkflowExecutionID req)"
  shows "\<exists>s1 s2 res. sys_step E it s (ExpiryTick now stopped) = Ok s1 \<and>
    sys_step E it s1 (CallReceives (CallbackCh req)) = Ok s2 \<and>
    (req, res) \<in> set (answered s2) \<and> snd res \<noteq> Some ContextError \<and> req \<notin> fst ` set (waiting s2)"
proof -
  note inv = system_reachable_inv [OF assms(1,2)]
  obtain s1 where s1: "sys_worker it (PendingTick now stopped) s = Ok s1" "sys_inv E s1"
    "req \<in> fst ` set (delivered (sys_handler s1))" "waiting s1 = waiting s"
    using tick_delivers [where stopped = stopped, OF inv assms(3,5,6,7,8)] by blast
  from s1(3) obtain rs0 where rs0: "(req, rs0) \<in> set (delivered (sys_handler s1))" by auto
  obtain q rs where f: "find (\<lambda>(r, _). CallbackCh r = CallbackCh req) (delivered (sys_handler s1)) = Some (q, rs)"
    using find_channel_ex [OF refl rs0] by auto
  obtain len' where "(req, Execute_resume E len' (Some rs)) \<in>
      set (answered (sys_return E (CallbackCh req) (Some rs) s1))"
    "req \<notin> fst ` set (waiting (sys_return E (CallbackCh req) (Some rs) s1))"
    using sys_return_answers [OF s1(2)] assms(4) s1(4) by metis
  moreover have "snd (Execute_resume E len' (Some rs)) \<noteq> Some ContextError"
    by (cases "rsErr rs") (simp_all add: Execute_resume_def)
  ultimately show ?thesis
    using s1(1) f by fastforce
qed

text \<open>
  The reporting plugin sees the capability as a registry of workflows (\<^verbatim>\<open>CapabilityIface\<close>): it looks up
  the aggregator and the encoder of a workflow, and unregisters the workflows that a round has pruned.
\<close>

locale workflow_registry =
  fixes invar :: "'c \<Rightarrow> bool"
    and registered :: "'c \<Rightarrow> string set"
    and aggregator_of :: "'c \<Rightarrow> string \<Rightarrow> ('e, 'a) go"
    and encoder_of :: "'c \<Rightarrow> string \<Rightarrow> ('e, 'b) go"
    and unregister :: "string \<Rightarrow> 'c \<Rightarrow> 'c"
  assumes parts: "invar c \<Longrightarrow> w \<in> registered c \<Longrightarrow> is_ok (aggregator_of c w) \<and> is_ok (encoder_of c w)"
    and unregister_invar: "invar c \<Longrightarrow> invar (unregister w c)"
    and unregister_registered: "registered (unregister w c) = registered c - {w}"
begin

lemma prune:
  assumes "invar c"
  shows "invar (fold unregister ws c)" and "registered (fold unregister ws c) = registered c - set ws"
proof -
  show "invar (fold unregister ws c)"
    using assms by (induction ws arbitrary: c) (simp_all add: unregister_invar)
  show "registered (fold unregister ws c) = registered c - set ws"
    by (induction ws arbitrary: c) (auto simp: unregister_registered)
qed

text \<open>Whatever a round prunes, the workflows that stay registered can still be served.\<close>

lemma prune_parts:
  assumes "invar c" and "w \<in> registered c" and "w \<notin> set ws"
  shows "is_ok (aggregator_of (fold unregister ws c) w) \<and> is_ok (encoder_of (fold unregister ws c) w)"
  using assms prune [OF assms(1), of ws] by (intro parts) simp_all

end

interpretation cap: workflow_registry "cap_inv E" "\<lambda>o0. gomap_dom (registeredWorkflowsIDs o0)"
  GetAggregator GetEncoderByWorkflowID UnregisterWorkflowID for E
proof (unfold_locales, goal_cases)
  case (1 o0 w)
  then have "map_of (registeredWorkflowsIDs o0) w \<noteq> None" by (simp add: gomap_dom_iff)
  with 1(1) show ?case
    by (auto simp: cap_inv_def GetAggregator_def GetEncoderByWorkflowID_def)
qed (auto simp: cap_inv_def UnregisterWorkflowID_def)

text \<open>
  Registered workflows are usable: for every workflow that the capability reports as registered,
  in every reachable state, the lookups of the aggregator and of the encoder succeed, also after the
  plugin has unregistered any other workflows.
\<close>

lemma registered_have_parts:
  assumes "system_reachable E s" and "schema_laws E" and "iteration_order it"
    and "w \<in> set (GetRegisteredWorkflowsIDs it (sysCap s))" and "w \<notin> set pruned"
  shows "\<exists>agg enc. GetAggregator (fold UnregisterWorkflowID pruned (sysCap s)) w = Ok agg \<and>
    GetEncoderByWorkflowID (fold UnregisterWorkflowID pruned (sysCap s)) w = Ok enc"
proof -
  have "w \<in> gomap_dom (registeredWorkflowsIDs (sysCap s))"
    using assms(3,4) by (force simp: GetRegisteredWorkflowsIDs_def)
  moreover have "cap_inv E (sysCap s)"
    using system_reachable_inv [OF assms(1,2)] by (simp add: sys_inv_def)
  ultimately show ?thesis
    using cap.prune_parts [of E "sysCap s" w pruned] assms(5) by (simp add: is_ok_iff)
qed

text \<open>
  A registration whose encoder cannot be made fails, but the aggregator it made stays: the workflow is
  not registered, and yet \<^verbatim>\<open>GetAggregator\<close> finds it.
\<close>

lemma failed_registration_leaves_aggregator:
  assumes "RegisterToWorkflow E request o0 = (Err EncoderFactoryError, o1)"
  shows "\<exists>agg. GetAggregator o1 (rgWorkflowID (rgMetadata request)) = Ok agg \<and>
    registeredWorkflowsIDs o1 = registeredWorkflowsIDs o0"
  using assms
  by (auto simp: RegisterToWorkflow_def GetAggregator_def Let_def split: prod.splits go.splits option.splits)

text \<open>
  A plugin made by the factory always has a batch size, so its query never fails for want of one: it
  marshals the ids of the oldest requests.
\<close>

lemma factory_query:
  assumes "factory_NewReportingPlugin unmarshalConfig durationNew asDuration cfg o0 = (Ok ps, o1)"
    and "store_wf st"
  shows "Query marshalQuery st (psBatchSize ps) =
    (case marshalQuery (map (\<lambda>rq. Some (id_of_request rq)) (take (nat (psBatchSize ps)) (queued st))) of
       None \<Rightarrow> Err QueryMarshal | Some b \<Rightarrow> Ok b)"
proof -
  have pos: "0 < uint (or_default v d)" if "d \<noteq> 0" for v d :: uint32
    using that by (auto simp: or_default_def word_neq_0_conv uint_0_iff [symmetric] order_less_le)
  have "0 < psBatchSize ps"
    using assms(1)
    by (auto simp: factory_NewReportingPlugin_def with_defaults_def Let_def defaultBatchSize_def
        intro!: pos split: option.splits)
  then show ?thesis
    using FirstN_queued [OF assms(2), of "psBatchSize ps"] by (simp add: Query_def)
qed

section \<open>A run\<close>

text \<open>
  An environment with small decoders, a schema that accepts what it must, and one aggregator; a call
  that starts a request, a response for it, one for another execution, and the end of the call.
\<close>

definition sample_lib :: "('d vmap \<Rightarrow> 't) \<Rightarrow> ('t \<Rightarrow> bool) \<Rightarrow> ('d, 't, string, bool) schema_lib" where
  "sample_lib decode ok =
     \<lparr>slValidID = (\<lambda>_. True), slReflect = (\<lambda>i d. Some (i @ d)), slCompile = Some,
      slDecode = (\<lambda>m. Some (decode m)), slMarshal = (\<lambda>t. Some [if ok t then 1 else 0]),
      slUnmarshal = (\<lambda>b. Some (b = [1])), slAccepts = (\<lambda>_ j. j)\<rparr>"

definition sample_config :: "'d vmap \<Rightarrow> 'd cap_config" where
  "sample_config m =
     \<lparr>cfgAggregationMethod = ''identical'',
      cfgAggregationConfig = (case map_of m ''aggregation_config'' of Some (VMap a) \<Rightarrow> Some a | _ \<Rightarrow> None),
      cfgEncoder = ''EVM'', cfgEncoderConfig = None, cfgReportID = ''0001'',
      cfgRequestTimeoutMS = 0, cfgKeyID = ''evm''\<rparr>"

definition sample_inputs :: "'d vmap \<Rightarrow> 'd cap_inputs" where
  "sample_inputs m =
     \<lparr>inObservations = (case map_of m ''observations'' of Some (VList l) \<Rightarrow> Some l | _ \<Rightarrow> None),
      inEncoderName = [], inEncoderConfig = None\<rparr>"

definition sample_unwrapMethod :: "'d vlib \<Rightarrow> 'd exec_inputs \<Rightarrow> 'd vmap \<Rightarrow> 'd exec_inputs" where
  "sample_unwrapMethod L d m =
     d\<lparr>exMethod := (case map_of m ''method'' of Some (VString s) \<Rightarrow> s | _ \<Rightarrow> exMethod d),
       exTransmission := (case map_of m ''transmission'' of
          Some (VMap t) \<Rightarrow> (case Unwrap L (VMap t) of Ok (AMap a) \<Rightarrow> Some a | _ \<Rightarrow> None)
        | _ \<Rightarrow> None),
       exTerminate := (map_of m ''terminate'' = Some (VBool True))\<rparr>"

definition sample_env :: "(int \<times> 32 word, string, bool) cap_env" where
  "sample_env =
     \<lparr>configLib = sample_lib sample_config (\<lambda>c. cfgAggregationConfig c \<noteq> None),
      inputsLib = sample_lib sample_inputs (\<lambda>i. inObservations i \<noteq> None),
      aggregatorFactory = (\<lambda>_ _. Some sample_aggregator), encoderFactory = (\<lambda>_ _. Some (\<lambda>_. Some [])),
      unwrapMethod = sample_unwrapMethod pair_vlib, protoSize = (\<lambda>_. 3), valueLib = pair_vlib\<rparr>"

lemma sample_env_laws: "schema_laws sample_env"
  by (auto simp: schema_laws_def sample_env_def sample_lib_def split: if_splits)

definition sample_metadata :: "string \<Rightarrow> RequestMetadata" where
  "sample_metadata weid =
     \<lparr>rmWorkflowID = ''w'', rmWorkflowOwner = ''o'', rmWorkflowExecutionID = weid, rmWorkflowName = ''n'',
      rmWorkflowDonID = 1, rmWorkflowDonConfigVersion = 1, rmReferenceID = ''r'', rmDecodedWorkflowName = ''n''\<rparr>"

definition sample_start :: "string \<Rightarrow> (int \<times> 32 word) CapabilityRequest" where
  "sample_start weid =
     \<lparr>rqMetadata = sample_metadata weid, rqConfig = Some [(''aggregation_config'', VMap [])],
      rqInputs = Some [(''observations'', VList [VBool True])]\<rparr>"

definition sample_answer :: "string \<Rightarrow> (int \<times> 32 word) CapabilityRequest" where
  "sample_answer weid =
     \<lparr>rqMetadata = sample_metadata weid, rqConfig = None,
      rqInputs = Some [(''method'', VString ''send_response''), (''transmission'', VMap [(''x'', VBool True)]),
        (''terminate'', VBool False)]\<rparr>"

definition sample_registration :: "(int \<times> 32 word) RegisterToWorkflowRequest" where
  "sample_registration =
     \<lparr>rgMetadata = \<lparr>rgWorkflowID = ''w'', rgWorkflowOwner = ''o'', rgReferenceID = ''r''\<rparr>,
      rgConfig = Some [(''aggregation_config'', VMap [])]\<rparr>"

text \<open>The state after a list of events; a panic would leave the state where it was.\<close>

definition sys_run :: "(int \<times> 32 word) sys_event list \<Rightarrow> (int \<times> 32 word) system" where
  "sys_run evs = foldl (\<lambda>s ev. case sys_step sample_env (\<lambda>m. m) s ev of Ok s' \<Rightarrow> s' | _ \<Rightarrow> s)
     (sys_start None 0) evs"

lemma sys_run_reachable: "system_reachable sample_env (sys_run evs)"
proof -
  have "system_reachable sample_env (foldl (\<lambda>s ev. case sys_step sample_env (\<lambda>m. m) s ev of Ok s' \<Rightarrow> s' | _ \<Rightarrow> s) s evs)"
    if "system_reachable sample_env s" for s
    using that
    by (induction evs arbitrary: s)
      (auto split: go.splits intro: system_reachable.step [OF _ iteration_order_id])
  from this [OF system_reachable.start] show ?thesis by (simp add: sys_run_def)
qed

definition sample_events :: "(int \<times> 32 word) sys_event list" where
  "sample_events =
     [RegisterCall sample_registration, Call 0 (sample_start ''e'') False False,
      Call 5 (sample_answer ''f'') False False, Call 5 (sample_answer ''e'') False False]"

definition sample_queued :: "(int \<times> 32 word) Request" where
  "sample_queued =
     \<lparr>Observations = Some [VBool True], OverriddenEncoderName = [], OverriddenEncoderConfig = None,
      ExpiresAt = 20000000000, CallbackCh = 0, StopCh = 1, WorkflowExecutionID = ''e'', WorkflowID = ''w'',
      WorkflowOwner = ''o'', WorkflowName = ''n'', WorkflowDonID = 1, WorkflowDonConfigVersion = 1,
      ReportID = ''0001'', KeyID = ''evm''\<rparr>"



lemma sample_waiting:
  "waiting (sys_run (take 2 sample_events)) = [(sample_queued, 3)] \<and>
   accepted (sys_run (take 2 sample_events)) = [sample_queued]"
  by code_simp

theorem waiting_call_ends_witness:
  "\<exists>s1 s2 res. sys_step sample_env (\<lambda>m. m) (sys_run (take 2 sample_events)) (ExpiryTick 30000000000 (\<lambda>_. False)) = Ok s1 \<and>
    sys_step sample_env (\<lambda>m. m) s1 (CallReceives (CallbackCh sample_queued)) = Ok s2 \<and>
    (sample_queued, res) \<in> set (answered s2) \<and> snd res \<noteq> Some ContextError \<and> sample_queued \<notin> fst ` set (waiting s2)"
  by (rule waiting_call_ends [OF sys_run_reachable sample_env_laws iteration_order_id])
    (simp_all add: sample_waiting, simp add: sample_queued_def)

lemma observation_total_witness:
  "Observation pair_vlib (\<lambda>_. Some [Some sample_id]) (\<lambda>_. Some [7])
     (hstore (sys_handler (sys_run (take 2 sample_events))))
     (GetRegisteredWorkflowsIDs (\<lambda>m. m) (sysCap (sys_run (take 2 sample_events)))) 0 [] \<noteq> Panic"
  by (rule observation_total [OF sys_run_reachable sample_env_laws])

lemma sample_registered: "GetRegisteredWorkflowsIDs (\<lambda>m. m) (sysCap (sys_run (take 1 sample_events))) = [''w'']"
  by code_simp

lemma registered_have_parts_witness:
  "\<exists>agg enc. GetAggregator (fold UnregisterWorkflowID [''v''] (sysCap (sys_run (take 1 sample_events)))) ''w'' = Ok agg \<and>
     GetEncoderByWorkflowID (fold UnregisterWorkflowID [''v''] (sysCap (sys_run (take 1 sample_events)))) ''w'' = Ok enc"
  by (rule registered_have_parts [OF sys_run_reachable sample_env_laws iteration_order_id])
    (simp only: sample_registered, simp, simp)

end
