(* ===== verification/CapabilityPb.thy ===== *)
theory CapabilityPb
  imports Capability
begin

text \<open>
  The wire forms of the messages that travel between a workflow engine and a capability
  (\<^verbatim>\<open>pkg/capabilities/pb/capabilities_helpers.go\<close>): requests, responses with their metering, registrations,
  trigger registrations and trigger responses. A message of \<^verbatim>\<open>proto\<close> is a record whose optional parts are
  options; \<^verbatim>\<open>proto.Marshal\<close> and \<^verbatim>\<open>proto.Unmarshal\<close> are arguments, and the list that stands for a map is
  read back in the order it was written in.
\<close>

section \<open>Messages\<close>

record MeteringNodeDetail =
  mnPeer2PeerID :: string
  mnSpendUnit :: string
  mnSpendValue :: string

text \<open>A nil slice of metering details and an empty one are the same here: the code only ranges over it.\<close>

record 'd capResponse =
  cpValue :: "'d vmap option"
  cpMetering :: "MeteringNodeDetail list"

record 'd TriggerRegistrationRequest =
  trTriggerID :: string
  trMetadata :: RequestMetadata
  trConfig :: "'d vmap option"

record ('d, 'o) TriggerEvent =
  teTriggerType :: string
  teID :: string
  teOutputs :: "'d vmap option"
  teOCREvent :: "'o option"

record ('d, 'o) TriggerResponse =
  tpEvent :: "('d, 'o) TriggerEvent"
  tpErr :: "string option"

record pbCapabilityRequest =
  pcMetadata :: "RequestMetadata option"
  pcInputs :: "pbMap option"
  pcConfig :: "pbMap option"

record pbCapabilityResponse =
  prValue :: "pbMap option"
  prMetadata :: "MeteringNodeDetail list option"

record pbRegistrationRequest =
  pgMetadata :: "RegistrationMetadata option"
  pgConfig :: "pbMap option"

record pbTriggerRegistrationRequest =
  ptTriggerId :: string
  ptMetadata :: "RequestMetadata option"
  ptConfig :: "pbMap option"

record pbTriggerEvent =
  pvTriggerType :: string
  pvId :: string
  pvOutputs :: "pbMap option"

record pbTriggerResponse =
  pnError :: string
  pnEvent :: "pbTriggerEvent option"

datatype pb_error =
    NilMessage | NilMetadata | UnmarshalFailed

section \<open>To the wire\<close>

text \<open>\<^verbatim>\<open>ProtoMap\<close> of a nil map is the message of an empty one.\<close>

definition map_or_empty :: "'d vmap option \<Rightarrow> 'd vmap" where
  "map_or_empty m = (case m of None \<Rightarrow> [] | Some kvs \<Rightarrow> kvs)"

definition CapabilityRequestToProto :: "'d vlib \<Rightarrow> 'd CapabilityRequest \<Rightarrow> pbCapabilityRequest" where
  "CapabilityRequestToProto L req =
     (let md = rqMetadata req
      in \<lparr>pcMetadata = Some
            \<lparr>rmWorkflowID = rmWorkflowID md, rmWorkflowOwner = rmWorkflowOwner md,
             rmWorkflowExecutionID = rmWorkflowExecutionID md, rmWorkflowName = rmWorkflowName md,
             rmWorkflowDonID = rmWorkflowDonID md, rmWorkflowDonConfigVersion = rmWorkflowDonConfigVersion md,
             rmReferenceID = rmReferenceID md, rmDecodedWorkflowName = rmDecodedWorkflowName md\<rparr>,
          pcInputs = Some (ProtoMap L (map_or_empty (rqInputs req))),
          pcConfig = Some (ProtoMap L (map_or_empty (rqConfig req)))\<rparr>)"

definition CapabilityResponseToProto :: "'d vlib \<Rightarrow> 'd capResponse \<Rightarrow> pbCapabilityResponse" where
  "CapabilityResponseToProto L resp =
     \<lparr>prValue = Some (ProtoMap L (map_or_empty (cpValue resp))),
      prMetadata = Some (map (\<lambda>d. \<lparr>mnPeer2PeerID = mnPeer2PeerID d, mnSpendUnit = mnSpendUnit d,
        mnSpendValue = mnSpendValue d\<rparr>) (cpMetering resp))\<rparr>"

definition RegisterToWorkflowRequestToProto ::
    "'d vlib \<Rightarrow> 'd RegisterToWorkflowRequest \<Rightarrow> pbRegistrationRequest" where
  "RegisterToWorkflowRequestToProto L req =
     \<lparr>pgMetadata = Some \<lparr>rgWorkflowID = rgWorkflowID (rgMetadata req),
        rgWorkflowOwner = rgWorkflowOwner (rgMetadata req), rgReferenceID = rgReferenceID (rgMetadata req)\<rparr>,
      pgConfig = Some (ProtoMap L (map_or_empty (rgConfig req)))\<rparr>"

definition TriggerRegistrationRequestToProto ::
    "'d vlib \<Rightarrow> 'd TriggerRegistrationRequest \<Rightarrow> pbTriggerRegistrationRequest" where
  "TriggerRegistrationRequestToProto L req =
     (let md = trMetadata req
      in \<lparr>ptTriggerId = trTriggerID req,
          ptMetadata = Some
            \<lparr>rmWorkflowID = rmWorkflowID md, rmWorkflowOwner = rmWorkflowOwner md,
             rmWorkflowExecutionID = rmWorkflowExecutionID md, rmWorkflowName = rmWorkflowName md,
             rmWorkflowDonID = rmWorkflowDonID md, rmWorkflowDonConfigVersion = rmWorkflowDonConfigVersion md,
             rmReferenceID = [], rmDecodedWorkflowName = []\<rparr>,
          ptConfig = Some (ProtoMap L (map_or_empty (trConfig req)))\<rparr>)"

definition TriggerResponseToProto :: "'d vlib \<Rightarrow> ('d, 'o) TriggerResponse \<Rightarrow> pbTriggerResponse" where
  "TriggerResponseToProto L resp =
     \<lparr>pnError = (case tpErr resp of None \<Rightarrow> [] | Some e \<Rightarrow> e),
      pnEvent = Some \<lparr>pvTriggerType = teTriggerType (tpEvent resp), pvId = teID (tpEvent resp),
        pvOutputs = Some (ProtoMap L (map_or_empty (teOutputs (tpEvent resp))))\<rparr>\<rparr>"

section \<open>From the wire\<close>

definition CapabilityRequestFromProto ::
    "'d vlib \<Rightarrow> pbCapabilityRequest option \<Rightarrow> (pb_error, 'd CapabilityRequest) go" where
  "CapabilityRequestFromProto L pr =
     (case pr of
        None \<Rightarrow> Err NilMessage
      | Some pr \<Rightarrow>
     (case pcMetadata pr of
        None \<Rightarrow> Err NilMetadata
      | Some md \<Rightarrow>
          Ok \<lparr>rqMetadata =
                \<lparr>rmWorkflowID = rmWorkflowID md, rmWorkflowOwner = rmWorkflowOwner md,
                 rmWorkflowExecutionID = rmWorkflowExecutionID md, rmWorkflowName = rmWorkflowName md,
                 rmWorkflowDonID = rmWorkflowDonID md, rmWorkflowDonConfigVersion = rmWorkflowDonConfigVersion md,
                 rmReferenceID = rmReferenceID md, rmDecodedWorkflowName = rmDecodedWorkflowName md\<rparr>,
              rqConfig = FromMapValueProto L (pcConfig pr),
              rqInputs = FromMapValueProto L (pcInputs pr)\<rparr>))"

definition CapabilityResponseFromProto ::
    "'d vlib \<Rightarrow> pbCapabilityResponse option \<Rightarrow> (pb_error, 'd capResponse) go" where
  "CapabilityResponseFromProto L pr =
     (case pr of
        None \<Rightarrow> Err NilMessage
      | Some pr \<Rightarrow>
          Ok \<lparr>cpValue = FromMapValueProto L (prValue pr),
              cpMetering =
                (case prMetadata pr of
                   None \<Rightarrow> []
                 | Some ds \<Rightarrow> map (\<lambda>d. \<lparr>mnPeer2PeerID = mnPeer2PeerID d, mnSpendUnit = mnSpendUnit d,
                     mnSpendValue = mnSpendValue d\<rparr>) ds)\<rparr>)"

definition RegisterToWorkflowRequestFromProto ::
    "'d vlib \<Rightarrow> pbRegistrationRequest option \<Rightarrow> (pb_error, 'd RegisterToWorkflowRequest) go" where
  "RegisterToWorkflowRequestFromProto L pr =
     (case pr of
        None \<Rightarrow> Err NilMessage
      | Some pr \<Rightarrow>
     (case pgMetadata pr of
        None \<Rightarrow> Err NilMetadata
      | Some md \<Rightarrow>
          Ok \<lparr>rgMetadata = \<lparr>rgWorkflowID = rgWorkflowID md, rgWorkflowOwner = rgWorkflowOwner md,
                 rgReferenceID = rgReferenceID md\<rparr>,
              rgConfig = FromMapValueProto L (pgConfig pr)\<rparr>))"

definition TriggerRegistrationRequestFromProto ::
    "'d vlib \<Rightarrow> pbTriggerRegistrationRequest option \<Rightarrow> (pb_error, 'd TriggerRegistrationRequest) go" where
  "TriggerRegistrationRequestFromProto L pr =
     (case pr of
        None \<Rightarrow> Err NilMessage
      | Some pr \<Rightarrow>
     (case ptMetadata pr of
        None \<Rightarrow> Err NilMetadata
      | Some md \<Rightarrow>
          Ok \<lparr>trTriggerID = ptTriggerId pr,
              trMetadata =
                \<lparr>rmWorkflowID = rmWorkflowID md, rmWorkflowOwner = rmWorkflowOwner md,
                 rmWorkflowExecutionID = rmWorkflowExecutionID md, rmWorkflowName = rmWorkflowName md,
                 rmWorkflowDonID = rmWorkflowDonID md, rmWorkflowDonConfigVersion = rmWorkflowDonConfigVersion md,
                 rmReferenceID = [], rmDecodedWorkflowName = []\<rparr>,
              trConfig = FromMapValueProto L (ptConfig pr)\<rparr>))"

definition TriggerResponseFromProto ::
    "'d vlib \<Rightarrow> pbTriggerResponse option \<Rightarrow> (pb_error, ('d, 'o) TriggerResponse) go" where
  "TriggerResponseFromProto L pr =
     (case pr of
        None \<Rightarrow> Err NilMessage
      | Some pr \<Rightarrow>
          Ok \<lparr>tpEvent =
                (case pnEvent pr of
                   None \<Rightarrow> \<lparr>teTriggerType = [], teID = [], teOutputs = None, teOCREvent = None\<rparr>
                 | Some ev \<Rightarrow> \<lparr>teTriggerType = pvTriggerType ev, teID = pvId ev,
                     teOutputs = FromMapValueProto L (pvOutputs ev), teOCREvent = None\<rparr>),
              tpErr = (if pnError pr \<noteq> [] then Some (pnError pr) else None)\<rparr>)"

text \<open>\<^verbatim>\<open>Unregister\<close> requests have the fields of register requests and are converted in the same way.\<close>

definition UnregisterFromWorkflowRequestToProto ::
    "'d vlib \<Rightarrow> 'd RegisterToWorkflowRequest \<Rightarrow> pbRegistrationRequest" where
  "UnregisterFromWorkflowRequestToProto L req =
     \<lparr>pgMetadata = Some \<lparr>rgWorkflowID = rgWorkflowID (rgMetadata req),
        rgWorkflowOwner = rgWorkflowOwner (rgMetadata req), rgReferenceID = rgReferenceID (rgMetadata req)\<rparr>,
      pgConfig = Some (ProtoMap L (map_or_empty (rgConfig req)))\<rparr>"

definition UnregisterFromWorkflowRequestFromProto ::
    "'d vlib \<Rightarrow> pbRegistrationRequest option \<Rightarrow> (pb_error, 'd RegisterToWorkflowRequest) go" where
  "UnregisterFromWorkflowRequestFromProto L pr =
     (case pr of
        None \<Rightarrow> Err NilMessage
      | Some pr \<Rightarrow>
     (case pgMetadata pr of
        None \<Rightarrow> Err NilMetadata
      | Some md \<Rightarrow>
          Ok \<lparr>rgMetadata = \<lparr>rgWorkflowID = rgWorkflowID md, rgWorkflowOwner = rgWorkflowOwner md,
                 rgReferenceID = rgReferenceID md\<rparr>,
              rgConfig = FromMapValueProto L (pgConfig pr)\<rparr>))"

section \<open>Marshalling\<close>

text \<open>
  The pairs \<^verbatim>\<open>Marshal...\<close> and \<^verbatim>\<open>Unmarshal...\<close> of the file differ only in the conversion: they are
  these two with the conversions above.
\<close>

definition marshal_with :: "('p \<Rightarrow> bytes option) \<Rightarrow> ('a \<Rightarrow> 'p) \<Rightarrow> 'a \<Rightarrow> bytes option" where
  "marshal_with marshal toProto x = marshal (toProto x)"

definition unmarshal_with ::
    "(bytes \<Rightarrow> 'p option) \<Rightarrow> ('p option \<Rightarrow> (pb_error, 'a) go) \<Rightarrow> bytes \<Rightarrow> (pb_error, 'a) go" where
  "unmarshal_with unmarshal fromProto raw =
     (case unmarshal raw of None \<Rightarrow> Err UnmarshalFailed | Some m \<Rightarrow> fromProto (Some m))"

section \<open>What a message is after the wire\<close>

text \<open>A nil map arrives as an empty one.\<close>

definition norm_request :: "'d CapabilityRequest \<Rightarrow> 'd CapabilityRequest" where
  "norm_request r = r\<lparr>rqConfig := Some (map_or_empty (rqConfig r)), rqInputs := Some (map_or_empty (rqInputs r))\<rparr>"

definition norm_response :: "'d capResponse \<Rightarrow> 'd capResponse" where
  "norm_response r = r\<lparr>cpValue := Some (map_or_empty (cpValue r))\<rparr>"

definition norm_registration :: "'d RegisterToWorkflowRequest \<Rightarrow> 'd RegisterToWorkflowRequest" where
  "norm_registration r = r\<lparr>rgConfig := Some (map_or_empty (rgConfig r))\<rparr>"

text \<open>The registration of a trigger loses the step reference and the decoded name of the workflow.\<close>

definition norm_trigger_registration :: "'d TriggerRegistrationRequest \<Rightarrow> 'd TriggerRegistrationRequest" where
  "norm_trigger_registration r =
     r\<lparr>trMetadata := (trMetadata r)\<lparr>rmReferenceID := [], rmDecodedWorkflowName := []\<rparr>,
       trConfig := Some (map_or_empty (trConfig r))\<rparr>"

text \<open>The response of a trigger loses the OCR event, and an error without a text.\<close>

definition norm_trigger_response :: "('d, 'o) TriggerResponse \<Rightarrow> ('d, 'o) TriggerResponse" where
  "norm_trigger_response r =
     r\<lparr>tpEvent := (tpEvent r)\<lparr>teOutputs := Some (map_or_empty (teOutputs (tpEvent r))), teOCREvent := None\<rparr>,
       tpErr := (if tpErr r = Some [] then None else tpErr r)\<rparr>"

lemma map_or_empty_Some [simp]: "map_or_empty (Some m) = m"
  by (simp add: map_or_empty_def)

lemma metering_copy:
  "map (\<lambda>d. \<lparr>mnPeer2PeerID = mnPeer2PeerID d, mnSpendUnit = mnSpendUnit d, mnSpendValue = mnSpendValue d\<rparr>) ds = ds"
  by (induction ds) simp_all

text \<open>
  The contract of a pair of conversions: it gives the message back up to a normal form, refuses a
  nil message, and loses nothing of a message in normal form.
\<close>

locale wire_message =
  fixes toProto :: "'d vlib \<Rightarrow> 'a \<Rightarrow> 'p"
    and fromProto :: "'d vlib \<Rightarrow> 'p option \<Rightarrow> (pb_error, 'a) go"
    and norm :: "'a \<Rightarrow> 'a"
  assumes from_to: "vlib_laws L \<Longrightarrow> fromProto L (Some (toProto L x)) = Ok (norm x)"
    and from_nil: "fromProto L None = Err NilMessage"
    and to_norm: "toProto L (norm x) = toProto L x"
begin

lemma over_the_wire:
  assumes "vlib_laws L" and "\<And>m b. marshal m = Some b \<Longrightarrow> unmarshal b = Some m"
    and "marshal_with marshal (toProto L) x = Some raw"
  shows "unmarshal_with unmarshal (fromProto L) raw = Ok (norm x)"
  using assms by (simp add: marshal_with_def unmarshal_with_def from_to)

text \<open>The receiver can pass the message on: the second trip changes nothing any more.\<close>

lemma forwarded:
  assumes "vlib_laws L" and "fromProto L (Some (toProto L x)) = Ok y"
  shows "fromProto L (Some (toProto L y)) = Ok y"
proof -
  from assms have "y = norm x" by (simp add: from_to)
  with assms(2) show ?thesis by (simp only: to_norm)
qed

lemma norm_norm: "norm (norm x) = norm x"
  if "vlib_laws (L :: 'd vlib)"
  using from_to [OF that, of "norm x"] from_to [OF that, of x] by (simp add: to_norm)

end

interpretation wrequest: wire_message CapabilityRequestToProto CapabilityRequestFromProto norm_request
  by unfold_locales (simp_all add: CapabilityRequestToProto_def CapabilityRequestFromProto_def norm_request_def
      Let_def FromMap_ProtoMap)

interpretation wresponse: wire_message CapabilityResponseToProto CapabilityResponseFromProto norm_response
  by unfold_locales (simp_all add: metering_copy CapabilityResponseToProto_def CapabilityResponseFromProto_def
      norm_response_def FromMap_ProtoMap comp_def)

interpretation wregister:
  wire_message RegisterToWorkflowRequestToProto RegisterToWorkflowRequestFromProto norm_registration
  by unfold_locales (simp_all add: RegisterToWorkflowRequestToProto_def RegisterToWorkflowRequestFromProto_def
      norm_registration_def FromMap_ProtoMap)

interpretation wunregister:
  wire_message UnregisterFromWorkflowRequestToProto UnregisterFromWorkflowRequestFromProto norm_registration
  by unfold_locales (simp_all add: UnregisterFromWorkflowRequestToProto_def
      UnregisterFromWorkflowRequestFromProto_def norm_registration_def FromMap_ProtoMap)

interpretation wtrigger:
  wire_message TriggerRegistrationRequestToProto TriggerRegistrationRequestFromProto norm_trigger_registration
  by unfold_locales (simp_all add: TriggerRegistrationRequestToProto_def
      TriggerRegistrationRequestFromProto_def norm_trigger_registration_def Let_def FromMap_ProtoMap)

interpretation wevent: wire_message TriggerResponseToProto TriggerResponseFromProto norm_trigger_response
  by unfold_locales (auto simp: TriggerResponseToProto_def TriggerResponseFromProto_def
      norm_trigger_response_def FromMap_ProtoMap split: option.splits)

text \<open>
  Requests, responses, registrations, trigger registrations and trigger responses arrive as they were
  sent, except for what the wire form has no place for: a nil map arrives empty, a trigger registration
  without its step reference and decoded workflow name, a trigger response without its OCR event and
  without an error that has no text.
\<close>

lemma messages_arrive:
  assumes "vlib_laws L"
  shows "CapabilityRequestFromProto L (Some (CapabilityRequestToProto L rq)) = Ok (norm_request rq) \<and>
    CapabilityResponseFromProto L (Some (CapabilityResponseToProto L rs)) = Ok (norm_response rs) \<and>
    RegisterToWorkflowRequestFromProto L (Some (RegisterToWorkflowRequestToProto L rg)) = Ok (norm_registration rg) \<and>
    UnregisterFromWorkflowRequestFromProto L (Some (UnregisterFromWorkflowRequestToProto L rg)) = Ok (norm_registration rg) \<and>
    TriggerRegistrationRequestFromProto L (Some (TriggerRegistrationRequestToProto L tr)) = Ok (norm_trigger_registration tr) \<and>
    TriggerResponseFromProto L (Some (TriggerResponseToProto L tp)) = Ok (norm_trigger_response tp)"
  using wrequest.from_to wresponse.from_to wregister.from_to wunregister.from_to wtrigger.from_to wevent.from_to
    assms by blast

definition wire_metadata :: RequestMetadata where
  "wire_metadata = \<lparr>rmWorkflowID = ''w'', rmWorkflowOwner = ''o'', rmWorkflowExecutionID = ''e'',
     rmWorkflowName = ''n'', rmWorkflowDonID = 1, rmWorkflowDonConfigVersion = 2,
     rmReferenceID = ''step'', rmDecodedWorkflowName = ''name''\<rparr>"

lemma messages_arrive_witness:
  "TriggerRegistrationRequestFromProto pair_vlib (Some (TriggerRegistrationRequestToProto pair_vlib
     \<lparr>trTriggerID = ''t'', trMetadata = wire_metadata, trConfig = Some [(''x'', VBool True)]\<rparr>)) =
   Ok \<lparr>trTriggerID = ''t'',
       trMetadata = wire_metadata\<lparr>rmReferenceID := [], rmDecodedWorkflowName := []\<rparr>,
       trConfig = Some [(''x'', VBool True)]\<rparr>"
  using messages_arrive [OF pair_vlib_laws, THEN conjunct2, THEN conjunct2, THEN conjunct2, THEN conjunct2,
      THEN conjunct1,
      of "\<lparr>trTriggerID = ''t'', trMetadata = wire_metadata, trConfig = Some [(''x'', VBool True)]\<rparr>"]
  by (simp add: norm_trigger_registration_def)

end
