(* ===== verification/MercuryTrigger.thy ===== *)
theory MercuryTrigger
  imports Feeds CapabilityPb "HOL-Library.Signed_Division"
begin

text \<open>
  The streams trigger (\<^verbatim>\<open>pkg/capabilities/triggers/mercury_trigger.go\<close>), which sends the latest reports of
  the feeds a workflow asked for at every multiple of its frequency, and the aggregator of the events
  that several remote nodes sent (\<^verbatim>\<open>mercury_remote_aggregator.go\<close>), which trusts signatures and not senders.

  The report codec (unwrapping and the check of signatures) is an argument. A channel is its buffer and
  whether it is closed. Every method of the service runs under its lock, so they are atomic.
\<close>

section \<open>Events\<close>

definition report_any :: "FeedReport \<Rightarrow> 'd any" where
  "report_any r = AMap [(''FeedID'', AString (frFeedID r)), (''FullReport'', ABytes (frFullReport r)),
     (''ReportContext'', ABytes (frReportContext r)), (''Signatures'', ASlice (map ABytes (frSignatures r))),
     (''BenchmarkPrice'', ABytes (frBenchmarkPrice r)),
     (''ObservationTimestamp'', AInt KInt64 (sint (frObservationTimestamp r)))]"

definition event_struct :: "StreamsTriggerEvent \<Rightarrow> (string \<times> 'd any) list" where
  "event_struct e = [(''Payload'', ASlice (map report_any (stPayload e))),
     (''Metadata'', AMap [(''Signers'', ASlice (map ABytes (smSigners (stMetadata e)))),
        (''MinRequiredSignatures'', AInt KInt (smMinRequiredSignatures (stMetadata e)))]),
     (''Timestamp'', AInt KInt64 (sint (stTimestamp e)))]"

definition WrapReports ::
    "FeedReport list \<Rightarrow> string \<Rightarrow> int64 \<Rightarrow> StreamsMetadata \<Rightarrow> string \<Rightarrow> (verr, ('d, 'o) TriggerResponse) go" where
  "WrapReports reportList eventID timestamp meta capID =
     go_bind (NewMap (event_struct \<lparr>stPayload = reportList, stMetadata = meta, stTimestamp = timestamp\<rparr>)) (\<lambda>outputsv.
       Ok \<lparr>tpEvent = \<lparr>teTriggerType = capID, teID = eventID, teOutputs = Some outputsv, teOCREvent = None\<rparr>,
           tpErr = None\<rparr>)"

section \<open>The remote aggregator\<close>

record 'd remote_aggregator =
  raUnwrap :: "'d vmap option \<Rightarrow> FeedReport list option"
  raValidate :: "FeedReport \<Rightarrow> bytes list \<Rightarrow> int \<Rightarrow> bool"
  raAllowedSigners :: "bytes list"
  raMinRequiredSignatures :: int
  raCapID :: string

type_synonym reports_map = "(string, FeedReport) gomap"

definition valid_report :: "'d remote_aggregator \<Rightarrow> FeedReport \<Rightarrow> bool" where
  "valid_report A r = raValidate A r (raAllowedSigners A) (raMinRequiredSignatures A)"

text \<open>
  The body of the inner loop. The state is the latest reports of this call, those of all calls, and the
  timestamp of the event.
\<close>

definition remote_report ::
    "'d remote_aggregator \<Rightarrow> FeedReport \<Rightarrow> reports_map \<times> reports_map \<times> int64 \<Rightarrow> reports_map \<times> reports_map \<times> int64" where
  "remote_report A report = (\<lambda>(latest, previous, ts).
     let k = frFeedID report;
         (latest1, ts1, found) =
           (case map_of latest k of
              Some l \<Rightarrow> (latest, ts, Some l)
            | None \<Rightarrow>
                (case map_of previous k of
                   Some l \<Rightarrow>
                     (put k l latest,
                      if sint (frObservationTimestamp l) > sint ts then frObservationTimestamp report else ts, Some l)
                 | None \<Rightarrow> (latest, ts, None)))
     in if (case found of None \<Rightarrow> True | Some l \<Rightarrow> sint (frObservationTimestamp report) > sint (frObservationTimestamp l))
        then if valid_report A report
             then (put k report latest1, put k report previous,
                   if sint (frObservationTimestamp report) > sint ts1 then frObservationTimestamp report else ts1)
             else (latest1, previous, ts1)
        else (latest1, previous, ts1))"

definition remote_response ::
    "'d vlib \<Rightarrow> (bytes \<Rightarrow> pbTriggerResponse option) \<Rightarrow> 'd remote_aggregator \<Rightarrow> bytes \<Rightarrow>
     reports_map \<times> reports_map \<times> int64 \<Rightarrow> reports_map \<times> reports_map \<times> int64" where
  "remote_response L unmarshal A rsp st =
     (case (unmarshal_with unmarshal (TriggerResponseFromProto L) rsp :: (pb_error, ('d, unit) TriggerResponse) go) of
        Ok unmarshaled \<Rightarrow>
          (case raUnwrap A (teOutputs (tpEvent unmarshaled)) of
             None \<Rightarrow> st
           | Some feedReports \<Rightarrow> fold (remote_report A) feedReports st)
      | _ \<Rightarrow> st)"

datatype remote_error = NoValidReports | RemoteWrap verr

text \<open>\<^verbatim>\<open>sort.Strings\<close> gives the one ascending list whatever the order of the map was.\<close>

definition remote_Aggregate ::
    "'d vlib \<Rightarrow> (bytes \<Rightarrow> pbTriggerResponse option) \<Rightarrow> 'd remote_aggregator \<Rightarrow> reports_map \<Rightarrow> string \<Rightarrow> bytes list \<Rightarrow>
     reports_map \<times> (remote_error, ('d, unit) TriggerResponse) go" where
  "remote_Aggregate L unmarshal A previous triggerEventID responses =
     (case fold (remote_response L unmarshal A) responses ([], previous, 0) of
        (latest, previous', ts) \<Rightarrow>
          (previous',
           if latest = [] then Err NoValidReports
           else
             (let allIDs = sort (map (\<lambda>(k, r). frFeedID r) latest);
                  reportList = map (\<lambda>k. case map_of latest k of Some r \<Rightarrow> r | None \<Rightarrow> zero_report) allIDs
              in go_mapErr RemoteWrap
                   (WrapReports reportList triggerEventID ts
                      \<lparr>smSigners = raAllowedSigners A, smMinRequiredSignatures = raMinRequiredSignatures A\<rparr>
                      (raCapID A)))))"

section \<open>The trigger service\<close>

record TriggerConfig =
  tcFeedIds :: "string list option"
  tcMaxFrequencyMs :: uint64

record subscriber =
  sbCh :: nat
  sbWorkflowID :: string
  sbConfig :: TriggerConfig

record 'd channel =
  chBuffer :: "('d, unit) TriggerResponse list"
  chClosed :: bool

record 'd MercuryTriggerService =
  msTickerResolutionMs :: int64
  msSubscribers :: "(string, subscriber) gomap"
  msLatestReports :: reports_map
  msChannels :: "'d channel list"
  msMetaOverride :: StreamsMetadata
  msID :: string

datatype mts_error = BadConfig | AlreadyRegistered string | NotMultiple | NotRegistered string

definition defaultSendChannelBufferSize :: nat where "defaultSendChannelBufferSize = 1000"

definition NewMercuryTriggerService ::
    "int64 \<Rightarrow> string \<Rightarrow> string \<Rightarrow> (info_error, 'd MercuryTriggerService) go" where
  "NewMercuryTriggerService tickerResolutionMs capName capVersion =
     go_bind
       (NewCapabilityInfo
          ((if capName = [] then ''streams-trigger'' else capName) @ ''@'' @
           (if capVersion = [] then ''1.1.0'' else capVersion)) ''trigger'' ''Streams Trigger''
        :: (info_error, CapabilityInfo) go)
       (\<lambda>capInfo.
          Ok \<lparr>msTickerResolutionMs = (if tickerResolutionMs = 0 then 1000 else tickerResolutionMs),
              msSubscribers = [], msLatestReports = [], msChannels = [],
              msMetaOverride = \<lparr>smSigners = [], smMinRequiredSignatures = 0\<rparr>, msID = ciID capInfo\<rparr>)"

definition SetMetaOverride :: "StreamsMetadata \<Rightarrow> 'd MercuryTriggerService \<Rightarrow> 'd MercuryTriggerService" where
  "SetMetaOverride meta svc = svc\<lparr>msMetaOverride := meta\<rparr>"

definition ProcessReport :: "FeedReport list \<Rightarrow> 'd MercuryTriggerService \<Rightarrow> 'd MercuryTriggerService" where
  "ProcessReport reports svc = svc\<lparr>msLatestReports := fold (\<lambda>r m. put (frFeedID r) r m) reports (msLatestReports svc)\<rparr>"

text \<open>
  \<^verbatim>\<open>ValidateConfig\<close> unwraps the config (\<^verbatim>\<open>mapstructure\<close>, the argument) and passes it through JSON, whose
  generated decoder checks every feed id against \<^verbatim>\<open>^0x[0-9a-f]{64}$\<close>, the list unless it is nil, and the
  frequency.
\<close>

definition FeedId_pattern :: "string \<Rightarrow> bool" where
  "FeedId_pattern s \<longleftrightarrow> length s = 66 \<and> take 2 s = ''0x'' \<and> list_all (\<lambda>c. c \<in> set ''0123456789abcdef'') (drop 2 s)"

definition TriggerConfig_UnmarshalJSON :: "TriggerConfig \<Rightarrow> TriggerConfig option" where
  "TriggerConfig_UnmarshalJSON plain =
     (if (case tcFeedIds plain of None \<Rightarrow> False | Some ids \<Rightarrow> \<not> list_all FeedId_pattern ids) then None
      else if tcFeedIds plain = Some [] then None
      else if 1 > tcMaxFrequencyMs plain then None
      else Some plain)"

definition ValidateTriggerConfig ::
    "('d vmap option \<Rightarrow> TriggerConfig option) \<Rightarrow> 'd vmap option \<Rightarrow> TriggerConfig option" where
  "ValidateTriggerConfig unwrapTo config = Option.bind (unwrapTo config) TriggerConfig_UnmarshalJSON"

text \<open>Go's remainder takes the sign of the dividend.\<close>

definition RegisterTrigger ::
    "('d vmap option \<Rightarrow> TriggerConfig option) \<Rightarrow> 'd TriggerRegistrationRequest \<Rightarrow> 'd MercuryTriggerService \<Rightarrow>
     (mts_error, nat) go \<times> 'd MercuryTriggerService" where
  "RegisterTrigger unwrapTo req svc =
     (case ValidateTriggerConfig unwrapTo (trConfig req) of
        None \<Rightarrow> (Err BadConfig, svc)
      | Some config \<Rightarrow>
     if map_of (msSubscribers svc) (trTriggerID req) \<noteq> None then (Err (AlreadyRegistered (msID svc)), svc)
     else if sint (tcMaxFrequencyMs config) smod sint (msTickerResolutionMs svc) \<noteq> 0 then (Err NotMultiple, svc)
     else
     (let ch = length (msChannels svc)
      in (Ok ch,
          svc\<lparr>msChannels := msChannels svc @ [\<lparr>chBuffer = [], chClosed = False\<rparr>],
            msSubscribers := put (trTriggerID req)
              \<lparr>sbCh = ch, sbWorkflowID = rmWorkflowID (trMetadata req), sbConfig = config\<rparr> (msSubscribers svc)\<rparr>)))"

definition UnregisterTrigger ::
    "'d TriggerRegistrationRequest \<Rightarrow> 'd MercuryTriggerService \<Rightarrow> (mts_error, unit) go \<times> 'd MercuryTriggerService" where
  "UnregisterTrigger req svc =
     (case map_of (msSubscribers svc) (trTriggerID req) of
        None \<Rightarrow> (Err (NotRegistered (msID svc)), svc)
      | Some sub \<Rightarrow>
          if chClosed (msChannels svc ! sbCh sub) then (Panic, svc)
          else (Ok (), svc\<lparr>msChannels := (msChannels svc)[sbCh sub := (msChannels svc ! sbCh sub)\<lparr>chClosed := True\<rparr>],
                         msSubscribers := del (trTriggerID req) (msSubscribers svc)\<rparr>))"

definition eventID :: "int64 \<Rightarrow> string" where
  "eventID timestamp =
     (let digits = (if sint timestamp < 0 then CHR ''-'' # show_nat (nat (- sint timestamp)) else show_nat (nat (sint timestamp)))
      in ''streams_'' @ replicate (24 - length digits) (CHR ''0'') @ digits)"

definition subscriber_reports :: "subscriber \<Rightarrow> reports_map \<Rightarrow> FeedReport list" where
  "subscriber_reports sub latest = List.map_filter (map_of latest) (case tcFeedIds (sbConfig sub) of None \<Rightarrow> [] | Some ids \<Rightarrow> ids)"

text \<open>
  One subscriber of \<^verbatim>\<open>process\<close>: the remainder panics on zero, a send on a closed channel panics, a send on a
  full one drops the event.
\<close>

definition process_subscriber ::
    "int64 \<Rightarrow> 'd MercuryTriggerService \<Rightarrow> subscriber \<Rightarrow> (mts_error, 'd MercuryTriggerService) go" where
  "process_subscriber timestamp svc sub =
     (if tcMaxFrequencyMs (sbConfig sub) = 0 then Panic
      else if sint timestamp smod sint (tcMaxFrequencyMs (sbConfig sub)) \<noteq> 0 then Ok svc
      else case WrapReports (subscriber_reports sub (msLatestReports svc)) (eventID timestamp) timestamp
                  (msMetaOverride svc) (msID svc) of
             Panic \<Rightarrow> Panic
           | Err _ \<Rightarrow> Ok svc
           | Ok ev \<Rightarrow>
               (let ch = msChannels svc ! sbCh sub
                in if chClosed ch then Panic
                   else if length (chBuffer ch) < defaultSendChannelBufferSize
                   then Ok (svc\<lparr>msChannels := (msChannels svc)[sbCh sub := ch\<lparr>chBuffer := chBuffer ch @ [ev]\<rparr>]\<rparr>)
                   else Ok svc))"

text \<open>\<^verbatim>\<open>order\<close> is the order in which the map of subscribers is visited.\<close>

definition process ::
    "(string \<times> subscriber) list \<Rightarrow> int64 \<Rightarrow> 'd MercuryTriggerService \<Rightarrow> (mts_error, 'd MercuryTriggerService) go" where
  "process order timestamp svc = go_foldM (process_subscriber timestamp) svc (map snd order)"

text \<open>The times of \<^verbatim>\<open>loop\<close>: the wait before the first tick, the tick's aligned time and the wait after it.\<close>

definition firstWait :: "int64 \<Rightarrow> int64 \<Rightarrow> int64" where
  "firstWait now tickerResolutionMs = tickerResolutionMs - word_of_int (sint now smod sint tickerResolutionMs)"

definition aligned :: "int64 \<Rightarrow> int64 \<Rightarrow> int64" where
  "aligned startTs tickerResolutionMs =
     word_of_int (sint (startTs + word_of_int (sint tickerResolutionMs sdiv 2)) sdiv sint tickerResolutionMs) * tickerResolutionMs"

definition getNextWaitIntervalMs :: "int64 \<Rightarrow> int64 \<Rightarrow> int64 \<Rightarrow> int64" where
  "getNextWaitIntervalMs lastTs tickerResolutionMs currentTs =
     (let desiredNext = lastTs + tickerResolutionMs; nextWait = desiredNext - currentTs
      in if sint nextWait \<le> 0 then 0 else nextWait)"

section \<open>Events are readable\<close>

definition report_value :: "FeedReport \<Rightarrow> 'd Value" where
  "report_value r = VMap [(''FeedID'', VString (frFeedID r)), (''FullReport'', VBytes (frFullReport r)),
     (''ReportContext'', VBytes (frReportContext r)), (''Signatures'', VList (map VBytes (frSignatures r))),
     (''BenchmarkPrice'', VBytes (frBenchmarkPrice r)),
     (''ObservationTimestamp'', VInt64 (frObservationTimestamp r))]"

definition event_values :: "FeedReport list \<Rightarrow> int64 \<Rightarrow> StreamsMetadata \<Rightarrow> 'd vmap" where
  "event_values rs ts meta = [(''Payload'', VList (map report_value rs)),
     (''Metadata'', VMap [(''Signers'', VList (map VBytes (smSigners meta))),
        (''MinRequiredSignatures'', VInt64 (word_of_int (smMinRequiredSignatures meta)))]),
     (''Timestamp'', VInt64 ts)]"

lemma go_mapM_Oks [simp]: "go_mapM (\<lambda>r. r) (map (\<lambda>x. Ok (g x)) xs) = Ok (map g xs)"
  by (induction xs) simp_all

lemma Wrap_bytes_list: "Wrap (ASlice (map ABytes bs)) = Ok (VList (map VBytes bs))"
  by (simp add: comp_def)

lemma wrap_int64: "wrap_int KInt64 (sint (w :: int64)) = VInt64 w" "wrap_int KInt n = VInt64 (word_of_int n)"
  by (simp_all add: wrap_int_def)

lemma Wrap_report: "Wrap (report_any r) = Ok (report_value r)"
  by (simp add: report_any_def report_value_def wrap_int64 comp_def)

lemma Wrap_reports: "Wrap (ASlice (map report_any rs)) = Ok (VList (map report_value rs))"
  by (simp add: comp_def Wrap_report)

lemma WrapReports_eq:
  "WrapReports rs eid ts meta cap =
     Ok \<lparr>tpEvent = \<lparr>teTriggerType = cap, teID = eid, teOutputs = Some (event_values rs ts meta), teOCREvent = None\<rparr>,
         tpErr = None\<rparr>"
  by (simp add: WrapReports_def event_struct_def NewMap_def event_values_def wrap_int64 comp_def Wrap_report)

text \<open>What the decoder of events leaves of a report: the fields that are derived from the full report are dropped.\<close>

definition wire_report :: "FeedReport \<Rightarrow> FeedReport" where
  "wire_report r = r\<lparr>frBenchmarkPrice := [], frObservationTimestamp := 0\<rparr>"

lemma unwrap_signatures: "go_mapM unwrap_signature (map VBytes bs) = Ok bs"
  by (induction bs) (simp_all add: unwrap_signature_def)

lemma unwrap_report_value: "unwrap_report (report_value r) = Ok (wire_report r)"
  by (simp add: unwrap_report_def report_value_def getStringField_def getBytesField_def unwrap_signatures wire_report_def)

lemma events_readable:
  "UnwrapStreamsTriggerEventToFeedReportList (VMap (event_values rs ts meta)) = Ok (map wire_report rs)"
proof -
  have "go_mapM unwrap_report (map report_value rs) = Ok (map wire_report rs)"
    by (induction rs) (simp_all add: unwrap_report_value)
  then show ?thesis by (simp add: UnwrapStreamsTriggerEventToFeedReportList_def event_values_def)
qed

section \<open>What the remote aggregator reports\<close>

abbreviation seen_at :: "FeedReport \<Rightarrow> int" where
  "seen_at r \<equiv> sint (frObservationTimestamp r)"

definition incoming ::
    "'d vlib \<Rightarrow> (bytes \<Rightarrow> pbTriggerResponse option) \<Rightarrow> 'd remote_aggregator \<Rightarrow> bytes list \<Rightarrow> FeedReport list" where
  "incoming L unmarshal A responses = concat (map (\<lambda>rsp.
     case (unmarshal_with unmarshal (TriggerResponseFromProto L) rsp :: (pb_error, ('d, unit) TriggerResponse) go) of
       Ok u \<Rightarrow> (case raUnwrap A (teOutputs (tpEvent u)) of None \<Rightarrow> [] | Some rs \<Rightarrow> rs)
     | _ \<Rightarrow> []) responses)"

lemma remote_responses_fold:
  "fold (remote_response L unmarshal A) responses st = fold (remote_report A) (incoming L unmarshal A responses) st"
  by (induction responses arbitrary: st)
    (auto simp: incoming_def remote_response_def split: go.splits option.splits)

text \<open>Every stored report is valid and stands under its feed; those of this call are the stored ones.\<close>

definition reports_inv :: "'d remote_aggregator \<Rightarrow> reports_map \<Rightarrow> bool" where
  "reports_inv A m \<longleftrightarrow> gomap_wf m \<and> (\<forall>k r. map_of m k = Some r \<longrightarrow> frFeedID r = k \<and> valid_report A r)"

definition remote_inv :: "'d remote_aggregator \<Rightarrow> reports_map \<times> reports_map \<times> int64 \<Rightarrow> bool" where
  "remote_inv A = (\<lambda>(latest, previous, ts).
     gomap_wf latest \<and> reports_inv A previous \<and> (\<forall>k r. map_of latest k = Some r \<longrightarrow> map_of previous k = Some r))"

definition covers :: "reports_map \<Rightarrow> FeedReport \<Rightarrow> bool" where
  "covers m r \<longleftrightarrow> (\<exists>r'. map_of m (frFeedID r) = Some r' \<and> seen_at r \<le> seen_at r')"

text \<open>A feed that is stored stays stored, with reports that are never older.\<close>

definition reports_grow :: "reports_map \<Rightarrow> reports_map \<Rightarrow> bool" where
  "reports_grow m m' \<longleftrightarrow> (\<forall>k r. map_of m k = Some r \<longrightarrow> (\<exists>r'. map_of m' k = Some r' \<and> seen_at r \<le> seen_at r'))"

lemma reports_grow_refl [simp]: "reports_grow m m"
  by (auto simp: reports_grow_def)

lemma reports_grow_trans: "reports_grow m m' \<Longrightarrow> reports_grow m' m'' \<Longrightarrow> reports_grow m m''"
  unfolding reports_grow_def by (meson order_trans)

lemma covers_grow: "covers m r \<Longrightarrow> reports_grow m m' \<Longrightarrow> covers m' r"
  unfolding covers_def reports_grow_def by (meson order_trans)

lemma remote_report_cases [consumes 2]:
  assumes "remote_report A report (latest, previous, ts) = (latest', previous', ts')"
    and "\<forall>k r. map_of latest k = Some r \<longrightarrow> map_of previous k = Some r"
  obtains (fresh) "valid_report A report" "map_of latest' = (map_of latest)(frFeedID report \<mapsto> report)"
      "gomap_wf latest \<Longrightarrow> gomap_wf latest'" "previous' = put (frFeedID report) report previous"
      "\<And>l. map_of previous (frFeedID report) = Some l \<Longrightarrow> seen_at l < seen_at report"
  | (kept) l where "map_of previous (frFeedID report) = Some l" "previous' = previous"
      "latest' = latest \<and> map_of latest (frFeedID report) = Some l \<or>
       map_of latest (frFeedID report) = None \<and> latest' = put (frFeedID report) l latest"
      "valid_report A report \<Longrightarrow> seen_at report \<le> seen_at l"
  | (rejected) "\<not> valid_report A report" "map_of previous (frFeedID report) = None" "previous' = previous" "latest' = latest"
proof (cases "map_of latest (frFeedID report)")
  case None
  show thesis
  proof (cases "map_of previous (frFeedID report)")
    case None': None
    with None assms(1) fresh rejected show thesis
      by (auto simp: remote_report_def Let_def split: if_splits)
  next
    case (Some l)
    with None assms(1) fresh kept [of l] show thesis
      by (auto simp: remote_report_def Let_def simp del: map_of_eq_Some_iff split: if_splits)
  qed
next
  case (Some l)
  with assms(2) have "map_of previous (frFeedID report) = Some l" by blast
  with Some assms(1) fresh kept [of l] show thesis
    by (auto simp: remote_report_def Let_def simp del: map_of_eq_Some_iff split: if_splits)
qed

lemma remote_report_step:
  assumes inv: "remote_inv A (latest, previous, ts)"
    and step: "remote_report A report (latest, previous, ts) = (latest', previous', ts')"
  shows "remote_inv A (latest', previous', ts') \<and> reports_grow latest latest' \<and> reports_grow previous previous' \<and>
    (valid_report A report \<longrightarrow> covers latest' report) \<and>
    (\<forall>k r. map_of previous' k = Some r \<longrightarrow> map_of previous k = Some r \<or> r = report)"
proof -
  from inv have sub: "\<forall>k r. map_of latest k = Some r \<longrightarrow> map_of previous k = Some r" and wf: "gomap_wf latest"
    and prev: "gomap_wf previous" "\<And>k r. map_of previous k = Some r \<Longrightarrow> frFeedID r = k \<and> valid_report A r"
    by (simp_all add: remote_inv_def reports_inv_def del: map_of_eq_Some_iff)
  show ?thesis using step sub
  proof (cases rule: remote_report_cases)
    case fresh
    then have "map_of previous' = (map_of previous)(frFeedID report \<mapsto> report)" "gomap_wf previous'"
      using prev(1) by (auto simp del: map_of_eq_Some_iff)
    with fresh(1,2,5) fresh(3) [OF wf] sub prev(2) show ?thesis
      by (auto simp: remote_inv_def reports_inv_def reports_grow_def covers_def simp del: map_of_eq_Some_iff)
  next
    case (kept l)
    then have "\<And>k. map_of latest' k = (if k = frFeedID report then Some l else map_of latest k)" "gomap_wf latest'"
      using wf by (auto simp del: map_of_eq_Some_iff)
    with kept(1,2,4) sub prev show ?thesis
      by (auto simp: remote_inv_def reports_inv_def reports_grow_def covers_def simp del: map_of_eq_Some_iff)
  next
    case rejected
    with inv show ?thesis by (simp add: remote_inv_def)
  qed
qed

lemma remote_reports_fold:
  assumes "remote_inv A st" and "fold (remote_report A) reports st = st'"
  shows "remote_inv A st' \<and> reports_grow (fst st) (fst st') \<and> reports_grow (fst (snd st)) (fst (snd st')) \<and>
    (\<forall>r \<in> set reports. valid_report A r \<longrightarrow> covers (fst st') r) \<and>
    (\<forall>k r. map_of (fst (snd st')) k = Some r \<longrightarrow> map_of (fst (snd st)) k = Some r \<or> r \<in> set reports)"
  using assms
proof (induction reports arbitrary: st)
  case (Cons report reports)
  obtain latest previous ts where st: "st = (latest, previous, ts)" by (metis prod_cases3)
  obtain latest1 previous1 ts1 where st1: "remote_report A report st = (latest1, previous1, ts1)" by (metis prod_cases3)
  note step = remote_report_step [OF Cons.prems(1) [unfolded st] st1 [unfolded st]]
  then have inv1: "remote_inv A (latest1, previous1, ts1)" by blast
  have "fold (remote_report A) reports (latest1, previous1, ts1) = st'" using Cons.prems(2) st1 by simp
  note rest = Cons.IH [OF inv1 this, simplified]
  have "map_of (fst (snd st')) k = Some r \<Longrightarrow> map_of previous k = Some r \<or> r \<in> set (report # reports)" for k r
    using rest step by (metis list.set_intros(1,2))
  with rest step show ?case by (auto simp: st intro: reports_grow_trans covers_grow)
qed simp

text \<open>The reports that are kept after any calls.\<close>

definition remote_history ::
    "'d vlib \<Rightarrow> (bytes \<Rightarrow> pbTriggerResponse option) \<Rightarrow> 'd remote_aggregator \<Rightarrow> (string \<times> bytes list) list \<Rightarrow> reports_map" where
  "remote_history L unmarshal A calls =
     fold (\<lambda>(eid, responses) previous. fst (remote_Aggregate L unmarshal A previous eid responses)) calls []"

lemma remote_Aggregate_previous:
  "fst (remote_Aggregate L unmarshal A previous eid responses) =
     fst (snd (fold (remote_report A) (incoming L unmarshal A responses) ([], previous, 0)))"
  by (simp add: remote_Aggregate_def remote_responses_fold split: prod.splits)

lemma reports_inv_init: "reports_inv A previous \<Longrightarrow> remote_inv A ([], previous, ts)"
  by (simp add: remote_inv_def)

lemma reports_inv_history: "reports_inv A (remote_history L unmarshal A calls)"
proof (induction calls rule: rev_induct)
  case Nil
  then show ?case by (simp add: remote_history_def reports_inv_def)
next
  case (snoc call calls)
  obtain eid responses where call: "call = (eid, responses)" by fastforce
  let ?st = "fold (remote_report A) (incoming L unmarshal A responses) ([], remote_history L unmarshal A calls, 0)"
  have "remote_inv A ?st"
    using remote_reports_fold [OF reports_inv_init [OF snoc] refl] by blast
  moreover have "remote_history L unmarshal A (calls @ [call]) = fst (snd ?st)"
    by (simp add: remote_history_def call remote_Aggregate_previous)
  ultimately show ?case by (auto simp: remote_inv_def split: prod.splits)
qed

lemma sorted_ids:
  assumes "gomap_wf latest" and "\<And>k r. map_of latest k = Some r \<Longrightarrow> frFeedID r = k"
  shows "sort (map (\<lambda>(k, r). frFeedID r) latest) = sort (map fst latest)"
    and "map (\<lambda>k. frFeedID (case map_of latest k of Some r \<Rightarrow> r | None \<Rightarrow> zero_report)) (sort (map fst latest)) = sort (map fst latest)"
proof -
  have feed: "frFeedID r = k" if "(k, r) \<in> set latest" for k r
    using assms that by simp
  then have "map (\<lambda>(k, r). frFeedID r) latest = map fst latest" by (intro map_cong) auto
  then show "sort (map (\<lambda>(k, r). frFeedID r) latest) = sort (map fst latest)" by (rule arg_cong)
  have "frFeedID (case map_of latest k of Some r \<Rightarrow> r | None \<Rightarrow> zero_report) = k" if "k \<in> fst ` set latest" for k
    using assms(2) that by (auto split: option.splits simp: map_of_eq_None_iff)
  then show "map (\<lambda>k. frFeedID (case map_of latest k of Some r \<Rightarrow> r | None \<Rightarrow> zero_report)) (sort (map fst latest)) = sort (map fst latest)"
    by (intro map_idI) simp
qed

text \<open>
  C15. After any earlier calls, an event that is made from the responses of remote nodes holds, in
  ascending order of feeds and once per feed, only reports with valid signatures, which come from these
  responses or were already kept for their feed; none is older than the one kept before, and for every
  valid report in the responses there is one of its feed that is at least as new. The event is readable
  by the feeds aggregator.
\<close>

theorem remote_event_trustworthy:
  assumes "previous = remote_history L unmarshal A calls"
    and "remote_Aggregate L unmarshal A previous eid responses = (previous', Ok resp)"
  shows "\<exists>rs ts meta. teOutputs (tpEvent resp) = Some (event_values rs ts meta) \<and>
    UnwrapStreamsTriggerEventToFeedReportList (VMap (event_values rs ts meta) :: 'd Value) = Ok (map wire_report rs) \<and>
    sorted_wrt (<) (map frFeedID rs) \<and>
    (\<forall>r \<in> set rs. valid_report A r \<and>
       (r \<in> set (incoming L unmarshal A responses) \<or> map_of previous (frFeedID r) = Some r) \<and>
       (\<forall>p. map_of previous (frFeedID r) = Some p \<longrightarrow> seen_at p \<le> seen_at r)) \<and>
    (\<forall>r \<in> set (incoming L unmarshal A responses). valid_report A r \<longrightarrow>
       (\<exists>r' \<in> set rs. frFeedID r' = frFeedID r \<and> seen_at r \<le> seen_at r'))"
proof -
  obtain latest kept ts where st: "fold (remote_report A) (incoming L unmarshal A responses) ([], previous, 0) = (latest, kept, ts)"
    by (metis prod_cases3)
  note fold = remote_reports_fold [OF reports_inv_init [OF reports_inv_history [of A L unmarshal calls]], folded assms(1), OF st]
  then have wf: "gomap_wf latest" and sub: "\<And>k r. map_of latest k = Some r \<Longrightarrow> map_of kept k = Some r"
    and inv: "\<And>k r. map_of kept k = Some r \<Longrightarrow> frFeedID r = k \<and> valid_report A r"
    by (auto simp: remote_inv_def reports_inv_def simp del: map_of_eq_Some_iff)
  define rs where "rs = map (\<lambda>k. case map_of latest k of Some r \<Rightarrow> r | None \<Rightarrow> zero_report) (sort (map fst latest))"
  have feed: "frFeedID r = k" if "map_of latest k = Some r" for k r using that sub inv by blast
  have "latest \<noteq> []" "teOutputs (tpEvent resp) = Some (event_values rs ts
      \<lparr>smSigners = raAllowedSigners A, smMinRequiredSignatures = raMinRequiredSignatures A\<rparr>)"
    using assms(2) sorted_ids(1) [OF wf feed]
    by (auto simp: remote_Aggregate_def remote_responses_fold st WrapReports_eq rs_def Let_def split: if_splits)
  moreover have "sorted_wrt (<) (map frFeedID rs)"
    using sorted_ids(2) [OF wf feed] wf by (simp add: rs_def comp_def strict_sorted_iff)
  moreover have mem: "r \<in> set rs \<longleftrightarrow> map_of latest (frFeedID r) = Some r" for r
  proof -
    have "set rs = {r. \<exists>k. map_of latest k = Some r}"
      by (force simp: rs_def map_of_eq_None_iff simp del: map_of_eq_Some_iff split: option.splits dest: map_of_SomeD)
    with feed show ?thesis by blast
  qed
  moreover have "\<forall>r \<in> set rs. valid_report A r \<and>
       (r \<in> set (incoming L unmarshal A responses) \<or> map_of previous (frFeedID r) = Some r) \<and>
       (\<forall>p. map_of previous (frFeedID r) = Some p \<longrightarrow> seen_at p \<le> seen_at r)"
  proof
    fix r assume "r \<in> set rs"
    then have r: "map_of kept (frFeedID r) = Some r" using mem sub by blast
    with fold have "r \<in> set (incoming L unmarshal A responses) \<or> map_of previous (frFeedID r) = Some r"
      by simp blast
    moreover have "seen_at p \<le> seen_at r" if "map_of previous (frFeedID r) = Some p" for p
      using fold r that by (fastforce simp: reports_grow_def simp del: map_of_eq_Some_iff)
    ultimately show "valid_report A r \<and>
       (r \<in> set (incoming L unmarshal A responses) \<or> map_of previous (frFeedID r) = Some r) \<and>
       (\<forall>p. map_of previous (frFeedID r) = Some p \<longrightarrow> seen_at p \<le> seen_at r)" using inv [OF r] by blast
  qed
  moreover have "\<forall>r \<in> set (incoming L unmarshal A responses). valid_report A r \<longrightarrow>
       (\<exists>r' \<in> set rs. frFeedID r' = frFeedID r \<and> seen_at r \<le> seen_at r')"
  proof (intro ballI impI)
    fix r assume "r \<in> set (incoming L unmarshal A responses)" "valid_report A r"
    with fold have "covers latest r" by simp
    then obtain r' where r': "map_of latest (frFeedID r) = Some r'" "seen_at r \<le> seen_at r'" by (auto simp: covers_def)
    with feed [OF r'(1)] mem [of r'] show "\<exists>r' \<in> set rs. frFeedID r' = frFeedID r \<and> seen_at r \<le> seen_at r'" by auto
  qed
  ultimately show ?thesis using events_readable by blast
qed

definition sample_report :: FeedReport where
  "sample_report = zero_report\<lparr>frFeedID := ''0xf'', frObservationTimestamp := 7\<rparr>"

definition sample_remote :: "'d remote_aggregator" where
  "sample_remote = \<lparr>raUnwrap = (\<lambda>_. Some [sample_report]), raValidate = (\<lambda>r ss n. frObservationTimestamp r = 7),
     raAllowedSigners = [], raMinRequiredSignatures = 1, raCapID = ''s''\<rparr>"

definition sample_unmarshal :: "bytes \<Rightarrow> pbTriggerResponse option" where
  "sample_unmarshal b = Some \<lparr>pnError = [], pnEvent = None\<rparr>"

theorem remote_event_trustworthy_witness:
  "\<exists>previous' resp. remote_Aggregate unit_vlib sample_unmarshal sample_remote [] ''e'' [[1], [2]] = (previous', Ok resp) \<and>
     (\<exists>rs ts meta. teOutputs (tpEvent resp) = Some (event_values rs ts meta) \<and> map frFeedID rs = [''0xf''])"
proof -
  let ?agg = "remote_Aggregate unit_vlib sample_unmarshal sample_remote [] ''e'' [[1], [2]]"
  let ?resp = "\<lparr>tpEvent = \<lparr>teTriggerType = ''s'', teID = ''e'', teOutputs = Some (event_values [sample_report] 7
       \<lparr>smSigners = [], smMinRequiredSignatures = 1\<rparr>), teOCREvent = None\<rparr>, tpErr = None\<rparr> :: (unit, unit) TriggerResponse"
  have "incoming unit_vlib sample_unmarshal sample_remote [[1], [2]] = [sample_report, sample_report]"
    by (simp add: incoming_def unmarshal_with_def sample_unmarshal_def TriggerResponseFromProto_def sample_remote_def)
  moreover have "valid_report sample_remote sample_report" "frFeedID sample_report = ''0xf''" "frObservationTimestamp sample_report = 7"
    by (simp_all add: valid_report_def sample_remote_def sample_report_def)
  ultimately have "fold (remote_response unit_vlib sample_unmarshal sample_remote) [[1], [2]] ([], [], 0) =
      ([(''0xf'', sample_report)], [(''0xf'', sample_report)], 7)"
    by (subst remote_responses_fold) (simp add: remote_report_def put_def Let_def)
  then have agg: "?agg = ([(''0xf'', sample_report)], Ok ?resp)"
    by (simp add: remote_Aggregate_def WrapReports_eq sample_remote_def Let_def sample_report_def)
  have "[] = remote_history unit_vlib sample_unmarshal sample_remote []" by (simp add: remote_history_def)
  from remote_event_trustworthy [OF this agg] obtain rs ts meta
    where out: "teOutputs (tpEvent ?resp) = Some (event_values rs ts meta)" "sorted_wrt (<) (map frFeedID rs)"
      "UnwrapStreamsTriggerEventToFeedReportList (VMap (event_values rs ts meta) :: unit Value) = Ok (map wire_report rs)"
    by blast
  from out(1) have "(event_values rs ts meta :: unit vmap) = event_values [sample_report] 7 \<lparr>smSigners = [], smMinRequiredSignatures = 1\<rparr>"
    by simp
  with out(3) have "map wire_report rs = map wire_report [sample_report]" by (simp only: events_readable go.inject)
  then have "map frFeedID (map wire_report rs) = map frFeedID (map wire_report [sample_report])" by simp
  then have "map frFeedID rs = [''0xf'']" by (simp add: wire_report_def sample_report_def comp_def)
  with agg out(1) show ?thesis by (intro exI conjI)
qed

text \<open>
  The timestamp of the combined event is not covered by the signatures: when the report of a feed is taken
  from the past calls, a report that fails validation still sets it.
\<close>

lemma forged_timestamp:
  assumes "map_of previous (frFeedID r) = Some l" and "frFeedID l = frFeedID r" and "0 < seen_at l" and "\<not> valid_report A r"
    and "incoming L unmarshal A responses = [r]"
  shows "\<exists>meta. snd (remote_Aggregate L unmarshal A previous eid responses) =
    Ok \<lparr>tpEvent = \<lparr>teTriggerType = raCapID A, teID = eid,
           teOutputs = Some (event_values [l] (frObservationTimestamp r) meta),
           teOCREvent = None\<rparr>, tpErr = None\<rparr>"
  using assms
  by (auto simp: remote_Aggregate_def remote_responses_fold remote_report_def WrapReports_eq Let_def put_def
      simp del: map_of_eq_Some_iff)

section \<open>Delivery\<close>

definition due :: "int64 \<Rightarrow> subscriber \<Rightarrow> bool" where
  "due timestamp sub \<longleftrightarrow> sint timestamp smod sint (tcMaxFrequencyMs (sbConfig sub)) = 0"

text \<open>The event that a subscriber gets, and its channel after the tick.\<close>

definition event_for :: "int64 \<Rightarrow> 'd MercuryTriggerService \<Rightarrow> subscriber \<Rightarrow> ('d, unit) TriggerResponse" where
  "event_for timestamp svc sub =
     \<lparr>tpEvent = \<lparr>teTriggerType = msID svc, teID = eventID timestamp,
        teOutputs = Some (event_values (subscriber_reports sub (msLatestReports svc)) timestamp (msMetaOverride svc)),
        teOCREvent = None\<rparr>, tpErr = None\<rparr>"

definition deliver :: "int64 \<Rightarrow> 'd MercuryTriggerService \<Rightarrow> subscriber \<Rightarrow> 'd channel \<Rightarrow> 'd channel" where
  "deliver timestamp svc sub ch =
     (if due timestamp sub \<and> length (chBuffer ch) < defaultSendChannelBufferSize
      then ch\<lparr>chBuffer := chBuffer ch @ [event_for timestamp svc sub]\<rparr> else ch)"

definition sub_ok :: "'d MercuryTriggerService \<Rightarrow> subscriber \<Rightarrow> bool" where
  "sub_ok svc sub \<longleftrightarrow> sbCh sub < length (msChannels svc) \<and> \<not> chClosed (msChannels svc ! sbCh sub) \<and>
     tcMaxFrequencyMs (sbConfig sub) \<noteq> 0 \<and>
     sint (tcMaxFrequencyMs (sbConfig sub)) smod sint (msTickerResolutionMs svc) = 0"

definition service_inv :: "'d MercuryTriggerService \<Rightarrow> bool" where
  "service_inv svc \<longleftrightarrow> gomap_wf (msSubscribers svc) \<and> msTickerResolutionMs svc \<noteq> 0 \<and>
     distinct (map (sbCh \<circ> snd) (msSubscribers svc)) \<and> (\<forall>e \<in> set (msSubscribers svc). sub_ok svc (snd e)) \<and>
     (\<forall>ch \<in> set (msChannels svc). length (chBuffer ch) \<le> defaultSendChannelBufferSize)"

lemma process_subscriber_eq:
  "sub_ok svc sub \<Longrightarrow> process_subscriber timestamp svc sub =
     Ok (svc\<lparr>msChannels := (msChannels svc)[sbCh sub := deliver timestamp svc sub (msChannels svc ! sbCh sub)]\<rparr>)"
  by (simp add: process_subscriber_def sub_ok_def deliver_def due_def event_for_def WrapReports_eq Let_def)

lemma deliver_keeps [simp]:
  "chClosed (deliver timestamp svc sub ch) = chClosed ch"
  "length (chBuffer ch) \<le> defaultSendChannelBufferSize \<Longrightarrow>
     length (chBuffer (deliver timestamp svc sub ch)) \<le> defaultSendChannelBufferSize"
  "deliver timestamp (svc\<lparr>msChannels := chs\<rparr>) = deliver timestamp svc"
  by (auto simp: deliver_def event_for_def fun_eq_iff)

lemma process_fold:
  assumes "distinct (map sbCh subs)" and "\<And>sub. sub \<in> set subs \<Longrightarrow> sub_ok svc sub"
  shows "\<exists>chs. go_foldM (process_subscriber timestamp) svc subs = Ok (svc\<lparr>msChannels := chs\<rparr>) \<and>
    length chs = length (msChannels svc) \<and>
    (\<forall>sub \<in> set subs. chs ! sbCh sub = deliver timestamp svc sub (msChannels svc ! sbCh sub)) \<and>
    (\<forall>c. c \<notin> sbCh ` set subs \<longrightarrow> chs ! c = msChannels svc ! c)"
  using assms
proof (induction subs arbitrary: svc)
  case Nil
  show ?case by (intro exI [of _ "msChannels svc"]) simp
next
  case (Cons sub subs)
  let ?chs1 = "(msChannels svc)[sbCh sub := deliver timestamp svc sub (msChannels svc ! sbCh sub)]"
  have ok: "sub_ok svc sub" using Cons.prems by simp
  then have len: "sbCh sub < length (msChannels svc)" by (simp add: sub_ok_def)
  have "sub_ok (svc\<lparr>msChannels := ?chs1\<rparr>) s" if "s \<in> set subs" for s
    using Cons.prems(2) [of s] that len by (auto simp: sub_ok_def nth_list_update)
  with Cons.IH [of "svc\<lparr>msChannels := ?chs1\<rparr>"] Cons.prems(1)
  obtain chs where chs: "go_foldM (process_subscriber timestamp) (svc\<lparr>msChannels := ?chs1\<rparr>) subs = Ok (svc\<lparr>msChannels := chs\<rparr>)"
    "length chs = length (msChannels svc)"
    "\<And>s. s \<in> set subs \<Longrightarrow> chs ! sbCh s = deliver timestamp svc s (?chs1 ! sbCh s)"
    "\<And>c. c \<notin> sbCh ` set subs \<Longrightarrow> chs ! c = ?chs1 ! c"
    by auto
  have "?chs1 ! sbCh s = msChannels svc ! sbCh s" if "s \<in> set subs" for s
    using Cons.prems(1) that by (intro nth_list_update_neq) auto
  with chs Cons.prems(1) len ok show ?case
    by (auto simp: process_subscriber_eq nth_list_update intro!: exI [of _ chs])
qed

text \<open>
  What may happen to the service: the calls of its methods, a tick, and a workflow that receives from its
  channel.
\<close>

inductive mts_step :: "('d vmap option \<Rightarrow> TriggerConfig option) \<Rightarrow> 'd MercuryTriggerService \<Rightarrow> 'd MercuryTriggerService \<Rightarrow> bool"
  for unwrapTo where
  register: "mts_step unwrapTo svc (snd (RegisterTrigger unwrapTo req svc))"
| unregister: "mts_step unwrapTo svc (snd (UnregisterTrigger req svc))"
| reports: "mts_step unwrapTo svc (ProcessReport rs svc)"
| override: "mts_step unwrapTo svc (SetMetaOverride meta svc)"
| tick: "mset order = mset (msSubscribers svc) \<Longrightarrow> process order timestamp svc = Ok svc' \<Longrightarrow> mts_step unwrapTo svc svc'"
| receive: "c < length (msChannels svc) \<Longrightarrow> chBuffer (msChannels svc ! c) = ev # rest \<Longrightarrow>
    mts_step unwrapTo svc (svc\<lparr>msChannels := (msChannels svc)[c := (msChannels svc ! c)\<lparr>chBuffer := rest\<rparr>]\<rparr>)"

inductive mts_reachable :: "('d vmap option \<Rightarrow> TriggerConfig option) \<Rightarrow> 'd MercuryTriggerService \<Rightarrow> bool"
  for unwrapTo where
  start: "NewMercuryTriggerService res capName capVersion = Ok svc \<Longrightarrow> mts_reachable unwrapTo svc"
| step: "mts_reachable unwrapTo svc \<Longrightarrow> mts_step unwrapTo svc svc' \<Longrightarrow> mts_reachable unwrapTo svc'"

lemma process_total:
  assumes "service_inv svc" and "mset order = mset (msSubscribers svc)"
  shows "\<exists>chs. process order timestamp svc = Ok (svc\<lparr>msChannels := chs\<rparr>) \<and> length chs = length (msChannels svc) \<and>
    (\<forall>sub \<in> snd ` set (msSubscribers svc). chs ! sbCh sub = deliver timestamp svc sub (msChannels svc ! sbCh sub)) \<and>
    (\<forall>c. c \<notin> sbCh ` snd ` set (msSubscribers svc) \<longrightarrow> chs ! c = msChannels svc ! c)"
proof -
  have "mset (map (sbCh \<circ> snd) order) = mset (map (sbCh \<circ> snd) (msSubscribers svc))" using assms(2) by simp
  then have "distinct (map (sbCh \<circ> snd) order)"
    using assms(1) unfolding service_inv_def by (metis mset_eq_imp_distinct_iff)
  moreover have "set order = set (msSubscribers svc)" using assms(2) by (metis mset_eq_setD)
  ultimately show ?thesis
    using process_fold [of "map snd order" svc timestamp] assms(1) by (auto simp: process_def service_inv_def)
qed

lemma sub_ok_channels:
  assumes "sub_ok svc sub" and "length (msChannels svc) \<le> length chs"
    and "chClosed (chs ! sbCh sub) = chClosed (msChannels svc ! sbCh sub)"
  shows "sub_ok (svc\<lparr>msChannels := chs\<rparr>) sub"
  using assms by (simp add: sub_ok_def)

lemma register_keeps:
  assumes "service_inv svc"
  shows "service_inv (snd (RegisterTrigger unwrapTo req svc))"
proof (cases "snd (RegisterTrigger unwrapTo req svc) = svc")
  case False
  then obtain config where cfg: "ValidateTriggerConfig unwrapTo (trConfig req) = Some config"
      "map_of (msSubscribers svc) (trTriggerID req) = None"
      "sint (tcMaxFrequencyMs config) smod sint (msTickerResolutionMs svc) = 0"
    by (auto simp: RegisterTrigger_def simp del: map_of_eq_Some_iff split: option.splits if_splits)
  then have freq: "tcMaxFrequencyMs config \<noteq> 0"
    by (auto simp: ValidateTriggerConfig_def TriggerConfig_UnmarshalJSON_def bind_eq_Some_conv split: if_splits)
  have fresh: "\<And>e. e \<in> set (msSubscribers svc) \<Longrightarrow> sbCh (snd e) < length (msChannels svc)"
    using assms by (simp add: service_inv_def sub_ok_def)
  then have "length (msChannels svc) \<notin> (sbCh \<circ> snd) ` set (msSubscribers svc)" by force
  with assms cfg freq fresh show ?thesis
    by (auto simp: RegisterTrigger_def Let_def service_inv_def sub_ok_def nth_append put_new gomap_dom_iff
        defaultSendChannelBufferSize_def intro: less_SucI)
qed (use assms in simp)

lemma unregister_keeps:
  assumes "service_inv svc"
  shows "service_inv (snd (UnregisterTrigger req svc))"
proof (cases "map_of (msSubscribers svc) (trTriggerID req)")
  case (Some sub)
  then have mem: "(trTriggerID req, sub) \<in> set (msSubscribers svc)" by (rule map_of_SomeD)
  with assms have ok: "sub_ok svc sub" by (force simp: service_inv_def)
  let ?chs = "(msChannels svc)[sbCh sub := (msChannels svc ! sbCh sub)\<lparr>chClosed := True\<rparr>]"
  have inj: "inj_on (sbCh \<circ> snd) (set (msSubscribers svc))"
    using assms by (simp add: service_inv_def distinct_map)
  have "sbCh sub \<noteq> sbCh (snd e)" if "e \<in> set (del (trTriggerID req) (msSubscribers svc))" for e
    using inj_onD [OF inj, of e "(trTriggerID req, sub)"] that mem by (auto simp: set_del)
  moreover have "distinct (map (sbCh \<circ> snd) (del (trTriggerID req) (msSubscribers svc)))"
    using assms inj_on_subset [OF inj] by (auto simp: service_inv_def del_def AList.delete_eq distinct_map)
  moreover have "\<forall>ch \<in> set ?chs. length (chBuffer ch) \<le> defaultSendChannelBufferSize"
    using assms ok by (auto simp: service_inv_def sub_ok_def dest!: set_update_subset_insert [THEN subsetD])
  moreover have "e \<in> set (msSubscribers svc)" if "e \<in> set (del (trTriggerID req) (msSubscribers svc))" for e
    using that by (simp add: set_del)
  ultimately show ?thesis
    using assms ok Some by (auto simp: UnregisterTrigger_def service_inv_def sub_ok_def simp del: map_of_eq_Some_iff)
qed (use assms in \<open>simp add: UnregisterTrigger_def\<close>)

lemma tick_keeps:
  assumes inv: "service_inv svc" and "mset order = mset (msSubscribers svc)" and "process order timestamp svc = Ok svc'"
  shows "service_inv svc'"
proof -
  obtain chs where chs: "svc' = svc\<lparr>msChannels := chs\<rparr>" "length chs = length (msChannels svc)"
    "\<forall>sub \<in> snd ` set (msSubscribers svc). chs ! sbCh sub = deliver timestamp svc sub (msChannels svc ! sbCh sub)"
    "\<forall>c. c \<notin> sbCh ` snd ` set (msSubscribers svc) \<longrightarrow> chs ! c = msChannels svc ! c"
    using process_total [OF assms(1,2), of timestamp] assms(3) by auto
  have "length (chBuffer (chs ! c)) \<le> defaultSendChannelBufferSize" if "c < length chs" for c
  proof (cases "c \<in> sbCh ` snd ` set (msSubscribers svc)")
    case True
    then obtain sub where sub: "sub \<in> snd ` set (msSubscribers svc)" "c = sbCh sub" by blast
    with chs(3) have "chs ! c = deliver timestamp svc sub (msChannels svc ! c)" by blast
    then show ?thesis using that inv chs(2) by (simp add: service_inv_def)
  next
    case False
    then show ?thesis using that inv chs(2,4) by (simp add: service_inv_def)
  qed
  moreover have "sub_ok svc' (snd e)" if "e \<in> set (msSubscribers svc)" for e
    using that inv chs unfolding chs(1) by (intro sub_ok_channels) (auto simp: service_inv_def)
  ultimately show ?thesis using inv by (auto simp: service_inv_def chs(1) in_set_conv_nth)
qed

lemma receive_keeps:
  assumes "service_inv svc" and "c < length (msChannels svc)" and "chBuffer (msChannels svc ! c) = ev # rest"
  shows "service_inv (svc\<lparr>msChannels := (msChannels svc)[c := (msChannels svc ! c)\<lparr>chBuffer := rest\<rparr>]\<rparr>)"
proof -
  let ?chs = "(msChannels svc)[c := (msChannels svc ! c)\<lparr>chBuffer := rest\<rparr>]"
  have "length (chBuffer (msChannels svc ! c)) \<le> defaultSendChannelBufferSize"
    using assms(1,2) by (simp add: service_inv_def)
  with assms(3) have "length rest \<le> defaultSendChannelBufferSize" by simp
  then have "\<forall>ch \<in> set ?chs. length (chBuffer ch) \<le> defaultSendChannelBufferSize"
    using assms(1) by (auto simp: service_inv_def dest!: set_update_subset_insert [THEN subsetD])
  moreover have "sub_ok (svc\<lparr>msChannels := ?chs\<rparr>) (snd e)" if "e \<in> set (msSubscribers svc)" for e
    using that assms(1,2) by (intro sub_ok_channels) (auto simp: service_inv_def nth_list_update)
  ultimately show ?thesis using assms(1) by (simp add: service_inv_def)
qed

lemma reports_keep: "service_inv svc \<Longrightarrow> service_inv (ProcessReport rs svc)"
  by (simp add: ProcessReport_def service_inv_def sub_ok_def)

lemma override_keeps: "service_inv svc \<Longrightarrow> service_inv (SetMetaOverride meta svc)"
  by (simp add: SetMetaOverride_def service_inv_def sub_ok_def)

lemmas service_keeps = register_keeps unregister_keeps tick_keeps receive_keeps reports_keep override_keeps

lemma new_service_inv: "NewMercuryTriggerService res capName capVersion = Ok svc \<Longrightarrow> service_inv svc"
  by (auto simp: NewMercuryTriggerService_def service_inv_def go_bind_eq_Ok split: if_splits)

lemma reachable_service_inv: "mts_reachable unwrapTo svc \<Longrightarrow> service_inv svc"
  by (induction rule: mts_reachable.induct) (auto intro: service_keeps new_service_inv elim!: mts_step.cases)

lemma unregister_total: "service_inv svc \<Longrightarrow> fst (UnregisterTrigger req svc) \<noteq> Panic"
  by (fastforce simp: UnregisterTrigger_def service_inv_def sub_ok_def simp del: map_of_eq_Some_iff
      dest: map_of_SomeD split: option.splits)

text \<open>
  C27. In every state of the service that registrations, unregistrations, reports, ticks and receipts lead to,
  a tick never panics, in whatever order the subscribers are visited: it puts on the channel of every
  subscriber whose frequency divides the time, unless the channel is full, one event with the latest
  reports of the feeds it asked for, in its order, which the feeds aggregator can read, and leaves every
  other channel as it is. Unregistering never closes a channel twice.
\<close>

theorem streams_tick_delivers:
  assumes "mts_reachable unwrapTo svc" and "mset order = mset (msSubscribers svc)"
  shows "\<exists>chs. process order timestamp svc = Ok (svc\<lparr>msChannels := chs\<rparr>) \<and> length chs = length (msChannels svc) \<and>
    (\<forall>tid sub. map_of (msSubscribers svc) tid = Some sub \<longrightarrow>
       chs ! sbCh sub =
         (let ch = msChannels svc ! sbCh sub
          in if sint timestamp smod sint (tcMaxFrequencyMs (sbConfig sub)) = 0 \<and> length (chBuffer ch) < 1000
             then ch\<lparr>chBuffer := chBuffer ch @ [event_for timestamp svc sub]\<rparr> else ch)) \<and>
    (\<forall>c. (\<forall>tid sub. map_of (msSubscribers svc) tid = Some sub \<longrightarrow> sbCh sub \<noteq> c) \<longrightarrow> chs ! c = msChannels svc ! c) \<and>
    (\<forall>sub. UnwrapStreamsTriggerEventToFeedReportList (VMap (the (teOutputs (tpEvent (event_for timestamp svc sub))))) =
       Ok (map wire_report (subscriber_reports sub (msLatestReports svc)))) \<and>
    fst (UnregisterTrigger req svc) \<noteq> Panic"
proof -
  note inv = reachable_service_inv [OF assms(1)]
  obtain chs where chs: "process order timestamp svc = Ok (svc\<lparr>msChannels := chs\<rparr>)" "length chs = length (msChannels svc)"
    "\<And>sub. sub \<in> snd ` set (msSubscribers svc) \<Longrightarrow> chs ! sbCh sub = deliver timestamp svc sub (msChannels svc ! sbCh sub)"
    "\<And>c. c \<notin> sbCh ` snd ` set (msSubscribers svc) \<Longrightarrow> chs ! c = msChannels svc ! c"
    using process_total [OF inv assms(2), of timestamp] by blast
  have subs: "sub \<in> snd ` set (msSubscribers svc) \<longleftrightarrow> (\<exists>tid. map_of (msSubscribers svc) tid = Some sub)" for sub
    using inv by (force simp: service_inv_def)
  have "chs ! sbCh sub = (let ch = msChannels svc ! sbCh sub
      in if sint timestamp smod sint (tcMaxFrequencyMs (sbConfig sub)) = 0 \<and> length (chBuffer ch) < 1000
         then ch\<lparr>chBuffer := chBuffer ch @ [event_for timestamp svc sub]\<rparr> else ch)"
    if "map_of (msSubscribers svc) tid = Some sub" for tid sub
  proof -
    have "sub \<in> snd ` set (msSubscribers svc)" using that subs by blast
    from chs(3) [OF this] show ?thesis
      by (simp add: deliver_def due_def Let_def defaultSendChannelBufferSize_def)
  qed
  moreover have "chs ! c = msChannels svc ! c" if "\<forall>tid sub. map_of (msSubscribers svc) tid = Some sub \<longrightarrow> sbCh sub \<noteq> c" for c
    using that subs by (intro chs(4)) blast
  moreover have "UnwrapStreamsTriggerEventToFeedReportList (VMap (the (teOutputs (tpEvent (event_for timestamp svc sub))))) =
       Ok (map wire_report (subscriber_reports sub (msLatestReports svc)))" for sub
    by (simp add: event_for_def events_readable)
  ultimately show ?thesis using chs(1,2) unregister_total [OF inv] by blast
qed

definition stream_feed :: string where
  "stream_feed = ''0x'' @ replicate 64 (CHR ''a'')"

definition stream_registration :: "unit TriggerRegistrationRequest" where
  "stream_registration = \<lparr>trTriggerID = ''t'', trMetadata = \<lparr>rmWorkflowID = ''w'', rmWorkflowOwner = [], rmWorkflowExecutionID = [],
     rmWorkflowName = [], rmWorkflowDonID = 0, rmWorkflowDonConfigVersion = 0, rmReferenceID = [], rmDecodedWorkflowName = []\<rparr>,
     trConfig = None\<rparr>"

definition sample_unwrap :: "unit vmap option \<Rightarrow> TriggerConfig option" where
  "sample_unwrap m = Some \<lparr>tcFeedIds = Some [stream_feed], tcMaxFrequencyMs = 2000\<rparr>"

definition sample_service :: "unit MercuryTriggerService" where
  "sample_service = \<lparr>msTickerResolutionMs = 1000, msSubscribers = [], msLatestReports = [], msChannels = [],
     msMetaOverride = \<lparr>smSigners = [], smMinRequiredSignatures = 0\<rparr>, msID = ''streams-trigger@1.1.0''\<rparr>"

definition sample_registered :: "unit MercuryTriggerService" where
  "sample_registered = snd (RegisterTrigger sample_unwrap stream_registration sample_service)"

lemma sample_reachable: "mts_reachable sample_unwrap sample_registered"
proof -
  have "NewCapabilityInfo ''streams-trigger@1.1.0'' ''trigger'' ''Streams Trigger'' =
      (Ok \<lparr>ciID = ''streams-trigger@1.1.0'', ciCapabilityType = ''trigger'', ciDescription = ''Streams Trigger'',
        ciDON = None, ciIsLocal = True\<rparr> :: (info_error, CapabilityInfo) go)"
    by code_simp
  then have "NewMercuryTriggerService 0 [] [] = Ok sample_service"
    by (simp add: NewMercuryTriggerService_def sample_service_def)
  then show ?thesis unfolding sample_registered_def by (rule mts_reachable.step [OF mts_reachable.start mts_step.register])
qed

theorem streams_tick_delivers_witness:
  "\<exists>chs. process (msSubscribers sample_registered) 4000 sample_registered = Ok (sample_registered\<lparr>msChannels := chs\<rparr>) \<and>
     chBuffer (chs ! 0) = [event_for 4000 sample_registered \<lparr>sbCh = 0, sbWorkflowID = ''w'',
       sbConfig = \<lparr>tcFeedIds = Some [stream_feed], tcMaxFrequencyMs = 2000\<rparr>\<rparr>]"
proof -
  let ?sub = "\<lparr>sbCh = 0, sbWorkflowID = ''w'', sbConfig = \<lparr>tcFeedIds = Some [stream_feed], tcMaxFrequencyMs = 2000\<rparr>\<rparr>"
  have "list_all FeedId_pattern [stream_feed]" by code_simp
  then have reg: "msSubscribers sample_registered = [(''t'', ?sub)]" "msChannels sample_registered = [\<lparr>chBuffer = [], chClosed = False\<rparr>]"
    by (simp_all add: sample_registered_def RegisterTrigger_def ValidateTriggerConfig_def TriggerConfig_UnmarshalJSON_def
        sample_unwrap_def sample_service_def stream_registration_def put_def signed_modulo_int_def)
  from streams_tick_delivers [OF sample_reachable refl, of 4000] obtain chs
    where chs: "process (msSubscribers sample_registered) 4000 sample_registered = Ok (sample_registered\<lparr>msChannels := chs\<rparr>)"
      "\<And>tid sub. map_of (msSubscribers sample_registered) tid = Some sub \<Longrightarrow> chs ! sbCh sub =
         (let ch = msChannels sample_registered ! sbCh sub
          in if sint (4000 :: int64) smod sint (tcMaxFrequencyMs (sbConfig sub)) = 0 \<and> length (chBuffer ch) < 1000
             then ch\<lparr>chBuffer := chBuffer ch @ [event_for 4000 sample_registered sub]\<rparr> else ch)"
    by blast
  from chs(2) [of "''t''" ?sub] have "chBuffer (chs ! 0) = [event_for 4000 sample_registered ?sub]"
    by (simp add: reg signed_modulo_int_def)
  with chs(1) show ?thesis by blast
qed

section \<open>The times of the ticks\<close>

lemma sint_in_range: "- (2 ^ 63) \<le> n \<Longrightarrow> n < 2 ^ 63 \<Longrightarrow> sint (word_of_int n :: int64) = n"
  by (simp add: sint_sbintrunc' signed_take_bit_int_eq_self)

lemma sint_add_in_range:
  "0 \<le> sint a \<Longrightarrow> 0 \<le> sint b \<Longrightarrow> sint a + sint b < 2 ^ 63 \<Longrightarrow> sint (a + b :: int64) = sint a + sint b"
  using sint_in_range [of "sint a + sint b"] by (simp add: wi_hom_add)

text \<open>The milliseconds of clocks and resolutions: far below the limit of 64 bits.\<close>

abbreviation clock_range :: "int64 \<Rightarrow> bool" where
  "clock_range t \<equiv> 0 \<le> sint t \<and> sint t < 2 ^ 61"

lemma sdiv_nonneg: "0 \<le> k \<Longrightarrow> 0 < l \<Longrightarrow> k sdiv l = (k div l :: int)"
  by (cases "k = 0") (simp_all add: signed_divide_int_def)

lemma aligned_eq:
  assumes "clock_range startTs" and "0 < sint res" and "sint res < 2 ^ 61"
  shows "sint (aligned startTs res) = (sint startTs + sint res div 2) div sint res * sint res"
proof -
  let ?s = "sint startTs" and ?r = "sint res"
  have half: "?r sdiv 2 = ?r div 2" using assms by (simp add: sdiv_nonneg)
  have "0 \<le> ?r div 2" "?r div 2 < 2 ^ 61" using assms by auto
  then have sum: "sint (startTs + word_of_int (?r sdiv 2)) = ?s + ?r div 2"
    using assms sint_in_range [of "?r div 2"] by (subst sint_add_in_range) (simp_all add: half)
  let ?q = "(?s + ?r div 2) div ?r"
  have q: "0 \<le> ?q" "?q * ?r \<le> ?s + ?r div 2"
    using assms by (simp_all add: pos_imp_zdiv_nonneg_iff) (metis div_mult_mod_eq add_increasing2 assms(2) le_add_same_cancel1 pos_mod_sign)
  have "?q * ?r < 2 ^ 63" using q assms by auto
  moreover have "0 \<le> ?q * ?r" using q assms by simp
  moreover have "(word_of_int ?q :: int64) * res = word_of_int (?q * ?r)" by (simp add: wi_hom_mult [symmetric])
  moreover have "(?s + ?r div 2) sdiv ?r = ?q" using assms by (intro sdiv_nonneg) auto
  ultimately have "aligned startTs res = word_of_int (?q * ?r)" by (simp add: aligned_def sum)
  moreover have "sint (word_of_int (?q * ?r) :: int64) = ?q * ?r"
    using \<open>?q * ?r < 2 ^ 63\<close> \<open>0 \<le> ?q * ?r\<close> by (intro sint_in_range) simp_all
  ultimately show ?thesis by simp
qed

lemma getNextWaitIntervalMs_reaches:
  assumes "clock_range lastTs" and "clock_range res" and "clock_range currentTs"
  shows "sint lastTs + sint res \<le> sint currentTs + sint (getNextWaitIntervalMs lastTs res currentTs)"
    and "0 \<le> sint (getNextWaitIntervalMs lastTs res currentTs)"
proof -
  have "sint (lastTs + res) = sint lastTs + sint res" using assms by (intro sint_add_in_range) auto
  moreover from this have "sint (lastTs + res - currentTs) = sint lastTs + sint res - sint currentTs"
    using assms sint_in_range [of "sint (lastTs + res) - sint currentTs"] by (simp add: wi_hom_sub)
  ultimately show "sint lastTs + sint res \<le> sint currentTs + sint (getNextWaitIntervalMs lastTs res currentTs)"
    and "0 \<le> sint (getNextWaitIntervalMs lastTs res currentTs)"
    by (auto simp: getNextWaitIntervalMs_def Let_def)
qed

lemma rounded_close:
  fixes s r :: int
  assumes "0 < r"
  shows "2 * \<bar>(s + r div 2) div r * r - s\<bar> \<le> r"
proof -
  obtain m h where m: "m = (s + r div 2) mod r" and h: "h = r div 2" by simp
  have "(s + r div 2) div r * r = s + h - m" by (simp add: m h minus_mod_eq_div_mult [symmetric])
  moreover have "0 \<le> m" "m < r" using assms by (simp_all add: m)
  moreover have "2 * h \<le> r" "r \<le> 2 * h + 1" unfolding h by presburger+
  ultimately show ?thesis by (auto simp: abs_if)
qed

text \<open>
  With clocks that are below 2^61 milliseconds, the time of a tick is the multiple of the resolution
  that is nearest to the clock. When the clock has advanced by the computed wait since the end of a
  tick, the time of the next tick is later by at least one resolution, so that no event is sent twice.
\<close>

lemma ticks_advance:
  assumes "clock_range startTs" and "clock_range endTs" and "clock_range startTs'" and "0 < sint res" and "sint res < 2 ^ 60"
    and "sint endTs + sint (getNextWaitIntervalMs (aligned startTs res) res endTs) \<le> sint startTs'"
    and "sint startTs < 2 ^ 60"
  shows "sint res dvd sint (aligned startTs res) \<and> 2 * \<bar>sint (aligned startTs res) - sint startTs\<bar> \<le> sint res \<and>
    sint (aligned startTs res) + sint res \<le> sint (aligned startTs' res)"
proof -
  let ?r = "sint res"
  have eq: "sint (aligned startTs res) = (sint startTs + ?r div 2) div ?r * ?r"
    "sint (aligned startTs' res) = (sint startTs' + ?r div 2) div ?r * ?r"
    using assms by (auto intro!: aligned_eq)
  have multiple: "?r dvd sint (aligned startTs res)" by (simp add: eq)
  have close: "2 * \<bar>sint (aligned startTs res) - sint startTs\<bar> \<le> ?r"
    unfolding eq using assms(4) by (rule rounded_close)
  have "0 \<le> sint (aligned startTs res)" using assms by (simp add: eq pos_imp_zdiv_nonneg_iff)
  then have "clock_range (aligned startTs res)" 
    using abs_ge_self [of "sint (aligned startTs res) - sint startTs"] close assms(5,7) by auto
  with getNextWaitIntervalMs_reaches(1) [of "aligned startTs res" res endTs] assms
  have "sint (aligned startTs res) + ?r \<le> sint startTs'" by auto
  then have "((sint startTs + ?r div 2) div ?r + 1) * ?r \<le> sint startTs' + ?r div 2"
    using assms(4) by (simp add: eq distrib_right)
  then have "(sint startTs + ?r div 2) div ?r + 1 \<le> (sint startTs' + ?r div 2) div ?r"
    using assms(4) by (metis less_irrefl nonzero_mult_div_cancel_right zdiv_mono1)
  then have "((sint startTs + ?r div 2) div ?r + 1) * ?r \<le> (sint startTs' + ?r div 2) div ?r * ?r"
    using assms(4) by (intro mult_right_mono) auto
  then have "sint (aligned startTs res) + ?r \<le> sint (aligned startTs' res)"
    by (simp add: eq distrib_right)
  with multiple close show ?thesis by blast
qed

lemma ticks_advance_witness:
  "sint (aligned 1001 1000) = 1000 \<and> sint (aligned 1001 1000) + 1000 \<le> sint (aligned 2003 1000)"
proof -
  have al: "aligned 1001 1000 = 1000" by (simp add: aligned_def signed_divide_int_def)
  have "sint (aligned 1001 1000) + sint (1000 :: int64) \<le> sint (aligned 2003 1000)"
    using ticks_advance [of 1001 1005 2003 1000] by (simp add: al getNextWaitIntervalMs_def)
  then show ?thesis by (simp add: al)
qed

end
