(* ===== verification/WasmMemory.thy ===== *)
theory WasmMemory
  imports ConsensusTypes
begin

text \<open>
  The memory of a WASM guest as the host reads and writes it
  (\<^verbatim>\<open>read\<close>, \<^verbatim>\<open>write\<close> and \<^verbatim>\<open>writeUInt32\<close> of \<^verbatim>\<open>pkg/workflows/wasm/host/module.go\<close>), and the WASI imports the
  host replaces (\<^verbatim>\<open>wasip1.go\<close>): \<^verbatim>\<open>clock_time_get\<close> and \<^verbatim>\<open>poll_oneoff\<close> on a fake clock, and a seeded
  \<^verbatim>\<open>random_get\<close>.

  Every pointer and length comes from the guest as an \<^verbatim>\<open>int32\<close>, so they are 32-bit words read as signed
  numbers, and sums and products of them wrap. A slice expression or an index out of range panics. The
  lemmas say exactly which arguments are served, refused, or panic.
\<close>

section \<open>Slices\<close>

type_synonym int32 = "32 word"

text \<open>\<^verbatim>\<open>xs[a:b]\<close> and \<^verbatim>\<open>xs[i]\<close> for a slice whose capacity is its length.\<close>

definition go_slice :: "'a list \<Rightarrow> int \<Rightarrow> int \<Rightarrow> ('e, 'a list) go" where
  "go_slice xs a b =
     (if 0 \<le> a \<and> a \<le> b \<and> b \<le> int (length xs) then Ok (take (nat (b - a)) (drop (nat a) xs)) else Panic)"

definition go_index :: "'a list \<Rightarrow> int \<Rightarrow> ('e, 'a) go" where
  "go_index xs i = (if 0 \<le> i \<and> i < int (length xs) then Ok (xs ! nat i) else Panic)"

text \<open>\<^verbatim>\<open>copy\<close> into a window of \<^verbatim>\<open>xs\<close> that starts at \<open>p\<close>, as an update of \<open>xs\<close>.\<close>

definition patch :: "'a list \<Rightarrow> nat \<Rightarrow> 'a list \<Rightarrow> 'a list" where
  "patch xs p ys = take p xs @ ys @ drop (p + length ys) xs"

text \<open>\<^verbatim>\<open>binary.LittleEndian\<close>.\<close>

definition le_fixed :: "nat \<Rightarrow> nat \<Rightarrow> bytes" where
  "le_fixed w n = rev (be_fixed w n)"

definition le_nat :: "bytes \<Rightarrow> nat" where
  "le_nat bs = be_nat (rev bs)"

section \<open>Guest memory\<close>

datatype mem_error = InvalidAccess int32 int32 | OutOfBounds

definition wasmRead :: "bytes \<Rightarrow> int32 \<Rightarrow> int32 \<Rightarrow> (mem_error, bytes) go" where
  "wasmRead memory ptr sz =
     (if sint sz < 0 \<or> sint ptr < 0 then Err (InvalidAccess ptr sz)
      else if sint (ptr + sz) > sint (of_nat (length memory) :: int32) then Err OutOfBounds
      else go_slice memory (sint ptr) (sint (ptr + sz)))"

definition wasmWrite :: "bytes \<Rightarrow> bytes \<Rightarrow> int32 \<Rightarrow> int32 \<Rightarrow> ('e, int \<times> bytes) go" where
  "wasmWrite memory src ptr sz =
     (if sint sz < 0 \<or> sint ptr < 0 then Ok (-1, memory)
      else if int (length src) \<noteq> sint sz then Ok (-1, memory)
      else if sint (of_nat (length memory) :: int32) < sint (ptr + sz) then Ok (-1, memory)
      else go_bind (go_slice memory (sint ptr) (sint (ptr + sz))) (\<lambda>buffer.
           Ok (int (min (length buffer) (length src)), patch memory (nat (sint ptr)) src)))"

definition wasmWriteUInt32 :: "bytes \<Rightarrow> int32 \<Rightarrow> uint32 \<Rightarrow> ('e, int \<times> bytes) go" where
  "wasmWriteUInt32 memory ptr val = wasmWrite memory (le_fixed 4 (unat val)) ptr 4"

section \<open>Error numbers\<close>

definition ErrnoSuccess :: int32 where "ErrnoSuccess = 0"
definition ErrnoBadf :: int32 where "ErrnoBadf = 8"
definition ErrnoFault :: int32 where "ErrnoFault = 21"
definition ErrnoInval :: int32 where "ErrnoInval = 28"
definition ErrnoNotsup :: int32 where "ErrnoNotsup = 58"

section \<open>The clock\<close>

text \<open>
  The fake clock (\<^verbatim>\<open>clockwork\<close>) is one variable of the package, shared by all modules: here the
  nanoseconds it was advanced since \<^verbatim>\<open>nanoBase\<close>. \<^verbatim>\<open>Since\<close> saturates at the bounds of
  \<^verbatim>\<open>time.Duration\<close>, \<^verbatim>\<open>UnixNano\<close> wraps.
\<close>

definition tick :: int where "tick = 100 * 1000 * 1000"

definition saturate64 :: "int \<Rightarrow> int" where
  "saturate64 d = max (- (2 ^ 63)) (min d (2 ^ 63 - 1))"

definition clockIDRealtime :: int32 where "clockIDRealtime = 0"
definition clockIDMonotonic :: int32 where "clockIDMonotonic = 1"

definition clockTimeGet ::
    "int \<Rightarrow> int \<Rightarrow> bytes \<Rightarrow> int32 \<Rightarrow> int64 \<Rightarrow> int32 \<Rightarrow> int \<times> ('e, int32 \<times> bytes) go" where
  "clockTimeGet nanoBase clock memory clockID precision resultTimestamp =
     (let store = (\<lambda>clock' val. (clock',
            go_map (\<lambda>(n, memory'). (ErrnoSuccess, memory'))
              (wasmWrite memory (le_fixed 8 (unat (of_int val :: 64 word))) resultTimestamp 8)))
      in if clockID = clockIDMonotonic then store (clock + tick) (saturate64 (clock + tick))
         else if clockID = clockIDRealtime then store (clock + tick) (nanoBase + (clock + tick))
         else (clock, Ok (ErrnoInval, memory)))"

section \<open>Polling\<close>

definition subscriptionLen :: int32 where "subscriptionLen = 48"
definition eventsLen :: int32 where "eventsLen = 32"

text \<open>
  The event types stand third, fourth and fifth in their \<^verbatim>\<open>const\<close> block, so \<^verbatim>\<open>iota\<close> gives them the
  values below, and not the tags \<open>0\<close>, \<open>1\<close> and \<open>2\<close> of the WASI interface.
\<close>

definition eventTypeClock :: nat where "eventTypeClock = 2"
definition eventTypeFDRead :: nat where "eventTypeFDRead = 3"
definition eventTypeFDWrite :: nat where "eventTypeFDWrite = 4"

definition getSlot :: "bytes \<Rightarrow> int32 \<Rightarrow> (unit, bytes) go" where
  "getSlot events i =
     (let offset = i * eventsLen
      in if sint (offset + eventsLen) > sint (of_nat (length events) :: int32) then Err ()
         else go_slice events (sint offset) (sint (offset + eventsLen)))"

definition writeEvent :: "bytes \<Rightarrow> bytes \<Rightarrow> int32 \<Rightarrow> nat \<Rightarrow> ('e, bytes) go" where
  "writeEvent slot userData errno eventType =
     (if length slot < 14 then Panic
      else Ok (patch (patch slot 0 (take (length slot) userData)) 8
                 (ucast errno # 0 # le_fixed 4 eventType)))"

text \<open>
  What is done with one subscription: the error number and type of its event, and the timeout
  gathered so far.
\<close>

definition poll_clock :: "int \<Rightarrow> bytes \<Rightarrow> ('e, int \<times> int32) go" where
  "poll_clock timeout argBuf =
     go_bind (go_slice argBuf 8 16) (\<lambda>t.
     go_bind (go_slice argBuf 24 32) (\<lambda>f.
       (let newTimeout = sint (of_nat (le_nat t) :: 64 word); flag = le_nat (take 2 f)
        in if flag = 0 then Ok (if timeout < newTimeout then newTimeout else timeout, ErrnoSuccess)
           else Ok (timeout, ErrnoNotsup))))"

definition poll_event ::
    "bytes \<Rightarrow> bytes \<times> int \<Rightarrow> int32 \<Rightarrow> (unit, bytes \<times> int) go" where
  "poll_event subs st i =
     (case st of (events, timeout) \<Rightarrow>
      let inOffset = i * subscriptionLen in
      go_bind (go_slice subs (sint inOffset) (sint (inOffset + 8))) (\<lambda>userData.
      go_bind (go_index subs (sint (inOffset + 8))) (\<lambda>eventType.
      go_bind (go_slice subs (sint (inOffset + 8 + 8)) (int (length subs))) (\<lambda>argBuf.
      go_bind (getSlot events i) (\<lambda>slot.
      go_bind
        (if unat eventType = eventTypeClock then
           go_bind (poll_clock timeout argBuf) (\<lambda>(timeout', errno).
             go_map (\<lambda>s. (s, timeout')) (writeEvent slot userData errno eventTypeClock))
         else if unat eventType = eventTypeFDRead then
           go_map (\<lambda>s. (s, timeout)) (writeEvent slot userData ErrnoBadf eventTypeFDRead)
         else if unat eventType = eventTypeFDWrite then
           go_map (\<lambda>s. (s, timeout)) (writeEvent slot userData ErrnoBadf eventTypeFDWrite)
         else go_map (\<lambda>s. (s, timeout)) (writeEvent slot userData ErrnoInval (unat eventType)))
        (\<lambda>(slot', timeout').
          Ok (patch events (nat (sint (i * eventsLen))) slot', timeout')))))))"

definition pollOneoff ::
    "int \<Rightarrow> bytes \<Rightarrow> int32 \<Rightarrow> int32 \<Rightarrow> int32 \<Rightarrow> int32 \<Rightarrow> int \<times> ('e, int32 \<times> bytes) go" where
  "pollOneoff clock memory subscriptionptr eventsptr nsubscriptions resultNevents =
     (if nsubscriptions = 0 then (clock, Ok (ErrnoInval, memory))
      else
     (case wasmRead memory subscriptionptr (nsubscriptions * subscriptionLen) of
        Err _ \<Rightarrow> (clock, Ok (ErrnoFault, memory))
      | Panic \<Rightarrow> (clock, Panic)
      | Ok subs \<Rightarrow>
      if sint (nsubscriptions * eventsLen) < 0 then (clock, Panic)
      else
     (case go_foldM (poll_event subs)
             (replicate (nat (sint (nsubscriptions * eventsLen))) 0, 0)
             (map of_nat [0..<nat (sint nsubscriptions)]) of
        Err _ \<Rightarrow> (clock, Ok (ErrnoFault, memory))
      | Panic \<Rightarrow> (clock, Panic)
      | Ok (events, timeout) \<Rightarrow>
      (if timeout > 0 then clock + timeout else clock,
       go_bind (wasmWrite memory (le_fixed 4 (unat nsubscriptions)) resultNevents 4) (\<lambda>(sz, memory1).
         if sz = -1 then Ok (ErrnoFault, memory1)
         else
         go_bind (wasmWrite memory1 events eventsptr (nsubscriptions * eventsLen)) (\<lambda>(sz, memory2).
           if sz = -1 then Ok (ErrnoFault, memory2) else Ok (ErrnoSuccess, memory2)))))))"

section \<open>Random bytes\<close>

text \<open>
  \<^verbatim>\<open>math/rand\<close> is the argument \<open>randRead\<close>: the first bytes a source with the given seed yields. Reading
  from it never fails. \<^verbatim>\<open>make\<close> panics on a negative length.
\<close>

definition createRandomGet ::
    "(int64 \<Rightarrow> nat \<Rightarrow> bytes) \<Rightarrow> int64 option \<Rightarrow> bytes \<Rightarrow> int32 \<Rightarrow> int32 \<Rightarrow> ('e, int32 \<times> bytes) go" where
  "createRandomGet randRead determinism memory buf bufLen =
     (case determinism of
        None \<Rightarrow> Ok (ErrnoInval, memory)
      | Some seed \<Rightarrow>
          if sint bufLen < 0 then Panic
          else let randOutput = randRead seed (nat (sint bufLen))
               in go_bind (wasmWrite memory randOutput buf bufLen) (\<lambda>(n, memory').
                  if n \<noteq> int (length randOutput) then Ok (ErrnoFault, memory') else Ok (ErrnoSuccess, memory')))"

section \<open>Signed 32-bit arithmetic\<close>

lemma sint32_bounds: "- (2 ^ 31) \<le> sint (x :: int32)" "sint (x :: int32) < 2 ^ 31"
  using sint_ge [of x] sint_lt [of x] by simp_all

lemma sint32_add:
  fixes a b :: int32
  assumes "0 \<le> sint a" and "0 \<le> sint b"
  shows "sint (a + b) =
    (if sint a + sint b < 2 ^ 31 then sint a + sint b else sint a + sint b - 2 ^ 32)"
proof -
  have "sint (a + b) = (sint a + sint b + 2 ^ 31) mod 2 ^ 32 - 2 ^ 31"
    by (simp add: sint_word_ariths(1) signed_take_bit_eq_take_bit_shift take_bit_eq_mod)
  moreover have "(sint a + sint b + 2 ^ 31) mod 2 ^ 32 =
      (if sint a + sint b < 2 ^ 31 then sint a + sint b + 2 ^ 31 else sint a + sint b - 2 ^ 31)"
  proof (cases "sint a + sint b < 2 ^ 31")
    case True
    with assms show ?thesis by (simp add: mod_pos_pos_trivial)
  next
    case False
    have "(sint a + sint b + 2 ^ 31) mod 2 ^ 32 = (sint a + sint b - 2 ^ 31) mod (2 ^ 32 :: int)"
      using mod_add_self2 [of "sint a + sint b - 2 ^ 31" "2 ^ 32 :: int"] by (simp add: algebra_simps)
    with False sint32_bounds(2) [of a] sint32_bounds(2) [of b] show ?thesis
      by (simp add: mod_pos_pos_trivial)
  qed
  ultimately show ?thesis by simp
qed

lemma sint32_of_nat: "n < 2 ^ 31 \<Longrightarrow> sint (of_nat n :: int32) = int n"
  by (simp add: sint_uint signed_take_bit_eq_take_bit_shift take_bit_eq_mod uint_nat
      unat_of_nat mod_pos_pos_trivial zmod_int)

lemma unat32_of_sint: "0 \<le> sint (x :: int32) \<Longrightarrow> unat x = nat (sint x)"
  using sint32_bounds(2) [of x] by (simp add: uint_sint take_bit_eq_mod mod_pos_pos_trivial flip: nat_uint_eq)

section \<open>Slices and windows\<close>

lemma go_slice_nat:
  "a \<le> b \<Longrightarrow> b \<le> length xs \<Longrightarrow> go_slice xs (int a) (int b) = Ok (take (b - a) (drop a xs))"
  by (simp add: go_slice_def flip: of_nat_diff)

lemma length_concat_fixed: "\<forall>x \<in> set xs. length x = c \<Longrightarrow> length (concat xs) = length xs * c"
  by (induction xs) simp_all

lemma fold_max_ge: "(a :: 'a :: linorder) \<le> fold max xs a"
  by (induction xs arbitrary: a) (auto intro: order_trans [OF max.cobounded2])

lemma length_patch: "p + length ys \<le> length xs \<Longrightarrow> length (patch xs p ys) = length xs"
  by (simp add: patch_def)

lemma patch_window: "p + length ys \<le> length xs \<Longrightarrow> take (length ys) (drop p (patch xs p ys)) = ys"
  by (simp add: patch_def)

lemma patch_frame:
  assumes "p + length ys \<le> length xs" and "i < length xs" and "i < p \<or> p + length ys \<le> i"
  shows "patch xs p ys ! i = xs ! i"
  using assms by (auto simp: patch_def nth_append)

lemma length_le_fixed [simp]: "length (le_fixed w n) = w"
  unfolding le_fixed_def by simp

lemma le_nat_le_fixed [simp]: "le_nat (le_fixed w n) = n mod 256 ^ w"
  by (simp add: le_nat_def le_fixed_def)

lemma wasmRead_spec:
  assumes "length m < 2 ^ 31"
  shows "wasmRead m p s =
    (if sint s < 0 \<or> sint p < 0 then Err (InvalidAccess p s)
     else if 2 ^ 31 \<le> sint p + sint s then Panic
     else if int (length m) < sint p + sint s then Err OutOfBounds
     else Ok (take (nat (sint s)) (drop (nat (sint p)) m)))"
  using assms sint32_bounds(2) [of p] sint32_bounds(2) [of s]
  by (simp add: wasmRead_def go_slice_def sint32_add sint32_of_nat)

lemma wasmWrite_spec:
  assumes "length m < 2 ^ 31"
  shows "wasmWrite m src p s =
    (if sint s < 0 \<or> sint p < 0 \<or> int (length src) \<noteq> sint s then Ok (-1, m)
     else if 2 ^ 31 \<le> sint p + sint s then Panic
     else if int (length m) < sint p + sint s then Ok (-1, m)
     else Ok (sint s, patch m (nat (sint p)) src))"
  using assms sint32_bounds(2) [of p] sint32_bounds(2) [of s]
  by (auto simp add: wasmWrite_def go_slice_def sint32_add sint32_of_nat)

text \<open>A window that lies in the memory is read and written as it is.\<close>

lemma wasmRead_inside:
  assumes "length m < 2 ^ 31" and "p + n \<le> length m"
  shows "wasmRead m (of_nat p) (of_nat n) = Ok (take n (drop p m))"
  using assms by (simp add: wasmRead_spec sint32_of_nat)

lemma wasmWrite_inside:
  assumes "length m < 2 ^ 31" and "p + length src \<le> length m"
  shows "wasmWrite m src (of_nat p) (of_nat (length src)) = Ok (int (length src), patch m p src)"
  using assms by (simp add: wasmWrite_spec sint32_of_nat)

section \<open>Polled subscriptions\<close>

text \<open>
  What the guest asks for and gets per subscription of 48 bytes: its event of 32 bytes and the timeout
  it adds to the wait.
\<close>

definition sub_errno :: "bytes \<Rightarrow> int32" where
  "sub_errno sub =
     (if unat (sub ! 8) = eventTypeClock
      then (if le_nat (take 2 (drop 40 sub)) = 0 then ErrnoSuccess else ErrnoNotsup)
      else if unat (sub ! 8) = eventTypeFDRead \<or> unat (sub ! 8) = eventTypeFDWrite then ErrnoBadf
      else ErrnoInval)"

definition sub_event :: "bytes \<Rightarrow> bytes" where
  "sub_event sub =
     take 8 sub @ ucast (sub_errno sub) # 0 # le_fixed 4 (unat (sub ! 8)) @ replicate 18 0"

definition sub_timeout :: "bytes \<Rightarrow> int" where
  "sub_timeout sub =
     (if unat (sub ! 8) = eventTypeClock \<and> le_nat (take 2 (drop 40 sub)) = 0
      then sint (of_nat (le_nat (take 8 (drop 24 sub))) :: 64 word) else 0)"

definition subscriptions :: "nat \<Rightarrow> bytes \<Rightarrow> bytes list" where
  "subscriptions n subs = map (\<lambda>i. take 48 (drop (48 * i) subs)) [0..<n]"

lemma length_sub_event: "8 \<le> length sub \<Longrightarrow> length (sub_event sub) = 32"
  by (simp add: sub_event_def)

lemma writeEvent_zero:
  assumes "length userData = 8"
  shows "writeEvent (replicate 32 0) userData errno t =
    Ok (userData @ ucast errno # 0 # le_fixed 4 t @ replicate 18 0)"
  using assms by (simp add: writeEvent_def patch_def)

lemma poll_clock_eq:
  assumes "48 \<le> length sub" and "argBuf = drop 16 sub @ rest"
  shows "poll_clock timeout argBuf =
    Ok (if le_nat (take 2 (drop 40 sub)) = 0
        then (max timeout (sint (of_nat (le_nat (take 8 (drop 24 sub))) :: 64 word)), ErrnoSuccess)
        else (timeout, ErrnoNotsup))"
  using assms by (simp add: poll_clock_def go_slice_def max_def Let_def)

lemma getSlot_next:
  assumes "length pre = i * 32" and "i * 32 + 32 + k < 2 ^ 31"
  shows "getSlot (pre @ replicate (32 + k) 0) (of_nat i) = Ok (replicate 32 0)"
proof -
  have "of_nat i * eventsLen = of_nat (i * 32)" "of_nat (i * 32) + eventsLen = of_nat (i * 32 + 32)"
    by (simp_all add: eventsLen_def)
  then show ?thesis
    using assms by (simp add: getSlot_def Let_def go_slice_nat sint32_of_nat del: of_nat_add of_nat_mult)
qed

lemma poll_event_step:
  fixes n i :: nat
  assumes n: "n * 48 < 2 ^ 31" "length subs = n * 48" and i: "i < n"
    and pre: "length pre = i * 32" and "0 \<le> timeout"
  defines "sub \<equiv> take 48 (drop (48 * i) subs)"
  shows "poll_event subs (pre @ replicate (32 * (n - i)) 0, timeout) (of_nat i) =
    Ok ((pre @ sub_event sub) @ replicate (32 * (n - Suc i)) 0, max timeout (sub_timeout sub))"
proof -
  have i48: "i * 48 + 48 \<le> n * 48" using i by simp
  then have small: "i * 48 + 48 < 2 ^ 31" and fits: "i * 32 + 32 + 32 * (n - Suc i) < 2 ^ 31"
    using n i by linarith+
  have words: "of_nat i * subscriptionLen = of_nat (i * 48)"
    "of_nat (i * 48) + 8 = (of_nat (i * 48 + 8) :: int32)"
    "of_nat (i * 48 + 8) + 8 = (of_nat (i * 48 + 16) :: int32)"
    "of_nat i * eventsLen = of_nat (i * 32)"
    by (simp_all add: subscriptionLen_def eventsLen_def)
  have split: "subs = take (i * 48) subs @ sub @ drop (i * 48 + 48) subs"
    unfolding sub_def by (metis add.commute append_take_drop_id drop_drop mult.commute)
  have len: "length sub = 48" "length (take (i * 48) subs) = i * 48"
    using i48 n by (simp_all add: sub_def)
  have userData: "go_slice subs (sint (of_nat (i * 48) :: int32)) (sint (of_nat (i * 48 + 8) :: int32)) = Ok (take 8 sub)"
    using small i48 n by (simp add: go_slice_nat sint32_of_nat sub_def mult.commute del: of_nat_add of_nat_mult)
  have eventType: "go_index subs (sint (of_nat (i * 48 + 8) :: int32)) = Ok (sub ! 8)"
    using small i48 n by (simp add: go_index_def sint32_of_nat sub_def mult.commute del: of_nat_add of_nat_mult)
  have argBuf: "go_slice subs (sint (of_nat (i * 48 + 16) :: int32)) (int (length subs)) =
      Ok (drop 16 sub @ drop (i * 48 + 48) subs)"
    using small i48 n len by (subst (1 3) split) (simp add: go_slice_nat sint32_of_nat del: of_nat_add of_nat_mult)
  have rest: "32 * (n - i) = 32 + 32 * (n - Suc i)" using i by simp
  have slot: "getSlot (pre @ replicate (32 * (n - i)) 0) (of_nat i) = Ok (replicate 32 0)"
    unfolding rest using getSlot_next [OF pre fits] .
  have put_back: "patch (pre @ replicate (32 * (n - i)) 0) (nat (sint (of_nat (i * 32) :: int32))) ev =
      (pre @ ev) @ replicate (32 * (n - Suc i)) 0" if "length ev = 32" for ev
    using that pre fits by (simp add: patch_def sint32_of_nat rest del: of_nat_mult)
  have clock: "poll_clock timeout (drop 16 sub @ drop (i * 48 + 48) subs) =
      Ok (if le_nat (take 2 (drop 40 sub)) = 0
          then (max timeout (sint (of_nat (le_nat (take 8 (drop 24 sub))) :: 64 word)), ErrnoSuccess)
          else (timeout, ErrnoNotsup))"
    by (rule poll_clock_eq) (simp_all add: len)
  show ?thesis
    unfolding poll_event_def prod.case Let_def words userData eventType argBuf go_bind.simps slot
    using len \<open>0 \<le> timeout\<close>
    by (simp add: clock writeEvent_zero put_back sub_event_def sub_errno_def sub_timeout_def max_def
        del: of_nat_mult)
qed

lemma poll_loop:
  fixes n :: nat
  assumes n: "n * 48 < 2 ^ 31" "length subs = n * 48" and "k \<le> n"
  shows "go_foldM (poll_event subs) (replicate (32 * n) 0, 0) (map of_nat [0..<k]) =
    Ok (concat (map sub_event (subscriptions k subs)) @ replicate (32 * (n - k)) 0,
        fold max (map sub_timeout (subscriptions k subs)) 0)"
  using \<open>k \<le> n\<close>
proof (induction k)
  case 0
  then show ?case by (simp add: subscriptions_def)
next
  case (Suc k)
  have fixed: "\<forall>ev \<in> set (map sub_event (subscriptions k subs)). length ev = 32"
    using Suc.prems n by (auto simp: subscriptions_def intro!: length_sub_event)
  have pre: "length (concat (map sub_event (subscriptions k subs))) = k * 32"
    unfolding length_concat_fixed [OF fixed] by (simp add: subscriptions_def)
  have "go_foldM (poll_event subs) (replicate (32 * n) 0, 0) (map of_nat [0..<k]) =
      Ok (concat (map sub_event (subscriptions k subs)) @ replicate (32 * (n - k)) 0,
        fold max (map sub_timeout (subscriptions k subs)) 0)"
    using Suc by simp
  moreover have "k < n" using Suc.prems by simp
  note poll_event_step [OF n this pre fold_max_ge]
  ultimately show ?case
    by (simp add: go_foldM_append subscriptions_def [of "Suc k"]) (simp add: subscriptions_def)
qed

text \<open>
  A poll whose three regions lie in the guest's memory succeeds. It stores the number of events, then
  one event per subscription, in their order: with the subscription's user data, its type, and an error
  number that is zero only for a relative wait. The clock moves forward by the longest such wait.
\<close>

lemma poll_answers:
  fixes n sp ep rp :: nat
  assumes "length m < 2 ^ 31" and "0 < n" and "sp + n * 48 \<le> length m"
    and "ep + n * 32 \<le> length m" and "rp + 4 \<le> length m"
  shows "pollOneoff clock m (of_nat sp) (of_nat ep) (of_nat n) (of_nat rp) =
    (let subs = subscriptions n (take (n * 48) (drop sp m))
     in (clock + fold max (map sub_timeout subs) 0,
         Ok (ErrnoSuccess, patch (patch m rp (le_fixed 4 n)) ep (concat (map sub_event subs)))))"
proof -
  define subs where "subs = take (n * 48) (drop sp m)"
  have n: "n * 48 < 2 ^ 31" "length subs = n * 48" using assms by (simp_all add: subs_def)
  then have n32: "n * 32 < 2 ^ 31" "n < 2 ^ 31" by linarith+
  have words: "of_nat n * subscriptionLen = of_nat (n * 48)" "of_nat n * eventsLen = of_nat (n * 32)"
    by (simp_all add: subscriptionLen_def eventsLen_def)
  have nz: "(of_nat n :: int32) \<noteq> 0"
    using sint32_of_nat [OF n32(2)] \<open>0 < n\<close> by auto
  have unat_n: "unat (of_nat n :: int32) = n"
    using n32 by (simp add: unat32_of_sint sint32_of_nat)
  have rd: "wasmRead m (of_nat sp) (of_nat (n * 48)) = Ok subs"
    unfolding subs_def using assms by (intro wasmRead_inside) simp_all
  have fixed: "\<forall>ev \<in> set (map sub_event (subscriptions n subs)). length ev = 32"
    using n by (auto simp: subscriptions_def intro!: length_sub_event)
  have len: "length (concat (map sub_event (subscriptions n subs))) = n * 32"
    unfolding length_concat_fixed [OF fixed] by (simp add: subscriptions_def)
  have loop: "go_foldM (poll_event subs) (replicate (n * 32) 0, 0) (map of_nat [0..<n]) =
      Ok (concat (map sub_event (subscriptions n subs)), fold max (map sub_timeout (subscriptions n subs)) 0)"
    using poll_loop [OF n order_refl] by (simp add: mult.commute)
  have w1: "wasmWrite m (le_fixed 4 n) (of_nat rp) 4 = Ok (4, patch m rp (le_fixed 4 n))"
    using wasmWrite_inside [of m rp "le_fixed 4 n"] assms by simp
  have w2: "wasmWrite (patch m rp (le_fixed 4 n)) (concat (map sub_event (subscriptions n subs)))
      (of_nat ep) (of_nat (n * 32)) =
      Ok (int (n * 32), patch (patch m rp (le_fixed 4 n)) ep (concat (map sub_event (subscriptions n subs))))"
    using wasmWrite_inside [of "patch m rp (le_fixed 4 n)" ep "concat (map sub_event (subscriptions n subs))"]
      assms len by (simp add: length_patch del: of_nat_mult)
  have clock: "(if 0 < t then clock + t else clock) = clock + t" if "0 \<le> t" for t :: int
    using that by simp
  show ?thesis
    unfolding pollOneoff_def words rd subs_def [symmetric] Let_def
    using n32 nz by (simp add: sint32_of_nat loop unat_n w1 w2 clock fold_max_ge del: of_nat_mult)
qed

definition poll_sample :: bytes where
  "poll_sample = patch (patch (replicate 84 0) 8 [2]) 24 [5]"

lemma poll_answers_witness:
  "pollOneoff 7 poll_sample (of_nat 0) (of_nat 48) (of_nat 1) (of_nat 80) =
     (12, Ok (0, patch (patch poll_sample 80 [1, 0, 0, 0]) 48
       ([0, 0, 0, 0, 0, 0, 0, 0, 0, 0, 2] @ replicate 21 0)))"
proof -
  have len: "length poll_sample = 84" by code_simp
  have subs: "subscriptions 1 (take (1 * 48) (drop 0 poll_sample)) = [take 48 poll_sample]"
    by code_simp
  have ev: "sub_event (take 48 poll_sample) = [0, 0, 0, 0, 0, 0, 0, 0, 0, 0, 2] @ replicate 21 0"
    by code_simp
  have t: "sub_timeout (take 48 poll_sample) = 5" by code_simp
  have le: "le_fixed 4 1 = [1, 0, 0, 0]" by code_simp
  show ?thesis
    using poll_answers [of poll_sample 1 0 48 80 7]
    unfolding subs Let_def le by (simp add: len ev t ErrnoSuccess_def)
qed

text \<open>
  A standard WASI clock subscription has the tag \<open>0\<close>, which is none of the constants above: it is answered
  with an error and does not move the clock.
\<close>

lemma wasi_clock_refused:
  "sub ! 8 = 0 \<Longrightarrow> sub_errno sub = ErrnoInval \<and> sub_timeout sub = 0"
  by (simp add: sub_errno_def sub_timeout_def eventTypeClock_def eventTypeFDRead_def eventTypeFDWrite_def)

text \<open>
  C28. For every pointer and size of the guest: the host reads and writes exactly the window of the guest's
  memory they name when it lies inside, and refuses negative ones and windows that reach beyond the
  memory, except that it panics when the end of the window is no 32-bit number any more, because the
  check compares the wrapped sum.
\<close>

theorem guest_window:
  assumes "length m < 2 ^ 31"
  shows "wasmRead m p s =
      (if sint s < 0 \<or> sint p < 0 then Err (InvalidAccess p s)
       else if 2 ^ 31 \<le> sint p + sint s then Panic
       else if int (length m) < sint p + sint s then Err OutOfBounds
       else Ok (take (nat (sint s)) (drop (nat (sint p)) m))) \<and>
    wasmWrite m src p s =
      (if sint s < 0 \<or> sint p < 0 \<or> int (length src) \<noteq> sint s then Ok (-1, m)
       else if 2 ^ 31 \<le> sint p + sint s then Panic
       else if int (length m) < sint p + sint s then Ok (-1, m)
       else Ok (sint s, patch m (nat (sint p)) src))"
  using wasmRead_spec [OF assms] wasmWrite_spec [OF assms] by blast

theorem guest_window_witness:
  "wasmRead [1, 2, 3, 4] 1 2 = Ok [2, 3] \<and> wasmWrite [1, 2, 3, 4] [7, 8] 1 2 = (Ok (2, [1, 7, 8, 4]) :: (unit, int \<times> bytes) go)"
proof -
  have "sint (1 :: int32) = 1" "sint (2 :: int32) = 2" by simp_all
  then show ?thesis
    using guest_window [of "[1, 2, 3, 4]" 1 2 "[7, 8]", where 'a = unit]
    by (simp add: patch_def)
qed

text \<open>A guest that asks for one byte at the last address ends in a panic of the host.\<close>

lemma last_address_panics:
  "length m < 2 ^ 31 \<Longrightarrow> wasmRead m 0x7FFFFFFF 1 = Panic"
  by (simp add: wasmRead_spec)

text \<open>The monotonic clock moves by one tick with every reading.\<close>

lemma clock_ticks:
  assumes "length m < 2 ^ 31" and "p + 8 \<le> length m" and "0 \<le> clock" and "clock + tick < 2 ^ 63"
  shows "clockTimeGet base clock m clockIDMonotonic prec (of_nat p) =
    (clock + tick, Ok (ErrnoSuccess, patch m p (le_fixed 8 (nat (clock + tick)))))"
proof -
  have "saturate64 (clock + tick) = clock + tick"
    using assms(3,4) by (simp add: saturate64_def tick_def)
  moreover have "unat (of_int t :: 64 word) = nat t" if "0 \<le> t" "t < 2 ^ 63" for t :: int
    using that by (simp add: unsigned_of_int take_bit_eq_mod nat_mod_as_int mod_pos_pos_trivial)
  with assms(3,4) have "unat (of_int (clock + tick) :: 64 word) = nat (clock + tick)"
    by (simp only: tick_def)
  ultimately show ?thesis
    using assms(1,2) wasmWrite_inside [of m p "le_fixed 8 (nat (clock + tick))"]
    by (simp add: clockTimeGet_def Let_def wasmWrite_spec sint32_of_nat)
qed

text \<open>The seeded source is started anew with every call: equal lengths give equal bytes.\<close>

lemma random_get_seeded:
  assumes "length m < 2 ^ 31" and "p + n \<le> length m" and "length (randRead seed n) = n"
  shows "createRandomGet randRead (Some seed) m (of_nat p) (of_nat n) =
    Ok (ErrnoSuccess, patch m p (randRead seed n))"
  using assms by (simp add: createRandomGet_def sint32_of_nat Let_def wasmWrite_spec)

lemma random_get_negative_panics:
  "sint n < 0 \<Longrightarrow> createRandomGet randRead (Some seed) m p n = Panic"
  by (simp add: createRandomGet_def)

end
