(* ===== verification/WasmHost.thy ===== *)
theory WasmHost
  imports WasmMemory Base64 "HOL-Library.Signed_Division"
begin

text \<open>
  The host of WASM workflows (\<^verbatim>\<open>pkg/workflows/wasm/host/module.go\<close>): the store of running requests, the
  functions a guest imports (\<^verbatim>\<open>sendResponse\<close>, \<^verbatim>\<open>fetch\<close>, \<^verbatim>\<open>emit\<close>, \<^verbatim>\<open>log\<close> and the WASI functions), the
  construction of a module and one run of it.

  The guest is not trusted. It is an argument: a tree that says, after every answer of the host, with
  which memory it calls which function next, and how it ends. The tree is well-founded because fuel and
  the epoch deadline end every guest. \<^verbatim>\<open>wasmtime\<close>, \<^verbatim>\<open>brotli\<close>, \<^verbatim>\<open>proto\<close>, \<^verbatim>\<open>encoding/json\<close>, \<^verbatim>\<open>mapstructure\<close>,
  the configured \<^verbatim>\<open>Fetch\<close> and the emitter are arguments too.
\<close>

section \<open>Messages\<close>

record 'm pbResponse =
  respId :: string
  respErrMsg :: string
  respMessage :: 'm

datatype 'q pbRequestMessage = NoMessage | SpecRequest | ComputeRequest 'q "int64 option"

record 'q pbRequest =
  reqId :: string
  reqConfig :: bytes
  reqMessage :: "'q pbRequestMessage"

record FetchRequestMetadata =
  fmWorkflowID :: string
  fmWorkflowName :: string
  fmWorkflowOwner :: string
  fmWorkflowExecutionID :: string
  fmDecodedWorkflowName :: string

record pbFetchRequest =
  fqUrl :: string
  fqMethod :: string
  fqHeaders :: pbMap
  fqBody :: bytes
  fqTimeoutMs :: uint32
  fqId :: string
  fqMetadata :: "FetchRequestMetadata option"
  fqMaxRetries :: uint32

record sdkFetchRequest =
  frURL :: string
  frMethod :: string
  frHeaders :: "(string, string) gomap"
  frBody :: bytes
  frTimeoutMs :: uint32
  frMaxRetries :: uint32

record FetchRequest = sdkFetchRequest +
  frMetadata :: FetchRequestMetadata

record FetchResponse =
  fsExecutionError :: bool
  fsErrorMessage :: string
  fsStatusCode :: uint32
  fsHeaders :: "(string, string) gomap"
  fsBody :: bytes

record pbFetchResponse =
  pfExecutionError :: bool
  pfErrorMessage :: string
  pfStatusCode :: uint32
  pfHeaders :: pbMap
  pfBody :: bytes

record pbEmitMessageRequest =
  emMessage :: string
  emLabels :: "pbMap option"
  emRequestId :: string

section \<open>The store of running requests\<close>

record ('c, 'm) RequestData =
  fetchRequestsCounter :: int
  rdResponse :: "'m pbResponse option"
  rctx :: 'c

definition store_add :: "string \<Rightarrow> 'r \<Rightarrow> (string, 'r) gomap \<Rightarrow> (string, 'r) gomap option" where
  "store_add rid req m = (case map_of m rid of Some _ \<Rightarrow> None | None \<Rightarrow> Some (put rid req m))"

definition store_get :: "string \<Rightarrow> (string, 'r) gomap \<Rightarrow> 'r option" where
  "store_get rid m = map_of m rid"

definition store_delete :: "string \<Rightarrow> (string, 'r) gomap \<Rightarrow> (string, 'r) gomap" where
  "store_delete rid m = del rid m"

section \<open>Configuration\<close>

type_synonym labels = "(string, string) gomap"

text \<open>
  The functions of the configuration see, beside their arguments, the number of events so far, because
  what they answer may change from call to call.
\<close>

type_synonym 'c fetcher = "nat \<Rightarrow> 'c \<Rightarrow> FetchRequest \<Rightarrow> string + FetchResponse"
type_synonym 'c emitter = "nat \<Rightarrow> 'c \<Rightarrow> labels \<Rightarrow> string \<Rightarrow> string option"

record 'c ModuleConfig =
  TickInterval :: int
  Timeout :: "int option"
  MaxMemoryMBs :: uint64
  MinMemoryMBs :: uint64
  InitialFuel :: uint64
  HasLogger :: bool
  IsUncompressed :: bool
  Fetch :: "'c fetcher option"
  MaxFetchRequests :: int
  MaxCompressedBinarySize :: uint64
  MaxDecompressedBinarySize :: uint64
  MaxResponseSizeBytes :: uint64
  Labeler :: "'c emitter option"
  Determinism :: "int64 option"

datatype jvalue = JString string | JOther

text \<open>The libraries the host calls.\<close>

record ('c, 'm, 'd) host_lib =
  hUnmarshalResponse :: "bytes \<Rightarrow> 'm pbResponse option"
  hUnmarshalFetch :: "bytes \<Rightarrow> string + pbFetchRequest"
  hMarshalFetch :: "pbFetchResponse \<Rightarrow> string + bytes"
  hUnmarshalEmit :: "bytes \<Rightarrow> string + pbEmitMessageRequest"
  hMarshalEmitError :: "string \<Rightarrow> bytes option"
  hUnwrapLabels :: "(string \<times> 'd Value) list \<Rightarrow> string + labels"
  hParseLog :: "bytes \<Rightarrow> (string \<times> jvalue) list option"
  hValueError :: "verr \<Rightarrow> string"
  hRandRead :: "int64 \<Rightarrow> nat \<Rightarrow> bytes"
  hWasiRandom :: "bytes \<Rightarrow> int32 \<Rightarrow> int32 \<Rightarrow> int32 \<times> bytes"
  hNanoBase :: int
  hValues :: "'d vlib"

section \<open>State of a module\<close>

text \<open>
  The requests and the clock; \<open>hcalls\<close> records what the host was asked to do outside, newest first.
\<close>

datatype 'c hevent =
    Started string
  | Fetched string 'c FetchRequest
  | Emitted string 'c labels string

record ('c, 'm) host =
  hrequests :: "(string, ('c, 'm) RequestData) gomap"
  hclock :: int
  hcalls :: "'c hevent list"

text \<open>A host function can panic; \<^verbatim>\<open>Fatalw\<close> ends the process.\<close>

datatype host_stop = ProcessExit

type_synonym ('c, 'm) hres = "('c, 'm) host \<times> (host_stop, int32 \<times> bytes) go"

definition show_int :: "int \<Rightarrow> string" where
  "show_int i = (if i < 0 then CHR ''-'' # show_nat (nat (- i)) else show_nat (nat i))"

fun mem_error_text :: "mem_error \<Rightarrow> string" where
  "mem_error_text (InvalidAccess ptr sz) =
     ''invalid memory access: ptr: '' @ show_int (sint ptr) @ '', size: '' @ show_int (sint sz)"
| "mem_error_text OutOfBounds = ''out of bounds memory access''"

definition not_found_text :: "string \<Rightarrow> string" where
  "not_found_text rid = ''could not find request data for id '' @ rid"

section \<open>sendResponse\<close>

definition createSendResponseFn ::
    "('c, 'm, 'd) host_lib \<Rightarrow> ('c, 'm) host \<Rightarrow> bytes \<Rightarrow> int32 \<Rightarrow> int32 \<Rightarrow> ('c, 'm) hres" where
  "createSendResponseFn E h memory ptr ptrlen =
     (case wasmRead memory ptr ptrlen of
        Panic \<Rightarrow> (h, Panic)
      | Err _ \<Rightarrow> (h, Ok (ErrnoFault, memory))
      | Ok b \<Rightarrow>
     (case hUnmarshalResponse E b of
        None \<Rightarrow> (h, Ok (ErrnoFault, memory))
      | Some resp \<Rightarrow>
     (case store_get (respId resp) (hrequests h) of
        None \<Rightarrow> (h, Ok (ErrnoFault, memory))
      | Some storedReq \<Rightarrow>
          (h\<lparr>hrequests := put (respId resp) (storedReq\<lparr>rdResponse := Some resp\<rparr>) (hrequests h)\<rparr>,
           Ok (ErrnoSuccess, memory)))))"

section \<open>fetch\<close>

fun GetStringValue :: "pbValue \<Rightarrow> string" where
  "GetStringValue (PString s) = s"
| "GetStringValue _ = []"

definition empty_metadata :: FetchRequestMetadata where
  "empty_metadata = \<lparr>fmWorkflowID = [], fmWorkflowName = [], fmWorkflowOwner = [],
     fmWorkflowExecutionID = [], fmDecodedWorkflowName = []\<rparr>"

definition toSdkReq :: "pbFetchRequest \<Rightarrow> FetchRequest" where
  "toSdkReq req =
     \<lparr>frURL = fqUrl req, frMethod = fqMethod req,
      frHeaders = map (\<lambda>(k, v). (k, GetStringValue v)) (fqHeaders req),
      frBody = fqBody req, frTimeoutMs = fqTimeoutMs req, frMaxRetries = fqMaxRetries req,
      frMetadata =
        (case fqMetadata req of
           None \<Rightarrow> empty_metadata
         | Some md \<Rightarrow>
             \<lparr>fmWorkflowID = fmWorkflowID md, fmWorkflowName = fmWorkflowName md,
              fmWorkflowOwner = fmWorkflowOwner md, fmWorkflowExecutionID = fmWorkflowExecutionID md,
              fmDecodedWorkflowName = fmDecodedWorkflowName md\<rparr>)\<rparr>"

definition fromSdkResp :: "'d vlib \<Rightarrow> FetchResponse \<Rightarrow> (verr, pbFetchResponse) go" where
  "fromSdkResp L resp =
     go_bind (NewMap (map (\<lambda>(k, v). (k, AString v)) (fsHeaders resp))) (\<lambda>m.
       Ok \<lparr>pfExecutionError = fsExecutionError resp, pfErrorMessage = fsErrorMessage resp,
           pfStatusCode = fsStatusCode resp, pfHeaders = ProtoMap L m, pfBody = fsBody resp\<rparr>)"

definition fetch_writeErr ::
    "('c, 'm, 'd) host_lib \<Rightarrow> bytes \<Rightarrow> int32 \<Rightarrow> int32 \<Rightarrow> string \<Rightarrow> (host_stop, int32 \<times> bytes) go" where
  "fetch_writeErr E memory respptr resplenptr msg =
     (case hMarshalFetch E \<lparr>pfExecutionError = True, pfErrorMessage = msg, pfStatusCode = 0,
                            pfHeaders = [], pfBody = []\<rparr> of
        Inl _ \<Rightarrow> Ok (ErrnoFault, memory)
      | Inr respBytes \<Rightarrow>
          go_bind (wasmWrite memory respBytes respptr (of_nat (length respBytes))) (\<lambda>(sz, memory1).
            if sz = -1 then Ok (ErrnoFault, memory1)
            else
          go_bind (wasmWriteUInt32 memory1 resplenptr (of_nat (length respBytes))) (\<lambda>(sz, memory2).
            if sz = -1 then Ok (ErrnoFault, memory2) else Ok (ErrnoSuccess, memory2))))"

definition fetch_answer ::
    "('c, 'm, 'd) host_lib \<Rightarrow> bytes \<Rightarrow> int32 \<Rightarrow> int32 \<Rightarrow> string + FetchResponse \<Rightarrow>
     (host_stop, int32 \<times> bytes) go" where
  "fetch_answer E memory respptr resplenptr fetchResp =
     (case fetchResp of
        Inl e \<Rightarrow> fetch_writeErr E memory respptr resplenptr e
      | Inr fr \<Rightarrow>
     (case fromSdkResp (hValues E) fr of
        Panic \<Rightarrow> Panic
      | Err e \<Rightarrow> fetch_writeErr E memory respptr resplenptr (hValueError E e)
      | Ok protoResp \<Rightarrow>
     (case hMarshalFetch E protoResp of
        Inl e \<Rightarrow> fetch_writeErr E memory respptr resplenptr e
      | Inr respBytes \<Rightarrow>
          go_bind (wasmWrite memory respBytes respptr (of_nat (length respBytes))) (\<lambda>(sz, memory1).
            if sz = -1 then fetch_writeErr E memory1 respptr resplenptr ''failed to write response''
            else
          go_bind (wasmWriteUInt32 memory1 resplenptr (of_nat (length respBytes))) (\<lambda>(sz, memory2).
            if sz = -1
            then fetch_writeErr E memory2 respptr resplenptr ''failed to write response length''
            else Ok (ErrnoSuccess, memory2))))))"

definition createFetchFn ::
    "('c, 'm, 'd) host_lib \<Rightarrow> int \<Rightarrow> 'c fetcher \<Rightarrow> ('c, 'm) host \<Rightarrow> bytes \<Rightarrow>
     int32 \<Rightarrow> int32 \<Rightarrow> int32 \<Rightarrow> int32 \<Rightarrow> ('c, 'm) hres" where
  "createFetchFn E maxFetch fetchFn h memory respptr resplenptr reqptr reqptrlen =
     (case wasmRead memory reqptr reqptrlen of
        Panic \<Rightarrow> (h, Panic)
      | Err e \<Rightarrow> (h, fetch_writeErr E memory respptr resplenptr (mem_error_text e))
      | Ok b \<Rightarrow>
     (case hUnmarshalFetch E b of
        Inl e \<Rightarrow> (h, fetch_writeErr E memory respptr resplenptr e)
      | Inr req \<Rightarrow>
     (case store_get (fqId req) (hrequests h) of
        None \<Rightarrow> (h, fetch_writeErr E memory respptr resplenptr (not_found_text (fqId req)))
      | Some stored \<Rightarrow>
     if fetchRequestsCounter stored \<ge> maxFetch
     then (h, fetch_writeErr E memory respptr resplenptr ''max number of fetch requests exceeded'')
     else
       (h\<lparr>hrequests := put (fqId req)
             (stored\<lparr>fetchRequestsCounter := fetchRequestsCounter stored + 1\<rparr>) (hrequests h),
          hcalls := Fetched (fqId req) (rctx stored) (toSdkReq req) # hcalls h\<rparr>,
        fetch_answer E memory respptr resplenptr
          (fetchFn (length (hcalls h)) (rctx stored) (toSdkReq req))))))"

section \<open>emit\<close>

definition toValidatedLabels ::
    "('c, 'm, 'd) host_lib \<Rightarrow> pbEmitMessageRequest \<Rightarrow> string + labels" where
  "toValidatedLabels E msg =
     hUnwrapLabels E (case FromMapValueProto (hValues E) (emLabels msg) of None \<Rightarrow> [] | Some vl \<Rightarrow> vl)"

definition toEmissible ::
    "('c, 'm, 'd) host_lib \<Rightarrow> bytes \<Rightarrow> string + string \<times> string \<times> labels" where
  "toEmissible E b =
     (case hUnmarshalEmit E b of
        Inl e \<Rightarrow> Inl e
      | Inr msg \<Rightarrow>
          (case toValidatedLabels E msg of
             Inl e \<Rightarrow> Inl e
           | Inr validated \<Rightarrow> Inr (emRequestId msg, emMessage msg, validated)))"

definition emit_writeErr ::
    "('c, 'm, 'd) host_lib \<Rightarrow> bytes \<Rightarrow> int32 \<Rightarrow> int32 \<Rightarrow> string \<Rightarrow> (host_stop, int32 \<times> bytes) go" where
  "emit_writeErr E memory respptr resplenptr msg =
     (case hMarshalEmitError E msg of
        None \<Rightarrow> Ok (ErrnoFault, memory)
      | Some respBytes \<Rightarrow>
          go_bind (wasmWrite memory respBytes respptr (of_nat (length respBytes))) (\<lambda>(sz, memory1).
            if sz = -1 then Ok (ErrnoFault, memory1)
            else
          go_bind (wasmWriteUInt32 memory1 resplenptr (of_nat (length respBytes))) (\<lambda>(sz, memory2).
            if sz = -1 then Ok (ErrnoFault, memory2) else Ok (ErrnoSuccess, memory2))))"

definition createEmitFn ::
    "('c, 'm, 'd) host_lib \<Rightarrow> 'c emitter \<Rightarrow> ('c, 'm) host \<Rightarrow> bytes \<Rightarrow>
     int32 \<Rightarrow> int32 \<Rightarrow> int32 \<Rightarrow> int32 \<Rightarrow> ('c, 'm) hres" where
  "createEmitFn E emitFn h memory respptr resplenptr msgptr msglen =
     (case wasmRead memory msgptr msglen of
        Panic \<Rightarrow> (h, Panic)
      | Err e \<Rightarrow> (h, emit_writeErr E memory respptr resplenptr (mem_error_text e))
      | Ok b \<Rightarrow>
     (case toEmissible E b of
        Inl e \<Rightarrow> (h, emit_writeErr E memory respptr resplenptr e)
      | Inr (reqID, msg, labels) \<Rightarrow>
     (case store_get reqID (hrequests h) of
        None \<Rightarrow> (h, emit_writeErr E memory respptr resplenptr (not_found_text reqID))
      | Some req \<Rightarrow>
          (h\<lparr>hcalls := Emitted reqID (rctx req) labels msg # hcalls h\<rparr>,
           case emitFn (length (hcalls h)) (rctx req) labels msg of
             Some e \<Rightarrow> emit_writeErr E memory respptr resplenptr e
           | None \<Rightarrow> Ok (ErrnoSuccess, memory)))))"

section \<open>log\<close>

text \<open>The characters of \<^verbatim>\<open>[\r\n\t]|[\x00-\x1F]|[<>\"'\\&%$;:{}\[\]/]\<close>.\<close>

definition unsafe_char :: "char \<Rightarrow> bool" where
  "unsafe_char c = (of_char c < (0x20 :: nat) \<or> c \<in> set ''<>&%$;:{}[]/'' \<or>
     c \<in> {CHR 0x22, CHR 0x27, CHR 0x5C})"

definition sanitize :: "string \<Rightarrow> string" where
  "sanitize msg = map (\<lambda>c. if unsafe_char c then CHR ''*'' else c) msg"

datatype log_level = Debugw | Infow | Warnw | Errorw

text \<open>
  The line that is logged, if any. \<^verbatim>\<open>Panicw\<close> logs and panics, \<^verbatim>\<open>Fatalw\<close> logs and ends the process; the type
  assertion on \<^verbatim>\<open>raw["msg"]\<close> panics when it is no string.
\<close>

definition createLogFn ::
    "('c, 'm, 'd) host_lib \<Rightarrow> bytes \<Rightarrow> int32 \<Rightarrow> int32 \<Rightarrow>
     (host_stop, (log_level \<times> string \<times> (string \<times> jvalue) list) option) go" where
  "createLogFn E memory ptr ptrlen =
     (case wasmRead memory ptr ptrlen of
        Panic \<Rightarrow> Panic
      | Err _ \<Rightarrow> Ok None
      | Ok b \<Rightarrow>
     (case hParseLog E b of
        None \<Rightarrow> Ok None
      | Some raw \<Rightarrow>
     (let level = map_of raw ''level''; raw1 = del ''level'' raw
      in case map_of raw1 ''msg'' of
           Some (JString msg) \<Rightarrow>
             (let args = del ''ts'' (del ''msg'' raw1); line = (\<lambda>l. Ok (Some (l, sanitize msg, args)))
              in if level = Some (JString ''debug'') then line Debugw
                 else if level = Some (JString ''info'') then line Infow
                 else if level = Some (JString ''warn'') then line Warnw
                 else if level = Some (JString ''error'') then line Errorw
                 else if level = Some (JString ''panic'') then Panic
                 else if level = Some (JString ''fatal'') then Err ProcessExit
                 else line Infow)
         | _ \<Rightarrow> Panic)))"

section \<open>The imports of a guest\<close>

datatype hostcall =
    CallSendResponse int32 int32
  | CallLog int32 int32
  | CallFetch int32 int32 int32 int32
  | CallEmit int32 int32 int32 int32
  | CallPollOneoff int32 int32 int32 int32
  | CallClockTimeGet int32 int64 int32
  | CallRandomGet int32 int32

definition unimplementedFetch :: "'c fetcher" where
  "unimplementedFetch n c r = Inl ''fetch not implemented''"

definition unimplementedMessageEmitter :: "'c emitter" where
  "unimplementedMessageEmitter n c l m = Some ''unimplemented''"

text \<open>
  A call of a linked function. \<^verbatim>\<open>random_get\<close> is replaced only when the configuration is deterministic. A
  nil \<^verbatim>\<open>Fetch\<close> or \<^verbatim>\<open>Labeler\<close> would panic; the construction of a module sets both.
\<close>

fun host_call ::
    "('c, 'm, 'd) host_lib \<Rightarrow> 'c ModuleConfig \<Rightarrow> ('c, 'm) host \<Rightarrow> bytes \<Rightarrow> hostcall \<Rightarrow> ('c, 'm) hres" where
  "host_call E cfg h memory (CallSendResponse ptr len) = createSendResponseFn E h memory ptr len"
| "host_call E cfg h memory (CallLog ptr len) =
     (h, go_map (\<lambda>_. (ErrnoSuccess, memory)) (createLogFn E memory ptr len))"
| "host_call E cfg h memory (CallFetch respptr resplenptr reqptr reqptrlen) =
     (case Fetch cfg of
        None \<Rightarrow> (h, Panic)
      | Some f \<Rightarrow> createFetchFn E (MaxFetchRequests cfg) f h memory respptr resplenptr reqptr reqptrlen)"
| "host_call E cfg h memory (CallEmit respptr resplenptr msgptr msglen) =
     (case Labeler cfg of
        None \<Rightarrow> (h, Panic)
      | Some l \<Rightarrow> createEmitFn E l h memory respptr resplenptr msgptr msglen)"
| "host_call E cfg h memory (CallPollOneoff subs events n res) =
     (case pollOneoff (hclock h) memory subs events n res of (c, r) \<Rightarrow> (h\<lparr>hclock := c\<rparr>, r))"
| "host_call E cfg h memory (CallClockTimeGet clockID prec res) =
     (case clockTimeGet (hNanoBase E) (hclock h) memory clockID prec res of (c, r) \<Rightarrow> (h\<lparr>hclock := c\<rparr>, r))"
| "host_call E cfg h memory (CallRandomGet buf len) =
     (h, if Determinism cfg = None then Ok (hWasiRandom E memory buf len)
         else createRandomGet (hRandRead E) (Determinism cfg) memory buf len)"

text \<open>
  A guest: it ends with the error \<^verbatim>\<open>start.Call\<close> returns (an exit status is one), or calls a function with its
  memory as it is then, and goes on with the answer and the memory the host left.
\<close>

datatype guest = GExit "string option" | GCall bytes hostcall "int32 \<Rightarrow> bytes \<Rightarrow> guest"

primrec run_guest ::
    "('c, 'm, 'd) host_lib \<Rightarrow> 'c ModuleConfig \<Rightarrow> guest \<Rightarrow> ('c, 'm) host \<Rightarrow>
     ('c, 'm) host \<times> (host_stop, string option) go" where
  "run_guest E cfg (GExit err) h = (h, Ok err)"
| "run_guest E cfg (GCall memory c k) h =
     (case host_call E cfg h memory c of
        (h', Ok (r, memory')) \<Rightarrow> run_guest E cfg (k r memory') h'
      | (h', Err e) \<Rightarrow> (h', Err e)
      | (h', Panic) \<Rightarrow> (h', Panic))"

section \<open>Construction\<close>

text \<open>
  \<^verbatim>\<open>float64\<close> of an unsigned 64-bit number: rounded to 53 significant bits, to even in the middle.
\<close>

definition float_round :: "nat \<Rightarrow> nat" where
  "float_round n =
     (let u = 2 ^ hd (filter (\<lambda>e. n < 2 ^ (53 + e)) [0..<12]); q = n div u; r = n mod u
      in if 2 * r > u \<or> 2 * r = u \<and> odd q then (q + 1) * u else q * u)"

definition withDefaults :: "'c ModuleConfig \<Rightarrow> 'c ModuleConfig" where
  "withDefaults cfg =
     (let minMem = (if MinMemoryMBs cfg = 0 then 128 else MinMemoryMBs cfg)
      in cfg\<lparr>
        Fetch := (case Fetch cfg of None \<Rightarrow> Some unimplementedFetch | f \<Rightarrow> f),
        MaxFetchRequests := (if MaxFetchRequests cfg = 0 then 5 else MaxFetchRequests cfg),
        Labeler := (case Labeler cfg of None \<Rightarrow> Some unimplementedMessageEmitter | l \<Rightarrow> l),
        TickInterval := (if TickInterval cfg = 0 then 100 * 1000 * 1000 else TickInterval cfg),
        Timeout := (case Timeout cfg of None \<Rightarrow> Some (10 * 1000 * 1000 * 1000) | t \<Rightarrow> t),
        MinMemoryMBs := minMem,
        MaxCompressedBinarySize :=
          (if MaxCompressedBinarySize cfg = 0 then 20 * 1024 * 1024 else MaxCompressedBinarySize cfg),
        MaxDecompressedBinarySize :=
          (if MaxDecompressedBinarySize cfg = 0 then 100 * 1024 * 1024 else MaxDecompressedBinarySize cfg),
        MaxResponseSizeBytes :=
          (if MaxResponseSizeBytes cfg = 0 then 5 * 1024 * 1024 else MaxResponseSizeBytes cfg),
        MaxMemoryMBs := of_nat (max (float_round (unat minMem)) (float_round (unat (MaxMemoryMBs cfg))))\<rparr>)"

text \<open>
  A decompressor yields bytes and ends well or with an error. A limited reader stops before it sees the
  error when the limit is reached, and yields nothing when the limit is not positive.
\<close>

definition read_limited :: "int \<Rightarrow> bytes \<times> string option \<Rightarrow> string + bytes" where
  "read_limited limit stream =
     (case stream of (out, err) \<Rightarrow>
        if limit \<le> int (length out) then Inr (take (nat limit) out)
        else case err of Some e \<Rightarrow> Inl e | None \<Rightarrow> Inr out)"

datatype module_error =
    NoLogger | CompressedTooLarge | DecompressFailed string | DecompressedTooLarge
  | CompileFailed string | LinkFailed string

record ('c, 'w) engine_lib =
  eBrotli :: "bytes \<Rightarrow> bytes \<times> string option"
  eCompile :: "bytes \<Rightarrow> string + 'w"
  eLink :: "'c ModuleConfig \<Rightarrow> string option"

definition load_binary ::
    "('c, 'w) engine_lib \<Rightarrow> 'c ModuleConfig \<Rightarrow> bytes \<Rightarrow> (module_error, bytes) go" where
  "load_binary E cfg binary =
     (if IsUncompressed cfg then Ok binary
      else if length binary > unat (MaxCompressedBinarySize cfg) then Err CompressedTooLarge
      else case read_limited (sint (MaxDecompressedBinarySize cfg + 1)) (eBrotli E binary) of
             Inl e \<Rightarrow> Err (DecompressFailed e)
           | Inr b \<Rightarrow> Ok b)"

definition NewModule ::
    "('c, 'w) engine_lib \<Rightarrow> 'c ModuleConfig \<Rightarrow> bytes \<Rightarrow> ('c ModuleConfig \<Rightarrow> 'c ModuleConfig) list \<Rightarrow>
     (module_error, 'c ModuleConfig \<times> 'w) go" where
  "NewModule E modCfg binary opts =
     (let cfg0 = fold (\<lambda>opt c. opt c) opts modCfg
      in if \<not> HasLogger cfg0 then Err NoLogger
         else
         (let cfg = withDefaults cfg0
          in go_bind (load_binary E cfg binary) (\<lambda>bin.
             if length bin > unat (MaxDecompressedBinarySize cfg) then Err DecompressedTooLarge
             else case eCompile E bin of
                    Inl e \<Rightarrow> Err (CompileFailed e)
                  | Inr w \<Rightarrow>
                      (case eLink E cfg of Some e \<Rightarrow> Err (LinkFailed e) | None \<Rightarrow> Ok (cfg, w)))))"

text \<open>\<^verbatim>\<open>2009-01-03T00:00:00Z\<close> in seconds.\<close>

definition WithDeterminism :: "'c ModuleConfig \<Rightarrow> 'c ModuleConfig" where
  "WithDeterminism cfg = cfg\<lparr>Determinism := Some 1230940800\<rparr>"

section \<open>A run\<close>

fun contains_str :: "string \<Rightarrow> string \<Rightarrow> bool" where
  "contains_str [] sub = (sub = [])"
| "contains_str (c # cs) sub = (take (length sub) (c # cs) = sub \<or> contains_str cs sub)"

definition containsCode :: "string option \<Rightarrow> nat \<Rightarrow> bool" where
  "containsCode err code =
     (case err of None \<Rightarrow> False | Some e \<Rightarrow> contains_str e (''exit status '' @ show_nat code))"

definition CodeInvalidResponse :: nat where "CodeInvalidResponse = 110"
definition CodeInvalidRequest :: nat where "CodeInvalidRequest = 111"
definition CodeRunnerErr :: nat where "CodeRunnerErr = 112"
definition CodeHostErr :: nat where "CodeHostErr = 113"
definition CodeSuccess :: nat where "CodeSuccess = 0"

datatype run_error =
    NilRequest | EmptyRequestId | AlreadyRunning string | RequestMarshal string | InstantiateFailed string
  | NoStartFunction | RequestNotFound string | ResponseNotFound string | InvalidResponse | InvalidRequest
  | RunnerFailed string string | HostErrored | GuestFailed string | HostExited

text \<open>
  The engine of a run: the deadline of a context, the wire form of the request, and the instance of the
  module with its arguments, fuel, memory limit and epoch deadline (no guest when it has no
  \<^verbatim>\<open>_start\<close>).
\<close>

record ('c, 'q) run_lib =
  rWithTimeout :: "'c \<Rightarrow> int \<Rightarrow> 'c"
  rMarshal :: "'q pbRequest \<Rightarrow> string + bytes"
  rInstantiate :: "string list \<Rightarrow> uint64 \<Rightarrow> int64 \<Rightarrow> uint64 \<Rightarrow> string + guest option"

definition with_runtime_config :: "uint64 \<Rightarrow> 'q pbRequest \<Rightarrow> 'q pbRequest" where
  "with_runtime_config maxResponse request =
     (case reqMessage request of
        ComputeRequest q _ \<Rightarrow> request\<lparr>reqMessage := ComputeRequest q (Some maxResponse)\<rparr>
      | _ \<Rightarrow> request)"

definition run_result ::
    "string \<Rightarrow> ('c, 'm) host \<Rightarrow> string option \<Rightarrow> (run_error, 'm pbResponse option) go" where
  "run_result rid h err =
     (if containsCode err CodeSuccess then
        (case store_get rid (hrequests h) of
           None \<Rightarrow> Err (RequestNotFound rid)
         | Some stored \<Rightarrow>
             (case rdResponse stored of None \<Rightarrow> Err (ResponseNotFound rid) | Some r \<Rightarrow> Ok (Some r)))
      else if containsCode err CodeInvalidResponse then Err InvalidResponse
      else if containsCode err CodeInvalidRequest then Err InvalidRequest
      else if containsCode err CodeRunnerErr then
        (case store_get rid (hrequests h) of
           None \<Rightarrow> Err (RequestNotFound rid)
         | Some stored \<Rightarrow>
             (case rdResponse stored of
                None \<Rightarrow> Panic
              | Some r \<Rightarrow> Err (RunnerFailed (respErrMsg r) (the err))))
      else if containsCode err CodeHostErr then Err HostErrored
      else case err of Some e \<Rightarrow> Err (GuestFailed e) | None \<Rightarrow> Ok None)"

definition run_started ::
    "('c, 'm, 'd) host_lib \<Rightarrow> ('c, 'q) run_lib \<Rightarrow> 'c ModuleConfig \<Rightarrow> int \<Rightarrow> 'q pbRequest \<Rightarrow> ('c, 'm) host \<Rightarrow>
     ('c, 'm) host \<times> (run_error, 'm pbResponse option) go" where
  "run_started E R cfg timeout request h =
     (case rMarshal R (with_runtime_config (MaxResponseSizeBytes cfg) request) of
        Inl e \<Rightarrow> (h, Err (RequestMarshal e))
      | Inr reqpb \<Rightarrow>
     if TickInterval cfg = 0 then (h, Panic)
     else
     (case rInstantiate R [''wasi'', base64_encode reqpb] (InitialFuel cfg)
             (MaxMemoryMBs cfg * 1000000) (of_int (timeout sdiv TickInterval cfg)) of
        Inl e \<Rightarrow> (h, Err (InstantiateFailed e))
      | Inr None \<Rightarrow> (h, Err NoStartFunction)
      | Inr (Some g) \<Rightarrow>
     (case run_guest E cfg g h of
        (h', Ok err) \<Rightarrow> (h', run_result (reqId request) h' err)
      | (h', Err ProcessExit) \<Rightarrow> (h', Err HostExited)
      | (h', Panic) \<Rightarrow> (h', Panic))))"

text \<open>The request leaves the store however the run ends: the deletion is deferred, so a panic does it too.\<close>

definition Run ::
    "('c, 'm, 'd) host_lib \<Rightarrow> ('c, 'q) run_lib \<Rightarrow> 'c ModuleConfig \<Rightarrow> 'c \<Rightarrow> 'q pbRequest option \<Rightarrow>
     ('c, 'm) host \<Rightarrow> ('c, 'm) host \<times> (run_error, 'm pbResponse option) go" where
  "Run E R cfg ctx req h =
     (case Timeout cfg of
        None \<Rightarrow> (h, Panic)
      | Some timeout \<Rightarrow>
     (case req of
        None \<Rightarrow> (h, Err NilRequest)
      | Some request \<Rightarrow>
     if reqId request = [] then (h, Err EmptyRequestId)
     else
     (case store_add (reqId request)
             \<lparr>fetchRequestsCounter = 0, rdResponse = None, rctx = rWithTimeout R ctx timeout\<rparr> (hrequests h) of
        None \<Rightarrow> (h, Err (AlreadyRunning (reqId request)))
      | Some rs \<Rightarrow>
          map_prod (\<lambda>h'. h'\<lparr>hrequests := store_delete (reqId request) (hrequests h')\<rparr>) (\<lambda>r. r)
            (run_started E R cfg timeout request
               (h\<lparr>hrequests := rs, hcalls := Started (reqId request) # hcalls h\<rparr>)))))"

section \<open>The store as an interface\<close>

text \<open>What the host relies on: a new id is stored, a taken one is not overwritten, ids do not interfere.\<close>

locale request_store =
  fixes add :: "string \<Rightarrow> 'r \<Rightarrow> 's \<Rightarrow> 's option"
    and get :: "string \<Rightarrow> 's \<Rightarrow> 'r option"
    and remove :: "string \<Rightarrow> 's \<Rightarrow> 's"
  assumes add_taken: "add i r s = None \<longleftrightarrow> get i s \<noteq> None"
    and get_add: "add i r s = Some s' \<Longrightarrow> get j s' = (if j = i then Some r else get j s)"
    and get_remove: "get j (remove i s) = (if j = i then None else get j s)"
begin

text \<open>A request that was added and removed leaves no trace.\<close>

lemma added_then_removed: "add i r s = Some s' \<Longrightarrow> get j (remove i s') = get j s"
  using add_taken [of i r s] by (auto simp: get_remove get_add)

lemma add_twice: "add i r s = Some s' \<Longrightarrow> add i r' s' = None"
  by (simp add: add_taken get_add)

lemma add_after_remove: "\<exists>s'. add i r (remove i s) = Some s'"
  using add_taken [of i r "remove i s"] by (auto simp: get_remove)

end

interpretation rs: request_store store_add store_get store_delete
  by unfold_locales (auto simp: store_add_def store_get_def store_delete_def split: option.splits)

section \<open>Steps of a module\<close>

text \<open>
  All runs of a module share its store and clock, and their guests' calls interleave. One step starts a
  run, serves a call of some guest (with any memory and any arguments), or ends a run.
\<close>

inductive mstep :: "('c, 'm, 'd) host_lib \<Rightarrow> 'c ModuleConfig \<Rightarrow> ('c, 'm) host \<Rightarrow> ('c, 'm) host \<Rightarrow> bool"
  for E :: "('c, 'm, 'd) host_lib" and cfg :: "'c ModuleConfig" where
  start: "store_add rid \<lparr>fetchRequestsCounter = 0, rdResponse = None, rctx = c\<rparr> (hrequests h) = Some rs \<Longrightarrow>
    mstep E cfg h (h\<lparr>hrequests := rs, hcalls := Started rid # hcalls h\<rparr>)"
| call: "host_call E cfg h memory c = (h', r) \<Longrightarrow> mstep E cfg h h'"
| finish: "mstep E cfg h (h\<lparr>hrequests := store_delete rid (hrequests h)\<rparr>)"

inductive module_reachable :: "('c, 'm, 'd) host_lib \<Rightarrow> 'c ModuleConfig \<Rightarrow> ('c, 'm) host \<Rightarrow> bool"
  for E :: "('c, 'm, 'd) host_lib" and cfg :: "'c ModuleConfig" where
  init: "hrequests h = [] \<Longrightarrow> hcalls h = [] \<Longrightarrow> module_reachable E cfg h"
| step: "module_reachable E cfg h \<Longrightarrow> mstep E cfg h h' \<Longrightarrow> module_reachable E cfg h'"

inductive_cases mstep_elim: "mstep E cfg h h'"

text \<open>The fetches that were made for an id since its run was started last.\<close>

fun fetches :: "string \<Rightarrow> 'c hevent list \<Rightarrow> nat" where
  "fetches rid [] = 0"
| "fetches rid (Started i # es) = (if i = rid then 0 else fetches rid es)"
| "fetches rid (Fetched i c r # es) = (if i = rid then Suc (fetches rid es) else fetches rid es)"
| "fetches rid (Emitted i c l m # es) = fetches rid es"


lemma host_call_cases:
  assumes "host_call E cfg h memory c = (h', r)"
  obtains (quiet) "hrequests h' = hrequests h" "\<forall>rid. fetches rid (hcalls h') = fetches rid (hcalls h)"
  | (sent) resp d where "store_get (respId resp) (hrequests h) = Some d"
      "hrequests h' = put (respId resp) (d\<lparr>rdResponse := Some resp\<rparr>) (hrequests h)" "hcalls h' = hcalls h"
  | (fetched) rid d fr where "store_get rid (hrequests h) = Some d"
      "fetchRequestsCounter d < MaxFetchRequests cfg"
      "hrequests h' = put rid (d\<lparr>fetchRequestsCounter := fetchRequestsCounter d + 1\<rparr>) (hrequests h)"
      "hcalls h' = Fetched rid (rctx d) fr # hcalls h"
proof (cases c)
  case (CallSendResponse p n)
  with assms show thesis
    by (auto simp: createSendResponseFn_def intro: quiet sent split: go.splits option.splits)
next
  case (CallFetch a b p n)
  with assms show thesis
    by (auto simp: createFetchFn_def intro: quiet fetched
        split: go.splits option.splits sum.splits if_splits)
next
  case (CallEmit a b p n)
  with assms show thesis
    by (auto simp: createEmitFn_def intro!: quiet split: go.splits option.splits sum.splits prod.splits)
next
  case (CallLog p n)
  with assms have "h' = h" by simp
  then show thesis by (intro quiet) simp_all
next
  case (CallRandomGet p n)
  with assms have "h' = h" by simp
  then show thesis by (intro quiet) simp_all
next
  case (CallPollOneoff a b n q)
  with assms have "hrequests h' = hrequests h" "hcalls h' = hcalls h" by (auto split: prod.splits)
  then show thesis by (intro quiet) simp_all
next
  case (CallClockTimeGet i t q)
  with assms have "hrequests h' = hrequests h" "hcalls h' = hcalls h" by (auto split: prod.splits)
  then show thesis by (intro quiet) simp_all
qed

lemma store_get_put: "store_get j (put i d m) = (if j = i then Some d else store_get j m)"
  by (simp add: store_get_def)




section \<open>Runs as steps\<close>



text \<open>What one run keeps of its own entry, and of which ids are in the store.\<close>

definition own_entry :: "string \<Rightarrow> ('c, 'm) host \<Rightarrow> bool" where
  "own_entry rid h \<longleftrightarrow>
     (\<forall>d r. store_get rid (hrequests h) = Some d \<longrightarrow> rdResponse d = Some r \<longrightarrow> respId r = rid)"

lemma host_call_keeps:
  assumes "host_call E cfg h memory c = (h', r)"
  shows "store_get i (hrequests h') = None \<longleftrightarrow> store_get i (hrequests h) = None"
    and "own_entry i h \<Longrightarrow> own_entry i h'"
  using assms
  by (cases rule: host_call_cases; auto simp: own_entry_def store_get_put split: if_splits)+

lemma run_guest_keeps:
  assumes "run_guest E cfg g h = (h', r)"
  shows "(store_get i (hrequests h') = None \<longleftrightarrow> store_get i (hrequests h) = None) \<and>
    (own_entry i h \<longrightarrow> own_entry i h')"
  using assms
proof (induction g arbitrary: h)
  case (GExit err)
  then show ?case by simp
next
  case (GCall memory c k)
  obtain h1 r1 where hc: "host_call E cfg h memory c = (h1, r1)" by fastforce
  note kept = host_call_keeps [OF hc, of i]
  show ?case
  proof (cases r1)
    case (Ok a)
    then obtain x m where "a = (x, m)" by fastforce
    with Ok hc GCall.prems have "run_guest E cfg (k x m) h1 = (h', r)" by simp
    from GCall.IH [OF rangeI rangeI this] kept show ?thesis by simp
  qed (use hc kept GCall.prems in auto)
qed

lemma run_result_own:
  "own_entry rid h \<Longrightarrow> run_result rid h err = Ok (Some r) \<Longrightarrow> respId r = rid"
  by (auto simp: run_result_def own_entry_def split: if_splits option.splits)

lemma run_started_keeps:
  assumes "run_started E R cfg t q h = (h', r)"
  shows "store_get i (hrequests h') = None \<longleftrightarrow> store_get i (hrequests h) = None"
    and "own_entry (reqId q) h \<Longrightarrow> r = Ok (Some resp) \<Longrightarrow> respId resp = reqId q"
  using assms run_guest_keeps [of E cfg _ h h']
  by (auto simp: run_started_def dest: run_result_own
      split: sum.splits option.splits if_splits prod.splits go.splits host_stop.splits)

text \<open>
  C25. A run ends with the same ids in the store as it began with, whatever its guest did, and also when
  it panics; and a response it returns carries the id of its request, so a guest cannot pass off the
  response to another request.
\<close>

theorem run_owns_request:
  "(store_get i (hrequests (fst (Run E R cfg ctx req h))) = None \<longleftrightarrow> store_get i (hrequests h) = None) \<and>
   (\<forall>r. snd (Run E R cfg ctx req h) = Ok (Some r) \<longrightarrow> (\<exists>q. req = Some q \<and> respId r = reqId q))"
proof (cases "\<exists>t q rs. Timeout cfg = Some t \<and> req = Some q \<and> reqId q \<noteq> [] \<and>
    store_add (reqId q) \<lparr>fetchRequestsCounter = 0, rdResponse = None, rctx = rWithTimeout R ctx t\<rparr>
      (hrequests h) = Some rs")
  case False
  then show ?thesis by (auto simp: Run_def split: option.splits)
next
  case True
  then obtain t q rs where q: "Timeout cfg = Some t" "req = Some q" "reqId q \<noteq> []"
    and add: "store_add (reqId q) \<lparr>fetchRequestsCounter = 0, rdResponse = None, rctx = rWithTimeout R ctx t\<rparr>
      (hrequests h) = Some rs" by blast
  let ?h1 = "h\<lparr>hrequests := rs, hcalls := Started (reqId q) # hcalls h\<rparr>"
  obtain h2 r2 where run: "run_started E R cfg t q ?h1 = (h2, r2)" by fastforce
  have own: "own_entry (reqId q) ?h1" by (simp add: own_entry_def rs.get_add [OF add])
  have fresh: "store_get (reqId q) (hrequests h) = None"
    using rs.add_taken [of "reqId q"] add by (metis option.distinct(1))
  show ?thesis
    using run_started_keeps(1) [OF run, of i] run_started_keeps(2) [OF run own] q add run fresh
    by (auto simp: Run_def rs.get_remove rs.get_add [OF add])
qed

section \<open>Construction of a module\<close>

lemma withDefaults_ready:
  "Timeout (withDefaults cfg) \<noteq> None" "TickInterval (withDefaults cfg) \<noteq> 0"
  "Fetch (withDefaults cfg) \<noteq> None" "Labeler (withDefaults cfg) \<noteq> None"
  "MaxFetchRequests (withDefaults cfg) \<noteq> 0" "MaxDecompressedBinarySize (withDefaults cfg) \<noteq> 0"
  by (simp_all add: withDefaults_def Let_def split: option.splits)

text \<open>
  A module that was constructed was compiled from a binary within the configured size, and the
  configuration it runs with has a timeout, a tick that can be divided by, a fetcher and an emitter: the
  panics of a run on a missing one cannot happen.
\<close>

lemma module_ready:
  assumes "NewModule E modCfg binary opts = Ok (cfg, w)"
  shows "(\<exists>bin. eCompile E bin = Inr w \<and> length bin \<le> unat (MaxDecompressedBinarySize cfg)) \<and>
    (IsUncompressed cfg \<or> length binary \<le> unat (MaxCompressedBinarySize cfg)) \<and>
    Timeout cfg \<noteq> None \<and> TickInterval cfg \<noteq> 0 \<and> Fetch cfg \<noteq> None \<and> Labeler cfg \<noteq> None"
  using assms withDefaults_ready
  by (auto simp: NewModule_def load_binary_def Let_def go_simps split: if_splits sum.splits option.splits)

text \<open>A guest that exits with the runner's code and has sent nothing makes the host read a nil response.\<close>

lemma silent_runner_error_panics:
  assumes "store_get rid (hrequests h) = Some d" and "rdResponse d = None"
    and "containsCode err CodeRunnerErr" and "\<not> containsCode err CodeSuccess"
    and "\<not> containsCode err CodeInvalidResponse" and "\<not> containsCode err CodeInvalidRequest"
  shows "run_result rid h err = Panic"
  using assms by (simp add: run_result_def)

text \<open>A guest whose \<^verbatim>\<open>_start\<close> returns gives neither a response nor an error.\<close>

lemma returning_guest_no_response: "run_result rid h None = Ok None"
  by (simp add: run_result_def containsCode_def)

text \<open>What a guest can do with its log: end the host.\<close>

lemma guest_ends_host:
  assumes "wasmRead memory ptr len = Ok b" and "hParseLog E b = Some [(''level'', JString ''fatal''), (''msg'', JString m)]"
  shows "createLogFn E memory ptr len = Err ProcessExit"
  using assms by (simp add: createLogFn_def Let_def del_def)

lemma sanitize_safe: "length (sanitize s) = length s \<and> (\<forall>c \<in> set (sanitize s). \<not> unsafe_char c)"
  by (auto simp: sanitize_def unsafe_char_def)

lemma sanitize_idem: "sanitize (sanitize s) = sanitize s"
  by (auto simp: sanitize_def unsafe_char_def)

section \<open>A small module\<close>

definition sample_fetch :: pbFetchRequest where
  "sample_fetch = \<lparr>fqUrl = ''u'', fqMethod = ''GET'', fqHeaders = [], fqBody = [], fqTimeoutMs = 0,
     fqId = ''r'', fqMetadata = None, fqMaxRetries = 0\<rparr>"

definition sample_response :: FetchResponse where
  "sample_response = \<lparr>fsExecutionError = False, fsErrorMessage = [], fsStatusCode = 200, fsHeaders = [], fsBody = [9]\<rparr>"

definition sample_host :: "(unit, unit, int \<times> 32 word) host_lib" where
  "sample_host = \<lparr>hUnmarshalResponse = (\<lambda>b. Some \<lparr>respId = ''r'', respErrMsg = [], respMessage = ()\<rparr>),
     hUnmarshalFetch = (\<lambda>b. Inr sample_fetch),
     hMarshalFetch = (\<lambda>m. Inr [2, 3]), hUnmarshalEmit = (\<lambda>b. Inl []), hMarshalEmitError = (\<lambda>m. None),
     hUnwrapLabels = (\<lambda>m. Inr []), hParseLog = (\<lambda>b. None), hValueError = (\<lambda>e. []),
     hRandRead = (\<lambda>s n. replicate n 0), hWasiRandom = (\<lambda>m p n. (0, m)), hNanoBase = 0, hValues = pair_vlib\<rparr>"

definition sample_module_cfg :: "unit ModuleConfig" where
  "sample_module_cfg = \<lparr>TickInterval = 1, Timeout = Some 10, MaxMemoryMBs = 128, MinMemoryMBs = 128, InitialFuel = 0,
     HasLogger = True, IsUncompressed = True, Fetch = Some (\<lambda>n c r. Inr sample_response), MaxFetchRequests = 2,
     MaxCompressedBinarySize = 8, MaxDecompressedBinarySize = 8, MaxResponseSizeBytes = 16,
     Labeler = None, Determinism = None\<rparr>"

text \<open>A guest that fetches three times, and the host after its run.\<close>

definition greedy_guest :: guest where
  "greedy_guest =
     GCall (replicate 16 0) (CallFetch 4 8 0 1) (\<lambda>_ m. GCall m (CallFetch 4 8 0 1) (\<lambda>_ m. GCall m (CallFetch 4 8 0 1) (\<lambda>_ _. GExit None)))"

definition sample_run_lib :: "(unit, unit) run_lib" where
  "sample_run_lib = \<lparr>rWithTimeout = (\<lambda>c t. c), rMarshal = (\<lambda>q. Inr [1]), rInstantiate = (\<lambda>a f l d. Inr (Some greedy_guest))\<rparr>"

text \<open>One that sends its response and exits.\<close>

definition sending_guest :: guest where
  "sending_guest = GCall (replicate 16 0) (CallSendResponse 0 1) (\<lambda>_ _. GExit (Some ''exit status 0''))"

theorem run_owns_request_witness:
  "snd (Run sample_host (sample_run_lib\<lparr>rInstantiate := (\<lambda>a f l d. Inr (Some sending_guest))\<rparr>) sample_module_cfg ()
      (Some \<lparr>reqId = ''r'', reqConfig = [], reqMessage = SpecRequest\<rparr>) \<lparr>hrequests = [], hclock = 0, hcalls = []\<rparr>) =
     Ok (Some \<lparr>respId = ''r'', respErrMsg = [], respMessage = ()\<rparr>) \<and>
   respId \<lparr>respId = ''r'', respErrMsg = [], respMessage = ()\<rparr> = ''r''"
proof -
  let ?run = "Run sample_host (sample_run_lib\<lparr>rInstantiate := (\<lambda>a f l d. Inr (Some sending_guest))\<rparr>) sample_module_cfg ()
      (Some \<lparr>reqId = ''r'', reqConfig = [], reqMessage = SpecRequest\<rparr>) \<lparr>hrequests = [], hclock = 0, hcalls = []\<rparr>"
  have run: "snd ?run = Ok (Some \<lparr>respId = ''r'', respErrMsg = [], respMessage = ()\<rparr>)" by code_simp
  from run_owns_request [THEN conjunct2, rule_format, OF run] run show ?thesis by auto
qed




definition sample_engine :: "(unit, unit) engine_lib" where
  "sample_engine = \<lparr>eBrotli = (\<lambda>b. (b, None)), eCompile = (\<lambda>b. Inr ()), eLink = (\<lambda>c. None)\<rparr>"

lemma module_ready_witness:
  "NewModule sample_engine (sample_module_cfg\<lparr>Timeout := None, TickInterval := 0, Fetch := None\<rparr>) [0, 1] [] =
     Ok (withDefaults (sample_module_cfg\<lparr>Timeout := None, TickInterval := 0, Fetch := None\<rparr>), ()) \<and>
   Timeout (withDefaults (sample_module_cfg\<lparr>Timeout := None, TickInterval := 0, Fetch := None\<rparr>)) \<noteq> None"
proof -
  have "NewModule sample_engine (sample_module_cfg\<lparr>Timeout := None, TickInterval := 0, Fetch := None\<rparr>) [0, 1] [] =
     Ok (withDefaults (sample_module_cfg\<lparr>Timeout := None, TickInterval := 0, Fetch := None\<rparr>), ())"
    by (simp add: NewModule_def load_binary_def sample_engine_def sample_module_cfg_def withDefaults_def Let_def)
  with module_ready [OF this] show ?thesis by blast
qed

end
