(* ===== verification/Workflows.thy ===== *)
theory Workflows
  imports Values
begin

text \<open>
  Workflow graphs and the interpolation of step inputs (\<^verbatim>\<open>pkg/workflows/dependency_graph.go\<close>,
  \<^verbatim>\<open>pkg/workflows/sdk/workflow_spec.go\<close>, \<^verbatim>\<open>pkg/workflows/exec/interpolation.go\<close>).

  A step names the outputs of other steps by tokens \<^verbatim>\<open>$(ref.outputs.path)\<close> inside its inputs. Before
  a workflow runs the tokens give the dependency graph; when it runs they are replaced by the values
  of the results so far. The graph itself is a third-party package, an argument with the behaviour
  that its documentation promises.
\<close>

section \<open>Errors\<close>

datatype edge_error = EdgeAlreadyExists | EdgeCreatesCycle | VertexNotFound

datatype wf_error =
    CannotTraverse | TooFewParts | RefNotFound string | StepErrored | BadRefPart string | UnwrapFailed verr
  | PartNotFound string | NotAnInt string | OutOfBounds int | CannotDescend string
  | SecretNotFound string | BadSecretsToken | BadEnvToken
  | VertexExists string | NoVertex string | InvalidRefs string | EdgeError edge_error

section \<open>Traversal\<close>

fun traverse :: "('s \<Rightarrow> ('e, 'a \<times> 's) go) list \<Rightarrow> 's \<Rightarrow> ('e, 'a list \<times> 's) go" where
  "traverse [] s = Ok ([], s)"
| "traverse (f # fs) s =
     go_bind (f s) (\<lambda>(a, s1). go_map (map_prod ((#) a) (\<lambda>s. s)) (traverse fs s1))"

text \<open>
  \<^verbatim>\<open>DeepMap\<close>: the transformation is a closure that may keep a state, which is passed along. A nil
  value matches no case of the type switch.
\<close>

primrec DeepMap ::
    "'d any \<Rightarrow> ('d any \<Rightarrow> 's \<Rightarrow> (wf_error, 'd any \<times> 's) go) \<Rightarrow> 's \<Rightarrow> (wf_error, 'd any \<times> 's) go" where
  "DeepMap ANil = (\<lambda>tr s. Err CannotTraverse)"
| "DeepMap (AMap m) = (\<lambda>tr s. go_map (map_prod AMap (\<lambda>s. s))
     (traverse (map (\<lambda>(k, f). \<lambda>s. go_map (map_prod (Pair k) (\<lambda>s. s)) (f tr s)) (map (map_prod (\<lambda>k. k) DeepMap) m)) s))"
| "DeepMap (ASlice l) = (\<lambda>tr s. go_map (map_prod ASlice (\<lambda>s. s)) (traverse (map (\<lambda>f. f tr) (map DeepMap l)) s))"
| "DeepMap (AString x) = (\<lambda>tr s. tr (AString x) s)"
| "DeepMap (ABool x) = (\<lambda>tr s. tr (ABool x) s)"
| "DeepMap (ABytes x) = (\<lambda>tr s. tr (ABytes x) s)"
| "DeepMap (ADecimal x) = (\<lambda>tr s. tr (ADecimal x) s)"
| "DeepMap (AInt k x) = (\<lambda>tr s. tr (AInt k x) s)"
| "DeepMap (ABigInt x) = (\<lambda>tr s. tr (ABigInt x) s)"
| "DeepMap (ATime x) = (\<lambda>tr s. tr (ATime x) s)"
| "DeepMap (AFloat64 x) = (\<lambda>tr s. tr (AFloat64 x) s)"
| "DeepMap (AValue x) = (\<lambda>tr s. tr (AValue x) s)"
| "DeepMap AOther = (\<lambda>tr s. tr AOther s)"

text \<open>A transformation that keeps no state.\<close>

definition no_state :: "('a \<Rightarrow> ('e, 'b) go) \<Rightarrow> 'a \<Rightarrow> 's \<Rightarrow> ('e, 'b \<times> 's) go" where
  "no_state f el s = go_map (\<lambda>v. (v, s)) (f el)"

text \<open>\<^verbatim>\<open>InterpolationTokenRe\<close>: a dollar sign and, in parentheses, characters that are not white space.\<close>

definition is_space :: "char \<Rightarrow> bool" where
  "is_space c \<longleftrightarrow> c \<in> {CHR 0x09, CHR 0x0A, CHR 0x0C, CHR 0x0D, CHR '' ''}"

fun match_token :: "string \<Rightarrow> string option" where
  "match_token (c # d # rest) =
     (if c = CHR ''$'' \<and> d = CHR ''('' \<and> rest \<noteq> [] \<and> last rest = CHR '')'' \<and> butlast rest \<noteq> [] \<and>
        list_all (\<lambda>c. \<not> is_space c) (butlast rest) then Some (butlast rest) else None)"
| "match_token _ = None"

definition collect_ref :: "'d any \<Rightarrow> string list \<Rightarrow> (wf_error, 'd any \<times> string list) go" where
  "collect_ref el refs =
     (case el of
        AString str \<Rightarrow>
          (case match_token str of
             None \<Rightarrow> Ok (el, refs)
           | Some m \<Rightarrow> Ok (el, refs @ [hd (split_on (CHR ''.'') m)]))
      | _ \<Rightarrow> Ok (el, refs))"

definition findRefs :: "'d any \<Rightarrow> (wf_error, string list) go" where
  "findRefs inputs = go_map snd (DeepMap inputs collect_ref [])"

section \<open>Interpolation\<close>

record 'd Result =
  resInputs :: "'d Value"
  resOutputs :: "'d Value"
  resError :: bool

text \<open>\<^verbatim>\<open>strconv.Atoi\<close> on a 64-bit machine.\<close>

fun digits_value :: "nat \<Rightarrow> string \<Rightarrow> nat option" where
  "digits_value acc [] = Some acc"
| "digits_value acc (c # cs) =
     (if of_char (CHR ''0'') \<le> (of_char c :: nat) \<and> of_char c \<le> (of_char (CHR ''9'') :: nat)
      then digits_value (10 * acc + (of_char c - of_char (CHR ''0''))) cs else None)"

definition Atoi :: "string \<Rightarrow> int option" where
  "Atoi s =
     (let (neg, ds) = (case s of [] \<Rightarrow> (False, [])
                        | c # cs \<Rightarrow> if c = CHR ''-'' then (True, cs) else if c = CHR ''+'' then (False, cs) else (False, s))
      in if ds = [] then None
         else case digits_value 0 ds of
             None \<Rightarrow> None
           | Some n \<Rightarrow> let i = (if neg then - int n else int n)
                       in if - (2 ^ 63) \<le> i \<and> i < 2 ^ 63 then Some i else None)"

definition interpolate_part :: "'d any \<Rightarrow> string \<Rightarrow> (wf_error, 'd any) go" where
  "interpolate_part val r =
     (case val of
        AMap m \<Rightarrow> (case map_of m r of None \<Rightarrow> Err (PartNotFound r) | Some inner \<Rightarrow> Ok inner)
      | ASlice l \<Rightarrow>
          (case Atoi r of
             None \<Rightarrow> Err (NotAnInt r)
           | Some i \<Rightarrow> if i > int (length l) - 1 \<or> i < 0 then Err (OutOfBounds i) else Ok (l ! nat i))
      | _ \<Rightarrow> Err (CannotDescend r))"

definition InterpolateKey :: "'d vlib \<Rightarrow> string \<Rightarrow> (string \<Rightarrow> 'd Result option) \<Rightarrow> (wf_error, 'd any) go" where
  "InterpolateKey L key state =
     (let parts = split_on (CHR ''.'') key
      in if length parts < 2 then Err TooFewParts
         else case state (parts ! 0) of
             None \<Rightarrow> Err (RefNotFound (parts ! 0))
           | Some sc \<Rightarrow>
               go_bind (if parts ! 1 = ''inputs'' then Ok (resInputs sc)
                        else if parts ! 1 = ''outputs'' then
                          if resError sc then Err StepErrored else Ok (resOutputs sc)
                        else Err (BadRefPart (parts ! 1))) (\<lambda>value.
               go_bind (go_mapErr UnwrapFailed (Unwrap L value)) (\<lambda>val.
                 go_foldM interpolate_part val (drop 2 parts))))"

definition interpolate_element ::
    "'d vlib \<Rightarrow> (string \<Rightarrow> 'd Result option) \<Rightarrow> 'd any \<Rightarrow> (wf_error, 'd any) go" where
  "interpolate_element L state el =
     (case el of
        AString str \<Rightarrow>
          (case match_token str of None \<Rightarrow> Ok el | Some interpolatedVar \<Rightarrow> InterpolateKey L interpolatedVar state)
      | _ \<Rightarrow> Ok el)"

definition FindAndInterpolateAllKeys ::
    "'d vlib \<Rightarrow> 'd any \<Rightarrow> (string \<Rightarrow> 'd Result option) \<Rightarrow> (wf_error, 'd any) go" where
  "FindAndInterpolateAllKeys L input state =
     go_map fst (DeepMap input (no_state (interpolate_element L state)) ())"

record Env =
  envBinary :: bytes
  envConfig :: bytes
  envSecrets :: "(string, string) gomap"

definition env_element :: "Env \<Rightarrow> 'd any \<Rightarrow> (wf_error, 'd any) go" where
  "env_element env el =
     (case el of
        AString str \<Rightarrow>
          (case match_token str of
             None \<Rightarrow> Ok el
           | Some m \<Rightarrow>
               (let splitToken = split_on (CHR ''.'') m
                in if length splitToken < 2 then Ok el
                   else if splitToken ! 0 \<noteq> ''ENV'' then Ok el
                   else if splitToken ! 1 = ''config'' then Ok (ABytes (envConfig env))
                   else if splitToken ! 1 = ''binary'' then Ok (ABytes (envBinary env))
                   else if splitToken ! 1 = ''secrets'' then
                     if length splitToken = 3 then
                       (case map_of (envSecrets env) (splitToken ! 2) of
                          None \<Rightarrow> Err (SecretNotFound (splitToken ! 2))
                        | Some got \<Rightarrow> Ok (AString got))
                     else if length splitToken = 2 then Ok (AMap (map (map_prod (\<lambda>k. k) AString) (envSecrets env)))
                     else Err BadSecretsToken
                   else Err BadEnvToken))
      | _ \<Rightarrow> Ok el)"

definition FindAndInterpolateEnvVars :: "'d any \<Rightarrow> Env \<Rightarrow> (wf_error, 'd any) go" where
  "FindAndInterpolateEnvVars input env =
     go_map fst (DeepMap input (no_state (env_element env)) ())"

section \<open>Dependency graphs\<close>

record 'd StepInputs =
  OutputRef :: string
  Mapping :: "(string \<times> 'd any) list"

record 'd StepDefinition =
  stepID :: string
  stepRef :: string
  stepInputs :: "'d StepInputs"
  stepConfig :: "(string \<times> 'd any) list"
  stepCapabilityType :: string

record 'd WorkflowSpec =
  specName :: string
  specOwner :: string
  Triggers :: "'d StepDefinition list"
  Actions :: "'d StepDefinition list"
  Consensus :: "'d StepDefinition list"
  Targets :: "'d StepDefinition list"

definition Steps :: "'d WorkflowSpec \<Rightarrow> 'd StepDefinition list" where
  "Steps w = Actions w @ Consensus w @ Targets w"

definition KeywordTrigger :: string where "KeywordTrigger = ''trigger''"

text \<open>
  What the code uses of the graph package: a directed graph that prevents cycles. \<open>gKeys\<close> are the
  keys of \<^verbatim>\<open>AdjacencyMap\<close> in the order in which a loop visits them.
\<close>

record ('g, 'd) graph_lib =
  gNew :: 'g
  gAddVertex :: "'d StepDefinition \<Rightarrow> 'g \<Rightarrow> 'g option"
  gKeys :: "'g \<Rightarrow> string list"
  gVertex :: "'g \<Rightarrow> string \<Rightarrow> 'd StepDefinition option"
  gAddEdge :: "string \<Rightarrow> string \<Rightarrow> 'g \<Rightarrow> (edge_error, 'g) go"
  gEdges :: "'g \<Rightarrow> (string \<times> string) list"

text \<open>A step without a reference goes by its id.\<close>

definition default_ref :: "'d StepDefinition \<Rightarrow> 'd StepDefinition" where
  "default_ref s = (if stepRef s = [] then s\<lparr>stepRef := stepID s\<rparr> else s)"

definition add_step :: "('g, 'd) graph_lib \<Rightarrow> 'g \<Rightarrow> 'd StepDefinition \<Rightarrow> (wf_error, 'g) go" where
  "add_step G g s =
     (case gAddVertex G (default_ref s) g of
        None \<Rightarrow> Err (VertexExists (stepRef (default_ref s))) | Some g' \<Rightarrow> Ok g')"

definition step_inputs :: "'d StepDefinition \<Rightarrow> 'd any" where
  "step_inputs step =
     (if OutputRef (stepInputs step) \<noteq> [] then AString (OutputRef (stepInputs step))
      else AMap (Mapping (stepInputs step)))"

definition add_dependency :: "('g, 'd) graph_lib \<Rightarrow> string \<Rightarrow> 'g \<Rightarrow> string \<Rightarrow> (wf_error, 'g) go" where
  "add_dependency G ref g r =
     (case gAddEdge G r ref g of
        Ok g' \<Rightarrow> Ok g'
      | Err e \<Rightarrow> if e = EdgeAlreadyExists then Ok g else Err (EdgeError e)
      | Panic \<Rightarrow> Panic)"

text \<open>The body of the loop over the vertices; the dependencies are those stored in the vertices.\<close>

definition link_step ::
    "('g, 'd) graph_lib \<Rightarrow> 'g \<times> (string, string list) gomap \<Rightarrow> string \<Rightarrow>
     (wf_error, 'g \<times> (string, string list) gomap) go" where
  "link_step G = (\<lambda>(g, deps) ref.
     case gVertex G g ref of
       None \<Rightarrow> Err (NoVertex ref)
     | Some step \<Rightarrow>
         go_bind (findRefs (step_inputs step)) (\<lambda>refs.
           if ref \<noteq> KeywordTrigger \<and> refs = [] then Err (InvalidRefs ref)
           else go_map (\<lambda>g'. (g', put ref refs deps)) (go_foldM (add_dependency G (stepRef step)) g refs)))"

definition trigger_step :: "'d StepDefinition" where
  "trigger_step = \<lparr>stepID = [], stepRef = KeywordTrigger,
     stepInputs = \<lparr>OutputRef = [], Mapping = []\<rparr>, stepConfig = [], stepCapabilityType = []\<rparr>"

definition BuildDependencyGraph ::
    "('g, 'd) graph_lib \<Rightarrow> 'd WorkflowSpec \<Rightarrow> (wf_error, 'g \<times> (string, string list) gomap) go" where
  "BuildDependencyGraph G spec =
     (case gAddVertex G trigger_step (gNew G) of
        None \<Rightarrow> Err (VertexExists KeywordTrigger)
      | Some g0 \<Rightarrow>
          go_bind (go_foldM (add_step G) g0 (Steps spec)) (\<lambda>g1.
            go_foldM (link_step G) (g1, []) (gKeys G g1)))"

section \<open>References\<close>

text \<open>The references of a value and whether it can be traversed at all.\<close>

primrec refs_of :: "'d any \<Rightarrow> string list" where
  "refs_of ANil = []"
| "refs_of (AMap m) = concat (map snd (map (map_prod (\<lambda>k. k) refs_of) m))"
| "refs_of (ASlice l) = concat (map refs_of l)"
| "refs_of (AString str) = (case match_token str of None \<Rightarrow> [] | Some m \<Rightarrow> [hd (split_on (CHR ''.'') m)])"
| "refs_of (ABool x) = []"
| "refs_of (ABytes x) = []"
| "refs_of (ADecimal x) = []"
| "refs_of (AInt k x) = []"
| "refs_of (ABigInt x) = []"
| "refs_of (ATime x) = []"
| "refs_of (AFloat64 x) = []"
| "refs_of (AValue x) = []"
| "refs_of AOther = []"

lemma traverse_refs:
  assumes "list_all2 (\<lambda>f r. \<forall>s a s'. f s = Ok (a, s') \<longrightarrow> s' = s @ r) fs rs" and "traverse fs s = Ok (as, s')"
  shows "s' = s @ concat rs"
  using assms
proof (induction arbitrary: s as rule: list_all2_induct)
  case (Cons f fs r rs)
  from Cons.prems obtain a s1 bs where "f s = Ok (a, s1)" "traverse fs s1 = Ok (bs, s')" by (auto simp: go_simps)
  with Cons.hyps(1) Cons.IH have "s1 = s @ r" "s' = s1 @ concat rs" by blast+
  then show ?case by simp
qed simp

lemma DeepMap_collect: "DeepMap input collect_ref refs = Ok (out, refs') \<Longrightarrow> refs' = refs @ refs_of input"
proof (induction input arbitrary: refs out refs')
  case (AMap m)
  let ?fs = "map (\<lambda>(k, f). \<lambda>s. go_map (map_prod (Pair k) (\<lambda>s. s)) (f collect_ref s)) (map (map_prod (\<lambda>k. k) DeepMap) m)"
  from AMap.prems obtain ms where run: "traverse ?fs refs = Ok (ms, refs')" by (auto simp: go_simps)
  have "list_all2 (\<lambda>f r. \<forall>s a s'. f s = Ok (a, s') \<longrightarrow> s' = s @ r) ?fs (map snd (map (map_prod (\<lambda>k. k) refs_of) m))"
    using AMap.IH by (fastforce simp: list_all2_map1 list_all2_map2 list_all2_same go_simps map_prod_def split: prod.splits)
  from traverse_refs [OF this run] show ?case by simp
next
  case (ASlice l)
  from ASlice.prems obtain ms where run: "traverse (map (\<lambda>f. f collect_ref) (map DeepMap l)) refs = Ok (ms, refs')"
    by (auto simp: go_simps)
  have "list_all2 (\<lambda>f r. \<forall>s a s'. f s = Ok (a, s') \<longrightarrow> s' = s @ r) (map (\<lambda>f. f collect_ref) (map DeepMap l)) (map refs_of l)"
    using ASlice.IH by (auto simp: list_all2_map1 list_all2_map2 list_all2_same)
  from traverse_refs [OF this run] show ?case by simp
qed (auto simp: collect_ref_def split: option.splits)

lemma findRefs_refs_of: "findRefs input = Ok refs \<Longrightarrow> refs = refs_of input"
  by (auto simp: findRefs_def go_simps dest: DeepMap_collect)

text \<open>Interpolation reads the results of the references and of no other step.\<close>

lemma split_on_nonempty [simp]: "split_on c s \<noteq> []"
  by (induction c s rule: split_on.induct) (auto split: list.splits)

lemma interpolate_element_cong:
  assumes "\<forall>r\<in>set (refs_of el). state1 r = state2 r"
  shows "interpolate_element L state1 el = interpolate_element L state2 el"
  using assms
  by (auto simp: interpolate_element_def InterpolateKey_def Let_def hd_conv_nth split: any.splits option.splits)

lemma set_refs_of_AMap: "set (refs_of (AMap m)) = (\<Union>(k, v)\<in>set m. set (refs_of v))"
  by force

lemma DeepMap_cong:
  assumes "\<And>el s. set (refs_of el) \<subseteq> set (refs_of input) \<Longrightarrow> tr1 el s = tr2 el s"
  shows "DeepMap input tr1 = DeepMap input tr2"
  using assms
proof (induction input)
  case (AMap m)
  have pt: "DeepMap v tr1 = DeepMap v tr2" if "(k, v) \<in> set m" for k v
  proof (rule AMap.IH [OF that])
    show "tr1 el s = tr2 el s" if "set (refs_of el) \<subseteq> set (refs_of v)" for el s
      using AMap.prems [of el s] that \<open>(k, v) \<in> set m\<close> unfolding set_refs_of_AMap by blast
  qed simp
  have "map (\<lambda>(k, f). \<lambda>s. go_map (map_prod (Pair k) (\<lambda>s. s)) (f tr1 s)) (map (map_prod (\<lambda>k. k) DeepMap) m) =
    map (\<lambda>(k, f). \<lambda>s. go_map (map_prod (Pair k) (\<lambda>s. s)) (f tr2 s)) (map (map_prod (\<lambda>k. k) DeepMap) m)"
    unfolding map_map by (rule map_cong [OF refl]) (auto dest: pt)
  then show ?case by (simp only: DeepMap.simps)
next
  case (ASlice l)
  have "map (\<lambda>f. f tr1) (map DeepMap l) = map (\<lambda>f. f tr2) (map DeepMap l)"
    using ASlice by fastforce
  then show ?case by (simp only: DeepMap.simps)
qed (auto simp: fun_eq_iff)

lemma traverse_all: "traverse fs s = Ok (as, s') \<Longrightarrow> f \<in> set fs \<Longrightarrow> \<exists>s a s'. f s = Ok (a, s')"
  by (induction fs arbitrary: s as) (auto simp: go_simps)

lemma interpolated_refs:
  fixes s :: 's
  shows "DeepMap input (no_state (interpolate_element L state)) s = Ok out \<Longrightarrow> \<forall>r\<in>set (refs_of input). state r \<noteq> None"
proof (induction input arbitrary: s out)
  case (AMap m)
  let ?tr = "no_state (interpolate_element L state)"
  from AMap.prems obtain ms s' where run: "traverse (map (\<lambda>(k, f). \<lambda>s. go_map (map_prod (Pair k) (\<lambda>s. s)) (f ?tr s))
      (map (map_prod (\<lambda>k. k) DeepMap) m)) s = Ok (ms, s')" by (auto simp: go_simps)
  have "\<exists>(s :: 's) r. DeepMap v ?tr s = Ok r" if "(k, v) \<in> set m" for k v
  proof -
    have "(\<lambda>s. go_map (map_prod (Pair k) (\<lambda>s. s)) (DeepMap v ?tr s)) \<in>
      set (map (\<lambda>(k, f). \<lambda>s. go_map (map_prod (Pair k) (\<lambda>s. s)) (f ?tr s)) (map (map_prod (\<lambda>k. k) DeepMap) m))"
      using that by force
    from traverse_all [OF run this] show ?thesis by (auto simp: go_simps)
  qed
  with AMap.IH show ?case unfolding set_refs_of_AMap by fastforce
next
  case (ASlice l)
  let ?tr = "no_state (interpolate_element L state)"
  from ASlice.prems obtain ms s' where run: "traverse (map (\<lambda>f. f ?tr) (map DeepMap l)) s = Ok (ms, s')"
    by (auto simp: go_simps)
  have "\<exists>(s :: 's) r. DeepMap v ?tr s = Ok r" if "v \<in> set l" for v
    using traverse_all [OF run, of "DeepMap v ?tr"] that by auto
  with ASlice.IH show ?case by fastforce
qed (auto simp: no_state_def interpolate_element_def InterpolateKey_def Let_def hd_conv_nth go_simps
    split: option.splits if_splits)

text \<open>
  C31. The declared dependencies are the real ones. The inputs of a step are interpolated from the results
  of the references that \<^verbatim>\<open>findRefs\<close> finds in them, which become the dependencies of the step in
  the graph, and from nothing else: two states of a workflow that agree on them give the same inputs
  or the same error. And if interpolation succeeds then each of them has a result.
\<close>

theorem interpolation_dependencies:
  assumes "findRefs inputs = Ok refs" and "\<forall>r\<in>set refs. state1 r = state2 r"
  shows "FindAndInterpolateAllKeys L inputs state1 = FindAndInterpolateAllKeys L inputs state2 \<and>
    (is_ok (FindAndInterpolateAllKeys L inputs state1) \<longrightarrow> (\<forall>r\<in>set refs. state1 r \<noteq> None))"
proof -
  have refs: "refs = refs_of inputs" by (rule findRefs_refs_of [OF assms(1)])
  have "DeepMap inputs (no_state (interpolate_element L state1) :: _ \<Rightarrow> unit \<Rightarrow> _) =
      DeepMap inputs (no_state (interpolate_element L state2))"
    using assms(2) interpolate_element_cong [of _ state1 state2 L] unfolding refs no_state_def
    by (intro DeepMap_cong) (metis subsetD)
  then show ?thesis
    using interpolated_refs [of inputs L state1 "()"] unfolding FindAndInterpolateAllKeys_def refs
    by (cases "DeepMap inputs (no_state (interpolate_element L state1)) ()") auto
qed

section \<open>The graph of a workflow\<close>

text \<open>
  What the documentation of the package promises: a vertex is added unless its hash is taken, an
  edge is added between existing vertices, an edge that exists is reported as such and an edge
  that would close a cycle is refused.
\<close>

definition graph_laws :: "('g, 'd) graph_lib \<Rightarrow> bool" where
  "graph_laws G \<longleftrightarrow>
     gKeys G (gNew G) = [] \<and> gEdges G (gNew G) = [] \<and>
     (\<forall>g v g'. gAddVertex G v g = Some g' \<longrightarrow>
        stepRef v \<notin> set (gKeys G g) \<and> set (gKeys G g') = insert (stepRef v) (set (gKeys G g)) \<and>
        gEdges G g' = gEdges G g \<and> gVertex G g' = (gVertex G g)(stepRef v \<mapsto> v)) \<and>
     (\<forall>g s t g'. gAddEdge G s t g = Ok g' \<longrightarrow>
        {s, t} \<subseteq> set (gKeys G g) \<and> set (gKeys G g') = set (gKeys G g) \<and> gVertex G g' = gVertex G g \<and>
        set (gEdges G g') = insert (s, t) (set (gEdges G g)) \<and>
        (acyclic (set (gEdges G g)) \<longrightarrow> acyclic (set (gEdges G g')))) \<and>
     (\<forall>g s t. gAddEdge G s t g = Err EdgeAlreadyExists \<longrightarrow> (s, t) \<in> set (gEdges G g))"

lemma graph_vertex:
  assumes "graph_laws G" and "gAddVertex G v g = Some g'"
  shows "stepRef v \<notin> set (gKeys G g)" and "set (gKeys G g') = insert (stepRef v) (set (gKeys G g))"
    and "gEdges G g' = gEdges G g" and "gVertex G g' = (gVertex G g)(stepRef v \<mapsto> v)"
proof -
  have law: "\<forall>g v g'. gAddVertex G v g = Some g' \<longrightarrow>
      stepRef v \<notin> set (gKeys G g) \<and> set (gKeys G g') = insert (stepRef v) (set (gKeys G g)) \<and>
      gEdges G g' = gEdges G g \<and> gVertex G g' = (gVertex G g)(stepRef v \<mapsto> v)"
    using assms(1) unfolding graph_laws_def by (elim conjE)
  note law [rule_format, OF assms(2)]
  then show "stepRef v \<notin> set (gKeys G g)" and "set (gKeys G g') = insert (stepRef v) (set (gKeys G g))"
    and "gEdges G g' = gEdges G g" and "gVertex G g' = (gVertex G g)(stepRef v \<mapsto> v)" by simp_all
qed

lemma graph_edge:
  assumes "graph_laws G" and "gAddEdge G s t g = Ok g'"
  shows "{s, t} \<subseteq> set (gKeys G g)" and "set (gKeys G g') = set (gKeys G g)" and "gVertex G g' = gVertex G g"
    and "set (gEdges G g') = insert (s, t) (set (gEdges G g))"
    and "acyclic (set (gEdges G g)) \<Longrightarrow> acyclic (set (gEdges G g'))"
proof -
  have law: "\<forall>g s t g'. gAddEdge G s t g = Ok g' \<longrightarrow>
      {s, t} \<subseteq> set (gKeys G g) \<and> set (gKeys G g') = set (gKeys G g) \<and> gVertex G g' = gVertex G g \<and>
      set (gEdges G g') = insert (s, t) (set (gEdges G g)) \<and>
      (acyclic (set (gEdges G g)) \<longrightarrow> acyclic (set (gEdges G g')))"
    using assms(1) unfolding graph_laws_def by (elim conjE)
  note law [rule_format, OF assms(2)]
  then show "{s, t} \<subseteq> set (gKeys G g)" and "set (gKeys G g') = set (gKeys G g)" and "gVertex G g' = gVertex G g"
    and "set (gEdges G g') = insert (s, t) (set (gEdges G g))"
    and "acyclic (set (gEdges G g)) \<Longrightarrow> acyclic (set (gEdges G g'))" by blast+
qed

lemma graph_edge_exists: "graph_laws G \<Longrightarrow> gAddEdge G s t g = Err EdgeAlreadyExists \<Longrightarrow> (s, t) \<in> set (gEdges G g)"
  unfolding graph_laws_def by (elim conjE) blast

text \<open>The vertices: the steps, each under its own reference.\<close>

lemma add_steps:
  assumes "graph_laws G" and "go_foldM (add_step G) g ss = Ok g'" and "gEdges G g = []"
    and "set (gKeys G g) = stepRef ` set old" and "distinct (map stepRef old)"
    and "\<forall>s\<in>set old. gVertex G g (stepRef s) = Some s"
  shows "gEdges G g' = [] \<and> set (gKeys G g') = stepRef ` set (old @ map default_ref ss) \<and>
    distinct (map stepRef (old @ map default_ref ss)) \<and>
    (\<forall>s\<in>set (old @ map default_ref ss). gVertex G g' (stepRef s) = Some s)"
  using assms(2-)
proof (induction ss arbitrary: g old)
  case (Cons s ss)
  from Cons.prems(1) obtain g1 where "add_step G g s = Ok g1" and rest: "go_foldM (add_step G) g1 ss = Ok g'"
    by (auto simp: go_simps)
  then have g1: "gAddVertex G (default_ref s) g = Some g1" by (simp add: add_step_def split: option.splits)
  note v = graph_vertex [OF assms(1) g1]
  have "\<forall>x\<in>set (old @ [default_ref s]). gVertex G g1 (stepRef x) = Some x"
    using Cons.prems(3,5) v(1,4) by (auto, metis imageI)
  with Cons.IH [OF rest, of "old @ [default_ref s]"] Cons.prems(2-4) v show ?case by auto
qed simp

definition edges_closed :: "('g, 'd) graph_lib \<Rightarrow> 'g \<Rightarrow> bool" where
  "edges_closed G g \<longleftrightarrow> set (gEdges G g) \<subseteq> set (gKeys G g) \<times> set (gKeys G g)"

text \<open>The edges: one from every reference of a step to the step.\<close>

lemma add_dependencies:
  assumes "graph_laws G" and "go_foldM (add_dependency G t) g rs = Ok g'"
  shows "set (gKeys G g') = set (gKeys G g) \<and> gVertex G g' = gVertex G g \<and>
    set (gEdges G g') = set (gEdges G g) \<union> (\<lambda>r. (r, t)) ` set rs \<and>
    (acyclic (set (gEdges G g)) \<longrightarrow> acyclic (set (gEdges G g'))) \<and> (edges_closed G g \<longrightarrow> edges_closed G g')"
  using assms(2)
proof (induction rs arbitrary: g)
  case (Cons r rs)
  from Cons.prems obtain g1 where g1: "add_dependency G t g r = Ok g1"
    and rest: "go_foldM (add_dependency G t) g1 rs = Ok g'" by (auto simp: go_simps)
  have "set (gKeys G g1) = set (gKeys G g) \<and> gVertex G g1 = gVertex G g \<and>
      set (gEdges G g1) = insert (r, t) (set (gEdges G g)) \<and>
      (acyclic (set (gEdges G g)) \<longrightarrow> acyclic (set (gEdges G g1))) \<and> (edges_closed G g \<longrightarrow> edges_closed G g1)"
  proof (cases "gAddEdge G r t g")
    case (Ok h)
    then have "h = g1" using g1 by (simp add: add_dependency_def)
    with graph_edge [OF assms(1) Ok] show ?thesis by (auto simp: edges_closed_def)
  next
    case (Err e)
    then have e: "e = EdgeAlreadyExists" "g1 = g" using g1 by (auto simp: add_dependency_def split: if_splits)
    with graph_edge_exists [OF assms(1)] Err have "(r, t) \<in> set (gEdges G g)" by blast
    with e show ?thesis by (simp add: insert_absorb)
  qed (use g1 in \<open>simp add: add_dependency_def\<close>)
  with Cons.IH [OF rest] show ?case by (elim conjE, intro conjI) (simp, simp, simp, blast, blast)
qed simp

lemma link_steps:
  assumes "graph_laws G" and "go_foldM (link_step G) (g, deps) ks = Ok (g', deps')"
  shows "set (gKeys G g') = set (gKeys G g) \<and>
    set (gEdges G g') = set (gEdges G g) \<union>
      {(d, stepRef s) | d s k refs. k \<in> set ks \<and> gVertex G g k = Some s \<and> findRefs (step_inputs s) = Ok refs \<and> d \<in> set refs} \<and>
    (acyclic (set (gEdges G g)) \<longrightarrow> acyclic (set (gEdges G g'))) \<and> (edges_closed G g \<longrightarrow> edges_closed G g') \<and>
    (\<forall>k\<in>set ks. \<exists>s refs. gVertex G g k = Some s \<and> findRefs (step_inputs s) = Ok refs \<and>
       (k = KeywordTrigger \<or> refs \<noteq> []))"
  using assms(2)
proof (induction ks arbitrary: g deps)
  case (Cons k ks)
  from Cons.prems obtain st where st: "link_step G (g, deps) k = Ok st" and rest': "go_foldM (link_step G) st ks = Ok (g', deps')"
    by (auto simp: go_simps)
  from st obtain s refs g1 where s: "gVertex G g k = Some s" "findRefs (step_inputs s) = Ok refs"
    "k = KeywordTrigger \<or> refs \<noteq> []" and g1: "go_foldM (add_dependency G (stepRef s)) g refs = Ok g1"
    and "st = (g1, put k refs deps)"
    by (auto simp: link_step_def go_simps split: option.splits if_splits)
  with rest' have rest: "go_foldM (link_step G) (g1, put k refs deps) ks = Ok (g', deps')" by simp
  note a = add_dependencies [OF assms(1) g1]
  from Cons.IH [OF rest] a s show ?case by auto
qed simp

text \<open>In a finite graph without cycles a vertex is reached from one that has no predecessor.\<close>

lemma reached_from_root:
  assumes "finite E" and "acyclic E" and "\<And>r. r \<in> K \<Longrightarrow> r \<noteq> root \<Longrightarrow> \<exists>d\<in>K. (d, r) \<in> E" and "r \<in> K"
  shows "(root, r) \<in> E\<^sup>*"
  using finite_acyclic_wf [OF assms(1,2)] assms(4)
proof (induction r rule: wf_induct_rule)
  case (less r)
  show ?case
  proof (cases "r = root")
    case False
    with assms(3) less.prems obtain d where "d \<in> K" "(d, r) \<in> E" by blast
    with less.IH show ?thesis by (meson rtrancl.rtrancl_into_rtrancl)
  qed simp
qed

abbreviation workflow_steps :: "'d WorkflowSpec \<Rightarrow> 'd StepDefinition list" where
  "workflow_steps spec \<equiv> trigger_step # map default_ref (Steps spec)"

text \<open>
  C12. A dependency graph that is built is one a workflow can be run along. The references of the steps
  are different from each other and from the trigger's; there is an edge to a step from exactly the
  references in its inputs, all of which are steps or the trigger; there is no cycle; and every
  step is reached from the trigger.
\<close>

theorem dependency_graph_runnable:
  assumes "graph_laws G" and "BuildDependencyGraph G spec = Ok (g, deps)"
  shows "distinct (map stepRef (workflow_steps spec)) \<and>
    set (gEdges G g) = {(d, stepRef s) | d s refs. s \<in> set (workflow_steps spec) \<and>
       findRefs (step_inputs s) = Ok refs \<and> d \<in> set refs} \<and>
    fst ` set (gEdges G g) \<subseteq> stepRef ` set (workflow_steps spec) \<and>
    acyclic (set (gEdges G g)) \<and>
    (\<forall>s\<in>set (workflow_steps spec). (KeywordTrigger, stepRef s) \<in> (set (gEdges G g))\<^sup>*)"
proof -
  from assms(2) obtain g0 g1 where g0: "gAddVertex G trigger_step (gNew G) = Some g0"
    and g1: "go_foldM (add_step G) g0 (Steps spec) = Ok g1"
    and g: "go_foldM (link_step G) (g1, []) (gKeys G g1) = Ok (g, deps)"
    by (auto simp: BuildDependencyGraph_def go_simps split: option.splits)
  have new: "gKeys G (gNew G) = []" "gEdges G (gNew G) = []" using assms(1) by (simp_all add: graph_laws_def)
  note v0 = graph_vertex [OF assms(1) g0, unfolded new]
  from add_steps [OF assms(1) g1, of "[trigger_step]"] v0
  have steps: "gEdges G g1 = []" "set (gKeys G g1) = stepRef ` set (workflow_steps spec)"
    "distinct (map stepRef (workflow_steps spec))"
    "\<forall>s\<in>set (workflow_steps spec). gVertex G g1 (stepRef s) = Some s" by auto
  note link = link_steps [OF assms(1) g]
  have keys: "set (gKeys G g) = stepRef ` set (workflow_steps spec)" using link steps(2) by simp
  have edges: "set (gEdges G g) = {(d, stepRef s) | d s refs. s \<in> set (workflow_steps spec) \<and>
       findRefs (step_inputs s) = Ok refs \<and> d \<in> set refs}"
  proof -
    have "set (gEdges G g) = {(d, stepRef s) | d s k refs. k \<in> stepRef ` set (workflow_steps spec) \<and>
        gVertex G g1 k = Some s \<and> findRefs (step_inputs s) = Ok refs \<and> d \<in> set refs}"
      using link unfolding steps(1,2) by simp
    also have "\<dots> = {(d, stepRef s) | d s refs. s \<in> set (workflow_steps spec) \<and>
        findRefs (step_inputs s) = Ok refs \<and> d \<in> set refs}"
    proof -
      have "(\<exists>k. k \<in> stepRef ` set (workflow_steps spec) \<and> gVertex G g1 k = Some s) \<longleftrightarrow> s \<in> set (workflow_steps spec)" for s
        using steps(4) by (metis (no_types, lifting) imageE imageI option.inject)
      then show ?thesis by blast
    qed
    finally show ?thesis .
  qed
  have ac: "acyclic (set (gEdges G g))" 
  proof -
    have "acyclic (set (gEdges G g1))" by (simp add: steps(1) acyclic_def)
    with link show ?thesis by (elim conjE) blast
  qed
  have closed: "edges_closed G g" 
  proof -
    have "edges_closed G g1" by (simp add: steps(1) edges_closed_def)
    with link show ?thesis by (elim conjE) blast
  qed
  have pred: "\<exists>d\<in>stepRef ` set (workflow_steps spec). (d, r) \<in> set (gEdges G g)"
    if "r \<in> stepRef ` set (workflow_steps spec)" "r \<noteq> KeywordTrigger" for r
  proof -
    from that(1) steps(2) have "r \<in> set (gKeys G g1)" by simp
    with link that(2) obtain s refs where s: "gVertex G g1 r = Some s" "findRefs (step_inputs s) = Ok refs" "refs \<noteq> []"
      by blast
    with steps(4) that(1) have "s \<in> set (workflow_steps spec)" "stepRef s = r" by auto
    with s edges have "(hd refs, r) \<in> set (gEdges G g)" by fastforce
    with closed keys show ?thesis by (auto simp: edges_closed_def)
  qed
  have "(KeywordTrigger, r) \<in> (set (gEdges G g))\<^sup>*" if "r \<in> stepRef ` set (workflow_steps spec)" for r
    using reached_from_root [OF _ ac pred that] by simp
  moreover have "fst ` set (gEdges G g) \<subseteq> stepRef ` set (workflow_steps spec)"
    using closed keys by (auto simp: edges_closed_def)
  ultimately show ?thesis using steps(3) edges ac by blast
qed

section \<open>An instance\<close>

text \<open>A graph as its vertices and its edges.\<close>

definition list_graph :: "('d StepDefinition list \<times> (string \<times> string) list, 'd) graph_lib" where
  "list_graph = \<lparr>gNew = ([], []),
     gAddVertex = (\<lambda>v (vs, es). if stepRef v \<in> stepRef ` set vs then None else Some (v # vs, es)),
     gKeys = (\<lambda>(vs, es). map stepRef vs),
     gVertex = (\<lambda>(vs, es). map_of (map (\<lambda>v. (stepRef v, v)) vs)),
     gAddEdge = (\<lambda>s t (vs, es).
       if s \<notin> stepRef ` set vs \<or> t \<notin> stepRef ` set vs then Err VertexNotFound
       else if (s, t) \<in> set es then Err EdgeAlreadyExists
       else if (t, s) \<in> (set es)\<^sup>* then Err EdgeCreatesCycle
       else Ok (vs, (s, t) # es)),
     gEdges = snd\<rparr>"

lemma list_graph_laws: "graph_laws list_graph"
  unfolding graph_laws_def list_graph_def by (auto split: if_splits)

definition sample_spec :: "nat WorkflowSpec" where
  "sample_spec = \<lparr>specName = [], specOwner = [], Triggers = [], Actions = [],
     Consensus = [\<lparr>stepID = ''ocr3'', stepRef = ''median'', stepInputs = \<lparr>OutputRef = [],
       Mapping = [(''observations'', ASlice [AString ''$(trigger.outputs.value)''])]\<rparr>, stepConfig = [],
       stepCapabilityType = ''consensus''\<rparr>],
     Targets = []\<rparr>"

lemma sample_refs: "findRefs (step_inputs (hd (Consensus sample_spec))) = Ok [''trigger'']"
  by code_simp

theorem interpolation_dependencies_witness:
  "FindAndInterpolateAllKeys pair_vlib (AMap [(''a'', AString ''$(x.outputs.v)'')])
     [''x'' \<mapsto> \<lparr>resInputs = VNil, resOutputs = VMap [(''v'', VBool True)], resError = False\<rparr>] =
   FindAndInterpolateAllKeys pair_vlib (AMap [(''a'', AString ''$(x.outputs.v)'')])
     [''x'' \<mapsto> \<lparr>resInputs = VNil, resOutputs = VMap [(''v'', VBool True)], resError = False\<rparr>,
      ''y'' \<mapsto> \<lparr>resInputs = VNil, resOutputs = VNil, resError = True\<rparr>]"
proof -
  have "findRefs (AMap [(''a'', AString ''$(x.outputs.v)'')] :: (int \<times> 32 word) any) = Ok [''x'']"
    by (simp add: findRefs_def collect_ref_def is_space_def)
  then show ?thesis by (rule interpolation_dependencies [THEN conjunct1]) simp
qed

theorem dependency_graph_runnable_witness:
  "\<exists>g deps. BuildDependencyGraph list_graph sample_spec = Ok (g, deps) \<and>
     (''trigger'', ''median'') \<in> (set (gEdges list_graph g))\<^sup>*"
proof -
  let ?s = "hd (Consensus sample_spec)"
  have refs: "findRefs (step_inputs ?s) = Ok [''trigger'']" by (rule sample_refs)
  have trig: "findRefs (step_inputs (trigger_step :: nat StepDefinition)) = Ok []" by code_simp
  have steps: "Steps sample_spec = [?s]" "default_ref ?s = ?s" "stepRef ?s = ''median''"
    by (simp_all add: Steps_def sample_spec_def default_ref_def)
  obtain g deps where g: "BuildDependencyGraph list_graph sample_spec = Ok (g, deps)"
    using refs trig
    by (simp add: BuildDependencyGraph_def list_graph_def steps add_step_def link_step_def add_dependency_def
        trigger_step_def KeywordTrigger_def)
  from dependency_graph_runnable [OF list_graph_laws g] g steps show ?thesis
    by (auto simp: KeywordTrigger_def)
qed

end
