(* ===== verification/SpecBuilder.thy ===== *)
theory SpecBuilder
  imports Workflows ConsensusTypes
begin

text \<open>
  The builder of workflow specs and their wire form (\<^verbatim>\<open>pkg/workflows/sdk/builder.go\<close>,
  \<^verbatim>\<open>compute.go\<close>, the compute steps of \<^verbatim>\<open>compute_generated.go\<close>, \<^verbatim>\<open>pkg/workflows/wasm/pb/wasm.go\<close>): a
  program adds steps to a factory, gets references to their outputs which it puts into the inputs of
  later steps, and asks for the spec at the end, where mistakes that were only noted become errors.
\<close>

section \<open>References to outputs\<close>

text \<open>
  What \<^verbatim>\<open>Ref\<close> returns: a string, a \<^verbatim>\<open>SecretValue\<close> (a string type of its own, which a type assertion to
  \<^verbatim>\<open>string\<close> refuses), or another value.
\<close>

datatype 'd capref = RefString string | RefSecret string | RefList "'d any list" | RefValue "'d any"

definition ref_any :: "'d capref \<Rightarrow> 'd any" where
  "ref_any r =
     (case r of RefString s \<Rightarrow> AString s | RefSecret s \<Rightarrow> AString s | RefList l \<Rightarrow> ASlice l | RefValue a \<Rightarrow> a)"

definition AccessField :: "'d capref \<Rightarrow> string \<Rightarrow> ('e, 'd capref) go" where
  "AccessField c fieldName =
     (case c of
        RefString originalRef \<Rightarrow>
          if originalRef = [] then Panic
          else Ok (RefString (butlast originalRef @ CHR ''.'' # fieldName @ '')''))
      | _ \<Rightarrow> Panic)"

definition show_index :: "int \<Rightarrow> string" where
  "show_index i = (if i < 0 then CHR ''-'' # show_nat (nat (- i)) else show_nat (nat i))"

text \<open>\<^verbatim>\<open>Index\<close> of a list of definitions and of a single definition of a list.\<close>

definition multi_Index :: "'d any list \<Rightarrow> int \<Rightarrow> ('e, 'd any) go" where
  "multi_Index refs i = (if 0 \<le> i \<and> i < int (length refs) then Ok (refs ! nat i) else Panic)"

definition single_Index :: "'d capref \<Rightarrow> int \<Rightarrow> ('e, 'd capref) go" where
  "single_Index c i =
     (case c of
        RefString listRef \<Rightarrow>
          if listRef = [] then Panic
          else Ok (RefString (butlast listRef @ CHR ''.'' # show_index i @ '')''))
      | RefList l \<Rightarrow> go_map RefValue (multi_Index l i)
      | RefValue (ASlice l) \<Rightarrow> go_map RefValue (multi_Index l i)
      | _ \<Rightarrow> Panic)"

definition ListOf :: "'d capref list \<Rightarrow> 'd capref" where
  "ListOf caps = RefList (map ref_any caps)"

definition AnyMap :: "(string, 'd capref) gomap \<Rightarrow> 'd capref" where
  "AnyMap inputs = RefValue (AMap (map (map_prod (\<lambda>k. k) ref_any) inputs))"

definition ConstantDefinition :: "'d any \<Rightarrow> 'd capref" where
  "ConstantDefinition a = (case a of AString s \<Rightarrow> RefString s | _ \<Rightarrow> RefValue a)"

definition Secrets :: "'d capref" where
  "Secrets = RefSecret ''$(ENV.secrets)''"

definition Secret :: "string \<Rightarrow> 'd capref" where
  "Secret named = RefSecret (''$(ENV.secrets.'' @ named @ '')'')"

definition outputs_ref :: "string \<Rightarrow> string" where
  "outputs_ref ref = ''$('' @ ref @ ''.outputs)''"

section \<open>The factory\<close>

record ('d, 'f) factory =
  fspec :: "'d WorkflowSpec"
  fnames :: "string list"
  duplicateNames :: "string list"
  emptyNames :: bool
  badCapTypes :: "string list"
  ferrors :: "string list"
  fns :: "(string, 'f) gomap"

definition NewWorkflowSpecFactory :: "('d, 'f) factory" where
  "NewWorkflowSpecFactory =
     \<lparr>fspec = \<lparr>specName = [], specOwner = [], Triggers = [], Actions = [], Consensus = [], Targets = []\<rparr>,
      fnames = [], duplicateNames = [], emptyNames = False, badCapTypes = [], ferrors = [], fns = []\<rparr>"

definition append_step :: "'d StepDefinition \<Rightarrow> ('d, 'f) factory \<Rightarrow> ('d, 'f) factory" where
  "append_step step w =
     (let spec = fspec w; t = stepCapabilityType step
      in if t = ''trigger'' then w\<lparr>fspec := spec\<lparr>Triggers := Triggers spec @ [step]\<rparr>\<rparr>
         else if t = ''action'' then w\<lparr>fspec := spec\<lparr>Actions := Actions spec @ [step]\<rparr>\<rparr>
         else if t = ''consensus'' then w\<lparr>fspec := spec\<lparr>Consensus := Consensus spec @ [step]\<rparr>\<rparr>
         else if t = ''target'' then w\<lparr>fspec := spec\<lparr>Targets := Targets spec @ [step]\<rparr>\<rparr>
         else w\<lparr>badCapTypes := badCapTypes w @ [stepID step]\<rparr>)"

text \<open>The names are sets; a list with insertion stands for each.\<close>

definition AddTo :: "'d StepDefinition \<Rightarrow> ('d, 'f) factory \<Rightarrow> 'd capref \<times> ('d, 'f) factory" where
  "AddTo step w =
     (let ref = stepRef step;
          w1 = (if ref \<in> set (fnames w) \<and> stepCapabilityType step \<noteq> ''target''
                then w\<lparr>duplicateNames := List.insert ref (duplicateNames w)\<rparr> else w);
          w2 = (if ref = [] \<and> stepCapabilityType step \<noteq> ''target'' then w1\<lparr>emptyNames := True\<rparr> else w1);
          w3 = w2\<lparr>fnames := List.insert ref (fnames w2)\<rparr>
      in (RefString (outputs_ref ref), append_step step w3))"

definition AddErr :: "string \<Rightarrow> ('d, 'f) factory \<Rightarrow> ('d, 'f) factory" where
  "AddErr e w = w\<lparr>ferrors := ferrors w @ [e]\<rparr>"

datatype spec_error =
    BuilderErrors "string list" | DuplicateSteps "string list" | EmptyStepRefs | BadCapabilityTypes "string list"

definition Spec :: "('d, 'f) factory \<Rightarrow> (spec_error, 'd WorkflowSpec) go" where
  "Spec w =
     (if ferrors w \<noteq> [] then Err (BuilderErrors (ferrors w))
      else if duplicateNames w \<noteq> [] then Err (DuplicateSteps (duplicateNames w))
      else if emptyNames w then Err EmptyStepRefs
      else if badCapTypes w \<noteq> [] then Err (BadCapabilityTypes (badCapTypes w))
      else Ok (fspec w))"

definition GetFn :: "string \<Rightarrow> ('d, 'f) factory \<Rightarrow> 'f option" where
  "GetFn name w = map_of (fns w) name"

section \<open>Compute steps\<close>

text \<open>
  \<^verbatim>\<open>ToMap\<close> of a compute config: a map is taken as it is, another value is wrapped and unwrapped. The map
  is updated in place with the two reserved keys.
\<close>

definition compute_reserved :: "(string \<times> 'd any) list \<Rightarrow> (string, (string \<times> 'd any) list) go" where
  "compute_reserved m =
     (if map_of m ''config'' \<noteq> None then Err ''`config` is a reserved keyword inside Compute config''
      else let m1 = put ''config'' (AString ''$(ENV.config)'') m
           in if map_of m1 ''binary'' \<noteq> None then Err ''`binary` is a reserved keyword inside Compute config''
              else Ok (put ''binary'' (AString ''$(ENV.binary)'') m1))"

definition compute_ToMap ::
    "'d vlib \<Rightarrow> (verr \<Rightarrow> string) \<Rightarrow> 'd any \<Rightarrow> (string, (string \<times> 'd any) list) go" where
  "compute_ToMap L text cfg =
     (case cfg of
        AMap m \<Rightarrow> compute_reserved m
      | _ \<Rightarrow>
          go_bind (go_mapErr text (Wrap cfg)) (\<lambda>v.
            (case v of
               VMap m \<Rightarrow>
                 go_bind (go_mapErr text (Unwrap L (VMap m))) (\<lambda>u.
                   (case u of AMap um \<Rightarrow> compute_reserved um | _ \<Rightarrow> Err ''could not convert config into map''))
             | _ \<Rightarrow> Err (text CouldNotWrap))))"

definition arg_name :: "nat \<Rightarrow> string" where
  "arg_name i = ''Arg'' @ show_nat i"

text \<open>\<^verbatim>\<open>ComputeNWithConfig\<close>, for any number of arguments.\<close>

definition ComputeWithConfig ::
    "string \<Rightarrow> (string, (string \<times> 'd any) list) go \<Rightarrow> 'd capref list \<Rightarrow> 'f \<Rightarrow>
     ('d, 'f) factory \<Rightarrow> 'd capref option \<times> ('d, 'f) factory" where
  "ComputeWithConfig ref cm args fn w =
     (case cm of
        Ok m \<Rightarrow>
          (let def = \<lparr>stepID = ''custom-compute@1.0.0'', stepRef = ref,
                 stepInputs = \<lparr>OutputRef = [], Mapping = map (\<lambda>(i, a). (arg_name i, ref_any a)) (enumerate 0 args)\<rparr>,
                 stepConfig = m, stepCapabilityType = ''action''\<rparr>
           in map_prod Some (\<lambda>w. w) (AddTo def (w\<lparr>fns := put ref fn (fns w)\<rparr>)))
      | Err e \<Rightarrow>
          (None, AddErr (''could not convert config for compute step '' @ ref @ '' to config: '' @ e) w)
      | Panic \<Rightarrow> (None, w))"

section \<open>Programs that build a spec\<close>

datatype ('d, 'f) builder_op =
    BAdd "'d StepDefinition"
  | BCompute string "(string, (string \<times> 'd any) list) go" "'d capref list" 'f
  | BErr string

fun builder_step :: "('d, 'f) builder_op \<Rightarrow> ('d, 'f) factory \<Rightarrow> ('d, 'f) factory" where
  "builder_step (BAdd step) w = snd (AddTo step w)"
| "builder_step (BCompute ref cm args fn) w = snd (ComputeWithConfig ref cm args fn w)"
| "builder_step (BErr e) w = AddErr e w"

definition build :: "('d, 'f) builder_op list \<Rightarrow> ('d, 'f) factory" where
  "build ops = fold builder_step ops NewWorkflowSpecFactory"

text \<open>The compute functions a program registers, with the names of their steps.\<close>

fun computed :: "('d, 'f) builder_op \<Rightarrow> (string \<times> 'f) list" where
  "computed (BCompute ref (Ok m) args fn) = [(ref, fn)]"
| "computed _ = []"

text \<open>The steps that are not targets: the ones other steps refer to by name.\<close>

definition named_refs :: "'d WorkflowSpec \<Rightarrow> string list" where
  "named_refs s = map stepRef (Triggers s @ Actions s @ Consensus s)"

definition builder_inv :: "('d, 'f) factory \<Rightarrow> bool" where
  "builder_inv w \<longleftrightarrow>
     set (named_refs (fspec w)) \<subseteq> set (fnames w) \<and>
     (duplicateNames w = [] \<longrightarrow> distinct (named_refs (fspec w))) \<and>
     (\<not> emptyNames w \<longrightarrow> [] \<notin> set (named_refs (fspec w)))"

lemma AddTo_fields:
  "fnames (snd (AddTo step w)) = List.insert (stepRef step) (fnames w)"
  "fns (snd (AddTo step w)) = fns w" "ferrors (snd (AddTo step w)) = ferrors w"
  "duplicateNames (snd (AddTo step w)) = [] \<Longrightarrow>
     duplicateNames w = [] \<and> (stepRef step \<in> set (fnames w) \<longrightarrow> stepCapabilityType step = ''target'')"
  "emptyNames (snd (AddTo step w)) \<longleftrightarrow>
     emptyNames w \<or> stepRef step = [] \<and> stepCapabilityType step \<noteq> ''target''"
  by (auto simp: AddTo_def append_step_def Let_def List.insert_def split: if_splits)

lemma AddTo_named:
  "mset (named_refs (fspec (snd (AddTo step w)))) =
     mset (named_refs (fspec w)) +
     (if stepCapabilityType step \<in> {''trigger'', ''action'', ''consensus''} then {#stepRef step#} else {#})"
  by (auto simp: AddTo_def append_step_def Let_def named_refs_def)

lemma distinct_mset_add:
  "mset ys = mset xs + {#a#} \<Longrightarrow> distinct ys \<longleftrightarrow> distinct xs \<and> a \<notin> set xs"
  by (metis add_mset_add_single distinct.simps(2) mset.simps(2) mset_eq_imp_distinct_iff conj_commute)

lemma builder_inv_AddTo:
  assumes "builder_inv w"
  shows "builder_inv (snd (AddTo step w))"
proof (cases "stepCapabilityType step \<in> {''trigger'', ''action'', ''consensus''}")
  case True
  then have m: "mset (named_refs (fspec (snd (AddTo step w)))) = mset (named_refs (fspec w)) + {#stepRef step#}"
    and t: "stepCapabilityType step \<noteq> ''target''"
    by (auto simp: AddTo_named)
  have "set (named_refs (fspec (snd (AddTo step w)))) = insert (stepRef step) (set (named_refs (fspec w)))"
    using arg_cong [OF m, of set_mset] by simp
  with assms t distinct_mset_add [OF m] AddTo_fields(4) [of step w] show ?thesis
    by (auto simp: builder_inv_def AddTo_fields(1,5))
next
  case False
  then have m: "mset (named_refs (fspec (snd (AddTo step w)))) = mset (named_refs (fspec w))"
    by (simp add: AddTo_named)
  with assms mset_eq_setD [OF m] mset_eq_imp_distinct_iff [OF m] AddTo_fields(4) [of step w] show ?thesis
    by (auto simp: builder_inv_def AddTo_fields(1,5))
qed

lemma builder_inv_irrelevant [simp]:
  "builder_inv (w\<lparr>fns := f\<rparr>) = builder_inv w" "builder_inv (w\<lparr>ferrors := es\<rparr>) = builder_inv w"
  by (simp_all add: builder_inv_def)

lemma builder_inv_step: "builder_inv w \<Longrightarrow> builder_inv (builder_step op w)"
proof (cases op)
  case (BCompute ref cm args fn)
  moreover assume "builder_inv w"
  ultimately show ?thesis
    by (auto simp: ComputeWithConfig_def AddErr_def Let_def builder_inv_AddTo split: go.splits)
qed (simp_all add: builder_inv_AddTo AddErr_def)

lemma builder_inv_build: "builder_inv (build ops)"
proof (induction ops rule: rev_induct)
  case Nil
  then show ?case by (simp add: build_def NewWorkflowSpecFactory_def builder_inv_def named_refs_def)
next
  case (snoc op ops)
  then show ?case by (simp add: build_def builder_inv_step)
qed

lemma build_snoc [simp]: "build (ops @ [op]) = builder_step op (build ops)"
  by (simp add: build_def)

lemma build_functions:
  "(\<forall>(r, f) \<in> set (concat (map computed ops)). r \<in> set (fnames (build ops))) \<and>
   (duplicateNames (build ops) = [] \<longrightarrow>
     (\<forall>(r, f) \<in> set (concat (map computed ops)). GetFn r (build ops) = Some f))"
proof (induction ops rule: rev_induct)
  case (snoc op ops)
  show ?case
  proof (cases op)
    case (BAdd step)
    with snoc AddTo_fields(4) [of step "build ops"] show ?thesis
      by (auto simp: AddTo_fields(1,2) GetFn_def)
  next
    case (BErr e)
    with snoc show ?thesis by (auto simp: AddErr_def GetFn_def)
  next
    case (BCompute ref cm args fn)
    show ?thesis
    proof (cases cm)
      case (Ok m)
      let ?def = "\<lparr>stepID = ''custom-compute@1.0.0'', stepRef = ref,
        stepInputs = \<lparr>OutputRef = [], Mapping = map (\<lambda>(i, a). (arg_name i, ref_any a)) (enumerate 0 args)\<rparr>,
        stepConfig = m, stepCapabilityType = ''action''\<rparr>"
      have "build (ops @ [op]) = snd (AddTo ?def (build ops\<lparr>fns := put ref fn (fns (build ops))\<rparr>))"
        by (simp add: BCompute Ok ComputeWithConfig_def Let_def)
      with snoc BCompute Ok AddTo_fields(4) [of ?def "build ops\<lparr>fns := put ref fn (fns (build ops))\<rparr>"]
      show ?thesis by (fastforce simp: AddTo_fields(1,2) GetFn_def)
    qed (use snoc BCompute in \<open>auto simp: ComputeWithConfig_def AddErr_def GetFn_def\<close>)
  qed
qed (simp add: build_def)

text \<open>
  C26. A program that gets its spec has given every trigger, action and consensus step a name of its own,
  none of them empty; and the function the runner finds under the name of a compute step is the one
  the program gave that step.
\<close>

theorem spec_names_and_functions:
  assumes "Spec (build ops) = Ok s"
  shows "distinct (named_refs s) \<and> [] \<notin> set (named_refs s) \<and>
    (\<forall>(r, f) \<in> set (concat (map computed ops)). GetFn r (build ops) = Some f)"
  using assms builder_inv_build [of ops] build_functions [of ops]
  by (auto simp: Spec_def builder_inv_def split: if_splits)

section \<open>References that resolve\<close>

text \<open>The fields a program selects one after the other from the output of a step.\<close>

definition select_fields :: "string \<Rightarrow> string list \<Rightarrow> ('e, 'd capref) go" where
  "select_fields ref path = go_foldM AccessField (RefString (outputs_ref ref)) path"

definition plain_name :: "string \<Rightarrow> bool" where
  "plain_name n \<longleftrightarrow> list_all (\<lambda>c. \<not> is_space c) n \<and> CHR ''.'' \<notin> set n"

definition path_text :: "string \<Rightarrow> string list \<Rightarrow> string" where
  "path_text ref path = ref @ ''.outputs'' @ concat (map (\<lambda>f. CHR ''.'' # f) path)"

lemma go_bind_Ok: "go_bind x Ok = x"
  by (cases x) simp_all

lemma select_fields_snoc:
  "select_fields ref (path @ [f]) = go_bind (select_fields ref path) (\<lambda>c. AccessField c f)"
  unfolding select_fields_def by (simp add: go_foldM_append go_bind_Ok)

lemma select_fields_text:
  "select_fields ref path = Ok (RefString (''$('' @ path_text ref path @ '')''))"
proof (induction path rule: rev_induct)
  case (snoc f path)
  then show ?case
    by (simp add: select_fields_snoc AccessField_def path_text_def butlast_append)
qed (simp add: select_fields_def outputs_ref_def path_text_def)

lemma split_on_append:
  "CHR ''.'' \<notin> set a \<Longrightarrow> split_on (CHR ''.'') (a @ CHR ''.'' # b) = a # split_on (CHR ''.'') b"
  by (induction a) auto

lemma split_on_plain: "CHR ''.'' \<notin> set a \<Longrightarrow> split_on (CHR ''.'') a = [a]"
  by (induction a) auto

lemma split_on_fields:
  "CHR ''.'' \<notin> set a \<Longrightarrow> list_all (\<lambda>f. CHR ''.'' \<notin> set f) path \<Longrightarrow>
   split_on (CHR ''.'') (a @ concat (map (\<lambda>f. CHR ''.'' # f) path)) = a # path"
  by (induction path arbitrary: a) (simp_all add: split_on_append split_on_plain)

text \<open>
  The reference a program gets for a field of a step's output is what the engine reads: its token
  names that step and nothing else in the dependency graph, and splits into the step, \<^verbatim>\<open>outputs\<close>, and the
  fields in their order, for names without dots and white space.
\<close>

lemma references_resolve:
  assumes "plain_name ref" and "ref \<noteq> []" and "list_all plain_name path"
  shows "\<exists>text m. select_fields ref path = (Ok (RefString text) :: ('e, 'd capref) go) \<and>
    refs_of (AString text :: 'd any) = [ref] \<and>
    match_token text = Some m \<and> split_on (CHR ''.'') m = ref # ''outputs'' # path"
proof -
  have nospace: "list_all (\<lambda>c. \<not> is_space c) (path_text ref path)"
  proof -
    have "list_all (\<lambda>c. \<not> is_space c) ''.outputs''" "\<not> is_space (CHR ''.'')" by (simp_all add: is_space_def)
    moreover have "list_all (\<lambda>c. \<not> is_space c) ref" "\<forall>f \<in> set path. list_all (\<lambda>c. \<not> is_space c) f"
      using assms by (auto simp: plain_name_def list_all_iff)
    ultimately show ?thesis
      unfolding path_text_def list_all_append by (auto simp: list_all_iff)
  qed
  have split: "split_on (CHR ''.'') (path_text ref path) = ref # ''outputs'' # path"
  proof -
    have dots: "CHR ''.'' \<notin> set ref" "CHR ''.'' \<notin> set ''outputs''" "list_all (\<lambda>f. CHR ''.'' \<notin> set f) path"
      using assms by (auto simp: plain_name_def list_all_iff)
    have "path_text ref path = ref @ CHR ''.'' # (''outputs'' @ concat (map (\<lambda>f. CHR ''.'' # f) path))"
      by (simp add: path_text_def)
    then show ?thesis by (simp only: split_on_append [OF dots(1)] split_on_fields [OF dots(2,3)])
  qed
  have token: "match_token (''$('' @ path_text ref path @ '')'') = Some (path_text ref path)"
  proof -
    have "path_text ref path \<noteq> []" by (simp add: path_text_def)
    with nospace show ?thesis by (simp add: butlast_append)
  qed
  then have "refs_of (AString (''$('' @ path_text ref path @ '')'') :: 'd any) = [ref]"
    using split by simp
  with token split show ?thesis
    using select_fields_text [of ref path] by blast
qed

section \<open>The wire form of a spec\<close>

record pbStepDefinition =
  pdId :: string
  pdRef :: string
  pdInputs :: "(string \<times> pbMap option) option"
  pdConfig :: "pbMap option"
  pdCapabilityType :: string

record pbWorkflowSpec =
  pwName :: string
  pwOwner :: string
  pwTriggers :: "pbStepDefinition list"
  pwActions :: "pbStepDefinition list"
  pwConsensus :: "pbStepDefinition list"
  pwTargets :: "pbStepDefinition list"

datatype spec_pb_error = WrapInputs verr | WrapConfig verr | NilInputs | UnwrapInputs verr | UnwrapConfig verr

text \<open>\<^verbatim>\<open>WrapMap\<close> of a Go map is \<open>NewMap\<close>; \<^verbatim>\<open>UnwrapTo\<close> into a Go map of any values unwraps every entry.\<close>

definition UnwrapMap :: "'d vlib \<Rightarrow> (string \<times> 'd Value) list \<Rightarrow> (verr, (string \<times> 'd any) list) go" where
  "UnwrapMap L m =
     go_bind (Unwrap L (VMap m)) (\<lambda>u. case u of AMap um \<Rightarrow> Ok um | _ \<Rightarrow> Err CannotUnwrap)"

definition toStepDefinition :: "'d vlib \<Rightarrow> 'd StepDefinition \<Rightarrow> (spec_pb_error, pbStepDefinition) go" where
  "toStepDefinition L sd =
     go_bind (go_mapErr WrapInputs (NewMap (Mapping (stepInputs sd)))) (\<lambda>inputs.
     go_bind (go_mapErr WrapConfig (NewMap (stepConfig sd))) (\<lambda>wrappedConfig.
       Ok \<lparr>pdId = stepID sd, pdRef = stepRef sd,
           pdInputs = Some (OutputRef (stepInputs sd), Some (ProtoMap L inputs)),
           pdConfig = Some (ProtoMap L wrappedConfig), pdCapabilityType = stepCapabilityType sd\<rparr>))"

definition WorkflowSpecToProto :: "'d vlib \<Rightarrow> 'd WorkflowSpec \<Rightarrow> (spec_pb_error, pbWorkflowSpec) go" where
  "WorkflowSpecToProto L spec =
     go_bind (go_mapM (toStepDefinition L) (Triggers spec)) (\<lambda>ts.
     go_bind (go_mapM (toStepDefinition L) (Actions spec)) (\<lambda>as.
     go_bind (go_mapM (toStepDefinition L) (Consensus spec)) (\<lambda>cs.
     go_bind (go_mapM (toStepDefinition L) (Targets spec)) (\<lambda>gs.
       Ok \<lparr>pwName = specName spec, pwOwner = specOwner spec,
           pwTriggers = ts, pwActions = as, pwConsensus = cs, pwTargets = gs\<rparr>))))"

definition fromStepDefinition :: "'d vlib \<Rightarrow> pbStepDefinition \<Rightarrow> (spec_pb_error, 'd StepDefinition) go" where
  "fromStepDefinition L sd =
     (case pdInputs sd of
        None \<Rightarrow> Err NilInputs
      | Some (outputRef, mapping) \<Rightarrow>
          go_bind (case FromMapValueProto L mapping of
                     None \<Rightarrow> Ok [] | Some v \<Rightarrow> go_mapErr UnwrapInputs (UnwrapMap L v)) (\<lambda>m.
          go_bind (case FromMapValueProto L (pdConfig sd) of
                     None \<Rightarrow> Ok [] | Some v \<Rightarrow> go_mapErr UnwrapConfig (UnwrapMap L v)) (\<lambda>c.
            Ok \<lparr>stepID = pdId sd, stepRef = pdRef sd,
                stepInputs = \<lparr>OutputRef = outputRef, Mapping = m\<rparr>,
                stepConfig = c, stepCapabilityType = pdCapabilityType sd\<rparr>)))"

definition ProtoToWorkflowSpec :: "'d vlib \<Rightarrow> pbWorkflowSpec \<Rightarrow> (spec_pb_error, 'd WorkflowSpec) go" where
  "ProtoToWorkflowSpec L spec =
     go_bind (go_mapM (fromStepDefinition L) (pwTriggers spec)) (\<lambda>ts.
     go_bind (go_mapM (fromStepDefinition L) (pwActions spec)) (\<lambda>as.
     go_bind (go_mapM (fromStepDefinition L) (pwConsensus spec)) (\<lambda>cs.
     go_bind (go_mapM (fromStepDefinition L) (pwTargets spec)) (\<lambda>gs.
       Ok \<lparr>specName = pwName spec, specOwner = pwOwner spec,
           Triggers = ts, Actions = as, Consensus = cs, Targets = gs\<rparr>))))"

text \<open>
  The values a config or mapping may hold to survive the trip: numbers arrive as \<^verbatim>\<open>int64\<close>, so they have to
  be of that type already, and a \<^verbatim>\<open>values.Value\<close> would arrive unwrapped.
\<close>

primrec wire_any :: "'d any \<Rightarrow> bool" where
  "wire_any ANil = True"
| "wire_any (AString s) = True"
| "wire_any (ABool b) = True"
| "wire_any (ABytes b) = True"
| "wire_any (AMap m) = list_all snd (map (map_prod (\<lambda>k. k) wire_any) m)"
| "wire_any (ASlice l) = list_all (\<lambda>b. b) (map wire_any l)"
| "wire_any (ADecimal d) = True"
| "wire_any (AInt k n) = (k = KInt64 \<and> - (2 ^ 63) \<le> n \<and> n < 2 ^ 63)"
| "wire_any (ABigInt b) = True"
| "wire_any (ATime t) = True"
| "wire_any (AFloat64 f) = True"
| "wire_any (AValue v) = False"
| "wire_any AOther = False"

definition wire_step :: "'d StepDefinition \<Rightarrow> bool" where
  "wire_step sd \<longleftrightarrow>
     list_all (\<lambda>(k, a). wire_any a) (Mapping (stepInputs sd)) \<and> list_all (\<lambda>(k, a). wire_any a) (stepConfig sd)"

definition wire_spec :: "'d WorkflowSpec \<Rightarrow> bool" where
  "wire_spec s \<longleftrightarrow> list_all wire_step (Triggers s @ Actions s @ Consensus s @ Targets s)"

lemma go_mapM_pairs:
  "\<forall>e \<in> set m. f (snd e) = Ok (g (snd e)) \<Longrightarrow>
   go_mapM (\<lambda>(k, r). go_map (Pair k) r) (map (map_prod (\<lambda>k. k) f) m) = Ok (map (map_prod (\<lambda>k. k) g) m)"
  by (induction m) auto

text \<open>Such a value is wrapped to one that unwraps to it.\<close>

lemma wrap_unwrap:
  assumes "vlib_laws L"
  shows "wire_any a \<Longrightarrow> \<exists>v. Wrap a = Ok v \<and> Unwrap L v = Ok a"
proof (induction a)
  case (AMap m)
  then have "\<forall>e \<in> set m. \<exists>v. Wrap (snd e) = Ok v \<and> Unwrap L v = Ok (snd e)"
    by (fastforce simp: list_all_iff snds.simps)
  then have "\<forall>a \<in> snd ` set m. \<exists>v. Wrap a = Ok v \<and> Unwrap L v = Ok a" by auto
  from bchoice [OF this] obtain g
    where g: "\<And>a. a \<in> snd ` set m \<Longrightarrow> Wrap a = Ok (g a) \<and> Unwrap L (g a) = Ok a"
    by auto
  have "Wrap (AMap m) = Ok (VMap (map (map_prod (\<lambda>k. k) g) m))"
    using go_mapM_pairs [of m Wrap g] g by simp
  moreover have "go_mapM (\<lambda>(k, r). go_map (Pair k) r) (map (map_prod (\<lambda>k. k) (\<lambda>a. Unwrap L (g a))) m) =
      Ok (map (map_prod (\<lambda>k. k) (\<lambda>a. a)) m)"
    using g by (intro go_mapM_pairs) simp
  moreover have "map (map_prod (\<lambda>k. k) (Unwrap L)) (map (map_prod (\<lambda>k. k) g) m) =
      map (map_prod (\<lambda>k. k) (\<lambda>a. Unwrap L (g a))) m" "map (map_prod (\<lambda>k. k) (\<lambda>a. a)) m = m"
    by (simp_all add: prod.map_comp comp_def prod.map_ident)
  ultimately have "Unwrap L (VMap (map (map_prod (\<lambda>k. k) g) m)) = go_map AMap (msDecode L m)"
    by (simp only: Unwrap.simps go_bind.simps)
  with \<open>Wrap (AMap m) = _\<close> assms show ?case by (auto simp: vlib_laws_def)
next
  case (ASlice l)
  then have "\<forall>a \<in> set l. \<exists>v. Wrap a = Ok v \<and> Unwrap L v = Ok a" by (auto simp: list_all_iff)
  then obtain g where g: "\<forall>a \<in> set l. Wrap a = Ok (g a) \<and> Unwrap L (g a) = Ok a" by metis
  have "go_mapM (\<lambda>r. r) (map Wrap l) = Ok (map g l)" "go_mapM (\<lambda>r. r) (map (\<lambda>a. Unwrap L (g a)) l) = Ok l"
    using g by (induction l) auto
  then show ?case by (simp add: comp_def)
next
  case (AInt k n)
  then show ?case
    by (auto simp: wrap_int_def sint_sbintrunc' signed_take_bit_int_eq_self)
qed auto

lemma map_wrap_unwrap:
  assumes "vlib_laws L" and "list_all (\<lambda>(k, a). wire_any a) m"
  shows "\<exists>v. NewMap m = Ok v \<and> UnwrapMap L v = Ok m"
proof -
  have "wire_any (AMap m)" using assms(2) by (auto simp: list_all_iff)
  from wrap_unwrap [OF assms(1) this] obtain v where v: "Wrap (AMap m) = Ok v" "Unwrap L v = Ok (AMap m)"
    by blast
  have wrap: "Wrap (AMap m) = go_map VMap (NewMap m)"
    by (rule Wrap_AMap)
  with v(1) obtain vm where "NewMap m = Ok vm" "v = VMap vm"
    by (auto simp del: Wrap.simps simp: go_simps)
  with v(2) show ?thesis by (simp add: UnwrapMap_def)
qed

lemma step_over_the_wire:
  assumes "vlib_laws L" and "wire_step sd"
  shows "\<exists>p. toStepDefinition L sd = Ok p \<and> fromStepDefinition L p = Ok sd"
proof -
  from assms(2) have wire: "list_all (\<lambda>(k, a). wire_any a) (Mapping (stepInputs sd))"
    "list_all (\<lambda>(k, a). wire_any a) (stepConfig sd)"
    by (simp_all add: wire_step_def)
  from map_wrap_unwrap [OF assms(1) wire(1)] map_wrap_unwrap [OF assms(1) wire(2)] obtain i c where
    "NewMap (Mapping (stepInputs sd)) = Ok i" "UnwrapMap L i = Ok (Mapping (stepInputs sd))"
    "NewMap (stepConfig sd) = Ok c" "UnwrapMap L c = Ok (stepConfig sd)"
    by blast
  with assms(1) show ?thesis
    by (simp add: toStepDefinition_def fromStepDefinition_def FromMap_ProtoMap)
qed

lemma steps_over_the_wire:
  assumes "vlib_laws L" and "list_all wire_step sds"
  shows "\<exists>ps. go_mapM (toStepDefinition L) sds = Ok ps \<and> go_mapM (fromStepDefinition L) ps = Ok sds"
  using assms(2)
proof (induction sds)
  case (Cons sd sds)
  with step_over_the_wire [OF assms(1), of sd] show ?case by fastforce
qed simp

text \<open>
  A spec whose configs and inputs hold plain values is sent by the guest and read by the host as it
  was built: every list of steps in its order, with names, references, inputs, configs and types.
\<close>

lemma spec_over_the_wire:
  assumes "vlib_laws L" and "wire_spec spec"
  shows "go_bind (WorkflowSpecToProto L spec) (ProtoToWorkflowSpec L) = Ok spec"
proof -
  from assms(2) have wire: "list_all wire_step (Triggers spec)" "list_all wire_step (Actions spec)"
    "list_all wire_step (Consensus spec)" "list_all wire_step (Targets spec)"
    by (simp_all add: wire_spec_def)
  note sent = steps_over_the_wire [OF assms(1)]
  from sent [OF wire(1)] sent [OF wire(2)] sent [OF wire(3)] sent [OF wire(4)] obtain ts as cs gs where
    "go_mapM (toStepDefinition L) (Triggers spec) = Ok ts" "go_mapM (fromStepDefinition L) ts = Ok (Triggers spec)"
    "go_mapM (toStepDefinition L) (Actions spec) = Ok as" "go_mapM (fromStepDefinition L) as = Ok (Actions spec)"
    "go_mapM (toStepDefinition L) (Consensus spec) = Ok cs" "go_mapM (fromStepDefinition L) cs = Ok (Consensus spec)"
    "go_mapM (toStepDefinition L) (Targets spec) = Ok gs" "go_mapM (fromStepDefinition L) gs = Ok (Targets spec)"
    by blast
  then show ?thesis by (simp add: WorkflowSpecToProto_def ProtoToWorkflowSpec_def)
qed

section \<open>A small program\<close>

definition sample_trigger :: "(int \<times> 32 word) StepDefinition" where
  "sample_trigger = \<lparr>stepID = ''cron@1.0.0'', stepRef = ''trigger'',
     stepInputs = \<lparr>OutputRef = [], Mapping = []\<rparr>, stepConfig = [(''ms'', AInt KInt64 5)],
     stepCapabilityType = ''trigger''\<rparr>"

definition sample_program :: "((int \<times> 32 word), nat) builder_op list" where
  "sample_program = [BAdd sample_trigger, BCompute ''double'' (compute_reserved []) [RefString (outputs_ref ''trigger'')] 7]"

theorem spec_names_and_functions_witness:
  "distinct (named_refs (fspec (build sample_program))) \<and> GetFn ''double'' (build sample_program) = Some 7"
proof -
  have "Spec (build sample_program) = Ok (fspec (build sample_program))" by code_simp
  from spec_names_and_functions [OF this]
  have names: "distinct (named_refs (fspec (build sample_program)))"
    and fns: "\<forall>(r, f) \<in> set (concat (map computed sample_program)). GetFn r (build sample_program) = Some f"
    by blast+
  have "(''double'', 7) \<in> set (concat (map computed sample_program))" by code_simp
  with fns names show ?thesis by blast
qed

lemma references_resolve_witness:
  "\<exists>text m. select_fields ''trigger'' [''price'', ''usd''] = (Ok (RefString text) :: (unit, unit capref) go) \<and>
    refs_of (AString text :: unit any) = [''trigger''] \<and>
    match_token text = Some m \<and> split_on (CHR ''.'') m = [''trigger'', ''outputs'', ''price'', ''usd'']"
  by (rule references_resolve) (simp_all add: plain_name_def is_space_def)

lemma spec_over_the_wire_witness:
  "go_bind (WorkflowSpecToProto pair_vlib (fspec (build sample_program))) (ProtoToWorkflowSpec pair_vlib) =
     Ok (fspec (build sample_program))"
proof (rule spec_over_the_wire [OF pair_vlib_laws])
  show "wire_spec (fspec (build sample_program))" by code_simp
qed

text \<open>A step whose name has a dot is referred to by another name.\<close>

lemma dotted_name_misread: "refs_of (AString (outputs_ref ''a.b'')) = [''a'']"
  by code_simp

text \<open>A field of a secret, or of a value that is not a reference, cannot be selected.\<close>

lemma secret_field_panics: "AccessField (Secret n) f = Panic" "AccessField (RefValue v) f = Panic"
  by (simp_all add: AccessField_def Secret_def)

end
