(* ===== verification/WasmGuest.thy ===== *)
theory WasmGuest
  imports WasmHost CapabilityPb SpecBuilder
begin

text \<open>
  The guest side of a WASM workflow (\<^verbatim>\<open>pkg/workflows/wasm/sdk.go\<close>, \<^verbatim>\<open>runner.go\<close>, \<^verbatim>\<open>runner_wasip1.go\<close>): how
  the runtime fetches and emits through the host, and how the runner reads its request, calls the
  workflow's function and sends the response. The lemmas put both sides together: what the user's
  function gets from a fetch, and what the host's \<^verbatim>\<open>Run\<close> returns for a workflow built with the SDK.

  A call into the host ends with a continuation, so that guest code is a function to trees of
  \<open>guest\<close>. Where the Go runtime of the guest puts its buffers is an argument (\<open>gAlloc\<close>); the theorems
  assume of it only that they lie in memory and do not overlap.
\<close>

section \<open>Configuration and libraries\<close>

record RuntimeConfig =
  rcMaxResponseSizeBytes :: int64
  rcRequestID :: "string option"
  rcMetadata :: "RequestMetadata option"

definition defaultRuntimeConfig :: "string \<Rightarrow> RequestMetadata \<Rightarrow> RuntimeConfig" where
  "defaultRuntimeConfig rid md =
     \<lparr>rcMaxResponseSizeBytes = 5 * 1024 * 1024, rcRequestID = Some rid, rcMetadata = Some md\<rparr>"

record ('m, 'd) guest_lib =
  gMarshalFetch :: "pbFetchRequest \<Rightarrow> string + bytes"
  gUnmarshalFetch :: "bytes \<Rightarrow> string + pbFetchResponse"
  gMarshalEmit :: "pbEmitMessageRequest \<Rightarrow> string + bytes"
  gUnmarshalEmit :: "bytes \<Rightarrow> string + string option"
  gMarshalResponse :: "'m pbResponse \<Rightarrow> bytes option"
  gUnmarshalRequest :: "bytes \<Rightarrow> string + pbCapabilityRequest option pbRequest"
  gExitText :: "nat \<Rightarrow> string"
  gSpecErrorText :: "spec_pb_error \<Rightarrow> string"
  gAlloc :: "bytes \<Rightarrow> nat list \<Rightarrow> bytes \<times> nat list"
  gValues :: "'d vlib"

datatype guest_error =
    HeadersError verr | NoRequestID | MarshalError string | EmptyBuffer | ErrnoReturned int32
  | ResponseTooLarge nat | ResponseUnmarshal string | ExecutionFailed string
  | NoEmitMetadata | MissingLabel string | LabelsError verr | EmitFailed string

text \<open>\<^verbatim>\<open>os.Exit\<close> ends the guest; the Go runtime exits with status 2 when it cannot allocate.\<close>

definition os_exit :: "('m, 'd) guest_lib \<Rightarrow> nat \<Rightarrow> guest" where
  "os_exit G code = GExit (Some (gExitText G code))"

definition out_of_memory :: "('m, 'd) guest_lib \<Rightarrow> guest" where
  "out_of_memory G = os_exit G 2"

section \<open>Fetch\<close>

definition string_map :: "(string, string) gomap \<Rightarrow> (verr, (string \<times> 'd Value) list) go" where
  "string_map m = NewMap (map (\<lambda>(k, v). (k, AString v)) m)"

definition fetch_message ::
    "pbMap \<Rightarrow> string \<Rightarrow> RequestMetadata \<Rightarrow> 'a sdkFetchRequest_scheme \<Rightarrow> pbFetchRequest" where
  "fetch_message headers rid md req =
     \<lparr>fqUrl = frURL req, fqMethod = frMethod req, fqHeaders = headers,
      fqBody = frBody req, fqTimeoutMs = frTimeoutMs req, fqId = rid,
      fqMetadata = Some \<lparr>fmWorkflowID = rmWorkflowID md, fmWorkflowName = rmWorkflowName md,
        fmWorkflowOwner = rmWorkflowOwner md, fmWorkflowExecutionID = rmWorkflowExecutionID md,
        fmDecodedWorkflowName = rmDecodedWorkflowName md\<rparr>,
      fqMaxRetries = frMaxRetries req\<rparr>"

text \<open>What the guest makes of the answer, once its two buffers are filled.\<close>

definition fetch_result ::
    "('m, 'd) guest_lib \<Rightarrow> RuntimeConfig \<Rightarrow> int32 \<Rightarrow> bytes \<Rightarrow> bytes \<Rightarrow> (guest_error, FetchResponse) go" where
  "fetch_result G rc errno respBuffer resplenBuffer =
     (if errno \<noteq> 0 then Err (ErrnoReturned errno)
      else let responseSize = le_nat resplenBuffer in
      if responseSize > unat (ucast (rcMaxResponseSizeBytes rc) :: uint32)
      then Err (ResponseTooLarge responseSize)
      else go_bind (go_slice respBuffer 0 (int responseSize)) (\<lambda>b.
        (case gUnmarshalFetch G b of
           Inl e \<Rightarrow> Err (ResponseUnmarshal e)
         | Inr resp \<Rightarrow>
             if pfExecutionError resp \<and> pfErrorMessage resp \<noteq> [] then Err (ExecutionFailed (pfErrorMessage resp))
             else Ok \<lparr>fsExecutionError = False, fsErrorMessage = [], fsStatusCode = pfStatusCode resp,
                      fsHeaders = map (\<lambda>(k, v). (k, GetStringValue v)) (pfHeaders resp),
                      fsBody = pfBody resp\<rparr>)))"

text \<open>
  Buffers are placed one after the other as the code makes them; \<^verbatim>\<open>bufferToPointerLen\<close> refuses an empty one
  and \<^verbatim>\<open>make\<close> panics on a negative size.
\<close>

definition guest_fetch ::
    "('m, 'd) guest_lib \<Rightarrow> RuntimeConfig \<Rightarrow> bytes \<Rightarrow> 'a sdkFetchRequest_scheme \<Rightarrow>
     ((guest_error, FetchResponse) go \<Rightarrow> bytes \<Rightarrow> guest) \<Rightarrow> guest" where
  "guest_fetch G rc memory req k =
     (case string_map (frHeaders req) of
        Panic \<Rightarrow> k Panic memory
      | Err e \<Rightarrow> k (Err (HeadersError e)) memory
      | Ok headerspb \<Rightarrow>
     (case rcRequestID rc of
        None \<Rightarrow> k (Err NoRequestID) memory
      | Some rid \<Rightarrow>
     (case rcMetadata rc of
        None \<Rightarrow> k Panic memory
      | Some md \<Rightarrow>
     (case gMarshalFetch G (fetch_message (ProtoMap (gValues G) headerspb) rid md req) of
        Inl e \<Rightarrow> k (Err (MarshalError e)) memory
      | Inr b \<Rightarrow>
     if b = [] then k (Err EmptyBuffer) memory
     else if sint (rcMaxResponseSizeBytes rc) < 0 then k Panic memory
     else if rcMaxResponseSizeBytes rc = 0 then k (Err EmptyBuffer) memory
     else
     (let n = nat (sint (rcMaxResponseSizeBytes rc)) in
      case gAlloc G memory [length b, n, 4] of
        (memory1, [reqptr, respptr, resplenptr]) \<Rightarrow>
          GCall (patch (patch (patch memory1 reqptr b) respptr (replicate n 0)) resplenptr (replicate 4 0))
            (CallFetch (of_nat respptr) (of_nat resplenptr) (of_nat reqptr) (of_nat (length b)))
            (\<lambda>errno memory2.
               k (fetch_result G rc errno (take n (drop respptr memory2)) (take 4 (drop resplenptr memory2)))
                 memory2)
      | _ \<Rightarrow> out_of_memory G)))))"

section \<open>Emit\<close>

definition toEmitLabels :: "RequestMetadata \<Rightarrow> labels \<Rightarrow> (guest_error, labels) go" where
  "toEmitLabels md labels =
     (if rmWorkflowID md = [] then Err (MissingLabel ''workflow id'')
      else if rmWorkflowName md = [] then Err (MissingLabel ''workflow name'')
      else if rmWorkflowOwner md = [] then Err (MissingLabel ''workflow owner'')
      else if rmWorkflowExecutionID md = [] then Err (MissingLabel ''workflow execution id'')
      else Ok (put ''workflow_name'' (rmWorkflowName md)
          (put ''workflow_id'' (rmWorkflowID md)
          (put ''workflow_owner_address'' (rmWorkflowOwner md)
          (put ''workflow_execution_id'' (rmWorkflowExecutionID md) labels)))))"

definition emit_result ::
    "('m, 'd) guest_lib \<Rightarrow> RuntimeConfig \<Rightarrow> int32 \<Rightarrow> bytes \<Rightarrow> bytes \<Rightarrow> (guest_error, unit) go" where
  "emit_result G rc errno respBuffer resplenBuffer =
     (if errno \<noteq> 0 then Err (ErrnoReturned errno)
      else let responseSize = le_nat resplenBuffer in
      if responseSize > unat (ucast (rcMaxResponseSizeBytes rc) :: uint32)
      then Err (ResponseTooLarge responseSize)
      else go_bind (go_slice respBuffer 0 (int responseSize)) (\<lambda>b.
        (case gUnmarshalEmit G b of
           Inl e \<Rightarrow> Err (ResponseUnmarshal e)
         | Inr None \<Rightarrow> Ok ()
         | Inr (Some e) \<Rightarrow> if e \<noteq> [] then Err (EmitFailed e) else Ok ())))"

definition guest_emit ::
    "('m, 'd) guest_lib \<Rightarrow> RuntimeConfig \<Rightarrow> bytes \<Rightarrow> string \<Rightarrow> labels \<Rightarrow>
     ((guest_error, unit) go \<Rightarrow> bytes \<Rightarrow> guest) \<Rightarrow> guest" where
  "guest_emit G rc memory msg labels k =
     (case rcMetadata rc of
        None \<Rightarrow> k (Err NoEmitMetadata) memory
      | Some md \<Rightarrow>
     (case toEmitLabels md labels of
        Panic \<Rightarrow> k Panic memory
      | Err e \<Rightarrow> k (Err e) memory
      | Ok labels \<Rightarrow>
     (case string_map labels of
        Panic \<Rightarrow> k Panic memory
      | Err e \<Rightarrow> k (Err (LabelsError e)) memory
      | Ok vm \<Rightarrow>
     (case rcRequestID rc of
        None \<Rightarrow> k Panic memory
      | Some rid \<Rightarrow>
     (case gMarshalEmit G \<lparr>emMessage = msg, emLabels = Some (ProtoMap (gValues G) vm), emRequestId = rid\<rparr> of
        Inl e \<Rightarrow> k (Err (MarshalError e)) memory
      | Inr b \<Rightarrow>
     if sint (rcMaxResponseSizeBytes rc) < 0 then k Panic memory
     else if rcMaxResponseSizeBytes rc = 0 \<or> b = [] then k (Err EmptyBuffer) memory
     else
     (let n = nat (sint (rcMaxResponseSizeBytes rc)) in
      case gAlloc G memory [n, 4, length b] of
        (memory1, [respptr, resplenptr, reqptr]) \<Rightarrow>
          GCall (patch (patch (patch memory1 respptr (replicate n 0)) resplenptr (replicate 4 0)) reqptr b)
            (CallEmit (of_nat respptr) (of_nat resplenptr) (of_nat reqptr) (of_nat (length b)))
            (\<lambda>errno memory2.
               k (emit_result G rc errno (take n (drop respptr memory2)) (take 4 (drop resplenptr memory2)))
                 memory2)
      | _ \<Rightarrow> out_of_memory G))))))"

section \<open>The runner\<close>

datatype respMsg = NoResponseMessage | SpecResponse pbWorkflowSpec | ComputeResponse pbCapabilityResponse

definition unknownID :: string where "unknownID = ''__UNKNOWN__''"

definition errorResponse :: "string \<Rightarrow> string \<Rightarrow> respMsg pbResponse" where
  "errorResponse rid e = \<lparr>respId = rid, respErrMsg = e, respMessage = NoResponseMessage\<rparr>"

definition sendResponseFn :: "(respMsg, 'd) guest_lib \<Rightarrow> bytes \<Rightarrow> respMsg pbResponse \<Rightarrow> guest" where
  "sendResponseFn G memory resp =
     (case gMarshalResponse G resp of
        None \<Rightarrow> os_exit G CodeInvalidResponse
      | Some pb \<Rightarrow>
     if respId resp = unknownID then os_exit G CodeInvalidRequest
     else if pb = [] then os_exit G CodeInvalidResponse
     else
     (case gAlloc G memory [length pb] of
        (memory1, [ptr]) \<Rightarrow>
          GCall (patch memory1 ptr pb) (CallSendResponse (of_nat ptr) (of_nat (length pb)))
            (\<lambda>errno _.
               if errno \<noteq> 0 then os_exit G CodeHostErr
               else os_exit G (if respErrMsg resp \<noteq> [] then CodeRunnerErr else CodeSuccess))
      | _ \<Rightarrow> out_of_memory G))"

definition parseRequest ::
    "('m, 'd) guest_lib \<Rightarrow> string list \<Rightarrow> string + pbCapabilityRequest option pbRequest" where
  "parseRequest G args =
     (if length args \<noteq> 2 then Inl ''invalid request: request must contain a payload''
      else if args ! 1 = [] then Inl ''invalid request: request cannot be empty''
      else (case base64_decode (args ! 1) of
              None \<Rightarrow> Inl ''invalid request: could not decode request into bytes''
            | Some b \<Rightarrow>
                (case gUnmarshalRequest G b of
                   Inl e \<Rightarrow> Inl (''invalid request: could not unmarshal proto: '' @ e)
                 | Inr req \<Rightarrow> Inr req)))"

fun join_with :: "string \<Rightarrow> string list \<Rightarrow> string" where
  "join_with sep [] = []"
| "join_with sep [x] = x"
| "join_with sep (x # y # ys) = x @ sep @ join_with sep (y # ys)"

fun spec_error_text :: "spec_error \<Rightarrow> string" where
  "spec_error_text (BuilderErrors es) = join_with [CHR 0x0A] es"
| "spec_error_text (DuplicateSteps ds) = ''duplicate step ids '' @ join_with '', '' ds"
| "spec_error_text EmptyStepRefs = ''empty step references are not allowed''"
| "spec_error_text (BadCapabilityTypes bs) = ''bad capability type for steps '' @ join_with '', '' bs"

definition handleSpecRequest ::
    "(respMsg, 'd) guest_lib \<Rightarrow> ('d, 'f) factory \<Rightarrow> string \<Rightarrow> (string, respMsg pbResponse) go" where
  "handleSpecRequest G factory rid =
     go_bind (go_mapErr (\<lambda>e. ''error getting spec from factory: '' @ spec_error_text e) (Spec factory)) (\<lambda>spec.
     go_bind (go_mapErr (\<lambda>e. ''failed to translate workflow spec to proto: '' @ gSpecErrorText G e)
                (WorkflowSpecToProto (gValues G) spec)) (\<lambda>specpb.
       Ok \<lparr>respId = rid, respErrMsg = [], respMessage = SpecResponse specpb\<rparr>))"

text \<open>
  The workflow's function is the user's. It gets the runtime, the request and the memory as it is, and goes
  on to the runner with what it returned, or with the value it panicked with.
\<close>

datatype 'd fn_outcome = FnOk "'d capResponse" | FnErr string | FnPanic string

type_synonym 'd compute_fn =
  "RuntimeConfig \<Rightarrow> 'd CapabilityRequest \<Rightarrow> bytes \<Rightarrow> ('d fn_outcome \<Rightarrow> bytes \<Rightarrow> guest) \<Rightarrow> guest"

definition runtime_config :: "string \<Rightarrow> RequestMetadata \<Rightarrow> int64 option \<Rightarrow> RuntimeConfig" where
  "runtime_config rid md rc =
     (let drc = defaultRuntimeConfig rid md
      in case rc of
           None \<Rightarrow> drc
         | Some n \<Rightarrow> if n \<noteq> 0 then drc\<lparr>rcMaxResponseSizeBytes := n\<rparr> else drc)"

definition compute_outcome ::
    "'d vlib \<Rightarrow> string \<Rightarrow> 'd fn_outcome \<Rightarrow> (string, respMsg pbResponse) go" where
  "compute_outcome L rid out =
     (case out of
        FnOk resp \<Rightarrow>
          Ok \<lparr>respId = rid, respErrMsg = [], respMessage = ComputeResponse (CapabilityResponseToProto L resp)\<rparr>
      | FnErr e \<Rightarrow> Err (''error executing custom compute: '' @ e)
      | FnPanic e \<Rightarrow> Err e)"

definition handleComputeRequest ::
    "(respMsg, 'd) guest_lib \<Rightarrow> ('d, 'd compute_fn) factory \<Rightarrow> string \<Rightarrow> pbCapabilityRequest option \<Rightarrow>
     int64 option \<Rightarrow> bytes \<Rightarrow> ((string, respMsg pbResponse) go \<Rightarrow> bytes \<Rightarrow> guest) \<Rightarrow> guest" where
  "handleComputeRequest G factory rid req rc memory k =
     (case req of
        None \<Rightarrow> k (Err ''invalid compute request: nil request'') memory
      | Some r \<Rightarrow>
     (case pcMetadata r of
        None \<Rightarrow> k (Err ''invalid compute request: nil request metadata'') memory
      | Some md \<Rightarrow>
     (case GetFn (rmReferenceID md) factory of
        None \<Rightarrow>
          k (Err (''invalid compute request: could not find compute function for id '' @ rmReferenceID md)) memory
      | Some fn \<Rightarrow>
     (case CapabilityRequestFromProto (gValues G) (Some r) of
        Ok creq \<Rightarrow>
          fn (runtime_config rid (rqMetadata creq) rc) creq memory
            (\<lambda>out memory'. k (compute_outcome (gValues G) rid out) memory')
      | _ \<Rightarrow>
          k (Err ''invalid compute request: could not translate proto into capability request'') memory))))"

definition respond ::
    "(respMsg, 'd) guest_lib \<Rightarrow> string \<Rightarrow> (string, respMsg pbResponse) go \<Rightarrow> bytes \<Rightarrow> guest" where
  "respond G rid r memory =
     (case r of Ok rsp \<Rightarrow> sendResponseFn G memory rsp
      | Err e \<Rightarrow> sendResponseFn G memory (errorResponse rid e)
      | Panic \<Rightarrow> sendResponseFn G memory (errorResponse rid []))"

definition Runner_Run ::
    "(respMsg, 'd) guest_lib \<Rightarrow> ('d, 'd compute_fn) factory \<Rightarrow> string list \<Rightarrow> bytes \<Rightarrow> guest" where
  "Runner_Run G factory args memory =
     (case parseRequest G args of
        Inl e \<Rightarrow> sendResponseFn G memory (errorResponse unknownID e)
      | Inr req \<Rightarrow>
     (case reqMessage req of
        SpecRequest \<Rightarrow> respond G (reqId req) (handleSpecRequest G factory (reqId req)) memory
      | ComputeRequest q rc \<Rightarrow>
          handleComputeRequest G factory (reqId req) q rc memory (respond G (reqId req))
      | NoMessage \<Rightarrow>
          sendResponseFn G memory
            (errorResponse (reqId req) ''invalid request: message must be SpecRequest or ComputeRequest'')))"

section \<open>Both sides together\<close>

text \<open>Windows of memory, given by address and length, that lie inside it and do not overlap.\<close>

fun placed :: "nat \<Rightarrow> (nat \<times> nat) list \<Rightarrow> bool" where
  "placed n [] = True"
| "placed n ((p, k) # ws) =
     (p + k \<le> n \<and> list_all (\<lambda>(q, j). p + k \<le> q \<or> q + j \<le> p) ws \<and> placed n ws)"

text \<open>
  What the libraries promise: a message that one side marshals is read by the other, the error of an exit
  names its status and no other one the host looks for, and buffers the guest gets lie in its memory,
  which is smaller than two gigabytes, without overlap.
\<close>

definition exit_codes :: "nat list" where
  "exit_codes = [CodeSuccess, CodeInvalidResponse, CodeInvalidRequest, CodeRunnerErr, CodeHostErr]"

definition sdk_laws :: "('c, 'm, 'd) host_lib \<Rightarrow> ('m, 'd) guest_lib \<Rightarrow> bool" where
  "sdk_laws E G \<longleftrightarrow>
     (\<forall>m b. gMarshalFetch G m = Inr b \<longrightarrow> hUnmarshalFetch E b = Inr m) \<and>
     (\<forall>m b. hMarshalFetch E m = Inr b \<longrightarrow> gUnmarshalFetch G b = Inr m) \<and>
     (\<forall>m b. gMarshalResponse G m = Some b \<longrightarrow> hUnmarshalResponse E b = Some m) \<and>
     (\<forall>c \<in> set exit_codes. \<forall>c' \<in> set exit_codes. containsCode (Some (gExitText G c)) c' = (c = c')) \<and>
     (\<forall>m ns m1 ps. gAlloc G m ns = (m1, ps) \<longrightarrow> length ps = length ns \<longrightarrow>
        length m1 < 2 ^ 31 \<and> placed (length m1) (zip ps ns))"

lemma window_patch_other:
  assumes "p + length b \<le> length m" and "a + n \<le> length m" and "a + n \<le> p \<or> p + length b \<le> a"
  shows "take n (drop a (patch m p b)) = take n (drop a m)"
  using assms by (intro nth_equalityI) (auto simp: length_patch patch_frame)

lemma window_patch_prefix:
  assumes "p + n \<le> length m" and "length b \<le> n"
  shows "go_slice (take n (drop p (patch m p b))) 0 (int (length b)) = Ok b"
  using assms by (simp add: go_slice_def length_patch patch_window)

lemma string_map_eq: "string_map m = Ok (map (\<lambda>(k, v). (k, VString v)) m)"
  unfolding string_map_def NewMap_def by (induction m) auto

lemma headers_roundtrip:
  "map (\<lambda>(k, v). (k, GetStringValue v)) (ProtoMap L (map (\<lambda>(k, v). (k, VString v)) m)) = m"
  by (induction m) (auto simp: ProtoMap_def)

text \<open>The request the host sees: the guest's, with the metadata of the run.\<close>

definition host_request :: "RequestMetadata \<Rightarrow> 'a sdkFetchRequest_scheme \<Rightarrow> FetchRequest" where
  "host_request md req =
     \<lparr>frURL = frURL req, frMethod = frMethod req, frHeaders = frHeaders req, frBody = frBody req,
      frTimeoutMs = frTimeoutMs req, frMaxRetries = frMaxRetries req,
      frMetadata = \<lparr>fmWorkflowID = rmWorkflowID md, fmWorkflowName = rmWorkflowName md,
        fmWorkflowOwner = rmWorkflowOwner md, fmWorkflowExecutionID = rmWorkflowExecutionID md,
        fmDecodedWorkflowName = rmDecodedWorkflowName md\<rparr>\<rparr>"

lemma toSdkReq_fetch_message:
  "toSdkReq (fetch_message (ProtoMap L (map (\<lambda>(k, v). (k, VString v)) (frHeaders req))) rid md req) =
     host_request md req"
  by (simp add: toSdkReq_def fetch_message_def host_request_def headers_roundtrip)

definition wire_response :: "'d vlib \<Rightarrow> FetchResponse \<Rightarrow> pbFetchResponse" where
  "wire_response L resp =
     \<lparr>pfExecutionError = fsExecutionError resp, pfErrorMessage = fsErrorMessage resp,
      pfStatusCode = fsStatusCode resp,
      pfHeaders = ProtoMap L (map (\<lambda>(k, v). (k, VString v)) (fsHeaders resp)), pfBody = fsBody resp\<rparr>"

lemma fromSdkResp_eq: "fromSdkResp L resp = Ok (wire_response L resp)"
  by (simp add: fromSdkResp_def wire_response_def string_map_eq [unfolded string_map_def])

lemma wasmWriteUInt32_inside:
  assumes "length m < 2 ^ 31" and "p + 4 \<le> length m" and "n < 2 ^ 32"
  shows "wasmWriteUInt32 m (of_nat p) (of_nat n) = Ok (4, patch m p (le_fixed 4 n))"
proof -
  have "unat (of_nat n :: uint32) = n" using assms(3) by (simp add: unat_of_nat)
  then show ?thesis
    using assms wasmWrite_inside [of m p "le_fixed 4 n"] by (simp add: wasmWriteUInt32_def)
qed

text \<open>The answer of the host lands in the guest's buffers, whatever their size.\<close>

lemma fetch_answer_written:
  assumes "length m < 2 ^ 31" and "hMarshalFetch E (wire_response (hValues E) resp) = Inr rb"
    and "r + length rb \<le> length m" and "l + 4 \<le> length m"
  shows "fetch_answer E m (of_nat r) (of_nat l) (Inr resp) =
    Ok (ErrnoSuccess, patch (patch m r rb) l (le_fixed 4 (length rb)))"
  using assms by (simp add: fetch_answer_def fromSdkResp_eq wasmWrite_inside wasmWriteUInt32_inside length_patch)

text \<open>
  Nothing compares the length of the answer with the guest's buffer before it is written: what lies behind
  the buffer in the guest's memory is overwritten by a longer one.
\<close>

lemma long_answer_overruns:
  assumes "length m < 2 ^ 31" and "hMarshalFetch E (wire_response (hValues E) resp) = Inr rb"
    and "r + length rb \<le> length m" and "l + 4 \<le> r"
    and "n < length rb" and "fetch_answer E m (of_nat r) (of_nat l) (Inr resp) = Ok (errno, m')"
  shows "m' ! (r + n) = rb ! n"
proof -
  have "m' = patch (patch m r rb) l (le_fixed 4 (length rb))"
    using assms by (simp add: fetch_answer_written)
  moreover have "patch m r rb ! (r + n) = rb ! n"
    using assms(3,5) by (simp add: patch_def nth_append)
  ultimately show ?thesis
    using assms(3,4,5) by (simp add: patch_frame length_patch)
qed

text \<open>The guest's memory at the call of \<^verbatim>\<open>fetch\<close>, and what the host reads there.\<close>

lemma fetch_memory:
  assumes "placed (length m1) [(a, length b), (r, n), (l, 4)]"
  defines "m \<equiv> patch (patch (patch m1 a b) r (replicate n 0)) l (replicate 4 0)"
  shows "length m = length m1" and "take (length b) (drop a m) = b"
  using assms by (auto simp: length_patch window_patch_other patch_window)

lemma fetch_buffers:
  assumes "placed (length m) [(a, length b), (r, n), (l, 4)]" and "length rb \<le> n"
  defines "m' \<equiv> patch (patch m r rb) l (le_fixed 4 (length rb))"
  shows "take 4 (drop l m') = le_fixed 4 (length rb)"
    and "go_slice (take n (drop r m')) 0 (int (length rb)) = Ok rb"
proof -
  have inside: "r + n \<le> length m" "l + 4 \<le> length m" "r + n \<le> l \<or> l + 4 \<le> r"
    using assms(1) by auto
  show "take 4 (drop l m') = le_fixed 4 (length rb)"
    using patch_window [of l "le_fixed 4 (length rb)" "patch m r rb"] inside assms(2)
    by (simp add: m'_def length_patch)
  have "take n (drop r m') = take n (drop r (patch m r rb))"
    unfolding m'_def using inside assms(2) by (intro window_patch_other) (auto simp: length_patch)
  then show "go_slice (take n (drop r m')) 0 (int (length rb)) = Ok rb"
    using window_patch_prefix [OF inside(1) assms(2)] by simp
qed

lemma fetch_result_ok:
  assumes "sdk_laws E G" and "hMarshalFetch E (wire_response (hValues E) resp) = Inr rb"
    and "\<not> (fsExecutionError resp \<and> fsErrorMessage resp \<noteq> [])"
    and "length rb \<le> n" and "n < 2 ^ 31" and "sint (rcMaxResponseSizeBytes rc) = int n"
    and "go_slice respBuffer 0 (int (length rb)) = (Ok rb :: (guest_error, bytes) go)"
  shows "fetch_result G rc ErrnoSuccess respBuffer (le_fixed 4 (length rb)) =
    Ok (resp\<lparr>fsExecutionError := False, fsErrorMessage := []\<rparr>)"
proof -
  have "rcMaxResponseSizeBytes rc = of_int (sint (rcMaxResponseSizeBytes rc))"
    by simp
  then have "rcMaxResponseSizeBytes rc = of_nat n"
    unfolding assms(6) by simp
  then have "unat (ucast (rcMaxResponseSizeBytes rc) :: uint32) = n"
    using assms(5) by (simp add: unsigned_ucast_eq take_bit_nat_eq_self unat_of_nat)
  moreover have "gUnmarshalFetch G rb = Inr (wire_response (hValues E) resp)"
    using assms(1,2) by (simp add: sdk_laws_def)
  ultimately show ?thesis
    using assms(3,4,5,7)
    by (auto simp: fetch_result_def Let_def ErrnoSuccess_def wire_response_def headers_roundtrip)
qed

text \<open>
  C24. A fetch of the guest that is within the budget of its run reaches the configured fetcher as the
  function made it, with the metadata of the run, and comes back as the fetcher answered: status,
  headers and body, when the answer fits into the response buffer.
\<close>

theorem fetch_round_trip:
  assumes laws: "sdk_laws E G"
    and entry: "store_get rid (hrequests h) = Some d" "fetchRequestsCounter d < MaxFetchRequests cfg"
    and rc: "rcRequestID rc = Some rid" "rcMetadata rc = Some md"
    and limit: "sint (rcMaxResponseSizeBytes rc) = int n" "0 < n"
    and req: "gMarshalFetch G (fetch_message (ProtoMap (gValues G)
        (map (\<lambda>(k, v). (k, VString v)) (frHeaders req))) rid md req) = Inr b" "b \<noteq> []"
    and alloc: "gAlloc G memory [length b, n, 4] = (m1, [a, r, l])"
    and answer: "Fetch cfg = Some f" "f (length (hcalls h)) (rctx d) (host_request md req) = Inr resp"
      "\<not> (fsExecutionError resp \<and> fsErrorMessage resp \<noteq> [])"
      "hMarshalFetch E (wire_response (hValues E) resp) = Inr rb" "length rb \<le> n"
  shows "\<exists>memory'. run_guest E cfg (guest_fetch G rc memory req k) h =
    run_guest E cfg (k (Ok (resp\<lparr>fsExecutionError := False, fsErrorMessage := []\<rparr>)) memory')
      (h\<lparr>hrequests := put rid (d\<lparr>fetchRequestsCounter := fetchRequestsCounter d + 1\<rparr>) (hrequests h),
         hcalls := Fetched rid (rctx d) (host_request md req) # hcalls h\<rparr>)"
proof -
  let ?m = "patch (patch (patch m1 a b) r (replicate n 0)) l (replicate 4 0)"
  from laws alloc have len: "length m1 < 2 ^ 31" and pl: "placed (length m1) [(a, length b), (r, n), (l, 4)]"
    unfolding sdk_laws_def by fastforce+
  note mem = fetch_memory [OF pl]
  have inside: "a + length b \<le> length ?m" "r + length rb \<le> length ?m" "l + 4 \<le> length ?m" "n < 2 ^ 31"
    using pl answer(5) len unfolding mem(1) by auto
  have rd: "wasmRead ?m (of_nat a) (of_nat (length b)) = Ok b"
    using wasmRead_inside [OF _ inside(1)] mem len by simp
  have un: "hUnmarshalFetch E b = Inr (fetch_message (ProtoMap (gValues G)
      (map (\<lambda>(k, v). (k, VString v)) (frHeaders req))) rid md req)"
    using laws req(1) by (simp add: sdk_laws_def)
  let ?m' = "patch (patch ?m r rb) l (le_fixed 4 (length rb))"
  have written: "fetch_answer E ?m (of_nat r) (of_nat l) (Inr resp) = Ok (ErrnoSuccess, ?m')"
    by (rule fetch_answer_written) (use mem len inside answer in auto)
  have pl': "placed (length ?m) [(a, length b), (r, n), (l, 4)]" unfolding mem(1) by (rule pl)
  have result: "fetch_result G rc ErrnoSuccess (take n (drop r ?m')) (take 4 (drop l ?m')) =
      Ok (resp\<lparr>fsExecutionError := False, fsErrorMessage := []\<rparr>)"
    unfolding fetch_buffers(1) [OF pl' answer(5)]
    by (rule fetch_result_ok [OF laws answer(4,3,5) inside(4) limit(1) fetch_buffers(2) [OF pl' answer(5)]])
  have id_rid: "fqId (fetch_message hs rid md req) = rid" for hs by (simp add: fetch_message_def)
  have "rcMaxResponseSizeBytes rc \<noteq> 0" using limit by auto
  then have call: "guest_fetch G rc memory req k =
      GCall ?m (CallFetch (of_nat r) (of_nat l) (of_nat a) (of_nat (length b)))
        (\<lambda>errno memory2. k (fetch_result G rc errno (take n (drop r memory2)) (take 4 (drop l memory2))) memory2)"
    using rc limit req alloc by (simp add: guest_fetch_def string_map_eq Let_def)
  have "host_call E cfg h ?m (CallFetch (of_nat r) (of_nat l) (of_nat a) (of_nat (length b))) =
      (h\<lparr>hrequests := put rid (d\<lparr>fetchRequestsCounter := fetchRequestsCounter d + 1\<rparr>) (hrequests h),
         hcalls := Fetched rid (rctx d) (host_request md req) # hcalls h\<rparr>, Ok (ErrnoSuccess, ?m'))"
    using entry answer(1,2) by (simp add: createFetchFn_def rd un id_rid toSdkReq_fetch_message written)
  then have "run_guest E cfg (guest_fetch G rc memory req k) h =
    run_guest E cfg (k (Ok (resp\<lparr>fsExecutionError := False, fsErrorMessage := []\<rparr>)) ?m')
      (h\<lparr>hrequests := put rid (d\<lparr>fetchRequestsCounter := fetchRequestsCounter d + 1\<rparr>) (hrequests h),
         hcalls := Fetched rid (rctx d) (host_request md req) # hcalls h\<rparr>)"
    unfolding call by (simp add: result)
  then show ?thesis by blast
qed

lemma base64_encode_empty: "base64_encode b = [] \<longleftrightarrow> b = []"
  by (cases b rule: base64_encode.cases) simp_all

lemma send_response:
  assumes laws: "sdk_laws E G" and pb: "gMarshalResponse G resp = Some pb" "pb \<noteq> []" "respId resp \<noteq> unknownID"
    and alloc: "gAlloc G memory [length pb] = (m1, [p])"
    and entry: "store_get (respId resp) (hrequests h) = Some d"
  shows "run_guest E cfg (sendResponseFn G memory resp) h =
    (h\<lparr>hrequests := put (respId resp) (d\<lparr>rdResponse := Some resp\<rparr>) (hrequests h)\<rparr>,
     Ok (Some (gExitText G (if respErrMsg resp \<noteq> [] then CodeRunnerErr else CodeSuccess))))"
proof -
  from laws alloc have len: "length m1 < 2 ^ 31" and inside: "p + length pb \<le> length m1"
    unfolding sdk_laws_def by fastforce+
  have "wasmRead (patch m1 p pb) (of_nat p) (of_nat (length pb)) = Ok pb"
    using wasmRead_inside [of "patch m1 p pb" p "length pb"] len inside by (simp add: length_patch patch_window)
  moreover have "hUnmarshalResponse E pb = Some resp" using laws pb(1) by (simp add: sdk_laws_def)
  ultimately show ?thesis
    using pb alloc entry
    by (simp add: sendResponseFn_def createSendResponseFn_def os_exit_def ErrnoSuccess_def)
qed

text \<open>The response to a request, from what the workflow's function did.\<close>

definition guest_response :: "'d vlib \<Rightarrow> string \<Rightarrow> 'd fn_outcome \<Rightarrow> respMsg pbResponse" where
  "guest_response L rid out =
     (case compute_outcome L rid out of Ok r \<Rightarrow> r | Err e \<Rightarrow> errorResponse rid e | Panic \<Rightarrow> errorResponse rid [])"

lemma respond_outcome:
  "respond G rid (compute_outcome (gValues G) rid out) =
     (\<lambda>memory. sendResponseFn G memory (guest_response (gValues G) rid out))"
  by (auto simp: fun_eq_iff respond_def guest_response_def split: go.splits)

lemma guest_response_id [simp]: "respId (guest_response L rid out) = rid"
  by (auto simp: guest_response_def compute_outcome_def errorResponse_def split: fn_outcome.splits)

lemma run_result_sent:
  assumes "sdk_laws E G" and "store_get rid (hrequests h) = Some d" and "rdResponse d = Some resp"
  shows "run_result rid h (Some (gExitText G (if respErrMsg resp \<noteq> [] then CodeRunnerErr else CodeSuccess))) =
    (if respErrMsg resp \<noteq> [] then Err (RunnerFailed (respErrMsg resp) (gExitText G CodeRunnerErr))
     else Ok (Some resp))"
proof -
  have codes: "containsCode (Some (gExitText G c)) c' = (c = c')" if "c \<in> set exit_codes" "c' \<in> set exit_codes" for c c'
    using assms(1) that by (simp add: sdk_laws_def)
  have "CodeSuccess \<in> set exit_codes" "CodeInvalidResponse \<in> set exit_codes" "CodeInvalidRequest \<in> set exit_codes"
    "CodeRunnerErr \<in> set exit_codes" by (simp_all add: exit_codes_def)
  then show ?thesis
    using assms(2,3) by (simp add: run_result_def codes CodeSuccess_def CodeRunnerErr_def
        CodeInvalidResponse_def CodeInvalidRequest_def)
qed

text \<open>
  C14. End to end: the host runs a workflow that was built with the SDK, and the function the workflow has
  for the step returns, fails or panics, after any calls into the host. Then the run returns the response
  to this request with what the function returned, or the error with what it failed with.
\<close>

theorem run_returns_outcome:
  assumes laws: "sdk_laws E G" and cfg: "Timeout cfg = Some t" "TickInterval cfg \<noteq> 0"
    and req: "reqId req \<noteq> []" "reqId req \<noteq> unknownID" "store_get (reqId req) (hrequests h) = None"
      "reqMessage req = ComputeRequest (Some pq) x"
    and wire: "rMarshal R (with_runtime_config (MaxResponseSizeBytes cfg) req) = Inr b" "b \<noteq> []"
      "gUnmarshalRequest G b = Inr (with_runtime_config (MaxResponseSizeBytes cfg) req)"
    and module: "\<And>args fuel lim deadline. rInstantiate R args fuel lim deadline = Inr (Some (Runner_Run G factory args memory))"
    and fn: "pcMetadata pq = Some md" "GetFn (rmReferenceID md) factory = Some fn"
      "CapabilityRequestFromProto (gValues G) (Some pq) = Ok creq"
    and finishes: "\<And>k rs. store_add (reqId req)
        \<lparr>fetchRequestsCounter = 0, rdResponse = None, rctx = rWithTimeout R ctx t\<rparr> (hrequests h) = Some rs \<Longrightarrow>
      run_guest E cfg (fn (runtime_config (reqId req) (rqMetadata creq) (Some (MaxResponseSizeBytes cfg))) creq memory k)
        (h\<lparr>hrequests := rs, hcalls := Started (reqId req) # hcalls h\<rparr>) = run_guest E cfg (k out mf) hf"
    and send: "gMarshalResponse G (guest_response (gValues G) (reqId req) out) = Some pb" "pb \<noteq> []"
      "gAlloc G mf [length pb] = (grown, [p])"
  shows "snd (Run E R cfg ctx (Some req) h) =
    (let resp = guest_response (gValues G) (reqId req) out
     in if respErrMsg resp \<noteq> [] then Err (RunnerFailed (respErrMsg resp) (gExitText G CodeRunnerErr))
        else Ok (Some resp))"
proof -
  let ?d = "\<lparr>fetchRequestsCounter = 0, rdResponse = None, rctx = rWithTimeout R ctx t\<rparr>"
  let ?resp = "guest_response (gValues G) (reqId req) out"
  obtain rs where add: "store_add (reqId req) ?d (hrequests h) = Some rs"
    using rs.add_taken [of "reqId req" ?d "hrequests h"] req(3) by auto
  let ?h1 = "h\<lparr>hrequests := rs, hcalls := Started (reqId req) # hcalls h\<rparr>"
  have guest: "Runner_Run G factory [''wasi'', base64_encode b] memory =
      fn (runtime_config (reqId req) (rqMetadata creq) (Some (MaxResponseSizeBytes cfg))) creq memory
        (\<lambda>out memory'. sendResponseFn G memory' (guest_response (gValues G) (reqId req) out))"
    using wire req(4) fn
    by (simp add: Runner_Run_def parseRequest_def base64_encode_empty base64_roundtrip with_runtime_config_def
        handleComputeRequest_def respond_outcome)
  obtain d where d: "store_get (reqId req) (hrequests hf) = Some d"
  proof -
    have "run_guest E cfg (fn (runtime_config (reqId req) (rqMetadata creq) (Some (MaxResponseSizeBytes cfg))) creq memory
        (\<lambda>_ _. GExit None)) ?h1 = (hf, Ok None)"
      using finishes [OF add, of "\<lambda>_ _. GExit None"] by simp
    from run_guest_keeps [OF this, of "reqId req"] have "store_get (reqId req) (hrequests hf) \<noteq> None"
      by (simp add: rs.get_add [OF add])
    then show thesis using that by blast
  qed
  define h2 where "h2 = hf\<lparr>hrequests := put (reqId req) (d\<lparr>rdResponse := Some ?resp\<rparr>) (hrequests hf)\<rparr>"
  have run: "run_guest E cfg (Runner_Run G factory [''wasi'', base64_encode b] memory) ?h1 =
      (h2, Ok (Some (gExitText G (if respErrMsg ?resp \<noteq> [] then CodeRunnerErr else CodeSuccess))))"
  proof -
    have "respId ?resp \<noteq> unknownID" "store_get (respId ?resp) (hrequests hf) = Some d" using req(2) d by simp_all
    from send_response [OF laws send(1,2) this(1) send(3) this(2)] show ?thesis
      unfolding guest finishes [OF add] h2_def by (simp only: guest_response_id)
  qed
  have "store_get (reqId req) (hrequests h2) = Some (d\<lparr>rdResponse := Some ?resp\<rparr>)"
    by (simp add: h2_def store_get_put)
  note result = run_result_sent [OF laws this]
  show ?thesis
    using cfg req(1) add run result
    by (simp add: Run_def run_started_def wire module Let_def)
qed

section \<open>A small workflow\<close>

definition ws_request :: sdkFetchRequest where
  "ws_request = \<lparr>frURL = ''u'', frMethod = ''GET'', frHeaders = [(''a'', ''b'')], frBody = [], frTimeoutMs = 0, frMaxRetries = 0\<rparr>"

definition ws_message :: pbFetchRequest where
  "ws_message = fetch_message (ProtoMap pair_vlib (map (\<lambda>(k, v). (k, VString v)) (frHeaders ws_request))) ''r'' wire_metadata ws_request"

definition ws_out :: "(int \<times> 32 word) fn_outcome" where
  "ws_out = FnOk \<lparr>cpValue = Some [(''x'', VBool True)], cpMetering = []\<rparr>"

definition ws_host :: "(unit, respMsg, int \<times> 32 word) host_lib" where
  "ws_host = \<lparr>hUnmarshalResponse = (\<lambda>b. if b = [4] then Some (guest_response pair_vlib ''r'' ws_out) else None),
     hUnmarshalFetch = (\<lambda>b. if b = [1] then Inr ws_message else Inl []),
     hMarshalFetch = (\<lambda>m. if m = wire_response pair_vlib sample_response then Inr [2, 3] else Inl []),
     hUnmarshalEmit = (\<lambda>b. Inl []), hMarshalEmitError = (\<lambda>m. None),
     hUnwrapLabels = (\<lambda>m. Inr []), hParseLog = (\<lambda>b. None), hValueError = (\<lambda>e. []),
     hRandRead = (\<lambda>s n. replicate n 0), hWasiRandom = (\<lambda>m p n. (0, m)), hNanoBase = 0, hValues = pair_vlib\<rparr>"

definition ws_compute :: "pbCapabilityRequest option pbRequest" where
  "ws_compute = \<lparr>reqId = ''r'', reqConfig = [],
     reqMessage = ComputeRequest (Some \<lparr>pcMetadata = Some wire_metadata, pcInputs = None, pcConfig = None\<rparr>) (Some 16)\<rparr>"

definition ws_guest :: "(respMsg, int \<times> 32 word) guest_lib" where
  "ws_guest = \<lparr>gMarshalFetch = (\<lambda>m. if m = ws_message then Inr [1] else Inl []),
     gUnmarshalFetch = (\<lambda>b. if b = [2, 3] then Inr (wire_response pair_vlib sample_response) else Inl []),
     gMarshalEmit = (\<lambda>m. Inl []), gUnmarshalEmit = (\<lambda>b. Inl []),
     gMarshalResponse = (\<lambda>m. if m = guest_response pair_vlib ''r'' ws_out then Some [4] else None),
     gUnmarshalRequest = (\<lambda>b. Inr ws_compute), gExitText = (\<lambda>c. ''exit status '' @ show_nat c),
     gSpecErrorText = (\<lambda>e. []),
     gAlloc = (\<lambda>m ns. if ns = [1, 16, 4] then (replicate 64 0, [0, 8, 32]) else if ns = [1] then (replicate 64 0, [0]) else ([], [])),
     gValues = pair_vlib\<rparr>"

lemma ws_laws: "sdk_laws ws_host ws_guest"
proof -
  have "\<forall>c \<in> set exit_codes. \<forall>c' \<in> set exit_codes. containsCode (Some (''exit status '' @ show_nat c)) c' = (c = c')"
    by code_simp
  then show ?thesis by (simp add: sdk_laws_def ws_host_def ws_guest_def)
qed

definition ws_state :: "(unit, respMsg) host" where
  "ws_state = \<lparr>hrequests = [(''r'', \<lparr>fetchRequestsCounter = 0, rdResponse = None, rctx = ()\<rparr>)], hclock = 0, hcalls = []\<rparr>"

theorem fetch_round_trip_witness:
  "\<exists>memory'. run_guest ws_host sample_module_cfg
      (guest_fetch ws_guest (runtime_config ''r'' wire_metadata (Some 16)) [] ws_request
        (\<lambda>r _. GExit (Some (if r = Ok sample_response then ''ok'' else [])))) ws_state =
    run_guest ws_host sample_module_cfg (GExit (Some ''ok''))
      (ws_state\<lparr>hrequests := put ''r'' \<lparr>fetchRequestsCounter = 1, rdResponse = None, rctx = ()\<rparr> (hrequests ws_state),
         hcalls := [Fetched ''r'' () (host_request wire_metadata ws_request)]\<rparr>)"
proof -
  let ?rc = "runtime_config ''r'' wire_metadata (Some 16)" and ?d = "\<lparr>fetchRequestsCounter = 0, rdResponse = None, rctx = ()\<rparr>"
  have "store_get ''r'' (hrequests ws_state) = Some ?d" by (simp add: ws_state_def store_get_def)
  moreover have "rcRequestID ?rc = Some ''r''" "rcMetadata ?rc = Some wire_metadata"
    "sint (rcMaxResponseSizeBytes ?rc) = int 16"
    by (simp_all add: runtime_config_def defaultRuntimeConfig_def Let_def)
  moreover have "gMarshalFetch ws_guest (fetch_message (ProtoMap (gValues ws_guest)
        (map (\<lambda>(k, v). (k, VString v)) (frHeaders ws_request))) ''r'' wire_metadata ws_request) = Inr [1]"
    by (simp add: ws_guest_def ws_message_def)
  moreover have "gAlloc ws_guest [] [length [1 :: byte], 16, 4] = (replicate 64 0, [0, 8, 32])"
    by (simp add: ws_guest_def)
  moreover have "hMarshalFetch ws_host (wire_response (hValues ws_host) sample_response) = Inr [2, 3]"
    by (simp add: ws_host_def)
  ultimately show ?thesis
    using fetch_round_trip [OF ws_laws, of "''r''" ws_state ?d sample_module_cfg ?rc wire_metadata 16 ws_request "[1]"
        "[]" "replicate 64 0" 0 8 32 "\<lambda>n c r. Inr sample_response" sample_response "[2, 3]"
        "\<lambda>r _. GExit (Some (if r = Ok sample_response then ''ok'' else []))"]
    by (simp add: sample_module_cfg_def sample_response_def ws_state_def)
qed

definition ws_fn :: "(int \<times> 32 word) compute_fn" where
  "ws_fn rc creq memory k = k ws_out memory"

definition ws_factory :: "(int \<times> 32 word, (int \<times> 32 word) compute_fn) factory" where
  "ws_factory = build [BCompute ''step'' (compute_reserved []) [] ws_fn]"

definition ws_run :: "(unit, pbCapabilityRequest option) run_lib" where
  "ws_run = \<lparr>rWithTimeout = (\<lambda>c t. c), rMarshal = (\<lambda>q. Inr [1]),
     rInstantiate = (\<lambda>args f l d. Inr (Some (Runner_Run ws_guest ws_factory args [])))\<rparr>"

theorem run_returns_outcome_witness:
  "snd (Run ws_host ws_run sample_module_cfg () (Some ws_compute) \<lparr>hrequests = [], hclock = 0, hcalls = []\<rparr>) =
     Ok (Some (guest_response pair_vlib ''r'' ws_out))"
proof -
  have empty: "respErrMsg (guest_response pair_vlib ''r'' ws_out) = []"
    by (simp add: guest_response_def compute_outcome_def ws_out_def)
  have fn: "GetFn ''step'' ws_factory = Some ws_fn"
    by (simp add: ws_factory_def build_def ComputeWithConfig_def compute_reserved_def AddTo_def append_step_def
        NewWorkflowSpecFactory_def GetFn_def Let_def)
  have "snd (Run ws_host ws_run sample_module_cfg () (Some ws_compute) \<lparr>hrequests = [], hclock = 0, hcalls = []\<rparr>) =
    (let resp = guest_response (gValues ws_guest) (reqId ws_compute) ws_out
     in if respErrMsg resp \<noteq> [] then Err (RunnerFailed (respErrMsg resp) (gExitText ws_guest CodeRunnerErr)) else Ok (Some resp))"
    by (rule run_returns_outcome [OF ws_laws, where factory = ws_factory and b = "[1]" and memory = "[]" and fn = ws_fn
          and pq = "\<lparr>pcMetadata = Some wire_metadata, pcInputs = None, pcConfig = None\<rparr>" and pb = "[4]"
          and md = wire_metadata and mf = "[]"
          and hf = "\<lparr>hrequests = [(''r'', \<lparr>fetchRequestsCounter = 0, rdResponse = None, rctx = ()\<rparr>)], hclock = 0, hcalls = [Started ''r'']\<rparr>"
          and grown = "replicate 64 0" and p = 0])
      (simp_all add: sample_module_cfg_def ws_compute_def unknownID_def store_get_def ws_run_def ws_guest_def fn
        with_runtime_config_def wire_metadata_def CapabilityRequestFromProto_def ws_fn_def store_add_def put_def)
  then show ?thesis by (simp add: empty ws_guest_def ws_compute_def)
qed

end
