(* ===== verification/Identical.thy ===== *)
theory Identical
  imports ConsensusTypes
begin

text \<open>
  The aggregator for identical observations
  (\<^verbatim>\<open>pkg/capabilities/consensus/ocr3/aggregators/identical.go\<close>): at each index the value that
  was observed most often, if \<open>2 f + 1\<close> oracles observed it.

  \<open>marshal\<close> and \<open>sha\<close> are \<^verbatim>\<open>proto.Marshal\<close> and \<^verbatim>\<open>sha256.Sum256\<close>, \<open>it\<close> is the order in
  which the map of counters is visited; the order of the observations is the order of their list.
\<close>

section \<open>The aggregator\<close>

record IdenticalAggConfig =
  ExpectedObservationsLen :: int
  KeyOverrides :: "string list"

definition identical_observe ::
    "'d vlib \<Rightarrow> (pbValue \<Rightarrow> bytes option) \<Rightarrow> (bytes \<Rightarrow> 'h) \<Rightarrow>
     ('h, 'd Value) counters list \<Rightarrow> nat \<times> 'd Value \<Rightarrow>
     (agg_error, ('h, 'd Value) counters list) go" where
  "identical_observe L marshal sha counters = (\<lambda>(idx, observation).
     case marshal (Proto L observation) of
       None \<Rightarrow> Err MarshalError
     | Some marshalled \<Rightarrow>
         Ok (counters[idx := count_obs (sha marshalled) observation (counters ! idx)]))"

definition identical_valid :: "IdenticalAggConfig \<Rightarrow> 'd Value list \<Rightarrow> bool" where
  "identical_valid cfg nodeObservations \<longleftrightarrow>
     \<not> (nodeObservations = [] \<or> hd nodeObservations = VNil) \<and>
     int (length nodeObservations) = ExpectedObservationsLen cfg"

definition identical_node ::
    "'d vlib \<Rightarrow> (pbValue \<Rightarrow> bytes option) \<Rightarrow> (bytes \<Rightarrow> 'h) \<Rightarrow> IdenticalAggConfig \<Rightarrow>
     ('h, 'd Value) counters list \<Rightarrow> OracleID \<times> 'd Value list \<Rightarrow>
     (agg_error, ('h, 'd Value) counters list) go" where
  "identical_node L marshal sha cfg counters = (\<lambda>(nodeID, nodeObservations).
     if \<not> identical_valid cfg nodeObservations then Ok counters
     else go_foldM (identical_observe L marshal sha) counters (enumerate 0 nodeObservations))"

definition identical_key :: "IdenticalAggConfig \<Rightarrow> nat \<Rightarrow> nat \<Rightarrow> string" where
  "identical_key cfg n idx =
     (if length (KeyOverrides cfg) = n then KeyOverrides cfg ! idx else show_nat idx)"

definition identical_collect_one ::
    "(('h \<times> 'd Value \<times> nat) list \<Rightarrow> ('h \<times> 'd Value \<times> nat) list) \<Rightarrow> IdenticalAggConfig \<Rightarrow> nat \<Rightarrow>
     nat \<Rightarrow> (string \<times> 'd any) list \<Rightarrow> nat \<times> ('h, 'd Value) counters \<Rightarrow>
     (agg_error, (string \<times> 'd any) list) go" where
  "identical_collect_one it cfg f n outcome = (\<lambda>(idx, shaToCounter).
     case highest VNil (it shaToCounter) of (highestCount, highestObservation) \<Rightarrow>
       if highestCount < 2 * f + 1 then Err (NoConsensus idx)
       else Ok (put (identical_key cfg n idx) (AValue highestObservation) outcome))"

definition collectHighestCounts ::
    "'d vlib \<Rightarrow> (('h \<times> 'd Value \<times> nat) list \<Rightarrow> ('h \<times> 'd Value \<times> nat) list) \<Rightarrow>
     IdenticalAggConfig \<Rightarrow> nat \<Rightarrow> ('h, 'd Value) counters list \<Rightarrow>
     (agg_error, AggregationOutcome) go" where
  "collectHighestCounts L it cfg f counters =
     go_bind (go_foldM (identical_collect_one it cfg f (length counters)) []
                (enumerate 0 counters))
       (\<lambda>outcome. go_map (\<lambda>valMap. aggregated (ProtoMap L valMap) [] True)
                     (go_mapErr (\<lambda>_. WrapError) (NewMap outcome)))"

definition identical_Aggregate ::
    "'d vlib \<Rightarrow> (pbValue \<Rightarrow> bytes option) \<Rightarrow> (bytes \<Rightarrow> 'h) \<Rightarrow>
     (('h \<times> 'd Value \<times> nat) list \<Rightarrow> ('h \<times> 'd Value \<times> nat) list) \<Rightarrow> IdenticalAggConfig \<Rightarrow>
     'd observations \<Rightarrow> nat \<Rightarrow> (agg_error, AggregationOutcome) go" where
  "identical_Aggregate L marshal sha it cfg observations f =
     go_bind (go_foldM (identical_node L marshal sha cfg)
                (replicate (nat (ExpectedObservationsLen cfg)) []) observations)
       (collectHighestCounts L it cfg f)"

text \<open>The contract the reporting plugin relies on.\<close>

interpretation identical: aggregator "\<lambda>_. identical_Aggregate L marshal sha it cfg"
  for L marshal sha it cfg
  by unfold_locales (auto simp: identical_Aggregate_def collectHighestCounts_def go_simps)

text \<open>The default of the configuration, after \<^verbatim>\<open>mapstructure\<close> has decoded it.\<close>

definition ParseConfigIdenticalAggregator ::
    "('e, IdenticalAggConfig) go \<Rightarrow> ('e, IdenticalAggConfig) go" where
  "ParseConfigIdenticalAggregator decoded =
     go_map (\<lambda>cfg. if ExpectedObservationsLen cfg = 0
                   then cfg\<lparr>ExpectedObservationsLen := 1\<rparr> else cfg) decoded"

section \<open>What the counting loop computes\<close>

definition valid_nodes :: "IdenticalAggConfig \<Rightarrow> 'd observations \<Rightarrow> 'd Value list list" where
  "valid_nodes cfg observations = filter (identical_valid cfg) (map snd observations)"

definition column :: "nat \<Rightarrow> 'd Value list list \<Rightarrow> 'd Value list" where
  "column i rows = map (\<lambda>row. row ! i) rows"

lemma valid_nodes_Cons [simp]:
  "valid_nodes cfg ((p, row) # observations) =
     (if identical_valid cfg row then row # valid_nodes cfg observations
      else valid_nodes cfg observations)"
  and valid_nodes_Nil [simp]: "valid_nodes cfg [] = []"
  by (simp_all add: valid_nodes_def)

lemma identical_observe_loop:
  assumes "length counters = s + length vs"
  shows "go_foldM (identical_observe L marshal sha) counters (enumerate s vs) =
           (if \<forall>v\<in>set vs. marshals L marshal v
            then Ok (map (\<lambda>i. if i < s then counters ! i
                              else count_obs (hash_of L marshal sha (vs ! (i - s))) (vs ! (i - s))
                                     (counters ! i)) [0..<length counters])
            else Err MarshalError)"
  using assms
proof (induction vs arbitrary: counters s)
  case Nil
  then show ?case by (auto intro!: nth_equalityI)
next
  case (Cons v vs)
  show ?case
  proof (cases "marshals L marshal v")
    case True
    let ?c = "counters[s := count_obs (hash_of L marshal sha v) v (counters ! s)]"
    have step: "identical_observe L marshal sha counters (s, v) = Ok ?c"
      using True by (auto simp: identical_observe_def marshals_def hash_of_def)
    have "length ?c = Suc s + length vs" using Cons.prems by simp
    from Cons.IH [OF this] True step Cons.prems show ?thesis
      by (auto intro!: nth_equalityI simp: nth_Cons' less_Suc_eq)
  next
    case False
    then show ?thesis
      by (simp add: identical_observe_def marshals_def)
  qed
qed

lemma identical_node_valid:
  assumes "identical_valid cfg row" and "length counters = nat (ExpectedObservationsLen cfg)"
  shows "identical_node L marshal sha cfg counters (p, row) =
           (if \<forall>v\<in>set row. marshals L marshal v
            then Ok (map (\<lambda>i. count_obs (hash_of L marshal sha (row ! i)) (row ! i) (counters ! i))
                       [0..<length counters])
            else Err MarshalError)"
proof -
  from assms have "length counters = 0 + length row"
    by (auto simp: identical_valid_def)
  from identical_observe_loop [OF this] assms(1) show ?thesis
    by (simp add: identical_node_def)
qed

text \<open>The loop over the nodes leaves, at each index, the tally of the column of valid rows.\<close>

lemma identical_count_loop:
  "go_foldM (identical_node L marshal sha cfg)
     (map (\<lambda>i. tally (hash_of L marshal sha) (column i rows))
          [0..<nat (ExpectedObservationsLen cfg)]) observations =
   (if \<forall>row\<in>set (valid_nodes cfg observations). \<forall>v\<in>set row. marshals L marshal v
    then Ok (map (\<lambda>i. tally (hash_of L marshal sha)
                        (column i (rows @ valid_nodes cfg observations)))
                 [0..<nat (ExpectedObservationsLen cfg)])
    else Err MarshalError)"
proof (induction observations arbitrary: rows)
  case Nil
  then show ?case by simp
next
  case (Cons ob observations)
  obtain p row where ob: "ob = (p, row)" by fastforce
  show ?case
  proof (cases "identical_valid cfg row \<and> (\<forall>v\<in>set row. marshals L marshal v)")
    case True
    let ?n = "nat (ExpectedObservationsLen cfg)"
    have "identical_node L marshal sha cfg
            (map (\<lambda>i. tally (hash_of L marshal sha) (column i rows)) [0..<?n]) ob =
          Ok (map (\<lambda>i. tally (hash_of L marshal sha) (column i (rows @ [row]))) [0..<?n])"
      using True unfolding ob by (subst identical_node_valid) (simp_all add: column_def tally_snoc)
    with Cons.IH [of "rows @ [row]"] True show ?thesis
      by (simp add: ob)
  next
    case False
    show ?thesis
    proof (cases "identical_valid cfg row")
      case True
      with False have "identical_node L marshal sha cfg
          (map (\<lambda>i. tally (hash_of L marshal sha) (column i rows))
             [0..<nat (ExpectedObservationsLen cfg)]) ob = Err MarshalError"
        unfolding ob by (subst identical_node_valid) auto
      with True False show ?thesis by (auto simp: ob)
    next
      case invalid: False
      then show ?thesis
        using Cons.IH [of rows] by (simp add: ob identical_node_def)
    qed
  qed
qed

lemma identical_counted:
  "go_foldM (identical_node L marshal sha cfg)
     (replicate (nat (ExpectedObservationsLen cfg)) []) observations =
   (if \<forall>row\<in>set (valid_nodes cfg observations). \<forall>v\<in>set row. marshals L marshal v
    then Ok (map (\<lambda>i. tally (hash_of L marshal sha) (column i (valid_nodes cfg observations)))
                 [0..<nat (ExpectedObservationsLen cfg)])
    else Err MarshalError)"
proof -
  have "replicate (nat (ExpectedObservationsLen cfg)) [] =
          map (\<lambda>i. tally (hash_of L marshal sha) (column i [])) [0..<nat (ExpectedObservationsLen cfg)]"
    by (simp add: column_def map_replicate_const)
  then show ?thesis using identical_count_loop [of L marshal sha cfg "[]"] by simp
qed

section \<open>What the collecting loop computes\<close>

definition identical_winner ::
    "'d vlib \<Rightarrow> (pbValue \<Rightarrow> bytes option) \<Rightarrow> (bytes \<Rightarrow> 'h) \<Rightarrow>
     (('h \<times> 'd Value \<times> nat) list \<Rightarrow> ('h \<times> 'd Value \<times> nat) list) \<Rightarrow> IdenticalAggConfig \<Rightarrow>
     'd observations \<Rightarrow> nat \<Rightarrow> nat \<times> 'd Value" where
  "identical_winner L marshal sha it cfg observations i =
     highest VNil (it (tally (hash_of L marshal sha) (column i (valid_nodes cfg observations))))"

definition observers ::
    "IdenticalAggConfig \<Rightarrow> 'd observations \<Rightarrow> nat \<Rightarrow> ('d Value \<Rightarrow> bool) \<Rightarrow> OracleID set" where
  "observers cfg observations i P =
     {oracle. \<exists>row. (oracle, row) \<in> set observations \<and> identical_valid cfg row \<and> P (row ! i)}"

lemma card_observers:
  "gomap_wf observations \<Longrightarrow>
   card (observers cfg observations i P) =
     length (filter P (column i (valid_nodes cfg observations)))"
  unfolding observers_def
  by (subst card_voters [where P = "\<lambda>row. identical_valid cfg row \<and> P (row ! i)"])
    (auto simp: column_def valid_nodes_def filter_map comp_def conj_commute)

text \<open>The body of the collecting loop, once the counters are the tallies.\<close>

definition identical_pick ::
    "'d vlib \<Rightarrow> (pbValue \<Rightarrow> bytes option) \<Rightarrow> (bytes \<Rightarrow> 'h) \<Rightarrow>
     (('h \<times> 'd Value \<times> nat) list \<Rightarrow> ('h \<times> 'd Value \<times> nat) list) \<Rightarrow> IdenticalAggConfig \<Rightarrow>
     'd observations \<Rightarrow> nat \<Rightarrow> (string \<times> 'd any) list \<Rightarrow> nat \<Rightarrow>
     (agg_error, (string \<times> 'd any) list) go" where
  "identical_pick L marshal sha it cfg observations f outcome i =
     (case identical_winner L marshal sha it cfg observations i of (c, v) \<Rightarrow>
        if c < 2 * f + 1 then Err (NoConsensus i)
        else Ok (put (identical_key cfg (nat (ExpectedObservationsLen cfg)) i) (AValue v) outcome))"

lemma identical_pick_Ok:
  "identical_pick L marshal sha it cfg observations f m i = Ok m' \<longleftrightarrow>
     2 * f + 1 \<le> fst (identical_winner L marshal sha it cfg observations i) \<and>
     m' = put (identical_key cfg (nat (ExpectedObservationsLen cfg)) i)
              (AValue (snd (identical_winner L marshal sha it cfg observations i))) m"
  by (auto simp: identical_pick_def split: prod.splits)

lemma identical_Aggregate_unfold:
  "identical_Aggregate L marshal sha it cfg observations f =
     (if \<forall>row\<in>set (valid_nodes cfg observations). \<forall>v\<in>set row. marshals L marshal v
      then go_bind (go_foldM (identical_pick L marshal sha it cfg observations f) []
                      [0..<nat (ExpectedObservationsLen cfg)])
             (\<lambda>outcome. go_map (\<lambda>valMap. aggregated (ProtoMap L valMap) [] True)
                           (go_mapErr (\<lambda>_. WrapError) (NewMap outcome)))
      else Err MarshalError)"
  by (simp add: identical_Aggregate_def identical_counted collectHighestCounts_def
      enumerate_map_upt go_foldM_map identical_collect_one_def identical_winner_def
      identical_pick_def [abs_def])

lemma identical_keys_distinct:
  assumes "distinct (KeyOverrides cfg)"
  shows "inj_on (identical_key cfg n) {0..<n}"
  using assms inj_show_nat
  by (auto simp: identical_key_def inj_on_def nth_eq_iff_index_eq dest: injD)

text \<open>The collecting loop succeeds exactly when every index has a winner with enough votes.\<close>

lemma identical_picked_values:
  assumes "go_foldM (identical_pick L marshal sha it cfg observations f) [] is = Ok m"
  shows "\<exists>w. NewMap m = Ok w \<and> m = map (\<lambda>(k, v). (k, AValue v)) w"
proof -
  have "gomap_wf m \<and> (\<forall>(k, a)\<in>set m. \<exists>v. a = AValue v)"
    using assms by (rule go_foldM_invariant) (auto simp: identical_pick_Ok set_put)
  then show ?thesis by (blast intro: NewMap_values)
qed

lemma identical_Aggregate_Ok_iff:
  "(\<exists>out. identical_Aggregate L marshal sha it cfg observations f = Ok out) \<longleftrightarrow>
     (\<forall>row\<in>set (valid_nodes cfg observations). \<forall>v\<in>set row. marshals L marshal v) \<and>
     (\<forall>i < nat (ExpectedObservationsLen cfg).
        2 * f + 1 \<le> fst (identical_winner L marshal sha it cfg observations i))"
  (is "?lhs \<longleftrightarrow> ?m \<and> ?w")
proof -
  let ?pick = "identical_pick L marshal sha it cfg observations f"
  let ?is = "[0..<nat (ExpectedObservationsLen cfg)]"
  have "(\<exists>m. go_foldM ?pick [] ?is = Ok m) \<longleftrightarrow> ?w"
  proof
    assume "\<exists>m. go_foldM ?pick [] ?is = Ok m"
    then show ?w using go_foldM_Ok_steps [of ?pick "[]" ?is] by (auto simp: identical_pick_Ok)
  next
    assume ?w
    then show "\<exists>m. go_foldM ?pick [] ?is = Ok m"
      by (intro go_foldM_total) (auto simp: identical_pick_Ok)
  qed
  moreover have "?lhs \<longleftrightarrow> ?m \<and> (\<exists>m. go_foldM ?pick [] ?is = Ok m)"
    using identical_picked_values [of L marshal sha it cfg observations f ?is]
    by (fastforce simp: identical_Aggregate_unfold go_simps split: if_splits)
  ultimately show ?thesis by blast
qed

text \<open>The entries of an outcome are the winners of the indices.\<close>

lemma identical_Aggregate_entries:
  assumes "identical_Aggregate L marshal sha it cfg observations f = Ok out"
    and "distinct (KeyOverrides cfg)"
    and "i < nat (ExpectedObservationsLen cfg)"
  shows "\<exists>enc. out = aggregated enc [] True \<and>
           map_of enc (identical_key cfg (nat (ExpectedObservationsLen cfg)) i) =
             Some (Proto L (snd (identical_winner L marshal sha it cfg observations i)))"
proof -
  let ?n = "nat (ExpectedObservationsLen cfg)"
  from assms(1) obtain m w
    where m: "go_foldM (identical_pick L marshal sha it cfg observations f) [] [0..<?n] = Ok m"
      and w: "NewMap m = Ok w" and out: "out = aggregated (ProtoMap L w) [] True"
    by (auto simp: identical_Aggregate_unfold go_simps split: if_splits)
  from identical_picked_values [OF m] w have mw: "m = map (\<lambda>(k, v). (k, AValue v)) w" by auto
  have "map_of m (identical_key cfg ?n i) =
      Some (AValue (snd (identical_winner L marshal sha it cfg observations i)))"
    using go_foldM_put [OF m, where key = "identical_key cfg ?n" and
        val = "\<lambda>i. AValue (snd (identical_winner L marshal sha it cfg observations i))"]
      identical_keys_distinct [OF assms(2), of ?n] assms(3)
    by (simp add: identical_pick_Ok)
  with out mw show ?thesis by (auto simp: map_of_AValue map_of_ProtoMap)
qed

section \<open>Winners\<close>

text \<open>The values the valid rows hold; the hash is assumed to separate them where it matters.\<close>

definition observed_values :: "IdenticalAggConfig \<Rightarrow> 'd observations \<Rightarrow> 'd Value set" where
  "observed_values cfg observations = (\<Union>row\<in>set (valid_nodes cfg observations). set row)"

lemma column_observed:
  assumes "i < nat (ExpectedObservationsLen cfg)"
  shows "set (column i (valid_nodes cfg observations)) \<subseteq> observed_values cfg observations"
  using assms
  by (fastforce simp: column_def valid_nodes_def observed_values_def identical_valid_def)

lemma count_hash_observers:
  assumes "gomap_wf observations" and "inj_on kf (observed_values cfg observations)"
    and "i < nat (ExpectedObservationsLen cfg)"
    and "v \<in> set (column i (valid_nodes cfg observations))"
  shows "count_list (map kf (column i (valid_nodes cfg observations))) (kf v) =
           card (observers cfg observations i (\<lambda>u. u = v))"
proof -
  have "filter (\<lambda>u. kf u = kf v) (column i (valid_nodes cfg observations)) =
        filter (\<lambda>u. u = v) (column i (valid_nodes cfg observations))"
    using column_observed [OF assms(3), of observations] assms(2,4)
    by (intro filter_cong) (auto dest: inj_onD)
  then show ?thesis
    by (simp add: count_list_le_filter card_observers [OF assms(1)])
qed

lemma winner_observed:
  assumes "gomap_wf observations" and "iteration_order it"
    and "inj_on (hash_of L marshal sha) (observed_values cfg observations)"
    and "i < nat (ExpectedObservationsLen cfg)"
    and "identical_winner L marshal sha it cfg observations i = (c, v)" and "0 < c"
  shows "v \<in> set (column i (valid_nodes cfg observations)) \<and>
         c = card (observers cfg observations i (\<lambda>u. u = v))"
proof -
  from highest_mem [of VNil] assms(2,5,6) obtain h
    where "(h, v, c) \<in> set (tally (hash_of L marshal sha) (column i (valid_nodes cfg observations)))"
    unfolding identical_winner_def by (metis fst_conv snd_conv iteration_order_set less_irrefl)
  note mem = tally_mem [OF this]
  with count_hash_observers [OF assms(1,3,4)] show ?thesis by auto
qed

lemma winner_ge_observers:
  assumes "gomap_wf observations" and "iteration_order it"
    and "inj_on (hash_of L marshal sha) (observed_values cfg observations)"
    and "i < nat (ExpectedObservationsLen cfg)"
  shows "card (observers cfg observations i (\<lambda>u. u = v)) \<le>
           fst (identical_winner L marshal sha it cfg observations i)"
proof (cases "v \<in> set (column i (valid_nodes cfg observations))")
  case True
  from tally_complete [OF True, of "hash_of L marshal sha"] count_hash_observers [OF assms(1,3,4) True]
  obtain h w where "(h, w, card (observers cfg observations i (\<lambda>u. u = v))) \<in>
      set (it (tally (hash_of L marshal sha) (column i (valid_nodes cfg observations))))"
    using assms(2) by auto
  then show ?thesis unfolding identical_winner_def by (rule highest_ge)
next
  case False
  then have "filter (\<lambda>u. u = v) (column i (valid_nodes cfg observations)) = []"
    by (auto simp: filter_empty_conv)
  then show ?thesis by (simp add: card_observers [OF assms(1)])
qed

lemma finite_observers: "finite (observers cfg observations i P)"
  by (rule finite_subset [of _ "gomap_dom observations"]) (force simp: observers_def)+

section \<open>Properties\<close>

lemma identical_quorum:
  assumes "identical_Aggregate L marshal sha it cfg observations f = Ok out"
    and "gomap_wf observations" and "iteration_order it"
    and "inj_on (hash_of L marshal sha) (observed_values cfg observations)"
    and "distinct (KeyOverrides cfg)"
    and "i < nat (ExpectedObservationsLen cfg)"
    and "finite faulty" and "card faulty \<le> f"
  shows "\<exists>enc v. out = aggregated enc [] True \<and>
           map_of enc (identical_key cfg (nat (ExpectedObservationsLen cfg)) i) = Some (Proto L v) \<and>
           2 * f + 1 \<le> card (observers cfg observations i (\<lambda>u. u = v)) \<and>
           f + 1 \<le> card (observers cfg observations i (\<lambda>u. u = v) - faulty)"
proof -
  obtain c v where w: "identical_winner L marshal sha it cfg observations i = (c, v)"
    by fastforce
  from assms(1,6) w have c: "2 * f + 1 \<le> c"
    using identical_Aggregate_Ok_iff [of L marshal sha it cfg observations f] by force
  with winner_observed [OF assms(2,3,4,6) w] have
    q: "2 * f + 1 \<le> card (observers cfg observations i (\<lambda>u. u = v))" by simp
  moreover have "card (observers cfg observations i (\<lambda>u. u = v)) - card faulty \<le>
      card (observers cfg observations i (\<lambda>u. u = v) - faulty)"
    by (rule diff_card_le_card_Diff) (fact assms(7))
  ultimately have "f + 1 \<le> card (observers cfg observations i (\<lambda>u. u = v) - faulty)"
    using assms(8) by linarith
  with q identical_Aggregate_entries [OF assms(1,5,6)] w show ?thesis by auto
qed

text \<open>
  C7. Whatever the identical aggregator reports is backed by a Byzantine quorum: every index of the
  outcome holds a value that at least \<open>2 f + 1\<close> different oracles observed at that index, so
  that at least \<open>f + 1\<close> honest ones did, whichever \<open>f\<close> oracles are faulty.
\<close>

theorem identical_consensus:
  assumes "identical_Aggregate L marshal sha it cfg observations f = Ok out"
    and "gomap_wf observations" and "iteration_order it"
    and "inj_on (hash_of L marshal sha) (observed_values cfg observations)"
    and "distinct (KeyOverrides cfg)"
    and "i < nat (ExpectedObservationsLen cfg)"
    and "finite faulty" and "card faulty \<le> f"
  shows "\<exists>enc v. out = aggregated enc [] True \<and>
           map_of enc (identical_key cfg (nat (ExpectedObservationsLen cfg)) i) = Some (Proto L v) \<and>
           2 * f + 1 \<le> card (observers cfg observations i (\<lambda>u. u = v)) \<and>
           f + 1 \<le> card (observers cfg observations i (\<lambda>u. u = v) - faulty)"
  using assms by (rule identical_quorum)

text \<open>
  The identical aggregator reaches consensus exactly when it can: if the observed values can be
  marshalled, it succeeds if and only if at every index some value was observed by at least
  \<open>2 f + 1\<close> oracles, and it never panics.
\<close>

lemma identical_live:
  assumes "gomap_wf observations" and "iteration_order it"
    and "inj_on (hash_of L marshal sha) (observed_values cfg observations)"
    and "\<forall>v\<in>observed_values cfg observations. marshals L marshal v"
  shows "(is_ok (identical_Aggregate L marshal sha it cfg observations f) \<longleftrightarrow>
           (\<forall>i < nat (ExpectedObservationsLen cfg).
              \<exists>v. 2 * f + 1 \<le> card (observers cfg observations i (\<lambda>u. u = v)))) \<and>
         identical_Aggregate L marshal sha it cfg observations f \<noteq> Panic"
proof
  have m: "\<forall>row\<in>set (valid_nodes cfg observations). \<forall>v\<in>set row. marshals L marshal v"
    using assms(4) by (auto simp: observed_values_def)
  have "2 * f + 1 \<le> fst (identical_winner L marshal sha it cfg observations i) \<longleftrightarrow>
        (\<exists>v. 2 * f + 1 \<le> card (observers cfg observations i (\<lambda>u. u = v)))"
    if i: "i < nat (ExpectedObservationsLen cfg)" for i
  proof
    assume q: "2 * f + 1 \<le> fst (identical_winner L marshal sha it cfg observations i)"
    obtain c v where w: "identical_winner L marshal sha it cfg observations i = (c, v)" by fastforce
    with q winner_observed [OF assms(1-3) i w]
    show "\<exists>v. 2 * f + 1 \<le> card (observers cfg observations i (\<lambda>u. u = v))" by auto
  next
    assume "\<exists>v. 2 * f + 1 \<le> card (observers cfg observations i (\<lambda>u. u = v))"
    with winner_ge_observers [OF assms(1-3) i]
    show "2 * f + 1 \<le> fst (identical_winner L marshal sha it cfg observations i)"
      using le_trans by blast
  qed
  with m show "is_ok (identical_Aggregate L marshal sha it cfg observations f) \<longleftrightarrow>
      (\<forall>i < nat (ExpectedObservationsLen cfg).
         \<exists>v. 2 * f + 1 \<le> card (observers cfg observations i (\<lambda>u. u = v)))"
    by (simp add: is_ok_iff identical_Aggregate_Ok_iff)
  have "go_foldM (identical_pick L marshal sha it cfg observations f) []
      [0..<nat (ExpectedObservationsLen cfg)] \<noteq> Panic"
    by (rule go_foldM_no_Panic [where P = "\<lambda>_. True"])
      (auto simp: identical_pick_def split: prod.splits)
  moreover have "NewMap m \<noteq> Panic" if
    "go_foldM (identical_pick L marshal sha it cfg observations f) []
      [0..<nat (ExpectedObservationsLen cfg)] = Ok m" for m
    using identical_picked_values [OF that] by auto
  ultimately show "identical_Aggregate L marshal sha it cfg observations f \<noteq> Panic"
    by (simp add: identical_Aggregate_unfold go_simps)
qed

text \<open>A run of the aggregator: four oracles, one of them faulty, two observations each.\<close>

definition sample_marshal :: "pbValue \<Rightarrow> bytes option" where
  "sample_marshal p =
     (case p of PInt64 i \<Rightarrow> Some [ucast i] | PBool b \<Rightarrow> Some [1, if b then 1 else 0] | _ \<Rightarrow> None)"

definition sample_cfg :: IdenticalAggConfig where
  "sample_cfg = \<lparr>ExpectedObservationsLen = 2, KeyOverrides = [''price'', ''ok'']\<rparr>"

definition sample_observations :: "(int \<times> 32 word) observations" where
  "sample_observations =
     [(0, [VInt64 7, VBool True]), (1, [VInt64 7, VBool True]), (2, [VInt64 9, VBool True]),
      (3, [VInt64 7, VBool True])]"

lemma sample_valid_nodes:
  "valid_nodes sample_cfg sample_observations =
     [[VInt64 7, VBool True], [VInt64 7, VBool True], [VInt64 9, VBool True], [VInt64 7, VBool True]]"
  by (simp add: valid_nodes_def sample_observations_def sample_cfg_def identical_valid_def)

lemma sample_hashes:
  "inj_on (hash_of pair_vlib sample_marshal (\<lambda>b. b)) (observed_values sample_cfg sample_observations)"
  and sample_marshals:
  "\<forall>v\<in>observed_values sample_cfg sample_observations. marshals pair_vlib sample_marshal v"
  by (auto simp: observed_values_def sample_valid_nodes hash_of_def marshals_def sample_marshal_def
      inj_on_def)

lemma sample_wf: "gomap_wf sample_observations"
  by (simp add: sample_observations_def)

lemma identical_live_witness:
  "is_ok (identical_Aggregate pair_vlib sample_marshal (\<lambda>b. b) rev sample_cfg sample_observations 1) =
     (\<forall>i < nat (ExpectedObservationsLen sample_cfg).
        \<exists>v. 2 * 1 + 1 \<le> card (observers sample_cfg sample_observations i (\<lambda>u. u = v))) \<and>
   identical_Aggregate pair_vlib sample_marshal (\<lambda>b. b) rev sample_cfg sample_observations 1 \<noteq> Panic"
  by (rule identical_live [OF sample_wf iteration_order_rev sample_hashes sample_marshals])

definition sample_outcome :: AggregationOutcome where
  "sample_outcome = aggregated [(''price'', PInt64 7), (''ok'', PBool True)] [] True"

lemma sample_run:
  "identical_Aggregate pair_vlib sample_marshal (\<lambda>b. b) (\<lambda>es. es) sample_cfg sample_observations 1 =
     Ok sample_outcome"
  by code_simp

theorem identical_consensus_witness:
  "\<exists>enc v. sample_outcome = aggregated enc [] True \<and>
     map_of enc (identical_key sample_cfg (nat (ExpectedObservationsLen sample_cfg)) 0) =
       Some (Proto pair_vlib v) \<and>
     2 * 1 + 1 \<le> card (observers sample_cfg sample_observations 0 (\<lambda>u. u = v)) \<and>
     1 + 1 \<le> card (observers sample_cfg sample_observations 0 (\<lambda>u. u = v) - {2})"
  by (rule identical_consensus [OF sample_run sample_wf iteration_order_id sample_hashes])
    (simp_all add: sample_cfg_def)

lemma observers_permute:
  assumes "mset obs1 = mset obs2"
  shows "observers cfg obs1 = observers cfg obs2"
    and "observed_values cfg obs1 = observed_values cfg obs2"
    and "set (valid_nodes cfg obs1) = set (valid_nodes cfg obs2)"
proof -
  have "set obs1 = set obs2" using assms by (rule mset_eq_setD)
  then show "observers cfg obs1 = observers cfg obs2"
    and "observed_values cfg obs1 = observed_values cfg obs2"
    and "set (valid_nodes cfg obs1) = set (valid_nodes cfg obs2)"
    by (auto simp: observers_def observed_values_def valid_nodes_def fun_eq_iff)
qed

text \<open>Two different values cannot both have a quorum among at most \<open>4 f + 1\<close> oracles.\<close>

lemma quorum_unique:
  assumes "gomap_wf observations" and "length observations \<le> 4 * f + 1"
    and "2 * f + 1 \<le> card (observers cfg observations i (\<lambda>u. u = v1))"
    and "2 * f + 1 \<le> card (observers cfg observations i (\<lambda>u. u = v2))"
  shows "v1 = v2"
proof (rule ccontr)
  let ?col = "column i (valid_nodes cfg observations)"
  assume "v1 \<noteq> v2"
  then have "length (filter (\<lambda>u. u = v1) ?col) + length (filter (\<lambda>u. u = v2) ?col) \<le> length ?col"
    by (intro length_filter_disjoint) auto
  moreover have "length ?col \<le> length observations"
    using length_filter_le [of "identical_valid cfg" "map snd observations"]
    by (simp add: column_def valid_nodes_def)
  ultimately show False
    using assms(2-4) by (simp add: card_observers [OF assms(1)])
qed

lemma identical_pick_deterministic:
  assumes it: "iteration_order it1" "iteration_order it2"
    and perm: "mset obs1 = mset obs2" and wf: "gomap_wf obs1"
    and inj: "inj_on (hash_of L marshal sha) (observed_values cfg obs1)"
    and len: "length obs1 \<le> 4 * f + 1" and i: "i < nat (ExpectedObservationsLen cfg)"
  shows "identical_pick L marshal sha it1 cfg obs1 f m i =
           identical_pick L marshal sha it2 cfg obs2 f m i"
proof -
  note same = observers_permute [OF perm, of cfg, symmetric]
  have wf2: "gomap_wf obs2" using perm wf gomap_wf_permute by metis
  have inj2: "inj_on (hash_of L marshal sha) (observed_values cfg obs2)" using inj same by simp
  obtain c1 v1 c2 v2 where w1: "identical_winner L marshal sha it1 cfg obs1 i = (c1, v1)"
    and w2: "identical_winner L marshal sha it2 cfg obs2 i = (c2, v2)" by fastforce
  have le: "card (observers cfg obs1 i (\<lambda>u. u = v)) \<le> c1"
    "card (observers cfg obs1 i (\<lambda>u. u = v)) \<le> c2" for v
    using winner_ge_observers [OF wf it(1) inj i, of v]
      winner_ge_observers [OF wf2 it(2) inj2 i, of v] w1 w2 same by simp_all
  have eq: "c1 = 0 \<or> c1 = card (observers cfg obs1 i (\<lambda>u. u = v1))"
    "c2 = 0 \<or> c2 = card (observers cfg obs1 i (\<lambda>u. u = v2))"
    using winner_observed [OF wf it(1) inj i w1] winner_observed [OF wf2 it(2) inj2 i w2] same
    by auto
  then have "c1 = c2" using le by (metis le_antisym le_zero_eq)
  moreover from eq calculation have "v1 = v2" if "2 * f + 1 \<le> c1"
    using that by (intro quorum_unique [OF wf len]) auto
  ultimately show ?thesis using w1 w2 by (auto simp: identical_pick_def)
qed

text \<open>
  With at most \<open>4 f + 1\<close> oracles (the protocol runs with \<open>3 f + 1\<close>) the outcome of the
  identical aggregator does not depend on map iteration order: neither on the order in which the
  observations are visited nor on the order in which the counters are.
\<close>

lemma identical_deterministic:
  assumes "iteration_order it1" and "iteration_order it2"
    and "mset obs1 = mset obs2" and "gomap_wf obs1"
    and "inj_on (hash_of L marshal sha) (observed_values cfg obs1)"
    and "length obs1 \<le> 4 * f + 1"
  shows "identical_Aggregate L marshal sha it1 cfg obs1 f =
           identical_Aggregate L marshal sha it2 cfg obs2 f"
proof -
  have "go_foldM (identical_pick L marshal sha it1 cfg obs1 f) [] [0..<nat (ExpectedObservationsLen cfg)] =
        go_foldM (identical_pick L marshal sha it2 cfg obs2 f) [] [0..<nat (ExpectedObservationsLen cfg)]"
    by (rule go_foldM_cong) (rule identical_pick_deterministic [OF assms], simp)
  then show ?thesis
    unfolding identical_Aggregate_unfold observers_permute(3) [OF assms(3)] by simp
qed

lemma identical_deterministic_witness:
  "identical_Aggregate pair_vlib sample_marshal (\<lambda>b. b) (\<lambda>es. es) sample_cfg sample_observations 1 =
   identical_Aggregate pair_vlib sample_marshal (\<lambda>b. b) rev sample_cfg (rev sample_observations) 1"
  by (rule identical_deterministic [OF iteration_order_id iteration_order_rev _ sample_wf sample_hashes])
    (simp_all add: sample_observations_def)

end
