(* ===== verification/Reduce.thy ===== *)
theory Reduce
  imports ConsensusTypes Complex_Main
begin

text \<open>
  The reduce aggregator (\<^verbatim>\<open>pkg/capabilities/consensus/ocr3/aggregators/reduce_aggregator.go\<close>): per
  configured field the median or the mode of the values the oracles observed, with a deviation
  test that decides whether a report is made.

  \<^verbatim>\<open>decimal.Decimal\<close> is the type variable \<open>'d\<close> with the operations of the record \<open>dlib\<close>;
  \<open>dec_laws\<close> states their documented meaning through the rational number a decimal denotes.
  \<^verbatim>\<open>sort.Slice\<close> is an argument \<open>srt\<close> of which only \<open>sort_law\<close> is known.
  \<open>marshal\<close>, \<open>sha\<close>, \<open>unmarshal\<close> are the functions of the packages of that name, \<open>it\<close> is the
  order in which the map of counters is visited.
\<close>

section \<open>Decimals, floats, numerals\<close>

record 'd dlib =
  dNewFromInt :: "int \<Rightarrow> 'd"
  dNewFromString :: "string \<Rightarrow> 'd option"
  dNewFromFloat :: "float64 \<Rightarrow> 'd option"
  dSub :: "'d \<Rightarrow> 'd \<Rightarrow> 'd"
  dAbs :: "'d \<Rightarrow> 'd"
  dDiv :: "'d \<Rightarrow> 'd \<Rightarrow> 'd"
  dCmp :: "'d \<Rightarrow> 'd \<Rightarrow> int"

text \<open>
  What the decimal package documents. A quotient is rounded, so only its sign is stated;
  \<open>dNewFromFloat\<close> is \<open>None\<close> where the package panics (infinities and NaN).
\<close>

definition dec_laws :: "'d vlib \<Rightarrow> 'd dlib \<Rightarrow> ('d \<Rightarrow> rat) \<Rightarrow> bool" where
  "dec_laws L D den \<longleftrightarrow>
     (\<forall>n. den (dNewFromInt D n) = of_int n) \<and>
     (\<forall>n e. den (dNewFromBigInt L (Some n) e) = of_int n * 10 powi (sint e)) \<and>
     (\<forall>a b. den (dSub D a b) = den a - den b) \<and>
     (\<forall>a. den (dAbs D a) = \<bar>den a\<bar>) \<and>
     (\<forall>a b. 0 \<le> den a \<and> den b < 0 \<longrightarrow> den (dDiv D a b) \<le> 0) \<and>
     (\<forall>a b. dCmp D a b = (if den a < den b then -1 else if den a = den b then 0 else 1))"

definition dGreaterThan :: "'d dlib \<Rightarrow> 'd \<Rightarrow> 'd \<Rightarrow> bool" where
  "dGreaterThan D a b \<longleftrightarrow> dCmp D a b = 1"

text \<open>Comparison of two \<^verbatim>\<open>float64\<close> with \<^verbatim>\<open>==\<close>: a NaN differs from itself, the two zeros are equal.\<close>

definition float_abs :: "float64 \<Rightarrow> float64" where
  "float_abs a = take_bit 63 a"

definition float_nan :: "float64 \<Rightarrow> bool" where
  "float_nan a \<longleftrightarrow> 0x7FF0000000000000 < float_abs a"

definition float_eq :: "float64 \<Rightarrow> float64 \<Rightarrow> bool" where
  "float_eq a b \<longleftrightarrow>
     \<not> float_nan a \<and> \<not> float_nan b \<and> (a = b \<or> float_abs a = 0 \<and> float_abs b = 0)"

text \<open>\<^verbatim>\<open>strconv.Atoi\<close> on a 64-bit platform.\<close>

definition Atoi :: "string \<Rightarrow> int option" where
  "Atoi s =
     (let (neg, ds) = (case s of c # cs \<Rightarrow> if c = CHR ''-'' then (True, cs)
                                          else if c = CHR ''+'' then (False, cs) else (False, s)
                              | [] \<Rightarrow> (False, []))
      in if ds = [] then None
         else case parse_digits 0 ds of
             None \<Rightarrow> None
           | Some n \<Rightarrow>
               (let i = (if neg then - int n else int n)
                in if - (2 ^ 63) \<le> i \<and> i \<le> 2 ^ 63 - 1 then Some i else None))"

section \<open>Configuration\<close>

record 'd AggregationField =
  Deviation :: 'd
  DeviationString :: string
  DeviationType :: string
  InputKey :: string
  Method :: string
  ModeQuorum :: string
  OutputKey :: string
  SubMapField :: bool

record 'd ReduceAggConfig =
  Fields :: "'d AggregationField list"
  OutputFieldName :: string
  ReportFormat :: string
  SubMapKey :: string

abbreviation "AGGREGATION_METHOD_MEDIAN \<equiv> ''median''"
abbreviation "AGGREGATION_METHOD_MODE \<equiv> ''mode''"
abbreviation "DEVIATION_TYPE_NONE \<equiv> ''none''"
abbreviation "DEVIATION_TYPE_ANY \<equiv> ''any''"
abbreviation "DEVIATION_TYPE_PERCENT \<equiv> ''percent''"
abbreviation "DEVIATION_TYPE_ABSOLUTE \<equiv> ''absolute''"
abbreviation "REPORT_FORMAT_MAP \<equiv> ''map''"
abbreviation "REPORT_FORMAT_ARRAY \<equiv> ''array''"
abbreviation "REPORT_FORMAT_VALUE \<equiv> ''value''"
abbreviation "MODE_QUORUM_OCR \<equiv> ''ocr''"
abbreviation "MODE_QUORUM_ANY \<equiv> ''any''"

section \<open>Extraction of the values of a field\<close>

text \<open>
  One node's contribution: \<open>Ok None\<close> where the loop continues. Indexing a list out of range
  panics.
\<close>

definition extract_one ::
    "'d vlib \<Rightarrow> string \<Rightarrow> 'd Value list \<Rightarrow> (agg_error, 'd Value option) go" where
  "extract_one L aggregationKey nodeObservations =
     (if nodeObservations = [] \<or> hd nodeObservations = VNil then Ok None
      else if length nodeObservations > 1 then Ok None
      else case Unwrap L (hd nodeObservations) of
          Panic \<Rightarrow> Panic
        | Err _ \<Rightarrow> Ok None
        | Ok val \<Rightarrow>
            (case val of
               AMap m \<Rightarrow>
                 (case map_of m aggregationKey of
                    None \<Rightarrow> Ok None
                  | Some a \<Rightarrow>
                      (case Wrap a of Ok v \<Rightarrow> Ok (Some v) | Err _ \<Rightarrow> Ok None | Panic \<Rightarrow> Panic))
             | ASlice l \<Rightarrow>
                 (case Atoi aggregationKey of
                    None \<Rightarrow> Ok None
                  | Some i \<Rightarrow>
                      if i < 0 \<or> int (length l) \<le> i then Panic
                      else (case Wrap (l ! nat i) of
                              Ok v \<Rightarrow> Ok (Some v) | Err _ \<Rightarrow> Ok None | Panic \<Rightarrow> Panic))
             | _ \<Rightarrow> Ok (if aggregationKey = [] then Some (hd nodeObservations) else None)))"

definition extractValues ::
    "'d vlib \<Rightarrow> 'd observations \<Rightarrow> string \<Rightarrow> (agg_error, 'd Value list) go" where
  "extractValues L observations aggregationKey =
     go_foldM (\<lambda>vals (nodeID, nodeObservations).
         go_map (\<lambda>r. case r of None \<Rightarrow> vals | Some v \<Rightarrow> vals @ [v])
           (extract_one L aggregationKey nodeObservations)) [] observations"

section \<open>Median and mode\<close>

definition toDecimal :: "'d vlib \<Rightarrow> 'd dlib \<Rightarrow> 'd Value \<Rightarrow> (agg_error, 'd) go" where
  "toDecimal L D item =
     (if item = VNil then Panic
      else go_bind (go_mapErr (\<lambda>_. ReduceError ''unwrap'') (Unwrap L item)) (\<lambda>unwrapped.
        case unwrapped of
          AString s \<Rightarrow>
            (case dNewFromString D s of
               None \<Rightarrow> Err (ReduceError ''cannot convert to decimal'') | Some d \<Rightarrow> Ok d)
        | ADecimal d \<Rightarrow> Ok d
        | AInt _ n \<Rightarrow> Ok (dNewFromInt D n)
        | ABigInt n \<Rightarrow> Ok (dNewFromBigInt L (Some n) 10)
        | ATime t \<Rightarrow> Ok (dNewFromInt D (t div 1000000000))
        | AFloat64 f \<Rightarrow> (case dNewFromFloat D f of None \<Rightarrow> Panic | Some d \<Rightarrow> Ok d)
        | _ \<Rightarrow> Err (ReduceError ''unable to convert type to decimal'')))"

text \<open>The decimal the comparison function uses: zero where the conversion fails.\<close>

definition decimal_of :: "'d vlib \<Rightarrow> 'd dlib \<Rightarrow> 'd Value \<Rightarrow> 'd" where
  "decimal_of L D item = (case toDecimal L D item of Ok d \<Rightarrow> d | _ \<Rightarrow> dNewFromInt D 0)"

text \<open>
  Sorting two or more items compares every item, so that a conversion that panics or fails is
  noticed; a single item is not compared at all.
\<close>

definition sortAsDecimal ::
    "'d vlib \<Rightarrow> 'd dlib \<Rightarrow> (('d Value \<Rightarrow> 'd Value \<Rightarrow> bool) \<Rightarrow> 'd Value list \<Rightarrow> 'd Value list) \<Rightarrow>
     'd Value list \<Rightarrow> (agg_error, 'd Value list) go" where
  "sortAsDecimal L D srt items =
     (if length items < 2 then Ok items
      else if list_ex (\<lambda>item. toDecimal L D item = Panic) items then Panic
      else if list_ex (\<lambda>item. \<not> is_ok (toDecimal L D item)) items
        then Err (ReduceError ''sort'')
      else Ok (srt (\<lambda>x y. dGreaterThan D (decimal_of L D x) (decimal_of L D y)) items))"

definition median ::
    "'d vlib \<Rightarrow> 'd dlib \<Rightarrow> (('d Value \<Rightarrow> 'd Value \<Rightarrow> bool) \<Rightarrow> 'd Value list \<Rightarrow> 'd Value list) \<Rightarrow>
     'd Value list \<Rightarrow> (agg_error, 'd Value) go" where
  "median L D srt items =
     (if items = [] then Err (ReduceError ''items cannot be empty'')
      else go_map (\<lambda>sorted. sorted ! ((length sorted - 1) div 2)) (sortAsDecimal L D srt items))"

definition mode_count ::
    "'d vlib \<Rightarrow> (pbValue \<Rightarrow> bytes option) \<Rightarrow> (bytes \<Rightarrow> 'h) \<Rightarrow> ('h, 'd Value) counters \<Rightarrow> 'd Value \<Rightarrow>
     (agg_error, ('h, 'd Value) counters) go" where
  "mode_count L marshal sha counts item =
     (case marshal (Proto L item) of
        None \<Rightarrow> Err MarshalError
      | Some marshalled \<Rightarrow> Ok (count_obs (sha marshalled) item counts))"

definition max_count :: "('h, 'v) counters \<Rightarrow> nat" where
  "max_count counts = foldl (\<lambda>m (h, v, n). if n > m then n else m) 0 counts"

definition mode ::
    "'d vlib \<Rightarrow> (pbValue \<Rightarrow> bytes option) \<Rightarrow> (bytes \<Rightarrow> 'h) \<Rightarrow>
     (('h \<times> 'd Value \<times> nat) list \<Rightarrow> ('h \<times> 'd Value \<times> nat) list) \<Rightarrow> 'd Value list \<Rightarrow>
     (agg_error, 'd Value \<times> nat) go" where
  "mode L marshal sha it items =
     (if items = [] then Err (ReduceError ''items cannot be empty'')
      else go_bind (go_foldM (mode_count L marshal sha) [] items) (\<lambda>counts.
        let maxCount = max_count counts;
            modes = [v. (h, v, n) \<leftarrow> it counts, n = maxCount]
        in case modes of [] \<Rightarrow> Panic | v # _ \<Rightarrow> Ok (v, maxCount)))"

definition modeHasQuorum :: "string \<Rightarrow> nat \<Rightarrow> nat \<Rightarrow> (agg_error, unit) go" where
  "modeHasQuorum quorumType cnt f =
     (if quorumType = MODE_QUORUM_ANY then Ok ()
      else if quorumType = MODE_QUORUM_OCR
        then if cnt < f + 1 then Err (ReduceError ''mode quorum not reached'') else Ok ()
      else Err (ReduceError ''unsupported mode quorum''))"

definition reduce ::
    "'d vlib \<Rightarrow> 'd dlib \<Rightarrow> (('d Value \<Rightarrow> 'd Value \<Rightarrow> bool) \<Rightarrow> 'd Value list \<Rightarrow> 'd Value list) \<Rightarrow>
     (pbValue \<Rightarrow> bytes option) \<Rightarrow> (bytes \<Rightarrow> 'h) \<Rightarrow>
     (('h \<times> 'd Value \<times> nat) list \<Rightarrow> ('h \<times> 'd Value \<times> nat) list) \<Rightarrow>
     string \<Rightarrow> 'd Value list \<Rightarrow> nat \<Rightarrow> string \<Rightarrow> (agg_error, 'd Value) go" where
  "reduce L D srt marshal sha it method items f modeQuorum =
     (if method = AGGREGATION_METHOD_MEDIAN then median L D srt items
      else if method = AGGREGATION_METHOD_MODE
        then go_bind (mode L marshal sha it items) (\<lambda>(value, cnt).
               go_map (\<lambda>_. value) (modeHasQuorum modeQuorum cnt f))
      else Err (ReduceError ''unsupported aggregation method''))"

section \<open>Deviation\<close>

definition deviation ::
    "'d vlib \<Rightarrow> 'd dlib \<Rightarrow> string \<Rightarrow> 'd Value \<Rightarrow> 'd Value \<Rightarrow> (agg_error, 'd) go" where
  "deviation L D method previousValue nextValue =
     go_bind (toDecimal L D previousValue) (\<lambda>prevDeci.
     go_bind (toDecimal L D nextValue) (\<lambda>nextDeci.
       let diff = dAbs D (dSub D prevDeci nextDeci)
       in if method = DEVIATION_TYPE_ABSOLUTE then Ok diff
          else if method = DEVIATION_TYPE_PERCENT then
            if dCmp D prevDeci (dNewFromInt D 0) = 0 then
              if dCmp D diff (dNewFromInt D 0) = 0 then Ok (dNewFromInt D 0)
              else Ok (dNewFromInt D (2 ^ 63 - 1))
            else Ok (dDiv D diff prevDeci)
          else Err (ReduceError ''unsupported deviation method'')))"

text \<open>
  The comparison \<^verbatim>\<open>!=\<close> of two unwrapped values in interfaces: a \<^verbatim>\<open>decimal.Decimal\<close> holds and a
  \<^verbatim>\<open>*big.Int\<close> is a pointer, freshly made when the previous state was decoded, so that two of them
  always differ.
\<close>

fun iface_neq :: "'d any \<Rightarrow> 'd any \<Rightarrow> bool" where
  "iface_neq (ADecimal a) (ADecimal b) = True"
| "iface_neq (ABigInt a) (ABigInt b) = True"
| "iface_neq (AFloat64 a) (AFloat64 b) = (\<not> float_eq a b)"
| "iface_neq a b = (a \<noteq> b)"

definition any_changed ::
    "'d vlib \<Rightarrow> (pbValue \<Rightarrow> bytes option) \<Rightarrow> 'd Value \<Rightarrow> 'd Value \<Rightarrow> (agg_error, bool) go" where
  "any_changed L marshal oldValue singleValue =
     go_bind (go_mapErr (\<lambda>_. ShouldReportError) (Unwrap L oldValue)) (\<lambda>uold.
     if singleValue = VNil then Panic
     else go_bind (go_mapErr (\<lambda>_. ShouldReportError) (Unwrap L singleValue)) (\<lambda>unew.
       case uold of
         ABytes v \<Rightarrow> (case unew of ABytes w \<Rightarrow> Ok (v \<noteq> w) | _ \<Rightarrow> Panic)
       | AMap _ \<Rightarrow>
           (case (marshal (Proto L oldValue), marshal (Proto L singleValue)) of
              (Some a, Some b) \<Rightarrow> Ok (a \<noteq> b) | _ \<Rightarrow> Err ShouldReportError)
       | ASlice _ \<Rightarrow>
           (case (marshal (Proto L oldValue), marshal (Proto L singleValue)) of
              (Some a, Some b) \<Rightarrow> Ok (a \<noteq> b) | _ \<Rightarrow> Err ShouldReportError)
       | _ \<Rightarrow> Ok (iface_neq uold unew)))"

definition shouldReport ::
    "'d vlib \<Rightarrow> 'd dlib \<Rightarrow> (pbValue \<Rightarrow> bytes option) \<Rightarrow> 'd AggregationField \<Rightarrow> 'd Value \<Rightarrow>
     (string, 'd Value) gomap \<Rightarrow> (agg_error, bool) go" where
  "shouldReport L D marshal field singleValue currentState =
     (if DeviationType field = DEVIATION_TYPE_NONE then Ok False
      else case map_of currentState (OutputKey field) of
          None \<Rightarrow> Ok True
        | Some VNil \<Rightarrow> Ok True
        | Some oldValue \<Rightarrow>
            if DeviationType field = DEVIATION_TYPE_ANY
            then any_changed L marshal oldValue singleValue
            else go_map (\<lambda>currDeviation. dGreaterThan D currDeviation (Deviation field))
                   (go_mapErr (\<lambda>_. ShouldReportError)
                      (deviation L D (DeviationType field) oldValue singleValue)))"

section \<open>Aggregation\<close>

definition initializeCurrentState ::
    "'d vlib \<Rightarrow> (bytes \<Rightarrow> pbMap option) \<Rightarrow> AggregationOutcome option \<Rightarrow>
     (agg_error, (string, 'd Value) gomap) go" where
  "initializeCurrentState L unmarshal previousOutcome =
     (case previousOutcome of
        None \<Rightarrow> Ok []
      | Some prev \<Rightarrow>
          (case unmarshal (OutcomeMetadata prev) of
             None \<Rightarrow> Err StateError
           | Some m \<Rightarrow>
               (case FromMapValueProto L (Some m) of None \<Rightarrow> Panic | Some mv \<Rightarrow> Ok mv)))"

text \<open>The state of the loop over the fields.\<close>

record 'd reduce_state =
  rsState :: "(string, 'd Value) gomap"
  rsReport :: "(string, 'd any) gomap"
  rsShouldReport :: bool

definition field_key :: "'d AggregationField \<Rightarrow> string" where
  "field_key field = (if length (OutputKey field) > 0 then OutputKey field else InputKey field)"

definition reduce_field ::
    "'d vlib \<Rightarrow> 'd dlib \<Rightarrow> (('d Value \<Rightarrow> 'd Value \<Rightarrow> bool) \<Rightarrow> 'd Value list \<Rightarrow> 'd Value list) \<Rightarrow>
     (pbValue \<Rightarrow> bytes option) \<Rightarrow> (bytes \<Rightarrow> 'h) \<Rightarrow>
     (('h \<times> 'd Value \<times> nat) list \<Rightarrow> ('h \<times> 'd Value \<times> nat) list) \<Rightarrow>
     'd observations \<Rightarrow> nat \<Rightarrow> 'd reduce_state \<Rightarrow> 'd AggregationField \<Rightarrow>
     (agg_error, 'd reduce_state) go" where
  "reduce_field L D srt marshal sha it observations f st field =
     go_bind (extractValues L observations (InputKey field)) (\<lambda>vals.
     if length vals < 2 * f + 1 then Err (NotEnoughForField (InputKey field))
     else go_bind (reduce L D srt marshal sha it (Method field) vals f (ModeQuorum field))
       (\<lambda>singleValue.
     go_bind (shouldReport L D marshal field singleValue (rsState st)) (\<lambda>shouldReportField.
       Ok \<lparr>rsState = (if shouldReportField \<or> DeviationType field = DEVIATION_TYPE_NONE
                      then put (OutputKey field) singleValue (rsState st) else rsState st),
           rsReport = put (field_key field) (AValue singleValue) (rsReport st),
           rsShouldReport = (rsShouldReport st \<or> shouldReportField)\<rparr>)))"

text \<open>
  Moving the marked fields into the nested map. A key that is not in the report any more (two
  fields under one key) reads as nil.
\<close>

definition move_field ::
    "(string, 'd any) gomap \<times> (string, 'd any) gomap \<Rightarrow> 'd AggregationField \<Rightarrow>
     (string, 'd any) gomap \<times> (string, 'd any) gomap" where
  "move_field = (\<lambda>(report, subMap) field.
     if SubMapField field
     then (del (field_key field) report,
           put (field_key field)
             (case map_of report (field_key field) of None \<Rightarrow> ANil | Some a \<Rightarrow> a) subMap)
     else (report, subMap))"

definition nest_report ::
    "'d ReduceAggConfig \<Rightarrow> (string, 'd any) gomap \<Rightarrow> (string, 'd any) gomap" where
  "nest_report cfg report =
     (if length (SubMapKey cfg) > 0
      then (case foldl move_field (report, []) (Fields cfg) of
              (report', subMap) \<Rightarrow> put (SubMapKey cfg) (AMap subMap) report')
      else report)"

text \<open>For the format \<^verbatim>\<open>value\<close> the first entry that ranging over the map visits.\<close>

definition formatReport ::
    "(string, 'd any) gomap \<Rightarrow> string \<Rightarrow> (agg_error, 'd any) go" where
  "formatReport report format =
     (if format = REPORT_FORMAT_ARRAY then Ok (ASlice [AMap report])
      else if format = REPORT_FORMAT_MAP then Ok (AMap report)
      else if format = REPORT_FORMAT_VALUE
        then (case report of [] \<Rightarrow> Err FormatError | (k, value) # _ \<Rightarrow> Ok value)
      else Err FormatError)"

definition reduce_Aggregate ::
    "'d vlib \<Rightarrow> 'd dlib \<Rightarrow> (('d Value \<Rightarrow> 'd Value \<Rightarrow> bool) \<Rightarrow> 'd Value list \<Rightarrow> 'd Value list) \<Rightarrow>
     (pbValue \<Rightarrow> bytes option) \<Rightarrow> (pbMap \<Rightarrow> bytes option) \<Rightarrow> (bytes \<Rightarrow> pbMap option) \<Rightarrow>
     (bytes \<Rightarrow> 'h) \<Rightarrow> (('h \<times> 'd Value \<times> nat) list \<Rightarrow> ('h \<times> 'd Value \<times> nat) list) \<Rightarrow>
     'd ReduceAggConfig \<Rightarrow> AggregationOutcome option \<Rightarrow> 'd observations \<Rightarrow> nat \<Rightarrow>
     (agg_error, AggregationOutcome) go" where
  "reduce_Aggregate L D srt marshal marshalMap unmarshal sha it cfg previousOutcome observations f =
     (if length observations < 2 * f + 1 then Err NotEnoughObservations
      else go_bind (initializeCurrentState L unmarshal previousOutcome) (\<lambda>currentState.
      go_bind (go_foldM (reduce_field L D srt marshal sha it observations f)
                 \<lparr>rsState = currentState, rsReport = [], rsShouldReport = False\<rparr> (Fields cfg))
        (\<lambda>st.
      let report = nest_report cfg (rsReport st);
          hasNoDeviation = list_all (\<lambda>field. DeviationType field = DEVIATION_TYPE_NONE) (Fields cfg);
          report_now = (hasNoDeviation \<or> rsShouldReport st)
      in go_bind (go_mapErr (\<lambda>_. WrapError)
                    (NewMap (map (map_prod (\<lambda>k. k) AValue) (rsState st)))) (\<lambda>stateValuesMap.
         case marshalMap (ProtoMap L stateValuesMap) of
           None \<Rightarrow> Err MarshalError
         | Some stateBytes \<Rightarrow>
             go_bind (formatReport report (ReportFormat cfg)) (\<lambda>toWrap.
               go_map (\<lambda>reportValuesMap. aggregated (ProtoMap L reportValuesMap) stateBytes report_now)
                 (go_mapErr (\<lambda>_. WrapError) (NewMap [(OutputFieldName cfg, toWrap)])))))))"

text \<open>The contract the reporting plugin relies on.\<close>

interpretation reduce: aggregator "reduce_Aggregate L D srt marshal marshalMap unmarshal sha it cfg"
  for L D srt marshal marshalMap unmarshal sha it cfg
  by unfold_locales (auto simp: reduce_Aggregate_def Let_def go_simps split: if_splits option.splits, blast)

section \<open>Validation of the configuration\<close>

definition isOneOf :: "string \<Rightarrow> string list \<Rightarrow> bool" where
  "isOneOf toCheck options = list_ex (\<lambda>opt. toCheck = opt) options"

datatype config_error =
    NoFields | ValueFormatOneField | MissingOutputKey | InvalidDeviationType
  | MissingDeviationString | BadDeviationString | InvalidMethod | InvalidModeQuorum
  | UselessDeviationString | DuplicateOutputKey | NoSubMapFields | NoSubMapKey
  | InvalidReportFormat | DecodeConfig

definition default_deviation :: "'d AggregationField \<Rightarrow> 'd AggregationField" where
  "default_deviation field =
     (if length (DeviationType field) = 0 then field\<lparr>DeviationType := DEVIATION_TYPE_NONE\<rparr>
      else field)"

definition set_deviation ::
    "'d dlib \<Rightarrow> 'd AggregationField \<Rightarrow> (config_error, 'd AggregationField) go" where
  "set_deviation D field =
     (if DeviationType field \<noteq> DEVIATION_TYPE_NONE \<and> length (DeviationString field) > 0
      then (case dNewFromString D (DeviationString field) of
              None \<Rightarrow> Err BadDeviationString
            | Some deci \<Rightarrow> Ok (field\<lparr>Deviation := deci\<rparr>))
      else Ok field)"

definition default_quorum :: "'d AggregationField \<Rightarrow> 'd AggregationField" where
  "default_quorum field =
     (if Method field = AGGREGATION_METHOD_MODE \<and> length (ModeQuorum field) = 0
      then field\<lparr>ModeQuorum := MODE_QUORUM_OCR\<rparr> else field)"

text \<open>The loop body: the field with its defaults, the output keys seen, whether a field is nested.\<close>

definition parse_field ::
    "'d dlib \<Rightarrow> string \<Rightarrow> 'd AggregationField list \<times> string list \<times> bool \<Rightarrow> 'd AggregationField \<Rightarrow>
     (config_error, 'd AggregationField list \<times> string list \<times> bool) go" where
  "parse_field D reportFormat = (\<lambda>(done, seen, hasSubMapField) field.
     if (reportFormat = REPORT_FORMAT_ARRAY \<or> reportFormat = REPORT_FORMAT_MAP) \<and>
        length (OutputKey field) = 0 then Err MissingOutputKey
     else
     let field = default_deviation field
     in if \<not> isOneOf (DeviationType field) [DEVIATION_TYPE_ABSOLUTE, DEVIATION_TYPE_PERCENT,
               DEVIATION_TYPE_NONE, DEVIATION_TYPE_ANY] then Err InvalidDeviationType
     else if \<not> isOneOf (DeviationType field) [DEVIATION_TYPE_NONE, DEVIATION_TYPE_ANY] \<and>
             length (DeviationString field) = 0 then Err MissingDeviationString
     else go_bind (set_deviation D field) (\<lambda>field.
     if length (Method field) = 0 \<or>
        \<not> isOneOf (Method field) [AGGREGATION_METHOD_MEDIAN, AGGREGATION_METHOD_MODE]
     then Err InvalidMethod
     else
     let field = default_quorum field
     in if Method field = AGGREGATION_METHOD_MODE \<and>
           \<not> isOneOf (ModeQuorum field) [MODE_QUORUM_ANY, MODE_QUORUM_OCR]
        then Err InvalidModeQuorum
     else if length (DeviationString field) > 0 \<and>
             isOneOf (DeviationType field) [DEVIATION_TYPE_NONE, DEVIATION_TYPE_ANY]
        then Err UselessDeviationString
     else if OutputKey field \<in> set seen then Err DuplicateOutputKey
     else Ok (done @ [field], OutputKey field # seen, hasSubMapField \<or> SubMapField field)))"

definition default_names :: "'d ReduceAggConfig \<Rightarrow> 'd ReduceAggConfig" where
  "default_names cfg =
     cfg\<lparr>OutputFieldName := (if length (OutputFieldName cfg) = 0 then ''Reports''
                            else OutputFieldName cfg),
         ReportFormat := (if length (ReportFormat cfg) = 0 then REPORT_FORMAT_MAP
                          else ReportFormat cfg)\<rparr>"

definition ParseConfigReduceAggregator ::
    "'d dlib \<Rightarrow> (config_error, 'd ReduceAggConfig) go \<Rightarrow> (config_error, 'd ReduceAggConfig) go" where
  "ParseConfigReduceAggregator D decoded =
     go_bind decoded (\<lambda>cfg.
     if length (Fields cfg) = 0 then Err NoFields
     else
     let cfg = default_names cfg
     in if length (Fields cfg) > 1 \<and> ReportFormat cfg = REPORT_FORMAT_VALUE
        then Err ValueFormatOneField
     else go_bind (go_foldM (parse_field D (ReportFormat cfg)) ([], [], False) (Fields cfg))
       (\<lambda>(done, seen, hasSubMapField).
        if length (SubMapKey cfg) > 0 \<and> \<not> hasSubMapField then Err NoSubMapFields
        else if hasSubMapField \<and> length (SubMapKey cfg) = 0 then Err NoSubMapKey
        else if \<not> isOneOf (ReportFormat cfg)
                   [REPORT_FORMAT_ARRAY, REPORT_FORMAT_MAP, REPORT_FORMAT_VALUE]
          then Err InvalidReportFormat
        else Ok (cfg\<lparr>Fields := done\<rparr>)))"

section \<open>Extraction, per oracle\<close>

text \<open>The values of a field with the oracles they come from.\<close>

definition contributions :: "'d vlib \<Rightarrow> 'd observations \<Rightarrow> string \<Rightarrow> (OracleID, 'd Value) gomap" where
  "contributions L observations key =
     List.map_filter (\<lambda>(oracle, obs).
         case extract_one L key obs of Ok (Some v) \<Rightarrow> Some (oracle, v) | _ \<Rightarrow> None) observations"

lemma contributions_Cons:
  "contributions L ((oracle, obs) # observations) key =
     (case extract_one L key obs of
        Ok (Some v) \<Rightarrow> (oracle, v) # contributions L observations key
      | _ \<Rightarrow> contributions L observations key)"
  and contributions_Nil [simp]: "contributions L [] key = []"
  by (auto simp: contributions_def List.map_filter_def split: go.splits option.splits)



lemma extractValues_contributions:
  assumes "extractValues L observations key = Ok vals"
  shows "vals = map snd (contributions L observations key)"
proof -
  have "go_foldM (\<lambda>vals (nodeID, nodeObservations).
         go_map (\<lambda>r. case r of None \<Rightarrow> vals | Some v \<Rightarrow> vals @ [v])
           (extract_one L key nodeObservations)) acc observations = Ok vals \<Longrightarrow>
         vals = acc @ map snd (contributions L observations key)" for acc
  proof (induction observations arbitrary: acc)
    case (Cons e observations)
    from Cons.prems show ?case
      by (cases e) (auto simp: go_simps contributions_Cons dest!: Cons.IH split: option.splits)
  qed simp
  from this [of "[]"] assms show ?thesis by (simp add: extractValues_def)
qed

section \<open>The median\<close>


lemma dGreaterThan_den: "dec_laws L D den \<Longrightarrow> dGreaterThan D a b \<longleftrightarrow> den a > den b"
  by (auto simp: dec_laws_def dGreaterThan_def)



section \<open>The mode\<close>


lemma max_count_snoc:
  "max_count (m @ [(h, v, n)]) = (if n > max_count m then n else max_count m)"
  by (simp add: max_count_def)


lemma max_count_attained: "max_count m = 0 \<or> (\<exists>h v. (h, v, max_count m) \<in> set m)"
proof (induction m rule: rev_induct)
  case (snoc e m)
  then show ?case by (cases e) (auto simp: max_count_snoc)
qed (simp add: max_count_def)


section \<open>The loop over the fields\<close>






section \<open>Parsed configurations\<close>

definition field_valid :: "string \<Rightarrow> 'd AggregationField \<Rightarrow> bool" where
  "field_valid format field \<longleftrightarrow>
     DeviationType field \<in> {DEVIATION_TYPE_ABSOLUTE, DEVIATION_TYPE_PERCENT, DEVIATION_TYPE_NONE,
       DEVIATION_TYPE_ANY} \<and>
     (DeviationString field \<noteq> [] \<longleftrightarrow>
       DeviationType field \<in> {DEVIATION_TYPE_ABSOLUTE, DEVIATION_TYPE_PERCENT}) \<and>
     Method field \<in> {AGGREGATION_METHOD_MEDIAN, AGGREGATION_METHOD_MODE} \<and>
     (Method field = AGGREGATION_METHOD_MODE \<longrightarrow>
       ModeQuorum field \<in> {MODE_QUORUM_ANY, MODE_QUORUM_OCR}) \<and>
     (format \<in> {REPORT_FORMAT_ARRAY, REPORT_FORMAT_MAP} \<longrightarrow> OutputKey field \<noteq> [])"

lemma default_deviation_keeps [simp]:
  "OutputKey (default_deviation field) = OutputKey field"
  "Method (default_deviation field) = Method field"
  by (simp_all add: default_deviation_def)

lemma default_quorum_keeps [simp]:
  "OutputKey (default_quorum field) = OutputKey field"
  "Method (default_quorum field) = Method field"
  "DeviationType (default_quorum field) = DeviationType field"
  "DeviationString (default_quorum field) = DeviationString field"
  by (simp_all add: default_quorum_def)

lemma set_deviation_keeps:
  assumes "set_deviation D field = Ok field'"
  shows "OutputKey field' = OutputKey field" "Method field' = Method field"
    "DeviationType field' = DeviationType field" "DeviationString field' = DeviationString field"
  using assms by (auto simp: set_deviation_def split: if_splits option.splits)

lemma parse_field_Ok:
  assumes "parse_field D format (done, seen, sub) field = Ok (done', seen', sub')"
  obtains field' where "done' = done @ [field']" and "seen' = OutputKey field' # seen"
    and "field_valid format field'" and "OutputKey field' \<notin> set seen"
    and "sub' \<longleftrightarrow> sub \<or> SubMapField field'"
proof -
  from assms obtain f2 where f2: "set_deviation D (default_deviation field) = Ok f2"
    and res: "done' = done @ [default_quorum f2]" "seen' = OutputKey (default_quorum f2) # seen"
      "sub' \<longleftrightarrow> sub \<or> SubMapField (default_quorum f2)" "OutputKey (default_quorum f2) \<notin> set seen"
    and valid: "format \<in> {REPORT_FORMAT_ARRAY, REPORT_FORMAT_MAP} \<Longrightarrow> OutputKey field \<noteq> []"
      "isOneOf (DeviationType (default_deviation field)) [DEVIATION_TYPE_ABSOLUTE,
        DEVIATION_TYPE_PERCENT, DEVIATION_TYPE_NONE, DEVIATION_TYPE_ANY]"
      "isOneOf (DeviationType (default_deviation field)) [DEVIATION_TYPE_NONE, DEVIATION_TYPE_ANY] \<or>
        DeviationString (default_deviation field) \<noteq> []"
      "isOneOf (Method f2) [AGGREGATION_METHOD_MEDIAN, AGGREGATION_METHOD_MODE]"
      "Method f2 = AGGREGATION_METHOD_MODE \<Longrightarrow>
        isOneOf (ModeQuorum (default_quorum f2)) [MODE_QUORUM_ANY, MODE_QUORUM_OCR]"
      "DeviationString f2 = [] \<or>
        \<not> isOneOf (DeviationType f2) [DEVIATION_TYPE_NONE, DEVIATION_TYPE_ANY]"
    by (simp add: parse_field_def Let_def go_simps split: if_splits) blast
  have "field_valid format (default_quorum f2)"
    using valid set_deviation_keeps [OF f2] by (auto simp: field_valid_def isOneOf_def)
  with res show thesis using that by blast
qed

lemma parse_fields_Ok:
  assumes "go_foldM (parse_field D format) (done, seen, sub) fds = Ok (done', seen', sub')"
    and "\<forall>field\<in>set done. field_valid format field" and "seen = rev (map OutputKey done)"
    and "distinct (map OutputKey done)" and "sub \<longleftrightarrow> (\<exists>field\<in>set done. SubMapField field)"
  shows "(\<forall>field\<in>set done'. field_valid format field) \<and> distinct (map OutputKey done') \<and>
         (sub' \<longleftrightarrow> (\<exists>field\<in>set done'. SubMapField field)) \<and> length done' = length done + length fds"
  using assms
proof (induction fds arbitrary: "done" seen sub)
  case (Cons field fds)
  from Cons.prems(1) obtain d1 s1 b1 where
    step: "parse_field D format (done, seen, sub) field = Ok (d1, s1, b1)"
    and rest: "go_foldM (parse_field D format) (d1, s1, b1) fds = Ok (done', seen', sub')"
    by (auto simp: go_simps)
  from step obtain field' where "d1 = done @ [field']" "s1 = OutputKey field' # seen"
    "field_valid format field'" "OutputKey field' \<notin> set seen" "b1 \<longleftrightarrow> sub \<or> SubMapField field'"
    by (rule parse_field_Ok)
  with Cons.IH [OF rest] Cons.prems show ?case by auto
qed simp

text \<open>A configuration that parsing accepts.\<close>

definition reduce_config_valid :: "'d ReduceAggConfig \<Rightarrow> bool" where
  "reduce_config_valid cfg \<longleftrightarrow>
     Fields cfg \<noteq> [] \<and> OutputFieldName cfg \<noteq> [] \<and>
     ReportFormat cfg \<in> {REPORT_FORMAT_ARRAY, REPORT_FORMAT_MAP, REPORT_FORMAT_VALUE} \<and>
     (ReportFormat cfg = REPORT_FORMAT_VALUE \<longrightarrow> length (Fields cfg) = 1) \<and>
     list_all (field_valid (ReportFormat cfg)) (Fields cfg) \<and>
     distinct (map OutputKey (Fields cfg)) \<and>
     (SubMapKey cfg \<noteq> [] \<longleftrightarrow> list_ex SubMapField (Fields cfg))"

lemma parsed_config_valid:
  assumes "ParseConfigReduceAggregator D decoded = Ok cfg"
  shows "reduce_config_valid cfg"
proof -
  from assms obtain c fds seen sub where
    loop: "go_foldM (parse_field D (ReportFormat c)) ([], [], False) (Fields c) = Ok (fds, seen, sub)"
    and cfg: "cfg = c\<lparr>Fields := fds\<rparr>"
    and c: "Fields c \<noteq> []" "OutputFieldName c \<noteq> []"
      "length (Fields c) \<le> 1 \<or> ReportFormat c \<noteq> REPORT_FORMAT_VALUE"
      "isOneOf (ReportFormat c) [REPORT_FORMAT_ARRAY, REPORT_FORMAT_MAP, REPORT_FORMAT_VALUE]"
      "SubMapKey c \<noteq> [] \<longleftrightarrow> sub"
  proof -
    from assms obtain a fds seen sub where "Fields a \<noteq> []"
      "go_foldM (parse_field D (ReportFormat (default_names a))) ([], [], False)
         (Fields (default_names a)) = Ok (fds, seen, sub)"
      "cfg = default_names a\<lparr>Fields := fds\<rparr>"
      "length (Fields (default_names a)) \<le> 1 \<or> ReportFormat (default_names a) \<noteq> REPORT_FORMAT_VALUE"
      "isOneOf (ReportFormat (default_names a))
         [REPORT_FORMAT_ARRAY, REPORT_FORMAT_MAP, REPORT_FORMAT_VALUE]"
      "SubMapKey (default_names a) \<noteq> [] \<longleftrightarrow> sub"
      by (auto simp: ParseConfigReduceAggregator_def Let_def go_simps not_less split: if_splits)
    moreover have "Fields (default_names a) = Fields a" "OutputFieldName (default_names a) \<noteq> []"
      by (auto simp: default_names_def)
    ultimately show thesis using that [of "default_names a" fds seen sub] by simp
  qed
  from parse_fields_Ok [OF loop] have fds: "\<forall>field\<in>set fds. field_valid (ReportFormat c) field"
    "distinct (map OutputKey fds)" "sub \<longleftrightarrow> (\<exists>field\<in>set fds. SubMapField field)"
    "length fds = length (Fields c)" by auto
  then have "fds \<noteq> []" using c(1) by auto
  moreover have "length fds = 1" if "ReportFormat c = REPORT_FORMAT_VALUE"
    using that c(1,3) fds(4) by (cases "Fields c") auto
  ultimately show ?thesis
    using fds c by (auto simp: reduce_config_valid_def cfg isOneOf_def list_all_iff list_ex_iff)
qed


section \<open>Properties\<close>




text \<open>A concrete instance: rational numbers as decimals, insertion sort, four oracles.\<close>

definition rat_vlib :: "rat vlib" where
  "rat_vlib = \<lparr>dCoefficient = (\<lambda>_. 0), dExponent = (\<lambda>_. 0),
     dNewFromBigInt = (\<lambda>n e. case n of None \<Rightarrow> 0 | Some m \<Rightarrow> of_int m * 10 powi (sint e)),
     tsNew = (\<lambda>t. \<lparr>Seconds = t div 1000000000, Nanos = t mod 1000000000\<rparr>),
     tsAsTime = (\<lambda>s. Seconds s * 1000000000 + Nanos s), msDecode = Ok\<rparr>"

definition rat_dlib :: "rat dlib" where
  "rat_dlib = \<lparr>dNewFromInt = of_int, dNewFromString = (\<lambda>s. map_option of_int (Atoi s)),
     dNewFromFloat = (\<lambda>_. None), dSub = (-), dAbs = abs, dDiv = (/),
     dCmp = (\<lambda>a b. if a < b then -1 else if a = b then 0 else 1)\<rparr>"

lemma rat_dec_laws: "dec_laws rat_vlib rat_dlib (\<lambda>q. q)"
  by (auto simp: dec_laws_def rat_vlib_def rat_dlib_def divide_nonneg_neg)

definition price_field :: "rat AggregationField" where
  "price_field = \<lparr>Deviation = 0, DeviationString = [], DeviationType = DEVIATION_TYPE_NONE,
     InputKey = ''p'', Method = AGGREGATION_METHOD_MEDIAN, ModeQuorum = [], OutputKey = ''price'',
     SubMapField = False\<rparr>"

definition price_config :: "rat ReduceAggConfig" where
  "price_config = \<lparr>Fields = [price_field], OutputFieldName = ''Reports'',
     ReportFormat = REPORT_FORMAT_MAP, SubMapKey = []\<rparr>"


definition price_marshal :: "pbValue \<Rightarrow> bytes option" where
  "price_marshal p = (case p of PInt64 i \<Rightarrow> Some [ucast i] | _ \<Rightarrow> None)"





lemma price_config_parses: "ParseConfigReduceAggregator rat_dlib (Ok price_config) = Ok price_config"
  by code_simp


text \<open>
  What parsing accepts is a usable configuration: the defaults are filled in, methods, quorums,
  deviation types and the report format are among the supported ones, a deviation amount is given
  exactly for the types that need one, output keys do not collide and are present where the format
  needs them, and fields are marked for nesting exactly when a key for the nested map is given.
\<close>

lemma reduce_config_checked:
  assumes "ParseConfigReduceAggregator D decoded = Ok cfg"
  shows "Fields cfg \<noteq> [] \<and> OutputFieldName cfg \<noteq> [] \<and>
     ReportFormat cfg \<in> {REPORT_FORMAT_ARRAY, REPORT_FORMAT_MAP, REPORT_FORMAT_VALUE} \<and>
     (ReportFormat cfg = REPORT_FORMAT_VALUE \<longrightarrow> length (Fields cfg) = 1) \<and>
     list_all (field_valid (ReportFormat cfg)) (Fields cfg) \<and>
     distinct (map OutputKey (Fields cfg)) \<and>
     (SubMapKey cfg \<noteq> [] \<longleftrightarrow> list_ex SubMapField (Fields cfg))"
  using parsed_config_valid [OF assms] unfolding reduce_config_valid_def .

lemma reduce_config_checked_witness:
  "Fields price_config \<noteq> [] \<and> OutputFieldName price_config \<noteq> [] \<and>
     ReportFormat price_config \<in> {REPORT_FORMAT_ARRAY, REPORT_FORMAT_MAP, REPORT_FORMAT_VALUE} \<and>
     list_all (field_valid (ReportFormat price_config)) (Fields price_config) \<and>
     distinct (map OutputKey (Fields price_config)) \<and>
     (SubMapKey price_config \<noteq> [] \<longleftrightarrow> list_ex SubMapField (Fields price_config))"
  using reduce_config_checked [OF price_config_parses] by blast

lemma extract_one_no_Err: "extract_one L key obs \<noteq> Err e"
  by (auto simp: extract_one_def split: go.splits any.splits option.splits)

lemma extractValues_Panic:
  assumes "(p, obs) \<in> set observations" and "extract_one L key obs = Panic"
  shows "extractValues L observations key = Panic"
proof -
  have "go_foldM (\<lambda>vals (nodeID, nodeObservations).
         go_map (\<lambda>r. case r of None \<Rightarrow> vals | Some v \<Rightarrow> vals @ [v])
           (extract_one L key nodeObservations)) acc observations = Panic" for acc
    using assms(1)
  proof (induction observations arbitrary: acc)
    case (Cons e observations)
    obtain q o' where e: "e = (q, o')" by fastforce
    show ?case
    proof (cases "extract_one L key o'")
      case (Err err)
      then show ?thesis using extract_one_no_Err by metis
    qed (use Cons assms(2) e in auto)
  qed simp
  then show ?thesis by (simp add: extractValues_def)
qed

text \<open>
  One faulty oracle can crash the aggregation of every node: a list that is shorter than the
  index a field asks for makes \<^verbatim>\<open>Aggregate\<close> panic, whatever the other oracles observed.
\<close>

lemma reduce_short_list_panics:
  assumes "Fields cfg = field # rest" and "Atoi (InputKey field) = Some i"
    and "(p, [VList l]) \<in> set observations" and "Unwrap L (VList l) = Ok (ASlice us)"
    and "int (length l) \<le> i" and "2 * f + 1 \<le> length observations"
  shows "reduce_Aggregate L D srt marshal marshalMap unmarshal sha it cfg None observations f = Panic"
proof -
  have "length us = length l"
  proof -
    from assms(4) have "go_mapM (\<lambda>r. r) (map (Unwrap L) l) = Ok us"
      by (auto simp: go_simps)
    moreover have "go_mapM (\<lambda>r. r) rs = Ok zs \<Longrightarrow> length zs = length rs"
      for rs :: "(verr, 'a any) go list" and zs
      by (induction rs arbitrary: zs) (auto simp: go_simps)
    ultimately show ?thesis by fastforce
  qed
  then have "extract_one L (InputKey field) [VList l] = Panic"
    using assms(2,4,5) by (simp add: extract_one_def)
  from extractValues_Panic [OF assms(3) this] assms(1,6) show ?thesis
    by (simp add: reduce_Aggregate_def initializeCurrentState_def reduce_field_def)
qed

definition index_config :: "rat ReduceAggConfig" where
  "index_config = price_config\<lparr>Fields := [price_field\<lparr>InputKey := ''1''\<rparr>]\<rparr>"

lemma reduce_short_list_panics_witness:
  "reduce_Aggregate rat_vlib rat_dlib insertion_sort price_marshal (\<lambda>_. Some []) (\<lambda>_. None) (\<lambda>b. b)
     (\<lambda>es. es) index_config None
     [(0, [VList [VInt64 1, VInt64 2]]), (1, [VList [VInt64 1, VInt64 2]]), (2, [VList []])] 1 = Panic"
  by (rule reduce_short_list_panics [of _ "price_field\<lparr>InputKey := ''1''\<rparr>" "[]" 1 2 "[]" _ _ "[]"])
    (simp_all add: index_config_def Atoi_def)

lemma contributions_in:
  assumes "(p, obs) \<in> set observations" and "extract_one L key obs = Ok (Some v)"
  shows "(p, v) \<in> set (contributions L observations key)"
  using assms by (force simp: contributions_def List.map_filter_def split: go.splits option.splits)

text \<open>
  One faulty oracle can crash a median in the same way: an observation that maps the input key
  to nil is taken for a value, and converting it to a decimal dereferences nil.
\<close>

lemma reduce_nil_panics:
  assumes "Fields cfg = field # rest" and "Method field = AGGREGATION_METHOD_MEDIAN"
    and "vlib_laws L" and "(p, [VMap [(InputKey field, VNil)]]) \<in> set observations"
    and "extractValues L observations (InputKey field) = Ok vals" and "2 * f + 1 \<le> length vals"
    and "1 \<le> f" and "2 * f + 1 \<le> length observations"
  shows "reduce_Aggregate L D srt marshal marshalMap unmarshal sha it cfg None observations f = Panic"
proof -
  have "extract_one L (InputKey field) [VMap [(InputKey field, VNil)]] = Ok (Some VNil)"
    using assms(3) by (simp add: extract_one_def vlib_laws_def)
  from contributions_in [OF assms(4) this] extractValues_contributions [OF assms(5)]
  have "VNil \<in> set vals" by (force intro: rev_image_eqI)
  then have "list_ex (\<lambda>item. toDecimal L D item = Panic) vals"
    by (auto simp: list_ex_iff toDecimal_def)
  moreover have "\<not> length vals < 2" "vals \<noteq> []" using assms(6,7) by auto
  ultimately have "median L D srt vals = Panic"
    by (simp add: median_def sortAsDecimal_def)
  then show ?thesis
    using assms(1,2,5,6,8)
    by (simp add: reduce_Aggregate_def initializeCurrentState_def reduce_field_def reduce_def)
qed

lemma pair_extract:
  "extractValues pair_vlib [(0, [VMap [(''p'', VInt64 10)]]), (5, [VMap [(''p'', VNil)]]),
      (2, [VMap [(''p'', VInt64 12)]])] ''p'' = Ok [VInt64 10, VNil, VInt64 12]"
  by code_simp

definition pair_dlib :: "(int \<times> 32 word) dlib" where
  "pair_dlib = \<lparr>dNewFromInt = (\<lambda>n. (n, 0)), dNewFromString = (\<lambda>_. None),
     dNewFromFloat = (\<lambda>_. None), dSub = (\<lambda>a b. a), dAbs = (\<lambda>a. a), dDiv = (\<lambda>a b. a),
     dCmp = (\<lambda>a b. 0)\<rparr>"

definition pair_field :: "(int \<times> 32 word) AggregationField" where
  "pair_field = \<lparr>Deviation = (0, 0), DeviationString = [], DeviationType = DEVIATION_TYPE_NONE,
     InputKey = ''p'', Method = AGGREGATION_METHOD_MEDIAN, ModeQuorum = [], OutputKey = ''price'',
     SubMapField = False\<rparr>"

lemma reduce_nil_panics_witness:
  "reduce_Aggregate pair_vlib pair_dlib insertion_sort price_marshal (\<lambda>_. Some []) (\<lambda>_. None)
     (\<lambda>b. b) (\<lambda>es. es)
     \<lparr>Fields = [pair_field], OutputFieldName = ''Reports'', ReportFormat = REPORT_FORMAT_MAP,
      SubMapKey = []\<rparr> None
     [(0, [VMap [(''p'', VInt64 10)]]), (5, [VMap [(''p'', VNil)]]),
      (2, [VMap [(''p'', VInt64 12)]])] 1 = Panic"
  by (rule reduce_nil_panics [of _ pair_field "[]" _ 5 _ "[VInt64 10, VNil, VInt64 12]"])
    (simp_all add: pair_field_def pair_extract)

text \<open>
  The numeric deviation tests. With the type \<^verbatim>\<open>absolute\<close> a field asks for a report exactly
  when the value moved by more than the configured amount. With the type \<^verbatim>\<open>percent\<close> the change is
  divided by the previous value with its sign: if that value is negative, no change, however
  large, ever asks for a report.
\<close>

lemma numeric_deviation:
  assumes "dec_laws L D den" and "map_of state (OutputKey field) = Some old"
    and "toDecimal L D old = Ok a" and "toDecimal L D new = Ok b"
  shows "(DeviationType field = DEVIATION_TYPE_ABSOLUTE \<longrightarrow>
            shouldReport L D marshal field new state = Ok (\<bar>den a - den b\<bar> > den (Deviation field))) \<and>
         (DeviationType field = DEVIATION_TYPE_PERCENT \<and> den a < 0 \<and> 0 \<le> den (Deviation field) \<longrightarrow>
            shouldReport L D marshal field new state = Ok False)"
proof -
  have "old \<noteq> VNil" using assms(3) by (auto simp: toDecimal_def)
  then have report: "shouldReport L D marshal field new state =
      go_map (\<lambda>dv. dGreaterThan D dv (Deviation field))
        (go_mapErr (\<lambda>_. ShouldReportError) (deviation L D (DeviationType field) old new))"
    if "DeviationType field \<noteq> DEVIATION_TYPE_NONE" "DeviationType field \<noteq> DEVIATION_TYPE_ANY"
    using assms(2) that by (cases old) (simp_all add: shouldReport_def)
  have diff: "den (dAbs D (dSub D a b)) = \<bar>den a - den b\<bar>"
    using assms(1) by (simp add: dec_laws_def)
  have "den (dDiv D (dAbs D (dSub D a b)) a) \<le> 0" if "den a < 0"
    using assms(1) that diff unfolding dec_laws_def by (metis abs_ge_zero)
  moreover have "dCmp D a (dNewFromInt D 0) \<noteq> 0" if "den a < 0"
    using assms(1) that by (simp add: dec_laws_def)
  ultimately show ?thesis
    using report assms(3,4) diff
    by (auto simp: deviation_def Let_def dGreaterThan_den [OF assms(1)] not_less)
qed

lemma numeric_deviation_witness:
  "shouldReport rat_vlib rat_dlib price_marshal
     (price_field\<lparr>DeviationType := DEVIATION_TYPE_PERCENT, Deviation := 1\<rparr>) (VInt64 1000000)
     [(''price'', VInt64 (-1))] = Ok False"
  using numeric_deviation [OF rat_dec_laws, of "[(''price'', VInt64 (-1))]"
      "price_field\<lparr>DeviationType := DEVIATION_TYPE_PERCENT, Deviation := 1\<rparr>" "VInt64 (-1)" "-1"
      "VInt64 1000000" 1000000 price_marshal]
  by (simp add: toDecimal_def rat_dlib_def price_field_def)

text \<open>
  The deviation type \<^verbatim>\<open>any\<close> is meant to report only a changed value. Integers, strings,
  booleans, byte strings and times are compared by content, so an unchanged one is not reported;
  decimals and big integers are compared by the identity of a pointer, so that an unchanged one
  is reported in every round.
\<close>

lemma any_deviation:
  assumes "DeviationType field = DEVIATION_TYPE_ANY" and "map_of state (OutputKey field) = Some v"
  shows "((\<exists>i s b bs t. v \<in> {VInt64 i, VString s, VBool b, VBytes bs, VTime t}) \<longrightarrow>
            shouldReport L D marshal field v state = Ok False) \<and>
         ((\<exists>d n. v \<in> {VDecimal d, VBigInt n}) \<longrightarrow>
            shouldReport L D marshal field v state = Ok True)"
  using assms by (auto simp: shouldReport_def any_changed_def)

lemma any_deviation_witness:
  "shouldReport rat_vlib rat_dlib price_marshal (price_field\<lparr>DeviationType := DEVIATION_TYPE_ANY\<rparr>)
     (VBigInt 5) [(''price'', VBigInt 5)] = Ok True"
  using any_deviation [of "price_field\<lparr>DeviationType := DEVIATION_TYPE_ANY\<rparr>"
      "[(''price'', VBigInt 5)]" "VBigInt 5" rat_vlib rat_dlib price_marshal]
  by (simp add: price_field_def)

end
