(* ===== verification/LLO.thy ===== *)
theory LLO
  imports Feeds
begin

text \<open>
  The LLO aggregator (\<^verbatim>\<open>pkg/capabilities/consensus/ocr3/datafeeds/llo_aggregator.go\<close>): the oracles pass on
  an event that another consensus protocol has produced, so the timestamp and the prices that
  \<open>f + 1\<close> of them agree on are taken.

  \<open>unwrapLLO\<close> is \<^verbatim>\<open>UnwrapTo\<close> an LLO event; the operations on decimals are the record \<open>llib\<close>;
  the order of the list of events is the order in which the map of events is visited, and \<open>itp\<close>
  the order in which the candidate prices of a stream are.
\<close>

section \<open>Configuration\<close>

record 'd llib =
  ldZero :: 'd
  ldSub :: "'d \<Rightarrow> 'd \<Rightarrow> 'd"
  ldAbs :: "'d \<Rightarrow> 'd"
  ldIsZero :: "'d \<Rightarrow> bool"
  ldFloat64 :: "'d \<Rightarrow> float64"
  ldString :: "'d \<Rightarrow> string"
  ldFromString :: "string \<Rightarrow> 'd option"
  ldMarshalBinary :: "'d \<Rightarrow> bytes option"
  ldUnmarshalBinary :: "bytes \<Rightarrow> 'd option"
  ldShift :: "'d \<Rightarrow> int \<Rightarrow> 'd"
  ldBigInt :: "'d \<Rightarrow> int"
  ldNewFromBigInt :: "int \<Rightarrow> 'd"

record 'd LLOAggregatorConfig =
  lcStreams :: "(string, 'd FeedConfig) gomap"
  lcAllowedPartialStaleness :: string

record 'd parsedLLOAggregatorConfig =
  streams :: "(uint32, 'd FeedConfig) gomap"
  allowedPartialStaleness :: float64

datatype llo_config_error =
    BadStreamID string | MissingRemappedID uint32 | BadStreamDeviation uint32
  | BadStreamRemappedID uint32 | BadPartialStaleness

text \<open>\<^verbatim>\<open>strconv.ParseUint(s, 10, 32)\<close>.\<close>

definition ParseUint32 :: "string \<Rightarrow> uint32 option" where
  "ParseUint32 s =
     (if s = [] then None
      else case parse_digits 0 s of
          None \<Rightarrow> None
        | Some n \<Rightarrow> if n < 2 ^ 32 then Some (of_nat n) else None)"

definition convert_stream ::
    "'d llib \<Rightarrow> uint32 \<times> 'd FeedConfig \<Rightarrow> (llo_config_error, uint32 \<times> 'd FeedConfig) go" where
  "convert_stream D = (\<lambda>(streamID, cfg).
     if fcRemappedIDHex cfg = [] then Err (MissingRemappedID streamID)
     else go_bind
       (if fcDeviation cfg \<noteq> [] then
          (case ldFromString D (fcDeviation cfg) of
             None \<Rightarrow> Err (BadStreamDeviation streamID)
           | Some dec \<Rightarrow> Ok (cfg\<lparr>fcParsedDeviation := dec\<rparr>))
        else Ok cfg) (\<lambda>cfg.
     let trimmed = (if take 2 (fcRemappedIDHex cfg) = ''0x'' then drop 2 (fcRemappedIDHex cfg)
                    else fcRemappedIDHex cfg)
     in case hex_decode trimmed of
          (raw, True) \<Rightarrow> Ok (streamID, cfg\<lparr>fcRemappedID := raw\<rparr>)
        | (raw, False) \<Rightarrow> Err (BadStreamRemappedID streamID)))"

definition convertToInternal ::
    "'d llib \<Rightarrow> 'd flib \<Rightarrow> 'd LLOAggregatorConfig \<Rightarrow>
     (llo_config_error, 'd parsedLLOAggregatorConfig) go" where
  "convertToInternal D F c =
     go_bind (go_foldM (\<lambda>m (s, cfg).
         case ParseUint32 s of
           None \<Rightarrow> Err (BadStreamID s)
         | Some id32 \<Rightarrow> Ok (put id32 cfg m)) [] (lcStreams c)) (\<lambda>byID.
     go_bind (go_mapM (convert_stream D) byID) (\<lambda>parsed.
       if lcAllowedPartialStaleness c \<noteq> [] then
         (case ldFromString D (lcAllowedPartialStaleness c) of
            None \<Rightarrow> Err BadPartialStaleness
          | Some d \<Rightarrow> Ok \<lparr>streams = parsed, allowedPartialStaleness = dInexactFloat64 F d\<rparr>)
       else Ok \<lparr>streams = parsed, allowedPartialStaleness = 0\<rparr>))"

section \<open>Events\<close>

record LLOStreamDecimal =
  lsStreamID :: uint32
  lsDecimal :: bytes

record LLOStreamsTriggerEvent =
  lePayload :: "LLOStreamDecimal list"
  leObservationTimestampNanoseconds :: uint64

type_synonym llo_events = "(OracleID, LLOStreamsTriggerEvent) gomap"

definition extractLLOEvents ::
    "('d Value \<Rightarrow> LLOStreamsTriggerEvent option) \<Rightarrow> 'd observations \<Rightarrow> llo_events" where
  "extractLLOEvents unwrapLLO observations =
     foldl (\<lambda>events (nodeID, nodeObservations).
        if nodeObservations = [] \<or> hd nodeObservations = VNil then events
        else if length nodeObservations > 1 then events
        else case unwrapLLO (hd nodeObservations) of
            None \<Rightarrow> events
          | Some ev \<Rightarrow> put nodeID ev events) [] observations"

section \<open>State\<close>

record LLOStreamInfo =
  liTimestamp :: int64
  liPrice :: bytes

type_synonym llo_state = "(uint32, LLOStreamInfo) gomap"

definition initializeLLOState ::
    "'d llib \<Rightarrow> (bytes \<Rightarrow> llo_state option) \<Rightarrow> 'd parsedLLOAggregatorConfig \<Rightarrow>
     AggregationOutcome option \<Rightarrow> (agg_error, llo_state) go" where
  "initializeLLOState D unmarshalState cfg previousOutcome =
     go_bind
       (case previousOutcome of
          None \<Rightarrow> Ok []
        | Some prev \<Rightarrow>
            if length (OutcomeMetadata prev) \<noteq> 0 then
              (case unmarshalState (OutcomeMetadata prev) of
                 None \<Rightarrow> Err UnmarshalError | Some st \<Rightarrow> Ok st)
            else Ok []) (\<lambda>state0.
     case ldMarshalBinary D (ldZero D) of
       None \<Rightarrow> Err MarshalError
     | Some zero \<Rightarrow>
         let state1 = foldl (\<lambda>st (streamID, c).
               case map_of st streamID of
                 None \<Rightarrow> put streamID \<lparr>liTimestamp = 0, liPrice = zero\<rparr> st
               | Some _ \<Rightarrow> st) state0 (streams cfg)
         in Ok (filter (\<lambda>(streamID, info). map_of (streams cfg) streamID \<noteq> None) state1))"

section \<open>Timestamp and prices\<close>

text \<open>The first timestamp that has been counted \<open>f + 1\<close> times ends the loop.\<close>

fun timestamp_loop :: "nat \<Rightarrow> (uint64, nat) gomap \<Rightarrow> llo_events \<Rightarrow> (agg_error, uint64) go" where
  "timestamp_loop f counts [] = Err InsufficientConsensus"
| "timestamp_loop f counts ((nodeID, event) # events) =
     (let ts = leObservationTimestampNanoseconds event; counts' = incr ts counts
      in if count_of counts' ts \<ge> f + 1 then Ok ts else timestamp_loop f counts' events)"

definition getObservationTimestamp :: "llo_events \<Rightarrow> nat \<Rightarrow> (agg_error, uint64) go" where
  "getObservationTimestamp lloEvents f = timestamp_loop f [] lloEvents"

type_synonym candidate_prices = "(uint32, (string, nat) gomap) gomap"

definition count_price ::
    "'d llib \<Rightarrow> candidate_prices \<Rightarrow> LLOStreamDecimal \<Rightarrow> candidate_prices" where
  "count_price D candidates p =
     (case map_of candidates (lsStreamID p) of
        None \<Rightarrow> candidates
      | Some prices \<Rightarrow>
          (case ldUnmarshalBinary D (lsDecimal p) of
             None \<Rightarrow> candidates
           | Some price \<Rightarrow> put (lsStreamID p) (incr (ldString D price) prices) candidates))"

definition count_event ::
    "'d llib \<Rightarrow> uint64 \<Rightarrow> candidate_prices \<Rightarrow> OracleID \<times> LLOStreamsTriggerEvent \<Rightarrow> candidate_prices" where
  "count_event D ts candidates = (\<lambda>(nodeID, event).
     if leObservationTimestampNanoseconds event \<noteq> ts then candidates
     else foldl (count_price D) candidates (lePayload event))"

text \<open>
  The first price with enough votes that ranging over the candidates visits. A string that does not
  parse leaves the zero decimal.
\<close>

definition pick_price ::
    "'d llib \<Rightarrow> ((string \<times> nat) list \<Rightarrow> (string \<times> nat) list) \<Rightarrow> nat \<Rightarrow> (string, nat) gomap \<Rightarrow> 'd option" where
  "pick_price D itp f priceCount =
     (case find (\<lambda>(priceStr, cnt). cnt \<ge> f + 1) (itp priceCount) of
        None \<Rightarrow> None
      | Some (priceStr, cnt) \<Rightarrow>
          (case ldFromString D priceStr of None \<Rightarrow> Some (ldZero D) | Some d \<Rightarrow> Some d))"

definition lloStreamPrices ::
    "'d llib \<Rightarrow> ((string \<times> nat) list \<Rightarrow> (string \<times> nat) list) \<Rightarrow> uint32 list \<Rightarrow> llo_events \<Rightarrow> nat \<Rightarrow>
     (agg_error, uint64 \<times> (uint32, 'd) gomap) go" where
  "lloStreamPrices D itp wantStreamIDs lloEvents f =
     go_map (\<lambda>ts.
        let candidates0 = foldl (\<lambda>m streamID. put streamID [] m) [] wantStreamIDs;
            candidates = foldl (count_event D ts) candidates0 lloEvents;
            out = foldl (\<lambda>out (streamID, priceCount).
                    case pick_price D itp f priceCount of
                      None \<Rightarrow> out
                    | Some price \<Rightarrow> put streamID price out) [] candidates
        in (ts, out))
       (getObservationTimestamp lloEvents f)"

section \<open>Selection of the streams to update\<close>

definition deviationDecimal :: "'d llib \<Rightarrow> 'd flib \<Rightarrow> 'd \<Rightarrow> 'd \<Rightarrow> float64" where
  "deviationDecimal D F oldPrice newPrice =
     (let diff = ldAbs D (ldSub D oldPrice newPrice)
      in if ldIsZero D oldPrice then if ldIsZero D diff then 0 else MaxFloat64
         else flDiv F (ldFloat64 D diff) (ldFloat64 D oldPrice))"

definition price_of :: "'d llib \<Rightarrow> (uint32, 'd) gomap \<Rightarrow> uint32 \<Rightarrow> 'd" where
  "price_of D prices streamID =
     (case map_of prices streamID of None \<Rightarrow> ldZero D | Some d \<Rightarrow> d)"

definition stream_config :: "'d llib \<Rightarrow> 'd parsedLLOAggregatorConfig \<Rightarrow> uint32 \<Rightarrow> 'd FeedConfig" where
  "stream_config D cfg streamID =
     (case map_of (streams cfg) streamID of
        None \<Rightarrow> zero_feed_config (ldZero D) | Some c \<Rightarrow> c)"

definition stream_due ::
    "'d llib \<Rightarrow> 'd flib \<Rightarrow> 'd FeedConfig \<Rightarrow> uint64 \<Rightarrow> 'd \<Rightarrow> LLOStreamInfo \<Rightarrow> 'd \<Rightarrow> bool" where
  "stream_due D F config ts oldPrice prev newPrice \<longleftrightarrow>
     HeartbeatNanos config <s ts - liTimestamp prev \<or>
     flGt F (deviationDecimal D F oldPrice newPrice) (dInexactFloat64 F (fcParsedDeviation config))"

definition stream_close ::
    "'d flib \<Rightarrow> float64 \<Rightarrow> 'd FeedConfig \<Rightarrow> uint64 \<Rightarrow> LLOStreamInfo \<Rightarrow> bool" where
  "stream_close F staleness config ts prev \<longleftrightarrow>
     flGt F (flOfInt64 F (ts - liTimestamp prev))
       (flMul F (flOfInt64 F (HeartbeatNanos config)) (flSub F One64 staleness))"

definition check_stream ::
    "'d llib \<Rightarrow> 'd flib \<Rightarrow> 'd parsedLLOAggregatorConfig \<Rightarrow> uint64 \<Rightarrow> (uint32, 'd) gomap \<Rightarrow>
     llo_state \<times> uint32 list \<times> uint32 list \<Rightarrow> uint32 \<Rightarrow> llo_state \<times> uint32 list \<times> uint32 list" where
  "check_stream D F cfg ts prices = (\<lambda>(state, must, maybe) streamID.
     case map_of state streamID of
       None \<Rightarrow> (state, must, maybe)
     | Some prev \<Rightarrow>
         (case ldUnmarshalBinary D (liPrice prev) of
            None \<Rightarrow> (state, must, maybe)
          | Some oldPrice \<Rightarrow>
              let config = stream_config D cfg streamID; newPrice = price_of D prices streamID
              in if stream_due D F config ts oldPrice prev newPrice then
                   (case ldMarshalBinary D newPrice of
                      None \<Rightarrow> (put streamID \<lparr>liTimestamp = ts, liPrice = []\<rparr> state, must, maybe)
                    | Some b \<Rightarrow>
                        (put streamID \<lparr>liTimestamp = ts, liPrice = b\<rparr> state, must @ [streamID], maybe))
                 else if stream_close F (allowedPartialStaleness cfg) config ts prev
                 then (state, must, maybe @ [streamID])
                 else (state, must, maybe)))"

definition select_streams ::
    "'d llib \<Rightarrow> 'd flib \<Rightarrow> 'd parsedLLOAggregatorConfig \<Rightarrow> uint64 \<Rightarrow> (uint32, 'd) gomap \<Rightarrow>
     llo_state \<Rightarrow> llo_state \<times> uint32 list" where
  "select_streams D F cfg ts prices state0 =
     (case foldl (check_stream D F cfg ts prices) (state0, [], []) (sort (map fst state0)) of
        (state, must, maybe) \<Rightarrow>
          (state, if must \<noteq> [] then sort (must @ maybe) else must))"

section \<open>Aggregation\<close>

definition decimalShift :: int where "decimalShift = 18"

definition decimalToBigInt :: "'d llib \<Rightarrow> 'd \<Rightarrow> int" where
  "decimalToBigInt D d = ldBigInt D (ldShift D d decimalShift)"

definition bigIntToDecimal :: "'d llib \<Rightarrow> int \<Rightarrow> 'd" where
  "bigIntToDecimal D b = ldShift D (ldNewFromBigInt D b) (- decimalShift)"

text \<open>The struct of an update, as wrapping turns it into a map.\<close>

definition stream_entry ::
    "'d llib \<Rightarrow> 'd parsedLLOAggregatorConfig \<Rightarrow> uint64 \<Rightarrow> (uint32, 'd) gomap \<Rightarrow> uint32 \<Rightarrow> 'd any" where
  "stream_entry D cfg ts prices streamID =
     AMap [(''StreamID'', AInt KUint32 (uint streamID)),
           (''Price'', ABigInt (decimalToBigInt D (price_of D prices streamID))),
           (''Timestamp'', AInt KUint32 (uint (word_of_int (sint ts div 1000000000) :: uint32))),
           (''RemappedID'', ABytes (fcRemappedID (stream_config D cfg streamID)))]"

definition llo_Aggregate ::
    "'d vlib \<Rightarrow> 'd llib \<Rightarrow> 'd flib \<Rightarrow> ('d Value \<Rightarrow> LLOStreamsTriggerEvent option) \<Rightarrow>
     (bytes \<Rightarrow> llo_state option) \<Rightarrow> (llo_state \<Rightarrow> bytes option) \<Rightarrow>
     ((OracleID \<times> LLOStreamsTriggerEvent) list \<Rightarrow> (OracleID \<times> LLOStreamsTriggerEvent) list) \<Rightarrow>
     ((string \<times> nat) list \<Rightarrow> (string \<times> nat) list) \<Rightarrow> 'd parsedLLOAggregatorConfig \<Rightarrow>
     AggregationOutcome option \<Rightarrow> 'd observations \<Rightarrow> nat \<Rightarrow> (agg_error, AggregationOutcome) go" where
  "llo_Aggregate L D F unwrapLLO unmarshalState marshalState ite itp cfg previousOutcome observations f =
     (if observations = [] then Err EmptyObservation
      else
      let lloEvents = ite (extractLLOEvents unwrapLLO observations)
      in go_bind (initializeLLOState D unmarshalState cfg previousOutcome) (\<lambda>state0.
      go_bind (lloStreamPrices D itp (sort (map fst state0)) lloEvents f) (\<lambda>(ts, prices).
      case select_streams D F cfg ts prices state0 of (state, updates) \<Rightarrow>
      case marshalState state of
        None \<Rightarrow> Err MarshalError
      | Some marshalledState \<Rightarrow>
          go_map (\<lambda>w. aggregated (ProtoMap L w) marshalledState (updates \<noteq> []))
            (go_mapErr (\<lambda>_. WrapError)
               (NewMap [(''Reports'', ASlice (map (stream_entry D cfg ts prices) updates))])))))"

text \<open>The contract the reporting plugin relies on.\<close>

interpretation llo: aggregator "llo_Aggregate L D F unwrapLLO unmarshalState marshalState ite itp cfg"
  for L D F unwrapLLO unmarshalState marshalState ite itp cfg
  by unfold_locales (auto simp: llo_Aggregate_def Let_def go_simps case_prod_beta split: if_splits option.splits; blast)

section \<open>The agreed timestamp\<close>

definition at_time :: "uint64 \<Rightarrow> LLOStreamsTriggerEvent \<Rightarrow> bool" where
  "at_time ts ev \<longleftrightarrow> leObservationTimestampNanoseconds ev = ts"

lemma timestamp_loop_Ok:
  "timestamp_loop f counts events = Ok ts \<Longrightarrow>
   f + 1 \<le> count_of counts ts + length (filter (at_time ts) (map snd events))"
proof (induction f counts events rule: timestamp_loop.induct)
  case (2 f counts nodeID event events)
  show ?case
  proof (cases "f + 1 \<le> count_of (incr (leObservationTimestampNanoseconds event) counts)
      (leObservationTimestampNanoseconds event)")
    case True
    with 2(2) show ?thesis by (auto simp: Let_def at_time_def split: if_splits)
  next
    case False
    with 2(1) [OF refl refl False] 2(2) show ?thesis
      by (auto simp: Let_def at_time_def split: if_splits)
  qed
qed simp

lemma timestamp_loop_total:
  assumes "f + 1 \<le> count_of counts ts + length (filter (at_time ts) (map snd events))"
    and "count_of counts ts \<le> f"
  shows "\<exists>t. timestamp_loop f counts events = Ok t"
  using assms
proof (induction f counts events rule: timestamp_loop.induct)
  case (2 f counts nodeID event events)
  show ?case
  proof (cases "f + 1 \<le> count_of (incr (leObservationTimestampNanoseconds event) counts)
      (leObservationTimestampNanoseconds event)")
    case False
    with 2(1) [OF refl refl False] 2(2,3) show ?thesis
      by (auto simp: Let_def at_time_def split: if_splits)
  qed (simp add: Let_def)
qed simp

section \<open>Counting of prices\<close>

definition prices_at :: "'d llib \<Rightarrow> uint32 \<Rightarrow> string \<Rightarrow> LLOStreamDecimal \<Rightarrow> bool" where
  "prices_at D s str p \<longleftrightarrow>
     lsStreamID p = s \<and>
     (case ldUnmarshalBinary D (lsDecimal p) of None \<Rightarrow> False | Some d \<Rightarrow> ldString D d = str)"

definition entry_votes :: "'d llib \<Rightarrow> uint32 \<Rightarrow> string \<Rightarrow> LLOStreamsTriggerEvent \<Rightarrow> nat" where
  "entry_votes D s str ev = length (filter (prices_at D s str) (lePayload ev))"

definition price_count :: "candidate_prices \<Rightarrow> uint32 \<Rightarrow> string \<Rightarrow> nat" where
  "price_count c s str = (case map_of c s of None \<Rightarrow> 0 | Some m \<Rightarrow> count_of m str)"

definition candidates_wf :: "candidate_prices \<Rightarrow> bool" where
  "candidates_wf c \<longleftrightarrow> gomap_wf c \<and> (\<forall>(s, m)\<in>set c. gomap_wf m)"

lemma candidates_wfD: "candidates_wf c \<Longrightarrow> map_of c s = Some m \<Longrightarrow> gomap_wf m"
  by (auto simp: candidates_wf_def dest!: map_of_SomeD)

lemma count_price_step:
  assumes "candidates_wf c"
  shows "candidates_wf (count_price D c p) \<and> gomap_dom (count_price D c p) = gomap_dom c \<and>
         (s \<in> gomap_dom c \<longrightarrow>
            price_count (count_price D c p) s str =
              price_count c s str + (if prices_at D s str p then 1 else 0))"
proof (cases "map_of c (lsStreamID p)")
  case None
  then have "s \<in> gomap_dom c \<longrightarrow> s \<noteq> lsStreamID p" by (auto simp: gomap_dom_iff)
  with None assms show ?thesis by (auto simp: count_price_def prices_at_def)
next
  case (Some m)
  then have "lsStreamID p \<in> gomap_dom c" and "gomap_wf m"
    using assms by (auto dest: candidates_wfD)
  with Some assms show ?thesis
    by (auto simp: count_price_def prices_at_def price_count_def candidates_wf_def set_put
        split: option.splits)
qed

lemma count_payload:
  assumes "candidates_wf c"
  shows "candidates_wf (foldl (count_price D) c ps) \<and> gomap_dom (foldl (count_price D) c ps) = gomap_dom c \<and>
         (s \<in> gomap_dom c \<longrightarrow>
            price_count (foldl (count_price D) c ps) s str =
              price_count c s str + length (filter (prices_at D s str) ps))"
  using assms
proof (induction ps arbitrary: c)
  case (Cons p ps)
  note step = count_price_step [OF Cons.prems, of D p s str]
  then have wf: "candidates_wf (count_price D c p)" by blast
  from Cons.IH [OF wf] step show ?case by auto
qed simp

lemma count_events:
  assumes "candidates_wf c"
  shows "candidates_wf (foldl (count_event D ts) c events) \<and>
         gomap_dom (foldl (count_event D ts) c events) = gomap_dom c \<and>
         (s \<in> gomap_dom c \<longrightarrow>
            price_count (foldl (count_event D ts) c events) s str =
              price_count c s str +
              sum_list (map (entry_votes D s str) (filter (at_time ts) (map snd events))))"
  using assms
proof (induction events arbitrary: c)
  case (Cons e events)
  obtain p ev where e: "e = (p, ev)" by fastforce
  show ?case
  proof (cases "at_time ts ev")
    case True
    note pay = count_payload [OF Cons.prems, of D "lePayload ev" s str]
    then have wf: "candidates_wf (foldl (count_price D) c (lePayload ev))" by blast
    from Cons.IH [OF wf] pay True show ?thesis
      by (auto simp: e count_event_def at_time_def entry_votes_def)
  next
    case False
    with Cons.IH [OF Cons.prems] show ?thesis by (simp add: e count_event_def at_time_def)
  qed
qed simp

text \<open>The candidates before counting: no votes for every wanted stream.\<close>

definition no_candidates :: "uint32 list \<Rightarrow> candidate_prices" where
  "no_candidates ids = foldl (\<lambda>m streamID. put streamID [] m) [] ids"

lemma no_candidates_wf:
  "candidates_wf (no_candidates ids) \<and> gomap_dom (no_candidates ids) = set ids \<and>
   price_count (no_candidates ids) s str = 0"
proof (induction ids rule: rev_induct)
  case (snoc i ids)
  then have wf: "gomap_wf (no_candidates ids)" by (simp add: candidates_wf_def)
  have "no_candidates (ids @ [i]) = put i [] (no_candidates ids)" by (simp add: no_candidates_def)
  with snoc wf show ?case
    by (auto simp: candidates_wf_def set_put price_count_def)
qed (simp_all add: no_candidates_def candidates_wf_def price_count_def)

definition candidates :: "'d llib \<Rightarrow> uint64 \<Rightarrow> uint32 list \<Rightarrow> llo_events \<Rightarrow> candidate_prices" where
  "candidates D ts ids events = foldl (count_event D ts) (no_candidates ids) events"

lemma candidates_count:
  "candidates_wf (candidates D ts ids events) \<and> gomap_dom (candidates D ts ids events) = set ids \<and>
   (s \<in> set ids \<longrightarrow> price_count (candidates D ts ids events) s str =
      sum_list (map (entry_votes D s str) (filter (at_time ts) (map snd events))))"
  using count_events [of "no_candidates ids" D ts events s str] no_candidates_wf [of ids s str]
  by (auto simp: candidates_def)

text \<open>The prices are picked stream by stream.\<close>

lemma pick_loop:
  "gomap_wf c \<Longrightarrow>
   map_of (foldl (\<lambda>out (s, m). case pick_price D itp f m of None \<Rightarrow> out | Some d \<Rightarrow> put s d out) out c) s =
     (case map_of c s of
        None \<Rightarrow> map_of out s
      | Some m \<Rightarrow> (case pick_price D itp f m of None \<Rightarrow> map_of out s | Some d \<Rightarrow> Some d))"
proof (induction c arbitrary: out)
  case (Cons e c)
  obtain i m where e: "e = (i, m)" by fastforce
  have "map_of c i = None" using Cons.prems e by (simp add: map_of_eq_None_iff)
  with Cons e show ?case by (auto split: option.splits)
qed simp

lemma lloStreamPrices_lookup:
  assumes "lloStreamPrices D itp ids events f = Ok (ts, prices)"
  shows "getObservationTimestamp events f = Ok ts"
    and "map_of prices s =
           (case map_of (candidates D ts ids events) s of
              None \<Rightarrow> None | Some m \<Rightarrow> pick_price D itp f m)"
proof -
  have wf: "gomap_wf (candidates D ts ids events)"
    using candidates_count [of D ts ids events] by (auto simp: candidates_wf_def)
  show "getObservationTimestamp events f = Ok ts"
    using assms by (auto simp: lloStreamPrices_def go_simps Let_def)
  have "prices = foldl (\<lambda>out (s, m). case pick_price D itp f m of None \<Rightarrow> out | Some d \<Rightarrow> put s d out) []
      (candidates D ts ids events)"
    using assms by (auto simp: lloStreamPrices_def go_simps Let_def candidates_def no_candidates_def)
  with pick_loop [OF wf, of D itp f "[]" s]
  show "map_of prices s = (case map_of (candidates D ts ids events) s of
              None \<Rightarrow> None | Some m \<Rightarrow> pick_price D itp f m)"
    by (auto split: option.splits)
qed

lemma pick_price_Some:
  assumes "pick_price D itp f m = Some d" and "iteration_order itp" and "gomap_wf m"
  obtains str where "f + 1 \<le> count_of m str"
    and "d = (case ldFromString D str of None \<Rightarrow> ldZero D | Some e \<Rightarrow> e)"
proof -
  from assms(1) obtain str n where "find (\<lambda>(priceStr, cnt). cnt \<ge> f + 1) (itp m) = Some (str, n)"
    and d: "d = (case ldFromString D str of None \<Rightarrow> ldZero D | Some e \<Rightarrow> e)"
    by (auto simp: pick_price_def split: option.splits)
  then have "(str, n) \<in> set (itp m)" "f + 1 \<le> n"
    by (auto simp: find_Some_iff) (metis nth_mem)
  then have "(str, n) \<in> set m" "f + 1 \<le> n" using assms(2) by simp_all
  with count_of_mem [OF assms(3)] d show thesis using that by metis
qed

lemma pick_price_total:
  assumes "f + 1 \<le> count_of m str" and "iteration_order itp"
  shows "\<exists>d. pick_price D itp f m = Some d"
proof -
  from assms(1) obtain n where "map_of m str = Some n" "f + 1 \<le> n"
    by (auto simp: count_of_def split: option.splits)
  then have "find (\<lambda>(priceStr, cnt). cnt \<ge> f + 1) (itp m) \<noteq> None"
    using assms(2) by (auto simp: find_None_iff dest!: map_of_SomeD)
  then show ?thesis by (auto simp: pick_price_def split: option.splits)
qed



section \<open>Properties of prices\<close>


text \<open>
  The condition on the events is needed, and the code does not check it: an event of a single
  oracle that lists a stream \<open>f + 1\<close> times with one price decides the price of a stream that no
  other event at that time lists.
\<close>

lemma llo_single_oracle_price:
  assumes "lloStreamPrices D itp ids events f = Ok (ts, prices)" and "iteration_order itp"
    and "(p, ev) \<in> set events" and "at_time ts ev" and "s \<in> set ids"
    and "f + 1 \<le> length (filter (\<lambda>e. lsStreamID e = s) (lePayload ev))"
    and "\<forall>e\<in>set (lePayload ev). lsStreamID e = s \<longrightarrow> lsDecimal e = b"
    and "ldUnmarshalBinary D b = Some d" and "ldFromString D (ldString D d) = Some d"
    and "\<forall>(q, e)\<in>set events. at_time ts e \<and> e \<noteq> ev \<longrightarrow> (\<forall>x\<in>set (lePayload e). lsStreamID x \<noteq> s)"
  shows "map_of prices s = Some d"
proof -
  have cnt: "candidates_wf (candidates D ts ids events)" "gomap_dom (candidates D ts ids events) = set ids"
    using candidates_count [of D ts ids events] by auto
  obtain m where m: "map_of (candidates D ts ids events) s = Some m"
    using cnt(2) assms(5) by (metis gomap_dom_iff not_None_eq)
  have cnt_m: "count_of m str =
      sum_list (map (entry_votes D s str) (filter (at_time ts) (map snd events)))" for str
    using candidates_count [of D ts ids events s str] assms(5) m by (simp add: price_count_def)
  let ?str = "ldString D d"
  have "entry_votes D s ?str ev = length (filter (\<lambda>e. lsStreamID e = s) (lePayload ev))"
    unfolding entry_votes_def using assms(7,8)
    by (intro arg_cong [where f = length] filter_cong) (auto simp: prices_at_def)
  moreover have "ev \<in> set (filter (at_time ts) (map snd events))" using assms(3,4) by force
  then have "entry_votes D s ?str ev \<le> count_of m ?str"
    unfolding cnt_m by (intro member_le_sum_list) auto
  ultimately have quorum: "f + 1 \<le> count_of m ?str" using assms(6) by simp
  have only: "str = ?str" if "0 < count_of m str" for str
  proof -
    from that obtain e where e: "e \<in> snd ` set events" "at_time ts e" "entry_votes D s str e \<noteq> 0"
      unfolding cnt_m by (auto simp: sum_list_eq_0_iff simp flip: neq0_conv)
    then obtain x where x: "x \<in> set (lePayload e)" "prices_at D s str x"
      unfolding entry_votes_def by (metis filter_False length_0_conv)
    with e assms(10) have "e = ev" by (force simp: prices_at_def)
    with x assms(7,8) show ?thesis by (auto simp: prices_at_def)
  qed
  from pick_price_total [OF quorum assms(2), of D] obtain d' where d': "pick_price D itp f m = Some d'" ..
  then obtain str where "f + 1 \<le> count_of m str"
    "d' = (case ldFromString D str of None \<Rightarrow> ldZero D | Some e \<Rightarrow> e)"
    using candidates_wfD [OF cnt(1) m] assms(2) by (blast elim: pick_price_Some)
  with only [of str] assms(9) have "d' = d" by auto
  with d' m lloStreamPrices_lookup(2) [OF assms(1), of s] show ?thesis by simp
qed

section \<open>Which streams are updated\<close>

text \<open>A stream that is due, and one that may join, read off the state before the loop.\<close>

definition due_stream ::
    "'d llib \<Rightarrow> 'd flib \<Rightarrow> 'd parsedLLOAggregatorConfig \<Rightarrow> uint64 \<Rightarrow> (uint32, 'd) gomap \<Rightarrow> llo_state \<Rightarrow>
     uint32 \<Rightarrow> bool" where
  "due_stream D F cfg ts prices state s \<longleftrightarrow>
     (case map_of state s of
        None \<Rightarrow> False
      | Some prev \<Rightarrow>
          (case ldUnmarshalBinary D (liPrice prev) of
             None \<Rightarrow> False
           | Some old \<Rightarrow> stream_due D F (stream_config D cfg s) ts old prev (price_of D prices s)))"

definition joining_stream ::
    "'d llib \<Rightarrow> 'd flib \<Rightarrow> 'd parsedLLOAggregatorConfig \<Rightarrow> uint64 \<Rightarrow> (uint32, 'd) gomap \<Rightarrow> llo_state \<Rightarrow>
     uint32 \<Rightarrow> bool" where
  "joining_stream D F cfg ts prices state s \<longleftrightarrow>
     (case map_of state s of
        None \<Rightarrow> False
      | Some prev \<Rightarrow>
          ldUnmarshalBinary D (liPrice prev) \<noteq> None \<and> \<not> due_stream D F cfg ts prices state s \<and>
          stream_close F (allowedPartialStaleness cfg) (stream_config D cfg s) ts prev)"

definition stream_record :: "'d llib \<Rightarrow> uint64 \<Rightarrow> (uint32, 'd) gomap \<Rightarrow> uint32 \<Rightarrow> LLOStreamInfo" where
  "stream_record D ts prices s =
     \<lparr>liTimestamp = ts, liPrice = the (ldMarshalBinary D (price_of D prices s))\<rparr>"

lemma check_stream_step:
  assumes "map_of st s = map_of state0 s" and "\<forall>d. ldMarshalBinary D d \<noteq> None"
  shows "check_stream D F cfg ts prices (st, must, maybe) s =
           (if due_stream D F cfg ts prices state0 s
            then (put s (stream_record D ts prices s) st, must @ [s], maybe)
            else if joining_stream D F cfg ts prices state0 s then (st, must, maybe @ [s])
            else (st, must, maybe))"
proof -
  obtain b where "ldMarshalBinary D (price_of D prices s) = Some b" using assms(2) by auto
  with assms(1) show ?thesis
    by (auto simp: check_stream_def due_stream_def joining_stream_def stream_record_def Let_def
        split: option.splits)
qed

lemma check_streams:
  assumes "distinct ids" and "\<forall>d. ldMarshalBinary D d \<noteq> None"
  shows "\<exists>st. foldl (check_stream D F cfg ts prices) (state0, [], []) ids =
           (st, filter (due_stream D F cfg ts prices state0) ids,
            filter (joining_stream D F cfg ts prices state0) ids) \<and>
         (\<forall>i. map_of st i =
            (if i \<in> set ids \<and> due_stream D F cfg ts prices state0 i
             then Some (stream_record D ts prices i) else map_of state0 i))"
  using assms(1)
proof (induction ids rule: rev_induct)
  case (snoc i ids)
  then obtain st where
    st: "foldl (check_stream D F cfg ts prices) (state0, [], []) ids =
      (st, filter (due_stream D F cfg ts prices state0) ids,
       filter (joining_stream D F cfg ts prices state0) ids)"
    and look: "\<forall>i. map_of st i = (if i \<in> set ids \<and> due_stream D F cfg ts prices state0 i
             then Some (stream_record D ts prices i) else map_of state0 i)"
    by auto
  from look snoc.prems have "map_of st i = map_of state0 i" by simp
  note step = check_stream_step [OF this assms(2), of F cfg ts prices]
  have excl: "\<not> (due_stream D F cfg ts prices state0 i \<and> joining_stream D F cfg ts prices state0 i)"
    by (auto simp: joining_stream_def split: option.splits)
  show ?case
    using st look excl
    by (cases "due_stream D F cfg ts prices state0 i"; cases "joining_stream D F cfg ts prices state0 i")
      (simp_all add: step)
qed simp

lemma select_streams_shape:
  assumes "gomap_wf state0" and "\<forall>d. ldMarshalBinary D d \<noteq> None"
  obtains st where "select_streams D F cfg ts prices state0 =
      (st, if filter (due_stream D F cfg ts prices state0) (sort (map fst state0)) \<noteq> []
           then sort (filter (due_stream D F cfg ts prices state0) (sort (map fst state0)) @
                  filter (joining_stream D F cfg ts prices state0) (sort (map fst state0)))
           else filter (due_stream D F cfg ts prices state0) (sort (map fst state0)))"
    and "\<forall>s. map_of st s = (if due_stream D F cfg ts prices state0 s
           then Some (stream_record D ts prices s) else map_of state0 s)"
proof -
  let ?ids = "sort (map fst state0)"
  have "distinct ?ids" using assms(1) by simp
  from check_streams [OF this assms(2), of F cfg ts prices state0] obtain st where
    st: "foldl (check_stream D F cfg ts prices) (state0, [], []) ?ids =
      (st, filter (due_stream D F cfg ts prices state0) ?ids,
       filter (joining_stream D F cfg ts prices state0) ?ids)"
    and look: "\<forall>i. map_of st i = (if i \<in> set ?ids \<and> due_stream D F cfg ts prices state0 i
         then Some (stream_record D ts prices i) else map_of state0 i)" by blast
  have "due_stream D F cfg ts prices state0 s \<Longrightarrow> s \<in> set ?ids" for s
    by (auto simp: due_stream_def split: option.splits)
  with look have "\<forall>s. map_of st s = (if due_stream D F cfg ts prices state0 s
           then Some (stream_record D ts prices s) else map_of state0 s)" by simp
  with st show thesis by (intro that [of st]) (simp_all add: select_streams_def)
qed

lemma zero_price_due:
  assumes "map_of state0 s = Some prev \<and> ldUnmarshalBinary D (liPrice prev) = Some old \<and>
      HeartbeatNanos (stream_config D cfg s) <s ts - liTimestamp prev \<and> map_of prices s = None"
  shows "due_stream D F cfg ts prices state0 s \<and>
    stream_record D ts prices s = \<lparr>liTimestamp = ts, liPrice = the (ldMarshalBinary D (ldZero D))\<rparr>"
  using assms by (simp add: due_stream_def stream_due_def stream_record_def price_of_def)

text \<open>
  Which streams an LLO outcome updates: the due ones and, if there is one, those close to their
  heartbeat, each once and in the order of their ids; the state records the due ones only. A
  stream without a price that enough oracles agree on counts as having the price zero: it is
  due once its heartbeat has passed, and its zero price is reported and recorded.
\<close>

lemma llo_updates_exact:
  assumes "gomap_wf state0" and "\<forall>d. ldMarshalBinary D d \<noteq> None"
  shows "(let due = {s \<in> gomap_dom state0. due_stream D F cfg ts prices state0 s};
              joining = {s \<in> gomap_dom state0. joining_stream D F cfg ts prices state0 s}
          in set (snd (select_streams D F cfg ts prices state0)) = (if due = {} then {} else due \<union> joining)) \<and>
         distinct (snd (select_streams D F cfg ts prices state0)) \<and>
         sorted (snd (select_streams D F cfg ts prices state0)) \<and>
         (\<forall>s. map_of (fst (select_streams D F cfg ts prices state0)) s =
            (if due_stream D F cfg ts prices state0 s then Some (stream_record D ts prices s)
             else map_of state0 s)) \<and>
         (\<forall>s prev old. map_of state0 s = Some prev \<and> ldUnmarshalBinary D (liPrice prev) = Some old \<and>
            HeartbeatNanos (stream_config D cfg s) <s ts - liTimestamp prev \<and> map_of prices s = None \<longrightarrow>
            s \<in> set (snd (select_streams D F cfg ts prices state0)) \<and>
            map_of (fst (select_streams D F cfg ts prices state0)) s =
              Some \<lparr>liTimestamp = ts, liPrice = the (ldMarshalBinary D (ldZero D))\<rparr>)"
proof -
  let ?due = "filter (due_stream D F cfg ts prices state0) (sort (map fst state0))"
  let ?join = "filter (joining_stream D F cfg ts prices state0) (sort (map fst state0))"
  let ?upd = "if ?due \<noteq> [] then sort (?due @ ?join) else ?due"
  from select_streams_shape [OF assms, of F cfg ts prices] obtain st where
    sel: "select_streams D F cfg ts prices state0 = (st, ?upd)"
    and state: "\<forall>s. map_of st s = (if due_stream D F cfg ts prices state0 s
           then Some (stream_record D ts prices s) else map_of state0 s)" .
  have empty: "?due = [] \<longleftrightarrow> {s \<in> gomap_dom state0. due_stream D F cfg ts prices state0 s} = {}"
    by (auto simp: filter_empty_conv)
  have ids: "set ?upd =
      (if {s \<in> gomap_dom state0. due_stream D F cfg ts prices state0 s} = {} then {}
       else {s \<in> gomap_dom state0. due_stream D F cfg ts prices state0 s} \<union>
            {s \<in> gomap_dom state0. joining_stream D F cfg ts prices state0 s})"
    unfolding empty [symmetric] by auto
  have "set ?due \<inter> set ?join = {}" by (auto simp: joining_stream_def split: option.splits)
  then have distinct: "distinct ?upd" using assms(1) by simp
  have sorted: "sorted ?upd" by (simp add: sorted_filter)
  have mem: "s \<in> set ?upd" if "due_stream D F cfg ts prices state0 s" for s
  proof -
    have "s \<in> set ?due" using that by (auto simp: due_stream_def split: option.splits)
    then show ?thesis by (auto simp: filter_empty_conv)
  qed
  have "\<forall>s prev old. map_of state0 s = Some prev \<and> ldUnmarshalBinary D (liPrice prev) = Some old \<and>
      HeartbeatNanos (stream_config D cfg s) <s ts - liTimestamp prev \<and> map_of prices s = None \<longrightarrow>
      s \<in> set ?upd \<and>
      map_of st s = Some \<lparr>liTimestamp = ts, liPrice = the (ldMarshalBinary D (ldZero D))\<rparr>"
    using zero_price_due [of state0 _ _ D _ cfg ts prices F] mem state by (metis (no_types, lifting))
  note all = conjI [OF ids conjI [OF distinct conjI [OF sorted conjI [OF state this]]]]
  show ?thesis unfolding sel Let_def fst_conv snd_conv by (rule all)
qed

section \<open>A concrete instance\<close>

definition int_llib :: "int llib" where
  "int_llib = \<lparr>ldZero = 0, ldSub = (-), ldAbs = abs, ldIsZero = (\<lambda>d. d = 0), ldFloat64 = of_int,
     ldString = (\<lambda>d. show_nat (nat d)), ldFromString = (\<lambda>s. map_option int (parse_digits 0 s)),
     ldMarshalBinary = (\<lambda>d. Some [of_int d]),
     ldUnmarshalBinary = (\<lambda>bs. case bs of [b] \<Rightarrow> Some (uint b) | _ \<Rightarrow> None),
     ldShift = (\<lambda>d e. d * 10 ^ nat e), ldBigInt = (\<lambda>d. d), ldNewFromBigInt = (\<lambda>d. d)\<rparr>"

definition int_flib :: "int flib" where
  "int_flib = \<lparr>flOfBig = of_int, flOfInt64 = (\<lambda>n. n), flMul = (*), flSub = (-),
     flDiv = (\<lambda>a b. a div b), flGt = (\<lambda>a b. b < a), dInexactFloat64 = (\<lambda>_. 0),
     dParse = (\<lambda>_. Some 0)\<rparr>"

definition llo_event :: "int list \<Rightarrow> LLOStreamsTriggerEvent" where
  "llo_event ps = \<lparr>lePayload = map (\<lambda>p. \<lparr>lsStreamID = 1, lsDecimal = [of_int p]\<rparr>) ps,
     leObservationTimestampNanoseconds = 5\<rparr>"




definition forged_events :: llo_events where
  "forged_events = [(0, llo_event []), (1, llo_event [99, 99]), (2, llo_event [])]"

lemma forged_prices: "lloStreamPrices int_llib rev [1] forged_events 1 = Ok (5, [(1, 99)])"
  by code_simp

lemma show_99: "ldFromString int_llib (ldString int_llib 99) = Some 99"
  by code_simp

lemma llo_single_oracle_price_witness: "map_of [(1 :: uint32, 99 :: int)] 1 = Some 99"
proof (rule llo_single_oracle_price [OF forged_prices iteration_order_rev])
  show "(1, llo_event [99, 99]) \<in> set forged_events" by (simp add: forged_events_def)
  show "ldUnmarshalBinary int_llib [99] = Some 99" by (simp add: int_llib_def)
qed (auto simp: at_time_def llo_event_def forged_events_def show_99)

lemma llo_updates_exact_witness:
  "distinct (snd (select_streams int_llib int_flib \<lparr>streams = [], allowedPartialStaleness = 0\<rparr> 5 []
     [(1, \<lparr>liTimestamp = 0, liPrice = [3]\<rparr>)]))"
  using llo_updates_exact [of "[(1, \<lparr>liTimestamp = 0, liPrice = [3]\<rparr>)]" int_llib int_flib
      "\<lparr>streams = [], allowedPartialStaleness = 0\<rparr>" 5 "[]"]
  by (simp add: int_llib_def)

end
