(* ===== verification/EncodingsBuild.thy ===== *)
theory EncodingsBuild
  imports Encodings
begin

text \<open>
  Codecs that are put together from others: strings, structs, and every codec that the builders of
  \<^verbatim>\<open>pkg/codec/encodings\<close> can make. Each satisfies the contract \<open>type_codec\<close>, so that whatever a codec
  of the package encodes it also decodes, and decoding never panics.
\<close>

section \<open>Slices and strings\<close>

text \<open>A header that reads only small lengths: whatever a message says, the slice can be made.\<close>

lemma header_alloc:
  assumes "fits n (sint i)" and "2 ^ (8 * n - 1) * type_size t \<le> maxAlloc" and "0 \<le> sint i"
  shows "can_make t (nat (sint i))"
proof -
  have "int (nat (sint i)) < int (2 ^ (8 * n - 1))" using assms(1,3) by (simp add: fits_def)
  then have "nat (sint i) \<le> 2 ^ (8 * n - 1)" by (simp only: of_nat_less_iff less_imp_le)
  then have "nat (sint i) * type_size t \<le> 2 ^ (8 * n - 1) * type_size t" by (rule mult_right_mono) simp
  from order_trans [OF this assms(2)] show ?thesis by (simp only: can_make_def)
qed

lemma IntN_alloc:
  assumes "big_laws B" and "0 < n" and "n \<le> 8" and "IntN B e n = Ok S"
    and "2 ^ (8 * n - 1) * type_size t \<le> maxAlloc"
    and "decode S bs = Ok (CInt i, r)" and "0 \<le> sint i"
  shows "can_make t (nat (sint i))"
  using header_alloc [OF IntN_range [OF assms(1-4,6)] assms(5,7)] .

lemma small_headers:
  "decode (intCodec (Int8 e) (\<lambda>v. case v of CInt8 w \<Rightarrow> Some (scast w) | _ \<Rightarrow> None) (\<lambda>i. CInt8 (ucast i))) bs =
     Ok (CInt i, r) \<Longrightarrow> fits 1 (sint i)"
  "decode (intCodec (Int16 e) (\<lambda>v. case v of CInt16 w \<Rightarrow> Some (scast w) | _ \<Rightarrow> None) (\<lambda>i. CInt16 (ucast i))) bs =
     Ok (CInt i, r) \<Longrightarrow> fits 2 (sint i)"
  using sint_scast_fits [where 'a = 8 and n = 1] sint_scast_fits [where 'a = 16 and n = 2]
  by (auto simp: intCodec_def word_codec_defs word_codec_def go_simps dest!: SafeDecode_Ok)

lemma small_alloc:
  "decode (intCodec (Int8 e) (\<lambda>v. case v of CInt8 w \<Rightarrow> Some (scast w) | _ \<Rightarrow> None) (\<lambda>i. CInt8 (ucast i))) bs =
     Ok (CInt i, r) \<Longrightarrow> 0 \<le> sint i \<Longrightarrow> can_make (getType (Uint8 e)) (nat (sint i))"
  "decode (intCodec (Int16 e) (\<lambda>v. case v of CInt16 w \<Rightarrow> Some (scast w) | _ \<Rightarrow> None) (\<lambda>i. CInt16 (ucast i))) bs =
     Ok (CInt i, r) \<Longrightarrow> 0 \<le> sint i \<Longrightarrow> can_make (getType (Uint8 e)) (nat (sint i))"
  by (rule header_alloc [OF small_headers(1)] header_alloc [OF small_headers(2)], assumption,
      simp add: Uint8_def word_codec_def maxAlloc_def, assumption)+

text \<open>Byte slices with a header of one or two bytes, as the string codec uses them.\<close>

interpretation bytes1: slice_codec "Uint8 e" "\<lambda>v. \<exists>w. v = CUint8 w"
  "\<lambda>v. word_bytes e 1 (the (case v of CUint8 w \<Rightarrow> Some w | _ \<Rightarrow> None))"
  "intCodec (Int8 e) (\<lambda>v. case v of CInt8 w \<Rightarrow> Some (scast w) | _ \<Rightarrow> None) (\<lambda>i. CInt8 (ucast i))"
  "\<lambda>v. \<exists>i. v = CInt i \<and> fits 1 (sint i)"
  "\<lambda>v. word_bytes e 1 (the (case CInt8 (ucast (un_int v)) of CInt8 w \<Rightarrow> Some w | _ \<Rightarrow> None))" 1 for e
  by (intro slice_codec.intro slice_codec_axioms.intro u8.type_codec_axioms n1.contract)
    (simp_all add: small_alloc, simp add: Int8_def)

interpretation bytes2: slice_codec "Uint8 e" "\<lambda>v. \<exists>w. v = CUint8 w"
  "\<lambda>v. word_bytes e 1 (the (case v of CUint8 w \<Rightarrow> Some w | _ \<Rightarrow> None))"
  "intCodec (Int16 e) (\<lambda>v. case v of CInt16 w \<Rightarrow> Some (scast w) | _ \<Rightarrow> None) (\<lambda>i. CInt16 (ucast i))"
  "\<lambda>v. \<exists>i. v = CInt i \<and> fits 2 (sint i)"
  "\<lambda>v. word_bytes e 2 (the (case CInt16 (ucast (un_int v)) of CInt16 w \<Rightarrow> Some w | _ \<Rightarrow> None))" 2 for e
  by (intro slice_codec.intro slice_codec_axioms.intro u8.type_codec_axioms n2.contract)
    (simp_all add: small_alloc, simp add: Int16_def)

lemma slice_contract:
  assumes "big_laws B" and "0 < n" and "type_codec F FV FE" and "IntN B e n = Ok S" and "n \<le> 8"
    and "2 ^ (8 * n - 1) * type_size (getType F) \<le> maxAlloc"
  shows "\<exists>E. type_codec (slice F S)
    (\<lambda>v. \<exists>vs. v = CSlice (getType F) vs \<and> list_all FV vs \<and> length vs < 2 ^ 63 \<and> fits n (int (length vs))) E"
proof -
  from IntN_contract [OF assms(1,2,4)] obtain SE where
    "type_codec S (\<lambda>v. \<exists>i. v = CInt i \<and> fits n (sint i)) SE" and "fixedSize S = Ok (int n)" "getType S = TInt" by blast
  then have sc: "slice_codec F FV FE S (\<lambda>v. \<exists>i. v = CInt i \<and> fits n (sint i)) SE n"
    using assms(3) IntN_alloc [OF assms(1,2,5,4,6)] by (simp add: slice_codec_def slice_codec_axioms_def)
  have "slice_codec.carries F FV (\<lambda>v. \<exists>i. v = CInt i \<and> fits n (sint i)) n =
    (\<lambda>v. \<exists>vs. v = CSlice (getType F) vs \<and> list_all FV vs \<and> length vs < 2 ^ 63 \<and> fits n (int (length vs)))"
  proof (rule ext)
    fix v
    have "fits n (int k) \<Longrightarrow> k \<le> 256 ^ n" for k
    proof -
      assume "fits n (int k)"
      then have "int k < int (2 ^ (8 * n - 1))" by (simp add: fits_def)
      then have "k < 2 ^ (8 * n - 1)" by (rule of_nat_less_imp_less)
      also have "\<dots> \<le> 2 ^ (8 * n)" by (rule power_increasing) auto
      finally show ?thesis by (simp add: power_mult)
    qed
    then show "slice_codec.carries F FV (\<lambda>v. \<exists>i. v = CInt i \<and> fits n (sint i)) n v \<longleftrightarrow>
      (\<exists>vs. v = CSlice (getType F) vs \<and> list_all FV vs \<and> length vs < 2 ^ 63 \<and> fits n (int (length vs)))"
      by (auto simp: slice_codec.carries_def [OF sc] slice_codec.sint_length [OF sc])
  qed
  with slice_codec.contract [OF sc] show ?thesis by auto
qed

lemma NewString_Ok:
  assumes "NewString B e m = Ok C"
  obtains S where "IntN B e ((bits_len m + 7) div 8) = Ok S" and
    "C = TypeCodec
       (\<lambda>value into. case value of
          CString str \<Rightarrow>
            if length str > m then Err ErrInvalidType
            else encode (slice (Uint8 e) S) (CSlice TUint8 (map CUint8 str)) into
        | _ \<Rightarrow> Err ErrInvalidType)
       (\<lambda>encoded. go_bind (decode (slice (Uint8 e) S) encoded) (\<lambda>(v, remaining).
          case v of
            CSlice _ vs \<Rightarrow>
              (let str = [w. CUint8 w \<leftarrow> vs]
               in if length str > m then Err ErrInvalidEncoding else Ok (CString str, remaining))
          | _ \<Rightarrow> Panic))
       TString (\<lambda>_. Err ErrInvalidType) (Err ErrInvalidType) None None"
  using assms by (auto simp: NewString_def NewSlice_def go_simps split: if_splits)

lemma header_positive: "0 < m \<Longrightarrow> 0 < (bits_len m + 7) div 8"
  by (simp add: bits_len.simps [of m])

lemma type_of_TSlice: "type_of v = TSlice t \<Longrightarrow> \<exists>vs. v = CSlice t vs"
  by (cases v) auto

lemma string_contract:
  assumes "big_laws B" and "0 < m" and "NewString B e m = Ok C" and "m < 2 ^ 48"
  shows "\<exists>E. type_codec C
    (\<lambda>v. \<exists>s. v = CString s \<and> length s \<le> m \<and> length s < 2 ^ 63 \<and> fits ((bits_len m + 7) div 8) (int (length s))) E"
proof -
  let ?n = "(bits_len m + 7) div 8"
  from assms(3) obtain S where S: "IntN B e ?n = Ok S" and C: "C = TypeCodec
       (\<lambda>value into. case value of
          CString str \<Rightarrow>
            if length str > m then Err ErrInvalidType
            else encode (slice (Uint8 e) S) (CSlice TUint8 (map CUint8 str)) into
        | _ \<Rightarrow> Err ErrInvalidType)
       (\<lambda>encoded. go_bind (decode (slice (Uint8 e) S) encoded) (\<lambda>(v, remaining).
          case v of
            CSlice _ vs \<Rightarrow>
              (let str = [w. CUint8 w \<leftarrow> vs]
               in if length str > m then Err ErrInvalidEncoding else Ok (CString str, remaining))
          | _ \<Rightarrow> Panic))
       TString (\<lambda>_. Err ErrInvalidType) (Err ErrInvalidType) None None"
    by (rule NewString_Ok)
  have "bits_len m \<le> 48" using assms(4) by (simp add: bits_len_le)
  then have n: "?n \<le> 6" by simp
  then have "(2 :: nat) ^ (8 * ?n - 1) \<le> 2 ^ 48" by (intro power_increasing) auto
  then have alloc: "2 ^ (8 * ?n - 1) * type_size (getType (Uint8 e)) \<le> maxAlloc"
    by (simp add: word_codec_defs word_codec_def maxAlloc_def)
  from n have "?n \<le> 8" by simp
  from slice_contract [OF assms(1) header_positive [OF assms(2)] u8.type_codec_axioms S this alloc]
  obtain E where sl: "type_codec (slice (Uint8 e) S) (\<lambda>v. \<exists>vs. v = CSlice (getType (Uint8 e)) vs \<and>
      list_all (\<lambda>v. \<exists>w. v = CUint8 w) vs \<and> length vs < 2 ^ 63 \<and> fits ?n (int (length vs))) E" by blast
  have type: "getType (Uint8 e) = TUint8" "getType (slice (Uint8 e) S) = TSlice TUint8"
    by (simp_all add: word_codec_defs word_codec_def slice_def)
  let ?wrap = "\<lambda>s. CSlice TUint8 (map CUint8 s)"
  have ok: "\<exists>vs. ?wrap s = CSlice (getType (Uint8 e)) vs \<and> list_all (\<lambda>v. \<exists>w. v = CUint8 w) vs \<and>
      length vs < 2 ^ 63 \<and> fits ?n (int (length vs))" if "length s < 2 ^ 63" "fits ?n (int (length s))" for s
    using that by (simp add: type list_all_iff)
  have "type_codec C (\<lambda>v. \<exists>s. v = CString s \<and> length s \<le> m \<and> length s < 2 ^ 63 \<and> fits ?n (int (length s)))
      (\<lambda>v. E (?wrap (case v of CString s \<Rightarrow> s)))"
  proof
    fix v into rest k
    assume "\<exists>s. v = CString s \<and> length s \<le> m \<and> length s < 2 ^ 63 \<and> fits ?n (int (length s))"
    then obtain s where v: "v = CString s" "length s \<le> m" and s: "length s < 2 ^ 63" "fits ?n (int (length s))" by blast
    show "encode C v into = Ok (into @ E (?wrap (case v of CString s \<Rightarrow> s)))"
      using type_codec.encodes [OF sl ok [OF s]] v by (simp add: C)
    show "decode C (E (?wrap (case v of CString s \<Rightarrow> s)) @ rest) = Ok (v, rest)"
      using type_codec.decodes [OF sl ok [OF s]] v by (simp add: C Let_def comp_def)
    show "type_of v = getType C" by (simp add: C v)
    show "fixedSize C = Ok k \<Longrightarrow> int (length (E (?wrap (case v of CString s \<Rightarrow> s)))) = k" by (simp add: C)
  next
    fix v bs rest
    show "decode C bs \<noteq> Panic"
    proof (cases "decode (slice (Uint8 e) S) bs")
      case (Ok a)
      then obtain vs where "fst a = CSlice TUint8 vs"
        using type_codec.result [OF sl, of bs "fst a" "snd a"] type type_of_TSlice by fastforce
      with Ok show ?thesis by (cases a) (simp add: C Let_def)
    qed (use type_codec.total [OF sl] in \<open>auto simp: C\<close>)
    assume dec: "decode C bs = Ok (v, rest)"
    then obtain a r where a: "decode (slice (Uint8 e) S) bs = Ok (a, r)" by (auto simp: C go_simps)
    from type_codec.result [OF sl a] obtain vs p where "a = CSlice TUint8 vs" and p: "bs = p @ r"
      using type type_of_TSlice by fastforce
    with dec a have "\<exists>s. v = CString s" "r = rest" by (auto simp: C Let_def split: if_splits)
    with p show "type_of v = getType C \<and> (\<exists>p. bs = p @ rest)" by (auto simp: C)
  qed
  then show ?thesis by blast
qed

section \<open>Structs\<close>

text \<open>The fields of a struct with the contracts of their codecs.\<close>

type_synonym field_contract = "string \<times> typeCodec \<times> (cval \<Rightarrow> bool) \<times> (cval \<Rightarrow> bytes)"

definition field_pair :: "field_contract \<Rightarrow> string \<times> typeCodec" where
  "field_pair = (\<lambda>(n, c, V, E). (n, c))"

definition field_ok :: "field_contract \<Rightarrow> bool" where
  "field_ok = (\<lambda>(n, c, V, E). type_codec c V E)"

fun fields_carry :: "field_contract list \<Rightarrow> cval list \<Rightarrow> bool" where
  "fields_carry [] vs = (vs = [])"
| "fields_carry ((n, c, V, E) # cs) vs = (case vs of [] \<Rightarrow> False | v # vs \<Rightarrow> V v \<and> fields_carry cs vs)"

fun fields_bytes :: "field_contract list \<Rightarrow> cval list \<Rightarrow> bytes" where
  "fields_bytes ((n, c, V, E) # cs) (v # vs) = E v @ fields_bytes cs vs"
| "fields_bytes _ _ = []"

lemma fields_encode:
  assumes "list_all field_ok cs" and "fields_carry cs vs"
  shows "go_foldM (\<lambda>into (field, v). encode field v into) into (zip (map snd (map field_pair cs)) vs) =
           Ok (into @ fields_bytes cs vs)"
  using assms
proof (induction cs vs arbitrary: into rule: fields_carry.induct)
  case (2 n c V E cs vs)
  then obtain v ws where vs: "vs = v # ws" "V v" "fields_carry cs ws" by (auto split: list.splits)
  from 2 have "type_codec c V E" by (simp add: field_ok_def)
  from type_codec.encodes [OF this vs(2)] 2 vs show ?case by (simp add: field_pair_def)
qed (simp add: field_pair_def)

lemma fields_decode:
  assumes "list_all field_ok cs" and "fields_carry cs vs"
  shows "go_foldM decode_field (done, fields_bytes cs vs @ rest) (map snd (map field_pair cs)) = Ok (done @ vs, rest)"
  using assms
proof (induction cs vs arbitrary: "done" rule: fields_carry.induct)
  case (2 n c V E cs vs)
  then obtain v ws where vs: "vs = v # ws" "V v" "fields_carry cs ws" by (auto split: list.splits)
  from 2 have c: "type_codec c V E" by (simp add: field_ok_def)
  from type_codec.decodes [OF c vs(2)] type_codec.typed [OF c vs(2)] 2 vs show ?case
    by (simp add: field_pair_def checked_def decode_field_def)
qed (simp add: field_pair_def)

lemma fields_decode_total:
  assumes "list_all field_ok cs"
  shows "go_foldM decode_field s (map snd (map field_pair cs)) \<noteq> Panic"
proof (rule go_foldM_no_Panic [where P = "\<lambda>_. True"])
  fix s :: "cval list \<times> bytes" and c
  assume "c \<in> set (map snd (map field_pair cs))"
  with assms obtain V E where c: "type_codec c V E"
    by (fastforce simp: field_pair_def field_ok_def list_all_iff)
  show "decode_field s c \<noteq> Panic"
  proof (cases "decode c (snd s)")
    case (Ok a)
    then show ?thesis
      using type_codec.result [OF c, of "snd s" "fst a" "snd a"] by (cases a) (auto simp: checked_def decode_field_def)
  qed (use type_codec.total [OF c] in \<open>auto simp: decode_field_def\<close>)
qed simp_all

lemma fields_decode_prefix:
  assumes "list_all field_ok cs"
    and "go_foldM decode_field (ws, bs) (map snd (map field_pair cs)) = Ok (vs, rest)"
  shows "\<exists>p. bs = p @ rest"
proof -
  have "\<exists>p. bs = p @ snd (vs, rest)"
  proof (rule go_foldM_invariant [OF assms(2), where P = "\<lambda>s. \<exists>p. bs = p @ snd s"])
    fix s c s'
    assume IH: "\<exists>p. bs = p @ snd s" and "c \<in> set (map snd (map field_pair cs))"
      and step: "decode_field s c = Ok s'"
    with assms(1) obtain V E where c: "type_codec c V E"
      by (fastforce simp: field_pair_def field_ok_def list_all_iff)
    from step obtain v where "decode c (snd s) = Ok (v, snd s')"
      by (auto simp: decode_field_def go_simps checked_def split: if_splits)
    from type_codec.result [OF c this] IH show "\<exists>p. bs = p @ snd s'" by (metis append.assoc)
  qed simp
  then show ?thesis by simp
qed

lemma fields_fixed:
  assumes "list_all field_ok cs" and "fields_carry cs vs" and "sum_sizes fixedSize (map field_pair cs) = Ok n"
  shows "int (length (fields_bytes cs vs)) = n"
proof -
  have "int (length (fields_bytes cs vs)) = n - k"
    if "go_foldM (\<lambda>sz (_, field). go_map ((+) sz) (fixedSize field)) k (map field_pair cs) = Ok n" for k
    using that assms(1,2)
  proof (induction cs vs arbitrary: k rule: fields_carry.induct)
    case (2 n' c V E cs vs)
    then obtain v ws where vs: "vs = v # ws" "V v" "fields_carry cs ws" by (auto split: list.splits)
    from "2.prems"(2) have c: "type_codec c V E" by (simp add: field_ok_def)
    from "2.prems"(1) obtain s where s: "fixedSize c = Ok s"
      and rest: "go_foldM (\<lambda>sz (_, field). go_map ((+) sz) (fixedSize field)) (k + s) (map field_pair cs) = Ok n"
      by (auto simp: field_pair_def go_simps)
    from "2.prems"(2) have "list_all field_ok cs" by simp
    from "2.IH" [OF vs(1) rest this vs(3)] type_codec.fixed [OF c vs(2) s] show ?case by (simp add: vs(1))
  qed (simp add: field_pair_def)
  with assms(3) show ?thesis unfolding sum_sizes_def by fastforce
qed

definition struct_types :: "(string \<times> typeCodec) list \<Rightarrow> (string \<times> ctype) list" where
  "struct_types flds = map (map_prod (\<lambda>n. n) getType) flds"

lemma struct_contract:
  assumes "list_all field_ok cs" and "flds = map field_pair cs"
    and "encode S = struct_encode flds" and "decode S = struct_decode flds"
    and "getType S = TPtr (TStruct (struct_types flds))" and "fixedSize S = sum_sizes fixedSize flds"
  shows "type_codec S
    (\<lambda>v. \<exists>vs. v = CPtr (TStruct (struct_types flds)) (Some (CStruct (struct_types flds) vs)) \<and> fields_carry cs vs)
    (\<lambda>v. case v of CPtr _ (Some (CStruct _ vs)) \<Rightarrow> fields_bytes cs vs)"
proof
  fix v into rest n
  assume "\<exists>vs. v = CPtr (TStruct (struct_types flds)) (Some (CStruct (struct_types flds) vs)) \<and> fields_carry cs vs"
  then obtain vs where v: "v = CPtr (TStruct (struct_types flds)) (Some (CStruct (struct_types flds) vs))"
    and vs: "fields_carry cs vs" by blast
  show "encode S v into = Ok (into @ (case v of CPtr _ (Some (CStruct _ vs)) \<Rightarrow> fields_bytes cs vs))"
    using fields_encode [OF assms(1) vs]
    by (simp add: assms(3) struct_encode_def v struct_types_def assms(2))
  show "decode S ((case v of CPtr _ (Some (CStruct _ vs)) \<Rightarrow> fields_bytes cs vs) @ rest) = Ok (v, rest)"
    using fields_decode [OF assms(1) vs]
    by (simp add: assms(4) struct_decode_def Let_def v struct_types_def assms(2))
  show "type_of v = getType S" by (simp add: v assms(5))
  show "fixedSize S = Ok n \<Longrightarrow> int (length (case v of CPtr _ (Some (CStruct _ vs)) \<Rightarrow> fields_bytes cs vs)) = n"
    using fields_fixed [OF assms(1) vs] by (simp add: v assms(2,6))
next
  fix v bs rest
  show "decode S bs \<noteq> Panic"
    using fields_decode_total [OF assms(1)]
    by (simp add: assms(2,4) struct_decode_def Let_def go_simps)
  show "decode S bs = Ok (v, rest) \<Longrightarrow> type_of v = getType S \<and> (\<exists>p. bs = p @ rest)"
    using fields_decode_prefix [OF assms(1)]
    by (auto simp: assms(2,4,5) struct_decode_def struct_types_def Let_def go_simps)
qed

section \<open>Everything the builders make\<close>

text \<open>
  The codecs that can be built and the values each of them carries: every call of a builder of the
  package, with the values below the given ones. Arrays, and slices as long as their header can
  say, have to be within the limit of the runtime on one allocation.
\<close>

inductive codec_built :: "big_lib \<Rightarrow> endian \<Rightarrow> typeCodec \<Rightarrow> (cval \<Rightarrow> bool) \<Rightarrow> bool" for B e where
  "codec_built B e Bool (\<lambda>v. \<exists>b. v = CBool b)"
| "codec_built B e (Int8 e) (\<lambda>v. \<exists>w. v = CInt8 w)"
| "codec_built B e (Int16 e) (\<lambda>v. \<exists>w. v = CInt16 w)"
| "codec_built B e (Int32 e) (\<lambda>v. \<exists>w. v = CInt32 w)"
| "codec_built B e (Int64 e) (\<lambda>v. \<exists>w. v = CInt64 w)"
| "codec_built B e (Uint8 e) (\<lambda>v. \<exists>w. v = CUint8 w)"
| "codec_built B e (Uint16 e) (\<lambda>v. \<exists>w. v = CUint16 w)"
| "codec_built B e (Uint32 e) (\<lambda>v. \<exists>w. v = CUint32 w)"
| "codec_built B e (Uint64 e) (\<lambda>v. \<exists>w. v = CUint64 w)"
| "codec_built B e (Float32 e) (\<lambda>v. \<exists>w. v = CFloat32 w)"
| "codec_built B e (Float64 e) (\<lambda>v. \<exists>w. v = CFloat64 w)"
| "codec_built B e (OracleID e) (\<lambda>v. \<exists>w. v = COracleID w)"
| "codec_built B e Empty (\<lambda>v. v = CEmpty)"
| built_int: "0 < n \<Longrightarrow> IntN B e n = Ok C \<Longrightarrow> codec_built B e C (\<lambda>v. \<exists>i. v = CInt i \<and> fits n (sint i))"
| built_uint: "UintN B e n = Ok C \<Longrightarrow> codec_built B e C (\<lambda>v. \<exists>i. v = CUint i \<and> uint i < 256 ^ n)"
| built_signed: "0 < n \<Longrightarrow> NewBigInt B e n True = Ok C \<Longrightarrow>
    codec_built B e C (\<lambda>v. \<exists>i. v = CBigInt (Some i) \<and> fits n i)"
| built_unsigned: "NewBigInt B e n False = Ok C \<Longrightarrow>
    codec_built B e C (\<lambda>v. \<exists>i. v = CBigInt (Some i) \<and> 0 \<le> i \<and> i < 256 ^ n)"
| built_string: "0 < m \<Longrightarrow> m < 2 ^ 48 \<Longrightarrow> NewString B e m = Ok C \<Longrightarrow> codec_built B e C
    (\<lambda>v. \<exists>s. v = CString s \<and> length s \<le> m \<and> length s < 2 ^ 63 \<and> fits ((bits_len m + 7) div 8) (int (length s)))"
| built_pointer: "codec_built B e C V \<Longrightarrow>
    codec_built B e (NotNilPointer C) (\<lambda>v. \<exists>w. v = CPtr (getType C) (Some w) \<and> V w)"
| built_array: "codec_built B e C V \<Longrightarrow> NewArray n (Some C) = Ok A \<Longrightarrow> can_make (getType C) n \<Longrightarrow>
    codec_built B e A (\<lambda>v. \<exists>vs. v = CArray (getType C) vs \<and> length vs = n \<and> list_all V vs)"
| built_slice: "codec_built B e C V \<Longrightarrow> 0 < n \<Longrightarrow> n \<le> 8 \<Longrightarrow> IntN B e n = Ok S \<Longrightarrow>
    2 ^ (8 * n - 1) * type_size (getType C) \<le> maxAlloc \<Longrightarrow> NewSlice (Some C) (Some S) = Ok A \<Longrightarrow>
    codec_built B e A (\<lambda>v. \<exists>vs. v = CSlice (getType C) vs \<and> list_all V vs \<and> length vs < 2 ^ 63 \<and>
      fits n (int (length vs)))"
| built_struct: "length Vs = length given \<Longrightarrow> (\<And>i. i < length given \<Longrightarrow> codec_built B e (snd (given ! i)) (Vs ! i)) \<Longrightarrow>
    NewStructCodec given = Ok S \<Longrightarrow>
    codec_built B e S (\<lambda>v. \<exists>fts vs. v = CPtr (TStruct fts) (Some (CStruct fts vs)) \<and> getType S = TPtr (TStruct fts) \<and>
      length vs = length given \<and>
      (\<forall>i < length given. if is_pointer (getType (snd (given ! i))) then (Vs ! i) (vs ! i)
         else \<exists>w. vs ! i = CPtr (getType (snd (given ! i))) (Some w) \<and> (Vs ! i) w))"

lemma fields_carry_iff:
  "fields_carry cs vs \<longleftrightarrow> length vs = length cs \<and> (\<forall>i < length cs. fst (snd (snd (cs ! i))) (vs ! i))"
proof (induction cs vs rule: fields_carry.induct)
  case (2 n c V E cs vs)
  then show ?case by (cases vs) (auto simp: less_Suc_eq_0_disj)
qed simp

lemmas basic_contracts = bl.type_codec_axioms i8.type_codec_axioms i16.type_codec_axioms i32.type_codec_axioms
  i64.type_codec_axioms u8.type_codec_axioms u16.type_codec_axioms u32.type_codec_axioms u64.type_codec_axioms
  f32.type_codec_axioms f64.type_codec_axioms oid.type_codec_axioms em.type_codec_axioms

text \<open>A field that is not a pointer is wrapped, and its values with it.\<close>

lemma built_field:
  assumes "type_codec c V E"
  shows "\<exists>E'. type_codec (if is_pointer (getType c) then c else NotNilPointer c)
    (\<lambda>v. if is_pointer (getType c) then V v else \<exists>w. v = CPtr (getType c) (Some w) \<and> V w) E'"
  using assms type_codec.pointer_contract [OF assms] by (cases "is_pointer (getType c)") auto

lemma built_struct_contract:
  assumes "length Vs = length given" and "\<And>i. i < length given \<Longrightarrow> \<exists>E. type_codec (snd (given ! i)) (Vs ! i) E"
    and "NewStructCodec given = Ok S"
  shows "\<exists>E. type_codec S (\<lambda>v. \<exists>fts vs. v = CPtr (TStruct fts) (Some (CStruct fts vs)) \<and>
      getType S = TPtr (TStruct fts) \<and> length vs = length given \<and>
      (\<forall>i < length given. if is_pointer (getType (snd (given ! i))) then (Vs ! i) (vs ! i)
         else \<exists>w. vs ! i = CPtr (getType (snd (given ! i))) (Some w) \<and> (Vs ! i) w)) E"
proof -
  let ?wrap = "\<lambda>c. if is_pointer (getType c) then c else NotNilPointer c"
  let ?flds = "map (map_prod (\<lambda>n. n) ?wrap) given"
  let ?V = "\<lambda>i v. if is_pointer (getType (snd (given ! i))) then (Vs ! i) v
    else \<exists>w. v = CPtr (getType (snd (given ! i))) (Some w) \<and> (Vs ! i) w"
  have "\<forall>i < length given. \<exists>E. type_codec (?wrap (snd (given ! i))) (?V i) E"
    using assms(2) built_field by blast
  then obtain Es where "\<forall>i < length given. type_codec (?wrap (snd (given ! i))) (?V i) (Es i)"
    unfolding choice_iff' by blast
  then have Es: "\<And>i. i < length given \<Longrightarrow> type_codec (?wrap (snd (given ! i))) (?V i) (Es i)" by blast
  define cs where "cs = map (\<lambda>i. (fst (given ! i), ?wrap (snd (given ! i)), ?V i, Es i)) [0..<length given]"
  have ok: "list_all field_ok cs" using Es by (auto simp: cs_def list_all_iff field_ok_def)
  have flds: "?flds = map field_pair cs"
    by (rule nth_equalityI) (auto simp: cs_def field_pair_def map_prod_def split_beta)
  have carry: "fields_carry cs vs \<longleftrightarrow> length vs = length given \<and> (\<forall>i < length given. ?V i (vs ! i))" for vs
    by (auto simp: fields_carry_iff cs_def)
  have S: "encode S = struct_encode ?flds" "decode S = struct_decode ?flds"
    "getType S = TPtr (TStruct (struct_types ?flds))" "fixedSize S = sum_sizes fixedSize ?flds"
    using assms(3) by (auto simp: NewStructCodec_def Let_def struct_types_def split: if_splits)
  have "(\<lambda>v. \<exists>fts vs. v = CPtr (TStruct fts) (Some (CStruct fts vs)) \<and> getType S = TPtr (TStruct fts) \<and>
      length vs = length given \<and> (\<forall>i < length given. ?V i (vs ! i))) =
    (\<lambda>v. \<exists>vs. v = CPtr (TStruct (struct_types ?flds)) (Some (CStruct (struct_types ?flds) vs)) \<and> fields_carry cs vs)"
    unfolding carry S(3) by auto
  with struct_contract [OF ok flds S] show ?thesis by metis
qed

lemma built_contract:
  assumes "big_laws B" and "codec_built B e C V"
  shows "\<exists>E. type_codec C V E"
  using assms(2)
proof (induction rule: codec_built.induct)
  case (built_int n C)
  then show ?case using IntN_contract(1) [OF assms(1)] by blast
next
  case (built_uint n C)
  then show ?case using UintN_contract by blast
next
  case (built_signed n C)
  then show ?case using signed_bigint_contract(1) [OF assms(1)] by blast
next
  case (built_unsigned n C)
  then show ?case using unsigned_bigint_contract(1) by blast
next
  case (built_string m C)
  then show ?case using string_contract [OF assms(1)] by blast
next
  case (built_pointer C V)
  then show ?case using type_codec.pointer_contract by blast
next
  case (built_array C V n A)
  then show ?case using type_codec.array_contract by blast
next
  case (built_slice C V n S A)
  from built_slice.hyps have "A = slice C S" by (auto simp: NewSlice_def split: if_splits)
  with built_slice slice_contract [OF assms(1)] show ?case by blast
next
  case (built_struct Vs given S)
  then show ?case by (intro built_struct_contract) auto
qed (use basic_contracts in blast)+

section \<open>Properties\<close>


text \<open>
  C34. Decoding is safe on bytes from outside. A codec that the package can build never panics on any
  input; what it returns has the codec's type, and the bytes it leaves are a suffix of the input.
\<close>

theorem codec_decode_safe:
  assumes "big_laws B" and "codec_built B e C V"
  shows "decode C bs \<noteq> Panic \<and>
    (\<forall>v rest. decode C bs = Ok (v, rest) \<longrightarrow> type_of v = getType C \<and> (\<exists>p. bs = p @ rest))"
proof -
  from built_contract [OF assms] obtain E where c: "type_codec C V E" by blast
  from type_codec.total [OF c] type_codec.result [OF c] show ?thesis by blast
qed

text \<open>The header of a string has the bytes of the longest length, but is a signed integer.\<close>

lemma header_wraps:
  assumes "128 \<le> n" and "n \<le> 255"
  shows "sint (scast (ucast (of_nat n :: 64 word) :: 8 word) :: 64 word) < 0"
proof -
  have "take_bit 64 n = n" using assms by (intro take_bit_nat_eq_self) auto
  then have "(ucast (of_nat n :: 64 word) :: 8 word) = word_of_int (int n)"
    by (simp add: unsigned_of_nat)
  then have eight: "sint (ucast (of_nat n :: 64 word) :: 8 word) = signed_take_bit 7 (int n)"
    using sint_sbintrunc' [of "int n", where 'a = 8] by simp
  have "signed_take_bit 7 (int n) = int n - 256"
    using assms signed_take_bit_int_eq_self [of 7 "int n - 256"]
      signed_take_bit_add [of 7 "int n" "-256"]
    by (simp add: signed_take_bit_eq_take_bit_shift take_bit_eq_mod)
  moreover have "sint (scast w :: 64 word) = sint w" for w :: "8 word"
    using sint_greater_eq [of w] sint_less [of w] by (simp add: signed_scast_eq signed_take_bit_int_eq_self_iff)
  ultimately show ?thesis using eight assms by simp
qed

text \<open>
  A string codec can encode strings that it cannot decode. The header of a string codec with a
  maximal length of at most 255 is one byte and is read as a signed integer: a string of 128 bytes
  or more, within the maximal length, is encoded without an error, and decoding the result fails
  with a negative length.
\<close>

lemma long_string_undecodable:
  assumes "NewString B e m = Ok C" and "128 \<le> length s" and "length s \<le> m" and "m \<le> 255"
  shows "\<exists>enc. encode C (CString s) [] = Ok enc \<and> decode C enc = Err ErrInvalidEncoding"
proof -
  have "bits_len m \<le> 8" "\<not> bits_len m \<le> 7" using assms(2-4) by (simp_all add: bits_len_le)
  then have header: "(bits_len m + 7) div 8 = 1" by simp
  let ?S = "intCodec (Int8 e) (\<lambda>v. case v of CInt8 w \<Rightarrow> Some (scast w) | _ \<Rightarrow> None) (\<lambda>i. CInt8 (ucast i))"
  have IntN: "IntN B e ((bits_len m + 7) div 8) = Ok ?S" by (simp add: header IntN_def)
  let ?w = "ucast (of_nat (length s) :: 64 word) :: 8 word"
  have enc: "encode (slice (Uint8 e) ?S) (CSlice TUint8 (map CUint8 s)) [] =
      Ok (word_bytes e 1 ?w @ concat (map (\<lambda>v. word_bytes e 1 (the (case v of CUint8 w \<Rightarrow> Some w | _ \<Rightarrow> None))) (map CUint8 s)))"
    using assms(3,4) u8.EncodeEach_Ok [of "map CUint8 s" e "word_bytes e 1 ?w"]
    by (simp add: slice_def intCodec_def Int8_def word_codec_def list_all_iff)
  have dec: "decode (slice (Uint8 e) ?S) (word_bytes e 1 ?w @ bs) = Err ErrInvalidEncoding" for bs
    using header_wraps [of "length s"] assms(2-4) bytes_word_word_bytes [of 1 e ?w]
    by (simp add: slice_def intCodec_def Int8_def word_codec_def SafeDecode_append)
  from assms(1) IntN show ?thesis
    using enc dec assms(3) by (elim NewString_Ok) (simp add: header)
qed

text \<open>
  A header of eight bytes lets a message of eight bytes stop the program. The slice is made with
  the length that the header says before any element is read: for elements that take up memory there
  are eight bytes on which decoding panics.
\<close>

lemma wide_header_panics:
  assumes "IntN B e 8 = Ok S" and "NewSlice (Some F) (Some S) = Ok C" and "0 < type_size (getType F)"
  shows "\<exists>bs. length bs = 8 \<and> decode C bs = Panic"
proof -
  let ?n = "2 ^ 62 :: 64 word" and ?S = "intCodec (Int64 e) (\<lambda>v. case v of CInt64 w \<Rightarrow> Some w | _ \<Rightarrow> None) CInt64"
  from assms(1,2) have C: "C = slice F ?S" by (auto simp: IntN_def NewSlice_def split: if_splits)
  have huge: "\<not> can_make (getType F) (2 ^ 62)" using assms(3) by (simp add: can_make_def maxAlloc_def)
  have sint: "sint ?n = 2 ^ 62" by simp
  have header: "decode ?S (word_bytes e 8 ?n) = Ok (CInt ?n, [])"
    using bytes_word_word_bytes [of 8 e ?n]
    by (simp add: intCodec_def Int64_def word_codec_def SafeDecode_append [of "word_bytes e 8 ?n" 8 "[]", simplified])
  have "decode C (word_bytes e 8 ?n) = Panic"
    using huge header sint by (simp add: C slice_def nat_power_eq)
  then show ?thesis by (intro exI [of _ "word_bytes e 8 ?n"]) simp
qed

section \<open>An instance\<close>

text \<open>Two's complement, big-endian.\<close>

definition twos_lib :: big_lib where
  "twos_lib = \<lparr>MaxSize = 128,
     SerializeSigned = (\<lambda>n i. if fits n i then Some (be_fixed n (nat (i mod 256 ^ n))) else None),
     DeserializeSigned = (\<lambda>n b.
       if n = length b \<and> 0 < n
       then Some (if be_nat b < 2 ^ (8 * n - 1) then int (be_nat b) else int (be_nat b) - 256 ^ n) else None)\<rparr>"

lemma twos_mod:
  assumes "0 < n" and "fits n i"
  shows "i mod 256 ^ n = (if 0 \<le> i then i else i + 256 ^ n)" and "i mod 256 ^ n < 2 ^ (8 * n - 1) \<longleftrightarrow> 0 \<le> i"
proof -
  have pow: "(256 :: int) ^ n = 2 * 2 ^ (8 * n - 1)"
    using assms(1) by (cases n) (simp_all add: power_mult power_add)
  show mod: "i mod 256 ^ n = (if 0 \<le> i then i else i + 256 ^ n)"
  proof (cases "0 \<le> i")
    case False
    have "i mod 256 ^ n = (i + 256 ^ n) mod 256 ^ n" by simp
    also have "\<dots> = i + 256 ^ n" using False assms(2) by (intro mod_pos_pos_trivial) (auto simp: fits_def pow)
    finally show ?thesis using False by simp
  qed (use assms(2) in \<open>simp add: fits_def pow\<close>)
  show "i mod 256 ^ n < 2 ^ (8 * n - 1) \<longleftrightarrow> 0 \<le> i"
    unfolding mod using assms(2) pow by (auto simp: fits_def)
qed

lemma be_nat_less: "be_nat bs < 256 ^ length bs"
proof (induction bs rule: rev_induct)
  case (snoc b bs)
  have "unat b < 256" using unsigned_less [of b, where 'a = nat] by simp
  with snoc show ?case by simp
qed simp

lemma twos_range:
  assumes "b \<noteq> []"
  shows "be_nat b < 2 ^ (8 * length b - 1) \<Longrightarrow> fits (length b) (int (be_nat b))"
    and "\<not> be_nat b < 2 ^ (8 * length b - 1) \<Longrightarrow> fits (length b) (int (be_nat b) - 256 ^ length b)"
proof -
  have pow: "(256 :: nat) ^ length b = 2 * 2 ^ (8 * length b - 1)"
    using assms by (cases b) (simp_all add: power_mult power_add)
  have less: "int (be_nat b) < int (2 * 2 ^ (8 * length b - 1))"
    using be_nat_less [of b] unfolding pow by (rule of_nat_less_iff [THEN iffD2])
  have pow': "(256 :: int) ^ length b = 2 * 2 ^ (8 * length b - 1)"
    using arg_cong [OF pow, of int] by simp
  show "fits (length b) (int (be_nat b))" if "be_nat b < 2 ^ (8 * length b - 1)"
  proof -
    from that have "int (be_nat b) < int (2 ^ (8 * length b - 1))" by (rule of_nat_less_iff [THEN iffD2])
    moreover have "- (2 ^ (8 * length b - 1)) \<le> int (be_nat b)" by (rule order_trans [of _ 0]) simp_all
    ultimately show ?thesis by (simp add: fits_def)
  qed
  show "fits (length b) (int (be_nat b) - 256 ^ length b)" if "\<not> be_nat b < 2 ^ (8 * length b - 1)"
  proof -
    from that have "int (2 ^ (8 * length b - 1)) \<le> int (be_nat b)" unfolding not_less by (rule of_nat_le_iff [THEN iffD2])
    with less show ?thesis unfolding pow' by (simp add: fits_def)
  qed
qed

lemma twos_laws: "big_laws twos_lib"
proof -
  have "DeserializeSigned twos_lib n (be_fixed n (nat (i mod 256 ^ n))) = Some i" if n: "0 < n" "fits n i" for n i
  proof -
    let ?b = "be_fixed n (nat (i mod 256 ^ n))"
    have "i mod 256 ^ n < 256 ^ n" by simp
    then have "nat (i mod 256 ^ n) < 256 ^ n" by (simp add: nat_less_iff)
    then have u: "int (be_nat ?b) = i mod 256 ^ n" by simp
    have "be_nat ?b < 2 ^ (8 * n - 1) \<longleftrightarrow> int (be_nat ?b) < 2 ^ (8 * n - 1)"
      by (metis of_nat_less_iff of_nat_numeral of_nat_power)
    also have "\<dots> \<longleftrightarrow> 0 \<le> i" unfolding u by (rule twos_mod(2) [OF n])
    finally show ?thesis
      using n(1) twos_mod(1) [OF n] u by (cases "0 \<le> i") (simp_all add: twos_lib_def del: be_nat_be_fixed)
  qed
  moreover have "case DeserializeSigned twos_lib n b of None \<Rightarrow> False | Some i \<Rightarrow> fits n i" if "0 < n" "length b = n" for n b
    using twos_range [of b] that by (auto simp: twos_lib_def)
  ultimately show ?thesis by (auto simp: big_laws_def, simp_all add: twos_lib_def)
qed

text \<open>A struct with an integer of three bytes and a list of booleans.\<close>

definition sample_header :: typeCodec where
  "sample_header = intCodec (Int8 BigEndian)
     (\<lambda>v. case v of CInt8 w \<Rightarrow> Some (scast w) | _ \<Rightarrow> None) (\<lambda>i. CInt8 (ucast i))"

definition sample_fields :: "(string \<times> typeCodec) list" where
  "sample_fields = [(''A'', Uint16 BigEndian), (''B'', slice Bool sample_header)]"

definition sample_struct :: typeCodec where
  "sample_struct = (case NewStructCodec sample_fields of Ok c \<Rightarrow> c)"

definition sample_value :: cval where
  "sample_value = (let fts = [(''A'', TPtr TUint16), (''B'', TPtr (TSlice TBool))]
     in CPtr (TStruct fts) (Some (CStruct fts
          [CPtr TUint16 (Some (CUint16 515)), CPtr (TSlice TBool) (Some (CSlice TBool [CBool True, CBool False]))])))"

lemma sample_built:
  obtains V where "codec_built twos_lib BigEndian sample_struct V" and "V sample_value"
proof -
  have header: "IntN twos_lib BigEndian 1 = Ok sample_header" by (simp add: IntN_def sample_header_def)
  have sl: "NewSlice (Some Bool) (Some sample_header) = Ok (slice Bool sample_header)"
    by (simp add: NewSlice_def sample_header_def)
  let ?Vs = "[\<lambda>v. \<exists>w. v = CUint16 w, \<lambda>v. \<exists>vs. v = CSlice (getType Bool) vs \<and> list_all (\<lambda>v. \<exists>b. v = CBool b) vs \<and>
    length vs < 2 ^ 63 \<and> fits 1 (int (length vs))]"
  have S: "NewStructCodec sample_fields = Ok sample_struct"
    by (simp add: sample_struct_def NewStructCodec_def sample_fields_def Let_def field_name_def)
  have "codec_built twos_lib BigEndian (snd (sample_fields ! i)) (?Vs ! i)" if "i < length sample_fields" for i
    using that codec_built.intros(7) [of twos_lib BigEndian]
      built_slice [OF codec_built.intros(1) _ _ header _ sl]
    by (auto simp: sample_fields_def less_Suc_eq Bool_def maxAlloc_def)
  note built = built_struct [where Vs = ?Vs, OF _ this S]
  have two: "i < length sample_fields \<longleftrightarrow> i = 0 \<or> i = Suc 0" for i
    by (auto simp: sample_fields_def)
  have type: "getType sample_struct = TPtr (TStruct [(''A'', TPtr TUint16), (''B'', TPtr (TSlice TBool))])"
    "getType (Uint16 BigEndian) = TUint16" "getType (slice Bool sample_header) = TSlice TBool" "getType Bool = TBool"
    by (simp_all add: sample_struct_def NewStructCodec_def sample_fields_def Let_def field_name_def word_codec_defs
        word_codec_def slice_def Bool_def NotNilPointer_def)
  show thesis
    by (rule that [OF built])
      (auto simp: two, auto simp: sample_fields_def sample_value_def type Let_def fits_def)
qed



theorem codec_decode_safe_witness: "decode sample_struct [1, 2, 250] \<noteq> Panic"
  by (rule sample_built) (use codec_decode_safe [OF twos_laws] in blast)

lemma long_string_undecodable_witness:
  "\<exists>C. NewString twos_lib BigEndian 255 = Ok C \<and>
     (\<exists>enc. encode C (CString (replicate 200 65)) [] = Ok enc \<and> decode C enc = Err ErrInvalidEncoding)"
proof -
  have "bits_len 255 \<le> 8" "\<not> bits_len 255 \<le> 7" unfolding bits_len_le by simp_all
  then have "(bits_len 255 + 7) div 8 = 1" by simp
  then obtain C where C: "NewString twos_lib BigEndian 255 = Ok C"
    by (simp add: NewString_def IntN_def NewSlice_def)
  from long_string_undecodable [OF C, of "replicate 200 65"] C show ?thesis by simp
qed

lemma wide_header_panics_witness:
  "\<exists>S C. IntN twos_lib BigEndian 8 = Ok S \<and> NewSlice (Some Bool) (Some S) = Ok C \<and>
     (\<exists>bs. length bs = 8 \<and> decode C bs = Panic)"
proof -
  obtain S where S: "IntN twos_lib BigEndian 8 = Ok S" by (simp add: IntN_def)
  then obtain C where C: "NewSlice (Some Bool) (Some S) = Ok C" by (auto simp: IntN_def NewSlice_def)
  from wide_header_panics [OF S C] S C show ?thesis by (simp add: Bool_def)
qed

end
