(* ===== verification/MerkleMulti.thy ===== *)
theory MerkleMulti
  imports Prelude "HOL-Library.Char_ord" "HOL-Library.List_Lexorder"
begin

text \<open>
  Merkle trees with proofs for several leaves at once (\<^verbatim>\<open>pkg/merklemulti/merkle_multi.go\<close>) and the
  hasher they are used with (\<^verbatim>\<open>pkg/hashutil\<close>).

  A hasher is an internal hash function and the hash that pads a layer of odd length. Hashes are of
  any type: the code only compares and hashes them. \<^verbatim>\<open>VerifyComputeRoot\<close> works on an array with
  three positions; reading outside a slice panics. Indices are Go integers, which may be negative.
\<close>

section \<open>Hashers\<close>

record 'h Hasher =
  Hash :: "bytes \<Rightarrow> 'h"
  HashInternal :: "'h \<Rightarrow> 'h \<Rightarrow> 'h"
  ZeroHash :: 'h

text \<open>\<^verbatim>\<open>bytes.Compare\<close> orders byte strings lexicographically.\<close>

fun bytes_less :: "bytes \<Rightarrow> bytes \<Rightarrow> bool" where
  "bytes_less [] bs = (bs \<noteq> [])"
| "bytes_less (a # as) [] = False"
| "bytes_less (a # as) (b # bs) = (a < b \<or> (a = b \<and> bytes_less as bs))"

definition NewKeccak :: "(bytes \<Rightarrow> bytes) \<Rightarrow> bytes Hasher" where
  "NewKeccak keccak256 =
     (let separator = replicate 31 0 @ [1]
      in \<lparr>Hash = keccak256, HashInternal = (\<lambda>a b.
            if bytes_less a b then keccak256 (separator @ a @ b) else keccak256 (separator @ b @ a)),
          ZeroHash = replicate 32 0xFF\<rparr>)"

section \<open>Building a tree\<close>

datatype merkle_error =
    NoLeaves | AuthIndexOutOfBounds int | EmptyProof | TooLong | TooManyHashes | FlagsMismatch | ProofFlagsMismatch
  | NotAllUsed

text \<open>The pairs of a layer of even length.\<close>

fun hash_pairs :: "('h \<Rightarrow> 'h \<Rightarrow> 'h) \<Rightarrow> 'h list \<Rightarrow> 'h list" where
  "hash_pairs f (a # b # hs) = f a b # hash_pairs f hs"
| "hash_pairs f hs = []"

definition computeNextLayer :: "'h Hasher \<Rightarrow> 'h list \<Rightarrow> 'h list \<times> 'h list" where
  "computeNextLayer H layer =
     (if length layer = 1 then (layer, layer)
      else let padded = (if length layer mod 2 \<noteq> 0 then layer @ [ZeroHash H] else layer)
           in (padded, hash_pairs (HashInternal H) padded))"

text \<open>The loop of \<^verbatim>\<open>NewTree\<close>: each layer is replaced by its padded form once the next one is made.\<close>

lemma length_hash_pairs: "length (hash_pairs f hs) = length hs div 2"
  by (induction f hs rule: hash_pairs.induct) auto

function build_layers :: "'h Hasher \<Rightarrow> 'h list \<Rightarrow> 'h list list" where
  "build_layers H layer =
     (if length layer > 1
      then (case computeNextLayer H layer of (padded, nextLayer) \<Rightarrow> padded # build_layers H nextLayer)
      else [layer])"
  by pat_completeness auto

termination
  by (relation "measure (\<lambda>(H, layer). length layer)")
    (auto simp: computeNextLayer_def length_hash_pairs Let_def split: if_splits)

declare build_layers.simps [simp del]

definition NewTree :: "'h Hasher \<Rightarrow> 'h list \<Rightarrow> (merkle_error, 'h list list) go" where
  "NewTree H leafHashes = (if leafHashes = [] then Err NoLeaves else Ok (build_layers H leafHashes))"

definition Root :: "'h list list \<Rightarrow> 'h" where
  "Root layers = hd (last layers)"

section \<open>Proving\<close>

definition parentIndex :: "int \<Rightarrow> int" where
  "parentIndex idx = sgn idx * (\<bar>idx\<bar> div 2)"

definition siblingIndex :: "int \<Rightarrow> int" where
  "siblingIndex idx = xor idx 1"

definition SourceFromHashes :: bool where "SourceFromHashes = True"

definition SourceFromProof :: bool where "SourceFromProof = False"

text \<open>The loop over the indices: the indices of the next layer, those of the proof, the flags.\<close>

fun pair_indices :: "int list \<Rightarrow> int list \<times> int list \<times> bool list" where
  "pair_indices [] = ([], [], [])"
| "pair_indices (x # xs) =
     (case xs of
        y # ys \<Rightarrow>
          if y = siblingIndex x
          then (case pair_indices ys of (nxt, auth, flags) \<Rightarrow> (parentIndex x # nxt, auth, SourceFromHashes # flags))
          else (case pair_indices xs of (nxt, auth, flags) \<Rightarrow>
                  (parentIndex x # nxt, siblingIndex x # auth, SourceFromProof # flags))
      | [] \<Rightarrow> ([parentIndex x], [siblingIndex x], [SourceFromProof]))"

record 'h singleLayerProof =
  nextIndices :: "int list"
  subProof :: "'h list"
  layerFlags :: "bool list"

definition proveSingleLayer :: "'h list \<Rightarrow> int list \<Rightarrow> (merkle_error, 'h singleLayerProof) go" where
  "proveSingleLayer layer indices =
     (case pair_indices indices of (nxt, auth, flags) \<Rightarrow>
        go_map (\<lambda>sub. \<lparr>nextIndices = nxt, subProof = sub, layerFlags = flags\<rparr>)
          (go_mapM (\<lambda>i. if i < 0 \<or> i \<ge> int (length layer) then Err (AuthIndexOutOfBounds i)
                        else Ok (layer ! nat i)) auth))"

record 'h Proof =
  Hashes :: "'h list"
  SourceFlags :: "bool list"

definition countSourceFlags :: "bool \<Rightarrow> 'h Proof \<Rightarrow> nat" where
  "countSourceFlags b p = length (filter (\<lambda>flag. flag = b) (SourceFlags p))"

text \<open>The loop of \<^verbatim>\<open>Prove\<close>, which goes over every layer but the last.\<close>

definition prove_layer :: "int list \<times> 'h Proof \<Rightarrow> 'h list \<Rightarrow> (merkle_error, int list \<times> 'h Proof) go" where
  "prove_layer = (\<lambda>(indices, proof) layer.
     go_map (\<lambda>res. (nextIndices res,
        \<lparr>Hashes = Hashes proof @ subProof res, SourceFlags = SourceFlags proof @ layerFlags res\<rparr>))
       (proveSingleLayer layer indices))"

definition Prove :: "'h list list \<Rightarrow> int list \<Rightarrow> (merkle_error, 'h Proof) go" where
  "Prove layers indices =
     go_map snd (go_foldM prove_layer (indices, \<lparr>Hashes = [], SourceFlags = []\<rparr>) (butlast layers))"

section \<open>Verifying\<close>

definition MaxNumberTreeLeaves :: nat where "MaxNumberTreeLeaves = 256"

definition at :: "'a list \<Rightarrow> nat \<Rightarrow> ('e, 'a) go" where
  "at xs i = (if i < length xs then Ok (xs ! i) else Panic)"

record 'h verifier =
  vHashes :: "'h list"
  vLeafPos :: nat
  vHashPos :: nat
  vProofPos :: nat

text \<open>The next hash: a leaf while there are any, then the computed hashes in order.\<close>

definition next_hash :: "'h list \<Rightarrow> 'h verifier \<Rightarrow> (merkle_error, 'h \<times> 'h verifier) go" where
  "next_hash leafHashes st =
     (if vLeafPos st < length leafHashes
      then go_map (\<lambda>h. (h, st\<lparr>vLeafPos := vLeafPos st + 1\<rparr>)) (at leafHashes (vLeafPos st))
      else go_map (\<lambda>h. (h, st\<lparr>vHashPos := vHashPos st + 1\<rparr>)) (at (vHashes st) (vHashPos st)))"

definition verify_step ::
    "'h Hasher \<Rightarrow> 'h list \<Rightarrow> 'h list \<Rightarrow> 'h verifier \<Rightarrow> nat \<times> bool \<Rightarrow> (merkle_error, 'h verifier) go" where
  "verify_step H leafHashes proofHashes st = (\<lambda>(i, flag).
     go_bind (if flag = SourceFromHashes then next_hash leafHashes st
              else go_map (\<lambda>h. (h, st\<lparr>vProofPos := vProofPos st + 1\<rparr>)) (at proofHashes (vProofPos st)))
       (\<lambda>(a, st). go_bind (next_hash leafHashes st) (\<lambda>(b, st).
         if i < length (vHashes st) then Ok (st\<lparr>vHashes := (vHashes st)[i := HashInternal H a b]\<rparr>) else Panic)))"

text \<open>\<open>nil\<close> is the zero value of the hash type, which the array is filled with first.\<close>

definition VerifyComputeRoot ::
    "'h Hasher \<Rightarrow> 'h \<Rightarrow> 'h list \<Rightarrow> 'h Proof \<Rightarrow> (merkle_error, 'h) go" where
  "VerifyComputeRoot H nil leafHashes proof =
     (let leavesLength = length leafHashes; proofsLength = length (Hashes proof);
          totalHashes = leavesLength + proofsLength - 1
      in if leavesLength = 0 \<and> proofsLength = 0 then Err EmptyProof
         else if leavesLength > MaxNumberTreeLeaves + 1 \<or> proofsLength > MaxNumberTreeLeaves + 1 then Err TooLong
         else if totalHashes > MaxNumberTreeLeaves then Err TooManyHashes
         else if totalHashes \<noteq> length (SourceFlags proof) then Err FlagsMismatch
         else if totalHashes = 0 then at leafHashes 0
         else if countSourceFlags SourceFromProof proof \<noteq> proofsLength then Err ProofFlagsMismatch
         else go_bind (at leafHashes 0) (\<lambda>first.
              go_bind (go_foldM (verify_step H leafHashes (Hashes proof))
                \<lparr>vHashes = replicate totalHashes nil @ replicate totalHashes first,
                 vLeafPos = 0, vHashPos = 0, vProofPos = 0\<rparr> (enumerate 0 (SourceFlags proof))) (\<lambda>st.
              if vHashPos st \<noteq> totalHashes - 1 \<or> vLeafPos st \<noteq> leavesLength \<or> vProofPos st \<noteq> proofsLength
              then Err NotAllUsed
              else at (vHashes st) (totalHashes - 1))))"

section \<open>Verification as a queue\<close>

text \<open>
  What the three positions amount to: one queue that starts as the leaves and to which every
  computed hash is appended. A flag takes two hashes from the queue, or one from the queue and one
  from the proof.
\<close>

fun queue_verify :: "('h \<Rightarrow> 'h \<Rightarrow> 'h) \<Rightarrow> bool list \<Rightarrow> 'h list \<Rightarrow> 'h list \<Rightarrow> 'h list option" where
  "queue_verify f [] ps q = (if ps = [] then Some q else None)"
| "queue_verify f (True # flags) ps (a # b # q) = queue_verify f flags ps (q @ [f a b])"
| "queue_verify f (False # flags) (p # ps) (b # q) = queue_verify f flags ps (q @ [f p b])"
| "queue_verify f _ _ _ = None"

section \<open>The array refines the queue\<close>

text \<open>The queue of a verifier before step \<open>i\<close>.\<close>

definition queue_of :: "'h list \<Rightarrow> nat \<Rightarrow> 'h verifier \<Rightarrow> 'h list" where
  "queue_of leaves i st = drop (vLeafPos st) leaves @ map ((!) (vHashes st)) [vHashPos st..<i]"

definition verifier_inv :: "'h list \<Rightarrow> nat \<Rightarrow> nat \<Rightarrow> 'h verifier \<Rightarrow> bool" where
  "verifier_inv leaves tot i st \<longleftrightarrow>
     vLeafPos st \<le> length leaves \<and> (vLeafPos st < length leaves \<longrightarrow> vHashPos st = 0) \<and> vHashPos st \<le> i \<and>
     i \<le> tot \<and> tot \<le> length (vHashes st)"

lemma next_hash_queue:
  assumes "verifier_inv leaves tot i st" and "queue_of leaves i st = a # q"
  obtains st' where "next_hash leaves st = Ok (a, st')" and "verifier_inv leaves tot i st'"
    and "queue_of leaves i st' = q" and "vHashes st' = vHashes st" and "vProofPos st' = vProofPos st"
proof (cases "vLeafPos st < length leaves")
  case True
  let ?st = "st\<lparr>vLeafPos := vLeafPos st + 1\<rparr>"
  have "drop (vLeafPos st) leaves = leaves ! vLeafPos st # drop (Suc (vLeafPos st)) leaves"
    using True by (simp add: Cons_nth_drop_Suc)
  with assms True show thesis
    by (intro that [of ?st]) (auto simp: next_hash_def at_def queue_of_def verifier_inv_def)
next
  case False
  let ?st = "st\<lparr>vHashPos := vHashPos st + 1\<rparr>"
  from assms(2) False have "[vHashPos st..<i] \<noteq> []" by (auto simp: queue_of_def simp del: upt_eq_Nil_conv)
  then have lt: "vHashPos st < i" by (simp only: upt_eq_Nil_conv) linarith
  with assms(1) have "vHashPos st < length (vHashes st)" by (auto simp: verifier_inv_def)
  with lt assms False show thesis
    by (intro that [of ?st]) (auto simp: next_hash_def at_def queue_of_def verifier_inv_def upt_conv_Cons)
qed

lemma store_hash_queue:
  assumes "verifier_inv leaves tot i st" and "i < tot"
  shows "verifier_inv leaves tot (Suc i) (st\<lparr>vHashes := (vHashes st)[i := h]\<rparr>)"
    and "queue_of leaves (Suc i) (st\<lparr>vHashes := (vHashes st)[i := h]\<rparr>) = queue_of leaves i st @ [h]"
  using assms by (auto simp: verifier_inv_def queue_of_def)

lemma verify_loop:
  assumes "queue_verify (HashInternal H) flags (drop (vProofPos st) proofs) (queue_of leaves i st) = Some q"
    and "verifier_inv leaves (i + length flags) i st" and "vProofPos st \<le> length proofs"
  shows "\<exists>st'. go_foldM (verify_step H leaves proofs) st (enumerate i flags) = Ok st' \<and>
    verifier_inv leaves (i + length flags) (i + length flags) st' \<and>
    queue_of leaves (i + length flags) st' = q \<and> vProofPos st' = length proofs"
  using assms
proof (induction flags arbitrary: i st)
  case (Cons flag flags)
  let ?n = "i + length (flag # flags)"
  obtain a b s1 s2 qs where
    ops: "(if flag then next_hash leaves st
           else go_map (\<lambda>h. (h, st\<lparr>vProofPos := vProofPos st + 1\<rparr>)) (at proofs (vProofPos st))) = Ok (a, s1)"
      "next_hash leaves s1 = Ok (b, s2)"
    and inv: "verifier_inv leaves ?n i s2" and queue: "queue_of leaves i s2 = qs"
    and pos: "vProofPos s2 \<le> length proofs"
    and rest: "queue_verify (HashInternal H) flags (drop (vProofPos s2) proofs) (qs @ [HashInternal H a b]) = Some q"
  proof (cases flag)
    case True
    with Cons.prems(1) obtain a b qs where q: "queue_of leaves i st = a # b # qs"
      by (cases "(HashInternal H, flag # flags, drop (vProofPos st) proofs, queue_of leaves i st)"
          rule: queue_verify.cases) auto
    obtain s1 where s1: "next_hash leaves st = Ok (a, s1)" "verifier_inv leaves ?n i s1"
      "queue_of leaves i s1 = b # qs" "vProofPos s1 = vProofPos st"
      using next_hash_queue [OF Cons.prems(2) q] by metis
    obtain s2 where s2: "next_hash leaves s1 = Ok (b, s2)" "verifier_inv leaves ?n i s2"
      "queue_of leaves i s2 = qs" "vProofPos s2 = vProofPos s1"
      using next_hash_queue [OF s1(2,3)] by metis
    show thesis by (rule that [OF _ s2(1,2,3)]) (use True s1 s2 q Cons.prems in simp_all)
  next
    case False
    with Cons.prems(1) obtain p ps b qs where q: "drop (vProofPos st) proofs = p # ps" "queue_of leaves i st = b # qs"
      by (cases "(HashInternal H, flag # flags, drop (vProofPos st) proofs, queue_of leaves i st)"
          rule: queue_verify.cases) auto
    let ?s1 = "st\<lparr>vProofPos := vProofPos st + 1\<rparr>"
    from q(1) have lt: "vProofPos st < length proofs" by (metis drop_eq_Nil2 leI list.distinct(1))
    with q(1) have p: "proofs ! vProofPos st = p" "drop (Suc (vProofPos st)) proofs = ps"
      by (simp_all flip: Cons_nth_drop_Suc)
    have "verifier_inv leaves ?n i ?s1" "queue_of leaves i ?s1 = b # qs"
      using Cons.prems(2) q(2) by (simp_all add: verifier_inv_def queue_of_def)
    then obtain s2 where s2: "next_hash leaves ?s1 = Ok (b, s2)" "verifier_inv leaves ?n i s2"
      "queue_of leaves i s2 = qs" "vProofPos s2 = vProofPos ?s1"
      using next_hash_queue by metis
    show thesis by (rule that [OF _ s2(1,2,3)]) (use False s2 q p lt Cons.prems(1) in \<open>simp_all add: at_def\<close>)
  qed
  let ?s3 = "s2\<lparr>vHashes := (vHashes s2)[i := HashInternal H a b]\<rparr>"
  have "i < length (vHashes s2)" using inv by (auto simp: verifier_inv_def)
  with ops have "verify_step H leaves proofs st (i, flag) = Ok ?s3"
    by (simp add: verify_step_def SourceFromHashes_def split: if_splits)
  moreover have "verifier_inv leaves (Suc i + length flags) (Suc i) ?s3"
    "queue_of leaves (Suc i) ?s3 = qs @ [HashInternal H a b]"
    using store_hash_queue [OF inv] queue by simp_all
  ultimately show ?case
    using Cons.IH [of ?s3 "Suc i"] rest pos by simp
qed (auto simp: queue_of_def split: if_splits)

text \<open>The flags and the lengths that pass the checks determine that the queue ends with one hash.\<close>

lemma queue_verify_one:
  assumes "length ps = length (filter Not flags)" and "length q = Suc (length (filter (\<lambda>b. b) flags))"
  shows "\<exists>r. queue_verify f flags ps q = Some [r]"
  using assms
proof (induction flags arbitrary: ps q)
  case Nil
  then show ?case by (auto simp: length_Suc_conv)
next
  case (Cons flag flags)
  show ?case
  proof (cases flag)
    case True
    with Cons.prems(2) obtain a b qs where q: "q = a # b # qs" by (auto simp: length_Suc_conv)
    show ?thesis using Cons.IH [of ps "qs @ [f a b]"] Cons.prems True by (simp add: q)
  next
    case False
    with Cons.prems obtain p ps' b qs where q: "ps = p # ps'" "q = b # qs" by (auto simp: length_Suc_conv)
    show ?thesis using Cons.IH [of ps' "qs @ [f p b]"] Cons.prems False by (simp add: q)
  qed
qed

lemma queue_verify_counts:
  "queue_verify f flags ps q = Some q' \<Longrightarrow>
     length ps = length (filter Not flags) \<and> length q = length q' + length (filter (\<lambda>b. b) flags)"
  by (induction f flags ps q rule: queue_verify.induct) (auto split: if_splits)

lemma verifier_done:
  assumes "verifier_inv leaves n n st" and "queue_of leaves n st = [r]" and "0 < n"
  shows "vLeafPos st = length leaves" and "vHashPos st = n - 1" and "vHashes st ! (n - 1) = r"
    and "n - 1 < length (vHashes st)"
proof -
  have "length (queue_of leaves n st) = 1" using assms(2) by simp
  then have len: "length leaves - vLeafPos st + (n - vHashPos st) = 1" by (simp add: queue_of_def)
  with assms(1,3) show leaf: "vLeafPos st = length leaves" and hash: "vHashPos st = n - 1"
    by (cases "vLeafPos st < length leaves"; auto simp: verifier_inv_def)+
  have "[n - 1..<n] = [n - 1]" using assms(3) by (cases n) auto
  with assms(2) show "vHashes st ! (n - 1) = r" by (simp add: queue_of_def leaf hash)
  show "n - 1 < length (vHashes st)" using assms(1,3) by (auto simp: verifier_inv_def)
qed

lemma filter_flags: "length (filter Not flags) + length (filter (\<lambda>b. b) flags) = length flags"
  by (induction flags) auto

lemma verify_queue:
  "(VerifyComputeRoot H nil leaves proof = Ok r \<longleftrightarrow>
      leaves \<noteq> [] \<and> length leaves + length (Hashes proof) \<le> 257 \<and>
      length (SourceFlags proof) + 1 = length leaves + length (Hashes proof) \<and>
      queue_verify (HashInternal H) (SourceFlags proof) (Hashes proof) leaves = Some [r]) \<and>
   VerifyComputeRoot H nil leaves proof \<noteq> Err NotAllUsed \<and>
   (VerifyComputeRoot H nil leaves proof = Panic \<longleftrightarrow>
      leaves = [] \<and> length (Hashes proof) = 1 \<and> SourceFlags proof = [])"
proof (cases "length leaves + length (Hashes proof) \<le> 257 \<and>
    length (SourceFlags proof) + 1 = length leaves + length (Hashes proof)")
  case False
  define n p where "n = length leaves" and "p = length (Hashes proof)"
  have "n = 0 \<and> p = 0 \<or> 257 < n \<or> 257 < p \<or> 256 < n + p - 1 \<or> n + p - 1 \<noteq> length (SourceFlags proof)"
    using False unfolding n_def p_def by linarith
  then have "VerifyComputeRoot H nil leaves proof \<in> {Err EmptyProof, Err TooLong, Err TooManyHashes, Err FlagsMismatch}"
    unfolding VerifyComputeRoot_def Let_def MaxNumberTreeLeaves_def n_def [symmetric] p_def [symmetric]
    by (simp only: if_True if_False insert_iff simp_thms split: if_split) auto
  with False show ?thesis by auto
next
  case lens: True
  let ?f = "HashInternal H" and ?flags = "SourceFlags proof" and ?ps = "Hashes proof"
  let ?T = "length leaves + length ?ps - 1"
  have T: "?T = length ?flags" using lens by linarith
  show ?thesis
  proof (cases "?flags = []")
    case True
    with lens show ?thesis
      by (cases leaves; cases ?ps)
        (auto simp: VerifyComputeRoot_def Let_def MaxNumberTreeLeaves_def at_def)
  next
    case flags: False
    show ?thesis
    proof (cases "length (filter Not ?flags) = length ?ps")
      case False
      then show ?thesis
        using lens flags queue_verify_counts [of ?f ?flags ?ps leaves "[r]"]
        by (auto simp: VerifyComputeRoot_def Let_def MaxNumberTreeLeaves_def countSourceFlags_def SourceFromProof_def)
    next
      case cnt: True
      have leaves: "length leaves = Suc (length (filter (\<lambda>b. b) ?flags))"
        using lens cnt filter_flags [of ?flags] by simp
      then obtain r' where r': "queue_verify ?f ?flags ?ps leaves = Some [r']"
        using queue_verify_one cnt by metis
      let ?st = "\<lparr>vHashes = replicate ?T nil @ replicate ?T (leaves ! 0), vLeafPos = 0, vHashPos = 0, vProofPos = 0\<rparr>"
      have "verifier_inv leaves (0 + length ?flags) 0 ?st" using T leaves by (simp add: verifier_inv_def)
      moreover have "queue_verify ?f ?flags (drop (vProofPos ?st) ?ps) (queue_of leaves 0 ?st) = Some [r']"
        using r' by (simp add: queue_of_def)
      ultimately obtain st where run: "go_foldM (verify_step H leaves ?ps) ?st (enumerate 0 ?flags) = Ok st"
        and inv: "verifier_inv leaves ?T ?T st" "queue_of leaves ?T st = [r']" "vProofPos st = length ?ps"
        using verify_loop [of H ?flags ?st ?ps leaves 0 "[r']"] T by auto
      have "0 < ?T" using T flags by simp
      note fin = verifier_done [OF inv(1,2) this]
      have "VerifyComputeRoot H nil leaves proof = Ok r'"
        using lens flags leaves cnt run inv(3) fin
        by (auto simp: VerifyComputeRoot_def Let_def MaxNumberTreeLeaves_def countSourceFlags_def
            SourceFromProof_def at_def)
      with r' lens leaves show ?thesis by auto
    qed
  qed
qed

lemmas verify_queue_Ok = verify_queue [THEN conjunct1]

text \<open>
  C39. The verifier is a queue. The three positions into the leaves, the computed hashes and the proof
  implement one first-in first-out queue of hashes: a root is returned exactly when the lengths
  agree and the queue, started with the leaves, ends with that one hash. The check at the end that
  everything was used never fails, and the only input that panics is an empty list of leaves with
  a single proof hash and no flags.
\<close>

theorem verify_refines_queue:
  "(VerifyComputeRoot H nil leaves proof = Ok r \<longleftrightarrow>
      leaves \<noteq> [] \<and> length leaves + length (Hashes proof) \<le> 257 \<and>
      length (SourceFlags proof) + 1 = length leaves + length (Hashes proof) \<and>
      queue_verify (HashInternal H) (SourceFlags proof) (Hashes proof) leaves = Some [r]) \<and>
   VerifyComputeRoot H nil leaves proof \<noteq> Err NotAllUsed \<and>
   (VerifyComputeRoot H nil leaves proof = Panic \<longleftrightarrow>
      leaves = [] \<and> length (Hashes proof) = 1 \<and> SourceFlags proof = [])"
  by (rule verify_queue)

section \<open>Completeness\<close>

lemma siblingIndex_eq: "siblingIndex x = (if even x then x + 1 else x - 1)"
  unfolding siblingIndex_def by (simp add: xor_one_eq)

lemma parentIndex_eq: "0 \<le> x \<Longrightarrow> parentIndex x = x div 2"
  by (cases "x = 0") (simp_all add: parentIndex_def)

lemma nth_hash_pairs: "even (length hs) \<Longrightarrow> i < length hs div 2 \<Longrightarrow> hash_pairs f hs ! i = f (hs ! (2 * i)) (hs ! (2 * i + 1))"
proof (induction f hs arbitrary: i rule: hash_pairs.induct)
  case (1 f a b hs)
  then show ?case by (cases i) auto
qed simp_all

text \<open>Indices into a layer: increasing and in range.\<close>

definition indices_ok :: "nat \<Rightarrow> int list \<Rightarrow> bool" where
  "indices_ok n xs \<longleftrightarrow> sorted_wrt (<) xs \<and> (\<forall>x\<in>set xs. 0 \<le> x \<and> x < int n)"

lemma indices_ok_length: "indices_ok n xs \<Longrightarrow> length xs \<le> n"
proof -
  assume ok: "indices_ok n xs"
  then have "distinct xs" by (auto simp: indices_ok_def strict_sorted_iff)
  then have "length xs = card (set xs)" by (simp add: distinct_card)
  also have "\<dots> \<le> card {0..<int n}" using ok by (intro card_mono) (auto simp: indices_ok_def)
  finally show ?thesis by simp
qed

lemma pair_indices_props:
  assumes "pair_indices xs = (nxt, auth, flags)" and "indices_ok n xs" and "even n"
  shows "(\<forall>p\<in>set nxt. \<exists>x\<in>set xs. p = x div 2) \<and> indices_ok (n div 2) nxt \<and>
    (\<forall>a\<in>set auth. 0 \<le> a \<and> a < int n) \<and> length flags = length nxt \<and> (xs \<noteq> [] \<longrightarrow> nxt \<noteq> []) \<and>
    length xs + length auth = 2 * length nxt"
  using assms(1,2)
proof (induction xs arbitrary: nxt auth flags rule: pair_indices.induct)
  case (2 x xs)
  have x: "0 \<le> x" "x < int n" and xs: "indices_ok n xs" and less: "\<forall>z\<in>set xs. x < z"
    using "2.prems"(2) by (auto simp: indices_ok_def)
  have bound: "z div 2 < int (n div 2)" if "z < int n" for z :: int
    using that assms(3) by (simp add: zdiv_int [symmetric] of_nat_div) presburger
  have sib: "0 \<le> siblingIndex x" "siblingIndex x < int n"
    using x assms(3) by (auto simp: siblingIndex_eq elim!: evenE oddE)
  have parents: "indices_ok (n div 2) (x div 2 # nx)"
    if "indices_ok (n div 2) nx" "\<forall>p\<in>set nx. \<exists>z\<in>set zs. p = z div 2" "\<forall>z\<in>set zs. x div 2 < z div 2" for nx zs
    using that x bound by (auto simp: indices_ok_def)
  show ?case
  proof (cases "\<exists>ys. xs = siblingIndex x # ys")
    case True
    then obtain ys where ys: "xs = siblingIndex x # ys" by blast
    obtain nx au fl where r: "pair_indices ys = (nx, au, fl)" by (cases "pair_indices ys") auto
    have ok: "indices_ok n ys" using xs ys by (auto simp: indices_ok_def)
    have even: "even x" using less ys by (auto simp: siblingIndex_eq split: if_splits)
    have "\<forall>z\<in>set ys. x + 1 < z" using xs ys even by (auto simp: indices_ok_def siblingIndex_eq)
    then have "\<forall>z\<in>set ys. x div 2 < z div 2" using even by (auto elim!: evenE)
    moreover from "2.IH"(1) [OF ys refl r ok] have IH: "(\<forall>p\<in>set nx. \<exists>x\<in>set ys. p = x div 2)" "indices_ok (n div 2) nx"
      "\<forall>a\<in>set au. 0 \<le> a \<and> a < int n" "length fl = length nx" "length ys + length au = 2 * length nx" by blast+
    ultimately show ?thesis
      using "2.prems"(1) ys r x parents [of nx ys] by (auto simp: parentIndex_eq)
  next
    case False
    obtain nx au fl where r: "pair_indices xs = (nx, au, fl)" by (cases "pair_indices xs") auto
    have eq: "nxt = x div 2 # nx \<and> auth = siblingIndex x # au \<and> flags = False # fl"
      using "2.prems"(1) False r x by (auto simp: parentIndex_eq SourceFromProof_def split: list.splits if_splits)
    have tail_IH: "(\<forall>p\<in>set nx. \<exists>x\<in>set xs. p = x div 2) \<and> indices_ok (n div 2) nx \<and>
      (\<forall>a\<in>set au. 0 \<le> a \<and> a < int n) \<and> length fl = length nx \<and> length xs + length au = 2 * length nx"
    proof (cases xs)
      case Nil
      then show ?thesis using r by (simp add: indices_ok_def)
    next
      case (Cons y ys)
      then have "y \<noteq> siblingIndex x" using False by blast
      from "2.IH"(2) [OF Cons this r xs] show ?thesis by blast
    qed
    have apart: "z \<noteq> siblingIndex x \<or> \<not> even x" if "z \<in> set xs" for z
    proof -
      have "z = hd xs \<or> hd xs < z" using that xs by (cases xs) (auto simp: indices_ok_def)
      then show ?thesis using False less that by (cases xs) (auto simp: siblingIndex_eq)
    qed
    have "x div 2 < z div 2" if "z \<in> set xs" for z
    proof -
      have "x < z" "z \<noteq> x + 1 \<or> \<not> even x" using apart [OF that] less that by (auto simp: siblingIndex_eq)
      then show ?thesis by presburger
    qed
    moreover have IH: "(\<forall>p\<in>set nx. \<exists>x\<in>set xs. p = x div 2)" "indices_ok (n div 2) nx"
      "\<forall>a\<in>set au. 0 \<le> a \<and> a < int n" "length fl = length nx" "length xs + length au = 2 * length nx"
      using tail_IH by auto
    ultimately show ?thesis
      using eq sib parents [of nx xs] by auto
  qed
qed (simp add: indices_ok_def)

lemma computeNextLayer_props:
  assumes "computeNextLayer H L = (P, N)" and "1 < length L"
  shows "even (length P)" and "N = hash_pairs (HashInternal H) P" and "length L \<le> length P" and "length N = (length L + 1) div 2"
    and "\<And>i. i < length L \<Longrightarrow> P ! i = L ! i"
  using assms by (auto simp: computeNextLayer_def Let_def length_hash_pairs nth_append split: if_splits)

text \<open>A hasher for proofs that do not say which of two siblings is the left one.\<close>

locale hasher =
  fixes H :: "'h Hasher"
  assumes comm: "HashInternal H a b = HashInternal H b a"
begin

abbreviation "f \<equiv> HashInternal H"

lemma layer_verify:
  assumes "pair_indices xs = (nxt, auth, flags)" and "indices_ok (length L) xs" and "even (length L)"
  shows "queue_verify f (flags @ fl) (map (\<lambda>i. L ! nat i) auth @ ps) (map (\<lambda>i. L ! nat i) xs @ acc) =
    queue_verify f fl ps (acc @ map (\<lambda>i. hash_pairs f L ! nat i) nxt)"
  using assms(1,2)
proof (induction xs arbitrary: nxt auth flags acc rule: pair_indices.induct)
  case (2 x xs)
  have x: "0 \<le> x" "x < int (length L)" and xs: "indices_ok (length L) xs" and less: "\<forall>z\<in>set xs. x < z"
    using "2.prems"(2) by (auto simp: indices_ok_def)
  have pair: "hash_pairs f L ! nat (parentIndex x) = f (L ! nat x) (L ! nat (siblingIndex x))"
  proof -
    have "nat (x div 2) = nat x div 2" "nat x div 2 < length L div 2"
      using x assms(3) by (auto simp: nat_div_distrib)
    moreover have "nat (x - 1) = nat x - Suc 0" by arith
    ultimately show ?thesis
      using x assms(3) nth_hash_pairs [of L "nat x div 2" f] comm
      by (auto simp: parentIndex_eq siblingIndex_eq nat_add_distrib nat_diff_distrib even_nat_iff)
  qed
  show ?case
  proof (cases "\<exists>ys. xs = siblingIndex x # ys")
    case True
    then obtain ys where ys: "xs = siblingIndex x # ys" by blast
    obtain nx au fl' where r: "pair_indices ys = (nx, au, fl')" by (cases "pair_indices ys") auto
    have "indices_ok (length L) ys" using xs ys by (auto simp: indices_ok_def)
    from "2.IH"(1) [OF ys refl r this, of "acc @ [f (L ! nat x) (L ! nat (siblingIndex x))]"] "2.prems"(1) ys r pair
    show ?thesis by (auto simp: SourceFromHashes_def)
  next
    case False
    obtain nx au fl' where r: "pair_indices xs = (nx, au, fl')" by (cases "pair_indices xs") auto
    have eq: "nxt = parentIndex x # nx \<and> auth = siblingIndex x # au \<and> flags = False # fl'"
      using "2.prems"(1) False r by (auto simp: SourceFromProof_def split: list.splits if_splits)
    have "queue_verify f (fl' @ fl) (map (\<lambda>i. L ! nat i) au @ ps)
        (map (\<lambda>i. L ! nat i) xs @ acc @ [f (L ! nat (siblingIndex x)) (L ! nat x)]) =
      queue_verify f fl ps ((acc @ [f (L ! nat (siblingIndex x)) (L ! nat x)]) @ map (\<lambda>i. hash_pairs f L ! nat i) nx)"
    proof (cases xs)
      case Nil
      then show ?thesis using r by simp
    next
      case (Cons y ys)
      then have "y \<noteq> siblingIndex x" using False by blast
      from "2.IH"(2) [OF Cons this r xs, of "acc @ [f (L ! nat (siblingIndex x)) (L ! nat x)]"] show ?thesis by simp
    qed
    with eq pair comm show ?thesis by simp
  qed
qed simp

lemma prove_layers:
  assumes "indices_ok (length L) xs" and "xs \<noteq> []"
  shows "\<exists>ys hs fs. go_foldM prove_layer (xs, pr) (butlast (build_layers H L)) =
      Ok (ys, \<lparr>Hashes = Hashes pr @ hs, SourceFlags = SourceFlags pr @ fs\<rparr>) \<and>
    queue_verify f fs hs (map (\<lambda>i. L ! nat i) xs) = Some [Root (build_layers H L)] \<and>
    length xs + length hs = Suc (length fs) \<and> (\<forall>k. length L \<le> 2 ^ k \<longrightarrow> length fs \<le> 2 ^ k - 1)"
  using assms
proof (induction "length L" arbitrary: L xs pr rule: less_induct)
  case less
  show ?case
  proof (cases "1 < length L")
    case False
    with less.prems obtain h where L: "L = [h]"
      by (cases L; cases "tl L") (auto simp: indices_ok_def neq_Nil_conv)
    have "xs = [0]" using less.prems L by (cases xs rule: remdups_adj.cases) (auto simp: indices_ok_def)
    then show ?thesis by (intro exI [of _ xs] exI [of _ "[]"]) (simp add: L build_layers.simps Root_def)
  next
    case True
    obtain P N where next_layer: "computeNextLayer H L = (P, N)" by fastforce
    note props = computeNextLayer_props [OF next_layer True]
    obtain nxt auth flags where pairs: "pair_indices xs = (nxt, auth, flags)" by (cases "pair_indices xs") auto
    have xs: "indices_ok (length P) xs" using less.prems(1) props(3) by (force simp: indices_ok_def)
    have layers: "build_layers H L = P # build_layers H N" using True by (simp add: build_layers.simps [of H L] next_layer)
    have half: "length P div 2 = length N" using props(2) by (simp add: length_hash_pairs)
    from pair_indices_props [OF pairs xs props(1)]
    have nxt: "indices_ok (length N) nxt" "nxt \<noteq> []" and auth: "\<forall>a\<in>set auth. 0 \<le> a \<and> a < int (length P)"
      and lens: "length flags = length nxt" "length xs + length auth = 2 * length nxt"
      using less.prems(2) half by auto
    let ?hs = "map (\<lambda>i. P ! nat i) auth"
    let ?pr = "\<lparr>Hashes = Hashes pr @ ?hs, SourceFlags = SourceFlags pr @ flags\<rparr>"
    have step: "prove_layer (xs, pr) P = Ok (nxt, ?pr)"
      using auth by (simp add: prove_layer_def proveSingleLayer_def pairs
          go_mapM_Ok_map [where g = "\<lambda>i. P ! nat i"] not_le not_less)
    have "length N < length L" using props(4) True by linarith
    from less.hyps [OF this nxt, of ?pr] obtain ys hs fs where
      run: "go_foldM prove_layer (nxt, ?pr) (butlast (build_layers H N)) =
        Ok (ys, \<lparr>Hashes = Hashes ?pr @ hs, SourceFlags = SourceFlags ?pr @ fs\<rparr>)"
      and verify: "queue_verify f fs hs (map (\<lambda>i. N ! nat i) nxt) = Some [Root (build_layers H N)]"
      and len: "length nxt + length hs = Suc (length fs)" "\<forall>k. length N \<le> 2 ^ k \<longrightarrow> length fs \<le> 2 ^ k - 1"
      by blast
    have ne: "build_layers H N \<noteq> []" by (simp add: build_layers.simps split: prod.splits)
    have same: "map (\<lambda>i. L ! nat i) xs = map (\<lambda>i. P ! nat i) xs"
      using props(5) less.prems(1) by (auto simp: indices_ok_def nat_less_iff)
    from layer_verify [OF pairs xs props(1), of fs hs "[]"] verify props(2)
    have "queue_verify f (flags @ fs) (?hs @ hs) (map (\<lambda>i. L ! nat i) xs) = Some [Root (build_layers H L)]"
      unfolding same using ne by (simp add: layers Root_def)
    moreover have "go_foldM prove_layer (xs, pr) (butlast (build_layers H L)) =
        Ok (ys, \<lparr>Hashes = Hashes pr @ ?hs @ hs, SourceFlags = SourceFlags pr @ flags @ fs\<rparr>)"
      using run step ne by (simp add: layers)
    moreover have "length (flags @ fs) \<le> 2 ^ k - 1" if k: "length L \<le> 2 ^ k" for k
    proof -
      from k True obtain j where j: "k = Suc j" by (cases k) auto
      with k props(4) have N: "length N \<le> 2 ^ j" by simp
      have "length nxt \<le> length N" by (rule indices_ok_length [OF nxt(1)])
      with N len(2) lens(1) j show ?thesis by fastforce
    qed
    ultimately show ?thesis using lens len(1) by (intro exI [of _ ys] exI [of _ "?hs @ hs"] exI [of _ "flags @ fs"]) auto
  qed
qed


lemma prove_verifies:
  assumes "indices_ok (length leaves) xs" and "xs \<noteq> []" and "length leaves \<le> 256"
  shows "\<exists>layers p. NewTree H leaves = Ok layers \<and> Prove layers xs = Ok p \<and>
    VerifyComputeRoot H nil (map (\<lambda>i. leaves ! nat i) xs) p = Ok (Root layers)"
proof -
  let ?layers = "build_layers H leaves"
  from prove_layers [OF assms(1,2), of "\<lparr>Hashes = [], SourceFlags = []\<rparr>"] obtain hs fs where
    run: "Prove ?layers xs = Ok \<lparr>Hashes = hs, SourceFlags = fs\<rparr>"
    and queue: "queue_verify f fs hs (map (\<lambda>i. leaves ! nat i) xs) = Some [Root ?layers]"
    and len: "length xs + length hs = Suc (length fs)" "length fs \<le> 2 ^ 8 - 1"
    using assms(3) by (auto simp: Prove_def dest: spec [of _ 8])
  have "leaves \<noteq> []" using assms(1,2) by (cases xs) (auto simp: indices_ok_def)
  then have "NewTree H leaves = Ok ?layers" by (simp add: NewTree_def)
  moreover have "VerifyComputeRoot H nil (map (\<lambda>i. leaves ! nat i) xs) \<lparr>Hashes = hs, SourceFlags = fs\<rparr> =
      Ok (Root ?layers)"
    using verify_queue_Ok [of H nil "map (\<lambda>i. leaves ! nat i) xs" "\<lparr>Hashes = hs, SourceFlags = fs\<rparr>"]
      queue len assms(2) by simp
  ultimately show ?thesis using run by blast
qed

end

lemma bytes_less_linear: "\<not> bytes_less a b \<Longrightarrow> \<not> bytes_less b a \<Longrightarrow> a = b"
  by (induction a b rule: bytes_less.induct) auto

lemma bytes_less_Nil: "\<not> bytes_less a []"
  by (cases a) simp_all

lemma bytes_less_asym: "bytes_less a b \<Longrightarrow> \<not> bytes_less b a"
  by (induction a b rule: bytes_less.induct) (auto simp: bytes_less_Nil)

interpretation keccak: hasher "NewKeccak k" for k
  by unfold_locales (auto simp: NewKeccak_def Let_def dest: bytes_less_linear bytes_less_asym)

text \<open>
  C13. Proofs are complete: for a tree of at most 256 leaves, and any increasing list of leaf
  indices that is not empty, a proof is made, and from it and those leaves alone the verifier
  computes the root of the tree. It holds for any hash function in place of Keccak.
\<close>

theorem merkle_complete:
  assumes "indices \<noteq> []" and "sorted_wrt (<) indices" and "\<forall>i\<in>set indices. 0 \<le> i \<and> i < int (length leaves)"
    and "length leaves \<le> MaxNumberTreeLeaves"
  shows "\<exists>layers p. NewTree (NewKeccak k) leaves = Ok layers \<and> Prove layers indices = Ok p \<and>
    VerifyComputeRoot (NewKeccak k) nil (map (\<lambda>i. leaves ! nat i) indices) p = Ok (Root layers)"
  using assms by (intro keccak.prove_verifies) (auto simp: indices_ok_def MaxNumberTreeLeaves_def)

theorem merkle_complete_witness:
  "\<exists>layers p. NewTree (NewKeccak (rotate 33)) [[1], [2], [3], [4], [5]] = Ok layers \<and> Prove layers [1, 4] = Ok p \<and>
    VerifyComputeRoot (NewKeccak (rotate 33)) [] [[2], [5]] p = Ok (Root layers)"
  using merkle_complete [of "[1, 4]" "[[1], [2], [3], [4], [5]]" "rotate 33" "[]"] by (simp add: MaxNumberTreeLeaves_def)

section \<open>Soundness\<close>

text \<open>
  The pairs that are hashed when a tree is built and when a proof is verified. A statement about a
  compressing hash function has to say where its collision is: among these pairs.
\<close>

fun pairs :: "'h list \<Rightarrow> ('h \<times> 'h) list" where
  "pairs (a # b # hs) = (a, b) # pairs hs"
| "pairs hs = []"

definition tree_pairs :: "'h list list \<Rightarrow> ('h \<times> 'h) list" where
  "tree_pairs layers = concat (map pairs (butlast layers))"

fun verify_pairs :: "('h \<Rightarrow> 'h \<Rightarrow> 'h) \<Rightarrow> bool list \<Rightarrow> 'h list \<Rightarrow> 'h list \<Rightarrow> ('h \<times> 'h) list" where
  "verify_pairs f (True # flags) ps (a # b # q) = (a, b) # verify_pairs f flags ps (q @ [f a b])"
| "verify_pairs f (False # flags) (p # ps) (b # q) = (p, b) # verify_pairs f flags ps (q @ [f p b])"
| "verify_pairs f _ _ _ = []"

text \<open>What a verified pair hashes to although the tree has no such pair.\<close>

definition forged :: "'h Hasher \<Rightarrow> 'h list \<Rightarrow> 'h list list \<Rightarrow> 'h \<times> 'h \<Rightarrow> bool" where
  "forged H leaves layers = (\<lambda>(a, b).
     HashInternal H a b \<in> set (ZeroHash H # leaves) \<or>
     (\<exists>(c, d)\<in>set (tree_pairs layers). HashInternal H a b = HashInternal H c d \<and> {a, b} \<noteq> {c, d}))"

definition node :: "'h list list \<Rightarrow> 'h \<Rightarrow> bool" where
  "node layers h \<longleftrightarrow> (\<exists>layer\<in>set layers. h \<in> set layer)"

lemma hash_pairs_map: "hash_pairs f hs = map (\<lambda>(a, b). f a b) (pairs hs)"
  by (induction f hs rule: hash_pairs.induct) simp_all

lemma set_pairs: "(c, d) \<in> set (pairs hs) \<Longrightarrow> c \<in> set hs \<and> d \<in> set hs"
  by (induction hs rule: pairs.induct) auto

lemma tree_pairs_node: "(c, d) \<in> set (tree_pairs layers) \<Longrightarrow> node layers c \<and> node layers d"
  by (auto simp: tree_pairs_def node_def dest!: set_pairs in_set_butlastD)

lemma build_layers_nonempty [simp]: "build_layers H L \<noteq> []"
  by (simp add: build_layers.simps split: prod.splits)

lemma build_layers_last: "L \<noteq> [] \<Longrightarrow> last (build_layers H L) \<noteq> []"
proof (induction H L rule: build_layers.induct)
  case (1 H L)
  show ?case
  proof (cases "1 < length L")
    case True
    obtain P N where layer: "computeNextLayer H L = (P, N)" by fastforce
    then have "length N = (length L + 1) div 2" using True by (rule computeNextLayer_props(4))
    with True have "N \<noteq> []" by (intro notI) simp
    with "1.IH" [OF True layer [symmetric]] True show ?thesis by (simp add: build_layers.simps [of H L] layer)
  qed (use "1.prems" in \<open>simp add: build_layers.simps\<close>)
qed

lemma build_layers_node:
  "node (build_layers H L) h \<Longrightarrow>
     h \<in> set (ZeroHash H # L) \<or> (\<exists>(c, d)\<in>set (tree_pairs (build_layers H L)). h = HashInternal H c d)"
proof (induction H L rule: build_layers.induct)
  case (1 H L)
  show ?case
  proof (cases "1 < length L")
    case False
    with "1.prems" show ?thesis by (simp add: build_layers.simps node_def)
  next
    case True
    obtain P N where layer: "computeNextLayer H L = (P, N)" by fastforce
    have layers: "build_layers H L = P # build_layers H N"
      using True by (simp add: build_layers.simps [of H L] layer)
    then have tp: "set (tree_pairs (build_layers H L)) = set (pairs P) \<union> set (tree_pairs (build_layers H N))"
      by (simp add: tree_pairs_def)
    have P: "set P \<subseteq> set (ZeroHash H # L)" and N: "N = map (\<lambda>(a, b). HashInternal H a b) (pairs P)"
      using layer True by (auto simp: computeNextLayer_def Let_def hash_pairs_map split: if_splits)
    from "1.prems" consider "h \<in> set P" | "node (build_layers H N) h" by (auto simp: layers node_def)
    then show ?thesis
    proof cases
      case 2
      from "1.IH" [OF True layer [symmetric] this] consider "h = ZeroHash H" | "h \<in> set N"
        | "\<exists>(c, d)\<in>set (tree_pairs (build_layers H N)). h = HashInternal H c d" by auto
      then show ?thesis by cases (use N tp in \<open>auto simp: case_prod_beta\<close>)
    qed (use P in auto)
  qed
qed

lemma unforged_nodes:
  assumes "node (build_layers H L) (HashInternal H a b)" and "\<not> forged H L (build_layers H L) (a, b)"
  shows "node (build_layers H L) a \<and> node (build_layers H L) b"
proof -
  from build_layers_node [OF assms(1)] assms(2) obtain c d where
    cd: "(c, d) \<in> set (tree_pairs (build_layers H L))" and "HashInternal H a b = HashInternal H c d"
    by (auto simp: forged_def)
  with assms(2) have "{a, b} = {c, d}" by (fastforce simp: forged_def)
  with tree_pairs_node [OF cd] show ?thesis by (auto simp: doubleton_eq_iff)
qed

lemma verify_backwards:
  assumes "queue_verify f flags ps q = Some q'" and "list_all (node (build_layers H L)) q'"
    and "f = HashInternal H" and "\<not> list_ex (forged H L (build_layers H L)) (verify_pairs f flags ps q)"
  shows "list_all (node (build_layers H L)) q"
  using assms
  by (induction f flags ps q rule: queue_verify.induct) (auto split: if_splits dest: unforged_nodes)

text \<open>
  C10. Proofs are sound: when a list of leaves and any proof at all verify to the root of a tree,
  then every one of these leaves is a leaf of the tree, or the padding hash, or the hash of two
  nodes that are paired in the tree; unless the verifier hashed a pair that forges a node of the
  tree, by hashing to one of its leaves or to the padding, or to the hash of another pair of the
  tree. Such a pair is then exhibited.
\<close>

theorem merkle_sound:
  assumes "NewTree H treeLeaves = Ok layers" and "VerifyComputeRoot H nil leaves proof = Ok (Root layers)"
  shows "(\<forall>l\<in>set leaves. l \<in> set (ZeroHash H # treeLeaves) \<or>
        (\<exists>(c, d)\<in>set (tree_pairs layers). l = HashInternal H c d)) \<or>
    (\<exists>pair\<in>set (verify_pairs (HashInternal H) (SourceFlags proof) (Hashes proof) leaves).
       forged H treeLeaves layers pair)"
proof -
  have layers: "layers = build_layers H treeLeaves" and ne: "treeLeaves \<noteq> []"
    using assms(1) by (auto simp: NewTree_def split: if_splits)
  have root: "node layers (Root layers)"
    using build_layers_last [OF ne] by (simp add: layers node_def Root_def) (metis build_layers_nonempty hd_in_set last_in_set)
  from assms(2) have "queue_verify (HashInternal H) (SourceFlags proof) (Hashes proof) leaves = Some [Root layers]"
    by (simp add: verify_queue_Ok)
  from verify_backwards [OF this [unfolded layers] _ refl] root show ?thesis
    using build_layers_node unfolding layers by (fastforce simp: list_all_iff list_ex_iff)
qed

theorem merkle_sound_witness:
  "\<exists>layers. NewTree (NewKeccak (rotate 1)) [[1], [2]] = Ok layers \<and>
     VerifyComputeRoot (NewKeccak (rotate 1)) [] [[2]] \<lparr>Hashes = [[1]], SourceFlags = [False]\<rparr> = Ok (Root layers) \<and>
     ([2] \<in> set (ZeroHash (NewKeccak (rotate 1)) # [[1], [2]]) \<or>
       (\<exists>(c, d)\<in>set (tree_pairs layers). [2] = HashInternal (NewKeccak (rotate 1)) c d) \<or>
       forged (NewKeccak (rotate 1)) [[1], [2]] layers ([1], [2]))"
proof -
  let ?H = "NewKeccak (rotate 1)" and ?p = "\<lparr>Hashes = [[1]], SourceFlags = [False]\<rparr>"
  obtain layers where tree: "NewTree ?H [[1], [2]] = Ok layers" by (simp add: NewTree_def)
  then have layers: "layers = build_layers ?H [[1], [2]]" by (simp add: NewTree_def)
  have "VerifyComputeRoot ?H [] [[2]] ?p = Ok (Root layers)"
    unfolding layers by code_simp
  with merkle_sound [OF tree this] tree show ?thesis by (intro exI [of _ layers]) simp
qed

end
