(* ===== verification/Mailbox.thy ===== *)
theory Mailbox
  imports Prelude
begin

text \<open>
  The bounded mailbox of \<^verbatim>\<open>pkg/utils/mailbox/mailbox.go\<close>. Every operation holds the mutex from
  its first to its last statement, so that a run of the mailbox is a sequence of whole operations.

  The queue is kept newest first in a slice; the length is kept a second time in an atomic counter
  for the monitor; the notification channel has room for one token. The contract is the locale
  \<open>bounded_fifo\<close>: a queue that drops its oldest message when it is full (\<open>drop_oldest\<close>) and from
  which the messages are taken oldest first.
\<close>

section \<open>State and operations\<close>

record 'a Mailbox =
  queue :: "'a list"
  queueLen :: int
  capacity :: nat
  chNotify :: bool

definition New :: "nat \<Rightarrow> 'a Mailbox" where
  "New cap = \<lparr>queue = [], queueLen = 0, capacity = cap, chNotify = False\<rparr>"

definition NewHighCapacity :: "'a Mailbox" where "NewHighCapacity = New 100000"

definition NewSingle :: "'a Mailbox" where "NewSingle = New 1"

definition Deliver :: "'a \<Rightarrow> 'a Mailbox \<Rightarrow> bool \<times> 'a Mailbox" where
  "Deliver x m =
     (let q = x # queue m;
          over = int (length q) > int (capacity m) \<and> capacity m > 0;
          m' = (if over then m\<lparr>queue := butlast q\<rparr> else m\<lparr>queue := q, queueLen := queueLen m + 1\<rparr>)
      in (over, m'\<lparr>chNotify := True\<rparr>))"

text \<open>The zero value and \<^verbatim>\<open>false\<close> are the result of an empty queue.\<close>

definition Retrieve :: "'a Mailbox \<Rightarrow> 'a option \<times> 'a Mailbox" where
  "Retrieve m =
     (if queue m = [] then (None, m)
      else (Some (last (queue m)), m\<lparr>queue := butlast (queue m), queueLen := queueLen m - 1\<rparr>))"

text \<open>The loop that swaps the ends of a slice until its two indices meet.\<close>

function swap_ends :: "int \<Rightarrow> int \<Rightarrow> 'a list \<Rightarrow> 'a list" where
  "swap_ends i j q =
     (if i < j then swap_ends (i + 1) (j - 1) (q[nat i := q ! nat j, nat j := q ! nat i]) else q)"
  by pat_completeness auto

termination
  by (relation "measure (\<lambda>(i, j, q). nat (j - i))") auto

declare swap_ends.simps [simp del]

definition RetrieveAll :: "'a Mailbox \<Rightarrow> 'a list \<times> 'a Mailbox" where
  "RetrieveAll m =
     (swap_ends 0 (int (length (queue m)) - 1) (queue m), m\<lparr>queue := [], queueLen := 0\<rparr>)"

definition RetrieveLatestAndClear :: "'a Mailbox \<Rightarrow> 'a option \<times> 'a Mailbox" where
  "RetrieveLatestAndClear m =
     (if queue m = [] then (None, m)
      else (Some (hd (queue m)), m\<lparr>queue := [], queueLen := 0\<rparr>))"

text \<open>A reader that is woken up takes the token from the channel.\<close>

definition take_notification :: "'a Mailbox \<Rightarrow> bool \<times> 'a Mailbox" where
  "take_notification m = (chNotify m, m\<lparr>chNotify := False\<rparr>)"

section \<open>The contract\<close>

text \<open>
  A queue seen as the list of its messages, oldest first, and the messages it has room for
  (\<open>None\<close>: any number).
\<close>

locale drop_oldest =
  fixes inv :: "'m \<Rightarrow> bool" and contents :: "'m \<Rightarrow> 'a list" and room :: "'m \<Rightarrow> nat option"
    and deliver :: "'a \<Rightarrow> 'm \<Rightarrow> bool \<times> 'm"
  assumes deliver: "inv m \<Longrightarrow> deliver x m = (over, m') \<Longrightarrow>
      inv m' \<and> room m' = room m \<and> over = (room m = Some (length (contents m))) \<and>
      contents m' = (if over then tl (contents m @ [x]) else contents m @ [x])"
    and bounded: "inv m \<Longrightarrow> room m = Some n \<Longrightarrow> 0 < n \<and> length (contents m) \<le> n"
begin

text \<open>Delivering a list of messages keeps the newest ones that fit.\<close>

definition deliver_all :: "'a list \<Rightarrow> 'm \<Rightarrow> 'm" where
  "deliver_all xs m = foldl (\<lambda>m x. snd (deliver x m)) m xs"

definition newest :: "nat option \<Rightarrow> 'a list \<Rightarrow> 'a list" where
  "newest r xs = (case r of None \<Rightarrow> xs | Some n \<Rightarrow> drop (length xs - n) xs)"

lemma deliver_newest:
  assumes "inv m" and "contents m = newest (room m) ys"
  shows "inv (snd (deliver x m)) \<and> room (snd (deliver x m)) = room m \<and>
    contents (snd (deliver x m)) = newest (room m) (ys @ [x])"
proof -
  obtain over m' where d: "deliver x m = (over, m')" by fastforce
  note law = deliver [OF assms(1) d]
  have "contents m' = newest (room m) (ys @ [x])"
  proof (cases "room m")
    case None
    with law assms(2) show ?thesis by (simp add: newest_def)
  next
    case (Some n)
    with bounded [OF assms(1)] have n: "0 < n" by simp
    have c: "contents m = drop (length ys - n) ys" using assms(2) Some by (simp add: newest_def)
    show ?thesis
    proof (cases "n \<le> length ys")
      case True
      then have "length (contents m) = n" by (simp add: c)
      with law Some have "contents m' = tl (contents m @ [x])" by simp
      also have "\<dots> = drop (Suc (length ys - n)) ys @ [x]"
      proof -
        have "drop (length ys - n) ys \<noteq> []" using True n by simp
        then show ?thesis by (simp add: c drop_Suc tl_drop)
      qed
      also have "\<dots> = drop (length (ys @ [x]) - n) (ys @ [x])" using True n by (simp add: Suc_diff_le)
      finally show ?thesis by (simp add: newest_def Some)
    next
      case False
      then have "length (contents m) < n" by (simp add: c)
      with law Some have "contents m' = contents m @ [x]" by simp
      with False show ?thesis by (simp add: newest_def Some c)
    qed
  qed
  with law d show ?thesis by simp
qed

lemma deliver_all_newest:
  assumes "inv m" and "contents m = newest (room m) ys"
  shows "inv (deliver_all xs m) \<and> room (deliver_all xs m) = room m \<and>
    contents (deliver_all xs m) = newest (room m) (ys @ xs)"
  using assms
proof (induction xs arbitrary: m ys)
  case (Cons x xs)
  from deliver_newest [OF Cons.prems, of x] Cons.IH [of "snd (deliver x m)" "ys @ [x]"]
  show ?case by (simp add: deliver_all_def)
qed (simp add: deliver_all_def)

end

text \<open>A queue whose messages are also taken out.\<close>

locale bounded_fifo = drop_oldest inv contents room deliver
  for inv :: "'m \<Rightarrow> bool" and contents :: "'m \<Rightarrow> 'a list" and room deliver +
  fixes retrieve :: "'m \<Rightarrow> 'a option \<times> 'm" and retrieve_all :: "'m \<Rightarrow> 'a list \<times> 'm"
  assumes retrieve: "inv m \<Longrightarrow> retrieve m = (r, m') \<Longrightarrow>
      inv m' \<and> room m' = room m \<and>
      (case contents m of [] \<Rightarrow> r = None \<and> contents m' = [] | y # ys \<Rightarrow> r = Some y \<and> contents m' = ys)"
    and retrieve_all: "inv m \<Longrightarrow> retrieve_all m = (rs, m') \<Longrightarrow>
      inv m' \<and> room m' = room m \<and> rs = contents m \<and> contents m' = []"
begin

lemma burst_retrieved:
  assumes "inv m" and "contents m = []"
  shows "fst (retrieve_all (deliver_all xs m)) = newest (room m) xs"
proof -
  from assms(2) have "contents m = newest (room m) []" by (simp add: newest_def split: option.splits)
  from deliver_all_newest [OF assms(1) this, of xs]
  have "inv (deliver_all xs m)" "contents (deliver_all xs m) = newest (room m) xs" by simp_all
  then show ?thesis using retrieve_all by (metis prod.collapse)
qed

end

section \<open>The mailbox keeps the contract\<close>

lemma swap_ends_rev:
  assumes "int (length xs) = i" and "int (length xs + length q) - 1 = j"
  shows "swap_ends i j (xs @ q @ ys) = xs @ rev q @ ys"
  using assms
proof (induction "length q" arbitrary: i j xs q ys rule: less_induct)
  case less
  show ?case
  proof (cases "i < j")
    case False
    with less.prems have "length q \<le> 1" by simp
    then have "rev q = q" by (cases q) auto
    with False show ?thesis by (simp add: swap_ends.simps)
  next
    case True
    with less.prems obtain a r where q: "q = a # r" "r \<noteq> []" by (cases q) auto
    then obtain b p where r: "r = p @ [b]" by (metis rev_exhaust)
    have i: "nat i = length xs" and j: "nat j = length xs + 1 + length p"
      using less.prems q r by auto
    have "(xs @ q @ ys)[nat i := (xs @ q @ ys) ! nat j, nat j := (xs @ q @ ys) ! nat i] = (xs @ [b]) @ p @ a # ys"
      by (simp add: q r i j nth_append list_update_append)
    then have "swap_ends i j (xs @ q @ ys) = swap_ends (i + 1) (j - 1) ((xs @ [b]) @ p @ a # ys)"
      using True by (subst swap_ends.simps) simp
    also have "\<dots> = (xs @ [b]) @ rev p @ a # ys"
      using less.prems q r by (intro less.hyps) auto
    finally show ?thesis by (simp add: q r)
  qed
qed

lemma swap_ends_all: "swap_ends 0 (int (length q) - 1) q = rev q"
  using swap_ends_rev [of "[]" 0 q "int (length q) - 1" "[]"] by simp

definition mailbox_inv :: "'a Mailbox \<Rightarrow> bool" where
  "mailbox_inv m \<longleftrightarrow> queueLen m = int (length (queue m)) \<and> (capacity m > 0 \<longrightarrow> length (queue m) \<le> capacity m)"

definition mailbox_room :: "'a Mailbox \<Rightarrow> nat option" where
  "mailbox_room m = (if capacity m = 0 then None else Some (capacity m))"

definition mailbox_contents :: "'a Mailbox \<Rightarrow> 'a list" where
  "mailbox_contents m = rev (queue m)"

lemmas mailbox_defs = mailbox_inv_def mailbox_room_def mailbox_contents_def

interpretation mailbox: bounded_fifo mailbox_inv mailbox_contents mailbox_room Deliver Retrieve RetrieveAll
proof (unfold_locales, goal_cases)
  case (1 m x over m')
  have "rev (butlast (x # queue m)) = tl (rev (queue m) @ [x])"
    by (cases "queue m" rule: rev_cases) auto
  with 1 show ?case
    by (auto simp: Deliver_def Let_def mailbox_defs split: if_splits)
next
  case (2 m n)
  then show ?case by (auto simp: mailbox_defs split: if_splits)
next
  case (3 m r m')
  then show ?case
    by (cases "queue m" rule: rev_cases) (auto simp: Retrieve_def mailbox_defs)
next
  case (4 m rs m')
  then show ?case by (auto simp: RetrieveAll_def swap_ends_all mailbox_defs)
qed

section \<open>Runs\<close>

text \<open>Calls of the operations in some order, with their results.\<close>

datatype 'a call = CDeliver 'a | CRetrieve | CRetrieveAll | CRetrieveLatest | CNotified

datatype 'a answer = RDropped bool | ROne "'a option" | RAll "'a list" | RNotified bool

fun perform :: "'a call \<Rightarrow> 'a Mailbox \<Rightarrow> 'a answer \<times> 'a Mailbox" where
  "perform (CDeliver x) m = map_prod RDropped (\<lambda>m. m) (Deliver x m)"
| "perform CRetrieve m = map_prod ROne (\<lambda>m. m) (Retrieve m)"
| "perform CRetrieveAll m = map_prod RAll (\<lambda>m. m) (RetrieveAll m)"
| "perform CRetrieveLatest m = map_prod ROne (\<lambda>m. m) (RetrieveLatestAndClear m)"
| "perform CNotified m = map_prod RNotified (\<lambda>m. m) (take_notification m)"

fun run_mailbox :: "'a call list \<Rightarrow> 'a Mailbox \<Rightarrow> 'a answer list \<times> 'a Mailbox" where
  "run_mailbox [] m = ([], m)"
| "run_mailbox (c # cs) m =
     (case perform c m of (a, m') \<Rightarrow> case run_mailbox cs m' of (as, m'') \<Rightarrow> (a # as, m''))"

text \<open>
  The specification: the messages, oldest first, and whether one has arrived since the reader was
  last notified. A message that finds the queue full pushes the oldest one out.
\<close>

fun spec_perform :: "nat \<Rightarrow> 'a call \<Rightarrow> 'a list \<times> bool \<Rightarrow> 'a answer \<times> 'a list \<times> bool" where
  "spec_perform cap (CDeliver x) (q, n) =
     (if 0 < cap \<and> length q = cap then (RDropped True, tl q @ [x], True) else (RDropped False, q @ [x], True))"
| "spec_perform cap CRetrieve (q, n) = (case q of [] \<Rightarrow> (ROne None, [], n) | y # ys \<Rightarrow> (ROne (Some y), ys, n))"
| "spec_perform cap CRetrieveAll (q, n) = (RAll q, [], n)"
| "spec_perform cap CRetrieveLatest (q, n) =
     (if q = [] then (ROne None, [], n) else (ROne (Some (last q)), [], n))"
| "spec_perform cap CNotified (q, n) = (RNotified n, q, False)"

fun spec_run :: "nat \<Rightarrow> 'a call list \<Rightarrow> 'a list \<times> bool \<Rightarrow> 'a answer list \<times> 'a list \<times> bool" where
  "spec_run cap [] s = ([], s)"
| "spec_run cap (c # cs) s =
     (case spec_perform cap c s of (a, s') \<Rightarrow> case spec_run cap cs s' of (as, s'') \<Rightarrow> (a # as, s''))"

lemma tl_snoc: "0 < length q \<Longrightarrow> tl (q @ [x]) = tl q @ [x]"
  by (cases q) auto

lemma perform_refines:
  assumes "mailbox_inv m" and "perform c m = (a, m')"
  shows "mailbox_inv m' \<and> capacity m' = capacity m \<and>
    spec_perform (capacity m) c (mailbox_contents m, chNotify m) = (a, mailbox_contents m', chNotify m')"
proof (cases c)
  case (CDeliver x)
  obtain over m1 where d: "Deliver x m = (over, m1)" by fastforce
  have "chNotify m1" "capacity m1 = capacity m" using d by (auto simp: Deliver_def Let_def split: if_splits)
  with mailbox.deliver [OF assms(1) d] assms(2) d CDeliver show ?thesis
    by (auto simp: mailbox_room_def tl_snoc split: if_splits)
next
  case CRetrieve
  obtain r m1 where d: "Retrieve m = (r, m1)" by fastforce
  have "chNotify m1 = chNotify m" "capacity m1 = capacity m" using d by (auto simp: Retrieve_def split: if_splits)
  with mailbox.retrieve [OF assms(1) d] assms(2) d CRetrieve show ?thesis by (auto split: list.splits)
next
  case CRetrieveAll
  obtain r m1 where d: "RetrieveAll m = (r, m1)" by fastforce
  have "chNotify m1 = chNotify m" "capacity m1 = capacity m" using d by (auto simp: RetrieveAll_def)
  with mailbox.retrieve_all [OF assms(1) d] assms(2) d CRetrieveAll show ?thesis by auto
next
  case CRetrieveLatest
  with assms show ?thesis
    by (auto simp: RetrieveLatestAndClear_def mailbox_defs last_rev split: if_splits)
next
  case CNotified
  with assms show ?thesis by (auto simp: take_notification_def mailbox_defs)
qed

lemma run_refines:
  assumes "mailbox_inv m" and "run_mailbox cs m = (as, m')"
  shows "mailbox_inv m' \<and> capacity m' = capacity m \<and>
    spec_run (capacity m) cs (mailbox_contents m, chNotify m) = (as, mailbox_contents m', chNotify m')"
  using assms
proof (induction cs arbitrary: m as)
  case (Cons c cs)
  obtain a m1 where c: "perform c m = (a, m1)" by fastforce
  obtain bs where cs: "run_mailbox cs m1 = (bs, m')" and as: "as = a # bs"
    using Cons.prems(2) c by (auto split: prod.splits)
  from perform_refines [OF Cons.prems(1) c] Cons.IH [OF _ cs] show ?case by (simp add: as)
qed simp

lemma New_inv: "mailbox_inv (New cap)"
  by (simp add: New_def mailbox_inv_def)

text \<open>
  C30. A mailbox is a bounded queue. In every run from a new mailbox each call returns what a queue
  returns that hands out the oldest message first and pushes the oldest one out when it is full;
  a reader that waits is notified exactly when a message was delivered since its last notification;
  the counter is the length of the queue, and that is at most the capacity unless the capacity is zero.
\<close>

theorem mailbox_refines_queue:
  "case run_mailbox calls (New cap) of (answers, m) \<Rightarrow>
     spec_run cap calls ([], False) = (answers, rev (queue m), chNotify m) \<and>
     queueLen m = int (length (queue m)) \<and> (cap = 0 \<or> length (queue m) \<le> cap)"
proof -
  obtain answers m where run: "run_mailbox calls (New cap) = (answers, m)" by fastforce
  from run_refines [OF New_inv run] run show ?thesis
    by (auto simp: New_def mailbox_inv_def mailbox_contents_def)
qed

text \<open>What a reader finds after a burst of messages: the newest ones, in order.\<close>

lemma burst_keeps_newest:
  fixes xs :: "'a list"
  assumes "0 < cap"
  shows "fst (RetrieveAll (mailbox.deliver_all xs (New cap))) = drop (length xs - cap) xs"
proof -
  have "mailbox_contents (New cap :: 'a Mailbox) = []" "mailbox_room (New cap :: 'a Mailbox) = Some cap"
    using assms by (simp_all add: mailbox_defs New_def)
  with mailbox.burst_retrieved [OF New_inv, of cap xs] show ?thesis by (simp add: mailbox.newest_def)
qed

end
