(* ===== verification/Services.thy ===== *)
theory Services
  imports Mailbox
begin

text \<open>
  The life cycle of services (\<^verbatim>\<open>pkg/services/state.go\<close>): the state machine that every service
  embeds, with its lock and its atomic state, and the buffer of its errors.

  Every call runs on a thread of its own. A thread takes one step at a time, between which any other
  thread may run: an atomic access to the state, taking or releasing the lock, entering and leaving
  the function that was passed in. \<open>pc\<close> says where in the call the thread is. A function that is
  passed in returns, returns an error or panics; which of them is a choice of the environment.
\<close>

section \<open>Errors\<close>

text \<open>\<^verbatim>\<open>errors.Join\<close> drops nil errors, and is nil if nothing is left.\<close>

datatype 'e gerror = Leaf 'e | Joined "'e gerror list"

definition join_errors :: "'e gerror option list \<Rightarrow> 'e gerror option" where
  "join_errors errs = (case [e. Some e \<leftarrow> errs] of [] \<Rightarrow> None | es \<Rightarrow> Some (Joined es))"

record 'e ErrorBuffer =
  buffer :: "'e gerror list"
  bufferCap :: int

definition Flush :: "'e ErrorBuffer \<Rightarrow> 'e gerror option \<times> 'e ErrorBuffer" where
  "Flush eb = (join_errors (map Some (buffer eb)), eb\<lparr>buffer := []\<rparr>)"

definition Append :: "'e gerror \<Rightarrow> 'e ErrorBuffer \<Rightarrow> 'e ErrorBuffer" where
  "Append incoming eb =
     (if int (length (buffer eb)) = bufferCap eb \<and> bufferCap eb \<noteq> 0
      then eb\<lparr>buffer := tl (buffer eb) @ [incoming]\<rparr>
      else eb\<lparr>buffer := buffer eb @ [incoming]\<rparr>)"

text \<open>A negative limit makes the slice expression start behind the end.\<close>

definition SetCap :: "int \<Rightarrow> 'e ErrorBuffer \<Rightarrow> (unit, 'e ErrorBuffer) go" where
  "SetCap c eb =
     (let n = int (length (buffer eb))
      in if n > c then if c < 0 then Panic else Ok (eb\<lparr>buffer := drop (nat (n - c)) (buffer eb), bufferCap := c\<rparr>)
         else Ok (eb\<lparr>bufferCap := c\<rparr>))"

definition defaultErrorBufferCap :: int where "defaultErrorBufferCap = 50"

section \<open>The state machine\<close>

datatype svc_state = Unstarted | Started | Starting | StartFailed | Stopping | Stopped | StopFailed

datatype svc_error =
    HasBeenStarted svc_state | ErrAlreadyStopped | ErrCannotStopUnstarted | CannotBeStopped svc_state
  | FnError | ErrNotStarted svc_state

datatype fn_result = FnOk | FnErr | FnPanics

datatype answer = Returned "svc_error option" | BodyRan bool | FnPanicked | UnreachablePanic

datatype pc =
    Idle
  | StartCAS | StartLoad | StartLocking | StartCalling | StartInside | StartSetting bool
  | StopLocking | StopCAS | StopLoad | StopInside | StopSetting bool
  | IfLocking bool | IfChecking bool | IfInside bool
  | Done answer

text \<open>\<open>events\<close> is a record of the run, which the code does not keep.\<close>

datatype event = StartCalled | StartSucceeded | StopCalled

record 'e StateMachine =
  svcState :: svc_state
  writer :: "nat option"
  readers :: "nat list"
  SvcErrBuffer :: "'e ErrorBuffer"
  pcs :: "nat \<Rightarrow> pc"
  events :: "event list"

definition zero_machine :: "'e StateMachine" where
  "zero_machine = \<lparr>svcState = Unstarted, writer = None, readers = [],
     SvcErrBuffer = \<lparr>buffer = [], bufferCap = 0\<rparr>, pcs = (\<lambda>_. Idle), events = []\<rparr>"

definition goto :: "nat \<Rightarrow> pc \<Rightarrow> 'e StateMachine \<Rightarrow> 'e StateMachine" where
  "goto t p m = m\<lparr>pcs := (pcs m)(t := p)\<rparr>"

text \<open>\<^verbatim>\<open>Lock\<close> waits until there is neither a writer nor a reader, \<^verbatim>\<open>RLock\<close> until there is no writer.\<close>

definition lock :: "nat \<Rightarrow> pc \<Rightarrow> 'e StateMachine \<Rightarrow> 'e StateMachine option" where
  "lock t p m =
     (if writer m = None \<and> readers m = [] then Some (goto t p (m\<lparr>writer := Some t\<rparr>)) else None)"

definition rlock :: "nat \<Rightarrow> pc \<Rightarrow> 'e StateMachine \<Rightarrow> 'e StateMachine option" where
  "rlock t p m = (if writer m = None then Some (goto t p (m\<lparr>readers := t # readers m\<rparr>)) else None)"

definition unlock :: "nat \<Rightarrow> answer \<Rightarrow> 'e StateMachine \<Rightarrow> 'e StateMachine" where
  "unlock t a m = goto t (Done a) (m\<lparr>writer := None\<rparr>)"

definition runlock :: "nat \<Rightarrow> answer \<Rightarrow> 'e StateMachine \<Rightarrow> 'e StateMachine" where
  "runlock t a m = goto t (Done a) (m\<lparr>readers := remove1 t (readers m)\<rparr>)"

text \<open>The steps of \<^verbatim>\<open>StartOnce\<close>.\<close>

fun StartOnce :: "nat \<Rightarrow> fn_result \<Rightarrow> pc \<Rightarrow> 'e StateMachine \<Rightarrow> 'e StateMachine option" where
  "StartOnce t r StartCAS m =
     Some (if svcState m = Unstarted then goto t StartLocking (m\<lparr>svcState := Starting\<rparr>) else goto t StartLoad m)"
| "StartOnce t r StartLoad m = Some (goto t (Done (Returned (Some (HasBeenStarted (svcState m))))) m)"
| "StartOnce t r StartLocking m = lock t StartCalling m"
| "StartOnce t r StartCalling m =
     (case SetCap defaultErrorBufferCap (SvcErrBuffer m) of
        Ok eb \<Rightarrow> Some (goto t StartInside (m\<lparr>SvcErrBuffer := eb, events := events m @ [StartCalled]\<rparr>))
      | _ \<Rightarrow> Some (unlock t FnPanicked m))"
| "StartOnce t r StartInside m =
     Some (case r of
        FnOk \<Rightarrow> goto t (StartSetting True) (m\<lparr>events := events m @ [StartSucceeded]\<rparr>)
      | FnErr \<Rightarrow> goto t (StartSetting False) m
      | FnPanics \<Rightarrow> unlock t FnPanicked m)"
| "StartOnce t r (StartSetting succ) m =
     Some (if svcState m = Starting
           then unlock t (Returned (if succ then None else Some FnError))
                  (m\<lparr>svcState := (if succ then Started else StartFailed)\<rparr>)
           else unlock t UnreachablePanic m)"
| "StartOnce t r _ m = None"

text \<open>The steps of \<^verbatim>\<open>StopOnce\<close>.\<close>

definition stop_error :: "svc_state \<Rightarrow> svc_error" where
  "stop_error s =
     (case s of Stopped \<Rightarrow> ErrAlreadyStopped | Unstarted \<Rightarrow> ErrCannotStopUnstarted | _ \<Rightarrow> CannotBeStopped s)"

fun StopOnce :: "nat \<Rightarrow> fn_result \<Rightarrow> pc \<Rightarrow> 'e StateMachine \<Rightarrow> 'e StateMachine option" where
  "StopOnce t r StopLocking m = lock t StopCAS m"
| "StopOnce t r StopCAS m =
     Some (if svcState m = Started
           then goto t StopInside (m\<lparr>svcState := Stopping, events := events m @ [StopCalled]\<rparr>)
           else goto t StopLoad m)"
| "StopOnce t r StopLoad m = Some (unlock t (Returned (Some (stop_error (svcState m)))) m)"
| "StopOnce t r StopInside m =
     Some (case r of
        FnOk \<Rightarrow> goto t (StopSetting True) m
      | FnErr \<Rightarrow> goto t (StopSetting False) m
      | FnPanics \<Rightarrow> unlock t FnPanicked m)"
| "StopOnce t r (StopSetting succ) m =
     Some (if svcState m = Stopping
           then unlock t (Returned (if succ then None else Some FnError))
                  (m\<lparr>svcState := (if succ then Stopped else StopFailed)\<rparr>)
           else unlock t UnreachablePanic m)"
| "StopOnce t r _ m = None"

text \<open>The steps of \<^verbatim>\<open>IfStarted\<close> (the flag is true) and of \<^verbatim>\<open>IfNotStopped\<close>.\<close>

fun IfState :: "nat \<Rightarrow> fn_result \<Rightarrow> pc \<Rightarrow> 'e StateMachine \<Rightarrow> 'e StateMachine option" where
  "IfState t r (IfLocking b) m = rlock t (IfChecking b) m"
| "IfState t r (IfChecking b) m =
     Some (if (if b then svcState m = Started else svcState m \<noteq> Stopped) then goto t (IfInside b) m
           else runlock t (BodyRan False) m)"
| "IfState t r (IfInside b) m = Some (runlock t (if r = FnPanics then FnPanicked else BodyRan True) m)"
| "IfState t r _ m = None"

definition Ready :: "'e StateMachine \<Rightarrow> svc_error option" where
  "Ready m = (if svcState m = Started then None else Some (ErrNotStarted (svcState m)))"

definition Healthy :: "'e StateMachine \<Rightarrow> (svc_error + 'e gerror option) \<times> 'e StateMachine" where
  "Healthy m =
     (if svcState m = Started
      then case Flush (SvcErrBuffer m) of (e, eb) \<Rightarrow> (Inr e, m\<lparr>SvcErrBuffer := eb\<rparr>)
      else (Inl (ErrNotStarted (svcState m)), m))"

definition thread_step :: "nat \<Rightarrow> fn_result \<Rightarrow> 'e StateMachine \<Rightarrow> 'e StateMachine option" where
  "thread_step t r m =
     (case StartOnce t r (pcs m t) m of
        Some m' \<Rightarrow> Some m'
      | None \<Rightarrow> (case StopOnce t r (pcs m t) m of
                    Some m' \<Rightarrow> Some m'
                  | None \<Rightarrow> IfState t r (pcs m t) m))"

text \<open>
  A run: calls begin on threads that are free, threads take steps, and the owner of the service
  may use the error buffer at any time.
\<close>

inductive sm_step :: "'e StateMachine \<Rightarrow> 'e StateMachine \<Rightarrow> bool" where
  sm_call: "pcs m t = Idle \<Longrightarrow> p \<in> {StartCAS, StopLocking, IfLocking True, IfLocking False} \<Longrightarrow>
    sm_step m (goto t p m)"
| sm_thread: "thread_step t r m = Some m' \<Longrightarrow> sm_step m m'"
| sm_append: "sm_step m (m\<lparr>SvcErrBuffer := Append e (SvcErrBuffer m)\<rparr>)"
| sm_healthy: "sm_step m (snd (Healthy m))"

inductive sm_reach :: "'e StateMachine \<Rightarrow> bool" where
  sm_init: "sm_reach zero_machine"
| sm_next: "sm_reach m \<Longrightarrow> sm_step m m' \<Longrightarrow> sm_reach m'"

inductive_cases sm_stepE: "sm_step m m'"

section \<open>The invariant\<close>

fun holds_write :: "pc \<Rightarrow> bool" where
  "holds_write StartCalling = True"
| "holds_write StartInside = True"
| "holds_write (StartSetting _) = True"
| "holds_write StopCAS = True"
| "holds_write StopLoad = True"
| "holds_write StopInside = True"
| "holds_write (StopSetting _) = True"
| "holds_write _ = False"

fun holds_read :: "pc \<Rightarrow> bool" where
  "holds_read (IfChecking _) = True"
| "holds_read (IfInside _) = True"
| "holds_read _ = False"

fun starting :: "pc \<Rightarrow> bool" where
  "starting StartLocking = True"
| "starting StartCalling = True"
| "starting StartInside = True"
| "starting (StartSetting _) = True"
| "starting _ = False"

text \<open>What a thread at some place of its call knows about the state and the run.\<close>

fun pc_ok :: "svc_state \<Rightarrow> event list \<Rightarrow> pc \<Rightarrow> bool" where
  "pc_ok s ev StartLocking = (s = Starting \<and> ev = [])"
| "pc_ok s ev StartCalling = (s = Starting \<and> ev = [])"
| "pc_ok s ev StartInside = (s = Starting \<and> ev = [StartCalled])"
| "pc_ok s ev (StartSetting b) = (s = Starting \<and> ev = (if b then [StartCalled, StartSucceeded] else [StartCalled]))"
| "pc_ok s ev StopInside = (s = Stopping)"
| "pc_ok s ev (StopSetting _) = (s = Stopping)"
| "pc_ok s ev (IfInside b) = (b \<longrightarrow> s = Started)"
| "pc_ok s ev (Done a) = (a \<noteq> UnreachablePanic)"
| "pc_ok s ev _ = True"

fun state_events :: "svc_state \<Rightarrow> event list \<Rightarrow> bool" where
  "state_events Unstarted ev = (ev = [])"
| "state_events Starting ev = (ev \<in> {[], [StartCalled], [StartCalled, StartSucceeded]})"
| "state_events StartFailed ev = (ev = [StartCalled])"
| "state_events Started ev = (ev = [StartCalled, StartSucceeded])"
| "state_events _ ev = (ev = [StartCalled, StartSucceeded, StopCalled])"

definition lock_inv :: "'e StateMachine \<Rightarrow> bool" where
  "lock_inv m \<longleftrightarrow>
     (\<forall>t. holds_write (pcs m t) \<longleftrightarrow> writer m = Some t) \<and> (\<forall>t. holds_read (pcs m t) \<longleftrightarrow> t \<in> set (readers m)) \<and>
     distinct (readers m) \<and> (writer m \<noteq> None \<longrightarrow> readers m = [])"

definition phase_inv :: "'e StateMachine \<Rightarrow> bool" where
  "phase_inv m \<longleftrightarrow>
     (\<forall>t u. starting (pcs m t) \<and> starting (pcs m u) \<longrightarrow> t = u) \<and>
     (\<forall>t. pc_ok (svcState m) (events m) (pcs m t)) \<and> state_events (svcState m) (events m)"

lemmas sm_defs = goto_def lock_def rlock_def unlock_def runlock_def

text \<open>The lock discipline, operation by operation.\<close>

lemma lock_inv_update [simp]:
  "lock_inv (m\<lparr>svcState := s\<rparr>) = lock_inv m" "lock_inv (m\<lparr>events := ev\<rparr>) = lock_inv m"
  "lock_inv (m\<lparr>SvcErrBuffer := eb\<rparr>) = lock_inv m"
  by (simp_all add: lock_inv_def)

lemma goto_lock:
  "lock_inv m \<Longrightarrow> holds_write p = holds_write (pcs m t) \<Longrightarrow> holds_read p = holds_read (pcs m t) \<Longrightarrow>
     lock_inv (goto t p m)"
  by (simp add: lock_inv_def goto_def)

lemma lock_lock:
  "lock t p m = Some m' \<Longrightarrow> lock_inv m \<Longrightarrow> \<not> holds_read (pcs m t) \<Longrightarrow> holds_write p \<Longrightarrow> \<not> holds_read p \<Longrightarrow> lock_inv m'"
  by (auto simp: lock_inv_def lock_def goto_def split: if_splits)

lemma rlock_lock:
  "rlock t p m = Some m' \<Longrightarrow> lock_inv m \<Longrightarrow> \<not> holds_read (pcs m t) \<Longrightarrow> \<not> holds_write p \<Longrightarrow> holds_read p \<Longrightarrow> lock_inv m'"
  by (auto simp: lock_inv_def rlock_def goto_def split: if_splits)

lemma unlock_lock:
  assumes "lock_inv m" and "holds_write (pcs m t)"
  shows "lock_inv (unlock t a m)"
proof -
  have "writer m = Some t" "readers m = []" using assms by (auto simp: lock_inv_def)
  with assms(1) show ?thesis by (auto simp: lock_inv_def unlock_def goto_def)
qed

lemma runlock_lock: "lock_inv m \<Longrightarrow> holds_read (pcs m t) \<Longrightarrow> lock_inv (runlock t a m)"
  unfolding lock_inv_def runlock_def goto_def by auto

lemma thread_lock:
  assumes "lock_inv m" and "thread_step t r m = Some m'"
  shows "lock_inv m'"
  using assms(2) unfolding thread_step_def
  by (cases "pcs m t"; cases r)
    (auto split: if_splits go.splits option.splits intro!: assms(1) goto_lock unlock_lock runlock_lock
      dest: lock_lock [OF _ assms(1)] rlock_lock [OF _ assms(1)])

text \<open>The phases: what one thread does leaves alone what the others know.\<close>

lemma pc_ok_starting: "pc_ok s ev p \<Longrightarrow> starting p \<Longrightarrow> s = Starting"
  by (cases p) auto

lemma pc_ok_outside:
  "pc_ok s ev p \<Longrightarrow> \<not> starting p \<Longrightarrow> \<not> holds_write p \<Longrightarrow> \<not> holds_read p \<Longrightarrow> pc_ok s' ev' p"
  by (cases p) auto

lemma pc_ok_unstarted: "pc_ok Unstarted ev p \<Longrightarrow> pc_ok s' ev' p"
  by (cases p) auto

lemma others_outside:
  assumes "lock_inv m" and "phase_inv m" and "holds_write (pcs m t)" and "starting (pcs m t) \<or> svcState m \<noteq> Starting"
    and "u \<noteq> t"
  shows "pc_ok s' ev' (pcs m u)"
proof -
  have "writer m = Some t" "readers m = []" using assms(1,3) by (auto simp: lock_inv_def)
  then have "\<not> holds_write (pcs m u)" "\<not> holds_read (pcs m u)" using assms(1,5) by (auto simp: lock_inv_def)
  moreover have ok: "pc_ok (svcState m) (events m) (pcs m u)" using assms(2) by (simp add: phase_inv_def)
  moreover have "\<not> starting (pcs m u)" using assms(2,4,5) pc_ok_starting [OF ok] by (auto simp: phase_inv_def)
  ultimately show ?thesis using pc_ok_outside by blast
qed

lemma phase_move:
  assumes "phase_inv m" and "pcs m' = (pcs m)(t := p)" and "\<And>u. u \<noteq> t \<Longrightarrow> pc_ok (svcState m') (events m') (pcs m u)"
    and "pc_ok (svcState m') (events m') p" and "starting p \<Longrightarrow> starting (pcs m t) \<or> (\<forall>u. \<not> starting (pcs m u))"
    and "state_events (svcState m') (events m')"
  shows "phase_inv m'"
  using assms unfolding phase_inv_def by (auto split: if_splits)

lemma phase_goto:
  assumes "phase_inv m" and "pcs m' = (pcs m)(t := p)" and "svcState m' = svcState m" and "events m' = events m"
    and "pc_ok (svcState m) (events m) p" and "starting p \<Longrightarrow> starting (pcs m t)"
  shows "phase_inv m'"
  using assms by (intro phase_move [OF assms(1,2)]) (auto simp: phase_inv_def)

lemma phase_update [simp]: "phase_inv (m\<lparr>SvcErrBuffer := eb\<rparr>) = phase_inv m"
  by (simp add: phase_inv_def)

lemma thread_phase:
  assumes "lock_inv m" and "phase_inv m" and "thread_step t r m = Some m'"
  shows "phase_inv m'"
proof -
  have ok: "pc_ok (svcState m) (events m) (pcs m t)" and ev: "state_events (svcState m) (events m)"
    using assms(2) by (simp_all add: phase_inv_def)
  note out = others_outside [OF assms(1,2), of t]
  show ?thesis
  proof (cases "pcs m t")
    case StartCAS
    show ?thesis
    proof (cases "svcState m = Unstarted")
      case True
      have none: "\<not> starting (pcs m u)" for u
        using assms(2) True pc_ok_starting [of "svcState m"] by (fastforce simp: phase_inv_def)
      have m': "m' = goto t StartLocking (m\<lparr>svcState := Starting\<rparr>)"
        using assms(3) StartCAS True by (simp add: thread_step_def)
      show ?thesis
        using none ev True assms(2) unfolding m'
        by (intro phase_move [OF assms(2)]) (auto simp: goto_def phase_inv_def intro: pc_ok_unstarted)
    qed (use assms(3) StartCAS in \<open>auto simp: thread_step_def goto_def intro!: phase_goto [OF assms(2)]\<close>)
  next
    case StartCalling
    show ?thesis
    proof (cases "SetCap defaultErrorBufferCap (SvcErrBuffer m)")
      case (Ok eb)
      then have m': "m' = goto t StartInside (m\<lparr>SvcErrBuffer := eb, events := events m @ [StartCalled]\<rparr>)"
        using assms(3) StartCalling by (simp add: thread_step_def)
      show ?thesis
        using ok StartCalling out unfolding m'
        by (intro phase_move [OF assms(2), where p = StartInside]) (auto simp: goto_def)
    qed (use assms(3) StartCalling in \<open>auto simp: thread_step_def unlock_def goto_def intro!: phase_goto [OF assms(2)]\<close>)
  next
    case StartInside
    show ?thesis
      using assms(3) ok StartInside out
      by (cases r)
        (auto simp: thread_step_def unlock_def goto_def intro!: phase_goto [OF assms(2)] phase_move [OF assms(2)])
  next
    case (StartSetting b)
    show ?thesis
      using assms(3) ok StartSetting out
      by (cases b) (auto simp: thread_step_def unlock_def goto_def intro!: phase_move [OF assms(2)])
  next
    case StopCAS
    show ?thesis
    proof (cases "svcState m = Started")
      case True
      then have m': "m' = goto t StopInside (m\<lparr>svcState := Stopping, events := events m @ [StopCalled]\<rparr>)"
        using assms(3) StopCAS by (simp add: thread_step_def)
      show ?thesis
        using ev True StopCAS out unfolding m'
        by (intro phase_move [OF assms(2), where p = StopInside]) (auto simp: goto_def)
    qed (use assms(3) StopCAS in \<open>auto simp: thread_step_def goto_def intro!: phase_goto [OF assms(2)]\<close>)
  next
    case (StopSetting b)
    show ?thesis
      using assms(3) ok ev StopSetting out
      by (cases b) (auto simp: thread_step_def unlock_def goto_def intro!: phase_move [OF assms(2)])
  next
    case StopInside
    show ?thesis
      using assms(3) ok StopInside
      by (cases r) (auto simp: thread_step_def unlock_def goto_def intro!: phase_goto [OF assms(2)])
  qed (use assms(3) ok in \<open>auto simp: thread_step_def sm_defs split: if_splits intro!: phase_goto [OF assms(2)]\<close>)
qed

lemma sm_reach_inv: "sm_reach m \<Longrightarrow> lock_inv m \<and> phase_inv m"
proof (induction rule: sm_reach.induct)
  case sm_init
  show ?case by (simp add: zero_machine_def lock_inv_def phase_inv_def)
next
  case (sm_next m m')
  from sm_next.hyps(2) show ?case
  proof cases
    case (sm_call t p)
    with sm_next.IH show ?thesis
      by (auto simp: goto_def intro!: goto_lock [unfolded goto_def] phase_goto [of m])
  next
    case (sm_thread t r)
    with sm_next.IH thread_lock thread_phase show ?thesis by blast
  next
    case (sm_append e)
    with sm_next.IH show ?thesis by simp
  next
    case sm_healthy
    with sm_next.IH show ?thesis by (auto simp: Healthy_def split: prod.splits)
  qed
qed

section \<open>Progress\<close>

text \<open>The steps that a thread still has to take.\<close>

fun pc_rank :: "pc \<Rightarrow> nat" where
  "pc_rank StartCAS = 5"
| "pc_rank StartLoad = 1"
| "pc_rank StartLocking = 4"
| "pc_rank StartCalling = 3"
| "pc_rank StartInside = 2"
| "pc_rank (StartSetting _) = 1"
| "pc_rank StopLocking = 4"
| "pc_rank StopCAS = 3"
| "pc_rank StopLoad = 1"
| "pc_rank StopInside = 2"
| "pc_rank (StopSetting _) = 1"
| "pc_rank (IfLocking _) = 3"
| "pc_rank (IfChecking _) = 2"
| "pc_rank (IfInside _) = 1"
| "pc_rank _ = 0"

lemma pc_rank_zero: "pc_rank p = 0 \<longleftrightarrow> p = Idle \<or> (\<exists>a. p = Done a)"
  by (cases p) auto

lemma thread_rank:
  assumes "thread_step t r m = Some m'"
  obtains p where "pcs m' = (pcs m)(t := p)" and "pc_rank p < pc_rank (pcs m t)"
  using assms by (cases "pcs m t"; cases r)
    (auto simp: thread_step_def sm_defs split: if_splits go.splits option.splits)

lemma holder_steps: "holds_write (pcs m t) \<or> holds_read (pcs m t) \<Longrightarrow> \<exists>m'. thread_step t FnOk m = Some m'"
  by (cases "pcs m t") (auto simp: thread_step_def split: go.splits)

lemma free_steps:
  "writer m = None \<Longrightarrow> readers m = [] \<Longrightarrow> 0 < pc_rank (pcs m t) \<Longrightarrow> \<exists>m'. thread_step t FnOk m = Some m'"
  by (cases "pcs m t") (auto simp: thread_step_def sm_defs split: go.splits)

lemma sm_progress:
  assumes "lock_inv m" and "0 < pc_rank (pcs m t)"
  shows "\<exists>u r m'. thread_step u r m = Some m'"
proof -
  consider u where "writer m = Some u" | u where "u \<in> set (readers m)" | "writer m = None" "readers m = []"
    by (cases "writer m"; cases "readers m") auto
  then show ?thesis
  proof cases
    case (1 u)
    then show ?thesis using holder_steps [of m u] assms(1) unfolding lock_inv_def by blast
  next
    case (2 u)
    then show ?thesis using holder_steps [of m u] assms(1) unfolding lock_inv_def by blast
  next
    case 3
    from free_steps [OF 3 assms(2)] show ?thesis by blast
  qed
qed

text \<open>\<open>n\<close> steps of the threads, in any order.\<close>

inductive thread_steps :: "'e StateMachine \<Rightarrow> nat \<Rightarrow> 'e StateMachine \<Rightarrow> bool" where
  "thread_steps m 0 m"
| "thread_step t r m = Some m1 \<Longrightarrow> thread_steps m1 n m' \<Longrightarrow> thread_steps m (Suc n) m'"

definition work_left :: "'e StateMachine \<Rightarrow> nat list \<Rightarrow> nat" where
  "work_left m ts = (\<Sum>t\<leftarrow>ts. pc_rank (pcs m t))"

lemma thread_step_work:
  assumes "thread_step t r m = Some m'" and "distinct ts" and "\<forall>u. u \<notin> set ts \<longrightarrow> pc_rank (pcs m u) = 0"
  shows "work_left m' ts < work_left m ts" and "\<forall>u. u \<notin> set ts \<longrightarrow> pc_rank (pcs m' u) = 0"
proof -
  from thread_rank [OF assms(1)] obtain p where p: "pcs m' = (pcs m)(t := p)" "pc_rank p < pc_rank (pcs m t)" .
  then have t: "t \<in> set ts" using assms(3) by fastforce
  then show "\<forall>u. u \<notin> set ts \<longrightarrow> pc_rank (pcs m' u) = 0" using assms(3) by (auto simp: p(1))
  have "work_left m' ts = (\<Sum>u\<in>set ts. pc_rank (pcs m' u))" "work_left m ts = (\<Sum>u\<in>set ts. pc_rank (pcs m u))"
    using assms(2) by (simp_all add: work_left_def sum_list_distinct_conv_sum_set)
  moreover have "(\<Sum>u\<in>set ts. pc_rank (pcs m' u)) < (\<Sum>u\<in>set ts. pc_rank (pcs m u))"
    using t p by (intro sum_strict_mono_ex1) auto
  ultimately show "work_left m' ts < work_left m ts" by simp
qed

lemma thread_steps_work:
  assumes "thread_steps m n m'" and "distinct ts" and "\<forall>u. u \<notin> set ts \<longrightarrow> pc_rank (pcs m u) = 0"
  shows "n + work_left m' ts \<le> work_left m ts"
  using assms
proof (induction rule: thread_steps.induct)
  case (2 t r m m1 n m')
  from thread_step_work [OF "2.hyps"(1) "2.prems"] "2.IH" "2.prems"(1) show ?case by fastforce
qed simp

lemma thread_steps_lock: "thread_steps m n m' \<Longrightarrow> lock_inv m \<Longrightarrow> lock_inv m'"
  by (induction rule: thread_steps.induct) (auto intro: thread_lock)

lemma work_bound: "work_left m ts \<le> 5 * length ts"
proof (induction ts)
  case (Cons t ts)
  have "pc_rank (pcs m t) \<le> 5" by (cases "pcs m t") auto
  with Cons show ?case by (simp add: work_left_def)
qed (simp add: work_left_def)

section \<open>Properties\<close>

text \<open>
  C11. A service is started and stopped at most once. However the calls interleave: the function that
  starts the service is called at most once, the one that stops it at most once and only after the
  start has succeeded; neither runs while another of them or a body of \<^verbatim>\<open>IfStarted\<close> or
  \<^verbatim>\<open>IfNotStopped\<close> runs; while a body of \<^verbatim>\<open>IfStarted\<close> runs the service stays started; and the
  panics that the source calls unreachable are.
\<close>

theorem state_machine_safe:
  assumes "sm_reach m"
  shows "(\<exists>rest. events m @ rest = [StartCalled, StartSucceeded, StopCalled]) \<and>
    (\<forall>t. pcs m t \<noteq> Done UnreachablePanic) \<and>
    (\<forall>t. pcs m t = IfInside True \<longrightarrow> svcState m = Started) \<and>
    (\<forall>t u. pcs m t \<in> {StartInside, StopInside} \<and>
       pcs m u \<in> {StartInside, StopInside, IfInside True, IfInside False} \<longrightarrow> t = u)"
proof -
  have l: "lock_inv m" and p: "phase_inv m" using sm_reach_inv [OF assms] by simp_all
  have "\<exists>rest. events m @ rest = [StartCalled, StartSucceeded, StopCalled]"
    using p by (cases "svcState m") (auto simp: phase_inv_def)
  moreover have ok: "pc_ok (svcState m) (events m) (pcs m t)" for t using p by (simp add: phase_inv_def)
  have "pcs m t \<noteq> Done UnreachablePanic" for t using ok [of t] by auto
  moreover have "pcs m t = IfInside True \<longrightarrow> svcState m = Started" for t using ok [of t] by auto
  moreover have "t = u" if "pcs m t \<in> {StartInside, StopInside}"
    "pcs m u \<in> {StartInside, StopInside, IfInside True, IfInside False}" for t u
  proof -
    have "holds_write (pcs m t)" using that(1) by auto
    then have w: "writer m = Some t" "readers m = []" using l by (auto simp: lock_inv_def)
    have "holds_write (pcs m u) \<or> holds_read (pcs m u)" using that(2) by auto
    with w l show ?thesis by (auto simp: lock_inv_def)
  qed
  ultimately show ?thesis by blast
qed

text \<open>
  C35. Every call returns. When the functions that are passed in return, calls on a number of threads
  take at most five steps for each thread, whatever the order; and as long as one of them has not
  returned some thread can take a step, so that no order of the steps ends in a deadlock.
\<close>

theorem state_machine_returns:
  assumes "sm_reach m" and "distinct ts" and "\<forall>u. u \<notin> set ts \<longrightarrow> pcs m u = Idle" and "thread_steps m n m'"
  shows "n \<le> 5 * length ts \<and>
    ((\<forall>u r. thread_step u r m' = None) \<longrightarrow> (\<forall>t\<in>set ts. pcs m' t = Idle \<or> (\<exists>a. pcs m' t = Done a)))"
proof -
  have idle: "\<forall>u. u \<notin> set ts \<longrightarrow> pc_rank (pcs m u) = 0" using assms(3) by simp
  have "n \<le> 5 * length ts" using thread_steps_work [OF assms(4,2) idle] work_bound [of m ts] by simp
  moreover have "lock_inv m'" using thread_steps_lock [OF assms(4)] sm_reach_inv [OF assms(1)] by blast
  ultimately show ?thesis using sm_progress [of m'] pc_rank_zero by (metis gr0I option.distinct(1))
qed

text \<open>Runs that follow a given schedule.\<close>

datatype schedule = Call nat pc | Step nat fn_result

fun follow :: "schedule list \<Rightarrow> 'e StateMachine \<Rightarrow> 'e StateMachine option" where
  "follow [] m = Some m"
| "follow (Call t p # ss) m =
     (if pcs m t = Idle \<and> p \<in> {StartCAS, StopLocking, IfLocking True, IfLocking False}
      then follow ss (goto t p m) else None)"
| "follow (Step t r # ss) m = (case thread_step t r m of None \<Rightarrow> None | Some m' \<Rightarrow> follow ss m')"

lemma follow_reach: "sm_reach m \<Longrightarrow> follow ss m = Some m' \<Longrightarrow> sm_reach m'"
proof (induction ss m rule: follow.induct)
  case (2 t p ss m)
  then show ?case using sm_next [OF _ sm_call] by (auto split: if_splits)
next
  case (3 t r ss m)
  then show ?case using sm_next [OF _ sm_thread] by (auto split: option.splits)
qed simp

lemmas follow_init = follow_reach [OF sm_init]

lemmas run_simps = zero_machine_def thread_step_def sm_defs SetCap_def defaultErrorBufferCap_def stop_error_def

text \<open>
  A stop that comes early is lost. A call of \<^verbatim>\<open>StopOnce\<close> that takes the lock between the moment
  at which \<^verbatim>\<open>StartOnce\<close> has claimed the start and the moment at which it takes the lock does not wait
  for the start: it fails, and the service then starts and stays started.
\<close>

lemma early_stop_lost:
  "\<exists>m :: 'e StateMachine. sm_reach m \<and> pcs m 0 = Done (Returned None) \<and>
     pcs m 1 = Done (Returned (Some (CannotBeStopped Starting))) \<and> svcState m = Started \<and>
     events m = [StartCalled, StartSucceeded]"
proof -
  let ?run = "[Call 0 StartCAS, Step 0 FnOk, Call 1 StopLocking, Step 1 FnOk, Step 1 FnOk, Step 1 FnOk,
    Step 0 FnOk, Step 0 FnOk, Step 0 FnOk, Step 0 FnOk]"
  obtain m :: "'e StateMachine" where m: "follow ?run zero_machine = Some m" by (simp add: run_simps)
  then have "pcs m 0 = Done (Returned None)" "pcs m 1 = Done (Returned (Some (CannotBeStopped Starting)))"
    "svcState m = Started" "events m = [StartCalled, StartSucceeded]" by (auto simp: run_simps)
  with follow_init [OF m] show ?thesis by blast
qed

theorem state_machine_safe_witness:
  "\<exists>m :: nat StateMachine. sm_reach m \<and> events m = [StartCalled] \<and> pcs m 0 = StartInside \<and>
     pcs m 0 \<noteq> Done UnreachablePanic \<and> (\<exists>rest. events m @ rest = [StartCalled, StartSucceeded, StopCalled])"
proof -
  let ?run = "[Call 0 StartCAS, Step 0 FnOk, Step 0 FnOk, Step 0 FnOk]"
  obtain m :: "nat StateMachine" where m: "follow ?run zero_machine = Some m" by (simp add: run_simps)
  then have "pcs m 0 = StartInside" "events m = [StartCalled]" by (auto simp: run_simps)
  with state_machine_safe [OF follow_init [OF m]] follow_init [OF m] show ?thesis by blast
qed

theorem state_machine_returns_witness:
  "\<exists>(m :: nat StateMachine) m'. sm_reach m \<and> thread_steps m 1 m' \<and> 1 \<le> 5 * length [0 :: nat]"
proof -
  obtain m :: "nat StateMachine" where m: "follow [Call 0 StartCAS] zero_machine = Some m" by (simp add: run_simps)
  then have idle: "\<forall>u. u \<notin> set [0] \<longrightarrow> pcs m u = Idle" by (auto simp: run_simps)
  from m have "\<exists>m'. thread_step 0 FnOk m = Some m'" by (auto simp: run_simps)
  then obtain m' where "thread_step 0 FnOk m = Some m'" by blast
  then have st: "thread_steps m 1 m'" using thread_steps.intros(2) [OF _ thread_steps.intros(1)] by fastforce
  from state_machine_returns [OF follow_init [OF m] _ idle st] follow_init [OF m] st show ?thesis by auto
qed

section \<open>The error buffer\<close>

text \<open>A buffer with a limit is a queue that drops its oldest error.\<close>

definition buffer_inv :: "'e ErrorBuffer \<Rightarrow> bool" where
  "buffer_inv eb \<longleftrightarrow> 0 < bufferCap eb \<and> int (length (buffer eb)) \<le> bufferCap eb"

interpretation errs: drop_oldest buffer_inv buffer "\<lambda>eb. Some (nat (bufferCap eb))"
  "\<lambda>e eb. (int (length (buffer eb)) = bufferCap eb, Append e eb)"
proof (unfold_locales, goal_cases)
  case (1 eb e over eb')
  then show ?case by (cases "buffer eb") (auto simp: buffer_inv_def Append_def)
next
  case (2 eb n)
  then show ?case by (auto simp: buffer_inv_def)
qed

lemma SetCap_inv: "0 < c \<Longrightarrow> \<exists>eb'. SetCap c eb = Ok eb' \<and> buffer_inv eb' \<and> bufferCap eb' = c"
  by (auto simp: SetCap_def buffer_inv_def Let_def)

lemma error_buffer_newest:
  assumes "buffer_inv eb"
  shows "buffer (foldl (\<lambda>b e. Append e b) eb es) = errs.newest (Some (nat (bufferCap eb))) (buffer eb @ es)"
proof -
  have "buffer eb = errs.newest (Some (nat (bufferCap eb))) (buffer eb)"
    using assms by (simp add: errs.newest_def buffer_inv_def le_nat_iff)
  from errs.deliver_all_newest [OF assms this, of es] show ?thesis by (simp add: errs.deliver_all_def)
qed

end
