(* ===== verification/Health.thy ===== *)
theory Health
  imports Services
begin

text \<open>
  Services as a group: starting several together (\<^verbatim>\<open>pkg/services/multi.go\<close>) and the health checker
  that polls them (\<^verbatim>\<open>pkg/services/health.go\<close>). What a service answers is an argument: it may
  change from one poll to the next. The metrics that are published on the way are not modelled.
\<close>

section \<open>Several services\<close>

datatype 's svc_call = SvcStart 's | SvcClose 's

record ('s, 'e) StartClose =
  svcStart :: "'s \<Rightarrow> 'e gerror option"
  svcClose :: "'s \<Rightarrow> 'e gerror option"

text \<open>\<^verbatim>\<open>MultiStart\<close> is the list of services it has started; the calls it makes are recorded.\<close>

definition MultiStart_Close :: "('s, 'e) StartClose \<Rightarrow> 's list \<Rightarrow> 'e gerror option \<times> 's svc_call list" where
  "MultiStart_Close S started =
     (foldl (\<lambda>err s. join_errors [err, svcClose S s]) None (rev started), map SvcClose (rev started))"

fun MultiStart_Start ::
    "('s, 'e) StartClose \<Rightarrow> 's list \<Rightarrow> 's list \<Rightarrow> 'e gerror option \<times> 's list \<times> 's svc_call list" where
  "MultiStart_Start S [] started = (None, started, [])"
| "MultiStart_Start S (s # srvcs) started =
     (case svcStart S s of
        Some err \<Rightarrow>
          (case MultiStart_Close S started of (err', calls) \<Rightarrow>
             (join_errors [Some err, err'], started, SvcStart s # calls))
      | None \<Rightarrow>
          (case MultiStart_Start S srvcs (started @ [s]) of (err, started', calls) \<Rightarrow>
             (err, started', SvcStart s # calls)))"

definition CloseBecause ::
    "('s, 'e) StartClose \<Rightarrow> 'e gerror option \<Rightarrow> 's list \<Rightarrow> 'e gerror option \<times> 's svc_call list" where
  "CloseBecause S reason started =
     (case MultiStart_Close S started of (err, calls) \<Rightarrow> (join_errors [reason, err], calls))"

text \<open>\<^verbatim>\<open>multiCloser.Close\<close> closes concurrently: the errors arrive in any order \<open>it\<close>.\<close>

definition multiCloser_Close ::
    "('e gerror list \<Rightarrow> 'e gerror list) \<Rightarrow> ('s, 'e) StartClose \<Rightarrow> 's list \<Rightarrow> 'e gerror option" where
  "multiCloser_Close it S cs =
     foldl (\<lambda>err e. join_errors [err, Some e]) None (it [e. Some e \<leftarrow> map (svcClose S) cs])"

section \<open>The health checker\<close>

record ('s, 'e) HealthReporter =
  repName :: "'s \<Rightarrow> string"
  repReady :: "'s \<Rightarrow> 'e gerror option"
  repHealthReport :: "'s \<Rightarrow> (string, 'e gerror option) gomap"

record ('s, 'e) HealthChecker =
  hcServices :: "(string, 's) gomap"
  hcHealthy :: "(string, 'e gerror option) gomap"
  hcReady :: "(string, 'e gerror option) gomap"

definition NewHealthChecker :: "('s, 'e) HealthChecker" where
  "NewHealthChecker = \<lparr>hcServices = [], hcHealthy = [], hcReady = []\<rparr>"

text \<open>\<^verbatim>\<open>maps.Copy\<close>\<close>

definition copy_into :: "('k, 'v) gomap \<Rightarrow> ('k, 'v) gomap \<Rightarrow> ('k, 'v) gomap" where
  "copy_into dst src = foldl (\<lambda>d (k, v). put k v d) dst src"

definition check_services ::
    "('s, 'e) HealthReporter \<Rightarrow> (string, 's) gomap \<Rightarrow>
     (string, 'e gerror option) gomap \<times> (string, 'e gerror option) gomap" where
  "check_services R services =
     foldl (\<lambda>(ready, healthy) (name, s). (put name (repReady R s) ready, copy_into healthy (repHealthReport R s)))
       ([], []) services"

definition update_health ::
    "((string \<times> 's) list \<Rightarrow> (string \<times> 's) list) \<Rightarrow> ('s, 'e) HealthReporter \<Rightarrow> ('s, 'e) HealthChecker \<Rightarrow>
     ('s, 'e) HealthChecker" where
  "update_health it R c =
     (case check_services R (it (hcServices c)) of (ready, healthy) \<Rightarrow>
        c\<lparr>hcReady := copy_into (hcReady c) ready, hcHealthy := copy_into (hcHealthy c) healthy\<rparr>)"

datatype health_error = Misconfigured | EmptyName

definition Register ::
    "bool \<Rightarrow> ('s, 'e) HealthReporter \<Rightarrow> 's \<Rightarrow> ('s, 'e) HealthChecker \<Rightarrow> (health_error, ('s, 'e) HealthChecker) go" where
  "Register testing R service c =
     (let name = repName R service
      in if name = [] then Err Misconfigured
         else if testing \<and> map_of (hcServices c) name \<noteq> None then Panic
         else Ok (c\<lparr>hcServices := put name service (hcServices c)\<rparr>))"

definition Unregister :: "string \<Rightarrow> ('s, 'e) HealthChecker \<Rightarrow> (health_error, ('s, 'e) HealthChecker) go" where
  "Unregister name c =
     (if name = [] then Err EmptyName else Ok (c\<lparr>hcServices := del name (hcServices c)\<rparr>))"

definition IsReady :: "('s, 'e) HealthChecker \<Rightarrow> bool \<times> (string, 'e gerror option) gomap" where
  "IsReady c = (list_all (\<lambda>(name, state). state = None) (hcReady c), hcReady c)"

definition IsHealthy :: "('s, 'e) HealthChecker \<Rightarrow> bool \<times> (string, 'e gerror option) gomap" where
  "IsHealthy c = (list_all (\<lambda>(name, state). state = None) (hcHealthy c), hcHealthy c)"

text \<open>\<^verbatim>\<open>CopyHealth\<close> and \<^verbatim>\<open>ContainsError\<close>; \<open>is\<close> is \<^verbatim>\<open>errors.Is\<close>.\<close>

definition CopyHealth ::
    "bool \<Rightarrow> (string, 'e gerror option) gomap \<Rightarrow> (string, 'e gerror option) gomap \<Rightarrow>
     (unit, (string, 'e gerror option) gomap) go" where
  "CopyHealth testing dest src =
     go_foldM (\<lambda>dest (name, err).
       case map_of dest name of
         Some errOrig \<Rightarrow>
           if testing then Panic
           else if errOrig \<noteq> None then Ok (put name (join_errors [errOrig, err]) dest)
           else Ok (put name err dest)
       | None \<Rightarrow> Ok (put name err dest)) dest src"

definition ContainsError :: "('e gerror \<Rightarrow> bool) \<Rightarrow> (string, 'e gerror option) gomap \<Rightarrow> bool" where
  "ContainsError is_target report = list_ex (\<lambda>(n, err). case err of None \<Rightarrow> False | Some e \<Rightarrow> is_target e) report"

section \<open>Starting and closing\<close>

lemma join_errors_None: "join_errors errs = None \<longleftrightarrow> list_all (\<lambda>e. e = None) errs"
proof -
  define es where "es = [e. Some e \<leftarrow> errs]"
  have "es = [] \<longleftrightarrow> list_all (\<lambda>e. e = None) errs" unfolding es_def by (induction errs) (auto split: option.splits)
  then show ?thesis unfolding join_errors_def es_def [symmetric] by (cases es) auto
qed

text \<open>
  Services that are started together are started all or none: either every service started in
  order without an error; or one of them failed, an error is returned, the services behind it were
  not started, and those before it were closed again, in reverse order.
\<close>

lemma multi_start_all_or_none:
  "case MultiStart_Start S srvcs started of (err, started', calls) \<Rightarrow>
     if err = None then calls = map SvcStart srvcs \<and> started' = started @ srvcs \<and> list_all (\<lambda>s. svcStart S s = None) srvcs
     else \<exists>pre s post. srvcs = pre @ s # post \<and> list_all (\<lambda>s. svcStart S s = None) pre \<and> svcStart S s \<noteq> None \<and>
       calls = map SvcStart (pre @ [s]) @ map SvcClose (rev (started @ pre))"
proof (induction S srvcs started rule: MultiStart_Start.induct)
  case (2 S s srvcs started)
  show ?case
  proof (cases "svcStart S s")
    case None
    obtain err started' calls where r: "MultiStart_Start S srvcs (started @ [s]) = (err, started', calls)"
      using prod_cases3 by blast
    note IH = "2.IH" [OF None, unfolded r prod.case]
    show ?thesis
    proof (cases "err = None")
      case True
      with IH None r show ?thesis by simp
    next
      case False
      with IH obtain pre t post where "srvcs = pre @ t # post" "list_all (\<lambda>s. svcStart S s = None) pre"
        "svcStart S t \<noteq> None" "calls = map SvcStart (pre @ [t]) @ map SvcClose (rev ((started @ [s]) @ pre))" by auto
      with False None r show ?thesis by (intro case_prodI2) (auto intro!: exI [of _ "s # pre"])
    qed
  next
    case (Some err)
    then show ?thesis
      by (auto simp: MultiStart_Close_def join_errors_None split: prod.splits intro!: exI [of _ "[]"])
  qed
qed simp

section \<open>Health\<close>

lemma map_of_copy_into: "map_of (copy_into dst src) = map_of dst ++ map_of (rev src)"
  by (induction src arbitrary: dst) (auto simp: copy_into_def)

lemma wf_copy_into: "gomap_wf dst \<Longrightarrow> gomap_wf (copy_into dst src)"
  by (induction src arbitrary: dst) (auto simp: copy_into_def)

lemma check_services_ready:
  "fst (check_services R services) = copy_into [] (map (map_prod (\<lambda>n. n) (repReady R)) services)"
proof -
  have "fst (foldl (\<lambda>(ready, healthy) (name, s). (put name (repReady R s) ready, copy_into healthy (repHealthReport R s)))
      (a, b) services) = foldl (\<lambda>d (k, v). put k v d) a (map (map_prod (\<lambda>n. n) (repReady R)) services)" for a b
    by (induction services arbitrary: a b) (auto split: prod.splits)
  then show ?thesis by (simp add: check_services_def copy_into_def)
qed

lemma map_of_order:
  assumes "gomap_wf m" and "iteration_order it"
  shows "gomap_wf (it m)" and "map_of (it m) = map_of m"
proof -
  have "mset (map fst (it m)) = mset (map fst m)" using iteration_orderD [OF assms(2)] by (metis mset_map)
  with assms(1) show wf: "gomap_wf (it m)" by (metis mset_eq_imp_distinct_iff)
  show "map_of (it m) = map_of m"
    using assms(1) wf iteration_orderD [OF assms(2)] by (metis map_of_permute)
qed

text \<open>What the checker knows about a service after an update.\<close>

lemma ready_after_update:
  assumes "gomap_wf (hcServices c)" and "iteration_order it"
  shows "map_of (hcReady (update_health it R c)) name =
    (case map_of (hcServices c) name of Some s \<Rightarrow> Some (repReady R s) | None \<Rightarrow> map_of (hcReady c) name)"
proof -
  let ?src = "map (map_prod (\<lambda>n. n) (repReady R)) (it (hcServices c))"
  have src: "copy_into [] ?src = fst (check_services R (it (hcServices c)))" by (simp add: check_services_ready)
  have "gomap_wf ?src" using map_of_order(1) [OF assms] by (simp add: comp_def)
  moreover have "map_of ?src name = map_option (repReady R) (map_of (hcServices c) name)"
    using map_of_map [of "repReady R" "it (hcServices c)"] map_of_order(2) [OF assms] by (simp add: map_prod_def)
  ultimately have "map_of (copy_into [] ?src) name = map_option (repReady R) (map_of (hcServices c) name)"
    using map_of_permute [of "rev ?src" ?src] by (simp add: map_of_copy_into rev_map [symmetric])
  then have "map_of (rev (copy_into [] ?src)) name = map_option (repReady R) (map_of (hcServices c) name)"
    using map_of_permute [of "rev (copy_into [] ?src)" "copy_into [] ?src"] wf_copy_into [of "[]" ?src]
    by (simp add: rev_map [symmetric])
  then show ?thesis
    unfolding src
    by (cases "check_services R (it (hcServices c))"; cases "map_of (hcServices c) name")
      (simp_all add: update_health_def map_of_copy_into map_add_def)
qed

lemma IsReady_iff: "gomap_wf (hcReady c) \<Longrightarrow> fst (IsReady c) \<longleftrightarrow> (\<forall>name e. map_of (hcReady c) name \<noteq> Some (Some e))"
  unfolding IsReady_def fst_conv list_all_iff by (simp add: map_of_eq_Some_iff split_beta Ball_def) (metis not_Some_eq)

text \<open>
  When the system is ready. After an update the checker reports ready exactly when every
  registered service is ready and no service that is not registered any more was found not ready
  when it was last asked: an answer is never forgotten. A service that is unregistered while it is
  not ready therefore keeps the system not ready, whatever the other services answer, until a service
  of its name is registered again.
\<close>

lemma ready_exact:
  assumes "gomap_wf (hcServices c)" and "gomap_wf (hcReady c)" and "iteration_order it"
  shows "(fst (IsReady (update_health it R c)) \<longleftrightarrow>
      (\<forall>(name, s)\<in>set (hcServices c). repReady R s = None) \<and>
      (\<forall>(name, e)\<in>set (hcReady c). name \<in> gomap_dom (hcServices c) \<or> e = None)) \<and>
    (map_of (hcReady c) name = Some (Some e) \<and> Unregister name c = Ok c' \<longrightarrow> \<not> fst (IsReady (update_health it R c')))"
proof -
  have wf: "gomap_wf (hcReady (update_health it R d))" if "gomap_wf (hcReady d)" for d
    using that by (auto simp: update_health_def split: prod.splits intro: wf_copy_into)
  have "fst (IsReady (update_health it R c)) \<longleftrightarrow>
      (\<forall>name e. (case map_of (hcServices c) name of Some s \<Rightarrow> Some (repReady R s) | None \<Rightarrow> map_of (hcReady c) name) \<noteq> Some (Some e))"
    using IsReady_iff [OF wf [OF assms(2)]] ready_after_update [OF assms(1,3), of R] by simp
  also have "\<dots> \<longleftrightarrow> (\<forall>name s. map_of (hcServices c) name = Some s \<longrightarrow> repReady R s = None) \<and>
      (\<forall>name e. map_of (hcServices c) name = None \<longrightarrow> map_of (hcReady c) name \<noteq> Some (Some e))"
    by (auto split: option.splits)
  also have "\<dots> \<longleftrightarrow> (\<forall>(name, s)\<in>set (hcServices c). repReady R s = None) \<and>
      (\<forall>(name, e)\<in>set (hcReady c). name \<in> gomap_dom (hcServices c) \<or> e = None)"
    unfolding map_of_eq_Some_iff [OF assms(1)] map_of_eq_Some_iff [OF assms(2)] map_of_eq_None_iff
    by (simp add: split_beta Ball_def) (metis not_Some_eq)
  finally have exact: "fst (IsReady (update_health it R c)) \<longleftrightarrow> (\<forall>(name, s)\<in>set (hcServices c). repReady R s = None) \<and>
      (\<forall>(name, e)\<in>set (hcReady c). name \<in> gomap_dom (hcServices c) \<or> e = None)" .
  have "\<not> fst (IsReady (update_health it R c'))"
    if "map_of (hcReady c) name = Some (Some e)" "Unregister name c = Ok c'"
  proof -
    have c': "hcServices c' = del name (hcServices c)" "hcReady c' = hcReady c"
      using that(2) by (auto simp: Unregister_def split: if_splits)
    have "map_of (hcReady (update_health it R c')) name = Some (Some e)"
      using ready_after_update [of c' it R name] assms that(1) by (simp add: c')
    then show ?thesis using IsReady_iff [OF wf [of c']] assms(2) by (auto simp: c')
  qed
  with exact show ?thesis by blast
qed

text \<open>A service that was not ready, and answers ready from now on, but is unregistered.\<close>

definition sample_checker :: "(nat, nat) HealthChecker" where
  "sample_checker = \<lparr>hcServices = [(''a'', 0), (''b'', 1)], hcHealthy = [], hcReady = [(''a'', Some (Leaf 7)), (''b'', None)]\<rparr>"

definition sample_reporter :: "(nat, nat) HealthReporter" where
  "sample_reporter = \<lparr>repName = (\<lambda>s. if s = 0 then ''a'' else ''b''), repReady = (\<lambda>_. None), repHealthReport = (\<lambda>_. [])\<rparr>"

lemma ready_exact_witness:
  "\<exists>c'. Unregister ''a'' sample_checker = Ok c' \<and> fst (IsReady (update_health (\<lambda>xs. xs) sample_reporter sample_checker)) \<and>
     \<not> fst (IsReady (update_health (\<lambda>xs. xs) sample_reporter c'))"
proof -
  obtain c' where c': "Unregister ''a'' sample_checker = Ok c'" by (simp add: Unregister_def)
  from ready_exact [of sample_checker "\<lambda>xs. xs" sample_reporter "''a''" "Leaf 7" c'] c' show ?thesis
    by (simp add: sample_checker_def sample_reporter_def)
qed

end
