(* ===== verification/Transmitter.thy ===== *)
theory Transmitter
  imports Base64 Capability Feeds
begin

text \<open>
  The way of a report from the reporting plugin back to the call that asked for it
  (\<^verbatim>\<open>marshalReportInfo\<close> of \<^verbatim>\<open>reporting_plugin.go\<close>, and \<^verbatim>\<open>transmitter.go\<close>): the plugin puts the id of the
  request into the report's info, the transmitter takes it out, adds signatures and context, and calls
  \<^verbatim>\<open>Execute\<close> with the method \<^verbatim>\<open>send_response\<close>.

  The info is a message inside a \<^verbatim>\<open>structpb\<close> message, as a base64 string (the theory Base64);
  \<^verbatim>\<open>proto.Marshal\<close>, \<^verbatim>\<open>proto.Unmarshal\<close>, the check of \<^verbatim>\<open>structpb\<close> that strings are valid UTF-8, and
  the registry of capabilities are arguments.
\<close>

section \<open>The info of a report\<close>

record ReportInfo =
  riId :: "Id option"
  riShouldReport :: bool

datatype spValue = SpString string | SpOther

datatype tr_error =
    StructUnmarshal | NoReportInfo | ReportInfoNotString | Base64Error | InfoUnmarshal
  | ReportIDError | WrapFailed verr | RegistryError

definition marshalReportInfo ::
    "(ReportInfo \<Rightarrow> bytes option) \<Rightarrow> (string \<Rightarrow> bool) \<Rightarrow> ((string \<times> spValue) list \<Rightarrow> bytes option) \<Rightarrow>
     ReportInfo \<Rightarrow> string \<Rightarrow> bytes option" where
  "marshalReportInfo marshalInfo validUTF8 marshalStruct info keyID =
     (case marshalInfo info of
        None \<Rightarrow> None
      | Some p \<Rightarrow>
          if \<not> validUTF8 keyID then None
          else marshalStruct [(''keyBundleName'', SpString keyID), (''reportInfo'', SpString (base64_encode p))])"

definition extractReportInfo ::
    "(bytes \<Rightarrow> (string \<times> spValue) list option) \<Rightarrow> (bytes \<Rightarrow> ReportInfo option) \<Rightarrow> bytes \<Rightarrow>
     (tr_error, ReportInfo) go" where
  "extractReportInfo unmarshalStruct unmarshalInfo data =
     (case unmarshalStruct data of
        None \<Rightarrow> Err StructUnmarshal
      | Some im \<Rightarrow>
     (case map_of im ''reportInfo'' of
        None \<Rightarrow> Err NoReportInfo
      | Some SpOther \<Rightarrow> Err ReportInfoNotString
      | Some (SpString ris) \<Rightarrow>
     (case base64_decode ris of
        None \<Rightarrow> Err Base64Error
      | Some rib \<Rightarrow>
     (case unmarshalInfo rib of None \<Rightarrow> Err InfoUnmarshal | Some info \<Rightarrow> Ok info))))"

section \<open>Transmission\<close>

record SignedReport =
  srReport :: bytes
  srContext :: bytes
  srSignatures :: "bytes list"
  srID :: bytes

definition empty_report :: SignedReport where
  "empty_report = \<lparr>srReport = [], srContext = [], srSignatures = [], srID = []\<rparr>"

text \<open>The config digest, the low 32 bits of the sequence number where the epoch goes, and zeros.\<close>

definition report_context :: "bytes \<Rightarrow> uint64 \<Rightarrow> bytes" where
  "report_context configDigest seqNr =
     configDigest @ (replicate 27 0 @ be_fixed 4 (unat (ucast seqNr :: uint32)) @ [0]) @ replicate 32 0"

text \<open>The exported fields of the struct, as \<^verbatim>\<open>CreateMapFromStruct\<close> collects them.\<close>

definition signed_report_struct :: "SignedReport \<Rightarrow> (string \<times> 'd any) list" where
  "signed_report_struct r =
     [(''Report'', ABytes (srReport r)), (''Context'', ABytes (srContext r)),
      (''Signatures'', ASlice (map ABytes (srSignatures r))), (''ID'', ABytes (srID r))]"

definition sign_report ::
    "bytes \<Rightarrow> uint64 \<Rightarrow> bytes \<Rightarrow> ReportInfo \<Rightarrow> (bytes \<times> OracleID) list \<Rightarrow> (tr_error, SignedReport) go" where
  "sign_report configDigest seqNr report info signatures =
     (if \<not> riShouldReport info then Ok empty_report
      else case riId info of
          None \<Rightarrow> Panic
        | Some ident \<Rightarrow>
            (case hex_decode (idReportId ident) of (reportIDBytes, ok) \<Rightarrow>
               if ok then Ok \<lparr>srReport = report, srContext = report_context configDigest seqNr,
                              srSignatures = map fst signatures, srID = reportIDBytes\<rparr>
               else Err ReportIDError))"

definition transmission ::
    "SignedReport \<Rightarrow> bool \<Rightarrow> (string \<times> 'd any) list" where
  "transmission signedReport shouldReport =
     [(''method'', AString methodSendResponse), (''transmission'', AMap (signed_report_struct signedReport)),
      (''terminate'', ABool (\<not> shouldReport))]"

text \<open>
  \<^verbatim>\<open>Transmit\<close> up to its call of \<^verbatim>\<open>Execute\<close>, whose error it returns. The capability is fetched once; the
  registry answers with an error or a capability, and one that is not executable makes the type
  assertion panic. The emitted message dereferences the id. \<open>cached\<close> says whether the transmitter has
  a capability already; the second result is its new value.
\<close>

definition Transmit ::
    "(bytes \<Rightarrow> (string \<times> spValue) list option) \<Rightarrow> (bytes \<Rightarrow> ReportInfo option) \<Rightarrow> (string \<Rightarrow> bool option) \<Rightarrow>
     bool \<Rightarrow> bytes \<Rightarrow> uint64 \<Rightarrow> bytes \<times> bytes \<Rightarrow> (bytes \<times> OracleID) list \<Rightarrow>
     (tr_error, 'd CapabilityRequest) go \<times> bool" where
  "Transmit unmarshalStruct unmarshalInfo registryGet cached configDigest seqNr rwi signatures =
     (case extractReportInfo unmarshalStruct unmarshalInfo (snd rwi) of
        Panic \<Rightarrow> (Panic, cached)
      | Err e \<Rightarrow> (Err e, cached)
      | Ok info \<Rightarrow>
     (case sign_report configDigest seqNr (fst rwi) info signatures of
        Panic \<Rightarrow> (Panic, cached)
      | Err e \<Rightarrow> (Err e, cached)
      | Ok signedReport \<Rightarrow>
     (case NewMap (transmission signedReport (riShouldReport info)) of
        Panic \<Rightarrow> (Panic, cached)
      | Err e \<Rightarrow> (Err (WrapFailed e), cached)
      | Ok inputs \<Rightarrow>
     (case (if cached then Some True else registryGet ocrCapabilityID) of
        None \<Rightarrow> (Err RegistryError, cached)
      | Some False \<Rightarrow> (Panic, cached)
      | Some True \<Rightarrow>
     (case riId info of
        None \<Rightarrow> (Panic, True)
      | Some ident \<Rightarrow>
          (Ok \<lparr>rqMetadata = \<lparr>rmWorkflowID = idWorkflowId ident, rmWorkflowOwner = [],
                 rmWorkflowExecutionID = idWorkflowExecutionId ident, rmWorkflowName = [],
                 rmWorkflowDonID = idWorkflowDonId ident, rmWorkflowDonConfigVersion = 0,
                 rmReferenceID = [], rmDecodedWorkflowName = []\<rparr>,
               rqConfig = None, rqInputs = Some inputs\<rparr>, True))))))"

definition SetCapability :: "'c option \<Rightarrow> bool" where
  "SetCapability cap = (cap \<noteq> None)"

section \<open>From the plugin to the call\<close>

text \<open>What the wire formats promise: a message that was marshalled is read back.\<close>

definition info_laws ::
    "(ReportInfo \<Rightarrow> bytes option) \<Rightarrow> (bytes \<Rightarrow> ReportInfo option) \<Rightarrow>
     ((string \<times> spValue) list \<Rightarrow> bytes option) \<Rightarrow> (bytes \<Rightarrow> (string \<times> spValue) list option) \<Rightarrow> bool" where
  "info_laws marshalInfo unmarshalInfo marshalStruct unmarshalStruct \<longleftrightarrow>
     (\<forall>i b. marshalInfo i = Some b \<longrightarrow> unmarshalInfo b = Some i) \<and>
     (\<forall>m b. marshalStruct m = Some b \<longrightarrow> (\<exists>m'. unmarshalStruct b = Some m' \<and> map_of m' = map_of m))"

lemma extract_marshal:
  assumes "info_laws marshalInfo unmarshalInfo marshalStruct unmarshalStruct"
    and "marshalReportInfo marshalInfo validUTF8 marshalStruct info keyID = Some data"
  shows "extractReportInfo unmarshalStruct unmarshalInfo data = Ok info"
proof -
  from assms(2) obtain p where p: "marshalInfo info = Some p"
    and m: "marshalStruct [(''keyBundleName'', SpString keyID), (''reportInfo'', SpString (base64_encode p))] = Some data"
    by (auto simp: marshalReportInfo_def split: option.splits if_splits)
  from assms(1) m obtain im where "unmarshalStruct data = Some im"
    "map_of im ''reportInfo'' = Some (SpString (base64_encode p))"
    by (fastforce simp: info_laws_def)
  with assms(1) p show ?thesis
    by (simp add: extractReportInfo_def base64_roundtrip info_laws_def)
qed

definition signed_report_value :: "SignedReport \<Rightarrow> 'd vmap" where
  "signed_report_value r =
     [(''Report'', VBytes (srReport r)), (''Context'', VBytes (srContext r)),
      (''Signatures'', VList (map VBytes (srSignatures r))), (''ID'', VBytes (srID r))]"

definition transmission_value :: "SignedReport \<Rightarrow> bool \<Rightarrow> 'd vmap" where
  "transmission_value r shouldReport =
     [(''method'', VString methodSendResponse), (''transmission'', VMap (signed_report_value r)),
      (''terminate'', VBool (\<not> shouldReport))]"

lemma wrap_bytes: "go_mapM (\<lambda>r. r) (map Wrap (map ABytes bs)) = Ok (map VBytes bs)"
  by (induction bs) simp_all

lemma NewMap_signed_report [simp]: "NewMap (signed_report_struct r) = Ok (signed_report_value r)"
  by (simp add: NewMap_def signed_report_struct_def signed_report_value_def wrap_bytes [simplified])

lemma NewMap_transmission [simp]: "NewMap (transmission r b :: (string \<times> 'd any) list) = Ok (transmission_value r b)"
proof -
  have "Wrap (AMap (signed_report_struct r :: (string \<times> 'd any) list)) = Ok (VMap (signed_report_value r))"
    by (simp only: Wrap_AMap NewMap_signed_report go_map.simps)
  then show ?thesis
    by (simp add: NewMap_def transmission_def transmission_value_def del: Wrap.simps(5))
qed

text \<open>
  The signed report that a transmission carries, and the request with which it is handed over.
\<close>

definition signed_for :: "bytes \<Rightarrow> uint64 \<Rightarrow> bytes \<Rightarrow> Id \<Rightarrow> bool \<Rightarrow> (bytes \<times> OracleID) list \<Rightarrow> SignedReport" where
  "signed_for configDigest seqNr report ident shouldReport signatures =
     (if shouldReport
      then \<lparr>srReport = report, srContext = report_context configDigest seqNr,
            srSignatures = map fst signatures, srID = fst (hex_decode (idReportId ident))\<rparr>
      else empty_report)"

lemma Transmit_sends:
  assumes "extractReportInfo unmarshalStruct unmarshalInfo infob = Ok \<lparr>riId = Some ident, riShouldReport = b\<rparr>"
    and "b \<Longrightarrow> snd (hex_decode (idReportId ident))" and "cached \<or> registryGet ocrCapabilityID = Some True"
  shows "\<exists>creq. Transmit unmarshalStruct unmarshalInfo registryGet cached configDigest seqNr (report, infob) signatures =
      (Ok creq, True) \<and>
    rmWorkflowExecutionID (rqMetadata creq) = idWorkflowExecutionId ident \<and>
    rqInputs creq = Some (transmission_value (signed_for configDigest seqNr report ident b signatures) b)"
proof -
  have "sign_report configDigest seqNr report \<lparr>riId = Some ident, riShouldReport = b\<rparr> signatures =
      Ok (signed_for configDigest seqNr report ident b signatures)"
    using assms(2) by (auto simp: sign_report_def signed_for_def split: prod.splits)
  with assms(1,3) show ?thesis
    by (auto simp: Transmit_def)
qed

text \<open>
  What \<^verbatim>\<open>mapstructure\<close> promises for the struct that \<^verbatim>\<open>Execute\<close> unwraps its inputs into: the fields are
  set from the entries of their names, the map of values being unwrapped.
\<close>

definition unwrap_law :: "('d, 's, 'j) cap_env \<Rightarrow> bool" where
  "unwrap_law E \<longleftrightarrow>
     (\<forall>d method t a b. Unwrap (valueLib E) (VMap t) = Ok (AMap a) \<longrightarrow>
        unwrapMethod E d [(''method'', VString method), (''transmission'', VMap t), (''terminate'', VBool b)] =
          \<lparr>exMethod = method, exTransmission = Some a, exTerminate = b\<rparr>)"

lemma Unwrap_map:
  assumes "vlib_laws L"
  shows "\<exists>a. Unwrap L (VMap t) = Ok (AMap a) \<and> NewMap a = Ok t"
proof -
  obtain x where x: "Unwrap L (VMap t) = Ok x" "Wrap x = Ok (VMap t)"
    using Unwrap_Wrap [OF assms] by blast
  then obtain a where "x = AMap a" by (auto simp: go_simps)
  with x show ?thesis
    using Wrap_AMap [of a] by (auto simp: go_simps simp del: Wrap.simps)
qed

lemma Execute_transmission:
  assumes "vlib_laws (valueLib E)" and "unwrap_law E" and "rqInputs creq = Some (transmission_value r b)"
  shows "Execute E now ch creq o0 =
    (SendsResponse \<lparr>rsWorkflowExecutionID = rmWorkflowExecutionID (rqMetadata creq),
       rsValue = Some (signed_report_value r), rsErr = (if b then None else Some ErrStopExecution)\<rparr>, o0)"
proof -
  obtain a where a: "Unwrap (valueLib E) (VMap (signed_report_value r)) = Ok (AMap a)"
    "NewMap a = Ok (signed_report_value r)"
    using Unwrap_map [OF assms(1)] by blast
  have "exec_inputs_of E (rqInputs creq) =
      \<lparr>exMethod = methodSendResponse, exTransmission = Some a, exTerminate = \<not> b\<rparr>"
    using assms(2,3) a(1) by (simp add: exec_inputs_of_def transmission_value_def unwrap_law_def)
  then show ?thesis
    using a(2) by (simp add: Execute_def send_response_point_def)
qed

text \<open>A response for a stored request goes to the call that waits for it.\<close>

lemma response_reaches_call:
  assumes inv: "sys_inv E s" and w: "(req, len) \<in> set (waiting s)"
    and stored: "map_of (requests (hstore (sys_handler s))) (WorkflowExecutionID req) = Some req"
    and resp: "rsWorkflowExecutionID resp = WorkflowExecutionID req"
    and step: "sys_worker it (ResponseIn resp now False) (s\<lparr>sentResponses := rs\<rparr>) = Ok s1" and inv1: "sys_inv E s1"
  shows "\<exists>s2 len'. sys_step E it s1 (CallReceives (CallbackCh req)) = Ok s2 \<and>
    (req, Execute_resume E len' (Some resp)) \<in> set (answered s2)"
proof -
  obtain h where h: "handle_response False now resp (sys_handler s) = Ok h"
    and s1: "s1 = s\<lparr>sentResponses := rs, sysCap := (sysCap s)\<lparr>reqHandler := h\<rparr>\<rparr>"
    using step by (auto simp: sys_worker_def go_simps)
  have wf: "store_wf (hstore (sys_handler s))"
    using inv handler_reachable_inv by (auto simp: sys_inv_def handler_inv_def maps_inv_def)
  obtain ro found s' where ev: "evict (WorkflowExecutionID req) (hstore (sys_handler s)) = (ro, found, s')"
    by (metis prod_cases3)
  with evict_spec [OF wf ev] stored have "ro = Some req" "found" by auto
  with h ev resp have "(req, resp) \<in> set (delivered h)"
    by (auto simp: handle_response_def sendResponse_def split: if_splits)
  then have del: "(req, resp) \<in> set (delivered (sys_handler s1))"
    by (simp add: s1 sys_handler_def)
  obtain q y where f: "find (\<lambda>(r, _). CallbackCh r = CallbackCh req) (delivered (sys_handler s1)) = Some (q, y)"
    using find_channel_ex [OF refl del] by auto
  have "distinct (map (\<lambda>(r, _). CallbackCh r) (delivered (sys_handler s1)))"
    using inv1 handler_reachable_inv by (auto simp: sys_inv_def handler_inv_def log_inv_def)
  then have "inj_on (\<lambda>(r, _). CallbackCh r) (set (delivered (sys_handler s1)))"
    by (simp add: distinct_map)
  then have "(q, y) = (req, resp)"
    using find_channel [OF f] del by (elim inj_onD) auto
  with f have "sys_step E it s1 (CallReceives (CallbackCh req)) = Ok (sys_return E (CallbackCh req) (Some resp) s1)"
    by simp
  moreover have "(req, len) \<in> set (waiting s1)" using w by (simp add: s1)
  ultimately show ?thesis
    using sys_return_answers [OF inv1] by metis
qed

lemma transmission_reaches_call:
  assumes inv: "sys_inv E s" and laws: "schema_laws E" "iteration_order it" "vlib_laws (valueLib E)" "unwrap_law E"
    and w: "(req, len) \<in> set (waiting s)"
    and stored: "map_of (requests (hstore (sys_handler s))) (WorkflowExecutionID req) = Some req"
    and creq: "rmWorkflowExecutionID (rqMetadata creq) = WorkflowExecutionID req" "rqInputs creq = Some (transmission_value r b)"
  shows "\<exists>s1 s2 n. sys_step E it s (Call now creq False False) = Ok s1 \<and>
    sys_step E it s1 (CallReceives (CallbackCh req)) = Ok s2 \<and>
    (req, (\<lparr>crValue = Some (signed_report_value r), crSpendValue = Some n\<rparr>,
       if b then None else Some (ResponseError ErrStopExecution))) \<in> set (answered s2)"
proof -
  let ?resp = "\<lparr>rsWorkflowExecutionID = WorkflowExecutionID req, rsValue = Some (signed_report_value r),
    rsErr = (if b then None else Some ErrStopExecution)\<rparr>"
  obtain s1 where s1: "sys_step E it s (Call now creq False False) = Ok s1" "sys_inv E s1"
    using sys_step_inv [OF inv laws(1,2)] by blast
  have same: "s\<lparr>sysCap := sysCap s\<rparr> = s" by simp
  have "sys_worker it (ResponseIn ?resp now False) (s\<lparr>sentResponses := ?resp # sentResponses s\<rparr>) = Ok s1"
    using s1(1) Execute_transmission [OF laws(3,4) creq(2), of now "nextCh s" "sysCap s"] creq(1)
    by (simp add: sys_call_def same)
  from response_reaches_call [OF inv w stored _ this s1(2)] obtain s2 n where
    "sys_step E it s1 (CallReceives (CallbackCh req)) = Ok s2"
    "(req, Execute_resume E n (Some ?resp)) \<in> set (answered s2)"
    by auto
  with s1(1) show ?thesis
    by (intro exI [of _ s1] exI [of _ s2]) (auto simp: Execute_resume_def split: if_splits)
qed

text \<open>
  C4. A report reaches the call that asked for it. For a request that is stored and whose call waits,
  the info that the plugin attaches to its report is read back by the transmitter, and the call that the
  transmitter makes hands the signed report over: the waiting call returns the report, its context, the
  signatures and the decoded report id, with no error, or, if the plugin decided not to report, an empty
  report with the error that stops the execution.
\<close>

theorem transmit_completes:
  fixes E :: "('d, 's, 'j) cap_env"
  assumes "system_reachable E s" and "schema_laws E" and "iteration_order it"
    and "vlib_laws (valueLib E)" and "unwrap_law E"
    and "(req, len) \<in> set (waiting s)"
    and "map_of (requests (hstore (sys_handler s))) (WorkflowExecutionID req) = Some req"
    and "info_laws marshalInfo unmarshalInfo marshalStruct unmarshalStruct"
    and "marshalReportInfo marshalInfo validUTF8 marshalStruct
      \<lparr>riId = Some (id_of_request req), riShouldReport = b\<rparr> (KeyID req) = Some infob"
    and "b \<Longrightarrow> snd (hex_decode (ReportID req))" and "cached \<or> registryGet ocrCapabilityID = Some True"
  shows "\<exists>creq s1 s2 n.
    Transmit unmarshalStruct unmarshalInfo registryGet cached configDigest seqNr (report, infob) signatures = (Ok creq, True) \<and>
    sys_step E it s (Call now creq False False) = Ok s1 \<and>
    sys_step E it s1 (CallReceives (CallbackCh req)) = Ok s2 \<and>
    (req, (\<lparr>crValue = Some (signed_report_value
               (signed_for configDigest seqNr report (id_of_request req) b signatures)), crSpendValue = Some n\<rparr>,
       if b then None else Some (ResponseError ErrStopExecution))) \<in> set (answered s2)"
proof -
  note inv = system_reachable_inv [OF assms(1,2)]
  have ident: "idReportId (id_of_request req) = ReportID req"
    "idWorkflowExecutionId (id_of_request req) = WorkflowExecutionID req"
    by (simp_all add: id_of_request_def)
  obtain creq :: "'d CapabilityRequest" where
    "Transmit unmarshalStruct unmarshalInfo registryGet cached configDigest seqNr (report, infob) signatures = (Ok creq, True)"
    "rmWorkflowExecutionID (rqMetadata creq) = WorkflowExecutionID req"
    "rqInputs creq = Some (transmission_value (signed_for configDigest seqNr report (id_of_request req) b signatures) b)"
    using Transmit_sends [OF extract_marshal [OF assms(8,9)], of cached registryGet configDigest seqNr report signatures]
      assms(10,11) unfolding ident by blast
  with transmission_reaches_call [OF inv assms(2,3,4,5,6,7) this(2,3), of now] show ?thesis
    by blast
qed

definition sample_info :: ReportInfo where
  "sample_info = \<lparr>riId = Some (id_of_request sample_queued), riShouldReport = True\<rparr>"

definition sample_struct :: "(string \<times> spValue) list" where
  "sample_struct = [(''keyBundleName'', SpString ''evm''), (''reportInfo'', SpString ''AQ=='')]"

lemma sample_info_laws:
  "info_laws (\<lambda>i. if i = sample_info then Some [1] else None) (\<lambda>b. if b = [1] then Some sample_info else None)
     (\<lambda>m. if m = sample_struct then Some [2] else None) (\<lambda>b. if b = [2] then Some sample_struct else None)"
  by (auto simp: info_laws_def)

lemma sample_env_unwraps: "vlib_laws (valueLib sample_env)" "unwrap_law sample_env"
  using pair_vlib_laws by (simp_all add: sample_env_def unwrap_law_def sample_unwrapMethod_def)

lemma sample_marshalled:
  "marshalReportInfo (\<lambda>i. if i = sample_info then Some [1] else None) (\<lambda>_. True)
     (\<lambda>m. if m = sample_struct then Some [2] else None)
     \<lparr>riId = Some (id_of_request sample_queued), riShouldReport = True\<rparr> (KeyID sample_queued) = Some [2]"
  by code_simp

lemma sample_stored:
  "map_of (requests (hstore (sys_handler (sys_run (take 2 sample_events))))) (WorkflowExecutionID sample_queued) =
     Some sample_queued"
  by code_simp

theorem transmit_completes_witness:
  "\<exists>creq s1 s2 n.
    Transmit (\<lambda>b. if b = [2] then Some sample_struct else None) (\<lambda>b. if b = [1] then Some sample_info else None)
      (\<lambda>_. Some True) False (replicate 32 9) 7 ([5, 6], [2]) [([3], 0), ([4], 2)] = (Ok creq, True) \<and>
    sys_step sample_env (\<lambda>m. m) (sys_run (take 2 sample_events)) (Call 9 creq False False) = Ok s1 \<and>
    sys_step sample_env (\<lambda>m. m) s1 (CallReceives (CallbackCh sample_queued)) = Ok s2 \<and>
    (sample_queued, (\<lparr>crValue = Some (signed_report_value
        (signed_for (replicate 32 9) 7 [5, 6] (id_of_request sample_queued) True [([3], 0), ([4], 2)])),
       crSpendValue = Some n\<rparr>, if True then None else Some (ResponseError ErrStopExecution))) \<in> set (answered s2)"
proof (rule transmit_completes [OF sys_run_reachable sample_env_laws iteration_order_id sample_env_unwraps _
      sample_stored sample_info_laws sample_marshalled])
  show "(sample_queued, 3) \<in> set (waiting (sys_run (take 2 sample_events)))"
    using sample_waiting by simp
  show "snd (hex_decode (ReportID sample_queued))" by code_simp
qed simp

section \<open>The context of a report\<close>

text \<open>
  The context has 96 bytes and determines the config digest and the low 32 bits of the sequence number;
  sequence numbers that differ by a multiple of \<open>2 ^ 32\<close> have the same context.
\<close>

lemma report_context_eq:
  assumes "length d1 = 32" and "length d2 = 32"
  shows "length (report_context d1 n1) = 96"
    and "report_context d1 n1 = report_context d2 n2 \<longleftrightarrow> d1 = d2 \<and> (ucast n1 :: uint32) = ucast n2"
proof -
  show "length (report_context d1 n1) = 96" using assms by (simp add: report_context_def)
  have "be_fixed 4 (unat v) = be_fixed 4 (unat w) \<longleftrightarrow> v = w" for v w :: uint32
  proof
    assume "be_fixed 4 (unat v) = be_fixed 4 (unat w)"
    then have "unat v mod 256 ^ 4 = unat w mod 256 ^ 4" by (metis be_nat_be_fixed)
    moreover have "unat x mod 256 ^ 4 = unat x" for x :: uint32
    proof -
      have "unat x < 2 ^ LENGTH(32)" by (rule unsigned_less)
      then show ?thesis by simp
    qed
    ultimately show "v = w" by (simp add: word_unat_eq_iff)
  qed simp
  then show "report_context d1 n1 = report_context d2 n2 \<longleftrightarrow> d1 = d2 \<and> (ucast n1 :: uint32) = ucast n2"
    using assms by (simp add: report_context_def)
qed

end
