(* ===== verification/Spec2Isabelle.thy ===== *)
theory Spec2Isabelle
  imports Nodes Secrets Utils ModifierMaps Plugins ContractReader MercuryTrigger WasmGuest Requests Identical Reduce LLO ReportingPlugin EncodingsBuild MerkleMulti Health Workflows
    Transmitter
begin

text \<open>
  A verification development for the Go repository \<^verbatim>\<open>chainlink-common\<close>, the shared library of the
  Chainlink nodes: its consensus capability, and the building blocks around it whose correctness is
  a matter of logic and not of input and output.

  \<^bold>\<open>The program and how its parts interact.\<close> A workflow is a graph of steps. Its engine
  interpolates the inputs of a step from the results of earlier steps (\<^verbatim>\<open>pkg/workflows\<close>). Triggers start
  it, such as the streams trigger with the latest reports of feeds (\<^verbatim>\<open>pkg/capabilities/triggers\<close>). A
  consensus step is a request to the OCR3 capability (\<^verbatim>\<open>pkg/capabilities/consensus/ocr3\<close>): the
  request handler stores it and answers it later over a callback channel; in every round the reporting
  plugin of the leader queries the oldest requests, every oracle sends what it observed for them,
  every oracle computes the same outcome with the aggregator of the workflow, and reports are made
  from the outcome. Observations, configurations and outcomes are dynamic values (\<^verbatim>\<open>pkg/values\<close>).
  A workflow can be a WASM binary, which its host runs in a sandbox (\<^verbatim>\<open>pkg/workflows/wasm\<close>): the guest builds
  the spec, and computes steps with the help of the host, through which alone it reaches the outside.
  Chains are read through plugins in other processes (\<^verbatim>\<open>pkg/loop\<close>).
  Services with a common life cycle run all this (\<^verbatim>\<open>pkg/services\<close>); chain data is encoded by type
  codecs (\<^verbatim>\<open>pkg/codec/encodings\<close>), after modifiers have turned it from the form that the node uses into the form
  of the contract (\<^verbatim>\<open>pkg/codec\<close>), and proved by Merkle trees (\<^verbatim>\<open>pkg/merklemulti\<close>).

  \<^bold>\<open>The theories.\<close>

  \<^item> \<open>Prelude\<close>: results of Go functions (\<open>Ok\<close>, \<open>Err\<close>, \<open>Panic\<close>) and loops over them, Go maps as
    association lists with an arbitrary iteration order, bytes, counting lemmas for quorums.
  \<^item> \<open>Values\<close> models \<^verbatim>\<open>pkg/values\<close>: the value type, \<open>Proto\<close> and \<open>FromProto\<close>, \<open>Wrap\<close> and
    \<open>Unwrap\<close>, bounds-checked integers, \<open>DeleteAtPath\<close>. Round trips, exact bounds, and the
    conversions that lose a value.
  \<^item> \<open>Requests\<close> models \<^verbatim>\<open>ocr3/requests\<close>: the store, whose contract is the locale \<open>request_queue\<close>, and
    the worker of the handler as a step relation over events. No request is answered twice, no send on
    a closed channel, expiry answers everything that is due.
  \<^item> \<open>ConsensusTypes\<close> models \<^verbatim>\<open>ocr3/types\<close>: outcomes, metadata, counting by hash, and the locale
    \<open>aggregator\<close>, the contract of an aggregator with the plugin, which each of the following four
    theories interprets on its aggregator.
  \<^item> \<open>Identical\<close>, \<open>Reduce\<close> (\<^verbatim>\<open>ocr3/aggregators\<close>), \<open>Feeds\<close>, \<open>LLO\<close> (\<^verbatim>\<open>ocr3/datafeeds\<close>): one
    definition per function, from the parser of the configuration to \<open>Aggregate\<close>. What is reported is
    backed by honest oracles whichever \<open>f\<close> are faulty; outcomes do not depend on the iteration order of
    maps; which values are reported and recorded; and where one faulty oracle can do harm.
  \<^item> \<open>ReportingPlugin\<close> models \<^verbatim>\<open>ocr3/reporting_plugin.go\<close> on wire messages, with a heap for the objects
    that outcomes and reports share. Quorums, timestamps, encoder overrides, pruning of state.
  \<^item> \<open>CapabilityIds\<close> models the identifiers of capabilities (\<^verbatim>\<open>pkg/capabilities/capabilities.go\<close>): the expression of
    valid ids as a recogniser, and the constructors that check it.
  \<^item> \<open>Validator\<close> models \<^verbatim>\<open>pkg/capabilities/validate.go\<close>: its cache of schemas is transparent.
  \<^item> \<open>Capability\<close> models \<^verbatim>\<open>ocr3/capability.go\<close> and \<^verbatim>\<open>factory.go\<close>: a system of any number of calls, of
    registrations, of the handler's worker and its timers, in every interleaving (\<open>system_reachable\<close>).
    No step panics, a call gets its own answer, it gets one in time, what is stored can be observed. The
    freshness of channels that \<open>Requests\<close> assumes is proved here. The locale \<open>workflow_registry\<close> is what
    the plugin relies on.
  \<^item> \<open>Base64\<close> models \<^verbatim>\<open>encoding/base64\<close>. \<open>Transmitter\<close> models \<^verbatim>\<open>ocr3/transmitter.go\<close> and closes the circle: a report is
    handed to the call that waits for it.
  \<^item> \<open>Encodings\<close>, \<open>EncodingsBuild\<close> model \<^verbatim>\<open>pkg/codec/encodings\<close>: a \<^verbatim>\<open>TypeCodec\<close> is the tuple of its
    methods, its contract is the locale \<open>type_codec\<close>. Each codec is an interpretation or a lemma that
    builds a contract from contracts; \<open>codec_built\<close> are the codecs the builders can make. Round trips
    and safety on bytes from outside follow by rule induction.
  \<^item> \<open>MerkleMulti\<close> models \<^verbatim>\<open>pkg/merklemulti\<close> and the hasher of \<^verbatim>\<open>pkg/hashutil\<close>. The verifier's array
    refines a queue of hashes (\<open>queue_verify\<close>), over which completeness (in the locale \<open>hasher\<close>) and
    soundness, with an exhibited collision, are proved.
  \<^item> \<open>Mailbox\<close> models \<^verbatim>\<open>pkg/utils/mailbox\<close>, which refines a bounded queue; the locales
    \<open>drop_oldest\<close> and \<open>bounded_fifo\<close> are also the contract of the error buffer of
  \<^item> \<open>Services\<close>, which models \<^verbatim>\<open>pkg/services/state.go\<close> as threads that interleave at every atomic step:
    an invariant of the lock and one of the phases, and a measure that bounds every run.
  \<^item> \<open>Health\<close> models \<^verbatim>\<open>pkg/services/multi.go\<close> and \<^verbatim>\<open>health.go\<close>.
  \<^item> \<open>Workflows\<close> models \<^verbatim>\<open>pkg/workflows/dependency_graph.go\<close>, \<^verbatim>\<open>sdk/workflow_spec.go\<close> and
    \<^verbatim>\<open>exec/interpolation.go\<close>: graphs that are built can be run, and interpolation reads the
    declared dependencies only.
  \<^item> \<open>SpecBuilder\<close> models the builder of specs (\<^verbatim>\<open>sdk/builder.go\<close>, \<^verbatim>\<open>compute.go\<close>) and their wire form: names
    are distinct in a spec that is returned, references resolve to the step they were made from.
  \<^item> \<open>CapabilityPb\<close> models \<^verbatim>\<open>pkg/capabilities/pb\<close>: what of a message survives the wire; the locale
    \<open>wire_message\<close> is the contract of a pair of conversions, interpreted for each kind of message.
  \<^item> \<open>MercuryTrigger\<close> models the streams trigger and the aggregator of remote trigger events
    (\<^verbatim>\<open>pkg/capabilities/triggers\<close>): what is delivered to which subscriber in every reachable state, at what
    times, and that remote events hold signed reports only.
  \<^item> \<open>WasmMemory\<close> models the host's access to guest memory and the WASI functions it replaces, with
    32-bit pointers that wrap.
  \<^item> \<open>WasmHost\<close> models \<^verbatim>\<open>wasm/host/module.go\<close>: an arbitrary guest is a tree of host calls; runs
    interleave in \<open>mstep\<close>. Bounded fetches, responses of one's own, a store that is left as it was found.
    The store's contract is the locale \<open>request_store\<close>.
  \<^item> \<open>WasmGuest\<close> models the guest's side, \<^verbatim>\<open>wasm/sdk.go\<close> and \<^verbatim>\<open>runner.go\<close>, and joins both: a fetch comes back,
    a run returns what the workflow's function did.
  \<^item> \<open>Query\<close> models \<^verbatim>\<open>pkg/types/query\<close>: filters of nested expressions, what they mean, limits and sorting.
    \<open>ContractReader\<close> models the reader of contracts behind a process boundary
    (\<^verbatim>\<open>pkg/loop/internal/relayer/pluginprovider/contractreader\<close>): client and server together are the implementation, for
    reads, batches and queries. What an encoding has to do for that is the locale \<open>transport\<close>.
  \<^item> \<open>Plugins\<close> models what keeps such a plugin reachable (\<^verbatim>\<open>pkg/loop/internal/net/client.go\<close>,
    \<^verbatim>\<open>goplugin/plugin_service.go\<close>): calls on a connection that breaks and is dialed again, as interleaved steps, leak nothing;
    one process runs at a time, and the service outlives it.
  \<^item> \<open>Modifiers\<close> models how a modifier retypes a struct by paths of fields (\<^verbatim>\<open>pkg/codec/modifier_base.go\<close>,
    \<^verbatim>\<open>field_and_indices.go\<close>), the renamer and the combinations of modifiers. Renaming keeps the layout of the memory that it
    casts, and lists of renamers can be undone; the locale \<open>invertible_modifier\<close> is what a list needs of its
    elements. The cases in which the layout is not kept are exhibited.
    \<open>ModifierMaps\<close> models the walk to the fields of a value, the actions on them and the hooks. The locale
    \<open>undoable_action\<close>, interpreted for wrapping, extraction and booleans, is the contract of two directions.
  \<^item> \<open>Secrets\<close> models \<^verbatim>\<open>pkg/workflows/secrets\<close>: every node opens its own share. \<open>Nodes\<close> models the pages of
    \<^verbatim>\<open>pkg/chains/nodes.go\<close>: a client that follows the tokens gets everything once. \<open>Utils\<close> models parts of \<^verbatim>\<open>pkg/utils\<close> and
    \<^verbatim>\<open>pkg/aggregation\<close>: exact averages, quorums that meet, bounded retries, wake-ups that are served.
  \<^item> This theory joins a round of the reporting plugin to an aggregator.

  \<^bold>\<open>How code became definitions.\<close> A struct is a record, an enumeration or a dynamic type a datatype, a
  function or method a definition of the same name where that is free (otherwise with the package or the
  receiver in front), a loop body a definition of its own when the loop has one. Errors and panics are
  values. Integers are words where they can wrap and unbounded where the code only counts. An index out
  of range is \<open>Panic\<close>. A map that is ranged over comes with its order: either that of the list, or an
  argument of which theorems only know that it permutes. Pointers are only explicit where aliasing
  decides a result. Operations under one lock are atomic; the state machine of services, whose accesses
  are not all under its lock, is not.

  \<^bold>\<open>Arguments.\<close> Code that is not in the repository is an argument: marshalling, hash functions,
  sorting, decimals, floating point, \<^verbatim>\<open>mapstructure\<close>, \<^verbatim>\<open>bigbigendian\<close>, the graph package, the report
  codec, the clock. What a theorem needs of them is a named predicate (\<open>vlib_laws\<close>, \<open>dec_laws\<close>,
  \<open>sort_law\<close>, \<open>big_laws\<close>, \<open>graph_laws\<close>, \<open>schema_laws\<close>, \<open>unwrap_law\<close>, \<open>info_laws\<close>,
  \<open>sdk_laws\<close>, \<open>secrets_laws\<close>, injectivity of a hash on the values that occur), and its witness instantiates them. The
  WASM engine and the guest are arguments too.

  \<^bold>\<open>Bounds.\<close> There is no fuel: every recursion is structural or has a termination proof
  (\<open>build_layers\<close>, \<open>swap_ends\<close>), except that \<open>follow_pages\<close> counts the requests of a client and as many as there are
  nodes are proved to be enough. The 256 leaves of a Merkle tree are the code's limit;
  one allocation is limited to \<open>2 ^ 48\<close> bytes, the limit of the Go runtime on 64-bit machines.
  A guest's memory is smaller than two gigabytes in the theorems on it; the default limit is 128 megabytes.

  \<^bold>\<open>Not modelled.\<close> The registration of the capability with the registry and the plugin host; the
  encoding half of \<^verbatim>\<open>CodecFromTypeCodec\<close> and \<^verbatim>\<open>UnwrapTo\<close> into arbitrary structs,
  which work by reflection on Go types; the modifiers for times, byte strings and extracted properties; YAML and JSON schema parsing; the epoch ticker of the WASM host and the engine it calls; the other LOOP
  plugins, which carry every interface over gRPC; generated code; monitoring, dashboards, telemetry and
  database wrappers, which are input and output. Logging and metrics are left out of every function.
\<close>

section \<open>A consensus round from the observations to the report\<close>

lemma observers_observed:
  assumes "\<forall>(p, vs)\<in>set obs. observed L ds e p vs"
  shows "observers cfg obs i (\<lambda>u. u = v) \<subseteq> {p. \<exists>vs. observed L ds e p vs \<and> i < length vs \<and> vs ! i = v} \<or>
    nat (ExpectedObservationsLen cfg) \<le> i"
  using assms by (fastforce simp: observers_def identical_valid_def)

lemma finite_observed: "finite {p. \<exists>vs. observed L ds e p vs \<and> Q vs}"
  by (rule finite_subset [of _ "gomap_dom ds"]) (force simp: observed_def)+

text \<open>
  C2. From the observations to the report. In a round whose workflow uses the identical aggregator,
  every value of a report, at every index, was sent at that index for that execution by at least
  \<open>F + 1\<close> honest oracles in their own messages, whichever \<open>F\<close> oracles are faulty, provided that the
  hash tells the values apart that were sent for the execution.
\<close>

theorem identical_round_honest:
  assumes "outcome_message L unmarshalObs marshalMap sha srt unmarshalQuery unmarshalOutcome getAggregator
             it F seqNr threshold previous query aos = Ok (msg, unregistered)"
    and "unmarshalOutcome previous = Some prev" and "gomap_wf (poOutcomes prev)"
    and "Some \<lparr>prOutcome = Some out, prId = Some weid\<rparr> \<in> set (poCurrentReports msg)"
    and "getAggregator (idWorkflowId weid) = Some (\<lambda>_. identical_Aggregate L marshal sha' it' cfg)"
    and "iteration_order it'" and "distinct (KeyOverrides cfg)" and "i < nat (ExpectedObservationsLen cfg)"
    and "inj_on (hash_of L marshal sha')
      {v. \<exists>p vs. observed L (decoded unmarshalObs aos) (idWorkflowExecutionId weid) p vs \<and> v \<in> set vs}"
    and "finite faulty" and "card faulty \<le> F"
  shows "\<exists>enc v. EncodableOutcome out = Some enc \<and>
    map_of enc (identical_key cfg (nat (ExpectedObservationsLen cfg)) i) = Some (Proto L v) \<and>
    F + 1 \<le> card ({p. \<exists>vs. observed L (decoded unmarshalObs aos) (idWorkflowExecutionId weid) p vs \<and>
      i < length vs \<and> vs ! i = v} - faulty)"
proof -
  let ?seen = "observed L (decoded unmarshalObs aos) (idWorkflowExecutionId weid)"
  from reports_backed [OF assms(1-4)] assms(5) obtain obs out0 where
    agg: "identical_Aggregate L marshal sha' it' cfg obs F = Ok out0" and wf: "gomap_wf obs"
    and seen: "\<forall>(p, vs)\<in>set obs. ?seen p vs" and out: "EncodableOutcome out = EncodableOutcome out0"
    by auto
  have "observed_values cfg obs \<subseteq> {v. \<exists>p vs. ?seen p vs \<and> v \<in> set vs}"
    using seen by (fastforce simp: observed_values_def valid_nodes_def)
  then have inj: "inj_on (hash_of L marshal sha') (observed_values cfg obs)" using assms(9) inj_on_subset by blast
  from identical_quorum [OF agg wf assms(6) inj assms(7,8,10,11)] obtain enc v where
    q: "out0 = aggregated enc [] True" "map_of enc (identical_key cfg (nat (ExpectedObservationsLen cfg)) i) = Some (Proto L v)"
      "F + 1 \<le> card (observers cfg obs i (\<lambda>u. u = v) - faulty)" by blast
  let ?honest = "{p. \<exists>vs. ?seen p vs \<and> i < length vs \<and> vs ! i = v}"
  have "observers cfg obs i (\<lambda>u. u = v) \<subseteq> ?honest"
    using observers_observed [OF seen, of cfg i v] assms(8) by auto
  then have "card (observers cfg obs i (\<lambda>u. u = v) - faulty) \<le> card (?honest - faulty)"
    by (intro card_mono) (auto intro: finite_observed)
  with q out show ?thesis by (intro exI [of _ enc] exI [of _ v]) (simp add: aggregated_def)
qed

text \<open>A round of three oracles, one of which may be faulty, that report the same boolean.\<close>

definition round_cfg :: IdenticalAggConfig where
  "round_cfg = \<lparr>ExpectedObservationsLen = 1, KeyOverrides = [''ok'']\<rparr>"

definition round_aggregator :: "(int \<times> 32 word) aggregator" where
  "round_aggregator = (\<lambda>_. identical_Aggregate pair_vlib sample_marshal (\<lambda>b. b) (\<lambda>es. es) round_cfg)"

definition round_report :: AggregationOutcome where
  "round_report = (aggregated [(''ok'', PBool True)] [] True)\<lparr>LastSeenAt := 20,
     OutcomeTimestamp := Some \<lparr>Seconds = 7, Nanos = 0\<rparr>, EncoderName := ''enc''\<rparr>"

lemma round_Ok:
  "outcome_message pair_vlib ReportingPlugin.sample_observations (\<lambda>_. Some []) (\<lambda>b. b) insertion_sort
     (\<lambda>_. Some [Some sample_id]) (\<lambda>_. Some sample_previous) (\<lambda>_. Some round_aggregator) (\<lambda>m. m)
     1 20 10 [] [] [(0, [7]), (2, [3]), (3, [200])] =
   Ok (\<lparr>poOutcomes = [(''w'', round_report)],
        poCurrentReports = [Some \<lparr>prOutcome = Some round_report, prId = Some sample_id\<rparr>]\<rparr>, [''old''])"
  by code_simp

lemma round_observed:
  "observed pair_vlib (decoded ReportingPlugin.sample_observations [(0, [7]), (2, [3]), (3, [200])]) ''e'' p vs \<Longrightarrow>
     vs = [VBool True]"
  by (auto simp: observed_def decoded_def ReportingPlugin.sample_observations_def FromListValueProto_def)

theorem identical_round_honest_witness:
  "\<exists>enc v. EncodableOutcome round_report = Some enc \<and> map_of enc (identical_key round_cfg 1 0) = Some (Proto pair_vlib v) \<and>
     1 + 1 \<le> card ({p. \<exists>vs. observed pair_vlib
       (decoded ReportingPlugin.sample_observations [(0, [7]), (2, [3]), (3, [200])]) ''e'' p vs \<and>
       0 < length vs \<and> vs ! 0 = v} - {3})"
proof -
  have e: "idWorkflowExecutionId sample_id = ''e''" "nat (ExpectedObservationsLen round_cfg) = 1"
    by (simp_all add: sample_id_def round_cfg_def)
  have "\<exists>enc v. EncodableOutcome round_report = Some enc \<and>
     map_of enc (identical_key round_cfg (nat (ExpectedObservationsLen round_cfg)) 0) = Some (Proto pair_vlib v) \<and>
     1 + 1 \<le> card ({p. \<exists>vs. observed pair_vlib
       (decoded ReportingPlugin.sample_observations [(0, [7]), (2, [3]), (3, [200])]) (idWorkflowExecutionId sample_id) p vs \<and>
       0 < length vs \<and> vs ! 0 = v} - {3})"
    by (rule identical_round_honest [OF round_Ok refl sample_previous_wf _ _ iteration_order_id, where
          marshal = sample_marshal and sha' = "\<lambda>b. b"])
      (auto simp: round_aggregator_def e inj_on_def round_cfg_def dest!: round_observed)
  then show ?thesis unfolding e .
qed

end
